(* ===== verification/TabPrelude.thy ===== *)
theory TabPrelude
  imports Main "HOL-Library.Word"
begin

text \<open>
  Shared vocabulary of the development: the names of the C integer types, the C rules for
  signed division and narrowing casts, the error numbers of
  \<^verbatim>\<open>sdk/include/tabos/filesystem.h\<close>, the calls a component makes into the platform layer, and the
  generic lemmas on words, lists and options that several components use.
\<close>

section \<open>Machine integers\<close>

type_synonym u8 = "8 word"
type_synonym u16 = "16 word"
type_synonym u32 = "32 word"
type_synonym u64 = "64 word"

text \<open>
  Where the code computes with values whose range is known, the models use \<^typ>\<open>int\<close> and write
  every narrowing cast out: \<open>to_u8\<close>, \<open>to_u32\<close>. C divides signed integers towards zero.
\<close>

definition to_u8 :: "int \<Rightarrow> int" where
  "to_u8 x = x mod 2 ^ 8"

definition to_u32 :: "int \<Rightarrow> int" where
  "to_u32 x = x mod 2 ^ 32"

definition c_div :: "int \<Rightarrow> int \<Rightarrow> int" where
  "c_div a b = sgn a * sgn b * (\<bar>a\<bar> div \<bar>b\<bar>)"

definition c_mod :: "int \<Rightarrow> int \<Rightarrow> int" where
  "c_mod a b = a - b * c_div a b"

lemma to_u8_id [simp]: "0 \<le> x \<Longrightarrow> x < 256 \<Longrightarrow> to_u8 x = x"
  by (simp add: to_u8_def)

lemma to_u32_id [simp]: "0 \<le> x \<Longrightarrow> x < 4294967296 \<Longrightarrow> to_u32 x = x"
  by (simp add: to_u32_def)

lemma c_div_nonneg [simp]: "0 \<le> a \<Longrightarrow> 0 < b \<Longrightarrow> c_div a b = a div b"
  by (cases "a = 0") (auto simp: c_div_def)

lemma c_mod_nonneg [simp]: "0 \<le> a \<Longrightarrow> 0 < b \<Longrightarrow> c_mod a b = a mod b"
  by (simp add: c_mod_def minus_mult_div_eq_mod)

lemma int_div_eq:
  fixes a b q :: int
  assumes "b * q \<le> a" and "a < b * q + b"
  shows "a div b = q"
  by (rule int_div_pos_eq [where r = "a - b * q"]) (use assms in simp_all)

lemma int_div_lower: "0 < b \<Longrightarrow> b * (a div b) \<le> (a::int)"
  by (metis mult.commute pos_mod_sign minus_div_mult_eq_mod diff_ge_0_iff_ge)

lemma int_div_upper: "0 < b \<Longrightarrow> (a::int) < b * (a div b) + b"
  by (metis add.commute div_mult_mod_eq mult.commute add_less_cancel_left pos_mod_bound)

section \<open>Error numbers\<close>

definition EPERM :: int where "EPERM = 1"
definition ENOENT :: int where "ENOENT = 2"
definition EAGAIN :: int where "EAGAIN = 11"
definition ENOMEM :: int where "ENOMEM = 12"
definition EACCES :: int where "EACCES = 13"
definition EBUSY :: int where "EBUSY = 16"
definition EIO :: int where "EIO = 5"
definition EBADF :: int where "EBADF = 9"
definition ENODEV :: int where "ENODEV = 19"
definition EXDEV :: int where "EXDEV = 18"
definition ENOTDIR :: int where "ENOTDIR = 20"
definition EINVAL :: int where "EINVAL = 22"
definition EMFILE :: int where "EMFILE = 24"
definition ENAMETOOLONG :: int where "ENAMETOOLONG = 36"

lemmas errno_defs = EPERM_def ENOENT_def EAGAIN_def ENOMEM_def EACCES_def EBUSY_def EIO_def EBADF_def ENODEV_def EXDEV_def ENOTDIR_def EINVAL_def EMFILE_def
  ENAMETOOLONG_def

section \<open>Calls into the platform layer\<close>

text \<open>
  Calls that only signal another thread do not change the state of the component that makes
  them. The models record them, in order, in a log, so that a missing or an extra call is
  visible to a theorem.
\<close>

datatype platform_call =
    Notify nat
  | WakeInput
  | DiagnosticLog
  | FramePresent

definition RUNTIME_EVENT_INPUT :: nat where "RUNTIME_EVENT_INPUT = 1"
definition RUNTIME_EVENT_POINTER :: nat where "RUNTIME_EVENT_POINTER = 2"
definition RUNTIME_EVENT_APPLICATION :: nat where "RUNTIME_EVENT_APPLICATION = 32"
definition RUNTIME_EVENT_DEVICE :: nat where "RUNTIME_EVENT_DEVICE = 64"
definition RUNTIME_EVENT_DEADLINE :: nat where "RUNTIME_EVENT_DEADLINE = 128"
definition RUNTIME_EVENT_POWER :: nat where "RUNTIME_EVENT_POWER = 512"

section \<open>Branches and lists\<close>

text \<open>A property of both branches, for a command whose branches differ too much for one \<open>auto\<close>.\<close>

lemma if_both: "(c \<Longrightarrow> P a) \<Longrightarrow> (\<not> c \<Longrightarrow> P b) \<Longrightarrow> P (if c then a else b)"
  by simp

text \<open>An update of one element that keeps a field keeps that field of every element.\<close>

lemma nth_update_field: "f v = f (xs ! j) \<Longrightarrow> f (xs[j := v] ! i) = f (xs ! i)"
  by (cases "j < length xs") (auto simp: nth_list_update list_update_beyond not_less)

lemma length_filter_update:
  "i < length xs \<Longrightarrow> length (filter P (xs[i := v])) + (if P (xs ! i) then 1 else 0) =
     length (filter P xs) + (if P v then 1 else 0)"
proof (induction xs arbitrary: i)
  case (Cons x xs)
  then show ?case by (cases i) (auto split: if_splits)
qed simp

text \<open>
  A list of pixels (or of any cells) updated in place: \<open>updates P H m m'\<close> says that \<open>m'\<close> is \<open>m\<close> with
  the elements at the positions of \<open>P\<close> rewritten by \<open>H\<close> and every other element kept. The loops
  of the rasteriser compose such updates over disjoint positions.
\<close>

definition updates :: "(nat \<Rightarrow> bool) \<Rightarrow> (nat \<Rightarrow> 'a \<Rightarrow> 'a) \<Rightarrow> 'a list \<Rightarrow> 'a list \<Rightarrow> bool" where
  "updates P H m m' \<longleftrightarrow>
     length m' = length m \<and> (\<forall>j < length m. m' ! j = (if P j then H j (m ! j) else m ! j))"

lemma updates_refl: "(\<And>j. j < length m \<Longrightarrow> P j \<Longrightarrow> H j (m ! j) = m ! j) \<Longrightarrow> updates P H m m"
  by (auto simp: updates_def)

lemma updates_one: "updates (\<lambda>j. j = i) (\<lambda>j old. v) m (m[i := v])"
  by (auto simp: updates_def)

lemma updates_unique: "updates P H m a \<Longrightarrow> updates P H m b \<Longrightarrow> a = b"
  by (auto simp: updates_def intro!: nth_equalityI)

lemma updates_length: "updates P H m m' \<Longrightarrow> length m' = length m"
  by (simp add: updates_def)

lemma updates_cong:
  assumes "updates P H m m'"
    and "\<And>j. j < length m \<Longrightarrow>
      (if P j then H j (m ! j) else m ! j) = (if Q j then G j (m ! j) else m ! j)"
  shows "updates Q G m m'"
  using assms by (simp add: updates_def)

lemma updates_comp:
  assumes "updates P H m m'" and "updates Q H m' m''" and "\<And>j. P j \<Longrightarrow> \<not> Q j"
  shows "updates (\<lambda>j. P j \<or> Q j) H m m''"
  using assms by (auto simp: updates_def)

lemma updates_fold:
  assumes "\<And>k m. k \<in> set ks \<Longrightarrow> updates (P k) H m (f k m)"
    and "distinct ks"
    and "\<And>k l j. k \<in> set ks \<Longrightarrow> l \<in> set ks \<Longrightarrow> P k j \<Longrightarrow> P l j \<Longrightarrow> k = l"
  shows "updates (\<lambda>j. \<exists>k \<in> set ks. P k j) H m (fold f ks m)"
  using assms
proof (induction ks arbitrary: m)
  case Nil
  then show ?case by (simp add: updates_def)
next
  case (Cons k ks)
  have "updates (\<lambda>j. P k j \<or> (\<exists>l \<in> set ks. P l j)) H m (fold f ks (f k m))"
  proof (rule updates_comp)
    show "updates (P k) H m (f k m)" using Cons.prems(1) by simp
    show "updates (\<lambda>j. \<exists>l \<in> set ks. P l j) H (f k m) (fold f ks (f k m))"
      using Cons by (intro Cons.IH) auto
    show "\<not> (\<exists>l \<in> set ks. P l j)" if "P k j" for j
    proof
      assume "\<exists>l \<in> set ks. P l j"
      then obtain l where "l \<in> set ks" and "P l j" by blast
      then have "k = l" using Cons.prems(3) [of k l j] that by simp
      then show False using \<open>l \<in> set ks\<close> Cons.prems(2) by simp
    qed
  qed
  then show ?case by simp
qed

section \<open>Words\<close>

lemma unat_plus_no_wrap:
  fixes a b :: "'a::len word"
  assumes "unat a + unat b < 2 ^ LENGTH('a)"
  shows "unat (a + b) = unat a + unat b"
  using assms by (simp add: unat_word_ariths)

lemma unat_minus_le:
  fixes a b :: "'a::len word"
  assumes "b \<le> a"
  shows "unat (a - b) = unat a - unat b"
  using assms by (rule unat_sub)

end
