(* ===== verification/TimeCore.thy ===== *)
theory TimeCore
  imports TabPrelude
begin

text \<open>
  The monotonic timer service of \<^verbatim>\<open>time/time.c\<close>: saturating deadlines, drift-free periodic
  deadlines, and the timer object. The platform clock is the argument \<open>now\<close>. A pointer that the
  code checks against NULL is an option; callers that pass the address of a static timer use the
  value-level functions \<open>timer_started\<close>, \<open>timer_cleared\<close> and \<open>timer_polled\<close>.
\<close>

section \<open>Deadlines\<close>

definition TIME_DEADLINE_NONE :: u64 where
  "TIME_DEADLINE_NONE = 18446744073709551615"

definition TIME_DEADLINE_LATEST :: u64 where
  "TIME_DEADLINE_LATEST = TIME_DEADLINE_NONE - 1"

definition time_deadline_after :: "u64 \<Rightarrow> u64 \<Rightarrow> u64" where
  "time_deadline_after now delay =
     (if TIME_DEADLINE_LATEST \<le> now \<or> TIME_DEADLINE_LATEST - now < delay
      then TIME_DEADLINE_LATEST
      else now + delay)"

definition time_deadline_advance :: "u64 \<Rightarrow> u64 \<Rightarrow> u64 \<Rightarrow> u64" where
  "time_deadline_advance deadline interval now =
     (if deadline = TIME_DEADLINE_NONE \<or> interval = 0 \<or> TIME_DEADLINE_LATEST \<le> now
      then TIME_DEADLINE_NONE
      else if now < deadline then deadline
      else
        (let elapsed = now - deadline;
             delay = interval - (elapsed mod interval)
         in time_deadline_after now delay))"

section \<open>Timers\<close>

record tabos_timer =
  deadline_ms :: u64
  interval_ms :: u64
  timer_active :: bool

definition timer_cleared :: tabos_timer where
  "timer_cleared = \<lparr>deadline_ms = 0, interval_ms = 0, timer_active = False\<rparr>"

definition timer_started :: "u64 \<Rightarrow> u64 \<Rightarrow> u64 \<Rightarrow> tabos_timer" where
  "timer_started now delay interval =
     \<lparr>deadline_ms = time_deadline_after now delay, interval_ms = interval, timer_active = True\<rparr>"

definition timer_polled :: "u64 \<Rightarrow> tabos_timer \<Rightarrow> bool \<times> tabos_timer" where
  "timer_polled now t =
     (if \<not> timer_active t then (False, t)
      else if now < deadline_ms t then (False, t)
      else if interval_ms t = 0 then (True, t\<lparr>timer_active := False\<rparr>)
      else
        (let t' = t\<lparr>deadline_ms := time_deadline_advance (deadline_ms t) (interval_ms t) now\<rparr>
         in if deadline_ms t' = TIME_DEADLINE_NONE then (True, t'\<lparr>timer_active := False\<rparr>)
            else (True, t')))"

definition timer_deadline :: "tabos_timer \<Rightarrow> u64" where
  "timer_deadline t = (if timer_active t then deadline_ms t else TIME_DEADLINE_NONE)"

definition tabos_timer_start :: "u64 \<Rightarrow> tabos_timer option \<Rightarrow> u64 \<Rightarrow> u64 \<Rightarrow> tabos_timer option" where
  "tabos_timer_start now timer delay interval =
     (case timer of None \<Rightarrow> None | Some _ \<Rightarrow> Some (timer_started now delay interval))"

definition tabos_timer_cancel :: "tabos_timer option \<Rightarrow> tabos_timer option" where
  "tabos_timer_cancel timer = (case timer of None \<Rightarrow> None | Some _ \<Rightarrow> Some timer_cleared)"

definition tabos_timer_is_active :: "tabos_timer option \<Rightarrow> bool" where
  "tabos_timer_is_active timer = (case timer of None \<Rightarrow> False | Some t \<Rightarrow> timer_active t)"

definition time_timer_deadline :: "tabos_timer option \<Rightarrow> u64" where
  "time_timer_deadline timer =
     (if tabos_timer_is_active timer then deadline_ms (the timer) else TIME_DEADLINE_NONE)"

definition tabos_timer_poll :: "u64 \<Rightarrow> tabos_timer option \<Rightarrow> bool \<times> tabos_timer option" where
  "tabos_timer_poll now timer =
     (case timer of
        None \<Rightarrow> (False, None)
      | Some t \<Rightarrow> (let (fired, t') = timer_polled now t in (fired, Some t')))"

section \<open>Arithmetic of deadlines\<close>

lemma unat_deadline_none [simp]: "unat TIME_DEADLINE_NONE = 2 ^ 64 - 1"
  by (simp add: TIME_DEADLINE_NONE_def)

lemma unat_deadline_latest [simp]: "unat TIME_DEADLINE_LATEST = 2 ^ 64 - 2"
  by (simp add: TIME_DEADLINE_LATEST_def TIME_DEADLINE_NONE_def)

lemma unat_deadline_after:
  "unat (time_deadline_after now delay) = min (unat now + unat delay) (2 ^ 64 - 2)"
proof (cases "TIME_DEADLINE_LATEST \<le> now")
  case True
  then have "2 ^ 64 - 2 \<le> unat now"
    by (simp add: word_le_nat_alt)
  with True show ?thesis by (simp add: time_deadline_after_def min_def)
next
  case False
  then have lt: "unat now < 2 ^ 64 - 2" and le: "now \<le> TIME_DEADLINE_LATEST"
    by (simp_all add: word_le_nat_alt)
  have room: "unat (TIME_DEADLINE_LATEST - now) = 2 ^ 64 - 2 - unat now"
    using unat_sub [OF le] by simp
  show ?thesis
  proof (cases "TIME_DEADLINE_LATEST - now < delay")
    case True
    then have "2 ^ 64 - 2 - unat now < unat delay"
      using room by (simp add: word_less_nat_alt)
    moreover have "time_deadline_after now delay = TIME_DEADLINE_LATEST"
      using True by (simp add: time_deadline_after_def)
    moreover have "2 ^ 64 - 2 \<le> unat now + unat delay"
      using calculation(1) lt by linarith
    ultimately show ?thesis by (simp add: min_absorb2)
  next
    case False
    then have "unat delay \<le> 2 ^ 64 - 2 - unat now"
      using room by (simp add: word_less_nat_alt)
    with lt have "unat now + unat delay \<le> 2 ^ 64 - 2" by simp
    with False \<open>\<not> TIME_DEADLINE_LATEST \<le> now\<close> show ?thesis
      by (simp add: time_deadline_after_def unat_word_ariths)
  qed
qed

lemma unat_deadline_advance:
  assumes "deadline \<le> now" and "interval \<noteq> 0" and "now < TIME_DEADLINE_LATEST"
  shows "unat (time_deadline_advance deadline interval now) =
    min (unat now + (unat interval - (unat now - unat deadline) mod unat interval)) (2 ^ 64 - 2)"
proof -
  have "deadline \<noteq> TIME_DEADLINE_NONE"
    using assms(1,3) by (auto simp: word_le_nat_alt word_less_nat_alt)
  moreover have "\<not> TIME_DEADLINE_LATEST \<le> now" "\<not> now < deadline"
    using assms by auto
  moreover have m: "unat ((now - deadline) mod interval) = (unat now - unat deadline) mod unat interval"
    using assms(1) by (simp add: unat_mod unat_sub)
  have pos: "0 < unat interval"
    using assms(2) by (simp add: unat_gt_0)
  have "(now - deadline) mod interval \<le> interval"
    using pos by (simp add: word_le_nat_alt m less_imp_le)
  then have "unat (interval - (now - deadline) mod interval)
      = unat interval - (unat now - unat deadline) mod unat interval"
    by (simp add: unat_sub m)
  ultimately show ?thesis
    using assms(2) by (simp add: time_deadline_advance_def Let_def unat_deadline_after)
qed

text \<open>A deadline that was advanced past \<open>now\<close> lies in the future, by at most one interval.\<close>

lemma deadline_advance_future:
  assumes "deadline \<le> now" and "interval \<noteq> 0" and "now < TIME_DEADLINE_LATEST"
  shows "now < time_deadline_advance deadline interval now"
proof -
  have "0 < unat interval" using assms(2) by (simp add: unat_gt_0)
  then have "(unat now - unat deadline) mod unat interval < unat interval" by simp
  moreover have "unat now < 2 ^ 64 - 2" using assms(3) by (simp add: word_less_nat_alt)
  ultimately show ?thesis
    by (simp add: word_less_nat_alt unat_deadline_advance [OF assms])
qed

lemma timer_polled_inactive [simp]: "\<not> timer_active t \<Longrightarrow> timer_polled now t = (False, t)"
  by (simp add: timer_polled_def)

lemma timer_polled_early: "now < deadline_ms t \<Longrightarrow> timer_polled now t = (False, t)"
  by (simp add: timer_polled_def)

lemma timer_polled_due: "timer_active t \<Longrightarrow> deadline_ms t \<le> now \<Longrightarrow> fst (timer_polled now t)"
  by (simp add: timer_polled_def Let_def)

lemma timer_deadline_cleared [simp]: "timer_deadline timer_cleared = TIME_DEADLINE_NONE"
  by (simp add: timer_deadline_def timer_cleared_def)

lemma timer_active_cleared [simp]: "\<not> timer_active timer_cleared"
  by (simp add: timer_cleared_def)

lemma timer_active_started [simp]: "timer_active (timer_started now delay interval)"
  by (simp add: timer_started_def)

text \<open>What a poll that fires leaves behind: a stopped timer, or one whose deadline is ahead.\<close>

lemma timer_polled_fired:
  assumes "timer_polled now t = (True, t')"
  shows "\<not> timer_active t' \<or> now < deadline_ms t'"
proof (cases "now < TIME_DEADLINE_LATEST \<and> interval_ms t \<noteq> 0 \<and> timer_active t \<and> deadline_ms t \<le> now")
  case True
  then have "now < time_deadline_advance (deadline_ms t) (interval_ms t) now"
    by (intro deadline_advance_future) auto
  with assms True show ?thesis
    by (auto simp: timer_polled_def Let_def split: if_splits)
next
  case False
  with assms show ?thesis
    by (auto simp: timer_polled_def time_deadline_advance_def Let_def split: if_splits)
qed

section \<open>Properties\<close>

text \<open>
  Advancing a periodic deadline that has passed keeps the cadence: the new deadline is the
  first multiple of the interval after \<open>now\<close>, counted from the old deadline, unless that would
  pass the latest representable deadline, where it saturates. Late polls cause no drift.
\<close>
theorem deadline_advance_cadence:
  assumes "deadline \<le> now" and "interval \<noteq> 0" and "now < TIME_DEADLINE_LATEST"
  defines "r \<equiv> time_deadline_advance deadline interval now"
  shows "unat now < unat r \<and> unat r \<le> unat now + unat interval \<and>
    ((unat r - unat deadline) mod unat interval = 0 \<or> r = TIME_DEADLINE_LATEST)"
proof -
  let ?n = "unat now" and ?d = "unat deadline" and ?i = "unat interval"
  let ?t = "?n + (?i - (?n - ?d) mod ?i)"
  have r: "unat r = min ?t (2 ^ 64 - 2)"
    unfolding r_def by (rule unat_deadline_advance [OF assms(1-3)])
  have le: "?d \<le> ?n" using assms(1) by (simp add: word_le_nat_alt)
  have pos: "0 < ?i" using assms(2) by (simp add: unat_gt_0)
  have "?n < unat r"
    using deadline_advance_future [OF assms(1-3)] by (simp add: r_def word_less_nat_alt)
  moreover have "unat r \<le> ?n + ?i" using r by simp
  moreover have "(unat r - ?d) mod ?i = 0 \<or> r = TIME_DEADLINE_LATEST"
  proof (cases "?t \<le> 2 ^ 64 - 2")
    case True
    have "(?n - ?d) mod ?i \<le> ?n - ?d" and "(?n - ?d) mod ?i \<le> ?i"
      using pos by (simp_all add: less_imp_le)
    then have "?t - ?d = (?n - ?d) - (?n - ?d) mod ?i + ?i"
      using le by linarith
    also have "\<dots> = (?n - ?d) div ?i * ?i + ?i"
      by (simp add: minus_mod_eq_div_mult)
    finally show ?thesis using True r by simp
  next
    case False
    then have "unat r = unat TIME_DEADLINE_LATEST" using r by simp
    then show ?thesis by (simp add: word_unat_eq_iff)
  qed
  ultimately show ?thesis by simp
qed

theorem deadline_advance_cadence_witness:
  "time_deadline_advance 1000 400 2300 = 2600"
  using deadline_advance_cadence [of 1000 2300 400]
  by (simp add: time_deadline_advance_def time_deadline_after_def TIME_DEADLINE_LATEST_def
      TIME_DEADLINE_NONE_def)

text \<open>
  A timer fires at most once per clock value: after a poll at \<open>now\<close>, whatever it answered,
  a second poll at the same \<open>now\<close> answers false and changes nothing.
\<close>
theorem timer_poll_once:
  "tabos_timer_poll now (snd (tabos_timer_poll now timer)) =
     (False, snd (tabos_timer_poll now timer))"
proof (cases timer)
  case None
  then show ?thesis by (simp add: tabos_timer_poll_def)
next
  case (Some t)
  obtain fired t' where p: "timer_polled now t = (fired, t')" by fastforce
  have "timer_polled now t' = (False, t')"
  proof (cases fired)
    case True
    then show ?thesis
      using timer_polled_fired [of now t t'] p timer_polled_early by auto
  next
    case False
    then show ?thesis
      using p by (auto simp: timer_polled_def Let_def split: if_splits)
  qed
  with Some p show ?thesis by (simp add: tabos_timer_poll_def)
qed

end
