(* ===== verification/WallClock.thy ===== *)
theory WallClock
  imports TabPrelude
begin

text \<open>
  The calendar arithmetic of \<^verbatim>\<open>time/wall_clock.c\<close>: conversion between Unix seconds and broken-down
  UTC dates (years 1970 to 9999) by the civil-from-days method. Fields are integers; each cast of
  the code is written out, so that a value outside its C type would change the result.
\<close>

section \<open>Calendar functions\<close>

record tabos_datetime =
  dt_year :: int
  dt_month :: int
  dt_day :: int
  dt_weekday :: int
  dt_hour :: int
  dt_minute :: int
  dt_second :: int

definition leap_year :: "int \<Rightarrow> bool" where
  "leap_year year \<longleftrightarrow>
     c_mod year 4 = 0 \<and> (c_mod year 100 \<noteq> 0 \<or> c_mod year 400 = 0)"

definition days_in_month :: "int \<Rightarrow> int \<Rightarrow> int" where
  "days_in_month year month =
     (let days = [31, 28, 31, 30, 31, 30, 31, 31, 30, 31, 30, 31]
      in if month = 2 \<and> leap_year year then 29 else days ! nat (month - 1))"

definition days_from_civil :: "int \<Rightarrow> int \<Rightarrow> int \<Rightarrow> int" where
  "days_from_civil year month day =
     (let adjusted_year = (if month \<le> 2 then year - 1 else year);
          era = (if 0 \<le> adjusted_year then c_div adjusted_year 400
                 else c_div (adjusted_year - 399) 400);
          year_of_era = to_u32 (adjusted_year - era * 400);
          adjusted_month = (if 2 < month then to_u32 (month - 3) else to_u32 (month + 9));
          day_of_year = to_u32 (to_u32 (153 * adjusted_month + 2) div 5 + day - 1);
          day_of_era = to_u32 (year_of_era * 365 + year_of_era div 4 - year_of_era div 100 + day_of_year)
      in era * 146097 + day_of_era - 719468)"

definition wall_clock_datetime_valid :: "tabos_datetime option \<Rightarrow> bool" where
  "wall_clock_datetime_valid datetime =
     (case datetime of
        None \<Rightarrow> False
      | Some d \<Rightarrow>
          (if dt_year d < 1970 \<or> dt_year d > 9999 \<or> dt_month d < 1 \<or> dt_month d > 12 \<or> dt_day d < 1 \<or>
              dt_hour d > 23 \<or> dt_minute d > 59 \<or> dt_second d > 59 \<or> dt_weekday d > 6
           then False
           else dt_day d \<le> days_in_month (dt_year d) (dt_month d)))"

definition wall_clock_datetime_to_epoch :: "tabos_datetime option \<Rightarrow> int option" where
  "wall_clock_datetime_to_epoch datetime =
     (if \<not> wall_clock_datetime_valid datetime then None
      else
        (let d = the datetime;
             days = days_from_civil (dt_year d) (dt_month d) (dt_day d)
         in Some (days * 86400 + dt_hour d * 3600 + dt_minute d * 60 + dt_second d)))"

definition wall_clock_epoch_to_datetime :: "int \<Rightarrow> tabos_datetime option" where
  "wall_clock_epoch_to_datetime seconds =
     (if seconds < 0 \<or> seconds > 253402300799 then None
      else
        (let days0 = c_div seconds 86400;
             daily = c_mod seconds 86400;
             weekday_days = days0 + 4;
             days = days0 + 719468;
             era = (if 0 \<le> days then c_div days 146097 else c_div (days - 146096) 146097);
             day_of_era = to_u32 (days - era * 146097);
             year_of_era =
               to_u32 (day_of_era - day_of_era div 1460 + day_of_era div 36524 - day_of_era div 146096) div 365;
             year = year_of_era + era * 400;
             day_of_year =
               to_u32 (day_of_era - to_u32 (365 * year_of_era + year_of_era div 4 - year_of_era div 100));
             month_prime = to_u32 (5 * day_of_year + 2) div 153;
             day = to_u8 (to_u32 (day_of_year - to_u32 (153 * month_prime + 2) div 5 + 1));
             month = to_u8 (if month_prime < 10 then to_u32 (month_prime + 3) else to_u32 (month_prime - 9));
             year' = (if month \<le> 2 then year + 1 else year)
         in if year' < 1970 \<or> year' > 9999 then None
            else Some \<lparr>dt_year = year', dt_month = month, dt_day = day,
                       dt_weekday = to_u8 (c_mod weekday_days 7),
                       dt_hour = to_u8 (c_div daily 3600),
                       dt_minute = to_u8 (c_div (c_mod daily 3600) 60),
                       dt_second = to_u8 (c_mod daily 60)\<rparr>))"

section \<open>The 400-year cycle\<close>

text \<open>
  A day of the 146097-day cycle is a century, a four-year block, a year and a day of the
  (March-based) year; the day 365 exists in leap years only.
\<close>

definition cycle_day :: "int \<Rightarrow> int \<Rightarrow> int \<Rightarrow> int \<Rightarrow> bool" where
  "cycle_day c q r d \<longleftrightarrow> 0 \<le> c \<and> c \<le> 3 \<and> 0 \<le> q \<and> q \<le> 24 \<and> 0 \<le> r \<and> r \<le> 3 \<and>
     0 \<le> d \<and> d \<le> 365 \<and> (d = 365 \<longrightarrow> r = 3 \<and> (q \<noteq> 24 \<or> c = 3))"

lemma cycle_day_exists:
  assumes "0 \<le> doe" and "doe < 146097"
  obtains c q r d where "doe = 36524 * c + 1461 * q + 365 * r + d" and "cycle_day c q r d"
proof -
  define c where "c = min 3 (doe div 36524)"
  define a where "a = doe - 36524 * c"
  have c: "0 \<le> c" "c \<le> 3" and a: "0 \<le> a" "a \<le> 36524" "c \<noteq> 3 \<Longrightarrow> a < 36524"
    using assms int_div_lower [of 36524 doe] int_div_upper [of 36524 doe]
    by (auto simp: c_def a_def min_def)
  define q where "q = a div 1461"
  define b where "b = a - 1461 * q"
  have q: "1461 * q \<le> a" "a < 1461 * q + 1461"
    using int_div_lower [of 1461 a] int_div_upper [of 1461 a] by (simp_all add: q_def)
  then have qb: "0 \<le> q" "q \<le> 24" and b: "0 \<le> b" "b \<le> 1460" "q = 24 \<Longrightarrow> c \<noteq> 3 \<Longrightarrow> b < 1460"
    using a by (auto simp: b_def)
  define r where "r = min 3 (b div 365)"
  define d where "d = b - 365 * r"
  have "0 \<le> r \<and> r \<le> 3 \<and> 0 \<le> d \<and> d \<le> 365 \<and> (d = 365 \<longrightarrow> r = 3 \<and> b = 1460)"
    using b(1,2) int_div_lower [of 365 b] int_div_upper [of 365 b]
    by (cases "3 \<le> b div 365") (simp_all add: r_def d_def min_def)
  then have "cycle_day c q r d"
    using c qb b(3) by (auto simp: cycle_day_def)
  moreover have "doe = 36524 * c + 1461 * q + 365 * r + d"
    by (simp add: a_def b_def d_def)
  ultimately show thesis using that by blast
qed

lemma cycle_day_bounds:
  assumes "cycle_day c q r d"
  shows "0 \<le> 36524 * c + 1461 * q + 365 * r + d" and "36524 * c + 1461 * q + 365 * r + d < 146097"
    and "0 \<le> 100 * c + 4 * q + r" and "100 * c + 4 * q + r < 400"
    and "(100 * c + 4 * q + r) div 4 = 25 * c + q" and "(100 * c + 4 * q + r) div 100 = c"
proof -
  have ax: "0 \<le> c" "c \<le> 3" "0 \<le> q" "q \<le> 24" "0 \<le> r" "r \<le> 3" "0 \<le> d" "d \<le> 365"
    "d = 365 \<Longrightarrow> r = 3 \<and> (q \<noteq> 24 \<or> c = 3)"
    using assms by (auto simp: cycle_day_def)
  show "0 \<le> 36524 * c + 1461 * q + 365 * r + d" "0 \<le> 100 * c + 4 * q + r"
    "100 * c + 4 * q + r < 400"
    using ax(1-8) by linarith+
  show "36524 * c + 1461 * q + 365 * r + d < 146097"
    using ax(1-8) by linarith
  show "(100 * c + 4 * q + r) div 4 = 25 * c + q"
    using ax by (intro int_div_eq) auto
  show "(100 * c + 4 * q + r) div 100 = c"
    using ax by (intro int_div_eq) auto
qed

lemma cycle_day_year:
  assumes "cycle_day c q r d"
  defines "doe \<equiv> 36524 * c + 1461 * q + 365 * r + d"
  shows "(doe - doe div 1460 + doe div 36524 - doe div 146096) div 365 = 100 * c + 4 * q + r"
    and "0 \<le> doe - doe div 1460 + doe div 36524 - doe div 146096"
    and "doe - doe div 1460 + doe div 36524 - doe div 146096 < 4294967296"
proof -
  have ax: "0 \<le> c" "c \<le> 3" "0 \<le> q" "q \<le> 24" "0 \<le> r" "r \<le> 3" "0 \<le> d" "d \<le> 365"
    and leap: "d = 365 \<Longrightarrow> r = 3 \<and> (q \<noteq> 24 \<or> c = 3)"
    using assms(1) by (auto simp: cycle_day_def)
  define e where "e = (24 * c + q + 365 * r + d) div 1460"
  have "doe = 1460 * (25 * c + q) + (24 * c + q + 365 * r + d)"
    by (simp add: doe_def)
  then have A: "doe div 1460 = 25 * c + q + e"
    by (simp add: e_def)
  have e: "1460 * e \<le> 24 * c + q + 365 * r + d" "24 * c + q + 365 * r + d < 1460 * e + 1460"
    using int_div_lower [of 1460] int_div_upper [of 1460] by (simp_all add: e_def)
  have B: "doe div 36524 - doe div 146096 = c"
  proof (cases "doe = 146096")
    case True
    then have "c = 3" using ax by (simp add: doe_def)
    with True show ?thesis by simp
  next
    case False
    have "doe < 146097" "0 \<le> doe"
      using cycle_day_bounds(1,2) [OF assms(1)] by (simp_all add: doe_def)
    with False have C: "doe div 146096 = 0" by simp
    have "1461 * q + 365 * r + d < 36524"
      using ax leap False by (cases "d = 365") (auto simp: doe_def)
    then have "doe div 36524 = c"
      by (intro int_div_eq) (use ax in \<open>simp_all add: doe_def\<close>)
    with C show ?thesis by simp
  qed
  have N: "doe - doe div 1460 + doe div 36524 - doe div 146096
      = 365 * (100 * c + 4 * q + r) + (d - e)"
    using A B by (simp add: doe_def)
  have de: "0 \<le> d - e" "d - e \<le> 364"
    using ax e leap by (cases "d = 365"; simp; linarith)+
  show "(doe - doe div 1460 + doe div 36524 - doe div 146096) div 365 = 100 * c + 4 * q + r"
    unfolding N using de by simp
  show "0 \<le> doe - doe div 1460 + doe div 36524 - doe div 146096"
    and "doe - doe div 1460 + doe div 36524 - doe div 146096 < 4294967296"
    unfolding N using de ax by auto
qed

text \<open>The month formulas, checked on the 366 days of a year.\<close>

definition month_of_day :: "int \<Rightarrow> int" where
  "month_of_day d = (let mp = (5 * d + 2) div 153 in if mp < 10 then mp + 3 else mp - 9)"

definition day_of_month :: "int \<Rightarrow> int" where
  "day_of_month d = d - (153 * ((5 * d + 2) div 153) + 2) div 5 + 1"

definition month_ok :: "int \<Rightarrow> bool" where
  "month_ok d \<longleftrightarrow>
     (let mp = (5 * d + 2) div 153; m = month_of_day d; k = day_of_month d
      in 0 \<le> mp \<and> mp \<le> 11 \<and> 1 \<le> m \<and> m \<le> 12 \<and> 1 \<le> k \<and> k \<le> 31 \<and>
         k \<le> [31, 29, 31, 30, 31, 30, 31, 31, 30, 31, 30, 31] ! nat (m - 1) \<and>
         (m = 2 \<and> k = 29 \<longrightarrow> d = 365) \<and>
         (if 2 < m then m - 3 else m + 9) = mp \<and>
         (153 * mp + 2) div 5 + k - 1 = d \<and> (m \<le> 2 \<longleftrightarrow> 10 \<le> mp))"

lemma month_ok:
  assumes "0 \<le> d" and "d \<le> 365"
  shows "month_ok d"
proof -
  define mp where "mp = (5 * d + 2) div 153"
  have b: "153 * mp \<le> 5 * d + 2" "5 * d + 2 < 153 * mp + 153"
    using int_div_lower [of 153 "5 * d + 2"] int_div_upper [of 153 "5 * d + 2"]
    by (simp_all add: mp_def)
  then have "0 \<le> mp" "mp \<le> 11" using assms by linarith+
  then have "mp = 0 \<or> mp = 1 \<or> mp = 2 \<or> mp = 3 \<or> mp = 4 \<or> mp = 5 \<or> mp = 6 \<or> mp = 7 \<or>
      mp = 8 \<or> mp = 9 \<or> mp = 10 \<or> mp = 11"
    by presburger
  then show ?thesis
    using b assms
    by (elim disjE) (simp_all add: month_ok_def month_of_day_def day_of_month_def Let_def flip: mp_def)
qed

lemma month_facts:
  assumes "0 \<le> d" and "d \<le> 365" and mp: "mp = (5 * d + 2) div 153"
  shows "0 \<le> mp" "mp \<le> 11" "1 \<le> month_of_day d" "month_of_day d \<le> 12"
    "1 \<le> day_of_month d" "day_of_month d \<le> 31"
    "(if 2 < month_of_day d then month_of_day d - 3 else month_of_day d + 9) = mp"
    "(153 * mp + 2) div 5 + day_of_month d - 1 = d"
    "month_of_day d \<le> 2 \<longleftrightarrow> 10 \<le> mp"
    "day_of_month d \<le> [31, 29, 31, 30, 31, 30, 31, 31, 30, 31, 30, 31] ! nat (month_of_day d - 1)"
    "month_of_day d = 2 \<Longrightarrow> day_of_month d = 29 \<Longrightarrow> d = 365"
    "month_of_day d = (if mp < 10 then mp + 3 else mp - 9)"
    "day_of_month d = d - (153 * mp + 2) div 5 + 1"
  using month_ok [OF assms(1,2)] unfolding month_ok_def Let_def mp [symmetric]
  by (blast | simp add: month_of_day_def day_of_month_def Let_def mp)+

text \<open>The civil year of a cycle day: January and February belong to the next year.\<close>

definition civil_year :: "int \<Rightarrow> int \<Rightarrow> int \<Rightarrow> int \<Rightarrow> int \<Rightarrow> int" where
  "civil_year era c q r d =
     400 * era + (100 * c + 4 * q + r) + (if month_of_day d \<le> 2 then 1 else 0)"

definition day_number :: "int \<Rightarrow> int \<Rightarrow> int \<Rightarrow> int \<Rightarrow> int \<Rightarrow> int" where
  "day_number era c q r d = era * 146097 + (36524 * c + 1461 * q + 365 * r + d)"

lemma cycle_day_ranges:
  assumes "cycle_day c q r d"
  shows "0 \<le> c" "c \<le> 3" "0 \<le> q" "q \<le> 24" "0 \<le> r" "r \<le> 3" "0 \<le> d" "d \<le> 365"
    "d = 365 \<Longrightarrow> r = 3 \<and> (q \<noteq> 24 \<or> c = 3)"
  using assms by (auto simp: cycle_day_def)

lemma days_from_civil_cycle:
  assumes "cycle_day c q r d" and "0 \<le> era"
  shows "days_from_civil (civil_year era c q r d) (month_of_day d) (day_of_month d)
    = day_number era c q r d - 719468"
proof -
  note ax = cycle_day_ranges [OF assms(1)] and cb = cycle_day_bounds [OF assms(1)]
  define yoe where "yoe = 100 * c + 4 * q + r"
  define doe where "doe = 36524 * c + 1461 * q + 365 * r + d"
  define mp where "mp = (5 * d + 2) div 153"
  define m where "m = month_of_day d"
  define k where "k = day_of_month d"
  have ok: "0 \<le> mp" "mp \<le> 11" "1 \<le> m" "m \<le> 12" "1 \<le> k"
    "(if 2 < m then m - 3 else m + 9) = mp" "(153 * mp + 2) div 5 + k - 1 = d"
    unfolding m_def k_def using month_facts [OF ax(7,8) mp_def] by blast+
  have yb: "0 \<le> yoe" "yoe < 400" and db: "0 \<le> doe" "doe < 146097"
    and doe: "yoe * 365 + yoe div 4 - yoe div 100 + d = doe"
    using cb unfolding yoe_def doe_def by simp_all
  have adj: "(if m \<le> 2 then civil_year era c q r d - 1 else civil_year era c q r d) = 400 * era + yoe"
    by (simp add: civil_year_def m_def yoe_def)
  have era: "(400 * era + yoe) div 400 = era"
    using yb assms(2) by (intro int_div_eq) auto
  have pos: "0 \<le> 400 * era + yoe" using yb assms(2) by simp
  have am: "(if 2 < m then to_u32 (m - 3) else to_u32 (m + 9)) = mp"
    using ok by (auto split: if_splits)
  have doy: "to_u32 (to_u32 (153 * mp + 2) div 5 + k - 1) = d"
    using ok ax by simp
  have "days_from_civil (civil_year era c q r d) m k = era * 146097 + doe - 719468"
    using pos yb db by (simp add: days_from_civil_def Let_def adj am doy era doe)
  then show ?thesis by (simp add: m_def k_def doe_def day_number_def)
qed

text \<open>The decoding of an epoch value, in terms of the cycle.\<close>

lemma epoch_to_datetime_cycle:
  assumes cyc: "cycle_day c q r d" and s: "0 \<le> s" "s \<le> 253402300799"
    and day: "s div 86400 + 719468 = day_number era c q r d"
  shows "wall_clock_epoch_to_datetime s = Some
    \<lparr>dt_year = civil_year era c q r d, dt_month = month_of_day d, dt_day = day_of_month d,
     dt_weekday = (s div 86400 + 4) mod 7, dt_hour = s mod 86400 div 3600,
     dt_minute = s mod 86400 mod 3600 div 60, dt_second = s mod 86400 mod 60\<rparr>"
    and "1970 \<le> civil_year era c q r d" and "civil_year era c q r d \<le> 9999" and "4 \<le> era"
proof -
  note ax = cycle_day_ranges [OF cyc] and cb = cycle_day_bounds [OF cyc]
  define yoe where "yoe = 100 * c + 4 * q + r"
  define doe where "doe = 36524 * c + 1461 * q + 365 * r + d"
  define mp where "mp = (5 * d + 2) div 153"
  note mf = month_facts [OF ax(7,8) mp_def]
  have mpb: "153 * mp \<le> 5 * d + 2" "5 * d + 2 < 153 * mp + 153"
    using int_div_lower [of 153 "5 * d + 2"] int_div_upper [of 153 "5 * d + 2"]
    by (simp_all add: mp_def)
  have yb: "0 \<le> yoe" "yoe < 400" and db: "0 \<le> doe" "doe < 146097"
    and y4: "yoe div 4 = 25 * c + q" and y100: "yoe div 100 = c"
    using cb unfolding yoe_def doe_def by simp_all
  have yr: "to_u32 (doe - doe div 1460 + doe div 36524 - doe div 146096) div 365 = yoe"
    using cycle_day_year(1) [OF cyc, folded doe_def yoe_def]
      to_u32_id [OF cycle_day_year(2,3) [OF cyc, folded doe_def]] by (simp only:)
  have sd: "0 \<le> s div 86400" "s div 86400 \<le> 2932896"
    using s int_div_lower [of 86400 s] int_div_upper [of 86400 s] by linarith+
  have day': "s div 86400 + 719468 = era * 146097 + doe"
    using day by (simp add: day_number_def doe_def)
  have eb: "4 \<le> era" "era \<le> 24"
    using sd db day' by linarith+
  have era: "(s div 86400 + 719468) div 146097 = era"
    unfolding day' using db by (intro int_div_eq) auto
  have doy: "to_u32 (doe - to_u32 (365 * yoe + yoe div 4 - yoe div 100)) = d"
  proof -
    have "365 * yoe + yoe div 4 - yoe div 100 = doe - d"
      unfolding y4 y100 by (simp add: yoe_def doe_def)
    moreover have "0 \<le> doe - d" "doe - d < 4294967296" using ax db by (simp_all add: doe_def)
    ultimately show ?thesis using ax by simp
  qed
  show "4 \<le> era" by (rule eb)
  have rel: "doe = 365 * yoe + 24 * c + q + d" by (simp add: doe_def yoe_def)
  have base: "400 * era + yoe \<le> 9999" "1969 \<le> 400 * era + yoe"
  proof -
    show "400 * era + yoe \<le> 9999" using eb yb by linarith
    have "369 \<le> yoe" if "era = 4"
      using that rel day' sd(1) ax(1-8) by linarith
    then show "1969 \<le> 400 * era + yoe"
      using eb yb by (cases "era = 4") linarith+
  qed
  have last: "mp < 10" if "400 * era + yoe = 9999"
  proof -
    have e: "era = 24" "yoe = 399" using that eb yb by linarith+
    then have "c = 3" using ax(1-6) unfolding yoe_def by linarith
    with e have "q = 24" using ax(1-6) unfolding yoe_def by linarith
    then show ?thesis using rel e \<open>c = 3\<close> day' sd(2) mpb by linarith
  qed
  have first: "10 \<le> mp" if "400 * era + yoe = 1969"
  proof -
    have "era = 4" using that eb yb by linarith
    with that have e: "era = 4" "yoe = 369" by linarith+
    then have "c = 3" using ax(1-6) unfolding yoe_def by linarith
    with e have "q = 17" using ax(1-6) unfolding yoe_def by linarith
    then show ?thesis using rel e \<open>c = 3\<close> day' sd(1) mpb by linarith
  qed
  have cy: "civil_year era c q r d = 400 * era + yoe + (if month_of_day d \<le> 2 then 1 else 0)"
    by (simp add: civil_year_def yoe_def)
  show lo: "1970 \<le> civil_year era c q r d" and hi: "civil_year era c q r d \<le> 9999"
  proof -
    have "400 * era + yoe \<le> 9998" if "10 \<le> mp"
      using that base(1) last by (cases "400 * era + yoe = 9999") auto
    moreover have "1970 \<le> 400 * era + yoe" if "\<not> 10 \<le> mp"
      using that base(2) first by (cases "400 * era + yoe = 1969") auto
    ultimately show "1970 \<le> civil_year era c q r d" and "civil_year era c q r d \<le> 9999"
      using base mf(9) by (auto simp: cy)
  qed
  show "wall_clock_epoch_to_datetime s = Some
    \<lparr>dt_year = civil_year era c q r d, dt_month = month_of_day d, dt_day = day_of_month d,
     dt_weekday = (s div 86400 + 4) mod 7, dt_hour = s mod 86400 div 3600,
     dt_minute = s mod 86400 mod 3600 div 60, dt_second = s mod 86400 mod 60\<rparr>"
  proof -
    have mon: "to_u8 (if mp < 10 then to_u32 (mp + 3) else to_u32 (mp - 9)) = month_of_day d"
      using mf(1-4,12) by (auto split: if_splits)
    have dom: "to_u8 (to_u32 (d - to_u32 (153 * mp + 2) div 5 + 1)) = day_of_month d"
      using mf(1,2,5,6,13) by simp
    have mp': "to_u32 (5 * d + 2) div 153 = mp" using ax by (simp add: mp_def)
    have doe': "to_u32 (s div 86400 + 719468 - era * 146097) = doe"
      using day' db by simp
    have time: "0 \<le> s mod 86400" "s mod 86400 < 86400" by simp_all
    have wd: "to_u8 (c_mod (s div 86400 + 4) 7) = (s div 86400 + 4) mod 7"
      using sd by simp
    have hh: "to_u8 (c_div (s mod 86400) 3600) = s mod 86400 div 3600"
      using time by simp
    have mi: "to_u8 (c_div (c_mod (s mod 86400) 3600) 60) = s mod 86400 mod 3600 div 60"
      using time by simp
    have se: "to_u8 (c_mod (s mod 86400) 60) = s mod 86400 mod 60"
      using time by simp
    have s0: "c_div s 86400 = s div 86400" "c_mod s 86400 = s mod 86400" using s by simp_all
    have ce: "(if 0 \<le> s div 86400 + 719468 then c_div (s div 86400 + 719468) 146097
        else c_div (s div 86400 + 719468 - 146096) 146097) = era"
      using sd era by simp
    have rng: "\<not> (s < 0 \<or> s > 253402300799)" using s by simp
    have yy: "(if month_of_day d \<le> 2 then yoe + era * 400 + 1 else yoe + era * 400)
        = civil_year era c q r d"
      by (simp add: cy)
    show ?thesis
      unfolding wall_clock_epoch_to_datetime_def Let_def if_not_P [OF rng] s0 ce doe' yr doy mp'
        mon dom wd hh mi se yy
      using lo hi by simp
  qed
qed

section \<open>Dates as cycle days\<close>

text \<open>The fields of the struct fit their C types.\<close>

definition datetime_typed :: "tabos_datetime \<Rightarrow> bool" where
  "datetime_typed d \<longleftrightarrow> 0 \<le> dt_month d \<and> 0 \<le> dt_day d \<and> 0 \<le> dt_weekday d \<and> 0 \<le> dt_hour d \<and>
     0 \<le> dt_minute d \<and> 0 \<le> dt_second d"

text \<open>Every date of a month is a day of the March-based year.\<close>

lemma month_day_exists:
  assumes "1 \<le> m" and "m \<le> 12" and "1 \<le> k"
    and "k \<le> [31, 29, 31, 30, 31, 30, 31, 31, 30, 31, 30, 31] ! nat (m - 1)"
  obtains d where "0 \<le> d" and "d \<le> 365" and "month_of_day d = m" and "day_of_month d = k"
    and "d = 365 \<longleftrightarrow> m = 2 \<and> k = 29"
proof -
  define mp where "mp = (if 2 < m then m - 3 else m + 9)"
  define d where "d = (153 * mp + 2) div 5 + k - 1"
  have "m = 1 \<or> m = 2 \<or> m = 3 \<or> m = 4 \<or> m = 5 \<or> m = 6 \<or> m = 7 \<or> m = 8 \<or> m = 9 \<or> m = 10 \<or>
      m = 11 \<or> m = 12"
    using assms(1,2) by presburger
  then have d: "0 \<le> d \<and> d \<le> 365 \<and> 153 * mp \<le> 5 * d + 2 \<and> 5 * d + 2 < 153 * mp + 153 \<and>
      (d = 365 \<longleftrightarrow> m = 2 \<and> k = 29)"
    using assms(3,4) by (elim disjE) (auto simp: d_def mp_def)
  then have mp: "(5 * d + 2) div 153 = mp"
    by (intro int_div_eq) auto
  have "month_of_day d = m" and "day_of_month d = k"
    using assms(1,2) unfolding month_of_day_def day_of_month_def Let_def mp
    by (auto simp: mp_def d_def)
  with d that show thesis by blast
qed

lemma leap_year_cycle:
  assumes "0 \<le> y" and y: "y = 400 * era + (100 * c + 4 * q + r) + 1"
    and "0 \<le> c" "c \<le> 3" "0 \<le> q" "q \<le> 24" "0 \<le> r" "r \<le> 3"
  shows "leap_year y \<longleftrightarrow> r = 3 \<and> (q \<noteq> 24 \<or> c = 3)"
proof -
  have mod_iff: "y mod n = 0 \<longleftrightarrow> t = n" if "y = n * K + t" "1 \<le> t" "t \<le> n" for n K t :: int
  proof (cases "t = n")
    case True
    with that show ?thesis by simp
  next
    case False
    with that show ?thesis by (simp add: mod_pos_pos_trivial)
  qed
  have "y mod 4 = 0 \<longleftrightarrow> r + 1 = 4"
    by (rule mod_iff [where K = "100 * era + 25 * c + q"]) (use assms in auto)
  moreover have "y mod 100 = 0 \<longleftrightarrow> 4 * q + r + 1 = 100"
    by (rule mod_iff [where K = "4 * era + c"]) (use assms in auto)
  moreover have "y mod 400 = 0 \<longleftrightarrow> 100 * c + 4 * q + r + 1 = 400"
    by (rule mod_iff [where K = era]) (use assms in auto)
  ultimately show ?thesis
    using assms(1,3-) by (auto simp: leap_year_def)
qed

lemma valid_date_cycle:
  assumes "wall_clock_datetime_valid (Some t)"
  obtains era c q r d where "cycle_day c q r d" and "4 \<le> era"
    and "dt_year t = civil_year era c q r d" and "dt_month t = month_of_day d"
    and "dt_day t = day_of_month d"
proof -
  let ?y = "dt_year t" and ?m = "dt_month t" and ?k = "dt_day t"
  have v: "1970 \<le> ?y" "1 \<le> ?m" "?m \<le> 12" "1 \<le> ?k" "?k \<le> days_in_month ?y ?m"
    using assms by (auto simp: wall_clock_datetime_valid_def split: if_splits)
  have "?m = 1 \<or> ?m = 2 \<or> ?m = 3 \<or> ?m = 4 \<or> ?m = 5 \<or> ?m = 6 \<or> ?m = 7 \<or> ?m = 8 \<or> ?m = 9 \<or> ?m = 10 \<or>
      ?m = 11 \<or> ?m = 12"
    using v(2,3) by presburger
  then have tab: "?k \<le> [31, 29, 31, 30, 31, 30, 31, 31, 30, 31, 30, 31] ! nat (?m - 1)"
    and feb: "?m = 2 \<Longrightarrow> ?k = 29 \<Longrightarrow> leap_year ?y"
    using v(5) by (elim disjE; simp add: days_in_month_def split: if_splits)+
  obtain d where d: "0 \<le> d" "d \<le> 365" "month_of_day d = ?m" "day_of_month d = ?k"
    and d365: "d = 365 \<longleftrightarrow> ?m = 2 \<and> ?k = 29"
    using month_day_exists [OF v(2,3,4) tab] by blast
  define Y where "Y = (if ?m \<le> 2 then ?y - 1 else ?y)"
  define era where "era = Y div 400"
  define yoe where "yoe = Y - 400 * era"
  define c where "c = yoe div 100"
  define q where "q = (yoe - 100 * c) div 4"
  define r where "r = yoe - 100 * c - 4 * q"
  have Y: "1969 \<le> Y" using v(1) by (simp add: Y_def)
  have e: "400 * era \<le> Y" "Y < 400 * era + 400"
    using int_div_lower [of 400 Y] int_div_upper [of 400 Y] by (simp_all add: era_def)
  have cc: "100 * c \<le> yoe" "yoe < 100 * c + 100"
    using int_div_lower [of 100 yoe] int_div_upper [of 100 yoe] by (simp_all add: c_def)
  have qq: "4 * q \<le> yoe - 100 * c" "yoe - 100 * c < 4 * q + 4"
    using int_div_lower [of 4 "yoe - 100 * c"] int_div_upper [of 4 "yoe - 100 * c"]
    by (simp_all add: q_def)
  have b: "0 \<le> c" "c \<le> 3" "0 \<le> q" "q \<le> 24" "0 \<le> r" "r \<le> 3"
    using e cc qq by (simp_all add: yoe_def r_def)
  have yoe: "yoe = 100 * c + 4 * q + r" by (simp add: r_def)
  have "r = 3 \<and> (q \<noteq> 24 \<or> c = 3)" if "d = 365"
  proof -
    from that d365 have m2: "?m = 2" "?k = 29" by auto
    then have "?y = 400 * era + (100 * c + 4 * q + r) + 1"
      using yoe by (simp add: Y_def yoe_def)
    with feb [OF m2] leap_year_cycle [of ?y era c q r] v(1) b show ?thesis by simp
  qed
  then have "cycle_day c q r d" using b d by (auto simp: cycle_day_def)
  moreover have "4 \<le> era" using Y e by linarith
  moreover have "?y = civil_year era c q r d"
    using yoe d(3) by (simp add: civil_year_def Y_def yoe_def split: if_splits)
  ultimately show thesis using that d by metis
qed

lemma cycle_day_valid:
  assumes cyc: "cycle_day c q r d" and "0 \<le> era"
  shows "day_of_month d \<le> days_in_month (civil_year era c q r d) (month_of_day d)"
proof -
  note ax = cycle_day_ranges [OF cyc]
  note mf = month_facts [OF ax(7,8) refl]
  let ?m = "month_of_day d"
  have leap: "leap_year (civil_year era c q r d)" if "?m = 2" "day_of_month d = 29"
  proof -
    have "d = 365" using mf(11) that by blast
    moreover have "civil_year era c q r d = 400 * era + (100 * c + 4 * q + r) + 1"
      using that by (simp add: civil_year_def)
    ultimately show ?thesis
      using leap_year_cycle [of _ era c q r] ax assms(2) by simp
  qed
  have "?m = 1 \<or> ?m = 2 \<or> ?m = 3 \<or> ?m = 4 \<or> ?m = 5 \<or> ?m = 6 \<or> ?m = 7 \<or> ?m = 8 \<or> ?m = 9 \<or> ?m = 10 \<or>
      ?m = 11 \<or> ?m = 12"
    using mf(3,4) by presburger
  moreover have "day_of_month d \<le> 28" if "?m = 2" "\<not> leap_year (civil_year era c q r d)"
    using mf(10) leap that by (cases "day_of_month d = 29") auto
  ultimately show ?thesis
    using mf(10) by (elim disjE) (auto simp: days_in_month_def)
qed

lemma wall_clock_validI:
  assumes "1970 \<le> dt_year t" "dt_year t \<le> 9999" "1 \<le> dt_month t" "dt_month t \<le> 12" "1 \<le> dt_day t"
    "dt_hour t \<le> 23" "dt_minute t \<le> 59" "dt_second t \<le> 59" "dt_weekday t \<le> 6"
    "dt_day t \<le> days_in_month (dt_year t) (dt_month t)"
  shows "wall_clock_datetime_valid (Some t)"
  using assms by (simp add: wall_clock_datetime_valid_def)

lemma datetime_to_epoch_cycle:
  assumes "wall_clock_datetime_valid (Some t)" and "cycle_day c q r d" and "0 \<le> era"
    and "dt_year t = civil_year era c q r d" and "dt_month t = month_of_day d"
    and "dt_day t = day_of_month d"
  shows "wall_clock_datetime_to_epoch (Some t) = Some ((day_number era c q r d - 719468) * 86400
    + dt_hour t * 3600 + dt_minute t * 60 + dt_second t)"
  using assms(1) by (simp add: wall_clock_datetime_to_epoch_def Let_def assms(4-6)
      days_from_civil_cycle [OF assms(2,3)])

text \<open>The day numbers of the years 1970 to 9999.\<close>

lemma day_number_bounds:
  assumes cyc: "cycle_day c q r d" and "1970 \<le> civil_year era c q r d"
    and "civil_year era c q r d \<le> 9999"
  shows "719468 \<le> day_number era c q r d" and "day_number era c q r d \<le> 3652364"
proof -
  note ax = cycle_day_ranges [OF cyc]
  define yoe where "yoe = 100 * c + 4 * q + r"
  define mp where "mp = (5 * d + 2) div 153"
  note mf = month_facts [OF ax(7,8) mp_def]
  have mpb: "153 * mp \<le> 5 * d + 2" "5 * d + 2 < 153 * mp + 153"
    using int_div_lower [of 153 "5 * d + 2"] int_div_upper [of 153 "5 * d + 2"]
    by (simp_all add: mp_def)
  have dn: "day_number era c q r d = 146097 * era + 365 * yoe + 24 * c + q + d"
    by (simp add: day_number_def yoe_def)
  have cy: "civil_year era c q r d = 400 * era + yoe + (if 10 \<le> mp then 1 else 0)"
    using mf(9) by (simp add: civil_year_def yoe_def)
  have yb: "0 \<le> yoe" "yoe < 400" using cycle_day_bounds(3,4) [OF cyc] by (simp_all add: yoe_def)
  have Y: "1969 \<le> 400 * era + yoe" "400 * era + yoe \<le> 9999"
    "400 * era + yoe = 1969 \<Longrightarrow> 10 \<le> mp" "400 * era + yoe = 9999 \<Longrightarrow> mp < 10"
    using assms(2,3) by (auto simp: cy split: if_splits)
  have eb: "4 \<le> era" "era \<le> 24" using Y yb by linarith+
  show "719468 \<le> day_number era c q r d"
  proof (cases "era = 4")
    case False
    with eb yb ax show ?thesis unfolding dn by linarith
  next
    case True
    then have y: "369 \<le> yoe" using Y by linarith
    then have c: "c = 3" using ax(1-6) unfolding yoe_def by linarith
    show ?thesis
    proof (cases "yoe = 369")
      case True
      then have "q = 17" using c ax(1-6) unfolding yoe_def by linarith
      moreover have "306 \<le> d" using Y(3) True \<open>era = 4\<close> mpb by linarith
      ultimately show ?thesis unfolding dn using c True \<open>era = 4\<close> by linarith
    next
      case False
      with y c ax \<open>era = 4\<close> show ?thesis unfolding dn by linarith
    qed
  qed
  show "day_number era c q r d \<le> 3652364"
  proof (cases "400 * era + yoe = 9999")
    case True
    then have e: "era = 24" using eb yb by linarith
    with True have "yoe = 399" by linarith
    moreover have "d \<le> 305" using Y(4) True mpb by linarith
    ultimately show ?thesis unfolding dn using e ax by linarith
  next
    case False
    then have "400 * era + yoe \<le> 9998" using Y by linarith
    with eb yb ax show ?thesis unfolding dn by (cases "era = 24") linarith+
  qed
qed

lemma time_of_day_recombine:
  fixes s :: int
  shows "s div 86400 * 86400 + s mod 86400 div 3600 * 3600 + s mod 86400 mod 3600 div 60 * 60 +
    s mod 86400 mod 60 = s"
proof -
  have "s mod 86400 mod 60 = s mod 86400 mod 3600 mod 60"
    by (simp add: mod_mod_cancel)
  then show ?thesis by (simp add: div_mult_mod_eq add.assoc)
qed

section \<open>Properties\<close>

text \<open>
  C26. Every Unix time of the supported range (1970-01-01 to 9999-12-31) decodes to a date that is
  valid, and that date encodes back to the same number of seconds.
\<close>
theorem epoch_datetime_roundtrip:
  assumes "0 \<le> s" and "s \<le> 253402300799"
  shows "\<exists>d. wall_clock_epoch_to_datetime s = Some d \<and> wall_clock_datetime_valid (Some d) \<and>
    datetime_typed d \<and> wall_clock_datetime_to_epoch (Some d) = Some s"
proof -
  define n where "n = s div 86400 + 719468"
  have n: "0 \<le> n" using assms by (simp add: n_def pos_imp_zdiv_nonneg_iff)
  have "0 \<le> n - 146097 * (n div 146097)" "n - 146097 * (n div 146097) < 146097"
    using int_div_lower [of 146097 n] int_div_upper [of 146097 n] by simp_all
  then obtain c q r d where doe: "n - 146097 * (n div 146097) = 36524 * c + 1461 * q + 365 * r + d"
    and cyc: "cycle_day c q r d"
    by (rule cycle_day_exists)
  have day: "s div 86400 + 719468 = day_number (n div 146097) c q r d"
    using doe by (simp add: day_number_def n_def)
  note ep = epoch_to_datetime_cycle [OF cyc assms day]
  have mf: "1 \<le> month_of_day d" "month_of_day d \<le> 12" "1 \<le> day_of_month d"
    using cycle_day_ranges(7,8) [OF cyc] month_facts(3,4,5) [OF _ _ refl] by simp_all
  have h: "0 \<le> s mod 86400 div 3600" "s mod 86400 div 3600 \<le> 23"
    using int_div_lower [of 3600 "s mod 86400"] int_div_upper [of 3600 "s mod 86400"]
      pos_mod_bound [of 86400 s] pos_mod_sign [of 86400 s] by linarith+
  have m: "0 \<le> s mod 86400 mod 3600 div 60" "s mod 86400 mod 3600 div 60 \<le> 59"
    using int_div_lower [of 60 "s mod 86400 mod 3600"] int_div_upper [of 60 "s mod 86400 mod 3600"]
      pos_mod_bound [of 3600 "s mod 86400"] pos_mod_sign [of 3600 "s mod 86400"] by linarith+
  have z: "0 \<le> s mod 86400 mod 60" "s mod 86400 mod 60 \<le> 59"
    using pos_mod_bound [of 60 "s mod 86400"] pos_mod_sign [of 60 "s mod 86400"] by linarith+
  have w: "0 \<le> (s div 86400 + 4) mod 7" "(s div 86400 + 4) mod 7 \<le> 6"
    using pos_mod_bound [of 7 "s div 86400 + 4"] pos_mod_sign [of 7 "s div 86400 + 4"] by linarith+
  define t where "t = \<lparr>dt_year = civil_year (n div 146097) c q r d, dt_month = month_of_day d,
    dt_day = day_of_month d, dt_weekday = (s div 86400 + 4) mod 7, dt_hour = s mod 86400 div 3600,
    dt_minute = s mod 86400 mod 3600 div 60, dt_second = s mod 86400 mod 60\<rparr>"
  have fields: "dt_year t = civil_year (n div 146097) c q r d" "dt_month t = month_of_day d"
    "dt_day t = day_of_month d" "dt_weekday t = (s div 86400 + 4) mod 7"
    "dt_hour t = s mod 86400 div 3600" "dt_minute t = s mod 86400 mod 3600 div 60"
    "dt_second t = s mod 86400 mod 60"
    by (simp_all add: t_def)
  have era: "0 \<le> n div 146097" using ep(4) by simp
  have val: "wall_clock_datetime_valid (Some t)"
    by (rule wall_clock_validI; unfold fields)
      (rule ep(2,3) mf h(2) m(2) z(2) w(2) cycle_day_valid [OF cyc era])+
  have "0 \<le> month_of_day d" "0 \<le> day_of_month d" using mf(1,3) by linarith+
  then have "datetime_typed t"
    unfolding datetime_typed_def fields by (intro conjI h(1) m(1) z(1) w(1))
  moreover have "wall_clock_datetime_to_epoch (Some t) = Some s"
    unfolding datetime_to_epoch_cycle [OF val cyc era fields(1-3)] fields(5-7) day [symmetric]
    using time_of_day_recombine [of s] by simp
  ultimately show ?thesis using ep(1) val by (auto simp: t_def)
qed

theorem epoch_datetime_roundtrip_witness:
  "\<exists>d. wall_clock_epoch_to_datetime 951782400 = Some d \<and> wall_clock_datetime_to_epoch (Some d) = Some 951782400"
  using epoch_datetime_roundtrip [of 951782400] by auto

text \<open>
  Every valid date encodes to a Unix time that decodes to the same date; only the day of the
  week is recomputed from the date, whatever the input held there.
\<close>
theorem datetime_epoch_roundtrip:
  assumes "datetime_typed t" and "wall_clock_datetime_valid (Some t)"
  shows "\<exists>s. wall_clock_datetime_to_epoch (Some t) = Some s \<and>
    wall_clock_epoch_to_datetime s = Some (t\<lparr>dt_weekday := (s div 86400 + 4) mod 7\<rparr>)"
proof -
  obtain era c q r d where cyc: "cycle_day c q r d" and era: "4 \<le> era"
    and f: "dt_year t = civil_year era c q r d" "dt_month t = month_of_day d" "dt_day t = day_of_month d"
    by (rule valid_date_cycle [OF assms(2)])
  have v: "1970 \<le> dt_year t" "dt_year t \<le> 9999" "0 \<le> dt_hour t" "dt_hour t \<le> 23"
    "0 \<le> dt_minute t" "dt_minute t \<le> 59" "0 \<le> dt_second t" "dt_second t \<le> 59"
    using assms by (auto simp: wall_clock_datetime_valid_def datetime_typed_def split: if_splits)
  define secs where "secs = dt_hour t * 3600 + dt_minute t * 60 + dt_second t"
  define s where "s = (day_number era c q r d - 719468) * 86400 + secs"
  have enc: "wall_clock_datetime_to_epoch (Some t) = Some s"
    using datetime_to_epoch_cycle [OF assms(2) cyc _ f] era by (simp add: s_def secs_def)
  have sb: "0 \<le> secs" "secs < 86400" using v by (simp_all add: secs_def)
  have dn: "719468 \<le> day_number era c q r d" "day_number era c q r d \<le> 3652364"
    using day_number_bounds [OF cyc] v(1,2) by (simp_all add: f)
  have sd: "s div 86400 = day_number era c q r d - 719468"
    by (rule int_div_eq) (use sb in \<open>simp_all add: s_def\<close>)
  have sm: "s mod 86400 = secs"
    using sd minus_div_mult_eq_mod [of s 86400] by (simp add: s_def)
  have rng: "0 \<le> s" "s \<le> 253402300799"
    using dn sb by (simp_all add: s_def)
  have hh: "secs div 3600 = dt_hour t"
    by (rule int_div_eq) (use v in \<open>simp_all add: secs_def\<close>)
  have ms: "secs mod 3600 = dt_minute t * 60 + dt_second t"
    using hh minus_div_mult_eq_mod [of secs 3600] by (simp add: secs_def)
  have mm: "(dt_minute t * 60 + dt_second t) div 60 = dt_minute t"
    by (rule int_div_eq) (use v in simp_all)
  have "secs div 60 = dt_hour t * 60 + dt_minute t"
    by (rule int_div_eq) (use v in \<open>simp_all add: secs_def\<close>)
  then have ss: "secs mod 60 = dt_second t"
    using minus_div_mult_eq_mod [of secs 60] by (simp add: secs_def)
  have "wall_clock_epoch_to_datetime s = Some (t\<lparr>dt_weekday := (s div 86400 + 4) mod 7\<rparr>)"
    using epoch_to_datetime_cycle(1) [OF cyc rng, of era] sd
    by (simp add: sm hh ms mm ss flip: f)
  with enc show ?thesis by blast
qed

theorem datetime_epoch_roundtrip_witness:
  "wall_clock_datetime_to_epoch (Some \<lparr>dt_year = 2000, dt_month = 2, dt_day = 29, dt_weekday = 0,
     dt_hour = 12, dt_minute = 30, dt_second = 59\<rparr>) \<noteq> None"
  using datetime_epoch_roundtrip [of "\<lparr>dt_year = 2000, dt_month = 2, dt_day = 29, dt_weekday = 0,
     dt_hour = 12, dt_minute = 30, dt_second = 59\<rparr>"]
  by (auto simp: datetime_typed_def wall_clock_datetime_valid_def days_in_month_def leap_year_def)

end
