(* ===== verification/Paths.thy ===== *)
theory Paths
  imports TabPrelude "HOL-Library.Char_ord"
begin

text \<open>
  Path normalisation, \<^verbatim>\<open>fs/path.c\<close>. A C string is the \<^typ>\<open>string\<close> of its bytes before the
  terminator, so the output buffer is the list of its first \<open>*length\<close> bytes. A pointer that the
  code checks against NULL is an option. The abstract specification is a stack of components.
\<close>

section \<open>The code\<close>

definition FS_PATH_MAX :: nat where "FS_PATH_MAX = 512"
definition FS_NAME_MAX :: nat where "FS_NAME_MAX = 255"

text \<open>The byte at index \<open>i\<close> of a C string; the terminator is a byte like the others.\<close>

definition c_char :: "string \<Rightarrow> nat \<Rightarrow> char" where
  "c_char s i = (if i < length s then s ! i else CHR 0x00)"

definition append_component :: "string \<Rightarrow> nat \<Rightarrow> string \<Rightarrow> string option" where
  "append_component output output_size component =
     (if FS_NAME_MAX < length component then None
      else
        (let separator = (if 3 < length output then 1 else 0)
         in if output_size \<le> length output + separator + length component then None
            else Some ((if separator \<noteq> 0 then output @ ''/'' else output) @ component)))"

fun strip_component :: "string \<Rightarrow> string" where
  "strip_component output =
     (if 3 < length output \<and> last output \<noteq> CHR ''/'' then strip_component (butlast output)
      else output)"

declare strip_component.simps [simp del]

definition remove_component :: "string \<Rightarrow> string" where
  "remove_component output =
     (if length output \<le> 3 then output
      else
        (let stripped = strip_component output
         in if 3 < length stripped then butlast stripped else stripped))"

lemma dropWhile_shorter:
  assumes "dropWhile (\<lambda>c. c = x) cs \<noteq> []"
  shows "length (dropWhile (\<lambda>c. c \<noteq> x) (dropWhile (\<lambda>c. c = x) cs)) < length cs"
proof -
  let ?d = "dropWhile (\<lambda>c. c = x) cs"
  obtain y ys where d: "?d = y # ys" using assms unfolding neq_Nil_conv by blast
  then have "y \<noteq> x" using hd_dropWhile [OF assms] by simp
  then have "length (dropWhile (\<lambda>c. c \<noteq> x) ?d) \<le> length ys"
    using d by (simp add: length_dropWhile_le)
  also have "\<dots> < length ?d" using d by simp
  also have "\<dots> \<le> length cs" by (rule length_dropWhile_le)
  finally show ?thesis .
qed

function consume_path :: "string \<Rightarrow> string \<Rightarrow> nat \<Rightarrow> string option" where
  "consume_path path output output_size =
     (let cursor = dropWhile (\<lambda>c. c = CHR ''/'') path
      in if cursor = [] then Some output
         else
           (let component = takeWhile (\<lambda>c. c \<noteq> CHR ''/'') cursor;
                rest = dropWhile (\<lambda>c. c \<noteq> CHR ''/'') cursor
            in if length component = 1 \<and> c_char component 0 = CHR ''.'' then
                 consume_path rest output output_size
               else if length component = 2 \<and> c_char component 0 = CHR ''.'' \<and>
                 c_char component 1 = CHR ''.'' then
                 consume_path rest (remove_component output) output_size
               else
                 (case append_component output output_size component of
                    None \<Rightarrow> None
                  | Some output' \<Rightarrow> consume_path rest output' output_size)))"
  by pat_completeness auto

termination
  by (relation "measure (\<lambda>(path, output, output_size). length path)") (auto simp: dropWhile_shorter)

declare consume_path.simps [simp del]

definition upper_drive :: "char \<Rightarrow> bool" where
  "upper_drive c \<longleftrightarrow> CHR ''A'' \<le> c \<and> c \<le> CHR ''Z''"

definition filesystem_normalize_path ::
    "string option \<Rightarrow> string option \<Rightarrow> nat option \<Rightarrow> string option" where
  "filesystem_normalize_path path working_directory buffer =
     (case (path, working_directory, buffer) of
        (Some path, Some wd, Some output_size) \<Rightarrow>
          (if output_size < 4 \<or> c_char path 0 = CHR 0x00 \<or> c_char wd 0 < CHR ''A'' \<or>
              CHR ''Z'' < c_char wd 0 \<or> c_char wd 1 \<noteq> CHR '':'' \<or> c_char wd 2 \<noteq> CHR ''/''
           then None
           else
             (let p0 = c_char path 0;
                  qualified = ((CHR ''A'' \<le> p0 \<and> p0 \<le> CHR ''Z'') \<or> (CHR ''a'' \<le> p0 \<and> p0 \<le> CHR ''z'')) \<and>
                    c_char path 1 = CHR '':'';
                  drive = (if qualified
                    then (if CHR ''a'' \<le> p0 then char_of (of_char p0 - (32 :: nat)) else p0)
                    else c_char wd 0);
                  source = (if qualified then drop 2 path else path)
              in if qualified \<and> c_char source 0 \<noteq> CHR 0x00 \<and> c_char source 0 \<noteq> CHR ''/'' then None
                 else
                   (let output = [drive, CHR '':'', CHR ''/'']
                    in if \<not> qualified \<and> c_char source 0 \<noteq> CHR ''/'' then
                         (case consume_path (drop 2 wd) output output_size of
                            None \<Rightarrow> None
                          | Some output' \<Rightarrow> consume_path source output' output_size)
                       else consume_path source output output_size)))
      | _ \<Rightarrow> None)"

section \<open>The specification: a stack of components\<close>

fun path_join :: "string list \<Rightarrow> string" where
  "path_join [] = []"
| "path_join [c] = c"
| "path_join (c # d # cs) = c @ ''/'' @ path_join (d # cs)"

definition render :: "char \<Rightarrow> string list \<Rightarrow> string" where
  "render drive cs = [drive, CHR '':'', CHR ''/''] @ path_join cs"

definition component_ok :: "string \<Rightarrow> bool" where
  "component_ok c \<longleftrightarrow>
     c \<noteq> [] \<and> CHR ''/'' \<notin> set c \<and> c \<noteq> ''.'' \<and> c \<noteq> ''..'' \<and> length c \<le> FS_NAME_MAX"

function split_path :: "string \<Rightarrow> string list" where
  "split_path path =
     (let cursor = dropWhile (\<lambda>c. c = CHR ''/'') path
      in if cursor = [] then []
         else takeWhile (\<lambda>c. c \<noteq> CHR ''/'') cursor # split_path (dropWhile (\<lambda>c. c \<noteq> CHR ''/'') cursor))"
  by pat_completeness auto
termination
  by (relation "measure length") (auto simp: dropWhile_shorter)

declare split_path.simps [simp del]

lemma split_path_Nil: "dropWhile (\<lambda>c. c = CHR ''/'') path = [] \<Longrightarrow> split_path path = []"
  by (subst split_path.simps) (simp only: Let_def simp_thms if_True)

lemma split_path_Cons:
  "dropWhile (\<lambda>c. c = CHR ''/'') path \<noteq> [] \<Longrightarrow> split_path path =
     takeWhile (\<lambda>c. c \<noteq> CHR ''/'') (dropWhile (\<lambda>c. c = CHR ''/'') path) #
     split_path (dropWhile (\<lambda>c. c \<noteq> CHR ''/'') (dropWhile (\<lambda>c. c = CHR ''/'') path))"
  by (subst split_path.simps) (simp only: Let_def if_False)

fun resolve_components :: "nat \<Rightarrow> char \<Rightarrow> string list \<Rightarrow> string list \<Rightarrow> string list option" where
  "resolve_components cap drive stack [] = Some stack"
| "resolve_components cap drive stack (c # cs) =
     (if c = ''.'' then resolve_components cap drive stack cs
      else if c = ''..'' then resolve_components cap drive (butlast stack) cs
      else if FS_NAME_MAX < length c \<or> cap \<le> length (render drive (stack @ [c])) then None
      else resolve_components cap drive (stack @ [c]) cs)"

section \<open>Refinement of the buffer operations\<close>

lemma path_join_snoc: "cs \<noteq> [] \<Longrightarrow> path_join (cs @ [c]) = path_join cs @ ''/'' @ c"
  by (induction cs rule: path_join.induct) auto

lemma path_join_empty: "\<forall>c \<in> set cs. c \<noteq> [] \<Longrightarrow> path_join cs = [] \<longleftrightarrow> cs = []"
  by (cases cs rule: path_join.cases) auto

lemma length_render: "length (render drive cs) = 3 + length (path_join cs)"
  by (simp add: render_def)

lemma render_long_iff: "\<forall>c \<in> set cs. c \<noteq> [] \<Longrightarrow> 3 < length (render drive cs) \<longleftrightarrow> cs \<noteq> []"
  by (simp add: length_render path_join_empty)

lemma append_component_render:
  assumes "\<forall>c \<in> set cs. c \<noteq> []"
  shows "append_component (render drive cs) cap c =
    (if FS_NAME_MAX < length c \<or> cap \<le> length (render drive (cs @ [c])) then None
     else Some (render drive (cs @ [c])))"
proof (cases "cs = []")
  case True
  then show ?thesis by (auto simp: append_component_def render_def)
next
  case False
  then have "render drive (cs @ [c]) = render drive cs @ ''/'' @ c"
    by (simp add: render_def path_join_snoc)
  with False render_long_iff [OF assms, of drive] show ?thesis
    by (auto simp: append_component_def)
qed

lemma strip_component_suffix:
  assumes "CHR ''/'' \<notin> set c" and "length p = 3 \<or> (3 < length p \<and> last p = CHR ''/'')"
  shows "strip_component (p @ c) = p"
  using assms(1)
proof (induction c rule: rev_induct)
  case Nil
  then show ?case using assms(2) by (subst strip_component.simps) auto
next
  case (snoc x c)
  then have "strip_component (p @ c @ [x]) = strip_component (p @ c)"
    using assms(2) by (subst strip_component.simps) (auto simp: butlast_append)
  with snoc show ?case by simp
qed

lemma remove_component_render:
  assumes "\<forall>c \<in> set cs. c \<noteq> [] \<and> CHR ''/'' \<notin> set c"
  shows "remove_component (render drive cs) = render drive (butlast cs)"
proof (cases cs rule: rev_cases)
  case Nil
  then show ?thesis by (simp add: remove_component_def render_def)
next
  case (snoc bs c)
  have c: "c \<noteq> []" "CHR ''/'' \<notin> set c" using assms snoc by auto
  have long: "3 < length (render drive cs)" using assms snoc by (subst render_long_iff) auto
  show ?thesis
  proof (cases "bs = []")
    case True
    then have "render drive cs = [drive, CHR '':'', CHR ''/''] @ c"
      using snoc by (simp add: render_def)
    then have "strip_component (render drive cs) = [drive, CHR '':'', CHR ''/'']"
      using c by (simp only:) (rule strip_component_suffix, auto)
    with long snoc True show ?thesis by (simp add: remove_component_def render_def)
  next
    case False
    then have "render drive cs = (render drive bs @ ''/'') @ c"
      using snoc by (simp add: render_def path_join_snoc)
    then have "strip_component (render drive cs) = render drive bs @ ''/''"
      using c by (simp only:) (rule strip_component_suffix, auto simp: render_def)
    with long snoc show ?thesis by (simp add: remove_component_def render_def)
  qed
qed

lemma split_path_components: "c \<in> set (split_path p) \<Longrightarrow> c \<noteq> [] \<and> CHR ''/'' \<notin> set c"
proof (induction p rule: split_path.induct)
  case (1 path)
  let ?d = "dropWhile (\<lambda>c. c = CHR ''/'') path"
  show ?case
  proof (cases "?d = []")
    case True
    with 1(2) show ?thesis by (simp only: split_path_Nil list.set empty_iff)
  next
    case False
    let ?t = "takeWhile (\<lambda>c. c \<noteq> CHR ''/'') ?d"
    have t: "?t \<noteq> []" "CHR ''/'' \<notin> set ?t"
      using hd_dropWhile [OF False] False by (auto simp: takeWhile_eq_Nil_iff dest: set_takeWhileD)
    have "c = ?t \<or> c \<in> set (split_path (dropWhile (\<lambda>c. c \<noteq> CHR ''/'') ?d))"
      using 1(2) by (simp only: split_path_Cons [OF False] list.set insert_iff)
    then show ?thesis
    proof
      assume "c = ?t"
      with t show ?thesis by (simp only: simp_thms)
    qed (rule 1(1) [OF refl False])
  qed
qed

lemma dot_component: "length c = 1 \<and> c_char c 0 = CHR ''.'' \<longleftrightarrow> c = ''.''"
  by (auto simp: c_char_def length_Suc_conv)

lemma dotdot_component:
  "length c = 2 \<and> c_char c 0 = CHR ''.'' \<and> c_char c 1 = CHR ''.'' \<longleftrightarrow> c = ''..''"
  by (auto simp: c_char_def length_Suc_conv numeral_2_eq_2)

lemma consume_path_refines:
  assumes "\<forall>c \<in> set cs. c \<noteq> [] \<and> CHR ''/'' \<notin> set c"
  shows "consume_path path (render drive cs) cap =
    map_option (render drive) (resolve_components cap drive cs (split_path path))"
  using assms
proof (induction path arbitrary: cs rule: split_path.induct)
  case (1 path)
  let ?d = "dropWhile (\<lambda>c. c = CHR ''/'') path"
  show ?case
  proof (cases "?d = []")
    case True
    then show ?thesis
      by (simp only: consume_path.simps [of path] split_path_Nil Let_def simp_thms if_True
          resolve_components.simps option.map)
  next
    case False
    define c where "c = takeWhile (\<lambda>c. c \<noteq> CHR ''/'') ?d"
    define r where "r = dropWhile (\<lambda>c. c \<noteq> CHR ''/'') ?d"
    have sp: "split_path path = c # split_path r"
      unfolding c_def r_def by (rule split_path_Cons [OF False])
    have ne: "\<forall>c \<in> set cs. c \<noteq> []" using 1(2) by blast
    have c: "c \<noteq> [] \<and> CHR ''/'' \<notin> set c"
      by (rule split_path_components [of _ path]) (simp add: sp)
    note IH = 1(1) [OF refl False, folded r_def]
    have butl: "\<forall>c \<in> set (butlast cs). c \<noteq> [] \<and> CHR ''/'' \<notin> set c"
      using 1(2) by (meson in_set_butlastD)
    have snoc: "\<forall>c \<in> set (cs @ [c]). c \<noteq> [] \<and> CHR ''/'' \<notin> set c"
      using 1(2) c by auto
    have "consume_path path (render drive cs) cap =
      (if c = ''.'' then consume_path r (render drive cs) cap
       else if c = ''..'' then consume_path r (render drive (butlast cs)) cap
       else (case (if FS_NAME_MAX < length c \<or> cap \<le> length (render drive (cs @ [c])) then None
           else Some (render drive (cs @ [c]))) of
         None \<Rightarrow> None | Some output' \<Rightarrow> consume_path r output' cap))"
      unfolding c_def r_def
      by (subst consume_path.simps)
        (simp only: Let_def if_not_P [OF False] dot_component dotdot_component
          append_component_render [OF ne] remove_component_render [OF 1(2)])
    then show ?thesis
      using IH [OF 1(2)] IH [OF butl] IH [OF snoc] sp by simp
  qed
qed

section \<open>Resolution of components\<close>

lemma resolve_components_append:
  "resolve_components cap drive st (xs @ ys) =
     (case resolve_components cap drive st xs of
        None \<Rightarrow> None | Some st' \<Rightarrow> resolve_components cap drive st' ys)"
  by (induction xs arbitrary: st) auto

lemma length_render_butlast: "length (render drive (butlast cs)) \<le> length (render drive cs)"
proof (cases cs rule: rev_cases)
  case (snoc bs c)
  then show ?thesis by (cases "bs = []") (simp_all add: length_render path_join_snoc)
qed simp

lemma resolve_components_ok:
  assumes "resolve_components cap drive st cs = Some out"
    and "\<forall>c \<in> set st. component_ok c" and "length (render drive st) < cap"
    and "\<forall>c \<in> set cs. c \<noteq> [] \<and> CHR ''/'' \<notin> set c"
  shows "(\<forall>c \<in> set out. component_ok c) \<and> length (render drive out) < cap"
  using assms
proof (induction cs arbitrary: st)
  case Nil
  then show ?case by simp
next
  case (Cons c cs)
  have "length (render drive (butlast st)) < cap"
    using Cons.prems(3) length_render_butlast [of drive st] by simp
  moreover have "\<forall>c \<in> set (butlast st). component_ok c"
    using Cons.prems(2) by (meson in_set_butlastD)
  ultimately show ?case
    using Cons.prems Cons.IH [of st] Cons.IH [of "butlast st"] Cons.IH [of "st @ [c]"]
    by (auto simp: component_ok_def split: if_splits)
qed

lemma resolve_components_ids:
  assumes "\<forall>c \<in> set cs. component_ok c" and "length (render drive (st @ cs)) < cap"
  shows "resolve_components cap drive st cs = Some (st @ cs)"
  using assms
proof (induction cs arbitrary: st)
  case Nil
  then show ?case by simp
next
  case (Cons c cs)
  have "length (render drive (st @ [c])) \<le> length (render drive (st @ c # cs))"
  proof (induction cs rule: rev_induct)
    case (snoc x xs)
    then show ?case
      using length_render_butlast [of drive "st @ c # xs @ [x]"] by (simp add: butlast_append)
  qed simp
  then show ?case
    using Cons.prems Cons.IH [of "st @ [c]"] by (auto simp: component_ok_def)
qed

lemma split_path_slash: "split_path (CHR ''/'' # p) = split_path p"
  by (simp add: split_path.simps [of "CHR ''/'' # p"] split_path.simps [of p])

lemma split_path_cons_component:
  assumes "c \<noteq> []" and "CHR ''/'' \<notin> set c" and "p = [] \<or> hd p = CHR ''/''"
  shows "split_path (c @ p) = c # split_path p"
proof -
  have d: "dropWhile (\<lambda>x. x = CHR ''/'') (c @ p) = c @ p"
    using assms(1,2) by (cases c) auto
  have t: "takeWhile (\<lambda>x. x \<noteq> CHR ''/'') (c @ p) = c"
    using assms(2,3) by (cases p) (auto simp: takeWhile_append takeWhile_eq_all_conv)
  have r: "dropWhile (\<lambda>x. x \<noteq> CHR ''/'') (c @ p) = p"
    using assms(2,3) by (cases p) (auto simp: dropWhile_append)
  show ?thesis
    using split_path_Cons [of "c @ p"] assms(1) unfolding d t r by simp
qed

lemma split_path_join:
  "\<forall>c \<in> set cs. c \<noteq> [] \<and> CHR ''/'' \<notin> set c \<Longrightarrow> split_path (path_join cs) = cs"
proof (induction cs rule: path_join.induct)
  case 1
  show ?case by (simp add: split_path_Nil)
next
  case (2 c)
  then show ?case using split_path_cons_component [of c "[]"] by (simp add: split_path_Nil)
next
  case (3 c d cs)
  then show ?case
    using split_path_cons_component [of c "''/'' @ path_join (d # cs)"]
    by (simp add: split_path_slash)
qed

section \<open>Canonical paths\<close>

definition canonical_path :: "nat \<Rightarrow> string \<Rightarrow> bool" where
  "canonical_path cap p \<longleftrightarrow>
     (\<exists>drive cs. p = render drive cs \<and> upper_drive drive \<and> (\<forall>c \<in> set cs. component_ok c) \<and> length p < cap)"

text \<open>The drive and the components that a request names, before they are resolved.\<close>

definition drive_qualified :: "string \<Rightarrow> bool" where
  "drive_qualified path \<longleftrightarrow>
     (upper_drive (c_char path 0) \<or> (CHR ''a'' \<le> c_char path 0 \<and> c_char path 0 \<le> CHR ''z'')) \<and>
     c_char path 1 = CHR '':''"

definition path_target :: "string \<Rightarrow> string \<Rightarrow> (char \<times> string list) option" where
  "path_target path wd =
     (if drive_qualified path then
        (if drop 2 path \<noteq> [] \<and> path ! 2 \<noteq> CHR ''/'' then None
         else Some (if CHR ''a'' \<le> hd path then char_of (of_char (hd path) - (32 :: nat)) else hd path,
           split_path (drop 2 path)))
      else if hd path = CHR ''/'' then Some (hd wd, split_path path)
      else Some (hd wd, split_path (drop 2 wd) @ split_path path))"

definition working_directory_ok :: "string \<Rightarrow> bool" where
  "working_directory_ok wd \<longleftrightarrow>
     upper_drive (c_char wd 0) \<and> c_char wd 1 = CHR '':'' \<and> c_char wd 2 = CHR ''/''"

lemma c_char_zero: "c_char s 0 = CHR 0x00 \<longleftrightarrow> s = []" if "CHR 0x00 \<notin> set s"
  using that by (cases s) (auto simp: c_char_def)

lemma c_char_Cons [simp]: "c_char (x # xs) 0 = x" "c_char (x # xs) (Suc n) = c_char xs n"
  by (simp_all add: c_char_def)

lemma c_char_Nil [simp]: "c_char [] n = CHR 0x00"
  by (simp add: c_char_def)

lemma working_directory_shape:
  assumes "working_directory_ok wd"
  obtains d rest where "wd = d # CHR '':'' # CHR ''/'' # rest" and "upper_drive d"
proof -
  have "upper_drive (CHR 0x00) = False" by (simp add: upper_drive_def less_eq_char_def)
  with assms that show thesis
    by (cases wd; cases "tl wd"; cases "tl (tl wd)") (auto simp: working_directory_ok_def numeral_2_eq_2)
qed

lemma upper_drive_upcase:
  assumes "CHR ''a'' \<le> c" and "c \<le> CHR ''z''"
  shows "upper_drive (char_of (of_char c - (32 :: nat)))"
proof -
  define n where "n = (of_char c :: nat)"
  have "97 \<le> n" "n \<le> 122" using assms by (simp_all add: less_eq_char_def n_def)
  then show ?thesis by (simp add: upper_drive_def less_eq_char_def flip: n_def) arith
qed

text \<open>The function computes the drive and the components, then resolves them.\<close>

lemma normalize_eq:
  assumes "path \<noteq> []" and "CHR 0x00 \<notin> set path" and "working_directory_ok wd" and "4 \<le> cap"
  shows "filesystem_normalize_path (Some path) (Some wd) (Some cap) =
    (case path_target path wd of
       None \<Rightarrow> None
     | Some (drive, cs) \<Rightarrow> map_option (render drive) (resolve_components cap drive [] cs))"
proof -
  obtain d rest where wd: "wd = d # CHR '':'' # CHR ''/'' # rest" and d: "upper_drive d"
    using assms(3) by (rule working_directory_shape)
  obtain p0 ps where path: "path = p0 # ps" using assms(1) by (cases path) auto
  have nul: "p0 \<noteq> CHR 0x00" "CHR 0x00 \<notin> set ps" using assms(2) path by auto
  have root: "[x, CHR '':'', CHR ''/''] = render x []" for x by (simp add: render_def)
  have cons: "consume_path p (render x []) cap =
      map_option (render x) (resolve_components cap x [] (split_path p))" for p x
    by (rule consume_path_refines) simp
  have two: "(case consume_path p (render x []) cap of None \<Rightarrow> None | Some output' \<Rightarrow> consume_path q output' cap)
      = map_option (render x) (resolve_components cap x [] (split_path p @ split_path q))" for p q x
  proof (cases "resolve_components cap x [] (split_path p)")
    case None
    then show ?thesis by (simp add: cons resolve_components_append)
  next
    case (Some st)
    have "\<forall>c \<in> set st. component_ok c"
      using resolve_components_ok [OF Some] split_path_components assms(4) by (auto simp: render_def)
    then have "consume_path q (render x st) cap =
        map_option (render x) (resolve_components cap x st (split_path q))"
      by (intro consume_path_refines) (auto simp: component_ok_def)
    with Some show ?thesis by (simp add: cons resolve_components_append)
  qed
  have guards: "\<not> (cap < 4 \<or> c_char path 0 = CHR 0x00 \<or> c_char wd 0 < CHR ''A'' \<or> CHR ''Z'' < c_char wd 0 \<or>
      c_char wd 1 \<noteq> CHR '':'' \<or> c_char wd 2 \<noteq> CHR ''/'')"
    using assms(4) wd d nul path by (auto simp: upper_drive_def numeral_2_eq_2)
  have q: "((CHR ''A'' \<le> c_char path 0 \<and> c_char path 0 \<le> CHR ''Z'') \<or>
      (CHR ''a'' \<le> c_char path 0 \<and> c_char path 0 \<le> CHR ''z'')) \<and> c_char path 1 = CHR '':''
      \<longleftrightarrow> drive_qualified path"
    by (simp add: drive_qualified_def upper_drive_def)
  note unf = filesystem_normalize_path_def prod.case option.case if_not_P [OF guards] Let_def q
  show ?thesis
  proof (cases "drive_qualified path")
    case True
    then obtain p2 where ps: "path = p0 # CHR '':'' # p2"
      using path by (cases ps) (auto simp: drive_qualified_def)
    have c0: "c_char path 0 = p0" "hd path = p0" "drop 2 path = p2" by (simp_all add: ps)
    have bad: "c_char p2 0 \<noteq> CHR 0x00 \<and> c_char p2 0 \<noteq> CHR ''/'' \<longleftrightarrow> p2 \<noteq> [] \<and> path ! 2 \<noteq> CHR ''/''"
      using assms(2) ps by (cases p2) (auto simp: numeral_2_eq_2)
    show ?thesis
      unfolding unf unfolding path_target_def if_P [OF True] c0 root
      by (cases "p2 \<noteq> [] \<and> path ! 2 \<noteq> CHR ''/''") (simp_all only: bad True cons simp_thms if_True if_False
          option.case prod.case)
  next
    case False
    have c0: "c_char path 0 = p0" "hd path = p0" "c_char wd 0 = d" "hd wd = d"
      by (simp_all add: path wd)
    show ?thesis
      unfolding unf unfolding path_target_def if_not_P [OF False] c0 root
      by (cases "p0 = CHR ''/''") (simp_all only: False cons two [unfolded cons] simp_thms if_True if_False
          option.case prod.case)
  qed
qed

lemma resolved_canonical:
  assumes "path_target path wd = Some (drive, cs)" and "path \<noteq> []" and "working_directory_ok wd"
    and "resolve_components cap drive [] cs = Some out" and "4 \<le> cap"
  shows "canonical_path cap (render drive out)"
proof -
  obtain d rest where wd: "wd = d # CHR '':'' # CHR ''/'' # rest" and d: "upper_drive d"
    using assms(3) by (rule working_directory_shape)
  have "\<forall>c \<in> set cs. c \<noteq> [] \<and> CHR ''/'' \<notin> set c"
    using assms(1) by (auto simp: path_target_def dest: split_path_components split: if_splits)
  then have "(\<forall>c \<in> set out. component_ok c) \<and> length (render drive out) < cap"
    using resolve_components_ok [OF assms(4)] assms(5) by (simp add: render_def)
  moreover have "upper_drive drive"
  proof (cases "drive_qualified path")
    case True
    then have "hd path = c_char path 0" using assms(2) by (cases path) simp_all
    with True assms(1) show ?thesis
      by (auto simp: path_target_def drive_qualified_def upper_drive_upcase split: if_splits)
         (auto simp: upper_drive_def less_eq_char_def)
  next
    case False
    with assms(1) wd d show ?thesis by (auto simp: path_target_def split: if_splits)
  qed
  ultimately show ?thesis by (auto simp: canonical_path_def)
qed

lemma normalized_canonical:
  assumes "filesystem_normalize_path (Some path) (Some wd) (Some cap) = Some out"
    and "CHR 0x00 \<notin> set path"
  shows "canonical_path cap out"
proof -
  have "path \<noteq> []" "working_directory_ok wd" "4 \<le> cap"
    using assms(1)
    by (auto simp: filesystem_normalize_path_def working_directory_ok_def upper_drive_def
        split: if_splits)
  with assms normalize_eq [OF this(1) assms(2) this(2,3)] resolved_canonical [of path wd _ _ cap]
  show ?thesis by (auto split: option.splits prod.splits)
qed

lemma canonical_self:
  assumes "canonical_path cap p" and "working_directory_ok wd" and "CHR 0x00 \<notin> set p"
  shows "filesystem_normalize_path (Some p) (Some wd) (Some cap) = Some p"
proof -
  obtain d cs where p: "p = render d cs" and d: "upper_drive d" and cs: "\<forall>c \<in> set cs. component_ok c"
    and len: "length p < cap"
    using assms(1) by (auto simp: canonical_path_def)
  have pc: "p = d # CHR '':'' # CHR ''/'' # path_join cs" by (simp add: p render_def)
  have "\<not> CHR ''a'' \<le> d" using d by (auto simp: upper_drive_def less_eq_char_def)
  then have "path_target p wd = Some (d, split_path (CHR ''/'' # path_join cs))"
    using d by (simp add: path_target_def drive_qualified_def pc numeral_2_eq_2)
  also have "split_path (CHR ''/'' # path_join cs) = cs"
    using cs by (simp add: split_path_slash split_path_join component_ok_def)
  finally have t: "path_target p wd = Some (d, cs)" .
  have "resolve_components cap d [] cs = Some cs"
    using resolve_components_ids [OF cs, of d "[]" cap] len p by simp
  with normalize_eq [of p wd cap] t len assms(2,3) p show ?thesis by (simp add: pc)
qed

section \<open>Properties\<close>

text \<open>
  C18. The buffer-editing normaliser computes the specification: the request is split into
  components (after the working directory's, when it is relative), and the components are
  resolved on a stack where \<open>.\<close> stays, \<open>..\<close> pops and stops at the drive root, and a name
  that is too long or does not fit the buffer fails.
\<close>
theorem normalize_refines_stack:
  assumes "path \<noteq> []" and "CHR 0x00 \<notin> set path" and "working_directory_ok wd" and "4 \<le> cap"
  shows "filesystem_normalize_path (Some path) (Some wd) (Some cap) =
    (case path_target path wd of
       None \<Rightarrow> None
     | Some (drive, cs) \<Rightarrow> map_option (render drive) (resolve_components cap drive [] cs))"
  by (rule normalize_eq [OF assms])

theorem normalize_refines_stack_witness:
  "filesystem_normalize_path (Some ''../a//./b/..'') (Some ''T:/home/user'') (Some 512) = Some ''T:/home/a''"
proof -
  have "path_target ''../a//./b/..'' ''T:/home/user'' =
      Some (CHR ''T'', [''home'', ''user'', ''..'', ''a'', ''.'', ''b'', ''..''])"
    by code_simp
  moreover have "resolve_components 512 (CHR ''T'') [] [''home'', ''user'', ''..'', ''a'', ''.'', ''b'', ''..'']
      = Some [''home'', ''a'']"
    by code_simp
  moreover have "working_directory_ok ''T:/home/user''" by code_simp
  ultimately show ?thesis
    using normalize_refines_stack [of "''../a//./b/..''" "''T:/home/user''" 512]
    by (simp add: render_def)
qed

text \<open>
  C19. Whatever the request, a successful normalisation yields a canonical path: an upper-case
  drive, then non-empty components of at most 255 bytes without separators, none of them \<open>.\<close> or
  \<open>..\<close>, the whole shorter than the buffer. No request escapes the root of its drive.
\<close>
theorem normalize_canonical:
  assumes "filesystem_normalize_path (Some path) (Some wd) (Some cap) = Some out"
    and "CHR 0x00 \<notin> set path"
  shows "canonical_path cap out"
  by (rule normalized_canonical [OF assms])

theorem normalize_canonical_witness: "canonical_path 512 ''T:/bin''"
proof -
  have "filesystem_normalize_path (Some ''/bin'') (Some ''T:/'') (Some 512) = Some ''T:/bin''"
    by code_simp
  then show ?thesis by (rule normalize_canonical) simp
qed

text \<open>
  Normalisation is idempotent: a canonical path normalises to itself, whatever the working
  directory, so a resolved path can be resolved again by every later call.
\<close>
theorem normalize_idempotent:
  assumes "canonical_path cap p" and "working_directory_ok wd" and "CHR 0x00 \<notin> set p"
  shows "filesystem_normalize_path (Some p) (Some wd) (Some cap) = Some p"
  by (rule canonical_self [OF assms])

theorem normalize_idempotent_witness:
  "filesystem_normalize_path (Some ''T:/bin/shell'') (Some ''A:/'') (Some 512) = Some ''T:/bin/shell''"
proof (rule normalize_idempotent)
  have e: "''T:/bin/shell'' = render (CHR ''T'') [''bin'', ''shell'']" by (simp add: render_def)
  show "canonical_path 512 ''T:/bin/shell''"
    unfolding canonical_path_def
    by (intro exI [of _ "CHR ''T''"] exI [of _ "[''bin'', ''shell'']"] conjI, rule e)
      (simp_all add: component_ok_def upper_drive_def less_eq_char_def FS_NAME_MAX_def)
  show "working_directory_ok ''A:/''" by code_simp
qed simp

end
