(* ===== verification/HandleTable.thy ===== *)
theory HandleTable
  imports TabPrelude
begin

unbundle bit_operations_syntax

text \<open>
  Tables of generation-counted slots. The file and the directory table of
  \<^verbatim>\<open>fs/filesystem.c\<close> give out descriptors that hold a slot index and the slot's generation at
  the time it was opened; a descriptor whose generation has passed is refused. The locale states
  what such a table promises to its clients, and the lemmas say what follows from it; the tables
  of the program are interpreted in the theories that model them.
\<close>

section \<open>Generations\<close>

text \<open>The \<open>if (++generation == 0) ++generation\<close> of the open paths.\<close>

definition next_generation :: "u16 \<Rightarrow> u16" where
  "next_generation g = (let g' = g + 1 in if g' = 0 then g' + 1 else g')"

lemma next_generation_nonzero [simp]: "next_generation g \<noteq> 0"
  by (simp add: next_generation_def Let_def)

lemma unat_u16: "unat (g :: u16) < 65536"
  using unsigned_less [of g] by simp

lemma unat_next_generation: "unat (next_generation g) = unat g mod 65535 + 1"
proof -
  have s: "unat (g + 1) = (unat g + 1) mod 65536" by (simp add: unat_word_ariths)
  show ?thesis
  proof (cases "unat g = 65535")
    case True
    then have "g + 1 = 0" using s by (simp add: unat_eq_0 [symmetric])
    then show ?thesis using True by (simp add: next_generation_def)
  next
    case False
    then have "unat g < 65535" using unat_u16 [of g] by simp
    then have "unat (g + 1) = unat g + 1" using s by simp
    moreover from this have "g + 1 \<noteq> 0" by (metis add_is_0 one_neq_zero unat_0)
    ultimately show ?thesis using \<open>unat g < 65535\<close> by (simp add: next_generation_def Let_def)
  qed
qed

text \<open>A counter that runs through 1 to \<open>m\<close> repeats after \<open>m\<close> steps, and not before.\<close>

lemma cyclic_pow:
  fixes f :: "'g \<Rightarrow> 'g" and num :: "'g \<Rightarrow> nat"
  assumes step: "\<And>g. num g \<le> m \<Longrightarrow> num (f g) = num g mod m + 1" and m: "0 < m"
    and "num g \<le> m" and "0 < k"
  shows "num ((f ^^ k) g) = (num g + k - 1) mod m + 1"
  using assms(4)
proof (induction k)
  case 0
  then show ?case by simp
next
  case (Suc k)
  show ?case
  proof (cases "k = 0")
    case True
    then show ?thesis using step assms(3) by simp
  next
    case False
    then have IH: "num ((f ^^ k) g) = (num g + k - 1) mod m + 1" using Suc by simp
    then have "num ((f ^^ k) g) \<le> m" using m by (simp add: Suc_leI)
    then have "num ((f ^^ Suc k) g) = ((num g + k - 1) mod m + 1) mod m + 1"
      using step IH by simp
    also have "\<dots> = (num g + k - 1 + 1) mod m + 1" by (simp add: mod_simps)
    finally show ?thesis using False by simp
  qed
qed

lemma cyclic_pow_neq:
  fixes f :: "'g \<Rightarrow> 'g" and num :: "'g \<Rightarrow> nat"
  assumes step: "\<And>g. num g \<le> m \<Longrightarrow> num (f g) = num g mod m + 1"
    and "0 < num g" and "num g \<le> m" and "0 < k" and "k < m"
  shows "(f ^^ k) g \<noteq> g"
proof
  assume "(f ^^ k) g = g"
  moreover have "0 < m" using assms(2,3) by linarith
  ultimately have e: "(num g + k - 1) mod m + 1 = num g"
    using cyclic_pow [of num m f g k] step assms(3,4) by simp
  define n where "n = num g - 1"
  have n: "(n + k) mod m = n" "n < m"
    using e assms(2,3) by (simp_all add: n_def)
  show False
  proof (cases "n + k < m")
    case True
    with n assms(4) show False by simp
  next
    case False
    then have "(n + k) mod m = (n + k - m) mod m" by (simp add: le_mod_geq)
    also have "\<dots> = n + k - m" using n assms(5) by simp
    finally show False using n assms(5) False by simp
  qed
qed

lemma next_generation_pow_neq:
  assumes "g \<noteq> 0" and "0 < k" and "k < 65535"
  shows "(next_generation ^^ k) g \<noteq> g"
  by (rule cyclic_pow_neq [where num = unat and m = 65535])
    (use assms unat_u16 [of g] in \<open>simp_all add: unat_next_generation unat_gt_0\<close>)

text \<open>
  The generation of the pointer streams and device subscriptions: a 32-bit counter that runs
  through 1 to \<open>maximum\<close>.
\<close>

definition bounded_generation :: "u32 \<Rightarrow> u32 \<Rightarrow> u32" where
  "bounded_generation maximum generation =
     (let g = generation + 1 in if g = 0 \<or> maximum < g then 1 else g)"

lemma unat_bounded_generation:
  assumes "unat g \<le> unat maximum" and "0 < maximum" and "unat maximum < 2 ^ 31"
  shows "unat (bounded_generation maximum g) = unat g mod unat maximum + 1"
proof -
  have s: "unat (g + 1) = unat g + 1"
    using assms(1,3) by (subst unat_plus_no_wrap) simp_all
  then have n: "g + 1 \<noteq> 0" by (metis add_is_0 one_neq_zero unat_0)
  have "maximum < g + 1 \<longleftrightarrow> unat g = unat maximum"
    using assms(1) s by (auto simp: word_less_nat_alt)
  then show ?thesis
    using s n assms(1) by (auto simp: bounded_generation_def Let_def)
qed

lemma bounded_generation_pow_neq:
  assumes "0 < g" and "g \<le> maximum" and "unat maximum < 2 ^ 31" and "0 < k" and "k < unat maximum"
  shows "(bounded_generation maximum ^^ k) g \<noteq> g"
proof (rule cyclic_pow_neq [where num = unat and m = "unat maximum"])
  have "0 < maximum" using assms(1,2) by (meson order_less_le_trans)
  then show "unat (bounded_generation maximum g) = unat g mod unat maximum + 1"
    if "unat g \<le> unat maximum" for g
    using unat_bounded_generation that assms(3) by blast
qed (use assms in \<open>simp_all add: word_less_nat_alt word_le_nat_alt\<close>)

lemma bounded_generation_range:
  assumes "0 < maximum"
  shows "0 < bounded_generation maximum g \<and> bounded_generation maximum g \<le> maximum"
proof -
  have "1 \<le> maximum" using assms by (simp add: word_le_nat_alt word_less_nat_alt)
  moreover have "0 < (1 :: u32)" by simp
  ultimately show ?thesis
    by (auto simp: bounded_generation_def Let_def word_neq_0_conv)
qed

section \<open>The layout of a descriptor\<close>

text \<open>A descriptor is a 32-bit word: the slot index plus one in the low byte, the generation above.\<close>

lemma take_low_byte:
  assumes "n < 256"
  shows "take_bit 8 (word_of_nat n :: u32) = word_of_nat n"
proof -
  have "take_bit 8 (word_of_nat n :: u32) = word_of_nat (take_bit 8 n)" by (rule take_bit_of_nat)
  with assms show ?thesis by (simp add: take_bit_nat_eq_self)
qed

lemma descriptor_low:
  fixes g :: u16
  assumes "n < 256"
  shows "(push_bit 8 (ucast g :: u32) OR word_of_nat n) AND 0xff = word_of_nat n"
proof -
  have m: "(0xff :: u32) = mask 8" by (simp add: mask_eq_exp_minus_1)
  show ?thesis unfolding m take_bit_eq_mask [symmetric]
    using take_low_byte [OF assms] by (simp add: take_bit_or take_bit_push_bit)
qed

lemma descriptor_high:
  fixes g :: u16
  assumes "n < 256"
  shows "ucast (drop_bit 8 (push_bit 8 (ucast g :: u32) OR word_of_nat n)) = g"
proof -
  have "drop_bit 8 (word_of_nat n :: u32) = 0"
    using take_low_byte [OF assms] by (metis drop_bit_take_bit diff_self_eq_0 take_bit_0)
  then show ?thesis
    by (intro bit_word_eqI) (auto simp: bit_simps drop_bit_or)
qed

lemma descriptor_uint:
  fixes g :: u16
  assumes "n < 256"
  shows "uint (push_bit 8 (ucast g :: u32) OR word_of_nat n) = 256 * uint g + int n"
proof -
  have "push_bit 8 (ucast g :: u32) AND word_of_nat n = 0"
    by (rule bit_word_eqI) (subst take_low_byte [OF assms, symmetric], auto simp: bit_simps)
  then have "push_bit 8 (ucast g :: u32) OR word_of_nat n = push_bit 8 (ucast g) + word_of_nat n"
    by (simp add: disjunctive_add_eq_or)
  moreover have g: "0 \<le> uint g" "uint g < 65536" using unsigned_less [of g, where 'a = int] by simp_all
  moreover have "uint (push_bit 8 (ucast g :: u32)) = 256 * uint g"
    by (subst unsigned_push_bit_eq)
      (use g in \<open>simp add: unsigned_ucast_eq push_bit_eq_mult take_bit_int_eq_self\<close>)
  ultimately show ?thesis
    using assms by (simp add: uint_word_ariths unsigned_of_nat take_bit_nat_eq_self)
qed

lemma descriptor_sint:
  fixes g :: u16
  assumes "n < 256"
  shows "sint (push_bit 8 (ucast g :: u32) OR word_of_nat n) = 256 * uint g + int n"
proof -
  have g: "0 \<le> uint g" "uint g < 65536" using unsigned_less [of g, where 'a = int] by simp_all
  have lo: "- (2 ^ 31) \<le> 256 * uint g + int n"
    by (rule order_trans [of _ 0]) (use g(1) in simp_all)
  have hi: "256 * uint g + int n < 2 ^ 31" using g(2) assms by simp
  show ?thesis
    using descriptor_uint [OF assms, of g] signed_take_bit_int_eq_self [OF lo hi]
    by (simp add: sint_uint)
qed

text \<open>What decoding finds in a descriptor, for \<open>n\<close> from 1 to 255.\<close>

lemma descriptor_decode:
  fixes g :: u16
  assumes "0 < n" and "n < 256"
  defines "d \<equiv> sint (push_bit 8 (ucast g :: u32) OR word_of_nat n)"
  shows "0 < d" and "unat ((word_of_int d :: u32) AND 0xff) = n"
    and "(word_of_int d :: u32) AND 0xff \<noteq> 0" and "ucast (drop_bit 8 (word_of_int d :: u32)) = g"
proof -
  have "0 \<le> uint g" by simp
  then show "0 < d"
    using assms(1) unfolding d_def descriptor_sint [OF assms(2)] by linarith
  have w: "(word_of_int d :: u32) = push_bit 8 (ucast g :: u32) OR word_of_nat n"
    by (simp add: d_def)
  show u: "unat ((word_of_int d :: u32) AND 0xff) = n"
    unfolding w descriptor_low [OF assms(2)]
    using assms(2) by (simp add: unsigned_of_nat take_bit_nat_eq_self)
  then show "(word_of_int d :: u32) AND 0xff \<noteq> 0"
    using assms(1) by (metis unat_0 less_irrefl)
  show "ucast (drop_bit 8 (word_of_int d :: u32)) = g"
    unfolding w by (rule descriptor_high [OF assms(2)])
qed

text \<open>
  A handle of the pointer and the device service holds the slot index in its low \<open>b\<close> bits and the
  generation above them.
\<close>

lemma handle_layout:
  fixes g :: u32
  assumes "n < 2 ^ b" and "unat g < 2 ^ (32 - b)" and "b \<le> 32"
  defines "w \<equiv> push_bit b g OR word_of_nat n"
  shows "w AND mask b = word_of_nat n" and "drop_bit b w = g" and "unat w = 2 ^ b * unat g + n"
proof -
  have p: "2 ^ b * unat g + n < 2 ^ 32"
  proof -
    have "2 ^ b * (unat g + 1) \<le> 2 ^ b * 2 ^ (32 - b)"
      by (rule mult_le_mono2) (use assms(2) in simp)
    also have "(2::nat) ^ b * 2 ^ (32 - b) = 2 ^ 32" using assms(3) by (simp flip: power_add)
    finally show ?thesis using assms(1) by simp
  qed
  have "n < 2 ^ 32" using p by (rule le_less_trans [rotated]) simp
  then have n: "unat (word_of_nat n :: u32) = n" by (simp add: unsigned_of_nat take_bit_nat_eq_self)
  have low: "take_bit b (word_of_nat n :: u32) = word_of_nat n"
  proof -
    have "take_bit b (word_of_nat n :: u32) = word_of_nat (take_bit b n)" by (rule take_bit_of_nat)
    with assms(1) show ?thesis by (simp add: take_bit_nat_eq_self)
  qed
  show "w AND mask b = word_of_nat n"
    unfolding w_def take_bit_eq_mask [symmetric]
    using low by (simp add: take_bit_or take_bit_push_bit)
  have high: "unat (push_bit b g) = 2 ^ b * unat g"
  proof -
    have "unat g * 2 ^ b \<le> 2 ^ b * unat g + n" by simp
    then have "unat g * 2 ^ b < 2 ^ 32" using p by (rule le_less_trans)
    then show ?thesis
      by (simp only: unsigned_push_bit_eq) (simp add: push_bit_eq_mult take_bit_nat_eq_self mult.commute)
  qed
  have dis: "push_bit b g AND word_of_nat n = 0"
    by (rule bit_word_eqI) (subst low [symmetric], auto simp: bit_simps)
  then have w: "w = push_bit b g + word_of_nat n"
    by (simp add: w_def disjunctive_add_eq_or)
  show u: "unat w = 2 ^ b * unat g + n"
    unfolding w using p high n by (subst unat_plus_no_wrap) simp_all
  have "unat (drop_bit b w) = unat g"
    using u assms(1) by (simp only: unat_drop_bit_eq) (simp add: drop_bit_eq_div)
  then show "drop_bit b w = g" by (simp add: word_unat_eq_iff)
qed

lemma handle_layout_signed:
  fixes g :: u32
  assumes "n < 2 ^ b" and "unat g < 2 ^ (31 - b)" and "b \<le> 31"
  defines "w \<equiv> push_bit b g OR word_of_nat n"
  shows "w AND mask b = word_of_nat n" and "drop_bit b w = g" and "sint w = int (2 ^ b * unat g + n)"
proof -
  have le: "(2::nat) ^ (31 - b) \<le> 2 ^ (32 - b)" by (rule power_increasing) simp_all
  then have g: "unat g < 2 ^ (32 - b)" using assms(2) by (rule less_le_trans [rotated])
  have b: "b \<le> 32" using assms(3) by simp
  note l = handle_layout [OF assms(1) g b, folded w_def]
  show "w AND mask b = word_of_nat n" "drop_bit b w = g" by (rule l(1,2))+
  have p: "2 ^ b * unat g + n < 2 ^ 31"
  proof -
    have "2 ^ b * (unat g + 1) \<le> 2 ^ b * 2 ^ (31 - b)"
      by (rule mult_le_mono2) (use assms(2) in simp)
    also have "(2::nat) ^ b * 2 ^ (31 - b) = 2 ^ 31" using assms(3) by (simp flip: power_add)
    finally show ?thesis using assms(1) by simp
  qed
  then have "int (unat w) < int (2 ^ 31)" using l(3) by (simp only: of_nat_less_iff)
  then have "uint w < 2 ^ 31" unfolding uint_nat by (simp only: of_nat_power of_nat_numeral)
  then have "sint w = uint w"
    using signed_take_bit_int_eq_self [of 31 "uint w"] order_trans [of "- 2147483648" 0 "uint w"]
    by (simp add: sint_uint)
  then show "sint w = int (2 ^ b * unat g + n)" by (simp only: uint_nat l(3))
qed

section \<open>The contract of a table\<close>

text \<open>
  \<open>bump\<close> gives the next generation; on \<open>valid\<close> ones it repeats after \<open>period\<close> openings.
  \<open>find slots d\<close> is the index that descriptor \<open>d\<close> resolves to; \<open>encode i g\<close> the descriptor of
  slot \<open>i\<close> at generation \<open>g\<close>; \<open>occupy v s\<close> the slot \<open>s\<close> opened for the resource \<open>v\<close>;
  \<open>release s\<close> the slot closed. A table may have \<open>n\<close> slots when \<open>fits n\<close>.
\<close>

locale handle_table =
  fixes slot_open :: "'s \<Rightarrow> bool"
    and slot_generation :: "'s \<Rightarrow> 'g"
    and bump :: "'g \<Rightarrow> 'g"
    and valid :: "'g \<Rightarrow> bool"
    and period :: nat
    and encode :: "nat \<Rightarrow> 'g \<Rightarrow> int"
    and find :: "'s list \<Rightarrow> int \<Rightarrow> nat option"
    and occupy :: "'v \<Rightarrow> 's \<Rightarrow> 's"
    and release :: "'s \<Rightarrow> 's"
    and fits :: "nat \<Rightarrow> bool"
  assumes bump_valid: "valid (bump g)"
    and bump_cycle: "valid g \<Longrightarrow> 0 < k \<Longrightarrow> k < period \<Longrightarrow> (bump ^^ k) g \<noteq> g"
    and find_encode: "i < length slots \<Longrightarrow> fits (length slots) \<Longrightarrow> valid g \<Longrightarrow>
      find slots (encode i g) =
        (if slot_open (slots ! i) \<and> slot_generation (slots ! i) = g then Some i else None)"
    and find_open: "fits (length slots) \<Longrightarrow> find slots d = Some i \<Longrightarrow> i < length slots \<and> slot_open (slots ! i)"
    and encode_positive: "fits n \<Longrightarrow> i < n \<Longrightarrow> valid g \<Longrightarrow> 0 < encode i g"
    and occupy_open: "slot_open (occupy v s)"
    and occupy_generation: "slot_generation (occupy v s) = bump (slot_generation s)"
    and release_open: "\<not> slot_open (release s)"
    and release_generation: "slot_generation (release s) = slot_generation s"
begin

definition first_free :: "'s list \<Rightarrow> nat" where
  "first_free slots = length (takeWhile slot_open slots)"

text \<open>A step of the table: opening a closed slot, closing an open one, or an update that opens nothing.\<close>

inductive table_step :: "'s list \<Rightarrow> nat option \<Rightarrow> 's list \<Rightarrow> bool" where
  step_open: "i < length slots \<Longrightarrow> \<not> slot_open (slots ! i) \<Longrightarrow>
     table_step slots (Some i) (slots[i := occupy v (slots ! i)])"
| step_close: "i < length slots \<Longrightarrow> table_step slots None (slots[i := release (slots ! i)])"
| step_same: "length slots' = length slots \<Longrightarrow>
     (\<And>i. i < length slots \<Longrightarrow> slot_generation (slots' ! i) = slot_generation (slots ! i) \<and>
       (slot_open (slots' ! i) \<longrightarrow> slot_open (slots ! i))) \<Longrightarrow>
     table_step slots None slots'"

inductive table_run :: "'s list \<Rightarrow> nat \<Rightarrow> 's list \<Rightarrow> bool" where
  run_nil: "table_run slots 0 slots"
| run_open: "table_run slots n slots' \<Longrightarrow> table_step slots' (Some i) slots'' \<Longrightarrow>
     table_run slots (Suc n) slots''"
| run_other: "table_run slots n slots' \<Longrightarrow> table_step slots' None slots'' \<Longrightarrow> table_run slots n slots''"

lemma first_free_closed:
  "first_free slots < length slots \<Longrightarrow> \<not> slot_open (slots ! first_free slots)"
  unfolding first_free_def by (rule nth_length_takeWhile)

lemma first_free_full: "first_free slots = length slots \<longleftrightarrow> (\<forall>s \<in> set slots. slot_open s)"
  unfolding first_free_def by (metis length_takeWhile_le takeWhile_eq_all_conv takeWhile_eq_take
      take_all_iff order_refl le_antisym)

lemma open_finds:
  assumes "i < length slots" and "fits (length slots)"
  shows "find (slots[i := occupy v (slots ! i)]) (encode i (bump (slot_generation (slots ! i)))) = Some i"
  using assms find_encode [of i "slots[i := occupy v (slots ! i)]"]
  by (simp add: bump_valid occupy_open occupy_generation)

lemma update_other:
  assumes "i < length slots" and "j < length slots" and "fits (length slots)" and "i \<noteq> j" and "valid g"
  shows "find (slots[i := s]) (encode j g) = find slots (encode j g)"
  using assms by (simp add: find_encode)

lemma closed_not_found:
  assumes "i < length slots" and "fits (length slots)" and "valid g"
  shows "find (slots[i := release (slots ! i)]) (encode i g) = None"
  using assms by (simp add: find_encode release_open)

lemma table_step_length: "table_step slots e slots' \<Longrightarrow> length slots' = length slots"
  by (induction rule: table_step.induct) auto

lemma table_run_length: "table_run slots n slots' \<Longrightarrow> length slots' = length slots"
  by (induction rule: table_run.induct) (auto dest: table_step_length)

text \<open>Every open slot has a generation that descriptors can carry.\<close>

definition generations_ok :: "'s list \<Rightarrow> bool" where
  "generations_ok slots \<longleftrightarrow> (\<forall>s \<in> set slots. slot_open s \<longrightarrow> valid (slot_generation s))"

lemma generations_ok_update:
  "generations_ok slots \<Longrightarrow> (slot_open s \<longrightarrow> valid (slot_generation s)) \<Longrightarrow> generations_ok (slots[i := s])"
  unfolding generations_ok_def using set_update_subset_insert [of slots i s] by blast

lemma table_step_generations:
  "table_step slots e slots' \<Longrightarrow> generations_ok slots \<Longrightarrow> generations_ok slots'"
proof (induction rule: table_step.induct)
  case (step_open i slots v)
  then show ?case by (simp add: generations_ok_update occupy_generation bump_valid)
next
  case (step_close i slots)
  then show ?case by (simp add: generations_ok_update release_open)
next
  case (step_same slots' slots)
  then show ?case by (metis generations_ok_def in_set_conv_nth)
qed

text \<open>A descriptor stands for the open slot it resolves to, at that slot's generation.\<close>

lemma open_slot_found:
  assumes "generations_ok slots" and "i < length slots" and "fits (length slots)"
    and "slot_open (slots ! i)"
  shows "find slots (encode i (slot_generation (slots ! i))) = Some i"
  using assms find_encode [of i slots "slot_generation (slots ! i)"]
  by (simp add: generations_ok_def)

text \<open>
  After \<open>n\<close> openings a slot's generation has advanced by at most \<open>n\<close>, and it has not advanced
  only if the slot was not opened again, in which case a closed slot is still closed.
\<close>

lemma table_run_generation:
  assumes "table_run slots n slots'" and "i < length slots"
  shows "length slots' = length slots \<and>
    (\<exists>k \<le> n. slot_generation (slots' ! i) = (bump ^^ k) (slot_generation (slots ! i)) \<and>
      (k = 0 \<longrightarrow> slot_open (slots' ! i) \<longrightarrow> slot_open (slots ! i)))"
  using assms
proof (induction rule: table_run.induct)
  case (run_nil slots)
  then show ?case by auto
next
  case (run_open slots n slots' j slots'')
  then obtain k where k: "k \<le> n"
      "slot_generation (slots' ! i) = (bump ^^ k) (slot_generation (slots ! i))"
      "k = 0 \<longrightarrow> slot_open (slots' ! i) \<longrightarrow> slot_open (slots ! i)"
    and len: "length slots' = length slots"
    by blast
  from run_open.hyps(2) obtain v where s: "slots'' = slots'[j := occupy v (slots' ! j)]"
    by (cases rule: table_step.cases) auto
  show ?case
  proof (cases "j = i")
    case True
    then have "slot_generation (slots'' ! i) = (bump ^^ Suc k) (slot_generation (slots ! i))"
      using k(2) s len run_open.prems by (simp add: occupy_generation)
    then show ?thesis using k(1) s len by (intro conjI exI [of _ "Suc k"]) auto
  next
    case False
    then show ?thesis using k s len by (intro conjI exI [of _ k]) auto
  qed
next
  case (run_other slots n slots' slots'')
  then obtain k where k: "k \<le> n"
      "slot_generation (slots' ! i) = (bump ^^ k) (slot_generation (slots ! i))"
      "k = 0 \<longrightarrow> slot_open (slots' ! i) \<longrightarrow> slot_open (slots ! i)"
    and len: "length slots' = length slots"
    by blast
  from run_other.hyps(2) have "length slots'' = length slots'"
    "slot_generation (slots'' ! i) = slot_generation (slots' ! i)"
    "slot_open (slots'' ! i) \<longrightarrow> slot_open (slots' ! i)"
    using run_other.prems len
    by (cases rule: table_step.cases; auto simp: nth_list_update release_open release_generation)+
  with k len show ?case by auto
qed

text \<open>A closed descriptor stays refused until generations repeat, whatever happens meanwhile.\<close>

lemma stale_not_found:
  assumes "table_run slots n slots'" and "n < period" and "i < length slots" and "fits (length slots)"
    and "\<not> slot_open (slots ! i)" and "slot_generation (slots ! i) = g" and "valid g"
  shows "find slots' (encode i g) = None"
proof -
  obtain k where len: "length slots' = length slots" and k: "k \<le> n"
      "slot_generation (slots' ! i) = (bump ^^ k) g"
      "k = 0 \<longrightarrow> slot_open (slots' ! i) \<longrightarrow> slot_open (slots ! i)"
    using table_run_generation [OF assms(1,3)] assms(6) by blast
  have "\<not> (slot_open (slots' ! i) \<and> slot_generation (slots' ! i) = g)"
    using k assms(2,5,7) bump_cycle [of g k] by (cases "k = 0") auto
  then show ?thesis using find_encode [of i slots' g] assms len by auto
qed

lemma later_generation_neq:
  assumes "table_run slots n slots'" and "i < length slots"
    and "slot_generation (slots ! i) = (bump ^^ k) g" and "valid g" and "0 < k" and "k + n < period"
  shows "slot_generation (slots' ! i) \<noteq> g"
proof -
  obtain l where l: "l \<le> n" "slot_generation (slots' ! i) = (bump ^^ l) (slot_generation (slots ! i))"
    using table_run_generation [OF assms(1,2)] by blast
  then have "slot_generation (slots' ! i) = (bump ^^ (l + k)) g"
    by (simp add: assms(3) funpow_add)
  with bump_cycle [OF assms(4), of "l + k"] l(1) assms(5,6) show ?thesis by simp
qed

text \<open>
  A slot opened at generation \<open>g\<close>, any steps, an attempt to close its descriptor, any steps: the
  descriptor does not resolve.
\<close>

lemma stale_after_close:
  assumes "table_run slots n mid" and "i < length slots" and "fits (length slots)"
    and "slot_generation (slots ! i) = g" and "valid g"
    and "closed = (if find mid (encode i g) = None then mid else mid[i := release (mid ! i)])"
    and "table_run closed m slots'" and "n + m < period"
  shows "find slots' (encode i g) = None"
proof -
  have mid: "length mid = length slots" by (rule table_run_length [OF assms(1)])
  have closed: "length closed = length mid" by (simp add: assms(6))
  have found: "find mid (encode i g) = (if slot_open (mid ! i) \<and> slot_generation (mid ! i) = g then Some i else None)"
    using assms(2,3,5) mid by (intro find_encode) simp_all
  have gen: "slot_generation (closed ! i) = slot_generation (mid ! i)"
    using assms(2) mid by (simp add: assms(6) release_generation)
  obtain k where k: "k \<le> n" "slot_generation (mid ! i) = (bump ^^ k) g"
    using table_run_generation [OF assms(1,2)] assms(4) by blast
  show ?thesis
  proof (cases "k = 0")
    case True
    then have "\<not> slot_open (closed ! i)"
      using found k(2) assms(2) mid by (auto simp: assms(6) release_open)
    with True show ?thesis
      using stale_not_found [OF assms(7), of i g] assms(2,3,5,8) mid closed gen k(2) by simp
  next
    case False
    have "slot_generation (slots' ! i) \<noteq> g"
      using later_generation_neq [OF assms(7), of i k g] False k assms(2,5,8) mid closed gen by simp
    then show ?thesis
      using find_encode [of i slots' g] table_run_length [OF assms(7)] assms(2,3,5) mid closed by simp
  qed
qed

end

end
