(* ===== verification/RingBuffer.thy ===== *)
theory RingBuffer
  imports TabPrelude
begin

text \<open>
  Ring buffers. The input queue of \<^verbatim>\<open>input/input.c\<close> and the stream queues of
  \<^verbatim>\<open>pointer/pointer.c\<close> are arrays with a head index and a count. \<open>ring_contents\<close> is the list
  of events such a ring holds, oldest first; the locales state what a queue promises to the
  code that fills and drains it.
\<close>

section \<open>Contents of a ring\<close>

definition ring_contents :: "'e list \<Rightarrow> nat \<Rightarrow> nat \<Rightarrow> 'e list" where
  "ring_contents buffer head count = map (\<lambda>i. buffer ! ((head + i) mod length buffer)) [0..<count]"

lemma ring_contents_length [simp]: "length (ring_contents buffer head count) = count"
  by (simp add: ring_contents_def)

lemma ring_contents_empty [simp]: "ring_contents buffer head 0 = []"
  by (simp add: ring_contents_def)

lemma ring_offset_neq:
  assumes "i < j" and "j < n"
  shows "(head + i) mod n \<noteq> (head + j) mod (n::nat)"
proof
  assume "(head + i) mod n = (head + j) mod n"
  then have "n dvd (head + j) - (head + i)"
    by (metis mod_eq_dvd_iff_nat add_le_mono order_refl less_imp_le assms(1))
  then have "n dvd j - i" by simp
  then show False using assms by (auto dest: dvd_imp_le)
qed

lemma ring_push:
  assumes "count < length buffer"
  shows "ring_contents (buffer[(head + count) mod length buffer := e]) head (Suc count) =
    ring_contents buffer head count @ [e]"
proof -
  have "0 < length buffer" using assms by linarith
  then have "(head + count) mod length buffer < length buffer" by simp
  moreover have "(head + i) mod length buffer \<noteq> (head + count) mod length buffer" if "i < count" for i
    using ring_offset_neq that assms by blast
  ultimately have "map (\<lambda>i. (buffer[(head + count) mod length buffer := e]) ! ((head + i) mod length buffer)) [0..<count]
      = map (\<lambda>i. buffer ! ((head + i) mod length buffer)) [0..<count]"
    by (intro map_cong) (simp_all add: nth_list_update_neq [OF not_sym])
  then show ?thesis
    using \<open>(head + count) mod length buffer < length buffer\<close> by (simp add: ring_contents_def)
qed

lemma ring_pop:
  assumes "0 < count"
  shows "ring_contents buffer head count = buffer ! (head mod length buffer) #
    ring_contents buffer ((head + 1) mod length buffer) (count - 1)"
proof -
  have "ring_contents buffer head count =
      buffer ! (head mod length buffer) # map (\<lambda>i. buffer ! ((head + i) mod length buffer)) [1..<count]"
    using assms by (simp add: ring_contents_def upt_conv_Cons)
  also have "map (\<lambda>i. buffer ! ((head + i) mod length buffer)) [1..<count] =
      map (\<lambda>i. buffer ! ((head + 1 + i) mod length buffer)) [0..<count - 1]"
  proof -
    have "[1..<count] = map Suc [0..<count - 1]" using assms map_Suc_upt [of 0 "count - 1"] by simp
    then show ?thesis by (simp add: comp_def)
  qed
  finally show ?thesis by (simp add: ring_contents_def mod_add_left_eq)
qed

section \<open>The contract of a queue\<close>

text \<open>
  \<open>ok\<close> is the state in which the queue may be used and \<open>contents\<close> what it holds. A push that
  finds room appends what the queue keeps of the element, its \<open>view\<close>; a pop removes the oldest element.
\<close>

locale fifo_queue =
  fixes ok :: "'s \<Rightarrow> bool"
    and contents :: "'s \<Rightarrow> 'e list"
    and capacity :: nat
    and push :: "'b \<Rightarrow> 's \<Rightarrow> 's"
    and view :: "'b \<Rightarrow> 'e"
    and front :: "'s \<Rightarrow> 'e"
    and pop :: "'s \<Rightarrow> 's"
  assumes capacity_positive: "0 < capacity"
    and contents_bound: "ok s \<Longrightarrow> length (contents s) \<le> capacity"
    and push_ok: "ok s \<Longrightarrow> length (contents s) < capacity \<Longrightarrow> ok (push e s)"
    and push_contents: "ok s \<Longrightarrow> length (contents s) < capacity \<Longrightarrow> contents (push e s) = contents s @ [view e]"
    and pop_ok: "ok s \<Longrightarrow> contents s \<noteq> [] \<Longrightarrow> ok (pop s)"
    and pop_contents: "ok s \<Longrightarrow> contents s \<noteq> [] \<Longrightarrow> contents s = front s # contents (pop s)"
begin

text \<open>Taking \<open>n\<close> elements.\<close>

fun take_front :: "nat \<Rightarrow> 's \<Rightarrow> 'e list \<times> 's" where
  "take_front 0 s = ([], s)"
| "take_front (Suc n) s =
     (if contents s = [] then ([], s)
      else (case take_front n (pop s) of (es, s') \<Rightarrow> (front s # es, s')))"

lemma take_front_contents:
  "ok s \<Longrightarrow> take_front n s = (es, s') \<Longrightarrow>
     es = take n (contents s) \<and> contents s' = drop n (contents s) \<and> ok s'"
proof (induction n arbitrary: s es)
  case (Suc n)
  show ?case
  proof (cases "contents s = []")
    case False
    obtain es' where t: "take_front n (pop s) = (es', s')" "es = front s # es'"
      using Suc.prems(2) False by (auto split: prod.splits)
    then show ?thesis
      using Suc.IH [OF pop_ok [OF Suc.prems(1) False] t(1)] pop_contents [OF Suc.prems(1) False]
      by (metis drop_Suc_Cons take_Suc_Cons)
  qed (use Suc.prems in simp)
qed simp

text \<open>Pushes that find room append in order.\<close>

lemma fold_push_contents:
  "ok s \<Longrightarrow> length (contents s) + length es \<le> capacity \<Longrightarrow>
     contents (fold push es s) = contents s @ map view es \<and> ok (fold push es s)"
proof (induction es arbitrary: s)
  case (Cons e es)
  then have "ok (push e s)" "contents (push e s) = contents s @ [view e]"
    by (simp_all add: push_ok push_contents)
  with Cons show ?case by simp
qed simp

end

text \<open>A queue that makes room by dropping its oldest element.\<close>

locale dropping_queue = fifo_queue +
  fixes submit :: "'c \<Rightarrow> 'a \<Rightarrow> 'a"
  assumes submit_def: "ok s \<Longrightarrow> submit e s = push e (if length (contents s) = capacity then pop s else s)"
begin

lemma submit_step:
  assumes "ok s"
  shows "ok (submit e s) \<and> contents (submit e s) =
    (if length (contents s) = capacity then tl (contents s) else contents s) @ [view e]"
proof (cases "length (contents s) = capacity")
  case True
  then have ne: "contents s \<noteq> []" using capacity_positive by auto
  have "contents (pop s) = tl (contents s)" using pop_contents [OF assms ne] by (metis list.sel(3))
  moreover have "ok (pop s)" using pop_ok [OF assms ne] .
  moreover have "length (tl (contents s)) < capacity" using True capacity_positive by simp
  ultimately show ?thesis
    using True push_ok push_contents submit_def [OF assms] by simp
next
  case False
  then have "length (contents s) < capacity" using contents_bound [OF assms] by simp
  with False assms show ?thesis using push_ok push_contents submit_def by simp
qed

text \<open>After any number of submissions the queue holds the newest elements, in order.\<close>

lemma fold_submit_contents:
  assumes "ok s"
  shows "contents (fold submit es s) =
      drop (length (contents s) + length es - capacity) (contents s @ map view es) \<and> ok (fold submit es s)"
  using assms
proof (induction es rule: rev_induct)
  case Nil
  then show ?case using contents_bound by simp
next
  case (snoc e es)
  let ?s = "fold submit es s" and ?n = "length (contents s) + length es"
  have ok: "ok ?s" and c: "contents ?s = drop (?n - capacity) (contents s @ map view es)"
    using snoc by simp_all
  have len: "length (contents ?s) = min ?n capacity" by (simp add: c)
  show ?case
  proof (cases "capacity \<le> ?n")
    case True
    then have "length (contents ?s) = capacity" using len by simp
    then have "contents (submit e ?s) = tl (contents ?s) @ [view e]" "ok (submit e ?s)"
      using submit_step [OF ok, of e] by simp_all
    moreover have "tl (contents ?s) @ [view e] = drop (Suc ?n - capacity) (contents s @ map view es @ [view e])"
    proof -
      have "tl (drop m xs) @ [x] = drop (Suc m) (xs @ [x])" if "m < length xs" for m and x and xs :: "'b list"
        using that by (simp add: drop_Suc tl_drop)
      from this [of "?n - capacity" "contents s @ map view es" "view e"] True capacity_positive show ?thesis
        by (simp only: c Suc_diff_le append_assoc length_append length_map)
    qed
    ultimately show ?thesis by simp
  next
    case False
    then have "length (contents ?s) \<noteq> capacity" using len by simp
    then have "contents (submit e ?s) = contents ?s @ [view e]" "ok (submit e ?s)"
      using submit_step [OF ok, of e] by simp_all
    with False show ?thesis by (simp add: c)
  qed
qed

end

end
