(* ===== verification/Filesystem.thy ===== *)
theory Filesystem
  imports Paths HandleTable
begin

unbundle bit_operations_syntax

text \<open>
  The file service of \<^verbatim>\<open>fs/filesystem.c\<close>: descriptor tables, path resolution against the working
  directory, and the calls into the storage backend of \<^verbatim>\<open>platform/storage.h\<close>. The backend is the
  record of functions \<open>ops\<close> over a backend state \<open>'p\<close>, kept in \<open>fs_storage\<close>. Every operation
  holds the filesystem lock, so an operation is one step. The two static tables have the lengths
  that the build configures (1 to 255 slots); the model takes them from the state. A function
  returns its C result with the new state, and \<open>fs_errno\<close> is the thread's error number.
\<close>

section \<open>State\<close>

record file_slot =
  f_platform_file :: nat
  f_fallback_device_id :: u64
  f_fallback_file_id :: u64
  f_generation :: u16
  f_open :: bool

record directory_slot =
  d_platform_directory :: nat
  d_generation :: u16
  d_open :: bool

definition file_slot_zero :: file_slot where
  "file_slot_zero = \<lparr>f_platform_file = 0, f_fallback_device_id = 0, f_fallback_file_id = 0,
     f_generation = 0, f_open = False\<rparr>"

definition directory_slot_zero :: directory_slot where
  "directory_slot_zero = \<lparr>d_platform_directory = 0, d_generation = 0, d_open = False\<rparr>"

record tabos_stat =
  st_mode :: u32
  st_size :: u64
  st_modified_time :: int
  st_device_id :: u64
  st_file_id :: u64

record tabos_dirent =
  de_mode :: u32
  de_name :: string

record platform_storage_info =
  si_total_bytes :: u64
  si_free_bytes :: u64
  si_mounted :: bool
  si_removable :: bool
  si_name :: string
  si_letter :: char

record tabos_drive_info =
  dr_total_bytes :: u64
  dr_free_bytes :: u64
  dr_name :: string
  dr_letter :: char
  dr_mounted :: bool
  dr_removable :: bool

text \<open>
  The storage backend. A call that can fail returns its error number first, 0 for success; the
  values it writes through pointers and its new state follow.
\<close>

record 'p storage_ops =
  so_init :: "'p \<Rightarrow> bool \<times> 'p"
  so_shutdown :: "'p \<Rightarrow> 'p"
  so_drive_count :: "'p \<Rightarrow> nat"
  so_info :: "'p \<Rightarrow> nat \<Rightarrow> platform_storage_info option"
  so_has_drive :: "'p \<Rightarrow> char \<Rightarrow> bool"
  so_default_drive :: "'p \<Rightarrow> char"
  so_open :: "'p \<Rightarrow> char \<Rightarrow> string \<Rightarrow> int \<Rightarrow> u32 \<Rightarrow> int \<times> nat \<times> 'p"
  so_close :: "'p \<Rightarrow> nat \<Rightarrow> int \<times> 'p"
  so_read :: "'p \<Rightarrow> nat \<Rightarrow> nat \<Rightarrow> int \<times> u8 list \<times> 'p"
  so_write :: "'p \<Rightarrow> nat \<Rightarrow> u8 list \<Rightarrow> int \<times> nat \<times> 'p"
  so_seek :: "'p \<Rightarrow> nat \<Rightarrow> int \<Rightarrow> int \<Rightarrow> int \<times> int \<times> 'p"
  so_stat :: "'p \<Rightarrow> char \<Rightarrow> string \<Rightarrow> int \<times> tabos_stat \<times> 'p"
  so_fstat :: "'p \<Rightarrow> nat \<Rightarrow> int \<times> tabos_stat \<times> 'p"
  so_unlink :: "'p \<Rightarrow> char \<Rightarrow> string \<Rightarrow> int \<times> 'p"
  so_rename :: "'p \<Rightarrow> char \<Rightarrow> string \<Rightarrow> string \<Rightarrow> int \<times> 'p"
  so_mkdir :: "'p \<Rightarrow> char \<Rightarrow> string \<Rightarrow> u32 \<Rightarrow> int \<times> 'p"
  so_rmdir :: "'p \<Rightarrow> char \<Rightarrow> string \<Rightarrow> int \<times> 'p"
  so_opendir :: "'p \<Rightarrow> char \<Rightarrow> string \<Rightarrow> int \<times> nat \<times> 'p"
  so_readdir :: "'p \<Rightarrow> nat \<Rightarrow> int \<times> tabos_dirent \<times> bool \<times> 'p"
  so_closedir :: "'p \<Rightarrow> nat \<Rightarrow> int \<times> 'p"

record 'p fs_state =
  fs_files :: "file_slot list"
  fs_directories :: "directory_slot list"
  fs_errno :: int
  fs_initialized :: bool
  fs_mounted :: bool
  fs_working_directory :: string
  fs_storage :: 'p

definition TABOS_S_IFDIR :: u32 where "TABOS_S_IFDIR = 2"

section \<open>Helpers\<close>

definition fs_fail :: "int \<Rightarrow> 'p fs_state \<Rightarrow> int \<times> 'p fs_state" where
  "fs_fail error fs = (- 1, fs\<lparr>fs_errno := error\<rparr>)"

definition fs_return :: "int \<Rightarrow> int \<Rightarrow> 'p fs_state \<Rightarrow> int \<times> 'p fs_state" where
  "fs_return error value fs = (if error = 0 then (value, fs) else fs_fail error fs)"

text \<open>The FNV-1a hash of the path, with ASCII letters folded to lower case.\<close>

fun fallback_hash :: "u64 \<Rightarrow> string \<Rightarrow> u64" where
  "fallback_hash hash [] = hash"
| "fallback_hash hash (c # cs) =
     (let byte = (of_char c :: u64);
          byte = (if 65 \<le> byte \<and> byte \<le> 90 then byte - 65 + 97 else byte)
      in fallback_hash ((hash XOR byte) * 1099511628211) cs)"

definition fallback_file_id :: "string \<Rightarrow> u64" where
  "fallback_file_id resolved =
     (let hash = fallback_hash 14695981039346656037 resolved in if hash = 0 then 1 else hash)"

definition fallback_device_id :: "char \<Rightarrow> u64" where
  "fallback_device_id drive = word_of_int (of_char drive - 65 + 1)"

definition supply_fallback_identity :: "string \<Rightarrow> tabos_stat \<Rightarrow> tabos_stat" where
  "supply_fallback_identity resolved status =
     (if st_file_id status \<noteq> 0 then status
      else status\<lparr>st_device_id := fallback_device_id (c_char resolved 0),
                  st_file_id := fallback_file_id resolved\<rparr>)"

text \<open>The resolved path, or the state with the error number set.\<close>

definition resolve_path ::
    "'p storage_ops \<Rightarrow> string option \<Rightarrow> 'p fs_state \<Rightarrow> string option \<times> 'p fs_state" where
  "resolve_path ops path fs =
     (if \<not> fs_initialized fs \<or> \<not> fs_mounted fs then (None, snd (fs_fail ENODEV fs))
      else
        (case filesystem_normalize_path path (Some (fs_working_directory fs)) (Some FS_PATH_MAX) of
           None \<Rightarrow>
             (None, snd (fs_fail
               (if path \<noteq> None \<and> FS_PATH_MAX \<le> length (the path) then ENAMETOOLONG else EINVAL) fs))
         | Some resolved \<Rightarrow>
             (if \<not> so_has_drive ops (fs_storage fs) (c_char resolved 0)
              then (None, snd (fs_fail ENODEV fs))
              else (Some resolved, fs))))"

definition encode_file :: "nat \<Rightarrow> u16 \<Rightarrow> int" where
  "encode_file index generation =
     sint (push_bit 8 (ucast generation :: u32) OR word_of_nat (index + 1))"

definition file_for_descriptor :: "file_slot list \<Rightarrow> int \<Rightarrow> nat option" where
  "file_for_descriptor files descriptor =
     (let value = word_of_int descriptor :: u32;
          encoded_index = value AND 0xff;
          generation = ucast (drop_bit 8 value) :: u16
      in if descriptor \<le> 0 \<or> encoded_index = 0 \<or> length files < unat encoded_index then None
         else
           (let index = unat encoded_index - 1; slot = files ! index
            in if f_open slot \<and> f_generation slot = generation then Some index else None))"

definition encode_directory :: "nat \<Rightarrow> u16 \<Rightarrow> int" where
  "encode_directory index generation =
     sint (push_bit 8 (ucast generation :: u32) OR word_of_nat (index + 1))"

definition directory_for_descriptor :: "directory_slot list \<Rightarrow> int \<Rightarrow> nat option" where
  "directory_for_descriptor directories descriptor =
     (let value = word_of_int descriptor :: u32;
          encoded_index = value AND 0xff;
          generation = ucast (drop_bit 8 value) :: u16
      in if descriptor \<le> 0 \<or> encoded_index = 0 \<or> length directories < unat encoded_index then None
         else
           (let index = unat encoded_index - 1; slot = directories ! index
            in if d_open slot \<and> d_generation slot = generation then Some index else None))"

section \<open>Drives, start and stop\<close>

definition tabos_fs_drive_count :: "'p storage_ops \<Rightarrow> 'p fs_state \<Rightarrow> nat" where
  "tabos_fs_drive_count ops fs = (if fs_initialized fs then so_drive_count ops (fs_storage fs) else 0)"

definition tabos_fs_drive_info ::
    "'p storage_ops \<Rightarrow> nat \<Rightarrow> bool \<Rightarrow> 'p fs_state \<Rightarrow> tabos_drive_info option" where
  "tabos_fs_drive_info ops index info fs =
     (if \<not> fs_initialized fs \<or> \<not> info then None
      else
        (case so_info ops (fs_storage fs) index of
           None \<Rightarrow> None
         | Some i \<Rightarrow> Some \<lparr>dr_total_bytes = si_total_bytes i, dr_free_bytes = si_free_bytes i,
             dr_name = si_name i, dr_letter = si_letter i, dr_mounted = si_mounted i,
             dr_removable = si_removable i\<rparr>))"

definition filesystem_init :: "'p storage_ops \<Rightarrow> 'p fs_state \<Rightarrow> bool \<times> 'p fs_state" where
  "filesystem_init ops fs =
     (if fs_initialized fs then (True, fs)
      else
        (let fs = fs\<lparr>fs_files := map (\<lambda>_. file_slot_zero) (fs_files fs),
                     fs_directories := map (\<lambda>_. directory_slot_zero) (fs_directories fs),
                     fs_working_directory := ''A:/'', fs_errno := 0, fs_initialized := True\<rparr>;
             (mounted, p) = so_init ops (fs_storage fs);
             fs = fs\<lparr>fs_mounted := mounted, fs_storage := p\<rparr>;
             default_drive = so_default_drive ops p
         in if fs_mounted fs \<and> default_drive \<noteq> CHR 0x00
            then (True, fs\<lparr>fs_working_directory := (fs_working_directory fs)[0 := default_drive]\<rparr>)
            else (True, fs)))"

fun close_open_files :: "'p storage_ops \<Rightarrow> file_slot list \<Rightarrow> 'p \<Rightarrow> 'p" where
  "close_open_files ops [] p = p"
| "close_open_files ops (slot # slots) p =
     close_open_files ops slots (if f_open slot then snd (so_close ops p (f_platform_file slot)) else p)"

fun close_open_directories :: "'p storage_ops \<Rightarrow> directory_slot list \<Rightarrow> 'p \<Rightarrow> 'p" where
  "close_open_directories ops [] p = p"
| "close_open_directories ops (slot # slots) p =
     close_open_directories ops slots
       (if d_open slot then snd (so_closedir ops p (d_platform_directory slot)) else p)"

definition filesystem_shutdown :: "'p storage_ops \<Rightarrow> 'p fs_state \<Rightarrow> 'p fs_state" where
  "filesystem_shutdown ops fs =
     (if \<not> fs_initialized fs then fs
      else
        (let p = close_open_files ops (fs_files fs) (fs_storage fs);
             p = close_open_directories ops (fs_directories fs) p;
             fs = fs\<lparr>fs_files := map (\<lambda>_. file_slot_zero) (fs_files fs),
                     fs_directories := map (\<lambda>_. directory_slot_zero) (fs_directories fs)\<rparr>
         in fs\<lparr>fs_storage := so_shutdown ops p, fs_mounted := False, fs_initialized := False\<rparr>))"

definition filesystem_is_mounted :: "'p fs_state \<Rightarrow> bool" where
  "filesystem_is_mounted fs \<longleftrightarrow> fs_initialized fs \<and> fs_mounted fs"

section \<open>Files\<close>

text \<open>
  An output pointer that the code checks against NULL is a flag, false for NULL; what is written
  through it is part of the result.
\<close>

definition tabos_fs_open ::
    "'p storage_ops \<Rightarrow> string option \<Rightarrow> int \<Rightarrow> u32 \<Rightarrow> 'p fs_state \<Rightarrow> int \<times> 'p fs_state" where
  "tabos_fs_open ops path flags mode fs =
     (case resolve_path ops path fs of
        (None, fs) \<Rightarrow> (- 1, fs)
      | (Some resolved, fs) \<Rightarrow>
          (let index = length (takeWhile f_open (fs_files fs))
           in if index = length (fs_files fs) then fs_fail EMFILE fs
              else
                (case so_open ops (fs_storage fs) (c_char resolved 0) (drop 2 resolved) flags mode of
                   (error, platform_file, p) \<Rightarrow>
                     (let fs = fs\<lparr>fs_storage := p\<rparr>
                      in if error \<noteq> 0 then fs_fail error fs
                         else
                           (let slot = fs_files fs ! index;
                                slot = \<lparr>f_platform_file = platform_file,
                                  f_fallback_device_id = fallback_device_id (c_char resolved 0),
                                  f_fallback_file_id = fallback_file_id resolved,
                                  f_generation = next_generation (f_generation slot),
                                  f_open = True\<rparr>
                            in (encode_file index (f_generation slot),
                                fs\<lparr>fs_files := (fs_files fs)[index := slot], fs_errno := 0\<rparr>))))))"

definition tabos_fs_close :: "'p storage_ops \<Rightarrow> int \<Rightarrow> 'p fs_state \<Rightarrow> int \<times> 'p fs_state" where
  "tabos_fs_close ops descriptor fs =
     (case file_for_descriptor (fs_files fs) descriptor of
        None \<Rightarrow> fs_fail EBADF fs
      | Some index \<Rightarrow>
          (let slot = fs_files fs ! index;
               (error, p) = so_close ops (fs_storage fs) (f_platform_file slot)
           in fs_return error 0
                (fs\<lparr>fs_storage := p, fs_files := (fs_files fs)[index := slot\<lparr>f_open := False\<rparr>]\<rparr>)))"

definition tabos_fs_read ::
    "'p storage_ops \<Rightarrow> int \<Rightarrow> bool \<Rightarrow> nat \<Rightarrow> 'p fs_state \<Rightarrow> int \<times> u8 list \<times> 'p fs_state" where
  "tabos_fs_read ops descriptor buffer count fs =
     (if \<not> buffer \<and> count \<noteq> 0 then (case fs_fail EINVAL fs of (r, fs) \<Rightarrow> (r, [], fs))
      else
        (case file_for_descriptor (fs_files fs) descriptor of
           None \<Rightarrow> (case fs_fail EBADF fs of (r, fs) \<Rightarrow> (r, [], fs))
         | Some index \<Rightarrow>
             (case so_read ops (fs_storage fs) (f_platform_file (fs_files fs ! index)) count of
                (error, bytes, p) \<Rightarrow>
                  (case fs_return error (int (length bytes)) (fs\<lparr>fs_storage := p\<rparr>) of
                     (r, fs) \<Rightarrow> (r, bytes, fs)))))"

definition tabos_fs_write ::
    "'p storage_ops \<Rightarrow> int \<Rightarrow> u8 list option \<Rightarrow> nat \<Rightarrow> 'p fs_state \<Rightarrow> int \<times> 'p fs_state" where
  "tabos_fs_write ops descriptor buffer count fs =
     (if buffer = None \<and> count \<noteq> 0 then fs_fail EINVAL fs
      else
        (case file_for_descriptor (fs_files fs) descriptor of
           None \<Rightarrow> fs_fail EBADF fs
         | Some index \<Rightarrow>
             (case so_write ops (fs_storage fs) (f_platform_file (fs_files fs ! index))
                (case buffer of None \<Rightarrow> [] | Some bytes \<Rightarrow> take count bytes) of
                (error, bytes_written, p) \<Rightarrow>
                  fs_return error (int bytes_written) (fs\<lparr>fs_storage := p\<rparr>))))"

definition tabos_fs_seek ::
    "'p storage_ops \<Rightarrow> int \<Rightarrow> int \<Rightarrow> int \<Rightarrow> 'p fs_state \<Rightarrow> int \<times> 'p fs_state" where
  "tabos_fs_seek ops descriptor offset whence fs =
     (case file_for_descriptor (fs_files fs) descriptor of
        None \<Rightarrow> fs_fail EBADF fs
      | Some index \<Rightarrow>
          (case so_seek ops (fs_storage fs) (f_platform_file (fs_files fs ! index)) offset whence of
             (error, position, p) \<Rightarrow> fs_return error position (fs\<lparr>fs_storage := p\<rparr>)))"

definition tabos_fs_stat ::
    "'p storage_ops \<Rightarrow> string option \<Rightarrow> bool \<Rightarrow> 'p fs_state \<Rightarrow> int \<times> tabos_stat option \<times> 'p fs_state" where
  "tabos_fs_stat ops path status fs =
     (if \<not> status then (case fs_fail EINVAL fs of (r, fs) \<Rightarrow> (r, None, fs))
      else
        (case resolve_path ops path fs of
           (None, fs) \<Rightarrow> (- 1, None, fs)
         | (Some resolved, fs) \<Rightarrow>
             (case so_stat ops (fs_storage fs) (c_char resolved 0) (drop 2 resolved) of
                (error, st, p) \<Rightarrow>
                  (let st = (if error = 0 then supply_fallback_identity resolved st else st)
                   in case fs_return error 0 (fs\<lparr>fs_storage := p\<rparr>) of (r, fs) \<Rightarrow> (r, Some st, fs)))))"

definition tabos_fs_fstat ::
    "'p storage_ops \<Rightarrow> int \<Rightarrow> bool \<Rightarrow> 'p fs_state \<Rightarrow> int \<times> tabos_stat option \<times> 'p fs_state" where
  "tabos_fs_fstat ops descriptor status fs =
     (if \<not> status then (case fs_fail EINVAL fs of (r, fs) \<Rightarrow> (r, None, fs))
      else
        (case file_for_descriptor (fs_files fs) descriptor of
           None \<Rightarrow> (case fs_fail EBADF fs of (r, fs) \<Rightarrow> (r, None, fs))
         | Some index \<Rightarrow>
             (let slot = fs_files fs ! index
              in case so_fstat ops (fs_storage fs) (f_platform_file slot) of
                   (error, st, p) \<Rightarrow>
                     (let st = (if error = 0 \<and> st_file_id st = 0
                        then st\<lparr>st_device_id := f_fallback_device_id slot,
                                st_file_id := f_fallback_file_id slot\<rparr>
                        else st)
                      in case fs_return error 0 (fs\<lparr>fs_storage := p\<rparr>) of
                           (r, fs) \<Rightarrow> (r, Some st, fs)))))"

section \<open>Paths and directories\<close>

definition path_operation ::
    "'p storage_ops \<Rightarrow> string option \<Rightarrow> ('p \<Rightarrow> char \<Rightarrow> string \<Rightarrow> int \<times> 'p) \<Rightarrow> 'p fs_state \<Rightarrow>
     int \<times> 'p fs_state" where
  "path_operation ops path operation fs =
     (case resolve_path ops path fs of
        (None, fs) \<Rightarrow> (- 1, fs)
      | (Some resolved, fs) \<Rightarrow>
          (case operation (fs_storage fs) (c_char resolved 0) (drop 2 resolved) of
             (error, p) \<Rightarrow> fs_return error 0 (fs\<lparr>fs_storage := p\<rparr>)))"

definition tabos_fs_unlink :: "'p storage_ops \<Rightarrow> string option \<Rightarrow> 'p fs_state \<Rightarrow> int \<times> 'p fs_state" where
  "tabos_fs_unlink ops path fs = path_operation ops path (so_unlink ops) fs"

definition tabos_fs_rmdir :: "'p storage_ops \<Rightarrow> string option \<Rightarrow> 'p fs_state \<Rightarrow> int \<times> 'p fs_state" where
  "tabos_fs_rmdir ops path fs = path_operation ops path (so_rmdir ops) fs"

definition tabos_fs_mkdir ::
    "'p storage_ops \<Rightarrow> string option \<Rightarrow> u32 \<Rightarrow> 'p fs_state \<Rightarrow> int \<times> 'p fs_state" where
  "tabos_fs_mkdir ops path mode fs =
     (case resolve_path ops path fs of
        (None, fs) \<Rightarrow> (- 1, fs)
      | (Some resolved, fs) \<Rightarrow>
          (case so_mkdir ops (fs_storage fs) (c_char resolved 0) (drop 2 resolved) mode of
             (error, p) \<Rightarrow> fs_return error 0 (fs\<lparr>fs_storage := p\<rparr>)))"

text \<open>A rename gives every open file that had the old path's identity the new path's.\<close>

definition rename_slot :: "u64 \<Rightarrow> u64 \<Rightarrow> u64 \<Rightarrow> file_slot \<Rightarrow> file_slot" where
  "rename_slot device_id old_file_id new_file_id slot =
     (if f_open slot \<and> f_fallback_device_id slot = device_id \<and> f_fallback_file_id slot = old_file_id
      then slot\<lparr>f_fallback_file_id := new_file_id\<rparr> else slot)"

lemma rename_slot_open [simp]:
  "f_open (rename_slot d old_id new_id slot) = f_open slot"
  "f_generation (rename_slot d old_id new_id slot) = f_generation slot"
  "f_platform_file (rename_slot d old_id new_id slot) = f_platform_file slot"
  by (simp_all add: rename_slot_def)

definition tabos_fs_rename ::
    "'p storage_ops \<Rightarrow> string option \<Rightarrow> string option \<Rightarrow> 'p fs_state \<Rightarrow> int \<times> 'p fs_state" where
  "tabos_fs_rename ops old_path new_path fs =
     (case resolve_path ops old_path fs of
        (None, fs) \<Rightarrow> (- 1, fs)
      | (Some old_resolved, fs) \<Rightarrow>
          (case resolve_path ops new_path fs of
             (None, fs) \<Rightarrow> (- 1, fs)
           | (Some new_resolved, fs) \<Rightarrow>
               (if c_char old_resolved 0 \<noteq> c_char new_resolved 0 then fs_fail EXDEV fs
                else
                  (case so_rename ops (fs_storage fs) (c_char old_resolved 0) (drop 2 old_resolved)
                     (drop 2 new_resolved) of
                     (error, p) \<Rightarrow>
                       (let fs = fs\<lparr>fs_storage := p\<rparr>;
                            fs = (if error = 0
                              then fs\<lparr>fs_files := map (rename_slot
                                (fallback_device_id (c_char old_resolved 0))
                                (fallback_file_id old_resolved) (fallback_file_id new_resolved))
                                (fs_files fs)\<rparr>
                              else fs)
                        in fs_return error 0 fs)))))"

definition tabos_fs_chdir :: "'p storage_ops \<Rightarrow> string option \<Rightarrow> 'p fs_state \<Rightarrow> int \<times> 'p fs_state" where
  "tabos_fs_chdir ops path fs =
     (case resolve_path ops path fs of
        (None, fs) \<Rightarrow> (- 1, fs)
      | (Some resolved, fs) \<Rightarrow>
          (case so_stat ops (fs_storage fs) (c_char resolved 0) (drop 2 resolved) of
             (error, status, p) \<Rightarrow>
               (let fs = fs\<lparr>fs_storage := p\<rparr>
                in if error \<noteq> 0 \<or> st_mode status AND TABOS_S_IFDIR = 0
                   then fs_fail (if error \<noteq> 0 then error else ENOTDIR) fs
                   else (0, fs\<lparr>fs_working_directory := resolved\<rparr>))))"

definition tabos_fs_getcwd :: "bool \<Rightarrow> nat \<Rightarrow> 'p fs_state \<Rightarrow> string option \<times> 'p fs_state" where
  "tabos_fs_getcwd buffer capacity fs =
     (if \<not> buffer \<or> capacity = 0 then (None, snd (fs_fail EINVAL fs))
      else if capacity < length (fs_working_directory fs) + 1 then (None, snd (fs_fail ENAMETOOLONG fs))
      else (Some (fs_working_directory fs), fs))"

definition tabos_fs_opendir :: "'p storage_ops \<Rightarrow> string option \<Rightarrow> 'p fs_state \<Rightarrow> int \<times> 'p fs_state" where
  "tabos_fs_opendir ops path fs =
     (case resolve_path ops path fs of
        (None, fs) \<Rightarrow> (- 1, fs)
      | (Some resolved, fs) \<Rightarrow>
          (let index = length (takeWhile d_open (fs_directories fs))
           in if index = length (fs_directories fs) then fs_fail EMFILE fs
              else
                (case so_opendir ops (fs_storage fs) (c_char resolved 0) (drop 2 resolved) of
                   (error, platform_directory, p) \<Rightarrow>
                     (let fs = fs\<lparr>fs_storage := p\<rparr>
                      in if error \<noteq> 0 then fs_fail error fs
                         else
                           (let slot = fs_directories fs ! index;
                                slot = \<lparr>d_platform_directory = platform_directory,
                                  d_generation = next_generation (d_generation slot), d_open = True\<rparr>
                            in (encode_directory index (d_generation slot),
                                fs\<lparr>fs_directories := (fs_directories fs)[index := slot]\<rparr>))))))"

definition tabos_fs_readdir ::
    "'p storage_ops \<Rightarrow> int \<Rightarrow> bool \<Rightarrow> 'p fs_state \<Rightarrow> int \<times> tabos_dirent option \<times> 'p fs_state" where
  "tabos_fs_readdir ops directory entry fs =
     (if \<not> entry then (case fs_fail EINVAL fs of (r, fs) \<Rightarrow> (r, None, fs))
      else
        (case directory_for_descriptor (fs_directories fs) directory of
           None \<Rightarrow> (case fs_fail EBADF fs of (r, fs) \<Rightarrow> (r, None, fs))
         | Some index \<Rightarrow>
             (case so_readdir ops (fs_storage fs) (d_platform_directory (fs_directories fs ! index)) of
                (error, de, end_reached, p) \<Rightarrow>
                  (case fs_return error (if end_reached then 0 else 1) (fs\<lparr>fs_storage := p\<rparr>) of
                     (r, fs) \<Rightarrow> (r, Some de, fs)))))"

definition tabos_fs_closedir :: "'p storage_ops \<Rightarrow> int \<Rightarrow> 'p fs_state \<Rightarrow> int \<times> 'p fs_state" where
  "tabos_fs_closedir ops directory fs =
     (case directory_for_descriptor (fs_directories fs) directory of
        None \<Rightarrow> fs_fail EBADF fs
      | Some index \<Rightarrow>
          (let slot = fs_directories fs ! index;
               (error, p) = so_closedir ops (fs_storage fs) (d_platform_directory slot)
           in fs_return error 0
                (fs\<lparr>fs_storage := p,
                    fs_directories := (fs_directories fs)[index := slot\<lparr>d_open := False\<rparr>]\<rparr>)))"

section \<open>The descriptor tables keep the contract\<close>

definition open_file_slot :: "nat \<times> u64 \<times> u64 \<Rightarrow> file_slot \<Rightarrow> file_slot" where
  "open_file_slot v slot = (case v of (platform_file, device_id, file_id) \<Rightarrow>
     \<lparr>f_platform_file = platform_file, f_fallback_device_id = device_id,
      f_fallback_file_id = file_id, f_generation = next_generation (f_generation slot), f_open = True\<rparr>)"

definition open_directory_slot :: "nat \<Rightarrow> directory_slot \<Rightarrow> directory_slot" where
  "open_directory_slot platform_directory slot =
     \<lparr>d_platform_directory = platform_directory, d_generation = next_generation (d_generation slot),
      d_open = True\<rparr>"

lemma file_for_encoded:
  assumes "i < length files" and "length files \<le> 255"
  shows "file_for_descriptor files (encode_file i g) =
    (if f_open (files ! i) \<and> f_generation (files ! i) = g then Some i else None)"
proof -
  have "0 < i + 1" "i + 1 < 256" using assms by simp_all
  note d = descriptor_decode [OF this, of g, folded encode_file_def]
  show ?thesis
    unfolding file_for_descriptor_def Let_def d(2,4) using d(1,3) assms(1) by simp
qed

lemma directory_for_encoded:
  assumes "i < length directories" and "length directories \<le> 255"
  shows "directory_for_descriptor directories (encode_directory i g) =
    (if d_open (directories ! i) \<and> d_generation (directories ! i) = g then Some i else None)"
proof -
  have "0 < i + 1" "i + 1 < 256" using assms by simp_all
  note d = descriptor_decode [OF this, of g, folded encode_directory_def]
  show ?thesis
    unfolding directory_for_descriptor_def Let_def d(2,4) using d(1,3) assms(1) by simp
qed

lemma file_for_descriptor_open:
  assumes "file_for_descriptor files d = Some i"
  shows "i < length files \<and> f_open (files ! i)"
proof -
  let ?e = "unat ((word_of_int d :: u32) AND 0xff)"
  have "(word_of_int d :: u32) AND 0xff \<noteq> 0" "?e \<le> length files" "i = ?e - 1" "f_open (files ! i)"
    using assms by (auto simp: file_for_descriptor_def Let_def split: if_splits)
  moreover from this(1) have "0 < ?e" by (simp add: unat_gt_0)
  ultimately show ?thesis by auto
qed

lemma directory_for_descriptor_open:
  assumes "directory_for_descriptor directories d = Some i"
  shows "i < length directories \<and> d_open (directories ! i)"
proof -
  let ?e = "unat ((word_of_int d :: u32) AND 0xff)"
  have "(word_of_int d :: u32) AND 0xff \<noteq> 0" "?e \<le> length directories" "i = ?e - 1"
    "d_open (directories ! i)"
    using assms by (auto simp: directory_for_descriptor_def Let_def split: if_splits)
  moreover from this(1) have "0 < ?e" by (simp add: unat_gt_0)
  ultimately show ?thesis by auto
qed

lemma encode_file_positive: "i < 255 \<Longrightarrow> 0 < encode_file i g"
  unfolding encode_file_def by (rule descriptor_decode(1)) simp_all

lemma encode_directory_positive: "i < 255 \<Longrightarrow> 0 < encode_directory i g"
  unfolding encode_directory_def by (rule descriptor_decode(1)) simp_all

interpretation file_table: handle_table f_open f_generation next_generation
  "\<lambda>g. g \<noteq> 0" 65535 encode_file file_for_descriptor
  open_file_slot "\<lambda>slot. slot\<lparr>f_open := False\<rparr>" "\<lambda>n. n \<le> 255"
  by unfold_locales
    (auto simp: file_for_encoded encode_file_positive open_file_slot_def next_generation_pow_neq dest: file_for_descriptor_open)

interpretation directory_table: handle_table d_open d_generation
  next_generation "\<lambda>g. g \<noteq> 0" 65535 encode_directory
  directory_for_descriptor open_directory_slot "\<lambda>slot. slot\<lparr>d_open := False\<rparr>"
  "\<lambda>n. n \<le> 255"
  by unfold_locales
    (auto simp: directory_for_encoded encode_directory_positive open_directory_slot_def
      next_generation_pow_neq dest: directory_for_descriptor_open)

section \<open>Runs of client calls\<close>

text \<open>One constructor per client call; a C string argument is None for NULL.\<close>

datatype fs_op =
    Op_open "string option" int u32
  | Op_close int
  | Op_read int bool nat
  | Op_write int "u8 list option" nat
  | Op_seek int int int
  | Op_stat "string option" bool
  | Op_fstat int bool
  | Op_unlink "string option"
  | Op_rmdir "string option"
  | Op_mkdir "string option" u32
  | Op_rename "string option" "string option"
  | Op_chdir "string option"
  | Op_getcwd bool nat
  | Op_opendir "string option"
  | Op_readdir int bool
  | Op_closedir int

fun fs_step :: "'p storage_ops \<Rightarrow> fs_op \<Rightarrow> 'p fs_state \<Rightarrow> int \<times> 'p fs_state" where
  "fs_step ops (Op_open path flags mode) fs = tabos_fs_open ops path flags mode fs"
| "fs_step ops (Op_close d) fs = tabos_fs_close ops d fs"
| "fs_step ops (Op_read d buffer n) fs = (case tabos_fs_read ops d buffer n fs of (r, _, fs) \<Rightarrow> (r, fs))"
| "fs_step ops (Op_write d buffer n) fs = tabos_fs_write ops d buffer n fs"
| "fs_step ops (Op_seek d offset whence) fs = tabos_fs_seek ops d offset whence fs"
| "fs_step ops (Op_stat path st) fs = (case tabos_fs_stat ops path st fs of (r, _, fs) \<Rightarrow> (r, fs))"
| "fs_step ops (Op_fstat d st) fs = (case tabos_fs_fstat ops d st fs of (r, _, fs) \<Rightarrow> (r, fs))"
| "fs_step ops (Op_unlink path) fs = tabos_fs_unlink ops path fs"
| "fs_step ops (Op_rmdir path) fs = tabos_fs_rmdir ops path fs"
| "fs_step ops (Op_mkdir path mode) fs = tabos_fs_mkdir ops path mode fs"
| "fs_step ops (Op_rename old new) fs = tabos_fs_rename ops old new fs"
| "fs_step ops (Op_chdir path) fs = tabos_fs_chdir ops path fs"
| "fs_step ops (Op_getcwd buffer n) fs = (0, snd (tabos_fs_getcwd buffer n fs))"
| "fs_step ops (Op_opendir path) fs = tabos_fs_opendir ops path fs"
| "fs_step ops (Op_readdir d entry) fs = (case tabos_fs_readdir ops d entry fs of (r, _, fs) \<Rightarrow> (r, fs))"
| "fs_step ops (Op_closedir d) fs = tabos_fs_closedir ops d fs"

fun fs_run :: "'p storage_ops \<Rightarrow> fs_op list \<Rightarrow> 'p fs_state \<Rightarrow> 'p fs_state" where
  "fs_run ops [] fs = fs"
| "fs_run ops (op # rest) fs = fs_run ops rest (snd (fs_step ops op fs))"

fun is_open_op :: "fs_op \<Rightarrow> bool" where
  "is_open_op (Op_open _ _ _) = True"
| "is_open_op _ = False"

fun is_opendir_op :: "fs_op \<Rightarrow> bool" where
  "is_opendir_op (Op_opendir _) = True"
| "is_opendir_op _ = False"

fun op_paths :: "fs_op \<Rightarrow> string list" where
  "op_paths (Op_open path _ _) = (case path of None \<Rightarrow> [] | Some p \<Rightarrow> [p])"
| "op_paths (Op_stat path _) = (case path of None \<Rightarrow> [] | Some p \<Rightarrow> [p])"
| "op_paths (Op_unlink path) = (case path of None \<Rightarrow> [] | Some p \<Rightarrow> [p])"
| "op_paths (Op_rmdir path) = (case path of None \<Rightarrow> [] | Some p \<Rightarrow> [p])"
| "op_paths (Op_mkdir path _) = (case path of None \<Rightarrow> [] | Some p \<Rightarrow> [p])"
| "op_paths (Op_rename old new) =
     (case old of None \<Rightarrow> [] | Some p \<Rightarrow> [p]) @ (case new of None \<Rightarrow> [] | Some p \<Rightarrow> [p])"
| "op_paths (Op_chdir path) = (case path of None \<Rightarrow> [] | Some p \<Rightarrow> [p])"
| "op_paths (Op_opendir path) = (case path of None \<Rightarrow> [] | Some p \<Rightarrow> [p])"
| "op_paths _ = []"

section \<open>What each call changes\<close>

lemmas fs_result_defs = fs_fail_def fs_return_def

text \<open>The definitions of the calls, for proofs that go through every branch of one.\<close>

lemmas fs_call_defs = tabos_fs_open_def tabos_fs_close_def tabos_fs_read_def tabos_fs_write_def
  tabos_fs_seek_def tabos_fs_stat_def tabos_fs_fstat_def path_operation_def tabos_fs_unlink_def
  tabos_fs_rmdir_def tabos_fs_mkdir_def tabos_fs_rename_def tabos_fs_chdir_def tabos_fs_getcwd_def
  tabos_fs_opendir_def tabos_fs_readdir_def tabos_fs_closedir_def fs_result_defs Let_def

lemma resolve_path_Some:
  assumes "resolve_path ops path fs = (Some resolved, fs')"
  shows "fs' = fs" and "so_has_drive ops (fs_storage fs) (c_char resolved 0)"
    and "filesystem_normalize_path path (Some (fs_working_directory fs)) (Some FS_PATH_MAX) = Some resolved"
  using assms by (auto simp: resolve_path_def split: if_splits option.splits)

lemma resolve_path_None:
  assumes "resolve_path ops path fs = (None, fs')"
  obtains e where "fs' = fs\<lparr>fs_errno := e\<rparr>"
  using assms by (auto simp: resolve_path_def fs_fail_def split: if_splits option.splits)

lemma resolve_path_canonical:
  assumes "resolve_path ops path fs = (Some resolved, fs')"
    and "\<And>p. path = Some p \<Longrightarrow> CHR 0x00 \<notin> set p"
  shows "canonical_path FS_PATH_MAX resolved"
proof (cases path)
  case None
  with resolve_path_Some(3) [OF assms(1)] show ?thesis by (simp add: filesystem_normalize_path_def)
next
  case (Some p)
  with resolve_path_Some(3) [OF assms(1)] assms(2) show ?thesis
    by (auto intro: normalized_canonical)
qed

lemma resolve_path_frame:
  assumes "resolve_path ops path fs = (r, fs')"
  shows "fs_files fs' = fs_files fs" "fs_directories fs' = fs_directories fs"
    "fs_storage fs' = fs_storage fs" "fs_working_directory fs' = fs_working_directory fs"
    "fs_initialized fs' = fs_initialized fs" "fs_mounted fs' = fs_mounted fs"
  using assms by (auto simp: resolve_path_def fs_fail_def split: if_splits option.splits)

lemma resolve_path_frame_snd [simp]:
  "fs_files (snd (resolve_path ops path fs)) = fs_files fs"
  "fs_directories (snd (resolve_path ops path fs)) = fs_directories fs"
  "fs_working_directory (snd (resolve_path ops path fs)) = fs_working_directory fs"
  "fs_initialized (snd (resolve_path ops path fs)) = fs_initialized fs"
  "fs_mounted (snd (resolve_path ops path fs)) = fs_mounted fs"
  using resolve_path_frame [of ops path fs "fst (resolve_path ops path fs)"] by simp_all

text \<open>The calls that leave the file table, the directory table or the working directory alone.\<close>

lemma fs_step_files_same:
  assumes "\<not> is_open_op op" and "\<And>d. op \<noteq> Op_close d" and "\<And>old new. op \<noteq> Op_rename old new"
  shows "fs_files (snd (fs_step ops op fs)) = fs_files fs"
  using assms
  by (cases op)
    (auto simp: fs_call_defs case_prod_beta split: option.splits if_splits)

lemma fs_step_directories_same:
  assumes "\<And>p. op \<noteq> Op_opendir p" and "\<And>d. op \<noteq> Op_closedir d"
  shows "fs_directories (snd (fs_step ops op fs)) = fs_directories fs"
  using assms
  by (cases op)
    (auto simp: fs_call_defs case_prod_beta split: option.splits if_splits)

lemma fs_step_wd_same:
  assumes "\<And>p. op \<noteq> Op_chdir p"
  shows "fs_working_directory (snd (fs_step ops op fs)) = fs_working_directory fs"
  using assms
  by (cases op)
    (auto simp: fs_call_defs case_prod_beta split: option.splits if_splits)

lemma fs_step_mode_same:
  "fs_initialized (snd (fs_step ops op fs)) = fs_initialized fs"
  "fs_mounted (snd (fs_step ops op fs)) = fs_mounted fs"
  by (cases op;
      auto simp: fs_call_defs case_prod_beta split: option.splits if_splits)+

lemma tabos_fs_open_cases:
  obtains (fail) e p where "tabos_fs_open ops path flags mode fs = (- 1, fs\<lparr>fs_storage := p, fs_errno := e\<rparr>)"
  | (opened) i v p where "i = file_table.first_free (fs_files fs)" and "i < length (fs_files fs)"
      and "tabos_fs_open ops path flags mode fs =
        (encode_file i (next_generation (f_generation (fs_files fs ! i))),
         fs\<lparr>fs_storage := p, fs_errno := 0,
           fs_files := (fs_files fs)[i := open_file_slot v (fs_files fs ! i)]\<rparr>)"
proof -
  let ?i = "file_table.first_free (fs_files fs)"
  have le: "?i \<le> length (fs_files fs)"
    unfolding file_table.first_free_def by (rule length_takeWhile_le)
  show thesis
  proof (cases "resolve_path ops path fs")
    case (Pair r fs')
    show thesis
    proof (cases r)
      case None
      with Pair obtain e where "fs' = fs\<lparr>fs_errno := e\<rparr>" by (auto elim: resolve_path_None)
      with Pair None show thesis
        using fail [of e "fs_storage fs"] by (simp add: tabos_fs_open_def)
    next
      case (Some resolved)
      with Pair have r: "resolve_path ops path fs = (Some resolved, fs)"
        using resolve_path_Some(1) by fastforce
      obtain error pf p where o: "so_open ops (fs_storage fs) (c_char resolved 0) (drop 2 resolved)
          flags mode = (error, pf, p)"
        using prod_cases3 by blast
      note unf = tabos_fs_open_def r prod.case option.case Let_def
        file_table.first_free_def [symmetric]
      consider (full) "?i = length (fs_files fs)" | (err) "?i \<noteq> length (fs_files fs)" "error \<noteq> 0"
        | (ok) "?i \<noteq> length (fs_files fs)" "error = 0"
        by blast
      then show thesis
      proof cases
        case full
        then have "tabos_fs_open ops path flags mode fs = (- 1, fs\<lparr>fs_errno := EMFILE\<rparr>)"
          unfolding unf by (simp add: fs_fail_def)
        then show thesis using fail [of EMFILE "fs_storage fs"] by simp
      next
        case err
        then have "tabos_fs_open ops path flags mode fs = (- 1, fs\<lparr>fs_storage := p, fs_errno := error\<rparr>)"
          unfolding unf by (simp add: o fs_fail_def)
        then show thesis by (rule fail)
      next
        case ok
        then have "?i < length (fs_files fs)" using le by simp
        moreover have "tabos_fs_open ops path flags mode fs =
          (encode_file ?i (next_generation (f_generation (fs_files fs ! ?i))),
           fs\<lparr>fs_storage := p, fs_errno := 0, fs_files := (fs_files fs)[?i :=
             open_file_slot (pf, fallback_device_id (c_char resolved 0), fallback_file_id resolved)
               (fs_files fs ! ?i)]\<rparr>)"
          using ok unfolding unf by (simp add: o open_file_slot_def)
        ultimately show thesis by (rule opened [OF refl])
      qed
    qed
  qed
qed

lemma tabos_fs_rename_cases:
  obtains (fail) e p where "tabos_fs_rename ops old_path new_path fs =
      (- 1, fs\<lparr>fs_storage := p, fs_errno := e\<rparr>)"
  | (renamed) old_resolved new_resolved p where
      "resolve_path ops old_path fs = (Some old_resolved, fs)"
      and "resolve_path ops new_path fs = (Some new_resolved, fs)"
      and "c_char old_resolved 0 = c_char new_resolved 0"
      and "tabos_fs_rename ops old_path new_path fs =
        (0, fs\<lparr>fs_storage := p, fs_files := map (rename_slot (fallback_device_id (c_char old_resolved 0))
          (fallback_file_id old_resolved) (fallback_file_id new_resolved)) (fs_files fs)\<rparr>)"
proof -
  obtain r1 fs1 where r1: "resolve_path ops old_path fs = (r1, fs1)" by fastforce
  obtain r2 fs2 where r2: "resolve_path ops new_path fs = (r2, fs2)" by fastforce
  show thesis
  proof (cases "r1 = None \<or> r2 = None")
    case True
    then obtain e where "tabos_fs_rename ops old_path new_path fs = (- 1, fs\<lparr>fs_errno := e\<rparr>)"
    proof (cases r1)
      case None
      with r1 that show ?thesis
        by (auto simp: tabos_fs_rename_def elim!: resolve_path_None)
    next
      case (Some a)
      with r1 r2 True have "fs1 = fs" "r2 = None" using resolve_path_Some(1) by auto
      with r1 r2 Some that show ?thesis
        by (auto simp: tabos_fs_rename_def elim!: resolve_path_None)
    qed
    then show thesis using fail [of e "fs_storage fs"] by simp
  next
    case False
    then obtain old_resolved new_resolved where
      r: "resolve_path ops old_path fs = (Some old_resolved, fs)"
        "resolve_path ops new_path fs = (Some new_resolved, fs)"
      using r1 r2 resolve_path_Some(1) by fastforce
    obtain error p where o: "so_rename ops (fs_storage fs) (c_char old_resolved 0) (drop 2 old_resolved)
        (drop 2 new_resolved) = (error, p)"
      by fastforce
    note unf = tabos_fs_rename_def r prod.case option.case o Let_def
    consider (drives) "c_char old_resolved 0 \<noteq> c_char new_resolved 0"
      | (err) "c_char old_resolved 0 = c_char new_resolved 0" "error \<noteq> 0"
      | (ok) "c_char old_resolved 0 = c_char new_resolved 0" "error = 0"
      by blast
    then show thesis
    proof cases
      case drives
      then have "tabos_fs_rename ops old_path new_path fs = (- 1, fs\<lparr>fs_errno := EXDEV\<rparr>)"
        unfolding unf by (simp add: fs_fail_def)
      then show thesis using fail [of EXDEV "fs_storage fs"] by simp
    next
      case err
      then have "tabos_fs_rename ops old_path new_path fs = (- 1, fs\<lparr>fs_storage := p, fs_errno := error\<rparr>)"
        unfolding unf by (simp add: fs_result_defs)
      then show thesis by (rule fail)
    next
      case ok
      show thesis
        by (rule renamed [OF r ok(1), of p], unfold unf fs_return_def) (use ok in simp)
    qed
  qed
qed

lemma fs_step_file_table:
  "\<exists>e. file_table.table_step (fs_files fs) e (fs_files (snd (fs_step ops op fs))) \<and>
     (e \<noteq> None \<longrightarrow> is_open_op op)"
proof -
  have same: ?thesis if "fs_files (snd (fs_step ops op fs)) = fs_files fs"
    using that by (intro exI [of _ None]) (auto intro: file_table.step_same)
  show ?thesis
  proof (cases op)
    case (Op_open path flags mode)
    show ?thesis
    proof (cases rule: tabos_fs_open_cases [of ops path flags mode fs])
      case (fail e p)
      with Op_open same show ?thesis by simp
    next
      case (opened i v p)
      then have "\<not> f_open (fs_files fs ! i)" using file_table.first_free_closed by blast
      with opened Op_open show ?thesis
        by (intro exI [of _ "Some i"]) (auto intro: file_table.step_open)
    qed
  next
    case (Op_close d)
    show ?thesis
    proof (cases "file_for_descriptor (fs_files fs) d")
      case None
      with Op_close same show ?thesis by (simp add: tabos_fs_close_def fs_fail_def)
    next
      case (Some i)
      then have "i < length (fs_files fs)" using file_for_descriptor_open by blast
      with Some Op_close show ?thesis
        by (intro exI [of _ None])
          (auto simp: tabos_fs_close_def fs_result_defs Let_def intro!: file_table.step_close
            split: prod.splits)
    qed
  next
    case (Op_rename old new)
    have "fs_files (snd (fs_step ops op fs)) = fs_files fs \<or>
        (\<exists>d old_id n. fs_files (snd (fs_step ops op fs)) = map (rename_slot d old_id n) (fs_files fs))"
      unfolding Op_rename fs_step.simps
      by (cases rule: tabos_fs_rename_cases [of ops old new fs]) auto
    then show ?thesis
    proof
      assume "\<exists>d old_id n. fs_files (snd (fs_step ops op fs)) = map (rename_slot d old_id n) (fs_files fs)"
      then show ?thesis
        by (intro exI [of _ None]) (auto intro!: file_table.step_same)
    qed (rule same)
  qed (use same fs_step_files_same [of op ops fs] in simp_all)
qed

lemma tabos_fs_opendir_cases:
  obtains (fail) e p where "tabos_fs_opendir ops path fs = (- 1, fs\<lparr>fs_storage := p, fs_errno := e\<rparr>)"
  | (opened) i v p where "i = directory_table.first_free (fs_directories fs)"
      and "i < length (fs_directories fs)"
      and "tabos_fs_opendir ops path fs =
        (encode_directory i (next_generation (d_generation (fs_directories fs ! i))),
         fs\<lparr>fs_storage := p,
           fs_directories := (fs_directories fs)[i := open_directory_slot v (fs_directories fs ! i)]\<rparr>)"
proof -
  let ?i = "directory_table.first_free (fs_directories fs)"
  have le: "?i \<le> length (fs_directories fs)"
    unfolding directory_table.first_free_def by (rule length_takeWhile_le)
  show thesis
  proof (cases "fst (resolve_path ops path fs)")
    case None
    then obtain fs' where r: "resolve_path ops path fs = (None, fs')" by (metis prod.collapse)
    then obtain e where "fs' = fs\<lparr>fs_errno := e\<rparr>" by (auto elim: resolve_path_None)
    with r show thesis using fail [of e "fs_storage fs"] by (simp add: tabos_fs_opendir_def)
  next
    case (Some resolved)
    then have r: "resolve_path ops path fs = (Some resolved, fs)"
      by (metis prod.collapse resolve_path_Some(1))
    obtain error pd p where o: "so_opendir ops (fs_storage fs) (c_char resolved 0) (drop 2 resolved)
        = (error, pd, p)"
      using prod_cases3 by blast
    note unf = tabos_fs_opendir_def r prod.case option.case Let_def
      directory_table.first_free_def [symmetric]
    consider (full) "?i = length (fs_directories fs)"
      | (err) "?i \<noteq> length (fs_directories fs)" "error \<noteq> 0"
      | (ok) "?i \<noteq> length (fs_directories fs)" "error = 0"
      by blast
    then show thesis
    proof cases
      case full
      then have "tabos_fs_opendir ops path fs = (- 1, fs\<lparr>fs_errno := EMFILE\<rparr>)"
        unfolding unf by (simp add: fs_fail_def)
      then show thesis using fail [of EMFILE "fs_storage fs"] by simp
    next
      case err
      then have "tabos_fs_opendir ops path fs = (- 1, fs\<lparr>fs_storage := p, fs_errno := error\<rparr>)"
        unfolding unf by (simp add: o fs_fail_def)
      then show thesis by (rule fail)
    next
      case ok
      then have "?i < length (fs_directories fs)" using le by simp
      moreover have "tabos_fs_opendir ops path fs =
        (encode_directory ?i (next_generation (d_generation (fs_directories fs ! ?i))),
         fs\<lparr>fs_storage := p, fs_directories :=
           (fs_directories fs)[?i := open_directory_slot pd (fs_directories fs ! ?i)]\<rparr>)"
        using ok unfolding unf by (simp add: o open_directory_slot_def)
      ultimately show thesis by (rule opened [OF refl])
    qed
  qed
qed

lemma fs_step_directory_table:
  "\<exists>e. directory_table.table_step (fs_directories fs) e (fs_directories (snd (fs_step ops op fs))) \<and>
     (e \<noteq> None \<longrightarrow> is_opendir_op op)"
proof -
  have same: ?thesis if "fs_directories (snd (fs_step ops op fs)) = fs_directories fs"
    using that by (intro exI [of _ None]) (auto intro: directory_table.step_same)
  show ?thesis
  proof (cases op)
    case (Op_opendir path)
    show ?thesis
    proof (cases rule: tabos_fs_opendir_cases [of ops path fs])
      case (fail e p)
      with Op_opendir same show ?thesis by simp
    next
      case (opened i v p)
      then have "\<not> d_open (fs_directories fs ! i)" using directory_table.first_free_closed by blast
      with opened Op_opendir show ?thesis
        by (intro exI [of _ "Some i"]) (auto intro: directory_table.step_open)
    qed
  next
    case (Op_closedir d)
    show ?thesis
    proof (cases "directory_for_descriptor (fs_directories fs) d")
      case None
      with Op_closedir same show ?thesis by (simp add: tabos_fs_closedir_def fs_fail_def)
    next
      case (Some i)
      then have "i < length (fs_directories fs)" using directory_for_descriptor_open by blast
      with Some Op_closedir show ?thesis
        by (intro exI [of _ None])
          (auto simp: tabos_fs_closedir_def fs_result_defs Let_def intro!: directory_table.step_close
            split: prod.splits)
    qed
  qed (use same fs_step_directories_same [of op ops fs] in simp_all)
qed

end
