(* ===== verification/FilesystemProofs.thy ===== *)
theory FilesystemProofs
  imports Filesystem
begin

text \<open>
  What the file service promises, over arbitrary sequences of client calls: the file table, the
  paths that reach the storage backend, the working directory, renames of open files, and the
  start and stop of the service.
\<close>

lemma option_pair_cases:
  obtains (no_value) s where "x = (None, s)" | (some_value) v s where "x = (Some v, s)"
  by (cases x; cases "fst x") auto

section \<open>Runs and the file table\<close>

lemma fs_run_append: "fs_run ops (xs @ ys) fs = fs_run ops ys (fs_run ops xs fs)"
  by (induction xs arbitrary: fs) auto

lemma fs_run_table:
  "\<exists>n \<le> length (filter is_open_op calls).
     file_table.table_run (fs_files fs) n (fs_files (fs_run ops calls fs))"
proof (induction calls rule: rev_induct)
  case Nil
  then show ?case by (auto intro: file_table.run_nil)
next
  case (snoc op calls)
  then obtain n where n: "n \<le> length (filter is_open_op calls)"
    and run: "file_table.table_run (fs_files fs) n (fs_files (fs_run ops calls fs))"
    by blast
  obtain e where e: "file_table.table_step (fs_files (fs_run ops calls fs)) e
      (fs_files (snd (fs_step ops op (fs_run ops calls fs))))" "e \<noteq> None \<longrightarrow> is_open_op op"
    using fs_step_file_table by blast
  show ?case
  proof (cases e)
    case None
    with run e n show ?thesis
      by (intro exI [of _ n]) (auto simp: fs_run_append intro: file_table.run_other)
  next
    case (Some i)
    with run e n show ?thesis
      by (intro exI [of _ "Suc n"]) (auto simp: fs_run_append intro: file_table.run_open)
  qed
qed

lemma fs_run_length: "length (fs_files (fs_run ops calls fs)) = length (fs_files fs)"
proof (induction calls arbitrary: fs)
  case (Cons op calls)
  obtain e where "file_table.table_step (fs_files fs) e (fs_files (snd (fs_step ops op fs)))"
    using fs_step_file_table by blast
  with Cons show ?case using file_table.table_step_length by simp
qed simp

text \<open>A descriptor that does not resolve is refused by every call, with EBADF.\<close>

definition descriptor_refused :: "'p storage_ops \<Rightarrow> int \<Rightarrow> 'p fs_state \<Rightarrow> bool" where
  "descriptor_refused ops d fs \<longleftrightarrow>
     (let bad = fs\<lparr>fs_errno := EBADF\<rparr>
      in tabos_fs_close ops d fs = (- 1, bad) \<and>
         (\<forall>n. tabos_fs_read ops d True n fs = (- 1, [], bad)) \<and>
         (\<forall>bytes n. tabos_fs_write ops d (Some bytes) n fs = (- 1, bad)) \<and>
         (\<forall>offset whence. tabos_fs_seek ops d offset whence fs = (- 1, bad)) \<and>
         tabos_fs_fstat ops d True fs = (- 1, None, bad))"

lemma not_found_refused:
  "file_for_descriptor (fs_files fs) d = None \<Longrightarrow> descriptor_refused ops d fs"
  by (simp add: descriptor_refused_def Let_def tabos_fs_close_def tabos_fs_read_def tabos_fs_write_def
      tabos_fs_seek_def tabos_fs_fstat_def fs_fail_def)

lemma tabos_fs_close_found:
  assumes "file_for_descriptor (fs_files fs) d = Some i"
  shows "fs_files (snd (tabos_fs_close ops d fs)) = (fs_files fs)[i := (fs_files fs ! i)\<lparr>f_open := False\<rparr>]"
  using assms by (simp add: tabos_fs_close_def fs_result_defs case_prod_beta Let_def)

text \<open>Resolving a descriptor reads one slot only.\<close>

lemma file_for_descriptor_cong:
  assumes "file_for_descriptor files d = Some j" and "length files' = length files"
    and "files' ! j = files ! j"
  shows "file_for_descriptor files' d = Some j"
  using assms by (auto simp: file_for_descriptor_def Let_def split: if_splits)

section \<open>The storage backend sees canonical paths only\<close>

text \<open>Two backends that behave alike on every canonical path of a drive they have.\<close>

definition storage_agree :: "'p storage_ops \<Rightarrow> 'p storage_ops \<Rightarrow> bool" where
  "storage_agree a b \<longleftrightarrow>
     so_has_drive a = so_has_drive b \<and> so_close a = so_close b \<and> so_read a = so_read b \<and>
     so_write a = so_write b \<and> so_seek a = so_seek b \<and> so_fstat a = so_fstat b \<and>
     so_readdir a = so_readdir b \<and> so_closedir a = so_closedir b \<and>
     (\<forall>p q. canonical_path FS_PATH_MAX q \<longrightarrow> so_has_drive a p (c_char q 0) \<longrightarrow>
       so_open a p (c_char q 0) (drop 2 q) = so_open b p (c_char q 0) (drop 2 q) \<and>
       so_stat a p (c_char q 0) (drop 2 q) = so_stat b p (c_char q 0) (drop 2 q) \<and>
       so_unlink a p (c_char q 0) (drop 2 q) = so_unlink b p (c_char q 0) (drop 2 q) \<and>
       so_rmdir a p (c_char q 0) (drop 2 q) = so_rmdir b p (c_char q 0) (drop 2 q) \<and>
       so_mkdir a p (c_char q 0) (drop 2 q) = so_mkdir b p (c_char q 0) (drop 2 q) \<and>
       so_opendir a p (c_char q 0) (drop 2 q) = so_opendir b p (c_char q 0) (drop 2 q) \<and>
       (\<forall>q'. canonical_path FS_PATH_MAX q' \<longrightarrow>
         so_rename a p (c_char q 0) (drop 2 q) (drop 2 q') = so_rename b p (c_char q 0) (drop 2 q) (drop 2 q')))"

lemma resolve_path_agree:
  assumes "storage_agree a b"
  shows "resolve_path b path fs = resolve_path a path fs"
proof -
  have "so_has_drive b = so_has_drive a" using assms by (simp add: storage_agree_def)
  then show ?thesis by (simp only: resolve_path_def)
qed

lemma resolve_path_agree_calls:
  assumes "storage_agree a b" and "resolve_path a path fs = (Some q, fs')"
    and "\<forall>p. path = Some p \<longrightarrow> CHR 0x00 \<notin> set p"
  shows "fs' = fs" "canonical_path FS_PATH_MAX q"
    "so_open b (fs_storage fs) (c_char q 0) (drop 2 q) = so_open a (fs_storage fs) (c_char q 0) (drop 2 q)"
    "so_stat b (fs_storage fs) (c_char q 0) (drop 2 q) = so_stat a (fs_storage fs) (c_char q 0) (drop 2 q)"
    "so_unlink b (fs_storage fs) (c_char q 0) (drop 2 q) = so_unlink a (fs_storage fs) (c_char q 0) (drop 2 q)"
    "so_rmdir b (fs_storage fs) (c_char q 0) (drop 2 q) = so_rmdir a (fs_storage fs) (c_char q 0) (drop 2 q)"
    "so_mkdir b (fs_storage fs) (c_char q 0) (drop 2 q) = so_mkdir a (fs_storage fs) (c_char q 0) (drop 2 q)"
    "so_opendir b (fs_storage fs) (c_char q 0) (drop 2 q) = so_opendir a (fs_storage fs) (c_char q 0) (drop 2 q)"
    "canonical_path FS_PATH_MAX q' \<Longrightarrow> so_rename b (fs_storage fs) (c_char q 0) (drop 2 q) (drop 2 q') =
       so_rename a (fs_storage fs) (c_char q 0) (drop 2 q) (drop 2 q')"
proof -
  show q: "fs' = fs" "canonical_path FS_PATH_MAX q"
    using resolve_path_Some(1) [OF assms(2)] resolve_path_canonical [OF assms(2)] assms(3) by blast+
  note d = resolve_path_Some(2) [OF assms(2)]
  show "so_open b (fs_storage fs) (c_char q 0) (drop 2 q) = so_open a (fs_storage fs) (c_char q 0) (drop 2 q)"
    "so_stat b (fs_storage fs) (c_char q 0) (drop 2 q) = so_stat a (fs_storage fs) (c_char q 0) (drop 2 q)"
    "so_unlink b (fs_storage fs) (c_char q 0) (drop 2 q) = so_unlink a (fs_storage fs) (c_char q 0) (drop 2 q)"
    "so_rmdir b (fs_storage fs) (c_char q 0) (drop 2 q) = so_rmdir a (fs_storage fs) (c_char q 0) (drop 2 q)"
    "so_mkdir b (fs_storage fs) (c_char q 0) (drop 2 q) = so_mkdir a (fs_storage fs) (c_char q 0) (drop 2 q)"
    "so_opendir b (fs_storage fs) (c_char q 0) (drop 2 q) = so_opendir a (fs_storage fs) (c_char q 0) (drop 2 q)"
    "canonical_path FS_PATH_MAX q' \<Longrightarrow> so_rename b (fs_storage fs) (c_char q 0) (drop 2 q) (drop 2 q') =
       so_rename a (fs_storage fs) (c_char q 0) (drop 2 q) (drop 2 q')"
    using assms(1) q(2) d unfolding storage_agree_def by metis+
qed

lemma fs_step_agree:
  assumes "storage_agree a b" and "\<forall>p \<in> set (op_paths op). CHR 0x00 \<notin> set p"
  shows "fs_step b op fs = fs_step a op fs"
proof -
  note ag = resolve_path_agree [OF assms(1)] and calls = resolve_path_agree_calls [OF assms(1)]
  have other: "so_close b = so_close a" "so_read b = so_read a" "so_write b = so_write a"
    "so_seek b = so_seek a" "so_fstat b = so_fstat a" "so_readdir b = so_readdir a"
    "so_closedir b = so_closedir a"
    using assms(1) by (simp_all add: storage_agree_def)
  show ?thesis
  proof (cases op)
    case (Op_rename old new)
    have nul: "\<forall>p. old = Some p \<longrightarrow> CHR 0x00 \<notin> set p" "\<forall>p. new = Some p \<longrightarrow> CHR 0x00 \<notin> set p"
      using assms(2) Op_rename by auto
    show ?thesis
    proof (cases "resolve_path a old fs" rule: option_pair_cases)
      case (some_value q1 fs1)
      note c1 = calls [OF some_value nul(1)]
      show ?thesis
      proof (cases "resolve_path a new fs1" rule: option_pair_cases)
        case (some_value q2 fs2)
        note c2 = calls [OF some_value nul(2)]
        show ?thesis
          using \<open>resolve_path a old fs = (Some q1, fs1)\<close> some_value c1(1) c2(1) c1(9) [OF c2(2)]
          by (simp only: Op_rename fs_step.simps tabos_fs_rename_def ag prod.case option.case)
      qed (simp add: Op_rename tabos_fs_rename_def ag some_value)
    qed (simp add: Op_rename tabos_fs_rename_def ag)
  next
    case (Op_open path flags mode)
    with assms(2) have nul: "\<forall>p. path = Some p \<longrightarrow> CHR 0x00 \<notin> set p" by auto
    show ?thesis
    proof (cases "resolve_path a path fs" rule: option_pair_cases)
      case (some_value q s)
      note c = calls [OF some_value nul]
      show ?thesis
        using some_value c(1,3) by (simp only: Op_open fs_step.simps tabos_fs_open_def ag prod.case option.case)
    qed (simp add: Op_open tabos_fs_open_def ag)
  next
    case (Op_stat path st)
    with assms(2) have nul: "\<forall>p. path = Some p \<longrightarrow> CHR 0x00 \<notin> set p" by auto
    show ?thesis
    proof (cases "resolve_path a path fs" rule: option_pair_cases)
      case (some_value q s)
      note c = calls [OF some_value nul]
      show ?thesis
        using some_value c(1,4) by (simp only: Op_stat fs_step.simps tabos_fs_stat_def ag prod.case option.case)
    qed (simp add: Op_stat tabos_fs_stat_def ag)
  next
    case (Op_unlink path)
    with assms(2) have nul: "\<forall>p. path = Some p \<longrightarrow> CHR 0x00 \<notin> set p" by auto
    show ?thesis
    proof (cases "resolve_path a path fs" rule: option_pair_cases)
      case (some_value q s)
      note c = calls [OF some_value nul]
      show ?thesis
        using some_value c(1,5) by (simp only: Op_unlink fs_step.simps tabos_fs_unlink_def path_operation_def ag prod.case option.case)
    qed (simp add: Op_unlink tabos_fs_unlink_def path_operation_def ag)
  next
    case (Op_rmdir path)
    with assms(2) have nul: "\<forall>p. path = Some p \<longrightarrow> CHR 0x00 \<notin> set p" by auto
    show ?thesis
    proof (cases "resolve_path a path fs" rule: option_pair_cases)
      case (some_value q s)
      note c = calls [OF some_value nul]
      show ?thesis
        using some_value c(1,6) by (simp only: Op_rmdir fs_step.simps tabos_fs_rmdir_def path_operation_def ag prod.case option.case)
    qed (simp add: Op_rmdir tabos_fs_rmdir_def path_operation_def ag)
  next
    case (Op_mkdir path mode)
    with assms(2) have nul: "\<forall>p. path = Some p \<longrightarrow> CHR 0x00 \<notin> set p" by auto
    show ?thesis
    proof (cases "resolve_path a path fs" rule: option_pair_cases)
      case (some_value q s)
      note c = calls [OF some_value nul]
      show ?thesis
        using some_value c(1,7) by (simp only: Op_mkdir fs_step.simps tabos_fs_mkdir_def ag prod.case option.case)
    qed (simp add: Op_mkdir tabos_fs_mkdir_def ag)
  next
    case (Op_chdir path)
    with assms(2) have nul: "\<forall>p. path = Some p \<longrightarrow> CHR 0x00 \<notin> set p" by auto
    show ?thesis
    proof (cases "resolve_path a path fs" rule: option_pair_cases)
      case (some_value q s)
      note c = calls [OF some_value nul]
      show ?thesis
        using some_value c(1,4) by (simp only: Op_chdir fs_step.simps tabos_fs_chdir_def ag prod.case option.case)
    qed (simp add: Op_chdir tabos_fs_chdir_def ag)
  next
    case (Op_opendir path)
    with assms(2) have nul: "\<forall>p. path = Some p \<longrightarrow> CHR 0x00 \<notin> set p" by auto
    show ?thesis
    proof (cases "resolve_path a path fs" rule: option_pair_cases)
      case (some_value q s)
      note c = calls [OF some_value nul]
      show ?thesis
        using some_value c(1,8) by (simp only: Op_opendir fs_step.simps tabos_fs_opendir_def ag prod.case option.case)
    qed (simp add: Op_opendir tabos_fs_opendir_def ag)
  qed (simp_all add: tabos_fs_close_def tabos_fs_read_def tabos_fs_write_def tabos_fs_seek_def
      tabos_fs_fstat_def tabos_fs_readdir_def tabos_fs_closedir_def other Let_def
      split: option.split)
qed

lemma fs_run_agree:
  assumes "storage_agree a b" and "\<forall>op \<in> set calls. \<forall>p \<in> set (op_paths op). CHR 0x00 \<notin> set p"
  shows "fs_run b calls fs = fs_run a calls fs"
  using assms(2)
proof (induction calls arbitrary: fs)
  case (Cons op calls)
  then show ?case using fs_step_agree [OF assms(1), of op fs] by simp
qed simp

section \<open>The invariant of the service\<close>

text \<open>
  The tables fit their descriptors, no open slot has generation 0, and while the service runs its
  working directory is a canonical path.
\<close>

definition fs_wf :: "'p fs_state \<Rightarrow> bool" where
  "fs_wf fs \<longleftrightarrow> length (fs_files fs) \<le> 255 \<and> length (fs_directories fs) \<le> 255 \<and>
     (\<forall>slot \<in> set (fs_files fs). f_open slot \<longrightarrow> f_generation slot \<noteq> 0) \<and>
     (\<forall>slot \<in> set (fs_directories fs). d_open slot \<longrightarrow> d_generation slot \<noteq> 0) \<and>
     (fs_initialized fs \<longrightarrow> canonical_path FS_PATH_MAX (fs_working_directory fs))"

lemma fs_wf_tables:
  "fs_wf fs \<longleftrightarrow> length (fs_files fs) \<le> 255 \<and> length (fs_directories fs) \<le> 255 \<and>
     file_table.generations_ok (fs_files fs) \<and> directory_table.generations_ok (fs_directories fs) \<and>
     (fs_initialized fs \<longrightarrow> canonical_path FS_PATH_MAX (fs_working_directory fs))"
  by (simp add: fs_wf_def file_table.generations_ok_def directory_table.generations_ok_def)

lemma tabos_fs_chdir_wd:
  assumes "fs_initialized fs \<longrightarrow> canonical_path FS_PATH_MAX (fs_working_directory fs)"
    and "\<forall>p. path = Some p \<longrightarrow> CHR 0x00 \<notin> set p"
  shows "fs_initialized fs \<longrightarrow>
    canonical_path FS_PATH_MAX (fs_working_directory (snd (tabos_fs_chdir ops path fs)))"
proof (cases "resolve_path ops path fs" rule: option_pair_cases)
  case (no_value s)
  then show ?thesis
    using assms(1) resolve_path_frame(4) [OF no_value] by (simp add: tabos_fs_chdir_def)
next
  case (some_value resolved s)
  have "canonical_path FS_PATH_MAX resolved" "s = fs"
    using resolve_path_canonical [OF some_value] assms(2) resolve_path_Some(1) [OF some_value] by blast+
  with some_value assms(1) show ?thesis
    by (auto simp: tabos_fs_chdir_def fs_fail_def Let_def split: prod.splits)
qed

lemma fs_step_wf:
  assumes "fs_wf fs" and "\<forall>p \<in> set (op_paths op). CHR 0x00 \<notin> set p"
  shows "fs_wf (snd (fs_step ops op fs))"
proof -
  let ?fs = "snd (fs_step ops op fs)"
  obtain e where e: "file_table.table_step (fs_files fs) e (fs_files ?fs)"
    using fs_step_file_table by blast
  obtain e' where e': "directory_table.table_step (fs_directories fs) e' (fs_directories ?fs)"
    using fs_step_directory_table by blast
  have "fs_initialized fs \<longrightarrow> canonical_path FS_PATH_MAX (fs_working_directory ?fs)"
  proof (cases "\<exists>path. op = Op_chdir path")
    case True
    then obtain path where op: "op = Op_chdir path" by blast
    have "\<forall>p. path = Some p \<longrightarrow> CHR 0x00 \<notin> set p" using assms(2) op by simp
    with assms(1) have "fs_initialized fs \<longrightarrow>
        canonical_path FS_PATH_MAX (fs_working_directory (snd (tabos_fs_chdir ops path fs)))"
      by (intro tabos_fs_chdir_wd) (simp_all add: fs_wf_def)
    then show ?thesis by (simp add: op)
  next
    case False
    then show ?thesis using assms(1) fs_step_wd_same [of op ops fs] by (simp add: fs_wf_def)
  qed
  with assms(1) e e' file_table.table_step_length [OF e] directory_table.table_step_length [OF e']
    file_table.table_step_generations [OF e] directory_table.table_step_generations [OF e']
  show ?thesis by (simp add: fs_wf_tables fs_step_mode_same)
qed

lemma fs_run_wf:
  assumes "fs_wf fs" and "\<forall>op \<in> set calls. \<forall>p \<in> set (op_paths op). CHR 0x00 \<notin> set p"
  shows "fs_wf (fs_run ops calls fs)"
  using assms by (induction calls arbitrary: fs) (auto intro: fs_step_wf)

lemma canonical_drive_root: "upper_drive drive \<Longrightarrow> canonical_path FS_PATH_MAX [drive, CHR '':'', CHR ''/'']"
  unfolding canonical_path_def
  by (intro exI [of _ drive] exI [of _ "[]"]) (simp add: render_def FS_PATH_MAX_def)

lemma filesystem_init_wf:
  assumes "\<not> fs_initialized fs" and "length (fs_files fs) \<le> 255" and "length (fs_directories fs) \<le> 255"
    and "\<And>p. so_default_drive ops p = CHR 0x00 \<or> upper_drive (so_default_drive ops p)"
  shows "fs_wf (snd (filesystem_init ops fs)) \<and> fs_initialized (snd (filesystem_init ops fs))"
proof -
  have "upper_drive (CHR ''A'')" by code_simp
  with assms canonical_drive_root show ?thesis
    by (auto simp: filesystem_init_def fs_wf_def file_slot_zero_def directory_slot_zero_def Let_def
        split: prod.splits)
qed

section \<open>Opening a file\<close>

lemma tabos_fs_open_found:
  assumes "fs_wf fs" and "tabos_fs_open ops path flags mode fs = (d, fs')" and "0 \<le> d"
  shows "\<exists>i. i = length (takeWhile f_open (fs_files fs)) \<and> i < length (fs_files fs) \<and>
    d = encode_file i (f_generation (fs_files fs' ! i)) \<and> 0 < d \<and>
    file_for_descriptor (fs_files fs) d = None \<and> file_for_descriptor (fs_files fs') d = Some i \<and>
    (\<forall>d' j. file_for_descriptor (fs_files fs) d' = Some j \<longrightarrow>
      file_for_descriptor (fs_files fs') d' = Some j \<and> fs_files fs' ! j = fs_files fs ! j) \<and>
    length (fs_files fs') = length (fs_files fs) \<and> f_generation (fs_files fs' ! i) \<noteq> 0"
proof (cases rule: tabos_fs_open_cases [of ops path flags mode fs])
  case (fail e p)
  with assms show ?thesis by simp
next
  case (opened i v p)
  let ?g = "next_generation (f_generation (fs_files fs ! i))"
  have len: "length (fs_files fs) \<le> 255" using assms(1) by (simp add: fs_wf_def)
  have fs': "fs_files fs' = (fs_files fs)[i := open_file_slot v (fs_files fs ! i)]"
    and d: "d = encode_file i ?g"
    using opened(3) assms(2) by auto
  have closed: "\<not> f_open (fs_files fs ! i)"
    using opened(1,2) file_table.first_free_closed by blast
  have gen: "f_generation (fs_files fs' ! i) = ?g"
    using fs' opened(2) by (simp add: file_table.occupy_generation)
  have other: "file_for_descriptor (fs_files fs') d' = Some j \<and> fs_files fs' ! j = fs_files fs ! j"
    if found: "file_for_descriptor (fs_files fs) d' = Some j" for d' j
  proof -
    have "j \<noteq> i" using file_for_descriptor_open [OF found] closed by blast
    then have "fs_files fs' ! j = fs_files fs ! j" using fs' by simp
    with file_for_descriptor_cong [OF found, of "fs_files fs'"] fs' show ?thesis by simp
  qed
  have "0 < d" unfolding d using opened(2) len by (intro encode_file_positive) simp
  moreover have "file_for_descriptor (fs_files fs) d = None"
    unfolding d using file_for_encoded [OF opened(2) len] closed by simp
  moreover have "file_for_descriptor (fs_files fs') d = Some i"
    unfolding fs' d by (rule file_table.open_finds [OF opened(2) len])
  ultimately show ?thesis
    using opened(1,2) gen d fs' other by (auto simp: file_table.first_free_def)
qed

lemma tabos_fs_open_full:
  assumes "resolve_path ops path fs = (Some resolved, fs)" and "\<forall>slot \<in> set (fs_files fs). f_open slot"
  shows "tabos_fs_open ops path flags mode fs = (- 1, fs\<lparr>fs_errno := EMFILE\<rparr>)"
proof -
  have "length (takeWhile f_open (fs_files fs)) = length (fs_files fs)"
    using assms(2) file_table.first_free_full by (simp add: file_table.first_free_def)
  then show ?thesis
    unfolding tabos_fs_open_def assms(1) prod.case option.case Let_def by (simp add: fs_fail_def)
qed

section \<open>Stale descriptors\<close>

text \<open>
  A slot open at generation \<open>g\<close>, any calls, an attempt to close its descriptor, any calls: the
  descriptor does not resolve, provided that fewer than 65535 opens lie between.
\<close>

lemma stale_descriptor_not_found:
  fixes ops :: "'p storage_ops"
  assumes len: "length (fs_files fs) \<le> 255" and i: "i < length (fs_files fs)"
    and g: "f_generation (fs_files fs ! i) = g" "g \<noteq> 0"
    and few: "length (filter is_open_op (used @ after)) < 65535"
  defines "mid \<equiv> fs_run ops used fs" and "d \<equiv> encode_file i g"
  shows "file_for_descriptor (fs_files (fs_run ops after (snd (tabos_fs_close ops d mid)))) d = None"
proof -
  obtain n where n: "n \<le> length (filter is_open_op used)"
      and run: "file_table.table_run (fs_files fs) n (fs_files mid)"
    unfolding mid_def using fs_run_table by blast
  let ?closed = "snd (tabos_fs_close ops d mid)"
  obtain m where m: "m \<le> length (filter is_open_op after)"
      and run': "file_table.table_run (fs_files ?closed) m (fs_files (fs_run ops after ?closed))"
    using fs_run_table by blast
  have found: "file_for_descriptor (fs_files mid) d = None \<or> file_for_descriptor (fs_files mid) d = Some i"
    unfolding d_def using len i file_table.table_run_length [OF run] by (simp add: file_for_encoded)
  then have "fs_files ?closed = (if file_for_descriptor (fs_files mid) (encode_file i g) = None then fs_files mid
      else (fs_files mid)[i := (fs_files mid ! i)\<lparr>f_open := False\<rparr>])"
    using tabos_fs_close_found [of mid d i ops] by (auto simp: d_def tabos_fs_close_def fs_fail_def)
  from file_table.stale_after_close [OF run i _ g this run'] len n m few
  show ?thesis by (simp add: d_def)
qed

section \<open>Identity of renamed files\<close>

lemma tabos_fs_open_identity:
  assumes "tabos_fs_open ops path flags mode fs = (d, fs')" and "0 \<le> d" and "fs_wf fs"
  obtains resolved i where
    "filesystem_normalize_path path (Some (fs_working_directory fs)) (Some FS_PATH_MAX) = Some resolved"
    "file_for_descriptor (fs_files fs') d = Some i"
    "f_fallback_device_id (fs_files fs' ! i) = fallback_device_id (c_char resolved 0)"
    "f_fallback_file_id (fs_files fs' ! i) = fallback_file_id resolved"
    "fs_working_directory fs' = fs_working_directory fs"
proof -
  obtain i where i: "i = length (takeWhile f_open (fs_files fs))" "i < length (fs_files fs)"
      "file_for_descriptor (fs_files fs') d = Some i"
    using tabos_fs_open_found [OF assms(3,1,2)] by blast
  have ok: "d \<noteq> - 1" using assms(2) by auto
  show thesis
  proof (cases "resolve_path ops path fs" rule: option_pair_cases)
    case (no_value s)
    with assms(1) ok show thesis by (simp add: tabos_fs_open_def)
  next
    case (some_value resolved s)
    obtain error pf p where o: "so_open ops (fs_storage fs) (c_char resolved 0) (drop 2 resolved)
        flags mode = (error, pf, p)"
      using prod_cases3 by blast
    have s: "s = fs" by (rule resolve_path_Some(1) [OF some_value])
    have "error = 0"
      using assms(1) ok i(2) unfolding tabos_fs_open_def some_value s prod.case option.case o Let_def
      by (auto simp: fs_fail_def i(1) [symmetric] split: if_splits)
    then have "fs' = fs\<lparr>fs_storage := p, fs_files := (fs_files fs)[i :=
        open_file_slot (pf, fallback_device_id (c_char resolved 0), fallback_file_id resolved)
          (fs_files fs ! i)], fs_errno := 0\<rparr>"
      using assms(1) i(2) unfolding tabos_fs_open_def some_value s prod.case option.case o Let_def
      by (simp add: i(1) [symmetric] open_file_slot_def)
    then show thesis
      using that [of resolved i] resolve_path_Some(3) [OF some_value] i by (simp add: open_file_slot_def)
  qed
qed

text \<open>A backend without file identities of its own: the fallback identities are in use.\<close>

definition no_native_identity :: "'p storage_ops \<Rightarrow> bool" where
  "no_native_identity ops \<longleftrightarrow>
     (\<forall>p drive path. st_file_id (fst (snd (so_stat ops p drive path))) = 0) \<and>
     (\<forall>p file. st_file_id (fst (snd (so_fstat ops p file))) = 0)"

lemma fstat_fallback:
  assumes "no_native_identity ops" and "file_for_descriptor (fs_files fs) d = Some i"
    and "tabos_fs_fstat ops d True fs = (0, Some st, fs')"
  shows "st_device_id st = f_fallback_device_id (fs_files fs ! i) \<and>
    st_file_id st = f_fallback_file_id (fs_files fs ! i)"
proof -
  obtain error st0 p where f: "so_fstat ops (fs_storage fs) (f_platform_file (fs_files fs ! i)) = (error, st0, p)"
    using prod_cases3 by blast
  have "st_file_id st0 = 0"
    using assms(1) f by (simp add: no_native_identity_def) (metis fst_conv snd_conv)
  then show ?thesis
    using assms(2,3) f by (auto simp: tabos_fs_fstat_def fs_result_defs Let_def split: if_splits)
qed

lemma stat_fallback:
  assumes "no_native_identity ops" and "tabos_fs_stat ops path True fs = (0, Some st, fs')"
  obtains resolved where
    "filesystem_normalize_path path (Some (fs_working_directory fs)) (Some FS_PATH_MAX) = Some resolved"
    "st_device_id st = fallback_device_id (c_char resolved 0)" "st_file_id st = fallback_file_id resolved"
proof (cases "resolve_path ops path fs" rule: option_pair_cases)
  case (no_value s)
  with assms(2) show thesis by (simp add: tabos_fs_stat_def)
next
  case (some_value resolved s)
  then have s: "s = fs" by (rule resolve_path_Some(1))
  obtain error st0 p where f: "so_stat ops (fs_storage fs) (c_char resolved 0) (drop 2 resolved) = (error, st0, p)"
    using prod_cases3 by blast
  have "st_file_id st0 = 0"
    using assms(1) f by (simp add: no_native_identity_def) (metis fst_conv snd_conv)
  moreover have "error = 0" "st = supply_fallback_identity resolved st0"
    using assms(2) some_value s f by (auto simp: tabos_fs_stat_def fs_result_defs Let_def split: if_splits)
  ultimately show thesis
    using that resolve_path_Some(3) [OF some_value] by (simp add: supply_fallback_identity_def)
qed

section \<open>Start and stop\<close>

lemma close_open_files_fold:
  "close_open_files ops slots p =
     fold (\<lambda>file p. snd (so_close ops p file)) (map f_platform_file (filter f_open slots)) p"
  by (induction slots arbitrary: p) auto

lemma close_open_directories_fold:
  "close_open_directories ops slots p =
     fold (\<lambda>dir p. snd (so_closedir ops p dir)) (map d_platform_directory (filter d_open slots)) p"
  by (induction slots arbitrary: p) auto

lemma all_closed_not_found: "\<forall>slot \<in> set files. \<not> f_open slot \<Longrightarrow> file_for_descriptor files d = None"
  using file_for_descriptor_open by (metis not_None_eq nth_mem)

lemma shutdown_tables:
  "fs_initialized fs \<Longrightarrow> \<forall>slot \<in> set (fs_files (filesystem_shutdown ops fs)). \<not> f_open slot"
  by (auto simp: filesystem_shutdown_def file_slot_zero_def Let_def)

lemma stopped_resolve: "\<not> fs_initialized fs \<Longrightarrow> resolve_path ops path fs = (None, fs\<lparr>fs_errno := ENODEV\<rparr>)"
  by (simp add: resolve_path_def fs_fail_def)

text \<open>Opening a file and closing it again, whatever was read meanwhile, leaves the tables as before.\<close>

lemma tabos_fs_open_failed:
  assumes "fs_wf fs" and "tabos_fs_open ops path flags mode fs = (descriptor, after)" and "descriptor < 0"
  shows "fs_files after = fs_files fs"
proof (cases rule: tabos_fs_open_cases [of ops path flags mode fs])
  case (opened i v p)
  then have "i < 255" using assms(1) by (simp add: fs_wf_def)
  then have "0 < descriptor" using encode_file_positive [of i] opened(3) assms(2) by simp
  then show ?thesis using assms(3) by simp
qed (use assms(2) in auto)

definition same_descriptors :: "'p fs_state \<Rightarrow> 'p fs_state \<Rightarrow> bool" where
  "same_descriptors fs fs' \<longleftrightarrow> map f_open (fs_files fs') = map f_open (fs_files fs) \<and>
     (\<forall>d j. file_for_descriptor (fs_files fs) d = Some j \<longrightarrow> file_for_descriptor (fs_files fs') d = Some j)"

lemma descriptor_released:
  assumes "fs_wf fs" and result: "tabos_fs_open ops path flags mode fs = (descriptor, after)" and "0 \<le> descriptor"
    and before: "fs_files before = fs_files after"
  shows "same_descriptors fs (snd (tabos_fs_close ops descriptor before))"
proof -
  define fs' where "fs' = snd (tabos_fs_close ops descriptor before)"
  obtain i where i: "i < length (fs_files fs)" "i = length (takeWhile f_open (fs_files fs))"
    "file_for_descriptor (fs_files after) descriptor = Some i" "length (fs_files after) = length (fs_files fs)"
    and kept: "\<And>d j. file_for_descriptor (fs_files fs) d = Some j \<Longrightarrow>
      file_for_descriptor (fs_files after) d = Some j \<and> fs_files after ! j = fs_files fs ! j"
    using tabos_fs_open_found [OF assms(1) result assms(3)] by metis
  have files: "fs_files fs' = (fs_files after)[i := (fs_files after ! i)\<lparr>f_open := False\<rparr>]"
    using tabos_fs_close_found [of before descriptor i ops] before i(3) by (simp add: fs'_def)
  have free: "\<not> f_open (fs_files fs ! i)"
    using i(1,2) nth_length_takeWhile by blast
  have "fs_files after = (fs_files fs)[i := fs_files after ! i]"
  proof (cases rule: tabos_fs_open_cases [of ops path flags mode fs])
    case (opened k v p)
    then show ?thesis using result i(1,2) by (simp add: file_table.first_free_def)
  qed (use result assms(3) in simp)
  then have "map f_open (fs_files after) = (map f_open (fs_files fs))[i := f_open (fs_files after ! i)]"
    by (metis map_update)
  then have "map f_open (fs_files fs') = map f_open (fs_files fs)"
    using free i(1) unfolding files by (simp add: map_update list_update_same_conv)
  moreover have "file_for_descriptor (fs_files fs') d = Some j" if found: "file_for_descriptor (fs_files fs) d = Some j" for d j
  proof -
    have "j \<noteq> i" using free file_for_descriptor_open [OF found] by blast
    then show ?thesis
      using file_for_descriptor_cong [of "fs_files after" d j "fs_files fs'"] kept [OF found] by (simp add: files)
  qed
  ultimately show ?thesis by (simp add: same_descriptors_def fs'_def)
qed

text \<open>A small backend: drive A only, every call succeeds, no file identities.\<close>

definition demo_storage :: "nat storage_ops" where
  "demo_storage =
     \<lparr>so_init = \<lambda>p. (True, p), so_shutdown = \<lambda>p. p + 1000, so_drive_count = \<lambda>p. 1, so_info = \<lambda>p i. None,
      so_has_drive = \<lambda>p c. c = CHR ''A'', so_default_drive = \<lambda>p. CHR ''A'',
      so_open = \<lambda>p drive path flags mode. (0, 7, p), so_close = \<lambda>p file. (0, p + 1),
      so_read = \<lambda>p file n. (0, [], p), so_write = \<lambda>p file bytes. (0, length bytes, p),
      so_seek = \<lambda>p file offset whence. (0, offset, p),
      so_stat = \<lambda>p drive path. (0, \<lparr>st_mode = 2, st_size = 0, st_modified_time = 0,
        st_device_id = 0, st_file_id = 0\<rparr>, p),
      so_fstat = \<lambda>p file. (0, \<lparr>st_mode = 2, st_size = 0, st_modified_time = 0,
        st_device_id = 0, st_file_id = 0\<rparr>, p),
      so_unlink = \<lambda>p drive path. (0, p), so_rename = \<lambda>p drive old new. (0, p),
      so_mkdir = \<lambda>p drive path mode. (0, p), so_rmdir = \<lambda>p drive path. (0, p),
      so_opendir = \<lambda>p drive path. (0, 3, p),
      so_readdir = \<lambda>p dir. (0, \<lparr>de_mode = 0, de_name = []\<rparr>, True, p),
      so_closedir = \<lambda>p dir. (0, p + 100)\<rparr>"

definition demo_fs :: "nat fs_state" where
  "demo_fs = \<lparr>fs_files = [file_slot_zero, file_slot_zero], fs_directories = [directory_slot_zero],
     fs_errno = 0, fs_initialized = True, fs_mounted = True, fs_working_directory = ''A:/'',
     fs_storage = 0\<rparr>"

lemma demo_fs_wf: "fs_wf demo_fs"
  using canonical_drive_root [of "CHR ''A''"]
  by (simp add: fs_wf_def demo_fs_def file_slot_zero_def directory_slot_zero_def upper_drive_def less_eq_char_def)

section \<open>Properties\<close>

text \<open>
  C17. The service keeps its invariant: after a start on tables that fit their descriptors, any
  sequence of client calls leaves no open slot at generation 0 and a canonical, drive-qualified
  working directory, whatever the storage backend answers.
\<close>
theorem fs_invariant:
  assumes "\<not> fs_initialized fs" and "length (fs_files fs) \<le> 255" and "length (fs_directories fs) \<le> 255"
    and "\<And>p. so_default_drive ops p = CHR 0x00 \<or> upper_drive (so_default_drive ops p)"
    and "\<forall>op \<in> set calls. \<forall>p \<in> set (op_paths op). CHR 0x00 \<notin> set p"
  shows "fs_wf (fs_run ops calls (snd (filesystem_init ops fs)))"
  using filesystem_init_wf [OF assms(1-4)] assms(5) by (simp add: fs_run_wf)

theorem fs_invariant_witness:
  "fs_wf (fs_run demo_storage [Op_open (Some ''a'') 0 0, Op_chdir (Some ''b/..'')]
     (snd (filesystem_init demo_storage (demo_fs\<lparr>fs_initialized := False\<rparr>))))"
  by (rule fs_invariant) (simp_all add: demo_fs_def demo_storage_def upper_drive_def less_eq_char_def)

text \<open>
  A successful open takes the first free slot and returns a positive descriptor that no earlier
  call could have used, that resolves to that slot, and that disturbs no other descriptor: each one
  that resolved still resolves to the same slot with the same contents.
\<close>
theorem fs_open_fresh:
  assumes "fs_wf fs" and "tabos_fs_open ops path flags mode fs = (d, fs')" and "0 \<le> d"
  shows "0 < d \<and> file_for_descriptor (fs_files fs) d = None \<and>
    file_for_descriptor (fs_files fs') d = Some (length (takeWhile f_open (fs_files fs))) \<and>
    (\<forall>d' j. file_for_descriptor (fs_files fs) d' = Some j \<longrightarrow>
      file_for_descriptor (fs_files fs') d' = Some j \<and> fs_files fs' ! j = fs_files fs ! j)"
  using tabos_fs_open_found [OF assms] by blast

theorem fs_open_fresh_witness:
  "file_for_descriptor (fs_files (snd (tabos_fs_open demo_storage (Some ''a'') 0 0 demo_fs))) 257 = Some 0"
proof -
  have "fst (tabos_fs_open demo_storage (Some ''a'') 0 0 demo_fs) = 257"
    by code_simp
  then have o: "tabos_fs_open demo_storage (Some ''a'') 0 0 demo_fs =
      (257, snd (tabos_fs_open demo_storage (Some ''a'') 0 0 demo_fs))"
    by (metis prod.collapse)
  have "length (takeWhile f_open (fs_files demo_fs)) = 0"
    by (simp add: demo_fs_def file_slot_zero_def)
  with fs_open_fresh [OF demo_fs_wf o] show ?thesis by simp
qed

text \<open>
  C15. A descriptor is not reused: a file is opened, any calls use the service, the descriptor is
  closed, any calls follow. Then every call on the descriptor is refused with EBADF, as long as
  fewer than 65535 files were opened after it.
\<close>
theorem fs_stale_descriptor:
  assumes "fs_wf fs" and "tabos_fs_open ops path flags mode fs = (d, fs1)" and "0 \<le> d"
    and "length (filter is_open_op (used @ after)) < 65535"
  shows "descriptor_refused ops d
    (fs_run ops after (snd (tabos_fs_close ops d (fs_run ops used fs1))))"
proof -
  obtain i where i: "i < length (fs_files fs1)" "length (fs_files fs1) \<le> 255"
      "d = encode_file i (f_generation (fs_files fs1 ! i))" "f_generation (fs_files fs1 ! i) \<noteq> 0"
    using tabos_fs_open_found [OF assms(1-3)] assms(1) by (auto simp: fs_wf_def)
  from stale_descriptor_not_found [OF i(2,1) refl i(4) assms(4), folded i(3)]
  show ?thesis by (rule not_found_refused)
qed

theorem fs_stale_descriptor_witness:
  "descriptor_refused demo_storage 257
    (fs_run demo_storage [Op_open (Some ''b'') 0 0] (snd (tabos_fs_close demo_storage 257
      (fs_run demo_storage [] (snd (tabos_fs_open demo_storage (Some ''a'') 0 0 demo_fs))))))"
proof -
  have "fst (tabos_fs_open demo_storage (Some ''a'') 0 0 demo_fs) = 257"
    by code_simp
  then have "tabos_fs_open demo_storage (Some ''a'') 0 0 demo_fs =
      (257, snd (tabos_fs_open demo_storage (Some ''a'') 0 0 demo_fs))"
    by (metis prod.collapse)
  then show ?thesis by (rule fs_stale_descriptor [OF demo_fs_wf]) simp_all
qed

text \<open>
  C16. The storage backend sees canonical paths only: two backends that behave alike on canonical
  paths of the drives they have, and arbitrarily on any other string, cannot be told apart by any
  sequence of client calls.
\<close>
theorem fs_storage_canonical:
  assumes "storage_agree a b" and "\<forall>op \<in> set calls. \<forall>p \<in> set (op_paths op). CHR 0x00 \<notin> set p"
  shows "fs_run b calls fs = fs_run a calls fs"
  by (rule fs_run_agree [OF assms])

theorem fs_storage_canonical_witness:
  "fs_run (demo_storage\<lparr>so_unlink := \<lambda>p drive path. (if path = [] then EIO else 0, p)\<rparr>)
     [Op_chdir (Some ''a''), Op_unlink (Some ''../b'')] demo_fs =
   fs_run demo_storage [Op_chdir (Some ''a''), Op_unlink (Some ''../b'')] demo_fs"
proof (rule fs_storage_canonical)
  have "drop 2 q \<noteq> []" if "canonical_path FS_PATH_MAX q" for q
    using that by (auto simp: canonical_path_def render_def)
  then show "storage_agree demo_storage
      (demo_storage\<lparr>so_unlink := \<lambda>p drive path. (if path = [] then EIO else 0, p)\<rparr>)"
    by (simp add: storage_agree_def demo_storage_def)
qed simp

text \<open>
  A file that is open keeps its identity when it is renamed: where the backend has no file
  identities of its own, fstat on the descriptor and stat on the new path report the same device
  and file identity.
\<close>
theorem fs_rename_identity:
  assumes "fs_wf fs" and "no_native_identity ops"
    and "tabos_fs_open ops path flags mode fs = (d, fs1)" and "0 \<le> d"
    and "tabos_fs_rename ops path new_path fs1 = (0, fs2)"
    and "tabos_fs_fstat ops d True fs2 = (0, Some by_descriptor, fs3)"
    and "tabos_fs_stat ops new_path True fs2 = (0, Some by_path, fs4)"
  shows "st_device_id by_descriptor = st_device_id by_path \<and>
    st_file_id by_descriptor = st_file_id by_path"
proof -
  obtain q i where o:
      "filesystem_normalize_path path (Some (fs_working_directory fs)) (Some FS_PATH_MAX) = Some q"
      "file_for_descriptor (fs_files fs1) d = Some i"
      "f_fallback_device_id (fs_files fs1 ! i) = fallback_device_id (c_char q 0)"
      "f_fallback_file_id (fs_files fs1 ! i) = fallback_file_id q"
      "fs_working_directory fs1 = fs_working_directory fs"
    by (rule tabos_fs_open_identity [OF assms(3,4,1)])
  note i = file_for_descriptor_open [OF o(2)]
  show ?thesis
  proof (cases rule: tabos_fs_rename_cases [of ops path new_path fs1])
    case (fail e p)
    with assms(5) show ?thesis by simp
  next
    case (renamed old_q new_q p)
    let ?r = "rename_slot (fallback_device_id (c_char old_q 0)) (fallback_file_id old_q) (fallback_file_id new_q)"
    have q: "old_q = q"
      using resolve_path_Some(3) [OF renamed(1)] o(1,5) by simp
    have fs2: "fs_files fs2 = map ?r (fs_files fs1)" "fs_working_directory fs2 = fs_working_directory fs1"
      using renamed(4) assms(5) by auto
    have slot: "fs_files fs2 ! i = (fs_files fs1 ! i)\<lparr>f_fallback_file_id := fallback_file_id new_q\<rparr>"
      using i o(3,4) by (simp add: fs2 rename_slot_def q)
    have "file_for_descriptor (fs_files fs2) d = Some i"
      using o(2) i by (auto simp: fs2 file_for_descriptor_def Let_def split: if_splits)
    note f = fstat_fallback [OF assms(2) this assms(6)]
    obtain q' where s:
      "filesystem_normalize_path new_path (Some (fs_working_directory fs2)) (Some FS_PATH_MAX) = Some q'"
      "st_device_id by_path = fallback_device_id (c_char q' 0)" "st_file_id by_path = fallback_file_id q'"
      by (rule stat_fallback [OF assms(2,7)])
    have "q' = new_q" using resolve_path_Some(3) [OF renamed(2)] s(1) fs2(2) by simp
    then show ?thesis using f s(2,3) slot renamed(3) o(3) q by simp
  qed
qed

theorem fs_rename_identity_witness:
  "let fs1 = snd (tabos_fs_open demo_storage (Some ''a'') 0 0 demo_fs);
       fs2 = snd (tabos_fs_rename demo_storage (Some ''a'') (Some ''b'') fs1)
   in st_file_id (the (fst (snd (tabos_fs_fstat demo_storage 257 True fs2)))) =
      st_file_id (the (fst (snd (tabos_fs_stat demo_storage (Some ''b'') True fs2))))"
proof -
  define fs1 where "fs1 = snd (tabos_fs_open demo_storage (Some ''a'') 0 0 demo_fs)"
  define fs2 where "fs2 = snd (tabos_fs_rename demo_storage (Some ''a'') (Some ''b'') fs1)"
  define r where "r = tabos_fs_fstat demo_storage 257 True fs2"
  define t where "t = tabos_fs_stat demo_storage (Some ''b'') True fs2"
  have "fst (tabos_fs_open demo_storage (Some ''a'') 0 0 demo_fs) = 257" by code_simp
  then have 1: "tabos_fs_open demo_storage (Some ''a'') 0 0 demo_fs = (257, fs1)"
    by (metis prod.collapse fs1_def)
  have "fst (tabos_fs_rename demo_storage (Some ''a'') (Some ''b'') fs1) = 0"
    unfolding fs1_def by code_simp
  then have 2: "tabos_fs_rename demo_storage (Some ''a'') (Some ''b'') fs1 = (0, fs2)"
    by (metis prod.collapse fs2_def)
  have "fst r = 0 \<and> fst (snd r) \<noteq> None" unfolding r_def fs2_def fs1_def by code_simp
  then have 3: "tabos_fs_fstat demo_storage 257 True fs2 = (0, Some (the (fst (snd r))), snd (snd r))"
    by (metis option.collapse prod.collapse r_def)
  have "fst t = 0 \<and> fst (snd t) \<noteq> None" unfolding t_def fs2_def fs1_def by code_simp
  then have 4: "tabos_fs_stat demo_storage (Some ''b'') True fs2 = (0, Some (the (fst (snd t))), snd (snd t))"
    by (metis option.collapse prod.collapse t_def)
  have "no_native_identity demo_storage" by (simp add: no_native_identity_def demo_storage_def)
  from fs_rename_identity [OF demo_fs_wf this 1 _ 2 3 4]
  show ?thesis by (simp add: Let_def fs1_def fs2_def r_def t_def)
qed

text \<open>
  Stopping the service closes every open file and then every open directory exactly once, in
  table order, before the backend is shut down; afterwards no descriptor is accepted and no path
  resolves.
\<close>
theorem fs_shutdown_releases:
  fixes ops :: "'p storage_ops"
  assumes "fs_initialized fs"
  defines "stopped \<equiv> filesystem_shutdown ops fs"
  shows "fs_storage stopped = so_shutdown ops
      (fold (\<lambda>dir p. snd (so_closedir ops p dir)) (map d_platform_directory (filter d_open (fs_directories fs)))
        (fold (\<lambda>file p. snd (so_close ops p file)) (map f_platform_file (filter f_open (fs_files fs)))
          (fs_storage fs))) \<and>
    \<not> filesystem_is_mounted stopped \<and> (\<forall>d. descriptor_refused ops d stopped) \<and>
    (\<forall>path. resolve_path ops path stopped = (None, stopped\<lparr>fs_errno := ENODEV\<rparr>))"
proof -
  have "\<not> fs_initialized stopped" "fs_storage stopped = so_shutdown ops
      (close_open_directories ops (fs_directories fs) (close_open_files ops (fs_files fs) (fs_storage fs)))"
    using assms(1) by (simp_all add: stopped_def filesystem_shutdown_def Let_def)
  moreover have "descriptor_refused ops d stopped" for d
    unfolding stopped_def
    by (intro not_found_refused all_closed_not_found shutdown_tables [OF assms(1)])
  ultimately show ?thesis
    by (simp add: close_open_files_fold close_open_directories_fold stopped_resolve filesystem_is_mounted_def)
qed

theorem fs_shutdown_releases_witness:
  "fs_storage (filesystem_shutdown demo_storage
     (snd (tabos_fs_opendir demo_storage (Some ''a'') (snd (tabos_fs_open demo_storage (Some ''b'') 0 0 demo_fs)))))
   = 1101"
proof -
  let ?fs = "snd (tabos_fs_opendir demo_storage (Some ''a'') (snd (tabos_fs_open demo_storage (Some ''b'') 0 0 demo_fs)))"
  have i: "fs_initialized ?fs" by code_simp
  have "map d_platform_directory (filter d_open (fs_directories ?fs)) = [3]"
    "map f_platform_file (filter f_open (fs_files ?fs)) = [7]" "fs_storage ?fs = 0"
    by code_simp+
  with fs_shutdown_releases [OF i, of demo_storage] show ?thesis by (simp add: demo_storage_def)
qed

end
