(* ===== verification/InputQueue.thy ===== *)
theory InputQueue
  imports TimeCore RingBuffer
begin

unbundle bit_operations_syntax

text \<open>
  The keyboard service of \<^verbatim>\<open>input/input.c\<close>: the ring of 64 events that drops its oldest, the
  portable key repeat, the count of held keys that keeps the device awake, and the translation
  of HID usages to text. The static variables are the fields of \<open>input_state\<close>; \<open>queue_mutex\<close> and
  \<open>queue_signal\<close> say whether the platform objects exist. A function that takes the queue lock is
  one step. \<open>now\<close> is the monotonic clock read by the timer service; \<open>input_log\<close> lists the calls
  into the platform and the diagnostic log. A text array is the string up to its terminator.
\<close>

section \<open>Events and state\<close>

datatype tabos_input_event_type =
    TABOS_INPUT_KEY_DOWN
  | TABOS_INPUT_KEY_UP
  | TABOS_INPUT_TEXT

definition TABOS_KEY_UNKNOWN :: nat where "TABOS_KEY_UNKNOWN = 0"
definition TABOS_KEY_A :: nat where "TABOS_KEY_A = 4"
definition TABOS_KEY_Z :: nat where "TABOS_KEY_Z = 29"
definition TABOS_KEY_1 :: nat where "TABOS_KEY_1 = 30"
definition TABOS_KEY_0 :: nat where "TABOS_KEY_0 = 39"
definition TABOS_KEY_CTRL :: nat where "TABOS_KEY_CTRL = 0x100"
definition TABOS_KEY_SYM :: nat where "TABOS_KEY_SYM = 0x104"
definition TABOS_MODIFIER_CONTROL :: u8 where "TABOS_MODIFIER_CONTROL = 1"
definition TABOS_MODIFIER_SHIFT :: u8 where "TABOS_MODIFIER_SHIFT = 2"
definition TABOS_MODIFIER_ALT :: u8 where "TABOS_MODIFIER_ALT = 4"
definition TABOS_MODIFIER_GUI :: u8 where "TABOS_MODIFIER_GUI = 8"
definition TABOS_INPUT_TEXT_MAX_BYTES :: nat where "TABOS_INPUT_TEXT_MAX_BYTES = 9"

lemmas key_defs = TABOS_KEY_UNKNOWN_def TABOS_KEY_A_def TABOS_KEY_Z_def TABOS_KEY_1_def
  TABOS_KEY_0_def TABOS_KEY_CTRL_def TABOS_KEY_SYM_def

lemmas modifier_defs = TABOS_MODIFIER_CONTROL_def TABOS_MODIFIER_SHIFT_def TABOS_MODIFIER_ALT_def
  TABOS_MODIFIER_GUI_def

record tabos_input_event =
  ev_type :: tabos_input_event_type
  ev_key :: nat
  ev_modifiers :: u8
  ev_repeat :: bool
  ev_logical_key :: nat
  ev_logical_modifiers :: u8
  ev_generation :: u32
  ev_text :: string

definition INPUT_QUEUE_CAPACITY :: nat where "INPUT_QUEUE_CAPACITY = 64"
definition INPUT_POWER_KEY_LIMIT :: nat where "INPUT_POWER_KEY_LIMIT = TABOS_KEY_SYM + 1"
definition TABOS_KEY_REPEAT_DELAY_MS :: u64 where "TABOS_KEY_REPEAT_DELAY_MS = 400"

record input_state =
  event_queue :: "tabos_input_event list"
  queue_head :: nat
  queue_count :: nat
  held_key :: nat
  held_modifiers :: u8
  held_text :: string
  held_text_modifiers :: u8
  repeat_timer :: tabos_timer
  queue_mutex :: bool
  queue_signal :: bool
  input_generation :: u32
  held_binding :: tabos_input_event
  power_keys :: "bool list"
  power_held_count :: nat
  power_unknown_held_count :: nat
  power_activity_pending :: bool
  input_log :: "platform_call list"

definition modifier_key :: "nat \<Rightarrow> bool" where
  "modifier_key key \<longleftrightarrow> TABOS_KEY_CTRL \<le> key \<and> key \<le> TABOS_KEY_SYM"

definition TABOS_KEY_REPEAT_INTERVAL_MS :: u64 where "TABOS_KEY_REPEAT_INTERVAL_MS = 50"

section \<open>Text of a key\<close>

text \<open>None when the usage has no text; otherwise the one-character string that is written.\<close>

definition hid_punctuation :: "nat \<Rightarrow> bool \<Rightarrow> char" where
  "hid_punctuation usage shifted =
     (if usage = 40 then CHR 0x0A
      else if usage = 43 then CHR 0x09
      else if usage = 44 then CHR '' ''
      else if usage = 45 then (if shifted then CHR ''_'' else CHR ''-'')
      else if usage = 46 then (if shifted then CHR ''+'' else CHR ''='')
      else if usage = 47 then (if shifted then CHR ''{'' else CHR ''['')
      else if usage = 48 then (if shifted then CHR ''}'' else CHR '']'')
      else if usage = 49 then (if shifted then CHR ''|'' else CHR 0x5C)
      else if usage = 51 then (if shifted then CHR '':'' else CHR '';'')
      else if usage = 52 then (if shifted then CHR 0x22 else CHR 0x27)
      else if usage = 53 then (if shifted then CHR ''~'' else CHR 0x60)
      else if usage = 54 then (if shifted then CHR ''<'' else CHR '','')
      else if usage = 55 then (if shifted then CHR ''>'' else CHR ''.'')
      else if usage = 56 then (if shifted then CHR ''?'' else CHR ''/'')
      else CHR 0x00)"

definition input_text_from_hid :: "u8 \<Rightarrow> u8 \<Rightarrow> bool \<Rightarrow> nat \<Rightarrow> string option" where
  "input_text_from_hid usage modifiers text text_size =
     (if \<not> text \<or> text_size < 2 \<or>
         modifiers AND (TABOS_MODIFIER_CONTROL OR TABOS_MODIFIER_ALT OR TABOS_MODIFIER_GUI) \<noteq> 0
      then None
      else
        (let shifted = modifiers AND TABOS_MODIFIER_SHIFT \<noteq> 0;
             u = unat usage;
             character =
               (if TABOS_KEY_A \<le> u \<and> u \<le> TABOS_KEY_Z
                then char_of ((if shifted then 65 else 97) + (u - TABOS_KEY_A))
                else if TABOS_KEY_1 \<le> u \<and> u \<le> TABOS_KEY_0
                then (if shifted then ''!@#$%^&*()'' ! (u - TABOS_KEY_1) else ''1234567890'' ! (u - TABOS_KEY_1))
                else hid_punctuation u shifted)
         in if character = CHR 0x00 then None else Some [character]))"

definition refresh_held_repeat :: "u8 \<Rightarrow> input_state \<Rightarrow> input_state" where
  "refresh_held_repeat modifiers st =
     st\<lparr>held_modifiers := modifiers, held_text_modifiers := modifiers,
        held_text := (case input_text_from_hid (word_of_nat (held_key st)) modifiers True
          (TABOS_INPUT_TEXT_MAX_BYTES + 1) of None \<Rightarrow> [] | Some text \<Rightarrow> text)\<rparr>"

section \<open>Start, stop and reset\<close>

definition clear_input :: "input_state \<Rightarrow> input_state" where
  "clear_input st =
     st\<lparr>input_generation := input_generation st + 1, queue_head := 0, queue_count := 0,
        held_key := TABOS_KEY_UNKNOWN, held_modifiers := 0, held_text := [], held_text_modifiers := 0,
        power_keys := replicate INPUT_POWER_KEY_LIMIT False, power_held_count := 0,
        power_unknown_held_count := 0, power_activity_pending := False, repeat_timer := timer_cleared\<rparr>"

text \<open>\<open>mutex\<close> and \<open>signal\<close>: whether the platform can create the object.\<close>

definition input_init :: "bool \<Rightarrow> bool \<Rightarrow> input_state \<Rightarrow> bool \<times> input_state" where
  "input_init mutex signal st =
     (if \<not> queue_mutex st \<and> \<not> mutex then (False, st)
      else
        (let st = st\<lparr>queue_mutex := True\<rparr>
         in if \<not> queue_signal st \<and> \<not> signal then (False, st\<lparr>queue_mutex := False\<rparr>)
            else (True, clear_input (st\<lparr>queue_signal := True\<rparr>))))"

definition input_shutdown :: "input_state \<Rightarrow> input_state" where
  "input_shutdown st =
     (if \<not> queue_mutex st then st
      else (clear_input st)\<lparr>queue_mutex := False, queue_signal := False\<rparr>)"

definition input_wake_waiter :: "input_state \<Rightarrow> input_state" where
  "input_wake_waiter st = st\<lparr>input_log := input_log st @ [WakeInput]\<rparr>"

definition input_reset :: "bool \<Rightarrow> input_state \<Rightarrow> input_state" where
  "input_reset clear_pressed st =
     (if \<not> queue_mutex st then st
      else
        (let st = st\<lparr>queue_count := 0, queue_head := 0, input_generation := input_generation st + 1,
                     held_key := TABOS_KEY_UNKNOWN, repeat_timer := timer_cleared\<rparr>;
             st = (if clear_pressed
               then st\<lparr>power_keys := replicate INPUT_POWER_KEY_LIMIT False, power_held_count := 0,
                       power_unknown_held_count := 0\<rparr>
               else st)
         in input_wake_waiter st))"

section \<open>The event queue\<close>

text \<open>Room for one event: a full queue loses its oldest and starts a new generation.\<close>

definition make_room :: "input_state \<Rightarrow> input_state" where
  "make_room st =
     (if queue_count st = INPUT_QUEUE_CAPACITY
      then st\<lparr>queue_head := (queue_head st + 1) mod INPUT_QUEUE_CAPACITY,
              queue_count := queue_count st - 1, input_generation := input_generation st + 1\<rparr>
      else st)"

definition store_event :: "tabos_input_event \<Rightarrow> input_state \<Rightarrow> input_state" where
  "store_event event st =
     st\<lparr>event_queue := (event_queue st)[(queue_head st + queue_count st) mod INPUT_QUEUE_CAPACITY := event],
        queue_count := queue_count st + 1\<rparr>"

definition pop_event :: "bool \<Rightarrow> input_state \<Rightarrow> tabos_input_event option \<times> input_state" where
  "pop_event event st =
     (if \<not> event \<or> \<not> queue_mutex st then (None, st)
      else if queue_count st = 0 then (None, st)
      else (Some (event_queue st ! queue_head st),
            st\<lparr>queue_head := (queue_head st + 1) mod INPUT_QUEUE_CAPACITY,
               queue_count := queue_count st - 1\<rparr>))"

definition tabos_input_poll :: "bool \<Rightarrow> input_state \<Rightarrow> tabos_input_event option \<times> input_state" where
  "tabos_input_poll event st = pop_event event st"

text \<open>
  Waiting pops until an event is there. \<open>others\<close> is what the other threads do to the service
  during each platform wait; when it runs out the caller is still waiting.
\<close>

fun tabos_input_wait ::
    "bool \<Rightarrow> (input_state \<Rightarrow> input_state) list \<Rightarrow> input_state \<Rightarrow>
     (tabos_input_event option \<times> input_state) option" where
  "tabos_input_wait event others st =
     (if \<not> event then Some (None, st)
      else
        (case pop_event event st of
           (Some e, st) \<Rightarrow> Some (Some e, st)
         | (None, st) \<Rightarrow>
             (case others of [] \<Rightarrow> None | f # rest \<Rightarrow> tabos_input_wait event rest (f st))))"

definition input_pending :: "input_state \<Rightarrow> bool" where
  "input_pending st \<longleftrightarrow> queue_mutex st \<and> queue_count st \<noteq> 0"

section \<open>Submitting an event\<close>

text \<open>The keys that are held, for the power service.\<close>

definition track_held_keys :: "tabos_input_event \<Rightarrow> input_state \<Rightarrow> input_state" where
  "track_held_keys event st =
     (if ev_type event = TABOS_INPUT_KEY_DOWN \<or> ev_type event = TABOS_INPUT_KEY_UP then
        (let down = (ev_type event = TABOS_INPUT_KEY_DOWN);
             st = st\<lparr>power_activity_pending := True\<rparr>
         in if TABOS_KEY_UNKNOWN < ev_key event \<and> ev_key event \<le> TABOS_KEY_SYM then
              (if (power_keys st ! ev_key event) \<noteq> down
               then st\<lparr>power_keys := (power_keys st)[ev_key event := down],
                       power_held_count := (if down then power_held_count st + 1 else power_held_count st - 1)\<rparr>
               else st)
            else if down then st\<lparr>power_unknown_held_count := power_unknown_held_count st + 1\<rparr>
            else if 0 < power_unknown_held_count st
            then st\<lparr>power_unknown_held_count := power_unknown_held_count st - 1\<rparr>
            else st)
      else st)"

text \<open>The key that repeats, and its text.\<close>

definition bind_logical :: "tabos_input_event \<Rightarrow> tabos_input_event" where
  "bind_logical event =
     (if ev_logical_key event = TABOS_KEY_UNKNOWN
      then event\<lparr>ev_logical_key := ev_key event, ev_logical_modifiers := ev_modifiers event\<rparr>
      else event)"

definition track_repeat :: "u64 \<Rightarrow> tabos_input_event \<Rightarrow> input_state \<Rightarrow> input_state" where
  "track_repeat now event st =
     (if ev_type event = TABOS_INPUT_KEY_DOWN \<and> \<not> modifier_key (ev_key event) then
        st\<lparr>held_binding := bind_logical event, held_key := ev_key event,
           held_modifiers := ev_modifiers event, held_text := [], held_text_modifiers := 0,
           repeat_timer := timer_started now TABOS_KEY_REPEAT_DELAY_MS TABOS_KEY_REPEAT_INTERVAL_MS\<rparr>
      else if ev_type event = TABOS_INPUT_KEY_UP \<and> ev_key event = held_key st then
        st\<lparr>held_key := TABOS_KEY_UNKNOWN, held_modifiers := 0, held_text := [],
           held_text_modifiers := 0, repeat_timer := timer_cleared\<rparr>
      else if (ev_type event = TABOS_INPUT_KEY_DOWN \<or> ev_type event = TABOS_INPUT_KEY_UP) \<and>
          modifier_key (ev_key event) \<and> held_key st \<noteq> TABOS_KEY_UNKNOWN then
        refresh_held_repeat (ev_modifiers event) st
      else if ev_type event = TABOS_INPUT_TEXT \<and> held_key st \<noteq> TABOS_KEY_UNKNOWN then
        st\<lparr>held_text := take TABOS_INPUT_TEXT_MAX_BYTES (ev_text event),
           held_text_modifiers := ev_modifiers event\<rparr>
      else st)"

definition queue_event :: "tabos_input_event \<Rightarrow> input_state \<Rightarrow> input_state" where
  "queue_event event st =
     (let st = make_room st
      in store_event ((bind_logical event)\<lparr>ev_generation := input_generation st\<rparr>) st)"

definition input_submit :: "u64 \<Rightarrow> tabos_input_event option \<Rightarrow> input_state \<Rightarrow> bool \<times> input_state" where
  "input_submit now event st =
     (case event of
        None \<Rightarrow> (False, st)
      | Some event \<Rightarrow>
          (if ev_repeat event then (True, st)
           else if \<not> queue_mutex st then (False, st)
           else
             (let st = queue_event event (track_repeat now event (track_held_keys event st));
                  st = st\<lparr>input_log := input_log st @ [Notify RUNTIME_EVENT_INPUT]\<rparr>;
                  st = input_wake_waiter st
              in (True, st\<lparr>input_log := input_log st @ [DiagnosticLog]\<rparr>))))"

section \<open>Queries, and the repeat stream\<close>

definition input_take_power_activity :: "bool \<Rightarrow> input_state \<Rightarrow> bool \<times> bool option \<times> input_state" where
  "input_take_power_activity held st =
     (if \<not> held \<or> \<not> queue_mutex st then (False, None, st)
      else (power_activity_pending st,
            Some (power_held_count st \<noteq> 0 \<or> power_unknown_held_count st \<noteq> 0),
            st\<lparr>power_activity_pending := False\<rparr>))"

definition repeat_key_event :: "input_state \<Rightarrow> tabos_input_event" where
  "repeat_key_event st =
     \<lparr>ev_type = TABOS_INPUT_KEY_DOWN, ev_key = held_key st, ev_modifiers = held_modifiers st,
      ev_repeat = True, ev_logical_key = ev_logical_key (held_binding st),
      ev_logical_modifiers = ev_logical_modifiers (held_binding st), ev_generation = 0, ev_text = []\<rparr>"

definition repeat_text_event :: "input_state \<Rightarrow> tabos_input_event" where
  "repeat_text_event st =
     \<lparr>ev_type = TABOS_INPUT_TEXT, ev_key = TABOS_KEY_UNKNOWN, ev_modifiers = held_text_modifiers st,
      ev_repeat = True, ev_logical_key = 0, ev_logical_modifiers = 0, ev_generation = 0,
      ev_text = held_text st\<rparr>"

definition queue_repeat :: "tabos_input_event \<Rightarrow> input_state \<Rightarrow> input_state" where
  "queue_repeat event st =
     (let st = make_room st in store_event (event\<lparr>ev_generation := input_generation st\<rparr>) st)"

definition input_update :: "u64 \<Rightarrow> input_state \<Rightarrow> input_state" where
  "input_update now st =
     (if \<not> queue_mutex st then st
      else if held_key st = TABOS_KEY_UNKNOWN then st
      else
        (case timer_polled now (repeat_timer st) of
           (False, timer) \<Rightarrow> st\<lparr>repeat_timer := timer\<rparr>
         | (True, timer) \<Rightarrow>
             (let st = queue_repeat (repeat_key_event st) (st\<lparr>repeat_timer := timer\<rparr>);
                  text_repeated = (held_text st \<noteq> []);
                  st = (if text_repeated then queue_repeat (repeat_text_event st) st else st);
                  st = input_wake_waiter st;
                  st = st\<lparr>input_log := input_log st @ [DiagnosticLog]\<rparr>
              in if text_repeated then st\<lparr>input_log := input_log st @ [DiagnosticLog]\<rparr> else st)))"

definition input_next_deadline :: "input_state \<Rightarrow> u64" where
  "input_next_deadline st =
     (if \<not> queue_mutex st then TIME_DEADLINE_NONE
      else if held_key st \<noteq> TABOS_KEY_UNKNOWN then timer_deadline (repeat_timer st)
      else TIME_DEADLINE_NONE)"

text \<open>The generation and the pressed keys; \<open>resynchronize\<close> also discards the pending events.\<close>

definition input_get_state ::
    "bool \<Rightarrow> bool \<Rightarrow> input_state \<Rightarrow> int \<times> (u32 \<times> bool list) option \<times> input_state" where
  "input_get_state state resynchronize st =
     (if \<not> state \<or> \<not> queue_mutex st then (- 1, None, st)
      else
        (let st = (if resynchronize
           then st\<lparr>queue_count := 0, queue_head := 0, input_generation := input_generation st + 1\<rparr>
           else st)
         in (0, Some (input_generation st, power_keys st), st)))"

section \<open>The queue and the held keys are consistent\<close>

definition input_ok :: "input_state \<Rightarrow> bool" where
  "input_ok st \<longleftrightarrow> length (event_queue st) = INPUT_QUEUE_CAPACITY \<and> queue_head st < INPUT_QUEUE_CAPACITY \<and>
     queue_count st \<le> INPUT_QUEUE_CAPACITY \<and> length (power_keys st) = INPUT_POWER_KEY_LIMIT \<and>
     power_held_count st = length (filter (\<lambda>down. down) (power_keys st))"

definition input_contents :: "input_state \<Rightarrow> tabos_input_event list" where
  "input_contents st = ring_contents (event_queue st) (queue_head st) (queue_count st)"

text \<open>An event without its generation stamp.\<close>

definition unstamped :: "tabos_input_event \<Rightarrow> tabos_input_event" where
  "unstamped event = event\<lparr>ev_generation := 0\<rparr>"

lemma unstamped_stamp [simp]: "unstamped (event\<lparr>ev_generation := g\<rparr>) = unstamped event"
  by (simp add: unstamped_def)

definition drop_oldest :: "input_state \<Rightarrow> input_state" where
  "drop_oldest st =
     st\<lparr>queue_head := (queue_head st + 1) mod INPUT_QUEUE_CAPACITY,
        queue_count := queue_count st - 1, input_generation := input_generation st + 1\<rparr>"

definition push_event :: "(tabos_input_event \<Rightarrow> tabos_input_event) \<Rightarrow> tabos_input_event \<Rightarrow>
    input_state \<Rightarrow> input_state" where
  "push_event binding event st = store_event ((binding event)\<lparr>ev_generation := input_generation st\<rparr>) st"

lemma make_room_drop: "make_room st = (if queue_count st = INPUT_QUEUE_CAPACITY then drop_oldest st else st)"
  by (simp add: make_room_def drop_oldest_def)

lemma capacity_pos [simp]: "0 < INPUT_QUEUE_CAPACITY"
  by (simp add: INPUT_QUEUE_CAPACITY_def)

lemma store_event_contents:
  assumes "input_ok st" and "queue_count st < INPUT_QUEUE_CAPACITY"
  shows "input_contents (store_event event st) = input_contents st @ [event]"
  using assms ring_push [of "queue_count st" "event_queue st" "queue_head st" event]
  by (simp add: input_contents_def store_event_def input_ok_def)

lemma drop_oldest_contents:
  assumes "input_ok st" and "queue_count st \<noteq> 0"
  shows "input_contents st = event_queue st ! queue_head st # input_contents (drop_oldest st)"
  using assms ring_pop [of "queue_count st" "event_queue st" "queue_head st"]
  by (simp add: input_contents_def drop_oldest_def input_ok_def)

lemma input_contents_length [simp]: "length (input_contents st) = queue_count st"
  by (simp add: input_contents_def)

lemma input_contents_nil: "input_contents st = [] \<longleftrightarrow> queue_count st = 0"
  by (metis input_contents_length length_0_conv)

lemma store_event_ok:
  "input_ok st \<Longrightarrow> queue_count st < INPUT_QUEUE_CAPACITY \<Longrightarrow> input_ok (store_event event st)"
  by (simp add: input_ok_def store_event_def)

lemma drop_oldest_ok: "input_ok st \<Longrightarrow> input_ok (drop_oldest st)"
  by (auto simp: input_ok_def drop_oldest_def)

lemma input_ok_count: "input_ok st \<Longrightarrow> queue_count st \<le> INPUT_QUEUE_CAPACITY"
  by (simp add: input_ok_def)

lemma drop_oldest_unstamped:
  "input_ok st \<Longrightarrow> input_contents st \<noteq> [] \<Longrightarrow> map unstamped (input_contents st) =
     unstamped (event_queue st ! queue_head st) # map unstamped (input_contents (drop_oldest st))"
  using drop_oldest_contents by (simp add: input_contents_nil)

lemmas queue_contract = store_event_contents store_event_ok drop_oldest_ok drop_oldest_unstamped
  input_ok_count

text \<open>Both streams of events, those submitted and those that repeat, keep the newest 64.\<close>

interpretation submitted: dropping_queue input_ok "\<lambda>st. map unstamped (input_contents st)"
  INPUT_QUEUE_CAPACITY "push_event bind_logical" "\<lambda>event. unstamped (bind_logical event)"
  "\<lambda>st. unstamped (event_queue st ! queue_head st)" drop_oldest queue_event
proof unfold_locales
  fix st :: input_state and event
  show "input_ok st \<Longrightarrow> queue_event event st =
      push_event bind_logical event (if length (map unstamped (input_contents st)) = INPUT_QUEUE_CAPACITY
        then drop_oldest st else st)"
    by (simp add: queue_event_def push_event_def make_room_drop Let_def)
qed (auto simp: push_event_def queue_contract)

interpretation repeated: dropping_queue input_ok "\<lambda>st. map unstamped (input_contents st)"
  INPUT_QUEUE_CAPACITY "push_event (\<lambda>event. event)" unstamped
  "\<lambda>st. unstamped (event_queue st ! queue_head st)" drop_oldest queue_repeat
proof unfold_locales
  fix st :: input_state and event
  show "input_ok st \<Longrightarrow> queue_repeat event st =
      push_event (\<lambda>event. event) event (if length (map unstamped (input_contents st)) = INPUT_QUEUE_CAPACITY
        then drop_oldest st else st)"
    by (simp add: queue_repeat_def push_event_def make_room_drop Let_def)
qed (auto simp: push_event_def queue_contract)

section \<open>The invariant over calls\<close>

datatype input_op =
    Submit "tabos_input_event option"
  | Update
  | Poll
  | Take_power
  | Get_state bool
  | Reset bool

fun input_step :: "input_op \<Rightarrow> u64 \<Rightarrow> input_state \<Rightarrow> input_state" where
  "input_step (Submit event) now st = snd (input_submit now event st)"
| "input_step Update now st = input_update now st"
| "input_step Poll now st = snd (tabos_input_poll True st)"
| "input_step Take_power now st = snd (snd (input_take_power_activity True st))"
| "input_step (Get_state resynchronize) now st = snd (snd (input_get_state True resynchronize st))"
| "input_step (Reset clear) now st = input_reset clear st"

text \<open>Calls with the clock value at which each happens.\<close>

fun input_run :: "(input_op \<times> u64) list \<Rightarrow> input_state \<Rightarrow> input_state" where
  "input_run [] st = st"
| "input_run ((op, now) # rest) st = input_run rest (input_step op now st)"

lemma queue_event_ok: "input_ok st \<Longrightarrow> input_ok (queue_event event st)"
  using submitted.submit_step by blast

lemma queue_repeat_ok: "input_ok st \<Longrightarrow> input_ok (queue_repeat event st)"
  using repeated.submit_step by blast

lemma filter_true_update:
  assumes "i < length ks" and "(ks ! i) \<noteq> down"
  shows "length (filter (\<lambda>d. d) (ks[i := down])) =
    (if down then length (filter (\<lambda>d. d) ks) + 1 else length (filter (\<lambda>d. d) ks) - 1)"
  using length_filter_update [OF assms(1), of "\<lambda>d. d" down] assms(2) by (auto split: if_splits)

lemma track_held_keys_ok: "input_ok st \<Longrightarrow> input_ok (track_held_keys event st)"
  by (auto simp: input_ok_def track_held_keys_def Let_def INPUT_POWER_KEY_LIMIT_def
      filter_true_update split: if_splits)

lemma track_repeat_fields [simp]:
  "event_queue (track_repeat now event st) = event_queue st"
  "queue_head (track_repeat now event st) = queue_head st"
  "queue_count (track_repeat now event st) = queue_count st"
  "power_keys (track_repeat now event st) = power_keys st"
  "power_held_count (track_repeat now event st) = power_held_count st"
  "power_unknown_held_count (track_repeat now event st) = power_unknown_held_count st"
  "input_generation (track_repeat now event st) = input_generation st"
  "queue_mutex (track_repeat now event st) = queue_mutex st"
  by (simp_all add: track_repeat_def refresh_held_repeat_def)

lemma track_held_keys_fields [simp]:
  "event_queue (track_held_keys event st) = event_queue st"
  "queue_head (track_held_keys event st) = queue_head st"
  "queue_count (track_held_keys event st) = queue_count st"
  "input_generation (track_held_keys event st) = input_generation st"
  "queue_mutex (track_held_keys event st) = queue_mutex st"
  by (simp_all add: track_held_keys_def Let_def)

lemma queue_event_fields [simp]:
  "queue_mutex (queue_event event st) = queue_mutex st"
  "power_keys (queue_event event st) = power_keys st"
  "power_held_count (queue_event event st) = power_held_count st"
  "held_key (queue_event event st) = held_key st"
  "repeat_timer (queue_event event st) = repeat_timer st"
  by (simp_all add: queue_event_def make_room_def store_event_def Let_def)

lemma queue_repeat_fields [simp]:
  "queue_mutex (queue_repeat event st) = queue_mutex st"
  "power_keys (queue_repeat event st) = power_keys st"
  "power_held_count (queue_repeat event st) = power_held_count st"
  "held_key (queue_repeat event st) = held_key st"
  "held_text (queue_repeat event st) = held_text st"
  "held_text_modifiers (queue_repeat event st) = held_text_modifiers st"
  "repeat_timer (queue_repeat event st) = repeat_timer st"
  by (simp_all add: queue_repeat_def make_room_def store_event_def Let_def)

lemma input_ok_frame:
  "input_ok (st\<lparr>input_log := l\<rparr>) = input_ok st" "input_ok (st\<lparr>repeat_timer := t\<rparr>) = input_ok st"
  "input_ok (st\<lparr>power_activity_pending := p\<rparr>) = input_ok st"
  "input_ok (input_wake_waiter st) = input_ok st"
  by (simp_all add: input_ok_def input_wake_waiter_def)

lemma input_step_ok: "input_ok st \<Longrightarrow> input_ok (input_step op now st)"
proof (cases op)
  case (Submit event)
  assume ok: "input_ok st"
  have "input_ok (queue_event e (track_repeat now e (track_held_keys e st)))" for e
    using track_held_keys_ok [OF ok, of e] by (intro queue_event_ok) (simp add: input_ok_def)
  then show ?thesis using ok
    by (auto simp: Submit input_submit_def Let_def input_ok_frame split: option.splits)
next
  case Update
  assume ok: "input_ok st"
  then show ?thesis
    by (auto simp: Update input_update_def Let_def input_ok_frame queue_repeat_ok split: prod.split bool.split)
next
  case Poll
  assume ok: "input_ok st"
  then show ?thesis
    by (auto simp: Poll tabos_input_poll_def pop_event_def input_ok_def)
next
  case (Reset clear)
  assume ok: "input_ok st"
  then show ?thesis
    by (auto simp: Reset input_reset_def Let_def input_ok_frame) (auto simp: input_ok_def)
qed (auto simp: input_take_power_activity_def input_get_state_def Let_def input_ok_frame,
    auto simp: input_ok_def)

lemma input_run_ok: "input_ok st \<Longrightarrow> input_ok (input_run calls st)"
proof (induction calls arbitrary: st)
  case (Cons call calls)
  then show ?case by (cases call) (simp add: input_step_ok)
qed simp

lemma clear_input_ok:
  "length (event_queue st) = INPUT_QUEUE_CAPACITY \<Longrightarrow> input_ok (clear_input st)"
  by (simp add: input_ok_def clear_input_def)

lemma input_init_ok:
  assumes "length (event_queue st) = INPUT_QUEUE_CAPACITY" and "input_init mutex signal st = (True, st')"
  shows "input_ok st' \<and> queue_mutex st' \<and> queue_signal st' \<and> input_contents st' = []"
  using assms by (auto simp: input_init_def Let_def clear_input_ok input_contents_nil split: if_splits)
    (auto simp: clear_input_def)

section \<open>What the queue delivers\<close>

text \<open>\<open>n\<close> polls, and the events they answer.\<close>

fun input_drain :: "nat \<Rightarrow> input_state \<Rightarrow> tabos_input_event list \<times> input_state" where
  "input_drain 0 st = ([], st)"
| "input_drain (Suc n) st =
     (case tabos_input_poll True st of
        (None, st) \<Rightarrow> ([], st)
      | (Some event, st) \<Rightarrow> (case input_drain n st of (events, st) \<Rightarrow> (event # events, st)))"

lemma pop_event_cases:
  assumes "input_ok st" and "queue_mutex st"
  obtains (empty) "input_contents st = []" and "tabos_input_poll True st = (None, st)"
  | (event) event st' where "tabos_input_poll True st = (Some event, st')"
      and "input_contents st = event # input_contents st'" and "input_ok st'" and "queue_mutex st'"
proof (cases "queue_count st = 0")
  case True
  then show thesis
    using assms(2) empty by (simp add: tabos_input_poll_def pop_event_def input_contents_nil)
next
  case False
  let ?st = "st\<lparr>queue_head := (queue_head st + 1) mod INPUT_QUEUE_CAPACITY,
    queue_count := queue_count st - 1\<rparr>"
  have "input_contents ?st = input_contents (drop_oldest st)"
    by (simp add: input_contents_def drop_oldest_def)
  moreover have "input_ok ?st" "queue_mutex ?st" using assms by (auto simp: input_ok_def)
  ultimately show thesis
    using event [of "event_queue st ! queue_head st" ?st] drop_oldest_contents [OF assms(1) False] False
      assms(2)
    by (simp add: tabos_input_poll_def pop_event_def)
qed

lemma input_drain_contents:
  "input_ok st \<Longrightarrow> queue_mutex st \<Longrightarrow> fst (input_drain n st) = take n (input_contents st)"
proof (induction n arbitrary: st)
  case (Suc n)
  then show ?case
    by (cases rule: pop_event_cases [OF Suc.prems]) (auto simp: case_prod_beta)
qed simp

lemma submit_contents:
  fixes now :: u64
  assumes "input_ok st" and "queue_mutex st" and "\<not> ev_repeat event"
  defines "st' \<equiv> input_step (Submit (Some event)) now st"
  shows "map unstamped (input_contents st') =
      drop (queue_count st + 1 - INPUT_QUEUE_CAPACITY)
        (map unstamped (input_contents st) @ [unstamped (bind_logical event)]) \<and>
    input_generation st' = input_generation st + of_nat (queue_count st + 1 - INPUT_QUEUE_CAPACITY) \<and>
    queue_count st' = min (queue_count st + 1) INPUT_QUEUE_CAPACITY \<and> queue_mutex st'"
proof -
  let ?t = "track_repeat now event (track_held_keys event st)"
  have ok: "input_ok ?t" using track_held_keys_ok [OF assms(1), of event] by (simp add: input_ok_def)
  have c: "input_contents ?t = input_contents st" by (simp add: input_contents_def)
  have st': "st' = (queue_event event ?t)\<lparr>input_log := input_log ?t @ [Notify RUNTIME_EVENT_INPUT, WakeInput, DiagnosticLog]\<rparr>"
    using assms(2,3) by (simp add: st'_def input_submit_def input_wake_waiter_def queue_event_def
        make_room_def store_event_def Let_def)
  have "input_contents st' = input_contents (queue_event event ?t)" unfolding st' by (simp add: input_contents_def)
  moreover have "map unstamped (input_contents (queue_event event ?t)) =
      drop (queue_count st + 1 - INPUT_QUEUE_CAPACITY)
        (map unstamped (input_contents st) @ [unstamped (bind_logical event)])"
    using submitted.fold_submit_contents [OF ok, of "[event]"] by (simp add: c)
  moreover have "input_generation st' = input_generation st + of_nat (queue_count st + 1 - INPUT_QUEUE_CAPACITY)"
    "queue_count st' = min (queue_count st + 1) INPUT_QUEUE_CAPACITY"
    unfolding st' using input_ok_count [OF assms(1)]
    by (auto simp: INPUT_QUEUE_CAPACITY_def queue_event_def make_room_def store_event_def Let_def min_def)
  ultimately show ?thesis using assms(2) by (simp add: st')
qed

lemma submits_contents:
  assumes "input_ok st" and "queue_mutex st" and "\<forall>(event, now) \<in> set es. \<not> ev_repeat event"
  defines "st' \<equiv> input_run (map (\<lambda>(event, now). (Submit (Some event), now)) es) st"
  shows "map unstamped (input_contents st') =
      drop (queue_count st + length es - INPUT_QUEUE_CAPACITY)
        (map unstamped (input_contents st) @ map (\<lambda>(event, now). unstamped (bind_logical event)) es) \<and>
    input_generation st' = input_generation st + of_nat (queue_count st + length es - INPUT_QUEUE_CAPACITY) \<and>
    queue_mutex st'"
  using assms(1-3) unfolding st'_def
proof (induction es arbitrary: st)
  case Nil
  then show ?case using input_ok_count by auto
next
  case (Cons en es)
  obtain event now where en: "en = (event, now)" by fastforce
  let ?s = "input_step (Submit (Some event)) now st"
  have s: "map unstamped (input_contents ?s) = drop (queue_count st + 1 - INPUT_QUEUE_CAPACITY)
        (map unstamped (input_contents st) @ [unstamped (bind_logical event)])"
    "input_generation ?s = input_generation st + of_nat (queue_count st + 1 - INPUT_QUEUE_CAPACITY)"
    "queue_count ?s = min (queue_count st + 1) INPUT_QUEUE_CAPACITY" "queue_mutex ?s"
    using submit_contents [of st event now] Cons.prems en by auto
  have le: "queue_count st \<le> INPUT_QUEUE_CAPACITY" using Cons.prems(1) by (rule input_ok_count)
  have n: "queue_count st + 1 - INPUT_QUEUE_CAPACITY + (queue_count ?s + length es - INPUT_QUEUE_CAPACITY) =
      queue_count st + length (en # es) - INPUT_QUEUE_CAPACITY"
    using le s(3) by (cases "queue_count st = INPUT_QUEUE_CAPACITY") (simp_all add: min_def)
  note IH = Cons.IH [OF input_step_ok [OF Cons.prems(1)] s(4)]
  have rest: "\<forall>(event, now) \<in> set es. \<not> ev_repeat event" using Cons.prems(3) by simp
  have "map unstamped (input_contents (input_run (map (\<lambda>(event, now). (Submit (Some event), now)) es) ?s)) =
      drop (queue_count st + length (en # es) - INPUT_QUEUE_CAPACITY)
        ((map unstamped (input_contents st) @ [unstamped (bind_logical event)]) @
          map (\<lambda>(event, now). unstamped (bind_logical event)) es)"
  proof -
    let ?xs = "map unstamped (input_contents st) @ [unstamped (bind_logical event)]"
    let ?k = "queue_count st + 1 - INPUT_QUEUE_CAPACITY"
    have "?k \<le> length ?xs" using le by simp
    then have "drop ?k ?xs @ ys = drop ?k (?xs @ ys)" for ys
      by (simp only: drop_append) simp
    then show ?thesis using IH rest s(1) n by (simp only: drop_drop) (simp add: add.commute)
  qed
  moreover have "input_generation (input_run (map (\<lambda>(event, now). (Submit (Some event), now)) es) ?s) =
      input_generation st + of_nat (queue_count st + length (en # es) - INPUT_QUEUE_CAPACITY)"
    using IH rest s(2) by (simp only: n [symmetric] of_nat_add) simp
  ultimately show ?case using IH rest en by simp
qed

section \<open>Which keys are held\<close>

text \<open>The abstract view: a key is held when the last key event that names it was a key down.\<close>

fun key_after :: "nat \<Rightarrow> input_op \<Rightarrow> bool \<Rightarrow> bool" where
  "key_after k (Submit (Some event)) held =
     (if ev_repeat event \<or> ev_key event \<noteq> k \<or> ev_type event = TABOS_INPUT_TEXT then held
      else ev_type event = TABOS_INPUT_KEY_DOWN)"
| "key_after k (Reset True) held = False"
| "key_after k _ held = held"

lemma power_keys_frame [simp]:
  "power_keys (input_wake_waiter st) = power_keys st" "queue_mutex (input_wake_waiter st) = queue_mutex st"
  by (simp_all add: input_wake_waiter_def)

lemma track_held_keys_key:
  assumes "input_ok st" and "TABOS_KEY_UNKNOWN < k" and "k \<le> TABOS_KEY_SYM" and "\<not> ev_repeat event"
  shows "power_keys (track_held_keys event st) ! k = key_after k (Submit (Some event)) (power_keys st ! k)"
proof -
  have k: "k < length (power_keys st)" using assms(1,3) by (simp add: input_ok_def INPUT_POWER_KEY_LIMIT_def)
  show ?thesis
    using k assms(2-4) by (cases "ev_type event") (auto simp: track_held_keys_def Let_def nth_list_update)
qed

lemma input_step_key:
  assumes "input_ok st" and "queue_mutex st" and "TABOS_KEY_UNKNOWN < k" and "k \<le> TABOS_KEY_SYM"
  shows "power_keys (input_step op now st) ! k = key_after k op (power_keys st ! k) \<and>
    queue_mutex (input_step op now st)"
proof (cases op)
  case (Submit event)
  with assms show ?thesis
    by (cases event) (simp_all add: input_submit_def Let_def track_held_keys_key)
next
  case Update
  with assms(2) show ?thesis by (auto simp: input_update_def Let_def split: prod.split bool.split)
next
  case (Reset clear)
  have "k < INPUT_POWER_KEY_LIMIT" using assms(4) by (simp add: INPUT_POWER_KEY_LIMIT_def)
  with Reset assms(2) show ?thesis by (cases clear) (simp_all add: input_reset_def Let_def)
qed (use assms(2) in \<open>auto simp: tabos_input_poll_def pop_event_def input_take_power_activity_def
    input_get_state_def Let_def\<close>)

lemma input_run_key:
  assumes "input_ok st" and "queue_mutex st" and "TABOS_KEY_UNKNOWN < k" and "k \<le> TABOS_KEY_SYM"
  shows "power_keys (input_run calls st) ! k = fold (key_after k) (map fst calls) (power_keys st ! k) \<and>
    queue_mutex (input_run calls st)"
  using assms
proof (induction calls arbitrary: st)
  case (Cons call calls)
  then show ?case
    using input_step_key [OF Cons.prems] by (cases call) (simp add: input_step_ok)
qed simp

lemma held_count_zero: "input_ok st \<Longrightarrow> power_held_count st \<noteq> 0 \<longleftrightarrow> True \<in> set (power_keys st)"
  by (auto simp: input_ok_def filter_empty_conv)

section \<open>Repeating keys\<close>

lemma timer_started_after:
  "timer_polled now (timer_started t delay interval) = (False, timer_started t delay interval)"
  if "now < time_deadline_after t delay"
  using that by (simp add: timer_polled_early timer_started_def)

lemma submit_down_repeat:
  fixes t :: u64
  assumes "queue_mutex st" and "\<not> ev_repeat event" and "ev_type event = TABOS_INPUT_KEY_DOWN"
    and "\<not> modifier_key (ev_key event)"
  defines "st' \<equiv> snd (input_submit t (Some event) st)"
  shows "held_key st' = ev_key event \<and> queue_mutex st' \<and>
    repeat_timer st' = timer_started t TABOS_KEY_REPEAT_DELAY_MS TABOS_KEY_REPEAT_INTERVAL_MS"
  using assms(1-4)
  by (simp add: st'_def input_submit_def input_wake_waiter_def track_repeat_def Let_def)

lemma submit_up_repeat:
  assumes "queue_mutex st" and "\<not> ev_repeat event" and "ev_type event = TABOS_INPUT_KEY_UP"
    and "ev_key event = held_key st"
  shows "held_key (snd (input_submit t (Some event) st)) = TABOS_KEY_UNKNOWN"
proof -
  have "held_key (track_held_keys event st) = held_key st" by (simp add: track_held_keys_def Let_def)
  then show ?thesis
    using assms by (simp add: input_submit_def input_wake_waiter_def track_repeat_def Let_def)
qed

lemma input_update_due:
  fixes now :: u64 and timer :: tabos_timer
  assumes "input_ok st" and "queue_mutex st" and "held_key st \<noteq> TABOS_KEY_UNKNOWN"
    and "timer_polled now (repeat_timer st) = (True, timer)"
  defines "st' \<equiv> input_update now st"
    and "new \<equiv> repeat_key_event st # (if held_text st = [] then [] else [repeat_text_event st])"
  shows "map unstamped (input_contents st') =
      drop (queue_count st + length new - INPUT_QUEUE_CAPACITY) (map unstamped (input_contents st) @ new) \<and>
    repeat_timer st' = timer"
proof -
  define s0 where "s0 = st\<lparr>repeat_timer := timer\<rparr>"
  have ok: "input_ok s0" using assms(1) by (simp add: s0_def input_ok_frame)
  have same: "repeat_key_event s0 = repeat_key_event st" "input_contents s0 = input_contents st"
    "repeat_text_event (queue_repeat e s0) = repeat_text_event st" "held_text s0 = held_text st" for e
    by (simp_all add: s0_def repeat_key_event_def input_contents_def repeat_text_event_def)
  have un: "unstamped (repeat_key_event st) = repeat_key_event st"
    "unstamped (repeat_text_event st) = repeat_text_event st"
    by (simp_all add: unstamped_def repeat_key_event_def repeat_text_event_def)
  have st': "input_contents st' = input_contents (fold queue_repeat new s0)"
    "repeat_timer st' = repeat_timer (fold queue_repeat new s0)"
    using assms(2-4)
    by (simp_all add: st'_def input_update_def s0_def [symmetric] input_wake_waiter_def new_def same
        input_contents_def Let_def)
  have "map unstamped (input_contents (fold queue_repeat new s0)) =
      drop (queue_count st + length new - INPUT_QUEUE_CAPACITY)
        (map unstamped (input_contents st) @ map unstamped new)"
    using repeated.fold_submit_contents [OF ok, of new] by (simp add: same)
  moreover have "map unstamped new = new" by (simp add: new_def un)
  moreover have "repeat_timer (fold queue_repeat new s0) = timer" by (simp add: new_def s0_def)
  ultimately show ?thesis by (simp add: st')
qed

section \<open>Properties\<close>

definition demo_key :: "tabos_input_event_type \<Rightarrow> nat \<Rightarrow> tabos_input_event" where
  "demo_key type key = \<lparr>ev_type = type, ev_key = key, ev_modifiers = 0, ev_repeat = False,
     ev_logical_key = 0, ev_logical_modifiers = 0, ev_generation = 0, ev_text = []\<rparr>"

definition demo_input :: input_state where
  "demo_input = clear_input \<lparr>
     event_queue = replicate INPUT_QUEUE_CAPACITY (demo_key TABOS_INPUT_TEXT 0), queue_head = 0,
     queue_count = 0, held_key = 0, held_modifiers = 0, held_text = [], held_text_modifiers = 0,
     repeat_timer = timer_cleared, queue_mutex = True, queue_signal = True, input_generation = 0,
     held_binding = demo_key TABOS_INPUT_TEXT 0, power_keys = [], power_held_count = 0,
     power_unknown_held_count = 0, power_activity_pending = False, input_log = []\<rparr>"

lemma demo_input_ok: "input_ok demo_input" "queue_mutex demo_input" "input_contents demo_input = []"
  unfolding demo_input_def by (rule clear_input_ok, simp)
    (simp_all add: clear_input_def input_contents_nil)

text \<open>
  C20. The event queue is a bounded FIFO that prefers new events: after any submissions, at any
  times, polling delivers in order the newest 64 of the events that were pending and those
  submitted, each bound to its logical key, and the generation has advanced once per lost event.
\<close>
theorem input_queue_newest:
  fixes es :: "(tabos_input_event \<times> u64) list"
  assumes "input_ok st" and "queue_mutex st" and "\<forall>(event, now) \<in> set es. \<not> ev_repeat event"
  defines "lost \<equiv> queue_count st + length es - INPUT_QUEUE_CAPACITY"
    and "st' \<equiv> input_run (map (\<lambda>(event, now). (Submit (Some event), now)) es) st"
  shows "map unstamped (fst (input_drain n st')) = take n (drop lost
      (map unstamped (input_contents st) @ map (\<lambda>(event, now). unstamped (bind_logical event)) es)) \<and>
    input_generation st' = input_generation st + of_nat lost"
proof -
  note c = submits_contents [OF assms(1-3), folded st'_def lost_def]
  have "input_ok st'" unfolding st'_def by (rule input_run_ok [OF assms(1)])
  with c have "fst (input_drain n st') = take n (input_contents st')"
    by (intro input_drain_contents) blast+
  with c show ?thesis by (simp add: take_map [symmetric])
qed

theorem input_queue_newest_witness:
  "map ev_logical_key (fst (input_drain 5 (input_run
     [(Submit (Some (demo_key TABOS_INPUT_KEY_DOWN 4)), 10), (Submit (Some (demo_key TABOS_INPUT_KEY_UP 4)), 60)]
     demo_input))) = [4, 4]"
proof -
  let ?es = "[(demo_key TABOS_INPUT_KEY_DOWN 4, 10), (demo_key TABOS_INPUT_KEY_UP 4, 60)] :: (tabos_input_event \<times> u64) list"
  let ?r = "fst (input_drain 5 (input_run (map (\<lambda>(event, now). (Submit (Some event), now)) ?es) demo_input))"
  have "queue_count demo_input = 0" using demo_input_ok(3) by (simp add: input_contents_nil)
  then have "map unstamped ?r =
      [unstamped (bind_logical (demo_key TABOS_INPUT_KEY_DOWN 4)),
       unstamped (bind_logical (demo_key TABOS_INPUT_KEY_UP 4))]"
    using input_queue_newest [OF demo_input_ok(1,2), of ?es 5]
    by (simp add: demo_input_ok(3) demo_key_def INPUT_QUEUE_CAPACITY_def)
  then have "map ev_logical_key (map unstamped ?r) = [4, 4]"
    by (simp only:) (simp add: unstamped_def bind_logical_def demo_key_def key_defs)
  then show ?thesis by (simp add: unstamped_def comp_def)
qed

text \<open>
  The power service learns the truth about the keyboard: after a successful start and any
  calls, the table of pressed keys says for each named key whether the last key event that named
  it was a key down, and the answer to the power service is true exactly when some named key is
  pressed or an unnamed one is.
\<close>
theorem input_power_truth:
  assumes "length (event_queue st) = INPUT_QUEUE_CAPACITY" and "input_init mutex signal st = (True, st0)"
  shows "let st' = input_run calls st0
    in (\<forall>k. TABOS_KEY_UNKNOWN < k \<and> k \<le> TABOS_KEY_SYM \<longrightarrow>
          power_keys st' ! k = fold (key_after k) (map fst calls) False) \<and>
       fst (snd (input_take_power_activity True st')) =
         Some (True \<in> set (power_keys st') \<or> power_unknown_held_count st' \<noteq> 0) \<and>
       fst (snd (input_get_state True False st')) = Some (input_generation st', power_keys st')"
proof -
  let ?st = "input_run calls st0"
  have st0: "input_ok st0" "queue_mutex st0" using input_init_ok [OF assms] by simp_all
  have ok: "input_ok ?st" by (rule input_run_ok [OF st0(1)])
  have mutex: "queue_mutex ?st"
    using input_run_key [OF st0, of 1] by (simp add: key_defs)
  have "power_keys st0 = replicate INPUT_POWER_KEY_LIMIT False"
    using assms(2) by (auto simp: input_init_def Let_def clear_input_def split: if_splits)
  then have "power_keys st0 ! k = False" if "k \<le> TABOS_KEY_SYM" for k
    using that nth_replicate [of k INPUT_POWER_KEY_LIMIT False] by (simp add: INPUT_POWER_KEY_LIMIT_def)
  then show ?thesis
    using input_run_key [OF st0] held_count_zero [OF ok] mutex
    by (simp add: Let_def input_take_power_activity_def input_get_state_def)
qed

theorem input_power_truth_witness:
  "power_keys (input_run [(Submit (Some (demo_key TABOS_INPUT_KEY_DOWN 4)), 10)]
     (snd (input_init True True demo_input))) ! 4"
proof -
  have "input_init True True demo_input = (True, snd (input_init True True demo_input))"
    by (simp add: input_init_def demo_input_def clear_input_def Let_def)
  moreover have "length (event_queue demo_input) = INPUT_QUEUE_CAPACITY"
    using demo_input_ok(1) by (simp add: input_ok_def)
  ultimately show ?thesis
    using input_power_truth [of demo_input True True _ "[(Submit (Some (demo_key TABOS_INPUT_KEY_DOWN 4)), 10)]"]
    by (simp add: Let_def key_defs demo_key_def)
qed

text \<open>
  A held key repeats on time: after a key down at \<open>t\<close> nothing repeats before the delay has
  passed, and the service asks to be woken at exactly that deadline; once it has passed, an update
  appends the repeated key with its logical binding, and the key's text if it has one; and after
  the key is released no update emits anything and no deadline is pending.
\<close>
theorem input_repeat_timing:
  fixes t :: u64
  assumes "input_ok st" and "queue_mutex st" and "\<not> ev_repeat event"
    and "ev_type event = TABOS_INPUT_KEY_DOWN" and "TABOS_KEY_UNKNOWN < ev_key event"
    and "\<not> modifier_key (ev_key event)" and "\<not> ev_repeat release"
    and "ev_type release = TABOS_INPUT_KEY_UP" and "ev_key release = ev_key event"
  defines "down \<equiv> snd (input_submit t (Some event) st)"
    and "deadline \<equiv> time_deadline_after t TABOS_KEY_REPEAT_DELAY_MS"
  shows "input_next_deadline down = deadline \<and>
    (now < deadline \<longrightarrow> input_update now down = down) \<and>
    (deadline \<le> now \<longrightarrow> (\<exists>old. map unstamped (input_contents (input_update now down)) = old @
      repeat_key_event down # (if held_text down = [] then [] else [repeat_text_event down]))) \<and>
    (let up = snd (input_submit t' (Some release) down)
     in input_next_deadline up = TIME_DEADLINE_NONE \<and> input_update now up = up)"
proof -
  have d: "held_key down = ev_key event" "queue_mutex down"
    "repeat_timer down = timer_started t TABOS_KEY_REPEAT_DELAY_MS TABOS_KEY_REPEAT_INTERVAL_MS"
    using submit_down_repeat [OF assms(2-4,6), of t] by (simp_all add: down_def)
  have ok: "input_ok down"
    using input_step_ok [OF assms(1), of "Submit (Some event)" t] by (simp add: down_def)
  have held: "held_key down \<noteq> TABOS_KEY_UNKNOWN" using assms(5) d(1) by simp
  have 1: "input_next_deadline down = deadline"
    using d held by (simp add: input_next_deadline_def timer_deadline_def timer_started_def deadline_def)
  have 2: "input_update now down = down" if "now < deadline"
  proof -
    have "timer_polled now (repeat_timer down) = (False, repeat_timer down)"
      using that by (simp add: d(3) deadline_def timer_started_after)
    with d(2) held show ?thesis by (simp add: input_update_def)
  qed
  have 3: "\<exists>old. map unstamped (input_contents (input_update now down)) = old @
      repeat_key_event down # (if held_text down = [] then [] else [repeat_text_event down])"
    if "deadline \<le> now"
  proof -
    have "fst (timer_polled now (repeat_timer down))"
      using that by (intro timer_polled_due) (simp_all add: d(3) deadline_def timer_started_def)
    then obtain timer where "timer_polled now (repeat_timer down) = (True, timer)"
      by (cases "timer_polled now (repeat_timer down)") simp
    from input_update_due [OF ok d(2) held this] show ?thesis
      using input_ok_count [OF ok] by (auto simp: INPUT_QUEUE_CAPACITY_def)
  qed
  have "held_key (snd (input_submit t' (Some release) down)) = TABOS_KEY_UNKNOWN"
    using submit_up_repeat [OF d(2) assms(7,8), of t'] assms(9) d(1) by simp
  then have 4: "input_next_deadline (snd (input_submit t' (Some release) down)) = TIME_DEADLINE_NONE \<and>
      input_update now (snd (input_submit t' (Some release) down)) = snd (input_submit t' (Some release) down)"
    by (simp add: input_next_deadline_def input_update_def)
  from 1 2 3 4 show ?thesis by (simp add: Let_def)
qed

theorem input_repeat_timing_witness:
  "input_next_deadline (snd (input_submit 1000 (Some (demo_key TABOS_INPUT_KEY_DOWN 4)) demo_input)) = 1400"
proof -
  have "input_next_deadline (snd (input_submit 1000 (Some (demo_key TABOS_INPUT_KEY_DOWN 4)) demo_input)) =
      time_deadline_after 1000 TABOS_KEY_REPEAT_DELAY_MS"
    using input_repeat_timing [OF demo_input_ok(1,2), of "demo_key TABOS_INPUT_KEY_DOWN 4"
        "demo_key TABOS_INPUT_KEY_UP 4" 1000]
    by (simp add: demo_key_def key_defs modifier_key_def)
  also have "time_deadline_after 1000 TABOS_KEY_REPEAT_DELAY_MS = 1400"
    by (simp add: time_deadline_after_def TABOS_KEY_REPEAT_DELAY_MS_def TIME_DEADLINE_LATEST_def
        TIME_DEADLINE_NONE_def)
  finally show ?thesis .
qed

end
