(* ===== verification/Pointer.thy ===== *)
theory Pointer
  imports RingBuffer HandleTable
begin

unbundle bit_operations_syntax

text \<open>
  The pointer service of \<^verbatim>\<open>pointer/pointer.c\<close>: streams of touch events that belong to an owner, of
  which only the foreground owner's receive events; a full or a suspended stream is emptied and
  its contacts are cancelled. Owners are addresses, 0 for NULL. Every function that takes the
  pointer lock is one step; the mutex exists exactly while the service is initialized.
\<close>

section \<open>Events, streams and state\<close>

datatype tabos_pointer_event_type =
    TABOS_POINTER_DOWN
  | TABOS_POINTER_MOVE
  | TABOS_POINTER_UP
  | TABOS_POINTER_CANCEL

record tabos_pointer_event =
  pe_type :: tabos_pointer_event_type
  pe_device_id :: u32
  pe_contact_id :: nat
  pe_x :: int
  pe_y :: int
  pe_buttons :: u32
  pe_pressure :: u32
  pe_flags :: u32

definition POINTER_STREAM_CAPACITY :: nat where "POINTER_STREAM_CAPACITY = 8"
definition POINTER_STREAM_INDEX_BITS :: nat where "POINTER_STREAM_INDEX_BITS = 3"
definition POINTER_STREAM_INDEX_MASK :: u32 where "POINTER_STREAM_INDEX_MASK = 7"
definition POINTER_STREAM_GENERATION_MAX :: u32 where "POINTER_STREAM_GENERATION_MAX = 0x0FFFFFFF"
definition POINTER_QUEUE_CAPACITY :: nat where "POINTER_QUEUE_CAPACITY = 64"
definition TABOS_POINTER_MAX_CONTACTS :: nat where "TABOS_POINTER_MAX_CONTACTS = 5"
definition TABOS_DISPLAY_WIDTH :: int where "TABOS_DISPLAY_WIDTH = 1280"
definition TABOS_DISPLAY_HEIGHT :: int where "TABOS_DISPLAY_HEIGHT = 720"
definition TABOS_DEVICE_ID_INVALID :: u32 where "TABOS_DEVICE_ID_INVALID = 0xFFFFFFFF"
definition TABOS_WAIT_READABLE :: u32 where "TABOS_WAIT_READABLE = 1"
definition TABOS_WAIT_HANGUP :: u32 where "TABOS_WAIT_HANGUP = 16"

definition pointer_event_zero :: tabos_pointer_event where
  "pointer_event_zero = \<lparr>pe_type = TABOS_POINTER_DOWN, pe_device_id = 0, pe_contact_id = 0,
     pe_x = 0, pe_y = 0, pe_buttons = 0, pe_pressure = 0, pe_flags = 0\<rparr>"

record pointer_stream =
  ps_owner :: nat
  ps_queue :: "tabos_pointer_event list"
  ps_contacts :: "bool list"
  ps_contact_x :: "int list"
  ps_contact_y :: "int list"
  ps_generation :: u32
  ps_head :: nat
  ps_count :: nat
  ps_open :: bool
  ps_hangup :: bool

definition stream_zero :: pointer_stream where
  "stream_zero = \<lparr>ps_owner = 0, ps_queue = replicate POINTER_QUEUE_CAPACITY pointer_event_zero,
     ps_contacts = replicate TABOS_POINTER_MAX_CONTACTS False,
     ps_contact_x = replicate TABOS_POINTER_MAX_CONTACTS 0,
     ps_contact_y = replicate TABOS_POINTER_MAX_CONTACTS 0,
     ps_generation = 0, ps_head = 0, ps_count = 0, ps_open = False, ps_hangup = False\<rparr>"

record pointer_state =
  streams :: "pointer_stream list"
  foreground_owner :: nat
  pointer_driver :: "string option"
  pointer_device_id :: u32
  pointer_error :: int
  detected :: bool
  pointer_initialized :: bool
  power_contacts :: "bool list"
  pointer_activity_pending :: bool
  pointer_log :: "platform_call list"

section \<open>Handles\<close>

definition stream_handle :: "nat \<Rightarrow> u32 \<Rightarrow> int" where
  "stream_handle index generation =
     sint (push_bit POINTER_STREAM_INDEX_BITS generation OR word_of_nat index)"

text \<open>The open stream that a handle names, whoever owns it.\<close>

definition stream_for_handle :: "pointer_stream list \<Rightarrow> int \<Rightarrow> nat option" where
  "stream_for_handle ss handle =
     (if handle \<le> 0 then None
      else
        (let value = word_of_int handle :: u32;
             index = unat (value AND POINTER_STREAM_INDEX_MASK);
             generation = drop_bit POINTER_STREAM_INDEX_BITS value;
             stream = ss ! index
         in if \<not> ps_open stream \<or> ps_generation stream \<noteq> generation then None else Some index))"

definition owned_stream :: "nat \<Rightarrow> int \<Rightarrow> pointer_stream list \<Rightarrow> nat option" where
  "owned_stream owner handle ss =
     (if owner = 0 \<or> handle \<le> 0 then None
      else
        (case stream_for_handle ss handle of
           None \<Rightarrow> None
         | Some index \<Rightarrow> (if ps_owner (ss ! index) \<noteq> owner then None else Some index)))"

section \<open>Queues and contacts\<close>

definition enqueue :: "tabos_pointer_event \<Rightarrow> pointer_stream \<Rightarrow> pointer_stream" where
  "enqueue event stream =
     stream\<lparr>ps_queue := (ps_queue stream)[(ps_head stream + ps_count stream) mod POINTER_QUEUE_CAPACITY := event],
            ps_count := ps_count stream + 1\<rparr>"

fun cancel_from :: "u32 \<Rightarrow> nat list \<Rightarrow> pointer_stream \<Rightarrow> pointer_stream" where
  "cancel_from device_id [] stream = stream"
| "cancel_from device_id (contact # rest) stream =
     cancel_from device_id rest
       (if \<not> ps_contacts stream ! contact then stream
        else
          (let cancel = pointer_event_zero\<lparr>pe_type := TABOS_POINTER_CANCEL, pe_device_id := device_id,
                 pe_contact_id := contact, pe_x := ps_contact_x stream ! contact,
                 pe_y := ps_contact_y stream ! contact\<rparr>;
               stream = enqueue cancel stream
           in stream\<lparr>ps_contacts := (ps_contacts stream)[contact := False]\<rparr>))"

definition cancel_contacts :: "u32 \<Rightarrow> pointer_stream \<Rightarrow> pointer_stream" where
  "cancel_contacts device_id stream =
     cancel_from device_id [0..<TABOS_POINTER_MAX_CONTACTS] (stream\<lparr>ps_head := 0, ps_count := 0\<rparr>)"

section \<open>Start, stop and configuration\<close>

text \<open>\<open>mutex\<close>: the platform can create the mutex; \<open>probe\<close>: what the platform driver found.\<close>

definition pointer_service_init ::
    "bool \<Rightarrow> bool \<times> string option \<times> int \<Rightarrow> pointer_state \<Rightarrow> bool \<times> pointer_state" where
  "pointer_service_init mutex probe st =
     (if pointer_initialized st then (True, st)
      else
        (let st = st\<lparr>streams := replicate POINTER_STREAM_CAPACITY stream_zero,
                     power_contacts := replicate TABOS_POINTER_MAX_CONTACTS False,
                     pointer_activity_pending := False\<rparr>
         in if \<not> mutex then (False, st)
            else
              (case probe of (found, driver, error) \<Rightarrow>
                 (True, st\<lparr>pointer_initialized := True, pointer_driver := driver,
                           pointer_error := error, detected := found\<rparr>))))"

definition pointer_service_shutdown :: "pointer_state \<Rightarrow> pointer_state" where
  "pointer_service_shutdown st =
     (if \<not> pointer_initialized st then st
      else
        st\<lparr>streams := replicate POINTER_STREAM_CAPACITY stream_zero,
           power_contacts := replicate TABOS_POINTER_MAX_CONTACTS False, pointer_activity_pending := False,
           foreground_owner := 0, pointer_driver := None, pointer_device_id := TABOS_DEVICE_ID_INVALID,
           pointer_error := 0, detected := False, pointer_initialized := False\<rparr>)"

definition pointer_service_info :: "pointer_state \<Rightarrow> (string option \<times> int) option" where
  "pointer_service_info st =
     (if \<not> pointer_initialized st \<or> \<not> detected st then None
      else Some (pointer_driver st, pointer_error st))"

definition pointer_service_set_device_id :: "u32 \<Rightarrow> pointer_state \<Rightarrow> pointer_state" where
  "pointer_service_set_device_id device_id st =
     (if \<not> pointer_initialized st then st else st\<lparr>pointer_device_id := device_id\<rparr>)"

definition pointer_service_set_foreground_owner :: "nat \<Rightarrow> pointer_state \<Rightarrow> pointer_state" where
  "pointer_service_set_foreground_owner owner st =
     (if \<not> pointer_initialized st then st
      else if foreground_owner st \<noteq> owner then
        st\<lparr>streams := map (\<lambda>stream. if ps_open stream \<and> ps_owner stream = foreground_owner st
             then cancel_contacts (pointer_device_id st) stream else stream) (streams st),
           foreground_owner := owner\<rparr>
      else st)"

section \<open>Streams\<close>

definition pointer_service_open :: "nat \<Rightarrow> u32 \<Rightarrow> pointer_state \<Rightarrow> int \<times> pointer_state" where
  "pointer_service_open owner device_id st =
     (if \<not> pointer_initialized st \<or> \<not> detected st \<or> pointer_error st \<noteq> 0 then (- ENODEV, st)
      else if owner = 0 \<or> device_id = TABOS_DEVICE_ID_INVALID \<or> device_id \<noteq> pointer_device_id st
      then (- EINVAL, st)
      else
        (let index = length (takeWhile ps_open (streams st))
         in if index = length (streams st) then (- EMFILE, st)
            else
              (let generation = bounded_generation POINTER_STREAM_GENERATION_MAX (ps_generation (streams st ! index))
               in (stream_handle index generation,
                   st\<lparr>streams := (streams st)[index :=
                     stream_zero\<lparr>ps_owner := owner, ps_generation := generation, ps_open := True\<rparr>]\<rparr>))))"

definition pointer_service_close :: "nat \<Rightarrow> int \<Rightarrow> pointer_state \<Rightarrow> int \<times> pointer_state" where
  "pointer_service_close owner handle st =
     (if \<not> pointer_initialized st then (- EBADF, st)
      else
        (case owned_stream owner handle (streams st) of
           None \<Rightarrow> (- EBADF, st)
         | Some index \<Rightarrow>
             (0, st\<lparr>streams := (streams st)[index :=
                stream_zero\<lparr>ps_generation := ps_generation (streams st ! index)\<rparr>]\<rparr>)))"

definition pointer_service_read ::
    "nat \<Rightarrow> int \<Rightarrow> bool \<Rightarrow> pointer_state \<Rightarrow> int \<times> tabos_pointer_event option \<times> pointer_state" where
  "pointer_service_read owner handle event st =
     (if \<not> pointer_initialized st \<or> \<not> event then (- EINVAL, None, st)
      else
        (case owned_stream owner handle (streams st) of
           None \<Rightarrow> (- EBADF, None, st)
         | Some index \<Rightarrow>
             (let stream = streams st ! index
              in if owner \<noteq> foreground_owner st then (- EACCES, None, st)
                 else if ps_count stream = 0 then (if ps_hangup stream then - ENODEV else - EAGAIN, None, st)
                 else
                   (0, Some (ps_queue stream ! ps_head stream),
                    st\<lparr>streams := (streams st)[index :=
                      stream\<lparr>ps_head := (ps_head stream + 1) mod POINTER_QUEUE_CAPACITY,
                             ps_count := ps_count stream - 1\<rparr>]\<rparr>))))"

definition pointer_service_poll :: "nat \<Rightarrow> int \<Rightarrow> u32 \<Rightarrow> bool \<Rightarrow> pointer_state \<Rightarrow> int \<times> u32 option" where
  "pointer_service_poll owner handle requested_events returned_events st =
     (if \<not> pointer_initialized st \<or> \<not> returned_events then (- EINVAL, None)
      else
        (case owned_stream owner handle (streams st) of
           None \<Rightarrow> (- EBADF, None)
         | Some index \<Rightarrow>
             (let stream = streams st ! index;
                  result = 0;
                  result = (if owner = foreground_owner st \<and> 0 < ps_count stream \<and>
                      requested_events AND TABOS_WAIT_READABLE \<noteq> 0
                    then result OR TABOS_WAIT_READABLE else result);
                  result = (if ps_hangup stream \<and> requested_events AND TABOS_WAIT_HANGUP \<noteq> 0
                    then result OR TABOS_WAIT_HANGUP else result)
              in (0, Some result))))"

definition pointer_service_close_owner :: "nat \<Rightarrow> pointer_state \<Rightarrow> pointer_state" where
  "pointer_service_close_owner owner st =
     (if \<not> pointer_initialized st \<or> owner = 0 then st
      else
        (let st = st\<lparr>streams := map (\<lambda>stream. if ps_open stream \<and> ps_owner stream = owner
               then stream_zero\<lparr>ps_generation := ps_generation stream\<rparr> else stream) (streams st)\<rparr>
         in if foreground_owner st = owner then st\<lparr>foreground_owner := 0\<rparr> else st))"

section \<open>Events from the device\<close>

definition pointer_service_take_power_activity :: "bool \<Rightarrow> pointer_state \<Rightarrow> bool \<times> bool option \<times> pointer_state" where
  "pointer_service_take_power_activity contact_active st =
     (if \<not> pointer_initialized st \<or> \<not> contact_active then (False, None, st)
      else (pointer_activity_pending st, Some (True \<in> set (power_contacts st)),
            st\<lparr>pointer_activity_pending := False\<rparr>))"

definition pointer_service_record_movement :: "pointer_state \<Rightarrow> pointer_state" where
  "pointer_service_record_movement st =
     (if \<not> pointer_initialized st then st else st\<lparr>pointer_activity_pending := True\<rparr>)"

definition deliver_event :: "nat \<Rightarrow> u32 \<Rightarrow> tabos_pointer_event \<Rightarrow> pointer_stream \<Rightarrow> pointer_stream" where
  "deliver_event foreground device_id event stream =
     (if \<not> ps_open stream \<or> ps_owner stream \<noteq> foreground \<or> ps_hangup stream then stream
      else
        (let stream = (if ps_count stream = POINTER_QUEUE_CAPACITY then cancel_contacts device_id stream else stream);
             stream = enqueue (event\<lparr>pe_device_id := device_id\<rparr>) stream;
             contact = pe_contact_id event
         in if pe_type event = TABOS_POINTER_DOWN \<or> pe_type event = TABOS_POINTER_MOVE
            then stream\<lparr>ps_contacts := (ps_contacts stream)[contact := True],
                        ps_contact_x := (ps_contact_x stream)[contact := pe_x event],
                        ps_contact_y := (ps_contact_y stream)[contact := pe_y event]\<rparr>
            else stream\<lparr>ps_contacts := (ps_contacts stream)[contact := False]\<rparr>))"

definition pointer_service_submit :: "tabos_pointer_event option \<Rightarrow> pointer_state \<Rightarrow> pointer_state" where
  "pointer_service_submit event st =
     (case event of
        None \<Rightarrow> st
      | Some event \<Rightarrow>
          (if \<not> pointer_initialized st \<or> TABOS_POINTER_MAX_CONTACTS \<le> pe_contact_id event \<or>
              pe_x event < 0 \<or> pe_y event < 0 \<or> TABOS_DISPLAY_WIDTH \<le> pe_x event \<or>
              TABOS_DISPLAY_HEIGHT \<le> pe_y event
           then st
           else
             (let st = (if pe_type event = TABOS_POINTER_DOWN
                  then st\<lparr>power_contacts := (power_contacts st)[pe_contact_id event := True]\<rparr>
                  else if pe_type event = TABOS_POINTER_UP \<or> pe_type event = TABOS_POINTER_CANCEL
                  then st\<lparr>power_contacts := (power_contacts st)[pe_contact_id event := False]\<rparr>
                  else st);
                  st = st\<lparr>pointer_activity_pending :=
                    (pointer_activity_pending st \<or> pe_type event \<noteq> TABOS_POINTER_CANCEL)\<rparr>
              in st\<lparr>streams := map (deliver_event (foreground_owner st) (pointer_device_id st) event) (streams st)\<rparr>)))"

definition pointer_service_remove_device :: "pointer_state \<Rightarrow> pointer_state" where
  "pointer_service_remove_device st =
     (if \<not> pointer_initialized st then st
      else
        st\<lparr>power_contacts := replicate TABOS_POINTER_MAX_CONTACTS False,
           streams := map (\<lambda>stream. if ps_open stream
             then (cancel_contacts (pointer_device_id st) stream)\<lparr>ps_hangup := True\<rparr> else stream) (streams st),
           detected := False,
           pointer_log := pointer_log st @ [Notify (RUNTIME_EVENT_POINTER + RUNTIME_EVENT_DEVICE)]\<rparr>)"

section \<open>Handles keep the contract of a table\<close>

definition open_stream :: "nat \<Rightarrow> pointer_stream \<Rightarrow> pointer_stream" where
  "open_stream owner stream =
     stream_zero\<lparr>ps_owner := owner,
       ps_generation := bounded_generation POINTER_STREAM_GENERATION_MAX (ps_generation stream), ps_open := True\<rparr>"

definition close_stream :: "pointer_stream \<Rightarrow> pointer_stream" where
  "close_stream stream = stream_zero\<lparr>ps_generation := ps_generation stream\<rparr>"

definition pointer_generation_ok :: "u32 \<Rightarrow> bool" where
  "pointer_generation_ok g \<longleftrightarrow> 0 < g \<and> g \<le> POINTER_STREAM_GENERATION_MAX"

lemma pointer_generation_max: "unat POINTER_STREAM_GENERATION_MAX = 268435455"
  by (simp add: POINTER_STREAM_GENERATION_MAX_def)

lemma stream_handle_layout:
  assumes "n < 8" and "pointer_generation_ok g"
  defines "h \<equiv> stream_handle n g"
  shows "0 < h" and "unat ((word_of_int h :: u32) AND POINTER_STREAM_INDEX_MASK) = n"
    and "drop_bit POINTER_STREAM_INDEX_BITS (word_of_int h :: u32) = g"
proof -
  have g: "0 < unat g" "unat g < 2 ^ (31 - 3)"
    using assms(2) pointer_generation_max
    by (simp_all add: pointer_generation_ok_def word_le_nat_alt word_less_nat_alt)
  have n: "n < 2 ^ 3" using assms(1) by simp
  have b: "3 \<le> (31::nat)" by simp
  note l = handle_layout_signed [OF n g(2) b]
  have w: "(word_of_int h :: u32) = push_bit 3 g OR word_of_nat n"
    by (simp add: h_def stream_handle_def POINTER_STREAM_INDEX_BITS_def)
  have m: "POINTER_STREAM_INDEX_MASK = mask 3"
    by (simp add: POINTER_STREAM_INDEX_MASK_def mask_eq_exp_minus_1)
  have "h = int (2 ^ 3 * unat g + n)"
    using l(3) by (simp only: h_def stream_handle_def POINTER_STREAM_INDEX_BITS_def)
  moreover have "0 < 2 ^ 3 * unat g + n" using g(1) by simp
  ultimately show "0 < h" by (simp only: of_nat_0_less_iff)
  have "unat (word_of_nat n :: u32) = n"
    using assms(1) by (simp add: unsigned_of_nat take_bit_nat_eq_self)
  then show "unat ((word_of_int h :: u32) AND POINTER_STREAM_INDEX_MASK) = n"
    using l(1) by (simp add: w m)
  show "drop_bit POINTER_STREAM_INDEX_BITS (word_of_int h :: u32) = g"
    using l(2) by (simp add: w POINTER_STREAM_INDEX_BITS_def)
qed

lemma stream_for_encoded:
  assumes "i < 8" and "pointer_generation_ok g"
  shows "stream_for_handle ss (stream_handle i g) =
    (if ps_open (ss ! i) \<and> ps_generation (ss ! i) = g then Some i else None)"
  using stream_handle_layout [OF assms]
  unfolding stream_for_handle_def Let_def by simp

lemma stream_for_handle_open:
  assumes "stream_for_handle ss handle = Some i" and "length ss = 8"
  shows "i < length ss \<and> ps_open (ss ! i)"
proof -
  let ?w = "(word_of_int handle :: u32) AND POINTER_STREAM_INDEX_MASK"
  have "i = unat ?w" "ps_open (ss ! i)"
    using assms(1) by (auto simp: stream_for_handle_def Let_def split: if_splits)
  moreover have "?w = take_bit 3 (word_of_int handle)"
    by (simp add: POINTER_STREAM_INDEX_MASK_def take_bit_eq_mask mask_eq_exp_minus_1)
  then have "unat ?w = take_bit 3 (unat (word_of_int handle :: u32))"
    by (simp only: unsigned_take_bit_eq)
  then have "unat ?w < 2 ^ 3" using take_bit_nat_less_exp by metis
  ultimately show ?thesis using assms(2) by simp
qed

interpretation stream_table: handle_table ps_open ps_generation
  "bounded_generation POINTER_STREAM_GENERATION_MAX" pointer_generation_ok
  "unat POINTER_STREAM_GENERATION_MAX" stream_handle stream_for_handle open_stream close_stream
  "\<lambda>n. n = POINTER_STREAM_CAPACITY"
proof unfold_locales
  fix g k
  show "pointer_generation_ok g \<Longrightarrow> 0 < k \<Longrightarrow> k < unat POINTER_STREAM_GENERATION_MAX \<Longrightarrow>
      (bounded_generation POINTER_STREAM_GENERATION_MAX ^^ k) g \<noteq> g"
    using bounded_generation_pow_neq pointer_generation_max by (simp add: pointer_generation_ok_def)
next
  fix g
  show "pointer_generation_ok (bounded_generation POINTER_STREAM_GENERATION_MAX g)"
    unfolding pointer_generation_ok_def
    by (rule bounded_generation_range) (simp add: POINTER_STREAM_GENERATION_MAX_def)
qed (auto simp: POINTER_STREAM_CAPACITY_def stream_for_encoded stream_handle_layout open_stream_def
    close_stream_def stream_zero_def dest: stream_for_handle_open)

section \<open>Streams are bounded queues\<close>

definition stream_contents :: "pointer_stream \<Rightarrow> tabos_pointer_event list" where
  "stream_contents stream = ring_contents (ps_queue stream) (ps_head stream) (ps_count stream)"

definition stream_shape :: "pointer_stream \<Rightarrow> bool" where
  "stream_shape stream \<longleftrightarrow> length (ps_queue stream) = POINTER_QUEUE_CAPACITY \<and>
     ps_head stream < POINTER_QUEUE_CAPACITY \<and> ps_count stream \<le> POINTER_QUEUE_CAPACITY \<and>
     length (ps_contacts stream) = TABOS_POINTER_MAX_CONTACTS"

definition pop_stream :: "pointer_stream \<Rightarrow> pointer_stream" where
  "pop_stream stream = stream\<lparr>ps_head := (ps_head stream + 1) mod POINTER_QUEUE_CAPACITY,
     ps_count := ps_count stream - 1\<rparr>"

lemma stream_contents_length [simp]: "length (stream_contents stream) = ps_count stream"
  by (simp add: stream_contents_def)

lemma stream_contents_nil: "stream_contents stream = [] \<longleftrightarrow> ps_count stream = 0"
  by (metis stream_contents_length length_0_conv)

lemma pointer_capacity_pos [simp]: "0 < POINTER_QUEUE_CAPACITY"
  by (simp add: POINTER_QUEUE_CAPACITY_def)

lemma enqueue_contents:
  assumes "stream_shape stream" and "ps_count stream < POINTER_QUEUE_CAPACITY"
  shows "stream_contents (enqueue event stream) = stream_contents stream @ [event]"
  using assms ring_push [of "ps_count stream" "ps_queue stream" "ps_head stream" event]
  by (simp add: stream_contents_def enqueue_def stream_shape_def)

lemma pop_stream_contents:
  assumes "stream_shape stream" and "ps_count stream \<noteq> 0"
  shows "stream_contents stream = ps_queue stream ! ps_head stream # stream_contents (pop_stream stream)"
  using assms ring_pop [of "ps_count stream" "ps_queue stream" "ps_head stream"]
  by (simp add: stream_contents_def pop_stream_def stream_shape_def)

lemma enqueue_shape:
  "stream_shape stream \<Longrightarrow> ps_count stream < POINTER_QUEUE_CAPACITY \<Longrightarrow> stream_shape (enqueue event stream)"
  by (simp add: stream_shape_def enqueue_def)

lemma pop_stream_shape: "stream_shape stream \<Longrightarrow> stream_shape (pop_stream stream)"
  by (auto simp: stream_shape_def pop_stream_def)

interpretation pointer_queue: fifo_queue stream_shape stream_contents POINTER_QUEUE_CAPACITY enqueue
  "\<lambda>event. event" "\<lambda>stream. ps_queue stream ! ps_head stream" pop_stream
  by unfold_locales
    (auto simp: enqueue_contents enqueue_shape pop_stream_shape pop_stream_contents stream_contents_nil,
     simp add: stream_shape_def)

section \<open>Cancelling contacts\<close>

definition cancel_event :: "u32 \<Rightarrow> pointer_stream \<Rightarrow> nat \<Rightarrow> tabos_pointer_event" where
  "cancel_event device_id stream contact = pointer_event_zero\<lparr>pe_type := TABOS_POINTER_CANCEL,
     pe_device_id := device_id, pe_contact_id := contact, pe_x := ps_contact_x stream ! contact,
     pe_y := ps_contact_y stream ! contact\<rparr>"

lemma enqueue_fields [simp]:
  "ps_contacts (enqueue e s) = ps_contacts s" "ps_contact_x (enqueue e s) = ps_contact_x s"
  "ps_contact_y (enqueue e s) = ps_contact_y s" "ps_open (enqueue e s) = ps_open s"
  "ps_owner (enqueue e s) = ps_owner s" "ps_generation (enqueue e s) = ps_generation s"
  "ps_hangup (enqueue e s) = ps_hangup s" "ps_count (enqueue e s) = ps_count s + 1"
  by (simp_all add: enqueue_def)

lemma cancel_from_fields [simp]:
  "ps_contact_x (cancel_from d cs s) = ps_contact_x s" "ps_contact_y (cancel_from d cs s) = ps_contact_y s"
  "ps_open (cancel_from d cs s) = ps_open s" "ps_owner (cancel_from d cs s) = ps_owner s"
  "ps_generation (cancel_from d cs s) = ps_generation s" "ps_hangup (cancel_from d cs s) = ps_hangup s"
  by (induction cs arbitrary: s) (auto simp: Let_def)

lemma stream_contents_contacts [simp]: "stream_contents (s\<lparr>ps_contacts := c\<rparr>) = stream_contents s"
  by (simp add: stream_contents_def)

lemma cancel_from_contents:
  assumes "stream_shape s" and "distinct cs" and "\<forall>c \<in> set cs. c < TABOS_POINTER_MAX_CONTACTS"
    and "ps_count s + length cs \<le> POINTER_QUEUE_CAPACITY"
  shows "stream_contents (cancel_from d cs s) =
      stream_contents s @ map (cancel_event d s) (filter (\<lambda>c. ps_contacts s ! c) cs) \<and>
    stream_shape (cancel_from d cs s) \<and>
    (\<forall>c < TABOS_POINTER_MAX_CONTACTS. ps_contacts (cancel_from d cs s) ! c = (ps_contacts s ! c \<and> c \<notin> set cs))"
  using assms
proof (induction cs arbitrary: s)
  case (Cons c cs)
  show ?case
  proof (cases "ps_contacts s ! c")
    case False
    then show ?thesis using Cons.IH [of s] Cons.prems by auto
  next
    case True
    let ?s = "(enqueue (cancel_event d s c) s)\<lparr>ps_contacts := (ps_contacts s)[c := False]\<rparr>"
    have step: "cancel_from d (c # cs) s = cancel_from d cs ?s"
      using True by (simp add: cancel_event_def Let_def)
    have room: "ps_count s < POINTER_QUEUE_CAPACITY" using Cons.prems(4) by simp
    have shape: "stream_shape ?s"
      using enqueue_shape [OF Cons.prems(1) room, of "cancel_event d s c"] by (simp add: stream_shape_def)
    have "filter (\<lambda>c'. ps_contacts ?s ! c') cs = filter (\<lambda>c'. ps_contacts s ! c') cs"
    proof (rule filter_cong)
      fix x assume "x \<in> set cs"
      then have "c \<noteq> x" using Cons.prems(2) by auto
      then show "(ps_contacts ?s ! x) = (ps_contacts s ! x)" by simp
    qed simp
    moreover have "cancel_event d ?s = cancel_event d s" by (intro ext) (simp add: cancel_event_def)
    moreover have "stream_contents ?s = stream_contents s @ [cancel_event d s c]"
      using enqueue_contents [OF Cons.prems(1) room] by simp
    moreover have "length (ps_contacts s) = TABOS_POINTER_MAX_CONTACTS"
      using Cons.prems(1) by (simp add: stream_shape_def)
    ultimately show ?thesis
      using Cons.IH [OF shape] Cons.prems(2-4) True unfolding step
      by (auto simp: nth_list_update)
  qed
qed simp

lemma cancel_contacts_contents:
  assumes "stream_shape s"
  shows "stream_contents (cancel_contacts d s) =
      map (cancel_event d s) (filter (\<lambda>c. ps_contacts s ! c) [0..<TABOS_POINTER_MAX_CONTACTS]) \<and>
    stream_shape (cancel_contacts d s) \<and>
    (\<forall>c < TABOS_POINTER_MAX_CONTACTS. \<not> ps_contacts (cancel_contacts d s) ! c)"
proof -
  let ?s = "s\<lparr>ps_head := 0, ps_count := 0\<rparr>"
  have shape: "stream_shape ?s" using assms by (simp add: stream_shape_def)
  have "cancel_event d ?s = cancel_event d s" by (intro ext) (simp add: cancel_event_def)
  moreover have "stream_contents ?s = []" by (simp add: stream_contents_nil)
  moreover have "ps_count ?s + length [0..<TABOS_POINTER_MAX_CONTACTS] \<le> POINTER_QUEUE_CAPACITY"
    by (simp add: POINTER_QUEUE_CAPACITY_def TABOS_POINTER_MAX_CONTACTS_def)
  ultimately show ?thesis
    using cancel_from_contents [OF shape, of "[0..<TABOS_POINTER_MAX_CONTACTS]" d]
    by (simp add: cancel_contacts_def)
qed

lemma cancel_contacts_fields [simp]:
  "ps_open (cancel_contacts d s) = ps_open s" "ps_owner (cancel_contacts d s) = ps_owner s"
  "ps_generation (cancel_contacts d s) = ps_generation s" "ps_hangup (cancel_contacts d s) = ps_hangup s"
  by (simp_all add: cancel_contacts_def)

lemma cancel_contacts_room:
  assumes "stream_shape s"
  shows "ps_count (cancel_contacts d s) < POINTER_QUEUE_CAPACITY"
proof -
  have "ps_count (cancel_contacts d s) =
      length (filter (\<lambda>c. ps_contacts s ! c) [0..<TABOS_POINTER_MAX_CONTACTS])"
    using cancel_contacts_contents [OF assms, of d] by (metis length_map stream_contents_length)
  also have "\<dots> \<le> TABOS_POINTER_MAX_CONTACTS" using length_filter_le [of _ "[0..<TABOS_POINTER_MAX_CONTACTS]"] by simp
  finally show ?thesis by (simp add: POINTER_QUEUE_CAPACITY_def TABOS_POINTER_MAX_CONTACTS_def)
qed

section \<open>The queue agrees with the contacts\<close>

text \<open>Whether contact \<open>c\<close> is down for a reader that has seen an event.\<close>

fun contact_after :: "nat \<Rightarrow> tabos_pointer_event \<Rightarrow> bool \<Rightarrow> bool" where
  "contact_after c event down =
     (if pe_contact_id event = c
      then pe_type event = TABOS_POINTER_DOWN \<or> pe_type event = TABOS_POINTER_MOVE else down)"

text \<open>
  Every stream is a well-formed queue, and the last queued event of each contact, if there is one,
  leaves that contact as the service has it.
\<close>

definition stream_ok :: "pointer_stream \<Rightarrow> bool" where
  "stream_ok stream \<longleftrightarrow> stream_shape stream \<and>
     (\<forall>c < TABOS_POINTER_MAX_CONTACTS.
        fold (contact_after c) (stream_contents stream) (ps_contacts stream ! c) = (ps_contacts stream ! c))"

lemma fold_contact_cases:
  "(\<forall>b. fold (contact_after c) events b = b) \<or> (\<exists>v. \<forall>b. fold (contact_after c) events b = v)"
  by (induction events) auto

lemma fold_contact_pop:
  "fold (contact_after c) events b = v \<Longrightarrow> fold (contact_after c) events v = v"
  using fold_contact_cases [of c events] by auto

lemma stream_ok_pop:
  assumes "stream_ok s" and "ps_count s \<noteq> 0"
  shows "stream_ok (pop_stream s)"
proof -
  have shape: "stream_shape s" using assms(1) by (simp add: stream_ok_def)
  have same: "ps_contacts (pop_stream s) = ps_contacts s" by (simp add: pop_stream_def)
  have "fold (contact_after c) (stream_contents (pop_stream s)) (ps_contacts s ! c) = (ps_contacts s ! c)"
    if "c < TABOS_POINTER_MAX_CONTACTS" for c
  proof (rule fold_contact_pop)
    show "fold (contact_after c) (stream_contents (pop_stream s))
        (contact_after c (ps_queue s ! ps_head s) (ps_contacts s ! c)) = (ps_contacts s ! c)"
      using assms(1) that pop_stream_contents [OF shape assms(2)] by (simp add: stream_ok_def)
  qed
  with shape show ?thesis by (simp add: stream_ok_def pop_stream_shape same)
qed

lemma stream_ok_cancel:
  assumes "stream_shape s"
  shows "stream_ok (cancel_contacts d s)"
proof -
  note c = cancel_contacts_contents [OF assms, of d]
  have "fold (contact_after k) (map (cancel_event d s) cs) False = False" for k cs
    by (induction cs) (simp_all add: cancel_event_def)
  with c show ?thesis by (simp add: stream_ok_def)
qed

lemma deliver_ok:
  assumes "stream_ok s" and "pe_contact_id event < TABOS_POINTER_MAX_CONTACTS"
  shows "stream_ok (deliver_event foreground d event s)"
proof (cases "ps_open s \<and> ps_owner s = foreground \<and> \<not> ps_hangup s")
  case True
  define s1 where "s1 = (if ps_count s = POINTER_QUEUE_CAPACITY then cancel_contacts d s else s)"
  define e where "e = event\<lparr>pe_device_id := d\<rparr>"
  have shape: "stream_shape s" using assms(1) by (simp add: stream_ok_def)
  have s1: "stream_ok s1" using assms(1) stream_ok_cancel [OF shape] by (simp add: s1_def)
  have room: "ps_count s1 < POINTER_QUEUE_CAPACITY"
    using cancel_contacts_room [OF shape] shape by (auto simp: s1_def stream_shape_def)
  define s2 where "s2 = enqueue e s1"
  have shape1: "stream_shape s1" using s1 by (simp add: stream_ok_def)
  have contents: "stream_contents s2 = stream_contents s1 @ [e]"
    unfolding s2_def by (rule enqueue_contents [OF shape1 room])
  have shape2: "stream_shape s2" unfolding s2_def by (rule enqueue_shape [OF shape1 room])
  let ?down = "pe_type event = TABOS_POINTER_DOWN \<or> pe_type event = TABOS_POINTER_MOVE"
  let ?s3 = "deliver_event foreground d event s"
  have s3: "?s3 = (if ?down
      then s2\<lparr>ps_contacts := (ps_contacts s2)[pe_contact_id event := True],
        ps_contact_x := (ps_contact_x s2)[pe_contact_id event := pe_x event],
        ps_contact_y := (ps_contact_y s2)[pe_contact_id event := pe_y event]\<rparr>
      else s2\<lparr>ps_contacts := (ps_contacts s2)[pe_contact_id event := False]\<rparr>)"
    using True by (simp add: deliver_event_def Let_def s1_def s2_def e_def)
  have c3: "ps_contacts ?s3 = (ps_contacts s1)[pe_contact_id event := ?down]"
    unfolding s3 by (simp add: s2_def)
  have "stream_contents ?s3 = stream_contents s1 @ [e]"
    unfolding s3 using contents by (simp add: stream_contents_def)
  moreover have "stream_shape ?s3" unfolding s3 using shape2 by (simp add: stream_shape_def)
  moreover have "length (ps_contacts s1) = TABOS_POINTER_MAX_CONTACTS"
    using shape1 by (simp add: stream_shape_def)
  moreover have "pe_contact_id e = pe_contact_id event" "pe_type e = pe_type event" by (simp_all add: e_def)
  ultimately show ?thesis
    using s1 assms(2) unfolding stream_ok_def c3 by (auto simp: nth_list_update)
next
  case False
  then show ?thesis using assms(1) by (auto simp: deliver_event_def)
qed

lemma stream_zero_ok [simp]:
  "stream_ok stream_zero" "stream_ok (stream_zero\<lparr>ps_generation := g\<rparr>)"
  "stream_ok (stream_zero\<lparr>ps_owner := n, ps_generation := g, ps_open := True\<rparr>)"
  by (simp_all add: stream_ok_def stream_shape_def stream_zero_def stream_contents_def ring_contents_def)

section \<open>Runs of calls\<close>

datatype pointer_op =
    P_set_device u32
  | P_foreground nat
  | P_open nat u32
  | P_close nat int
  | P_read nat int bool
  | P_close_owner nat
  | P_take_power
  | P_movement
  | P_submit "tabos_pointer_event option"
  | P_remove

fun pointer_step :: "pointer_op \<Rightarrow> pointer_state \<Rightarrow> pointer_state" where
  "pointer_step (P_set_device d) st = pointer_service_set_device_id d st"
| "pointer_step (P_foreground owner) st = pointer_service_set_foreground_owner owner st"
| "pointer_step (P_open owner d) st = snd (pointer_service_open owner d st)"
| "pointer_step (P_close owner h) st = snd (pointer_service_close owner h st)"
| "pointer_step (P_read owner h event) st = snd (snd (pointer_service_read owner h event st))"
| "pointer_step (P_close_owner owner) st = pointer_service_close_owner owner st"
| "pointer_step P_take_power st = snd (snd (pointer_service_take_power_activity True st))"
| "pointer_step P_movement st = pointer_service_record_movement st"
| "pointer_step (P_submit event) st = pointer_service_submit event st"
| "pointer_step P_remove st = pointer_service_remove_device st"

fun pointer_run :: "pointer_op list \<Rightarrow> pointer_state \<Rightarrow> pointer_state" where
  "pointer_run [] st = st"
| "pointer_run (op # rest) st = pointer_run rest (pointer_step op st)"

definition pointer_ok :: "pointer_state \<Rightarrow> bool" where
  "pointer_ok st \<longleftrightarrow> length (streams st) = POINTER_STREAM_CAPACITY \<and>
     (\<forall>stream \<in> set (streams st). stream_ok stream)"

lemma pointer_ok_update:
  "pointer_ok st \<Longrightarrow> stream_ok s \<Longrightarrow> pointer_ok (st\<lparr>streams := (streams st)[i := s]\<rparr>)"
  unfolding pointer_ok_def using set_update_subset_insert [of "streams st" i s] by auto

lemma stream_ok_hangup [simp]: "stream_ok (s\<lparr>ps_hangup := b\<rparr>) = stream_ok s"
  by (simp add: stream_ok_def stream_shape_def stream_contents_def)

lemma stream_ok_shape: "stream_ok s \<Longrightarrow> stream_shape s"
  by (simp add: stream_ok_def)

lemma owned_stream_open:
  assumes "owned_stream owner handle ss = Some i" and "length ss = POINTER_STREAM_CAPACITY"
  shows "i < length ss \<and> ps_open (ss ! i) \<and> ps_owner (ss ! i) = owner \<and> owner \<noteq> 0"
  using assms stream_for_handle_open [of ss handle i]
  by (auto simp: owned_stream_def POINTER_STREAM_CAPACITY_def split: if_splits option.splits)

lemma pointer_step_ok:
  assumes "pointer_ok st"
  shows "pointer_ok (pointer_step op st)"
proof (cases op)
  case (P_foreground owner)
  with assms show ?thesis
    by (auto simp: pointer_service_set_foreground_owner_def pointer_ok_def stream_ok_cancel stream_ok_shape)
next
  case (P_open owner d)
  with assms show ?thesis
    by (auto simp: pointer_service_open_def Let_def intro: pointer_ok_update)
next
  case (P_close owner h)
  with assms show ?thesis
    by (auto simp: pointer_service_close_def intro: pointer_ok_update split: option.split)
next
  case (P_read owner h event)
  have "stream_ok ((streams st ! i)\<lparr>ps_head := (ps_head (streams st ! i) + 1) mod POINTER_QUEUE_CAPACITY,
        ps_count := ps_count (streams st ! i) - 1\<rparr>)"
    if "owned_stream owner h (streams st) = Some i" "0 < ps_count (streams st ! i)" for i
  proof -
    have "i < length (streams st)" using owned_stream_open [OF that(1)] assms by (simp add: pointer_ok_def)
    then have "stream_ok (streams st ! i)" using assms by (simp add: pointer_ok_def)
    with that(2) stream_ok_pop show ?thesis by (simp add: pop_stream_def)
  qed
  then show ?thesis using assms P_read
    by (auto simp: pointer_service_read_def Let_def intro!: pointer_ok_update split: option.split)
next
  case (P_submit event)
  have "pointer_ok (st\<lparr>streams := map (deliver_event f d e) (streams st),
      power_contacts := pc, pointer_activity_pending := pa\<rparr>)"
    if "pe_contact_id e < TABOS_POINTER_MAX_CONTACTS" for f d e pc pa
    using assms deliver_ok [OF _ that] by (simp add: pointer_ok_def)
  then show ?thesis using assms P_submit
    by (auto simp: pointer_service_submit_def Let_def pointer_ok_def deliver_ok split: option.split)
next
  case P_remove
  with assms show ?thesis
    by (auto simp: pointer_service_remove_device_def pointer_ok_def stream_ok_cancel stream_ok_shape)
qed (use assms in \<open>auto simp: pointer_service_set_device_id_def pointer_service_close_owner_def
    pointer_service_take_power_activity_def pointer_service_record_movement_def pointer_ok_def Let_def\<close>)

lemma pointer_run_ok: "pointer_ok st \<Longrightarrow> pointer_ok (pointer_run calls st)"
  by (induction calls arbitrary: st) (auto intro: pointer_step_ok)

lemma pointer_init_ok:
  "pointer_service_init mutex probe st = (True, st') \<Longrightarrow> \<not> pointer_initialized st \<Longrightarrow> pointer_ok st'"
  by (auto simp: pointer_service_init_def pointer_ok_def Let_def split: if_splits prod.splits)

section \<open>The stream table over calls\<close>

fun is_stream_open :: "pointer_op \<Rightarrow> bool" where
  "is_stream_open (P_open _ _) = True"
| "is_stream_open _ = False"

lemma pointer_open_cases:
  obtains (fail) e where "pointer_service_open owner d st = (- e, st)" and "0 < e"
  | (opened) i where "i = stream_table.first_free (streams st)" and "i < length (streams st)"
      and "pointer_service_open owner d st =
        (stream_handle i (bounded_generation POINTER_STREAM_GENERATION_MAX (ps_generation (streams st ! i))),
         st\<lparr>streams := (streams st)[i := open_stream owner (streams st ! i)]\<rparr>)"
proof -
  have le: "stream_table.first_free (streams st) \<le> length (streams st)"
    unfolding stream_table.first_free_def by (rule length_takeWhile_le)
  note errs = ENODEV_def EINVAL_def EMFILE_def
  show thesis
  proof (cases "pointer_initialized st \<and> detected st \<and> pointer_error st = 0 \<and> owner \<noteq> 0 \<and>
      d \<noteq> TABOS_DEVICE_ID_INVALID \<and> d = pointer_device_id st \<and>
      stream_table.first_free (streams st) \<noteq> length (streams st)")
    case True
    let ?i = "stream_table.first_free (streams st)"
    from True have "pointer_service_open owner d st =
        (stream_handle ?i (bounded_generation POINTER_STREAM_GENERATION_MAX (ps_generation (streams st ! ?i))),
         st\<lparr>streams := (streams st)[?i := open_stream owner (streams st ! ?i)]\<rparr>)"
      by (auto simp: pointer_service_open_def stream_table.first_free_def open_stream_def Let_def)
    then show thesis using opened [OF refl] True le by simp
  next
    case False
    then have "\<exists>e \<in> {ENODEV, EINVAL, EMFILE}. pointer_service_open owner d st = (- e, st)"
      by (auto simp: pointer_service_open_def stream_table.first_free_def Let_def)
    then show thesis using fail by (auto simp: errs)
  qed
qed

text \<open>No call but an open makes a stream open, and none changes another stream's generation.\<close>

lemma cancelled_step:
  "stream_table.table_step ss None (map (\<lambda>s. if P s then cancel_contacts d s else s) ss)"
  by (rule stream_table.step_same) auto

lemma pointer_step_table:
  assumes "length (streams st) = POINTER_STREAM_CAPACITY"
  shows "\<exists>e. stream_table.table_step (streams st) e (streams (pointer_step op st)) \<and>
    (e \<noteq> None \<longrightarrow> is_stream_open op)"
proof (cases op)
  case (P_open owner d)
  show ?thesis
  proof (cases rule: pointer_open_cases [of owner d st])
    case (fail e)
    with P_open show ?thesis by (intro exI [of _ None]) (auto intro: stream_table.step_same)
  next
    case (opened i)
    then have "\<not> ps_open (streams st ! i)" using stream_table.first_free_closed by blast
    with opened P_open show ?thesis
      by (intro exI [of _ "Some i"]) (auto intro: stream_table.step_open)
  qed
next
  case (P_close owner h)
  show ?thesis
  proof (cases "owned_stream owner h (streams st)")
    case None
    with P_close show ?thesis
      by (intro exI [of _ None]) (auto simp: pointer_service_close_def intro: stream_table.step_same)
  next
    case (Some i)
    with owned_stream_open [OF Some assms] P_close show ?thesis
      by (intro exI [of _ None])
        (auto simp: pointer_service_close_def close_stream_def [symmetric]
          intro: stream_table.step_same stream_table.step_close)
  qed
next
  case (P_read owner h event)
  show ?thesis
    by (intro exI [of _ None] conjI, unfold P_read pointer_step.simps, rule stream_table.step_same)
      (auto simp: pointer_service_read_def Let_def nth_update_field [where f = ps_generation]
        nth_update_field [where f = ps_open] split: option.split)
next
  case (P_submit event)
  have "ps_generation (deliver_event f d e s) = ps_generation s \<and> ps_open (deliver_event f d e s) = ps_open s"
    for f d e s by (simp add: deliver_event_def Let_def)
  then show ?thesis
    by (intro exI [of _ None] conjI, unfold P_submit pointer_step.simps, intro stream_table.step_same)
      (auto simp: pointer_service_submit_def Let_def split: option.split)
qed (intro exI [of _ None] conjI stream_table.step_same;
    auto simp: pointer_service_set_device_id_def pointer_service_set_foreground_owner_def
      pointer_service_close_owner_def pointer_service_take_power_activity_def
      pointer_service_record_movement_def pointer_service_remove_device_def stream_zero_def Let_def)+

lemma pointer_run_append: "pointer_run (xs @ ys) st = pointer_run ys (pointer_run xs st)"
  by (induction xs arbitrary: st) auto

lemma pointer_run_table:
  assumes "length (streams st) = POINTER_STREAM_CAPACITY"
  shows "\<exists>n \<le> length (filter is_stream_open calls).
     stream_table.table_run (streams st) n (streams (pointer_run calls st))"
proof (induction calls rule: rev_induct)
  case Nil
  then show ?case by (auto intro: stream_table.run_nil)
next
  case (snoc op calls)
  then obtain n where n: "n \<le> length (filter is_stream_open calls)"
    and run: "stream_table.table_run (streams st) n (streams (pointer_run calls st))"
    by blast
  have "length (streams (pointer_run calls st)) = POINTER_STREAM_CAPACITY"
    using stream_table.table_run_length [OF run] assms by simp
  then obtain e where e: "stream_table.table_step (streams (pointer_run calls st)) e
      (streams (pointer_step op (pointer_run calls st)))" "e \<noteq> None \<longrightarrow> is_stream_open op"
    using pointer_step_table by blast
  show ?case
  proof (cases e)
    case None
    with run e n show ?thesis
      by (intro exI [of _ n]) (auto simp: pointer_run_append intro: stream_table.run_other)
  next
    case (Some i)
    with run e n show ?thesis
      by (intro exI [of _ "Suc n"]) (auto simp: pointer_run_append intro: stream_table.run_open)
  qed
qed

section \<open>Properties\<close>

definition demo_pointer :: pointer_state where
  "demo_pointer = \<lparr>streams = [], foreground_owner = 0, pointer_driver = None, pointer_device_id = 9,
     pointer_error = 0, detected = False, pointer_initialized = False, power_contacts = [],
     pointer_activity_pending = False, pointer_log = []\<rparr>"

definition demo_touch :: "tabos_pointer_event_type \<Rightarrow> tabos_pointer_event" where
  "demo_touch type = pointer_event_zero\<lparr>pe_type := type, pe_contact_id := 2, pe_x := 30, pe_y := 40\<rparr>"

definition demo_started :: pointer_state where
  "demo_started = snd (pointer_service_init True (True, Some ''touch'', 0) demo_pointer)"

lemma demo_started_init: "pointer_service_init True (True, Some ''touch'', 0) demo_pointer = (True, demo_started)"
  by (simp add: demo_started_def pointer_service_init_def demo_pointer_def Let_def)

lemma demo_started_ok: "pointer_ok demo_started"
  using pointer_init_ok [OF demo_started_init] by (simp add: demo_pointer_def)

text \<open>
  C21. Every stream stays a bounded queue that tells its reader the truth: after a start and any
  calls each of the eight streams has its indices in range, and for every contact the last queued
  event that names it, if there is one, leaves the contact as the service has it recorded.
\<close>
theorem pointer_invariant:
  assumes "\<not> pointer_initialized st" and "pointer_service_init mutex probe st = (True, st0)"
  shows "pointer_ok (pointer_run calls st0)"
  using pointer_init_ok [OF assms(2,1)] by (rule pointer_run_ok)

theorem pointer_invariant_witness:
  "pointer_ok (pointer_run [P_foreground 5, P_open 5 9, P_submit (Some (demo_touch TABOS_POINTER_DOWN))] demo_started)"
  by (rule pointer_invariant [OF _ demo_started_init]) (simp add: demo_pointer_def)

text \<open>
  C23. Only the foreground owner's streams receive touch events, and only the foreground owner can
  read: a submitted event leaves every stream of another owner as it was, and a read by another
  owner, even of its own stream, fails and changes nothing.
\<close>
theorem pointer_isolation:
  assumes "i < length (streams st)" and "ps_owner (streams st ! i) \<noteq> foreground_owner st"
    and "owner \<noteq> foreground_owner st" and "pointer_initialized st"
  shows "streams (pointer_service_submit event st) ! i = streams st ! i \<and>
    (\<exists>e \<in> {EBADF, EACCES}. pointer_service_read owner handle True st = (- e, None, st))"
proof -
  have "deliver_event (foreground_owner st) d e (streams st ! i) = streams st ! i" for d e
    using assms(2) by (simp add: deliver_event_def)
  then have "streams (pointer_service_submit event st) ! i = streams st ! i"
    using assms(1) by (simp add: pointer_service_submit_def Let_def split: option.split)
  moreover have "\<exists>e \<in> {EBADF, EACCES}. pointer_service_read owner handle True st = (- e, None, st)"
    using assms(3,4) by (auto simp: pointer_service_read_def Let_def split: option.split)
  ultimately show ?thesis by blast
qed

theorem pointer_isolation_witness:
  "streams (pointer_service_submit (Some (demo_touch TABOS_POINTER_DOWN))
     (demo_started\<lparr>foreground_owner := 5\<rparr>)) ! 3 = stream_zero"
  using pointer_isolation [of 3 "demo_started\<lparr>foreground_owner := 5\<rparr>" 7 "Some (demo_touch TABOS_POINTER_DOWN)"]
  by (simp add: demo_started_def pointer_service_init_def demo_pointer_def stream_zero_def
      POINTER_STREAM_CAPACITY_def numeral_3_eq_3 Let_def)

text \<open>
  C22. Losing the foreground ends every touch: when the foreground changes, each stream of the old
  owner holds exactly one cancel event for every contact that was down, at the contact's last
  position, and nothing else; no contact is down any more; all other streams are untouched.
\<close>
theorem pointer_switch_cancels:
  assumes "pointer_ok st" and "pointer_initialized st" and "i < length (streams st)"
    and "foreground_owner st \<noteq> owner"
  defines "old \<equiv> streams st ! i"
    and "new \<equiv> streams (pointer_service_set_foreground_owner owner st) ! i"
  shows "if ps_open old \<and> ps_owner old = foreground_owner st
    then stream_contents new = map (cancel_event (pointer_device_id st) old)
        (filter (\<lambda>c. ps_contacts old ! c) [0..<TABOS_POINTER_MAX_CONTACTS]) \<and>
      (\<forall>c < TABOS_POINTER_MAX_CONTACTS. \<not> ps_contacts new ! c)
    else new = old"
proof -
  have "stream_shape old" using assms(1,3) by (simp add: old_def pointer_ok_def stream_ok_def)
  note c = cancel_contacts_contents [OF this, of "pointer_device_id st"]
  have "new = (if ps_open old \<and> ps_owner old = foreground_owner st
      then cancel_contacts (pointer_device_id st) old else old)"
    using assms(2-4) by (simp add: new_def old_def pointer_service_set_foreground_owner_def)
  with c show ?thesis by auto
qed

theorem pointer_switch_cancels_witness:
  "streams (pointer_service_set_foreground_owner 7 (demo_started\<lparr>foreground_owner := 5\<rparr>)) ! 0 = stream_zero"
  using pointer_switch_cancels [of "demo_started\<lparr>foreground_owner := 5\<rparr>" 0 7] demo_started_ok
  by (simp add: demo_started_def pointer_ok_def pointer_service_init_def demo_pointer_def stream_zero_def
      POINTER_STREAM_CAPACITY_def Let_def)

text \<open>
  A closed stream handle stays dead: once a close of it has succeeded, no owner can use the
  handle, whatever calls follow, as long as fewer than 268435455 streams are opened meanwhile.
\<close>
theorem pointer_stale_handle:
  assumes "pointer_ok st" and "pointer_service_open owner d st = (h, st1)" and "0 < h"
    and "pointer_service_close closer h (pointer_run used st1) = (0, closed)"
    and "length (filter is_stream_open after) < 268435455"
  shows "owned_stream user h (streams (pointer_run after closed)) = None \<and>
    fst (pointer_service_close user h (pointer_run after closed)) = - EBADF"
proof -
  let ?mid = "pointer_run used st1"
  have ok: "pointer_ok ?mid"
    using pointer_step_ok [OF assms(1), of "P_open owner d"] assms(2) by (simp add: pointer_run_ok)
  then have len: "length (streams ?mid) = POINTER_STREAM_CAPACITY" by (simp add: pointer_ok_def)
  obtain i g where h: "h = stream_handle i g" "pointer_generation_ok g" "i < POINTER_STREAM_CAPACITY"
  proof (cases rule: pointer_open_cases [of owner d st])
    case (fail e)
    with assms(2,3) show thesis by simp
  next
    case (opened i)
    have "h = stream_handle i (bounded_generation POINTER_STREAM_GENERATION_MAX (ps_generation (streams st ! i)))"
      using opened(3) assms(2) by simp
    then show thesis
      using that stream_table.bump_valid opened(2) assms(1) by (simp add: pointer_ok_def)
  qed
  obtain j where j: "owned_stream closer h (streams ?mid) = Some j"
    using assms(4) by (auto simp: pointer_service_close_def EBADF_def split: if_splits option.splits)
  then have f: "stream_for_handle (streams ?mid) h = Some j"
    by (auto simp: owned_stream_def split: if_splits option.splits)
  then have i: "j = i" "ps_generation (streams ?mid ! i) = g"
    using h stream_for_encoded [of i g "streams ?mid"]
    by (auto simp: POINTER_STREAM_CAPACITY_def split: if_splits)
  have c: "streams closed = (streams ?mid)[i := close_stream (streams ?mid ! i)]"
    using assms(4) j i(1) by (auto simp: pointer_service_close_def close_stream_def EBADF_def split: if_splits)
  have len': "length (streams closed) = POINTER_STREAM_CAPACITY" using len c by simp
  obtain n where n: "n \<le> length (filter is_stream_open after)"
      "stream_table.table_run (streams closed) n (streams (pointer_run after closed))"
    using pointer_run_table [OF len'] by blast
  have "stream_for_handle (streams (pointer_run after closed)) (stream_handle i g) = None"
  proof (rule stream_table.stale_not_found [OF n(2)])
    show "n < unat POINTER_STREAM_GENERATION_MAX" using n(1) assms(5) by (simp add: pointer_generation_max)
    show "i < length (streams closed)" using h(3) len' by simp
    show "\<not> ps_open (streams closed ! i)" "ps_generation (streams closed ! i) = g"
      using c h(3) len i(2) by (simp_all add: close_stream_def stream_zero_def)
  qed (use len' h(2) in simp_all)
  then have "owned_stream user h (streams (pointer_run after closed)) = None"
    by (simp add: owned_stream_def h(1))
  then show ?thesis by (simp add: pointer_service_close_def)
qed

theorem pointer_stale_handle_witness:
  "owned_stream 5 8 (streams (pointer_run [P_open 6 9]
     (snd (pointer_service_close 5 8 (pointer_run [] (snd (pointer_service_open 5 9 demo_started))))))) = None"
proof -
  let ?s1 = "snd (pointer_service_open 5 9 demo_started)"
  have "fst (pointer_service_open 5 9 demo_started) = 8" by code_simp
  then have 1: "pointer_service_open 5 9 demo_started = (8, ?s1)" by (metis prod.collapse)
  have "fst (pointer_service_close 5 8 (pointer_run [] ?s1)) = 0" by code_simp
  then have 2: "pointer_service_close 5 8 (pointer_run [] ?s1) =
      (0, snd (pointer_service_close 5 8 (pointer_run [] ?s1)))"
    by (metis prod.collapse)
  show ?thesis
    using pointer_stale_handle [OF demo_started_ok 1 _ 2, of "[P_open 6 9]" 5] by simp
qed

end
