(* ===== verification/Devices.thy ===== *)
theory Devices
  imports RingBuffer HandleTable
begin

unbundle bit_operations_syntax

text \<open>
  The device registry of \<^verbatim>\<open>kernel/device_registry.c\<close>: the table of devices with their
  generation-stamped identifiers, and the subscriptions whose event queues drop their oldest event
  and report the overflow with the next event that is read. \<open>registry_mutex\<close> says whether the
  registry is running; each function that takes the mutex is one step. Owners are addresses, 0 for
  NULL, and C strings are lists of characters without the terminator.
\<close>

section \<open>Devices, events and state\<close>

definition TABOS_DEVICE_NAME_MAX :: nat where "TABOS_DEVICE_NAME_MAX = 15"
definition TABOS_DEVICE_DRIVER_MAX :: nat where "TABOS_DEVICE_DRIVER_MAX = 31"
definition DEVICE_ID_INVALID :: u32 where "DEVICE_ID_INVALID = 0xFFFFFFFF"
definition TABOS_DEVICE_SUBSCRIPTION_INVALID :: int where "TABOS_DEVICE_SUBSCRIPTION_INVALID = - 1"
definition TABOS_DEVICE_CLASS_DISPLAY :: int where "TABOS_DEVICE_CLASS_DISPLAY = 0"
definition TABOS_DEVICE_CLASS_COUNT :: int where "TABOS_DEVICE_CLASS_COUNT = 11"
definition TABOS_DEVICE_READY :: int where "TABOS_DEVICE_READY = 0"
definition TABOS_DEVICE_OFFLINE :: int where "TABOS_DEVICE_OFFLINE = 1"
definition TABOS_DEVICE_STATE_COUNT :: int where "TABOS_DEVICE_STATE_COUNT = 3"
definition TABOS_DEVICE_EVENT_OVERFLOW :: u32 where "TABOS_DEVICE_EVENT_OVERFLOW = 1"

datatype tabos_device_event_type =
    TABOS_DEVICE_EVENT_ADDED
  | TABOS_DEVICE_EVENT_REMOVED
  | TABOS_DEVICE_EVENT_READY
  | TABOS_DEVICE_EVENT_OFFLINE
  | TABOS_DEVICE_EVENT_FAULT

record tabos_device_info =
  di_id :: u32
  di_class :: int
  di_state :: int
  di_features :: u64
  di_last_error :: int
  di_name :: string
  di_driver :: string

record tabos_device_event =
  dv_type :: tabos_device_event_type
  dv_flags :: u32
  dv_device :: tabos_device_info

definition DEVICE_REGISTRY_CAPACITY :: nat where "DEVICE_REGISTRY_CAPACITY = 32"
definition DEVICE_SUBSCRIPTION_CAPACITY :: nat where "DEVICE_SUBSCRIPTION_CAPACITY = 16"
definition DEVICE_EVENT_QUEUE_CAPACITY :: nat where "DEVICE_EVENT_QUEUE_CAPACITY = 32"
definition DEVICE_ID_SLOT_BITS :: nat where "DEVICE_ID_SLOT_BITS = 6"
definition DEVICE_ID_SLOT_MASK :: u32 where "DEVICE_ID_SLOT_MASK = 63"
definition DEVICE_ID_GENERATION_MAX :: u32 where "DEVICE_ID_GENERATION_MAX = 0x03FFFFFF"
definition DEVICE_SUBSCRIPTION_INDEX_BITS :: nat where "DEVICE_SUBSCRIPTION_INDEX_BITS = 4"
definition DEVICE_SUBSCRIPTION_INDEX_MASK :: u32 where "DEVICE_SUBSCRIPTION_INDEX_MASK = 15"
definition DEVICE_SUBSCRIPTION_GENERATION_MAX :: u32 where
  "DEVICE_SUBSCRIPTION_GENERATION_MAX = 0x07FFFFFF"

record device_registry_registration =
  rg_name :: "string option"
  rg_driver :: "string option"
  rg_class :: int
  rg_state :: int
  rg_features :: u64
  rg_last_error :: int

record registry_entry =
  en_info :: tabos_device_info
  en_used :: bool
  en_present :: bool

record device_subscription =
  sb_owner :: nat
  sb_events :: "tabos_device_event list"
  sb_generation :: u32
  sb_head :: nat
  sb_count :: nat
  sb_used :: bool
  sb_overflow :: bool

definition device_info_zero :: tabos_device_info where
  "device_info_zero = \<lparr>di_id = 0, di_class = 0, di_state = 0, di_features = 0, di_last_error = 0,
     di_name = [], di_driver = []\<rparr>"

definition entry_zero :: registry_entry where
  "entry_zero = \<lparr>en_info = device_info_zero, en_used = False, en_present = False\<rparr>"

definition subscription_zero :: device_subscription where
  "subscription_zero = \<lparr>sb_owner = 0,
     sb_events = replicate DEVICE_EVENT_QUEUE_CAPACITY
       \<lparr>dv_type = TABOS_DEVICE_EVENT_ADDED, dv_flags = 0, dv_device = device_info_zero\<rparr>,
     sb_generation = 0, sb_head = 0, sb_count = 0, sb_used = False, sb_overflow = False\<rparr>"

record device_state =
  entries :: "registry_entry list"
  subscriptions :: "device_subscription list"
  registry_mutex :: bool
  registry_generation :: u32
  next_registry_generation :: u32
  active_count :: nat

section \<open>Events\<close>

definition publish_to :: "tabos_device_event \<Rightarrow> device_subscription \<Rightarrow> device_subscription" where
  "publish_to event subscription =
     (let subscription =
        (if sb_count subscription = DEVICE_EVENT_QUEUE_CAPACITY
         then subscription\<lparr>sb_head := (sb_head subscription + 1) mod DEVICE_EVENT_QUEUE_CAPACITY,
                sb_count := sb_count subscription - 1, sb_overflow := True\<rparr>
         else subscription)
      in subscription\<lparr>sb_events := (sb_events subscription)
             [(sb_head subscription + sb_count subscription) mod DEVICE_EVENT_QUEUE_CAPACITY := event],
           sb_count := sb_count subscription + 1\<rparr>)"

definition publish_event :: "tabos_device_event_type \<Rightarrow> tabos_device_info \<Rightarrow> device_state \<Rightarrow> device_state" where
  "publish_event type info st =
     st\<lparr>subscriptions := map (\<lambda>subscription. if \<not> sb_used subscription then subscription
        else publish_to \<lparr>dv_type = type, dv_flags = 0, dv_device = info\<rparr> subscription) (subscriptions st)\<rparr>"

definition state_event :: "int \<Rightarrow> tabos_device_event_type" where
  "state_event state =
     (if state = TABOS_DEVICE_READY then TABOS_DEVICE_EVENT_READY
      else if state = TABOS_DEVICE_OFFLINE then TABOS_DEVICE_EVENT_OFFLINE
      else TABOS_DEVICE_EVENT_FAULT)"

section \<open>Identifiers and handles\<close>

definition subscription_handle :: "nat \<Rightarrow> u32 \<Rightarrow> int" where
  "subscription_handle index generation =
     sint (push_bit DEVICE_SUBSCRIPTION_INDEX_BITS generation OR word_of_nat index)"

text \<open>The subscription in use that a handle names, whoever owns it.\<close>

definition subscription_for_handle :: "device_subscription list \<Rightarrow> int \<Rightarrow> nat option" where
  "subscription_for_handle subs handle =
     (if handle < 0 then None
      else
        (let value = word_of_int handle :: u32;
             index = unat (value AND DEVICE_SUBSCRIPTION_INDEX_MASK);
             generation = drop_bit DEVICE_SUBSCRIPTION_INDEX_BITS value;
             subscription = subs ! index
         in if sb_used subscription \<and> sb_generation subscription = generation then Some index else None))"

definition owned_subscription :: "nat \<Rightarrow> int \<Rightarrow> device_subscription list \<Rightarrow> nat option" where
  "owned_subscription owner handle subs =
     (if owner = 0 \<or> handle < 0 then None
      else
        (case subscription_for_handle subs handle of
           None \<Rightarrow> None
         | Some index \<Rightarrow> (if sb_owner (subs ! index) = owner then Some index else None)))"

definition valid_class :: "int \<Rightarrow> bool" where
  "valid_class device_class \<longleftrightarrow>
     TABOS_DEVICE_CLASS_DISPLAY \<le> device_class \<and> device_class < TABOS_DEVICE_CLASS_COUNT"

definition valid_state :: "int \<Rightarrow> bool" where
  "valid_state state \<longleftrightarrow> TABOS_DEVICE_READY \<le> state \<and> state < TABOS_DEVICE_STATE_COUNT"

definition valid_text :: "string option \<Rightarrow> nat \<Rightarrow> bool" where
  "valid_text text maximum \<longleftrightarrow>
     (case text of None \<Rightarrow> False | Some t \<Rightarrow> t \<noteq> [] \<and> length t \<le> maximum)"

definition make_id :: "u32 \<Rightarrow> nat \<Rightarrow> u32" where
  "make_id generation slot = push_bit DEVICE_ID_SLOT_BITS generation OR word_of_nat (slot + 1)"

definition decode_id :: "u32 \<Rightarrow> u32 \<Rightarrow> nat option" where
  "decode_id registry_gen device_id =
     (if device_id = DEVICE_ID_INVALID \<or> device_id = 0 then None
      else
        (let slot_code = unat (device_id AND DEVICE_ID_SLOT_MASK);
             generation = drop_bit DEVICE_ID_SLOT_BITS device_id
         in if generation \<noteq> registry_gen \<or> slot_code = 0 \<or> DEVICE_REGISTRY_CAPACITY < slot_code then None
            else Some (slot_code - 1)))"

definition active_entry :: "u32 \<Rightarrow> device_state \<Rightarrow> nat option" where
  "active_entry device_id st =
     (case decode_id (registry_generation st) device_id of
        None \<Rightarrow> None
      | Some slot \<Rightarrow>
          (let entry = entries st ! slot
           in if \<not> en_used entry \<or> \<not> en_present entry \<or> di_id (en_info entry) \<noteq> device_id then None
              else Some slot))"

definition name_used :: "string \<Rightarrow> device_state \<Rightarrow> bool" where
  "name_used name st \<longleftrightarrow> (\<exists>entry \<in> set (entries st). en_used entry \<and> di_name (en_info entry) = name)"

section \<open>Start and stop\<close>

definition device_registry_init :: "bool \<Rightarrow> device_state \<Rightarrow> bool \<times> device_state" where
  "device_registry_init mutex st =
     (if registry_mutex st then (True, st)
      else if \<not> mutex then (False, st)
      else
        (let generation = next_registry_generation st; next = generation + 1
         in (True, st\<lparr>registry_mutex := True,
              entries := replicate DEVICE_REGISTRY_CAPACITY entry_zero,
              subscriptions := replicate DEVICE_SUBSCRIPTION_CAPACITY subscription_zero,
              active_count := 0, registry_generation := generation,
              next_registry_generation := (if next = 0 \<or> DEVICE_ID_GENERATION_MAX < next then 1 else next)\<rparr>)))"

definition device_registry_shutdown :: "device_state \<Rightarrow> device_state" where
  "device_registry_shutdown st =
     (if \<not> registry_mutex st then st
      else st\<lparr>entries := replicate DEVICE_REGISTRY_CAPACITY entry_zero,
              subscriptions := replicate DEVICE_SUBSCRIPTION_CAPACITY subscription_zero,
              active_count := 0, registry_generation := 0, registry_mutex := False\<rparr>)"

section \<open>Devices\<close>

definition device_registry_register ::
    "device_registry_registration option \<Rightarrow> device_state \<Rightarrow> u32 \<times> device_state" where
  "device_registry_register registration st =
     (case registration of
        None \<Rightarrow> (DEVICE_ID_INVALID, st)
      | Some r \<Rightarrow>
          (if \<not> registry_mutex st \<or> \<not> valid_text (rg_name r) TABOS_DEVICE_NAME_MAX \<or>
              \<not> valid_text (rg_driver r) TABOS_DEVICE_DRIVER_MAX \<or> \<not> valid_class (rg_class r) \<or>
              \<not> valid_state (rg_state r)
           then (DEVICE_ID_INVALID, st)
           else if name_used (the (rg_name r)) st then (DEVICE_ID_INVALID, st)
           else
             (let slot = length (takeWhile en_used (entries st))
              in if slot = DEVICE_REGISTRY_CAPACITY then (DEVICE_ID_INVALID, st)
                 else
                   (let info = \<lparr>di_id = make_id (registry_generation st) slot, di_class = rg_class r,
                          di_state = rg_state r, di_features = rg_features r,
                          di_last_error = rg_last_error r, di_name = the (rg_name r),
                          di_driver = the (rg_driver r)\<rparr>;
                        st = st\<lparr>entries := (entries st)[slot :=
                               \<lparr>en_info = info, en_used = True, en_present = True\<rparr>],
                             active_count := active_count st + 1\<rparr>
                    in (di_id info, publish_event TABOS_DEVICE_EVENT_ADDED info st)))))"

definition device_registry_remove :: "u32 \<Rightarrow> device_state \<Rightarrow> bool \<times> device_state" where
  "device_registry_remove device_id st =
     (if \<not> registry_mutex st then (False, st)
      else
        (case active_entry device_id st of
           None \<Rightarrow> (False, st)
         | Some slot \<Rightarrow>
             (let entry = entries st ! slot;
                  st = publish_event TABOS_DEVICE_EVENT_REMOVED (en_info entry) st
              in (True, st\<lparr>entries := (entries st)[slot := entry\<lparr>en_present := False\<rparr>],
                           active_count := active_count st - 1\<rparr>))))"

definition device_registry_set_state :: "u32 \<Rightarrow> int \<Rightarrow> int \<Rightarrow> device_state \<Rightarrow> bool \<times> device_state" where
  "device_registry_set_state device_id state last_error st =
     (if \<not> registry_mutex st \<or> \<not> valid_state state then (False, st)
      else
        (case active_entry device_id st of
           None \<Rightarrow> (False, st)
         | Some slot \<Rightarrow>
             (let entry = entries st ! slot
              in if di_state (en_info entry) = state \<and> di_last_error (en_info entry) = last_error
                 then (True, st)
                 else
                   (let info = (en_info entry)\<lparr>di_state := state, di_last_error := last_error\<rparr>
                    in (True, publish_event (state_event state) info
                          (st\<lparr>entries := (entries st)[slot := entry\<lparr>en_info := info\<rparr>]\<rparr>))))))"

definition device_registry_count :: "device_state \<Rightarrow> nat" where
  "device_registry_count st = (if \<not> registry_mutex st then 0 else active_count st)"

fun present_at :: "nat \<Rightarrow> registry_entry list \<Rightarrow> tabos_device_info option" where
  "present_at index [] = None"
| "present_at index (entry # rest) =
     (if \<not> en_present entry then present_at index rest
      else if index = 0 then Some (en_info entry)
      else present_at (index - 1) rest)"

definition device_registry_at :: "nat \<Rightarrow> bool \<Rightarrow> device_state \<Rightarrow> tabos_device_info option" where
  "device_registry_at index info st =
     (if \<not> registry_mutex st \<or> \<not> info then None else present_at index (entries st))"

definition device_registry_get :: "u32 \<Rightarrow> bool \<Rightarrow> device_state \<Rightarrow> tabos_device_info option" where
  "device_registry_get device_id info st =
     (if \<not> registry_mutex st \<or> \<not> info then None
      else (case active_entry device_id st of None \<Rightarrow> None | Some slot \<Rightarrow> Some (en_info (entries st ! slot))))"

definition device_registry_find :: "string option \<Rightarrow> bool \<Rightarrow> device_state \<Rightarrow> tabos_device_info option" where
  "device_registry_find name info st =
     (case name of
        None \<Rightarrow> None
      | Some n \<Rightarrow>
          (if \<not> registry_mutex st \<or> \<not> info then None
           else map_option en_info
             (find (\<lambda>entry. en_present entry \<and> di_name (en_info entry) = n) (entries st))))"

section \<open>Subscriptions\<close>

definition device_registry_subscribe :: "nat \<Rightarrow> device_state \<Rightarrow> int \<times> device_state" where
  "device_registry_subscribe owner st =
     (if \<not> registry_mutex st \<or> owner = 0 then (TABOS_DEVICE_SUBSCRIPTION_INVALID, st)
      else
        (let index = length (takeWhile sb_used (subscriptions st))
         in if index = length (subscriptions st) then (TABOS_DEVICE_SUBSCRIPTION_INVALID, st)
            else
              (let generation = bounded_generation DEVICE_SUBSCRIPTION_GENERATION_MAX
                     (sb_generation (subscriptions st ! index))
               in (subscription_handle index generation,
                   st\<lparr>subscriptions := (subscriptions st)[index :=
                     subscription_zero\<lparr>sb_owner := owner, sb_generation := generation, sb_used := True\<rparr>]\<rparr>))))"

definition device_registry_unsubscribe :: "nat \<Rightarrow> int \<Rightarrow> device_state \<Rightarrow> bool \<times> device_state" where
  "device_registry_unsubscribe owner handle st =
     (if \<not> registry_mutex st then (False, st)
      else
        (case owned_subscription owner handle (subscriptions st) of
           None \<Rightarrow> (False, st)
         | Some index \<Rightarrow>
             (True, st\<lparr>subscriptions := (subscriptions st)[index :=
                subscription_zero\<lparr>sb_generation := sb_generation (subscriptions st ! index)\<rparr>]\<rparr>)))"

definition device_registry_unsubscribe_owner :: "nat \<Rightarrow> device_state \<Rightarrow> device_state" where
  "device_registry_unsubscribe_owner owner st =
     (if \<not> registry_mutex st \<or> owner = 0 then st
      else st\<lparr>subscriptions := map (\<lambda>subscription. if sb_used subscription \<and> sb_owner subscription = owner
           then subscription_zero\<lparr>sb_generation := sb_generation subscription\<rparr> else subscription)
         (subscriptions st)\<rparr>)"

definition device_registry_read_event ::
    "nat \<Rightarrow> int \<Rightarrow> bool \<Rightarrow> device_state \<Rightarrow> int \<times> tabos_device_event option \<times> device_state" where
  "device_registry_read_event owner handle event st =
     (if \<not> registry_mutex st \<or> \<not> event then (- EINVAL, None, st)
      else
        (case owned_subscription owner handle (subscriptions st) of
           None \<Rightarrow> (- EBADF, None, st)
         | Some index \<Rightarrow>
             (let subscription = subscriptions st ! index
              in if sb_count subscription = 0 then (- EAGAIN, None, st)
                 else
                   (let e = sb_events subscription ! sb_head subscription;
                        overflow = sb_overflow subscription;
                        subscription = subscription\<lparr>
                          sb_head := (sb_head subscription + 1) mod DEVICE_EVENT_QUEUE_CAPACITY,
                          sb_count := sb_count subscription - 1, sb_overflow := False\<rparr>;
                        e = (if overflow then e\<lparr>dv_flags := dv_flags e OR TABOS_DEVICE_EVENT_OVERFLOW\<rparr> else e)
                    in (0, Some e, st\<lparr>subscriptions := (subscriptions st)[index := subscription]\<rparr>)))))"

definition device_registry_event_pending :: "nat \<Rightarrow> int \<Rightarrow> device_state \<Rightarrow> int" where
  "device_registry_event_pending owner handle st =
     (if \<not> registry_mutex st then - EINVAL
      else
        (case owned_subscription owner handle (subscriptions st) of
           None \<Rightarrow> - EBADF
         | Some index \<Rightarrow> (if 0 < sb_count (subscriptions st ! index) then 1 else 0)))"

section \<open>Subscriptions are queues that report their losses\<close>

definition subscription_contents :: "device_subscription \<Rightarrow> tabos_device_event list" where
  "subscription_contents s = ring_contents (sb_events s) (sb_head s) (sb_count s)"

definition subscription_shape :: "device_subscription \<Rightarrow> bool" where
  "subscription_shape s \<longleftrightarrow> length (sb_events s) = DEVICE_EVENT_QUEUE_CAPACITY \<and>
     sb_head s < DEVICE_EVENT_QUEUE_CAPACITY \<and> sb_count s \<le> DEVICE_EVENT_QUEUE_CAPACITY"

definition push_to :: "tabos_device_event \<Rightarrow> device_subscription \<Rightarrow> device_subscription" where
  "push_to event s = s\<lparr>sb_events := (sb_events s)
     [(sb_head s + sb_count s) mod DEVICE_EVENT_QUEUE_CAPACITY := event], sb_count := sb_count s + 1\<rparr>"

definition lose_oldest :: "device_subscription \<Rightarrow> device_subscription" where
  "lose_oldest s = s\<lparr>sb_head := (sb_head s + 1) mod DEVICE_EVENT_QUEUE_CAPACITY,
     sb_count := sb_count s - 1, sb_overflow := True\<rparr>"

lemma device_capacity_pos [simp]: "0 < DEVICE_EVENT_QUEUE_CAPACITY"
  by (simp add: DEVICE_EVENT_QUEUE_CAPACITY_def)

lemma subscription_contents_length [simp]: "length (subscription_contents s) = sb_count s"
  by (simp add: subscription_contents_def)

lemma subscription_contents_nil: "subscription_contents s = [] \<longleftrightarrow> sb_count s = 0"
  by (metis subscription_contents_length length_0_conv)

lemma push_to_contents:
  assumes "subscription_shape s" and "sb_count s < DEVICE_EVENT_QUEUE_CAPACITY"
  shows "subscription_contents (push_to event s) = subscription_contents s @ [event]"
  using assms ring_push [of "sb_count s" "sb_events s" "sb_head s" event]
  by (simp add: subscription_contents_def push_to_def subscription_shape_def)

lemma lose_oldest_contents:
  assumes "subscription_shape s" and "subscription_contents s \<noteq> []"
  shows "subscription_contents s = sb_events s ! sb_head s # subscription_contents (lose_oldest s)"
  using assms ring_pop [of "sb_count s" "sb_events s" "sb_head s"]
  by (simp add: subscription_contents_nil) (simp add: subscription_contents_def lose_oldest_def subscription_shape_def)

lemma push_to_shape:
  "subscription_shape s \<Longrightarrow> sb_count s < DEVICE_EVENT_QUEUE_CAPACITY \<Longrightarrow> subscription_shape (push_to event s)"
  by (simp add: subscription_shape_def push_to_def)

lemma lose_oldest_shape: "subscription_shape s \<Longrightarrow> subscription_shape (lose_oldest s)"
  by (auto simp: subscription_shape_def lose_oldest_def)

lemma subscription_shape_count: "subscription_shape s \<Longrightarrow> sb_count s \<le> DEVICE_EVENT_QUEUE_CAPACITY"
  by (simp add: subscription_shape_def)

interpretation device_queue: dropping_queue subscription_shape subscription_contents
  DEVICE_EVENT_QUEUE_CAPACITY push_to "\<lambda>event. event" "\<lambda>s. sb_events s ! sb_head s" lose_oldest publish_to
proof unfold_locales
  fix s event
  show "subscription_shape s \<Longrightarrow> publish_to event s = push_to event
      (if length (subscription_contents s) = DEVICE_EVENT_QUEUE_CAPACITY then lose_oldest s else s)"
    by (simp add: publish_to_def push_to_def lose_oldest_def)
qed (auto simp: push_to_contents push_to_shape lose_oldest_shape intro: lose_oldest_contents
    dest: subscription_shape_count)

lemma publish_to_fields [simp]:
  "sb_used (publish_to e s) = sb_used s" "sb_owner (publish_to e s) = sb_owner s"
  "sb_generation (publish_to e s) = sb_generation s"
  by (simp_all add: publish_to_def Let_def)

lemma fold_publish_fields [simp]:
  "sb_used (fold publish_to es s) = sb_used s" "sb_owner (fold publish_to es s) = sb_owner s"
  "sb_generation (fold publish_to es s) = sb_generation s"
  by (induction es arbitrary: s) simp_all

text \<open>The overflow flag is raised exactly when an event is lost.\<close>

lemma publish_to_overflow:
  "sb_overflow (publish_to e s) = (sb_overflow s \<or> sb_count s = DEVICE_EVENT_QUEUE_CAPACITY)"
  by (simp add: publish_to_def Let_def)

lemma fold_publish_overflow:
  assumes "subscription_shape s"
  shows "sb_overflow (fold publish_to es s) =
    (sb_overflow s \<or> DEVICE_EVENT_QUEUE_CAPACITY < sb_count s + length es)"
  using assms
proof (induction es rule: rev_induct)
  case Nil
  then show ?case using subscription_shape_count [of s] by simp
next
  case (snoc e es)
  have "sb_count (fold publish_to es s) = min (sb_count s + length es) DEVICE_EVENT_QUEUE_CAPACITY"
    using device_queue.fold_submit_contents [OF snoc.prems, of es]
    by (metis (no_types, lifting) length_drop length_append length_map subscription_contents_length
        diff_diff_cancel min_def nat_le_linear diff_is_0_eq diff_zero)
  with snoc show ?case by (auto simp: publish_to_overflow)
qed

section \<open>Publishing and reading\<close>

fun publish_all :: "(tabos_device_event_type \<times> tabos_device_info) list \<Rightarrow> device_state \<Rightarrow> device_state" where
  "publish_all [] st = st"
| "publish_all ((type, info) # rest) st = publish_all rest (publish_event type info st)"

definition plain_event :: "tabos_device_event_type \<times> tabos_device_info \<Rightarrow> tabos_device_event" where
  "plain_event p = \<lparr>dv_type = fst p, dv_flags = 0, dv_device = snd p\<rparr>"

lemma publish_all_subscription:
  assumes "i < length (subscriptions st)" and "sb_used (subscriptions st ! i)"
  shows "subscriptions (publish_all es st) ! i = fold publish_to (map plain_event es) (subscriptions st ! i) \<and>
    length (subscriptions (publish_all es st)) = length (subscriptions st) \<and>
    registry_mutex (publish_all es st) = registry_mutex st"
  using assms
proof (induction es arbitrary: st)
  case (Cons e es)
  obtain type info where e: "e = (type, info)" by fastforce
  let ?st = "publish_event type info st"
  have "subscriptions ?st ! i = publish_to (plain_event e) (subscriptions st ! i)"
    "length (subscriptions ?st) = length (subscriptions st)" "registry_mutex ?st = registry_mutex st"
    using Cons.prems by (simp_all add: publish_event_def plain_event_def e)
  with Cons.IH [of ?st] Cons.prems e show ?case by simp
qed simp

fun read_events :: "nat \<Rightarrow> nat \<Rightarrow> int \<Rightarrow> device_state \<Rightarrow> tabos_device_event list" where
  "read_events 0 owner handle st = []"
| "read_events (Suc n) owner handle st =
     (case device_registry_read_event owner handle True st of
        (_, None, st) \<Rightarrow> []
      | (_, Some event, st) \<Rightarrow> event # read_events n owner handle st)"

lemma subscription_for_handle_cong:
  assumes "sb_used (subs' ! unat ((word_of_int h :: u32) AND DEVICE_SUBSCRIPTION_INDEX_MASK)) =
      sb_used (subs ! unat ((word_of_int h :: u32) AND DEVICE_SUBSCRIPTION_INDEX_MASK))"
    and "sb_generation (subs' ! unat ((word_of_int h :: u32) AND DEVICE_SUBSCRIPTION_INDEX_MASK)) =
      sb_generation (subs ! unat ((word_of_int h :: u32) AND DEVICE_SUBSCRIPTION_INDEX_MASK))"
  shows "subscription_for_handle subs' h = subscription_for_handle subs h"
  using assms by (simp add: subscription_for_handle_def Let_def)

lemma owned_subscription_cong:
  assumes "owned_subscription owner h subs = Some i"
    and "sb_used (subs' ! i) = sb_used (subs ! i)" and "sb_generation (subs' ! i) = sb_generation (subs ! i)"
    and "sb_owner (subs' ! i) = sb_owner (subs ! i)"
  shows "owned_subscription owner h subs' = Some i"
proof -
  have i: "i = unat ((word_of_int h :: u32) AND DEVICE_SUBSCRIPTION_INDEX_MASK)"
    using assms(1) by (auto simp: owned_subscription_def subscription_for_handle_def Let_def split: if_splits)
  have "subscription_for_handle subs' h = subscription_for_handle subs h"
    by (rule subscription_for_handle_cong) (use assms(2,3) i in simp_all)
  with assms(1,4) show ?thesis
    by (auto simp: owned_subscription_def split: if_splits option.splits)
qed

text \<open>What \<open>n\<close> reads answer: the queued events in order, the first one flagged after a loss.\<close>

definition flag_first :: "bool \<Rightarrow> tabos_device_event list \<Rightarrow> tabos_device_event list" where
  "flag_first overflow events =
     (case events of [] \<Rightarrow> []
      | e # rest \<Rightarrow> (if overflow then e\<lparr>dv_flags := dv_flags e OR TABOS_DEVICE_EVENT_OVERFLOW\<rparr> else e) # rest)"

lemma read_events_contents:
  assumes "owned_subscription owner h (subscriptions st) = Some i" and "i < length (subscriptions st)"
    and "registry_mutex st" and "subscription_shape (subscriptions st ! i)"
  shows "read_events n owner h st =
    flag_first (sb_overflow (subscriptions st ! i)) (take n (subscription_contents (subscriptions st ! i)))"
  using assms
proof (induction n arbitrary: st)
  case 0
  then show ?case by (simp add: flag_first_def)
next
  case (Suc n)
  let ?s = "subscriptions st ! i"
  show ?case
  proof (cases "sb_count ?s = 0")
    case True
    with Suc.prems show ?thesis
      using subscription_contents_nil [of ?s] by (simp add: device_registry_read_event_def flag_first_def)
  next
    case False
    let ?s' = "?s\<lparr>sb_head := (sb_head ?s + 1) mod DEVICE_EVENT_QUEUE_CAPACITY,
      sb_count := sb_count ?s - 1, sb_overflow := False\<rparr>"
    let ?st = "st\<lparr>subscriptions := (subscriptions st)[i := ?s']\<rparr>"
    have c: "subscription_contents ?s = sb_events ?s ! sb_head ?s # subscription_contents ?s'"
      using lose_oldest_contents [OF Suc.prems(4)] False
      by (simp add: subscription_contents_nil) (simp add: lose_oldest_def subscription_contents_def)
    have "owned_subscription owner h (subscriptions ?st) = Some i"
      by (rule owned_subscription_cong [OF Suc.prems(1)]) (use Suc.prems(2) in simp_all)
    moreover have "subscription_shape ?s'" using Suc.prems(4) by (auto simp: subscription_shape_def)
    ultimately have "read_events n owner h ?st = flag_first False (take n (subscription_contents ?s'))"
      using Suc.IH [of ?st] Suc.prems(2,3) by simp
    moreover have "flag_first False es = es" for es by (simp add: flag_first_def split: list.split)
    ultimately show ?thesis
      using Suc.prems(1,3) False c by (simp add: device_registry_read_event_def flag_first_def Let_def)
  qed
qed

section \<open>The invariant of the registry\<close>

text \<open>
  While the registry runs: the count is the number of present devices, only used entries are
  present, every used entry has the identifier of its slot, and names of used entries are unique.
\<close>

definition registry_ok :: "device_state \<Rightarrow> bool" where
  "registry_ok st \<longleftrightarrow> length (entries st) = DEVICE_REGISTRY_CAPACITY \<and>
     registry_generation st \<le> DEVICE_ID_GENERATION_MAX \<and>
     active_count st = length (filter en_present (entries st)) \<and>
     (\<forall>i < DEVICE_REGISTRY_CAPACITY. en_present (entries st ! i) \<longrightarrow> en_used (entries st ! i)) \<and>
     (\<forall>i < DEVICE_REGISTRY_CAPACITY. en_used (entries st ! i) \<longrightarrow>
        di_id (en_info (entries st ! i)) = make_id (registry_generation st) i) \<and>
     (\<forall>i < DEVICE_REGISTRY_CAPACITY. \<forall>j < DEVICE_REGISTRY_CAPACITY.
        en_used (entries st ! i) \<and> en_used (entries st ! j) \<and>
        di_name (en_info (entries st ! i)) = di_name (en_info (entries st ! j)) \<longrightarrow> i = j)"

lemma make_id_layout:
  assumes "i < DEVICE_REGISTRY_CAPACITY" and "g \<le> DEVICE_ID_GENERATION_MAX"
  shows "decode_id g (make_id g i) = Some i"
proof -
  have "unat g \<le> unat DEVICE_ID_GENERATION_MAX" using assms(2) by (simp add: word_le_nat_alt)
  then have g: "unat g < 2 ^ (32 - 6)" by (simp add: DEVICE_ID_GENERATION_MAX_def)
  have n: "i + 1 < 2 ^ 6" and b: "6 \<le> (32::nat)" using assms(1) by (simp_all add: DEVICE_REGISTRY_CAPACITY_def)
  note l = handle_layout [OF n g b]
  have m: "DEVICE_ID_SLOT_MASK = mask 6" by (simp add: DEVICE_ID_SLOT_MASK_def mask_eq_exp_minus_1)
  have u: "unat (word_of_nat (i + 1) :: u32) = i + 1"
    using n by (simp only: unsigned_of_nat) (simp add: take_bit_nat_eq_self)
  have low: "unat (make_id g i AND DEVICE_ID_SLOT_MASK) = i + 1"
    using l(1) u by (simp only: make_id_def DEVICE_ID_SLOT_BITS_def m)
  have high: "drop_bit DEVICE_ID_SLOT_BITS (make_id g i) = g"
    using l(2) by (simp only: make_id_def DEVICE_ID_SLOT_BITS_def)
  have "make_id g i \<noteq> 0" using low by auto
  moreover have "make_id g i \<noteq> DEVICE_ID_INVALID"
  proof
    assume "make_id g i = DEVICE_ID_INVALID"
    then have "i + 1 = 63" using low by (simp add: DEVICE_ID_INVALID_def DEVICE_ID_SLOT_MASK_def)
    with assms(1) show False by (simp add: DEVICE_REGISTRY_CAPACITY_def)
  qed
  ultimately show ?thesis
    using assms(1) by (simp add: decode_id_def Let_def low high)
qed

lemma decode_id_slot: "decode_id g d = Some slot \<Longrightarrow> slot < DEVICE_REGISTRY_CAPACITY"
  by (auto simp: decode_id_def Let_def split: if_splits)

lemma active_entry_slot:
  assumes "active_entry d st = Some slot"
  shows "slot < DEVICE_REGISTRY_CAPACITY \<and> en_used (entries st ! slot) \<and> en_present (entries st ! slot) \<and>
    di_id (en_info (entries st ! slot)) = d"
  using assms decode_id_slot by (auto simp: active_entry_def Let_def split: option.splits if_splits)

lemma active_entry_make_id:
  assumes "registry_ok st" and "i < DEVICE_REGISTRY_CAPACITY"
  shows "active_entry (make_id (registry_generation st) i) st =
    (if en_present (entries st ! i) then Some i else None)"
  using assms make_id_layout [OF assms(2), of "registry_generation st"]
  by (auto simp: active_entry_def registry_ok_def)

lemma publish_event_fields [simp]:
  "entries (publish_event t i st) = entries st" "registry_generation (publish_event t i st) = registry_generation st"
  "active_count (publish_event t i st) = active_count st" "registry_mutex (publish_event t i st) = registry_mutex st"
  "next_registry_generation (publish_event t i st) = next_registry_generation st"
  by (simp_all add: publish_event_def)

lemma registry_ok_frame:
  "entries st' = entries st \<Longrightarrow> registry_generation st' = registry_generation st \<Longrightarrow>
     active_count st' = active_count st \<Longrightarrow> registry_ok st' = registry_ok st"
  by (simp add: registry_ok_def)

lemma name_unused:
  "\<not> name_used name st \<Longrightarrow> i < length (entries st) \<Longrightarrow> en_used (entries st ! i) \<Longrightarrow>
     di_name (en_info (entries st ! i)) \<noteq> name"
  unfolding name_used_def by (metis nth_mem)

text \<open>A successful registration fills the first unused slot.\<close>

lemma register_cases:
  obtains (fail) "device_registry_register registration st = (DEVICE_ID_INVALID, st)"
  | (added) r slot info where "registration = Some r"
      and "slot = length (takeWhile en_used (entries st))" and "slot \<noteq> DEVICE_REGISTRY_CAPACITY"
      and "\<not> name_used (the (rg_name r)) st" and "registry_mutex st"
      and "info = \<lparr>di_id = make_id (registry_generation st) slot, di_class = rg_class r,
        di_state = rg_state r, di_features = rg_features r, di_last_error = rg_last_error r,
        di_name = the (rg_name r), di_driver = the (rg_driver r)\<rparr>"
      and "device_registry_register registration st =
        (di_id info, publish_event TABOS_DEVICE_EVENT_ADDED info
          (st\<lparr>entries := (entries st)[slot := \<lparr>en_info = info, en_used = True, en_present = True\<rparr>],
              active_count := active_count st + 1\<rparr>))"
proof (cases registration)
  case None
  then show thesis using fail by (simp add: device_registry_register_def)
next
  case (Some r)
  show thesis
  proof (cases "registry_mutex st \<and> valid_text (rg_name r) TABOS_DEVICE_NAME_MAX \<and>
      valid_text (rg_driver r) TABOS_DEVICE_DRIVER_MAX \<and> valid_class (rg_class r) \<and>
      valid_state (rg_state r) \<and> \<not> name_used (the (rg_name r)) st \<and>
      length (takeWhile en_used (entries st)) \<noteq> DEVICE_REGISTRY_CAPACITY")
    case True
    then show thesis
      by (intro added [OF Some refl _ _ _ refl]) (simp_all add: device_registry_register_def Some Let_def)
  next
    case False
    then show thesis using fail by (auto simp: device_registry_register_def Some Let_def)
  qed
qed

lemma register_slot:
  assumes "registry_ok st" and "slot = length (takeWhile en_used (entries st))"
    and "slot \<noteq> DEVICE_REGISTRY_CAPACITY"
  shows "slot < DEVICE_REGISTRY_CAPACITY" "\<not> en_used (entries st ! slot)" "\<not> en_present (entries st ! slot)"
proof -
  have len: "length (entries st) = DEVICE_REGISTRY_CAPACITY" using assms(1) by (simp add: registry_ok_def)
  have "slot \<le> DEVICE_REGISTRY_CAPACITY" using length_takeWhile_le [of en_used "entries st"] assms(2) len by simp
  then show slot: "slot < DEVICE_REGISTRY_CAPACITY" using assms(3) by simp
  show "\<not> en_used (entries st ! slot)"
    using nth_length_takeWhile [of en_used "entries st"] slot len assms(2) by simp
  then show "\<not> en_present (entries st ! slot)" using assms(1) slot by (auto simp: registry_ok_def)
qed

lemma register_ok:
  assumes "registry_ok st"
  shows "registry_ok (snd (device_registry_register registration st))"
proof (cases rule: register_cases [of registration st])
  case fail
  with assms show ?thesis by simp
next
  case (added r slot info)
  have len: "length (entries st) = DEVICE_REGISTRY_CAPACITY" using assms by (simp add: registry_ok_def)
  note slot = register_slot [OF assms added(2,3)]
  let ?es = "(entries st)[slot := \<lparr>en_info = info, en_used = True, en_present = True\<rparr>]"
  have count: "length (filter en_present ?es) = length (filter en_present (entries st)) + 1"
    using length_filter_update [of slot "entries st" en_present] slot len by simp
  have "di_name info = the (rg_name r)" by (simp add: added(6))
  then have names: "en_used (entries st ! i) \<Longrightarrow> i < DEVICE_REGISTRY_CAPACITY \<Longrightarrow>
      (di_name (en_info (entries st ! i)) = di_name info) = False \<and>
      (di_name info = di_name (en_info (entries st ! i))) = False" for i
    using name_unused [OF added(4), of i] len by auto
  have info_id: "di_id info = make_id (registry_generation st) slot" by (simp add: added(6))
  have "registry_ok (st\<lparr>entries := ?es, active_count := active_count st + 1\<rparr>)"
    using assms len slot(1) count names info_id
    unfolding registry_ok_def by (auto simp: nth_list_update)
  then show ?thesis by (simp add: added(7) registry_ok_def)
qed

lemma remove_ok:
  assumes "registry_ok st"
  shows "registry_ok (snd (device_registry_remove d st))"
proof (cases "active_entry d st")
  case None
  with assms show ?thesis by (simp add: device_registry_remove_def)
next
  case (Some slot)
  note s = active_entry_slot [OF Some]
  have len: "length (entries st) = DEVICE_REGISTRY_CAPACITY" using assms by (simp add: registry_ok_def)
  let ?es = "(entries st)[slot := (entries st ! slot)\<lparr>en_present := False\<rparr>]"
  have "length (filter en_present ?es) = length (filter en_present (entries st)) - 1"
    using length_filter_update [of slot "entries st" en_present "(entries st ! slot)\<lparr>en_present := False\<rparr>"]
      s len by simp
  moreover have "en_used (?es ! i) = en_used (entries st ! i)" "en_info (?es ! i) = en_info (entries st ! i)" for i
    by (rule nth_update_field, simp)+
  moreover have "en_present (?es ! i) \<Longrightarrow> en_present (entries st ! i)" if "i < DEVICE_REGISTRY_CAPACITY" for i
    using that len s by (simp add: nth_list_update split: if_splits)
  ultimately have "registry_ok (st\<lparr>entries := ?es, active_count := active_count st - 1\<rparr>)"
    using assms unfolding registry_ok_def by simp
  then have "registry_ok ((publish_event TABOS_DEVICE_EVENT_REMOVED (en_info (entries st ! slot)) st)
      \<lparr>entries := ?es, active_count := active_count st - 1\<rparr>)"
    by (subst registry_ok_frame [of _ "st\<lparr>entries := ?es, active_count := active_count st - 1\<rparr>"]) simp_all
  with Some assms show ?thesis by (simp add: device_registry_remove_def Let_def)
qed

lemma set_state_ok:
  assumes "registry_ok st"
  shows "registry_ok (snd (device_registry_set_state d state last_error st))"
proof (cases "active_entry d st")
  case None
  with assms show ?thesis by (simp add: device_registry_set_state_def)
next
  case (Some slot)
  note s = active_entry_slot [OF Some]
  let ?info = "(en_info (entries st ! slot))\<lparr>di_state := state, di_last_error := last_error\<rparr>"
  let ?es = "(entries st)[slot := (entries st ! slot)\<lparr>en_info := ?info\<rparr>]"
  have len: "length (entries st) = DEVICE_REGISTRY_CAPACITY" using assms by (simp add: registry_ok_def)
  have "length (filter en_present ?es) = length (filter en_present (entries st))"
    using length_filter_update [of slot "entries st" en_present "(entries st ! slot)\<lparr>en_info := ?info\<rparr>"] s len
    by (simp split: if_splits)
  moreover have "en_used (?es ! i) = en_used (entries st ! i)"
    "en_present (?es ! i) = en_present (entries st ! i)"
    "di_id (en_info (?es ! i)) = di_id (en_info (entries st ! i))"
    "di_name (en_info (?es ! i)) = di_name (en_info (entries st ! i))" for i
    by (rule nth_update_field [where f = en_used] nth_update_field [where f = en_present]
        nth_update_field [where f = "\<lambda>e. di_id (en_info e)"]
        nth_update_field [where f = "\<lambda>e. di_name (en_info e)"], simp)+
  ultimately have "registry_ok (st\<lparr>entries := ?es\<rparr>)"
    using assms unfolding registry_ok_def by simp
  with Some assms show ?thesis
    by (auto simp: device_registry_set_state_def Let_def registry_ok_frame [of "publish_event _ _ st'" st' for st'])
qed

datatype device_op =
    D_register "device_registry_registration option"
  | D_remove u32
  | D_set_state u32 int int
  | D_subscribe nat
  | D_unsubscribe nat int
  | D_unsubscribe_owner nat
  | D_read nat int bool

fun device_step :: "device_op \<Rightarrow> device_state \<Rightarrow> device_state" where
  "device_step (D_register r) st = snd (device_registry_register r st)"
| "device_step (D_remove d) st = snd (device_registry_remove d st)"
| "device_step (D_set_state d state e) st = snd (device_registry_set_state d state e st)"
| "device_step (D_subscribe owner) st = snd (device_registry_subscribe owner st)"
| "device_step (D_unsubscribe owner h) st = snd (device_registry_unsubscribe owner h st)"
| "device_step (D_unsubscribe_owner owner) st = device_registry_unsubscribe_owner owner st"
| "device_step (D_read owner h event) st = snd (snd (device_registry_read_event owner h event st))"

fun device_run :: "device_op list \<Rightarrow> device_state \<Rightarrow> device_state" where
  "device_run [] st = st"
| "device_run (op # rest) st = device_run rest (device_step op st)"

text \<open>Subscription calls do not touch the devices.\<close>

lemma subscription_calls_frame:
  assumes "op \<in> {D_subscribe owner, D_unsubscribe owner h, D_unsubscribe_owner owner, D_read owner h event}"
  shows "entries (device_step op st) = entries st" "registry_generation (device_step op st) = registry_generation st"
    "active_count (device_step op st) = active_count st"
  using assms
  by (auto simp: device_registry_subscribe_def device_registry_unsubscribe_def Let_def
      device_registry_unsubscribe_owner_def device_registry_read_event_def split: option.split)

lemma device_step_ok: "registry_ok st \<Longrightarrow> registry_ok (device_step op st)"
proof (cases op)
  case (D_subscribe owner)
  then show "registry_ok st \<Longrightarrow> ?thesis"
    using registry_ok_frame subscription_calls_frame [of op owner] by blast
next
  case (D_unsubscribe owner h)
  then show "registry_ok st \<Longrightarrow> ?thesis"
    using registry_ok_frame subscription_calls_frame [of op owner h] by blast
next
  case (D_unsubscribe_owner owner)
  then show "registry_ok st \<Longrightarrow> ?thesis"
    using registry_ok_frame subscription_calls_frame [of op owner] by blast
next
  case (D_read owner h event)
  then show "registry_ok st \<Longrightarrow> ?thesis"
    using registry_ok_frame subscription_calls_frame [of op owner h event] by blast
qed (simp_all add: register_ok remove_ok set_state_ok)

lemma device_run_ok: "registry_ok st \<Longrightarrow> registry_ok (device_run calls st)"
  by (induction calls arbitrary: st) (auto intro: device_step_ok)

text \<open>The slot of a removed device stays used and absent.\<close>

definition retired :: "nat \<Rightarrow> device_state \<Rightarrow> bool" where
  "retired i st \<longleftrightarrow> i < DEVICE_REGISTRY_CAPACITY \<and> en_used (entries st ! i) \<and> \<not> en_present (entries st ! i)"

lemma device_step_retired:
  assumes "registry_ok st" and "retired i st"
  shows "retired i (device_step op st) \<and> registry_generation (device_step op st) = registry_generation st"
proof (cases op)
  case (D_register registration)
  show ?thesis
  proof (cases rule: register_cases [of registration st])
    case fail
    with assms(2) D_register show ?thesis by simp
  next
    case (added r slot info)
    have "slot \<noteq> i" using register_slot [OF assms(1) added(2,3)] assms(2) by (auto simp: retired_def)
    with assms(2) D_register show ?thesis by (simp add: added(7) retired_def)
  qed
next
  case (D_remove d)
  show ?thesis
  proof (cases "active_entry d st")
    case None
    with assms(2) D_remove show ?thesis by (simp add: device_registry_remove_def)
  next
    case (Some slot)
    then have "slot \<noteq> i" using active_entry_slot [OF Some] assms(2) by (auto simp: retired_def)
    with assms(2) D_remove Some show ?thesis by (simp add: device_registry_remove_def retired_def Let_def)
  qed
next
  case (D_set_state d state e)
  show ?thesis
  proof (cases "active_entry d st")
    case None
    with assms(2) D_set_state show ?thesis by (simp add: device_registry_set_state_def)
  next
    case (Some slot)
    then have "slot \<noteq> i" using active_entry_slot [OF Some] assms(2) by (auto simp: retired_def)
    with assms(2) D_set_state Some show ?thesis
      by (simp add: device_registry_set_state_def retired_def Let_def)
  qed
qed (use assms(2) in \<open>auto simp: retired_def device_registry_subscribe_def device_registry_unsubscribe_def
    Let_def device_registry_unsubscribe_owner_def device_registry_read_event_def split: option.split\<close>)

lemma device_run_retired:
  "registry_ok st \<Longrightarrow> retired i st \<Longrightarrow>
     retired i (device_run calls st) \<and> registry_generation (device_run calls st) = registry_generation st"
proof (induction calls arbitrary: st)
  case (Cons op calls)
  then show ?case using device_step_retired [of st i op] device_step_ok [of st op] by simp
qed simp

lemma device_init_ok:
  assumes "\<not> registry_mutex st" and "next_registry_generation st \<le> DEVICE_ID_GENERATION_MAX"
  shows "registry_ok (snd (device_registry_init True st)) \<and> registry_mutex (snd (device_registry_init True st))"
  using assms by (simp add: device_registry_init_def Let_def registry_ok_def entry_zero_def)

lemma device_step_mutex: "registry_mutex (device_step op st) = registry_mutex st"
  by (cases op)
    (auto simp: device_registry_register_def device_registry_remove_def device_registry_set_state_def
      device_registry_subscribe_def device_registry_unsubscribe_def Let_def
      device_registry_unsubscribe_owner_def device_registry_read_event_def split: option.split)

lemma device_run_mutex: "registry_mutex (device_run calls st) = registry_mutex st"
  by (induction calls arbitrary: st) (simp_all add: device_step_mutex)

section \<open>Looking devices up\<close>

lemma present_at_nth:
  "present_at k es = (if k < length (filter en_present es) then Some (en_info (filter en_present es ! k)) else None)"
proof (induction es arbitrary: k)
  case (Cons e es)
  show ?case by (cases "en_present e"; cases k) (simp_all add: Cons)
qed simp

lemma present_found:
  assumes "registry_ok st" and "registry_mutex st" and "i < DEVICE_REGISTRY_CAPACITY"
    and "en_present (entries st ! i)"
  defines "info \<equiv> en_info (entries st ! i)"
  shows "device_registry_get (di_id info) True st = Some info \<and>
    device_registry_find (Some (di_name info)) True st = Some info"
proof -
  have used: "en_used (entries st ! i)" and len: "length (entries st) = DEVICE_REGISTRY_CAPACITY"
    using assms(1,3,4) by (auto simp: registry_ok_def)
  have "di_id info = make_id (registry_generation st) i"
    using assms(1,3) used by (simp add: registry_ok_def info_def)
  then have 1: "device_registry_get (di_id info) True st = Some info"
    using active_entry_make_id [OF assms(1,3)] assms(2,4) by (simp add: device_registry_get_def info_def)
  let ?P = "\<lambda>entry. en_present entry \<and> di_name (en_info entry) = di_name info"
  have "?P (entries st ! i)" "entries st ! i \<in> set (entries st)"
    using assms(3,4) len by (simp_all add: info_def)
  then have "find ?P (entries st) \<noteq> None" unfolding find_None_iff by blast
  then obtain e where e: "find ?P (entries st) = Some e" by blast
  then obtain j where j: "j < length (entries st)" "?P (entries st ! j)" "e = entries st ! j"
    unfolding find_Some_iff by blast
  have present_used: "\<forall>i < DEVICE_REGISTRY_CAPACITY. en_present (entries st ! i) \<longrightarrow> en_used (entries st ! i)"
    and unique: "\<forall>i < DEVICE_REGISTRY_CAPACITY. \<forall>j < DEVICE_REGISTRY_CAPACITY.
      en_used (entries st ! i) \<and> en_used (entries st ! j) \<and>
      di_name (en_info (entries st ! i)) = di_name (en_info (entries st ! j)) \<longrightarrow> i = j"
    using assms(1) unfolding registry_ok_def by blast+
  have "en_used (entries st ! j)" using present_used j(1,2) len by simp
  then have "j = i" using unique used assms(3) j(1,2) len by (simp add: info_def)
  then have "device_registry_find (Some (di_name info)) True st = Some info"
    using e j(3) assms(2) by (simp add: device_registry_find_def info_def)
  with 1 show ?thesis by blast
qed

section \<open>Properties\<close>

definition demo_devices :: device_state where
  "demo_devices = snd (device_registry_init True \<lparr>entries = [], subscriptions = [], registry_mutex = False,
     registry_generation = 0, next_registry_generation = 1, active_count = 0\<rparr>)"

definition demo_rtc :: device_registry_registration where
  "demo_rtc = \<lparr>rg_name = Some ''rtc0'', rg_driver = Some ''rx8130'', rg_class = 3, rg_state = 0,
     rg_features = 8, rg_last_error = 0\<rparr>"

lemma demo_devices_ok: "registry_ok demo_devices" "registry_mutex demo_devices"
  using device_init_ok [of "\<lparr>entries = [], subscriptions = [], registry_mutex = False,
     registry_generation = 0, next_registry_generation = 1, active_count = 0\<rparr>"]
  by (simp_all add: demo_devices_def DEVICE_ID_GENERATION_MAX_def)

text \<open>
  The registry is a consistent directory: after a start and any calls, indices below the count
  and only those name a device, and the device listed at an index is the one its identifier and
  its name look up.
\<close>
theorem device_directory:
  fixes calls :: "device_op list"
  assumes "\<not> registry_mutex st" and "next_registry_generation st \<le> DEVICE_ID_GENERATION_MAX"
  defines "st' \<equiv> device_run calls (snd (device_registry_init True st))"
  shows "case device_registry_at k True st' of
      None \<Rightarrow> device_registry_count st' \<le> k
    | Some info \<Rightarrow> k < device_registry_count st' \<and>
        device_registry_get (di_id info) True st' = Some info \<and>
        device_registry_find (Some (di_name info)) True st' = Some info"
proof -
  have ok: "registry_ok st'" and m: "registry_mutex st'"
    using device_init_ok [OF assms(1,2)] by (simp_all add: st'_def device_run_ok device_run_mutex)
  have count: "device_registry_count st' = length (filter en_present (entries st'))"
    using ok m by (simp add: device_registry_count_def registry_ok_def)
  show ?thesis
  proof (cases "k < length (filter en_present (entries st'))")
    case True
    let ?e = "filter en_present (entries st') ! k"
    have "?e \<in> set (filter en_present (entries st'))" using True by (rule nth_mem)
    then obtain i where i: "i < length (entries st')" "entries st' ! i = ?e" "en_present ?e"
      by (auto simp: in_set_conv_nth)
    moreover have "length (entries st') = DEVICE_REGISTRY_CAPACITY" using ok by (simp add: registry_ok_def)
    ultimately show ?thesis
      using present_found [OF ok m, of i] True m count
      by (simp add: device_registry_at_def present_at_nth)
  next
    case False
    then show ?thesis using m count by (simp add: device_registry_at_def present_at_nth)
  qed
qed

theorem device_directory_witness:
  "device_registry_count (device_run [D_register (Some demo_rtc)] demo_devices) \<le> 1"
proof -
  have "device_registry_at 1 True (device_run [D_register (Some demo_rtc)] demo_devices) = None" by code_simp
  then show ?thesis
    using device_directory [of "\<lparr>entries = [], subscriptions = [], registry_mutex = False,
      registry_generation = 0, next_registry_generation = 1, active_count = 0\<rparr>" "[D_register (Some demo_rtc)]" 1]
    by (simp add: demo_devices_def DEVICE_ID_GENERATION_MAX_def)
qed



text \<open>
  C24. A subscriber never loses an event silently: after any published events its reads answer, in
  order, the newest 32 of the events that were pending and those published, and the first one read
  carries the overflow flag exactly when an event was lost since the last read.
\<close>
theorem device_events_reported:
  assumes "owned_subscription owner h (subscriptions st) = Some i" and "i < length (subscriptions st)"
    and "registry_mutex st" and "subscription_shape (subscriptions st ! i)"
  defines "sub \<equiv> subscriptions st ! i"
  shows "read_events n owner h (publish_all es st) =
    flag_first (sb_overflow sub \<or> DEVICE_EVENT_QUEUE_CAPACITY < sb_count sub + length es)
      (take n (drop (sb_count sub + length es - DEVICE_EVENT_QUEUE_CAPACITY)
        (subscription_contents sub @ map plain_event es)))"
proof -
  have used: "sb_used sub"
    using assms(1) by (auto simp: sub_def owned_subscription_def subscription_for_handle_def Let_def
        split: if_splits option.splits)
  note p = publish_all_subscription [OF assms(2) used [unfolded sub_def], of es, folded sub_def]
  let ?sub = "fold publish_to (map plain_event es) sub"
  have "owned_subscription owner h (subscriptions (publish_all es st)) = Some i"
    by (rule owned_subscription_cong [OF assms(1)]) (use p in \<open>simp_all add: sub_def\<close>)
  moreover have "subscription_shape ?sub" "subscription_contents ?sub =
      drop (sb_count sub + length es - DEVICE_EVENT_QUEUE_CAPACITY) (subscription_contents sub @ map plain_event es)"
    using device_queue.fold_submit_contents [of sub "map plain_event es"] assms(4) by (simp_all add: sub_def)
  moreover have "sb_overflow ?sub = (sb_overflow sub \<or> DEVICE_EVENT_QUEUE_CAPACITY < sb_count sub + length es)"
    using fold_publish_overflow [of sub "map plain_event es"] assms(4) by (simp add: sub_def)
  ultimately show ?thesis
    using read_events_contents [of owner h "publish_all es st" i n] p assms(2,3) by simp
qed

theorem device_events_reported_witness:
  "read_events 2 5 16 (publish_all [(TABOS_DEVICE_EVENT_ADDED, device_info_zero)]
     (snd (device_registry_subscribe 5 demo_devices))) = [plain_event (TABOS_DEVICE_EVENT_ADDED, device_info_zero)]"
proof -
  let ?st = "snd (device_registry_subscribe 5 demo_devices)"
  have o: "owned_subscription 5 16 (subscriptions ?st) = Some 0" by code_simp
  have l: "0 < length (subscriptions ?st)" and m: "registry_mutex ?st" by code_simp+
  have z: "subscriptions ?st ! 0 = subscription_zero\<lparr>sb_owner := 5, sb_generation := 1, sb_used := True\<rparr>"
    by code_simp
  have s: "subscription_shape (subscriptions ?st ! 0)"
    unfolding z by (simp add: subscription_shape_def subscription_zero_def)
  show ?thesis
    using device_events_reported [OF o l m s, of 2 "[(TABOS_DEVICE_EVENT_ADDED, device_info_zero)]"]
    unfolding z by (simp add: subscription_zero_def subscription_contents_def flag_first_def
        DEVICE_EVENT_QUEUE_CAPACITY_def)
qed

end
