(* ===== verification/Raster.thy ===== *)
theory Raster
  imports TabPrelude
begin

text \<open>
  The software rasteriser of \<^verbatim>\<open>src/graphics/raster.c\<close>, pixel by pixel. A frame buffer is the list of pixels from its base
  address on, with its width, its height and the distance \<open>fb_stride\<close> between two rows; the
  list may be longer than the picture, so a theorem that only visible pixels change also says
  that no store leaves the picture. The null frame buffer and the one without pixels are
  \<^const>\<open>None\<close>. Coordinates are \<^typ>\<open>int\<close> and sizes \<^typ>\<open>nat\<close>: the code computes with them in 64 bits
  from 32-bit inputs, so nothing wraps. The bitmap that is blitted is another object than the
  frame buffer. The platform hooks are those of the host build
  (\<^verbatim>\<open>src/platform/host/sdl/display.c\<close>), which accelerate nothing.

  Main results: \<open>updates_raster_fill\<close> and \<open>raster_blit_exact\<close> give every pixel of the result;
  \<open>raster_blit_fast_path\<close> shows that the span loop of the unscaled blit computes what the
  sampling loop computes; \<open>blit_reads_source\<close> that a blit reads inside its bitmap, and
  \<open>blend_channels\<close> that channels are mixed apart.
\<close>

section \<open>Data\<close>

type_synonym pixel = u16

record framebuffer =
  fb_pixels :: "pixel list"
  fb_width :: nat
  fb_height :: nat
  fb_stride :: nat

datatype rotation = ROTATE_0 | ROTATE_90 | ROTATE_180 | ROTATE_270

record rect =
  rect_x :: int
  rect_y :: int
  rect_width :: nat
  rect_height :: nat

record blit_options =
  bitmap :: "pixel list"
  bitmap_width :: nat
  bitmap_height :: nat
  blit_source :: rect
  blit_destination :: rect
  blit_rotation :: rotation
  mirror_x :: bool
  mirror_y :: bool
  blit_opacity :: u8
  color_key_enabled :: bool
  color_key_low :: pixel
  color_key_high :: pixel

section \<open>Spans\<close>

definition platform_raster_fill_span :: "pixel list \<Rightarrow> nat \<Rightarrow> nat \<Rightarrow> pixel \<Rightarrow> pixel list option" where
  "platform_raster_fill_span memory destination count color = None"

definition platform_raster_copy_span ::
    "pixel list \<Rightarrow> nat \<Rightarrow> pixel list \<Rightarrow> nat \<Rightarrow> nat \<Rightarrow> pixel list option" where
  "platform_raster_copy_span memory destination source source_at count = None"

definition raster_fill_span :: "pixel list \<Rightarrow> nat \<Rightarrow> nat \<Rightarrow> pixel \<Rightarrow> pixel list" where
  "raster_fill_span memory destination count color =
     (if count = 0 then memory
      else
        (case platform_raster_fill_span memory destination count color of
           Some memory' \<Rightarrow> memory'
         | None \<Rightarrow> fold (\<lambda>index m. m[destination + index := color]) [0..<count] memory))"

definition raster_copy_span :: "pixel list \<Rightarrow> nat \<Rightarrow> pixel list \<Rightarrow> nat \<Rightarrow> nat \<Rightarrow> pixel list" where
  "raster_copy_span memory destination source source_at count =
     (if count = 0 then memory
      else
        (case platform_raster_copy_span memory destination source source_at count of
           Some memory' \<Rightarrow> memory'
         | None \<Rightarrow>
             fold (\<lambda>index m. m[destination + index := source ! (source_at + index)]) [0..<count] memory))"

section \<open>Filled rectangles\<close>

definition raster_fill ::
    "framebuffer option \<Rightarrow> int \<Rightarrow> int \<Rightarrow> nat \<Rightarrow> nat \<Rightarrow> pixel \<Rightarrow> framebuffer option" where
  "raster_fill framebuffer x y width height color =
     (case framebuffer of
        None \<Rightarrow> None
      | Some fb \<Rightarrow>
          if width = 0 \<or> height = 0 then Some fb
          else
            (let right = x + int width;
                 bottom = y + int height
             in if right \<le> 0 \<or> bottom \<le> 0 then Some fb
                else
                  (let left = (if x < 0 then 0 else nat x);
                       top = (if y < 0 then 0 else nat y);
                       clipped_right = (if fb_width fb < nat right then fb_width fb else nat right);
                       clipped_bottom = (if fb_height fb < nat bottom then fb_height fb else nat bottom)
                   in if clipped_right \<le> left \<or> clipped_bottom \<le> top then Some fb
                      else
                        Some (fb\<lparr>fb_pixels :=
                          fold (\<lambda>row m. raster_fill_span m (row * fb_stride fb + left)
                                  (clipped_right - left) color)
                            [top..<clipped_bottom] (fb_pixels fb)\<rparr>))))"

section \<open>Colours\<close>

definition keyed :: "pixel \<Rightarrow> pixel \<Rightarrow> pixel \<Rightarrow> bool" where
  "keyed color low high =
     (let red = and (drop_bit 11 color) 31;
          green = and (drop_bit 5 color) 63;
          blue = and color 31
      in and (drop_bit 11 low) 31 \<le> red \<and> red \<le> and (drop_bit 11 high) 31 \<and>
         and (drop_bit 5 low) 63 \<le> green \<and> green \<le> and (drop_bit 5 high) 63 \<and>
         and low 31 \<le> blue \<and> blue \<le> and high 31)"

definition blend :: "pixel \<Rightarrow> pixel \<Rightarrow> u8 \<Rightarrow> pixel" where
  "blend source destination opacity =
     (let s = ucast source :: u32;
          d = ucast destination :: u32;
          o8 = ucast opacity :: u32;
          inverse = 255 - o8;
          red = (and (drop_bit 11 s) 31 * o8 + and (drop_bit 11 d) 31 * inverse + 127) div 255;
          green = (and (drop_bit 5 s) 63 * o8 + and (drop_bit 5 d) 63 * inverse + 127) div 255;
          blue = (and s 31 * o8 + and d 31 * inverse + 127) div 255
      in ucast (or (or (push_bit 11 red) (push_bit 5 green)) blue))"

section \<open>Blitting\<close>

function scan_while :: "(nat \<Rightarrow> bool) \<Rightarrow> nat \<Rightarrow> nat \<Rightarrow> nat" where
  "scan_while P column count =
     (if column < count \<and> P column then scan_while P (column + 1) count else column)"
  by pat_completeness auto

termination by (relation "measure (\<lambda>(P, column, count). count - column)") auto

declare scan_while.simps [simp del]

lemma scan_while_ge: "column \<le> scan_while P column count"
proof (induction P column count rule: scan_while.induct)
  case (1 P column count)
  show ?case
  proof (cases "column < count \<and> P column")
    case True
    then show ?thesis using 1 by (simp add: scan_while.simps [of P column count])
  next
    case False
    then show ?thesis by (auto simp: scan_while.simps [of P column count])
  qed
qed

lemma scan_while_le: "column \<le> count \<Longrightarrow> scan_while P column count \<le> count"
proof (induction P column count rule: scan_while.induct)
  case (1 P column count)
  then show ?case by (subst scan_while.simps) simp
qed

lemma scan_while_holds: "column \<le> k \<Longrightarrow> k < scan_while P column count \<Longrightarrow> P k"
proof (induction P column count rule: scan_while.induct)
  case (1 P column count)
  show ?case
  proof (cases "column < count \<and> P column \<and> k \<noteq> column")
    case True
    then have "k < scan_while P (column + 1) count" and "column + 1 \<le> k"
      using 1(2,3) scan_while.simps [of P column count] by auto
    then show ?thesis using 1(1) True by blast
  next
    case False
    then show ?thesis using 1(2,3) scan_while.simps [of P column count] by (auto split: if_splits)
  qed
qed

lemma scan_while_stop: "scan_while P column count < count \<Longrightarrow> \<not> P (scan_while P column count)"
proof (induction P column count rule: scan_while.induct)
  case (1 P column count)
  show ?case
  proof (cases "column < count \<and> P column")
    case True
    then have "scan_while P column count = scan_while P (column + 1) count"
      by (simp add: scan_while.simps [of P column count])
    then show ?thesis using 1 True by simp
  next
    case False
    then have "scan_while P column count = column" by (auto simp: scan_while.simps [of P column count])
    then show ?thesis using False 1(2) by auto
  qed
qed

lemma scan_while_progress:
  assumes "column < count"
  shows "column < scan_while (\<lambda>c. \<not> P c) (scan_while P column count) count"
proof (cases "P column")
  case True
  then have "column + 1 \<le> scan_while P column count"
    using assms scan_while_ge [of "column + 1" P count] by (simp add: scan_while.simps [of P column])
  also have "\<dots> \<le> scan_while (\<lambda>c. \<not> P c) (scan_while P column count) count" by (rule scan_while_ge)
  finally show ?thesis by simp
next
  case False
  then have "scan_while P column count = column" by (simp add: scan_while.simps [of P column])
  then show ?thesis
    using False assms scan_while_ge [of "column + 1" "\<lambda>c. \<not> P c" count]
    by (simp add: scan_while.simps [of "\<lambda>c. \<not> P c" column])
qed

function copy_unkeyed :: "(pixel \<Rightarrow> bool) \<Rightarrow> pixel list \<Rightarrow> nat \<Rightarrow> nat \<Rightarrow> nat \<Rightarrow> nat \<Rightarrow> pixel list \<Rightarrow> pixel list" where
  "copy_unkeyed key source source_at destination count column memory =
     (if column < count then
        (let start = scan_while (\<lambda>c. key (source ! (source_at + c))) column count;
             stop = scan_while (\<lambda>c. \<not> key (source ! (source_at + c))) start count
         in copy_unkeyed key source source_at destination count stop
              (raster_copy_span memory (destination + start) source (source_at + start) (stop - start)))
      else memory)"
  by pat_completeness auto

termination
  by (relation "measure (\<lambda>(key, source, source_at, destination, count, column, memory). count - column)")
     (auto simp: intro!: diff_less_mono2 scan_while_progress)

declare copy_unkeyed.simps [simp del]

definition blit_accepted :: "blit_options \<Rightarrow> bool" where
  "blit_accepted options \<longleftrightarrow>
     \<not> (bitmap_width options = 0 \<or> bitmap_height options = 0 \<or>
        rect_width (blit_source options) = 0 \<or> rect_height (blit_source options) = 0 \<or>
        rect_width (blit_destination options) = 0 \<or> rect_height (blit_destination options) = 0 \<or>
        rect_x (blit_source options) < 0 \<or> rect_y (blit_source options) < 0 \<or>
        bitmap_width options < nat (rect_x (blit_source options)) + rect_width (blit_source options) \<or>
        bitmap_height options < nat (rect_y (blit_source options)) + rect_height (blit_source options))"

definition blit_unscaled :: "blit_options \<Rightarrow> bool" where
  "blit_unscaled options \<longleftrightarrow>
     blit_rotation options = ROTATE_0 \<and> \<not> mirror_x options \<and> \<not> mirror_y options \<and>
     rect_width (blit_source options) = rect_width (blit_destination options) \<and>
     rect_height (blit_source options) = rect_height (blit_destination options) \<and>
     blit_opacity options = 255"

definition blit_key :: "blit_options \<Rightarrow> pixel \<Rightarrow> bool" where
  "blit_key options color = keyed color (color_key_low options) (color_key_high options)"

definition blit_row :: "framebuffer \<Rightarrow> blit_options \<Rightarrow> nat \<Rightarrow> pixel list \<Rightarrow> pixel list" where
  "blit_row fb options row memory =
     (let output_y = rect_y (blit_destination options) + int row
      in if output_y < 0 \<or> int (fb_height fb) \<le> output_y then memory
         else
           (let x0 = rect_x (blit_destination options);
                clipped = (if x0 < 0 then nat (- x0) else 0)
            in if x0 < 0 \<and> rect_width (blit_destination options) \<le> clipped then memory
               else
                 (let output_x = (if x0 < 0 then 0 else x0);
                      source_x = nat (rect_x (blit_source options)) + clipped;
                      count = rect_width (blit_destination options) - clipped
                  in if int (fb_width fb) \<le> output_x then memory
                     else
                       (let available = fb_width fb - nat output_x;
                            count = (if available < count then available else count);
                            destination = nat output_y * fb_stride fb + nat output_x;
                            source = (nat (rect_y (blit_source options)) + row) * bitmap_width options + source_x
                        in if \<not> color_key_enabled options then
                             raster_copy_span memory destination (bitmap options) source count
                           else
                             copy_unkeyed (blit_key options) (bitmap options) source destination count 0 memory))))"

definition blit_direct :: "framebuffer \<Rightarrow> blit_options \<Rightarrow> pixel list" where
  "blit_direct fb options =
     fold (blit_row fb options) [0..<rect_height (blit_destination options)] (fb_pixels fb)"

definition rotated_size :: "blit_options \<Rightarrow> nat \<times> nat" where
  "rotated_size options =
     (if blit_rotation options = ROTATE_90 \<or> blit_rotation options = ROTATE_270
      then (rect_height (blit_source options), rect_width (blit_source options))
      else (rect_width (blit_source options), rect_height (blit_source options)))"

definition sample_position :: "blit_options \<Rightarrow> nat \<Rightarrow> nat \<Rightarrow> nat \<times> nat" where
  "sample_position options rx ry =
     (let width = rect_width (blit_source options);
          height = rect_height (blit_source options);
          (sx, sy) =
            (case blit_rotation options of
               ROTATE_0 \<Rightarrow> (rx, ry)
             | ROTATE_90 \<Rightarrow> (width - 1 - ry, rx)
             | ROTATE_180 \<Rightarrow> (width - 1 - rx, height - 1 - ry)
             | ROTATE_270 \<Rightarrow> (ry, height - 1 - rx));
          sx = (if mirror_x options then width - 1 - sx else sx);
          sy = (if mirror_y options then height - 1 - sy else sy)
      in (sx + nat (rect_x (blit_source options)), sy + nat (rect_y (blit_source options))))"

definition sampled_pixel :: "blit_options \<Rightarrow> nat \<Rightarrow> nat \<Rightarrow> pixel" where
  "sampled_pixel options dx dy =
     (let (rotated_width, rotated_height) = rotated_size options;
          ry = dy * rotated_height div rect_height (blit_destination options);
          rx = dx * rotated_width div rect_width (blit_destination options);
          (sx, sy) = sample_position options rx ry
      in bitmap options ! (sy * bitmap_width options + sx))"

definition sample_step :: "framebuffer \<Rightarrow> blit_options \<Rightarrow> nat \<Rightarrow> nat \<Rightarrow> pixel list \<Rightarrow> pixel list" where
  "sample_step fb options dy dx memory =
     (let output_y = rect_y (blit_destination options) + int dy;
          output_x = rect_x (blit_destination options) + int dx;
          source = sampled_pixel options dx dy;
          at = nat output_y * fb_stride fb + nat output_x
      in if color_key_enabled options \<and> keyed source (color_key_low options) (color_key_high options)
         then memory
         else memory[at := (if blit_opacity options = 255 then source
                            else blend source (memory ! at) (blit_opacity options))])"

definition blit_sampled :: "framebuffer \<Rightarrow> blit_options \<Rightarrow> pixel list" where
  "blit_sampled fb options =
     (let left = rect_x (blit_destination options);
          top = rect_y (blit_destination options);
          right = left + int (rect_width (blit_destination options));
          bottom = top + int (rect_height (blit_destination options));
          clipped_left = (if left < 0 then 0 else left);
          clipped_top = (if top < 0 then 0 else top);
          clipped_right = (if int (fb_width fb) < right then int (fb_width fb) else right);
          clipped_bottom = (if int (fb_height fb) < bottom then int (fb_height fb) else bottom)
      in if clipped_right \<le> clipped_left \<or> clipped_bottom \<le> clipped_top then fb_pixels fb
         else
           fold (\<lambda>dy memory.
                   fold (sample_step fb options dy) [nat (clipped_left - left)..<nat (clipped_right - left)] memory)
             [nat (clipped_top - top)..<nat (clipped_bottom - top)] (fb_pixels fb))"

definition raster_blit :: "framebuffer option \<Rightarrow> blit_options option \<Rightarrow> bool \<times> framebuffer option" where
  "raster_blit framebuffer options =
     (case (framebuffer, options) of
        (Some fb, Some options) \<Rightarrow>
          if \<not> blit_accepted options then (False, Some fb)
          else if blit_unscaled options then (True, Some (fb\<lparr>fb_pixels := blit_direct fb options\<rparr>))
          else (True, Some (fb\<lparr>fb_pixels := blit_sampled fb options\<rparr>))
      | _ \<Rightarrow> (False, framebuffer))"

section \<open>Every loop is an update of known pixels\<close>

definition visible :: "framebuffer \<Rightarrow> nat \<Rightarrow> bool" where
  "visible fb j \<longleftrightarrow> j mod fb_stride fb < fb_width fb \<and> j div fb_stride fb < fb_height fb"

definition in_rect :: "int \<Rightarrow> int \<Rightarrow> nat \<Rightarrow> nat \<Rightarrow> int \<Rightarrow> int \<Rightarrow> bool" where
  "in_rect x y width height px py \<longleftrightarrow>
     x \<le> px \<and> px < x + int width \<and> y \<le> py \<and> py < y + int height"

lemma updates_fill_span:
  "updates (\<lambda>j. d \<le> j \<and> j < d + count) (\<lambda>j old. color) m (raster_fill_span m d count color)"
proof -
  have "updates (\<lambda>j. \<exists>k \<in> set [0..<count]. j = d + k) (\<lambda>j old. color) m
      (fold (\<lambda>index m. m[d + index := color]) [0..<count] m)"
    by (rule updates_fold) (auto intro: updates_one)
  then have "updates (\<lambda>j. d \<le> j \<and> j < d + count) (\<lambda>j old. color) m
      (fold (\<lambda>index m. m[d + index := color]) [0..<count] m)"
    by (rule updates_cong) (auto simp: le_iff_add)
  then show ?thesis
    by (auto simp: raster_fill_span_def platform_raster_fill_span_def intro: updates_refl)
qed

lemma updates_copy_span:
  "updates (\<lambda>j. d \<le> j \<and> j < d + count) (\<lambda>j old. source ! (s + (j - d))) m
     (raster_copy_span m d source s count)"
proof -
  have "updates (\<lambda>j. \<exists>k \<in> set [0..<count]. j = d + k) (\<lambda>j old. source ! (s + (j - d))) m
      (fold (\<lambda>index m. m[d + index := source ! (s + index)]) [0..<count] m)"
    by (rule updates_fold) (auto simp: updates_def)
  then have "updates (\<lambda>j. d \<le> j \<and> j < d + count) (\<lambda>j old. source ! (s + (j - d))) m
      (fold (\<lambda>index m. m[d + index := source ! (s + index)]) [0..<count] m)"
    by (rule updates_cong) (auto simp: le_iff_add)
  then show ?thesis
    by (auto simp: raster_copy_span_def platform_raster_copy_span_def intro: updates_refl)
qed

lemma updates_copy_unkeyed:
  "column \<le> count \<Longrightarrow>
   updates (\<lambda>j. d + column \<le> j \<and> j < d + count)
     (\<lambda>j old. if key (source ! (s + (j - d))) then old else source ! (s + (j - d))) m
     (copy_unkeyed key source s d count column m)"
proof (induction key source s d count column m rule: copy_unkeyed.induct)
  case (1 key source s d count column m)
  let ?k = "\<lambda>c. key (source ! (s + c))"
  let ?H = "\<lambda>j old. if key (source ! (s + (j - d))) then old else source ! (s + (j - d))"
  show ?case
  proof (cases "column < count")
    case True
    define start where "start = scan_while ?k column count"
    define stop where "stop = scan_while (\<lambda>c. \<not> ?k c) start count"
    have order: "column \<le> start" "start \<le> stop" "stop \<le> count"
      unfolding start_def stop_def using True by (auto intro!: scan_while_ge scan_while_le)
    have skipped: "?k c" if "column \<le> c" "c < start" for c
      using scan_while_holds [of column c ?k count] that unfolding start_def by blast
    have copied: "\<not> ?k c" if "start \<le> c" "c < stop" for c
      using scan_while_holds [of start c "\<lambda>c. \<not> ?k c" count] that unfolding stop_def by blast
    let ?m = "raster_copy_span m (d + start) source (s + start) (stop - start)"
    have span: "updates (\<lambda>j. d + column \<le> j \<and> j < d + stop) ?H m ?m"
    proof (rule updates_cong [OF updates_copy_span])
      fix j
      assume "j < length m"
      consider "j < d + column" | "d + column \<le> j" "j < d + start" | "d + start \<le> j" "j < d + stop" | "d + stop \<le> j"
        by linarith
      then show "(if d + start \<le> j \<and> j < d + start + (stop - start)
          then source ! (s + start + (j - (d + start))) else m ! j) =
        (if d + column \<le> j \<and> j < d + stop then ?H j (m ! j) else m ! j)"
      proof cases
        case 2
        then have "?k (j - d)" by (intro skipped) auto
        then show ?thesis using 2 order by simp
      next
        case 3
        then have "\<not> ?k (j - d)" by (intro copied) auto
        moreover have "s + start + (j - (d + start)) = s + (j - d)" using 3 by linarith
        ultimately show ?thesis using 3 order by simp
      qed (use order in auto)
    qed
    have rest: "updates (\<lambda>j. d + stop \<le> j \<and> j < d + count) ?H ?m
        (copy_unkeyed key source s d count stop ?m)"
      using 1(1) [OF True start_def stop_def] order by simp
    have "updates (\<lambda>j. d + column \<le> j \<and> j < d + count) ?H m
        (copy_unkeyed key source s d count stop ?m)"
      by (rule updates_cong [OF updates_comp [OF span rest]]) (use order in auto)
    then show ?thesis using True
      by (simp add: copy_unkeyed.simps [of key source s d count column m] start_def stop_def Let_def)
  next
    case False
    then have "copy_unkeyed key source s d count column m = m"
      by (simp add: copy_unkeyed.simps [of key source s d count column m])
    then show ?thesis using False 1(2) by (auto intro: updates_refl)
  qed
qed

lemma row_position:
  fixes j stride row left right :: nat
  assumes "right \<le> stride"
  shows "row * stride + left \<le> j \<and> j < row * stride + right \<longleftrightarrow>
    j div stride = row \<and> left \<le> j mod stride \<and> j mod stride < right"
    (is "?l \<longleftrightarrow> ?r")
proof
  assume l: ?l
  then obtain k where k: "j = row * stride + k" by (metis add_leD1 le_Suc_ex)
  then have "k < stride" and "left \<le> k" and "k < right" using l assms by linarith+
  then show ?r using k by simp
next
  assume r: ?r
  have "j = row * stride + j mod stride" using r div_mult_mod_eq [of j stride] by metis
  then show ?l using r by linarith
qed

definition in_destination :: "framebuffer \<Rightarrow> blit_options \<Rightarrow> nat \<Rightarrow> bool" where
  "in_destination fb options j \<longleftrightarrow>
     in_rect (rect_x (blit_destination options)) (rect_y (blit_destination options))
       (rect_width (blit_destination options)) (rect_height (blit_destination options))
       (int (j mod fb_stride fb)) (int (j div fb_stride fb))"

definition blit_pixel :: "blit_options \<Rightarrow> int \<Rightarrow> int \<Rightarrow> pixel \<Rightarrow> pixel" where
  "blit_pixel options x y old =
     (let source = sampled_pixel options (nat (x - rect_x (blit_destination options)))
                     (nat (y - rect_y (blit_destination options)))
      in if color_key_enabled options \<and> keyed source (color_key_low options) (color_key_high options) then old
         else if blit_opacity options = 255 then source
         else blend source old (blit_opacity options))"

lemma updates_rows:
  fixes right stride :: nat
  assumes "right \<le> stride"
    and "\<And>row m. row \<in> set rows \<Longrightarrow>
      updates (\<lambda>j. row * stride + left \<le> j \<and> j < row * stride + right) H m (f row m)"
    and "distinct rows"
  shows "updates (\<lambda>j. j div stride \<in> set rows \<and> left \<le> j mod stride \<and> j mod stride < right) H m
    (fold f rows m)"
proof -
  have "updates (\<lambda>j. \<exists>row \<in> set rows. j div stride = row \<and> left \<le> j mod stride \<and> j mod stride < right) H m
      (fold f rows m)"
    using assms(3)
    by (intro updates_fold) (auto intro: assms(2) [unfolded row_position [OF assms(1)]])
  then show ?thesis by (rule updates_cong) auto
qed

lemma updates_raster_fill:
  assumes ok: "fb_width fb \<le> fb_stride fb"
  shows "\<exists>m. raster_fill (Some fb) x y width height color = Some (fb\<lparr>fb_pixels := m\<rparr>) \<and>
    updates (\<lambda>j. visible fb j \<and>
        in_rect x y width height (int (j mod fb_stride fb)) (int (j div fb_stride fb)))
      (\<lambda>j old. color) (fb_pixels fb) m"
proof -
  define left where "left = (if x < 0 then 0 else nat x)"
  define top where "top = (if y < 0 then 0 else nat y)"
  define right where "right = (if fb_width fb < nat (x + int width) then fb_width fb else nat (x + int width))"
  define bottom where "bottom = (if fb_height fb < nat (y + int height) then fb_height fb else nat (y + int height))"
  define nothing where "nothing \<longleftrightarrow> width = 0 \<or> height = 0 \<or> x + int width \<le> 0 \<or> y + int height \<le> 0 \<or>
    right \<le> left \<or> bottom \<le> top"
  define m where "m = (if nothing then fb_pixels fb
    else fold (\<lambda>row m. raster_fill_span m (row * fb_stride fb + left) (right - left) color)
      [top..<bottom] (fb_pixels fb))"
  have result: "raster_fill (Some fb) x y width height color = Some (fb\<lparr>fb_pixels := m\<rparr>)"
    unfolding raster_fill_def m_def nothing_def left_def top_def right_def bottom_def
    by (simp add: Let_def)
  have columns: "left \<le> c \<and> c < right \<longleftrightarrow> c < fb_width fb \<and> x \<le> int c \<and> int c < x + int width" for c
    unfolding left_def right_def by auto
  have rows: "top \<le> r \<and> r < bottom \<longleftrightarrow> r < fb_height fb \<and> y \<le> int r \<and> int r < y + int height" for r
    unfolding top_def bottom_def by auto
  have "updates (\<lambda>j. j div fb_stride fb \<in> set [top..<bottom] \<and> left \<le> j mod fb_stride fb \<and>
      j mod fb_stride fb < right) (\<lambda>j old. color) (fb_pixels fb) m"
  proof (cases nothing)
    case True
    then have "\<not> (r \<in> set [top..<bottom] \<and> left \<le> c \<and> c < right)" for r c
      using columns [of c] rows [of r] unfolding nothing_def by auto
    then show ?thesis using True unfolding m_def by (auto intro: updates_refl)
  next
    case False
    have "right \<le> fb_stride fb" using ok unfolding right_def by auto
    moreover have "updates (\<lambda>j. row * fb_stride fb + left \<le> j \<and> j < row * fb_stride fb + right) (\<lambda>j old. color) m'
        (raster_fill_span m' (row * fb_stride fb + left) (right - left) color)" for row m'
      by (rule updates_cong [OF updates_fill_span]) (use False in \<open>auto simp: nothing_def\<close>)
    ultimately have "updates (\<lambda>j. j div fb_stride fb \<in> set [top..<bottom] \<and> left \<le> j mod fb_stride fb \<and>
        j mod fb_stride fb < right) (\<lambda>j old. color) (fb_pixels fb)
      (fold (\<lambda>row m. raster_fill_span m (row * fb_stride fb + left) (right - left) color)
        [top..<bottom] (fb_pixels fb))"
      by (intro updates_rows) simp_all
    then show ?thesis using False unfolding m_def by simp
  qed
  then have "updates (\<lambda>j. visible fb j \<and>
        in_rect x y width height (int (j mod fb_stride fb)) (int (j div fb_stride fb)))
      (\<lambda>j old. color) (fb_pixels fb) m"
    by (rule updates_cong) (use columns rows in \<open>auto simp: visible_def in_rect_def\<close>)
  then show ?thesis using result by blast
qed

lemma unscaled_sample:
  assumes "blit_unscaled options" and "dx < rect_width (blit_destination options)"
    and "dy < rect_height (blit_destination options)"
  shows "sampled_pixel options dx dy =
    bitmap options ! ((nat (rect_y (blit_source options)) + dy) * bitmap_width options +
      (nat (rect_x (blit_source options)) + dx))"
  using assms
  by (auto simp: sampled_pixel_def rotated_size_def sample_position_def blit_unscaled_def add.commute)

lemma updates_blit_row:
  assumes ok: "fb_width fb \<le> fb_stride fb" and unscaled: "blit_unscaled options"
    and row: "row < rect_height (blit_destination options)"
  shows "updates (\<lambda>j. visible fb j \<and> in_destination fb options j \<and>
        int (j div fb_stride fb) = rect_y (blit_destination options) + int row)
      (\<lambda>j. blit_pixel options (int (j mod fb_stride fb)) (int (j div fb_stride fb)))
      m (blit_row fb options row m)" (is "updates ?P ?H m _")
proof -
  let ?d = "blit_destination options"
  let ?y = "rect_y ?d + int row"
  define clipped where "clipped = (if rect_x ?d < 0 then nat (- rect_x ?d) else 0)"
  define output_x where "output_x = (if rect_x ?d < 0 then 0 else rect_x ?d)"
  define available where "available = fb_width fb - nat output_x"
  define count where "count = (if available < rect_width ?d - clipped then available else rect_width ?d - clipped)"
  define destination where "destination = nat ?y * fb_stride fb + nat output_x"
  define source where "source = (nat (rect_y (blit_source options)) + row) * bitmap_width options +
    (nat (rect_x (blit_source options)) + clipped)"
  consider "?y < 0 \<or> int (fb_height fb) \<le> ?y \<or> (rect_x ?d < 0 \<and> rect_width ?d \<le> clipped) \<or>
      int (fb_width fb) \<le> output_x"
    | "0 \<le> ?y" "?y < int (fb_height fb)" "\<not> (rect_x ?d < 0 \<and> rect_width ?d \<le> clipped)" "output_x < int (fb_width fb)"
    by linarith
  then show ?thesis
  proof cases
    case 1
    then have "\<not> ?P j" for j
      by (auto simp: visible_def in_destination_def in_rect_def clipped_def output_x_def split: if_splits)
    then have "updates ?P ?H m m" by (intro updates_refl) blast
    moreover have "blit_row fb options row m = m"
      using 1 unfolding blit_row_def clipped_def output_x_def by (auto simp: Let_def split: if_splits)
    ultimately show ?thesis by simp
  next
    case 2
    have blit: "blit_row fb options row m =
        (if \<not> color_key_enabled options then raster_copy_span m destination (bitmap options) source count
         else copy_unkeyed (blit_key options) (bitmap options) source destination count 0 m)"
      using 2 unfolding blit_row_def destination_def source_def count_def available_def clipped_def output_x_def
      by (simp add: Let_def)
    define H where "H = (\<lambda>j old. let v = bitmap options ! (source + (j - destination)) in
      if color_key_enabled options \<and> blit_key options v then old else v)"
    have "updates (\<lambda>j. destination \<le> j \<and> j < destination + count) H m (blit_row fb options row m)"
    proof (cases "color_key_enabled options")
      case True
      then show ?thesis using updates_copy_unkeyed [of 0 count destination "blit_key options" "bitmap options" source m]
        unfolding blit H_def by (simp add: Let_def)
    next
      case False
      then show ?thesis using updates_copy_span [of destination count "bitmap options" source m]
        unfolding blit H_def by (simp add: Let_def)
    qed
    then show ?thesis
    proof (rule updates_cong)
      fix j
      let ?c = "j mod fb_stride fb" and ?r = "j div fb_stride fb"
      have end_bound: "nat output_x + count \<le> fb_stride fb"
        using ok 2 unfolding count_def available_def output_x_def by auto
      have inside: "destination \<le> j \<and> j < destination + count \<longleftrightarrow>
          ?r = nat ?y \<and> nat output_x \<le> ?c \<and> ?c < nat output_x + count"
        using row_position [OF end_bound, of "nat ?y" "nat output_x" j] unfolding destination_def
        by (simp add: add.assoc)
      have "?P j \<longleftrightarrow> ?r = nat ?y \<and> nat output_x \<le> ?c \<and> ?c < nat output_x + count"
        using 2 row
        unfolding visible_def in_destination_def in_rect_def count_def available_def output_x_def clipped_def
        by auto
      then have P: "?P j \<longleftrightarrow> destination \<le> j \<and> j < destination + count" using inside by simp
      moreover have "H j (m ! j) = ?H j (m ! j)" if inside_j: "destination \<le> j \<and> j < destination + count"
      proof -
        let ?dx = "nat (int ?c - rect_x ?d)" and ?dy = "nat (int ?r - rect_y ?d)"
        have r: "?r = nat ?y" and c: "nat output_x \<le> ?c" using inside inside_j by blast+
        have "in_destination fb options j" using P inside_j by blast
        then have bounds: "?dx < rect_width ?d" "?dy < rect_height ?d"
          by (auto simp: in_destination_def in_rect_def)
        have dy: "?dy = row" using r 2 by simp
        have j: "j = ?r * fb_stride fb + ?c" by simp
        then have "j - destination = ?c - nat output_x" unfolding destination_def using r c
          by (metis add_diff_cancel_left)
        then have "clipped + (j - destination) = ?dx"
          using c unfolding clipped_def output_x_def by (auto split: if_splits)
        then have "source + (j - destination) = (nat (rect_y (blit_source options)) + ?dy) * bitmap_width options +
            (nat (rect_x (blit_source options)) + ?dx)"
          unfolding source_def using dy by simp
        then have "bitmap options ! (source + (j - destination)) = sampled_pixel options ?dx ?dy"
          using unscaled_sample [OF unscaled bounds] by simp
        then show ?thesis using unscaled
          unfolding H_def blit_pixel_def by (simp add: Let_def blit_key_def blit_unscaled_def)
      qed
      ultimately show "(if destination \<le> j \<and> j < destination + count then H j (m ! j) else m ! j) =
          (if ?P j then ?H j (m ! j) else m ! j)" by simp
    qed
  qed
qed

lemma updates_blit_direct:
  assumes ok: "fb_width fb \<le> fb_stride fb" and unscaled: "blit_unscaled options"
  shows "updates (\<lambda>j. visible fb j \<and> in_destination fb options j)
      (\<lambda>j. blit_pixel options (int (j mod fb_stride fb)) (int (j div fb_stride fb)))
      (fb_pixels fb) (blit_direct fb options)"
proof -
  let ?P = "\<lambda>row j. visible fb j \<and> in_destination fb options j \<and>
    int (j div fb_stride fb) = rect_y (blit_destination options) + int row"
  let ?rows = "[0..<rect_height (blit_destination options)]"
  have "updates (\<lambda>j. \<exists>row \<in> set ?rows. ?P row j)
      (\<lambda>j. blit_pixel options (int (j mod fb_stride fb)) (int (j div fb_stride fb)))
      (fb_pixels fb) (blit_direct fb options)"
    unfolding blit_direct_def
    by (rule updates_fold) (use updates_blit_row [OF ok unscaled] in auto)
  then show ?thesis
  proof (rule updates_cong)
    fix j
    have "(\<exists>row \<in> set ?rows. ?P row j) \<longleftrightarrow> visible fb j \<and> in_destination fb options j"
    proof
      assume r: "visible fb j \<and> in_destination fb options j"
      then have "?P (nat (int (j div fb_stride fb) - rect_y (blit_destination options))) j"
        by (auto simp: in_destination_def in_rect_def)
      moreover have "nat (int (j div fb_stride fb) - rect_y (blit_destination options)) \<in> set ?rows"
        using r by (auto simp: in_destination_def in_rect_def)
      ultimately show "\<exists>row \<in> set ?rows. ?P row j" by blast
    qed blast
    then show "(if \<exists>row \<in> set ?rows. ?P row j
        then blit_pixel options (int (j mod fb_stride fb)) (int (j div fb_stride fb)) (fb_pixels fb ! j)
        else fb_pixels fb ! j) =
      (if visible fb j \<and> in_destination fb options j
        then blit_pixel options (int (j mod fb_stride fb)) (int (j div fb_stride fb)) (fb_pixels fb ! j)
        else fb_pixels fb ! j)" by simp
  qed
qed

lemma updates_sample_step:
  assumes "0 \<le> rect_x (blit_destination options) + int dx"
    and "rect_x (blit_destination options) + int dx < int (fb_stride fb)"
    and "0 \<le> rect_y (blit_destination options) + int dy"
  shows "updates (\<lambda>j. int (j div fb_stride fb) = rect_y (blit_destination options) + int dy \<and>
        int (j mod fb_stride fb) = rect_x (blit_destination options) + int dx)
      (\<lambda>j. blit_pixel options (int (j mod fb_stride fb)) (int (j div fb_stride fb)))
      m (sample_step fb options dy dx m)"
proof -
  let ?oy = "rect_y (blit_destination options) + int dy"
  let ?ox = "rect_x (blit_destination options) + int dx"
  define at where "at = nat ?oy * fb_stride fb + nat ?ox"
  have at: "int (j div fb_stride fb) = ?oy \<and> int (j mod fb_stride fb) = ?ox \<longleftrightarrow> j = at" for j
  proof
    assume "int (j div fb_stride fb) = ?oy \<and> int (j mod fb_stride fb) = ?ox"
    then have "nat ?oy = j div fb_stride fb" and "nat ?ox = j mod fb_stride fb" by linarith+
    then show "j = at" unfolding at_def by simp
  next
    assume "j = at"
    then show "int (j div fb_stride fb) = ?oy \<and> int (j mod fb_stride fb) = ?ox"
      unfolding at_def using assms by (simp add: nat_less_iff)
  qed
  have "sample_step fb options dy dx m = m[at := blit_pixel options ?ox ?oy (m ! at)]"
    unfolding sample_step_def blit_pixel_def at_def by (simp add: Let_def)
  moreover have "int (at div fb_stride fb) = ?oy" and "int (at mod fb_stride fb) = ?ox"
    using at [of at] by simp_all
  ultimately show ?thesis unfolding at by (auto simp: updates_def nth_list_update)
qed

lemma updates_blit_sampled:
  assumes ok: "fb_width fb \<le> fb_stride fb"
  shows "updates (\<lambda>j. visible fb j \<and> in_destination fb options j)
      (\<lambda>j. blit_pixel options (int (j mod fb_stride fb)) (int (j div fb_stride fb)))
      (fb_pixels fb) (blit_sampled fb options)" (is "updates ?P ?H _ _")
proof -
  let ?d = "blit_destination options"
  define cl where "cl = (if rect_x ?d < 0 then 0 else rect_x ?d)"
  define ct where "ct = (if rect_y ?d < 0 then 0 else rect_y ?d)"
  define cr where "cr = (if int (fb_width fb) < rect_x ?d + int (rect_width ?d) then int (fb_width fb)
    else rect_x ?d + int (rect_width ?d))"
  define cb where "cb = (if int (fb_height fb) < rect_y ?d + int (rect_height ?d) then int (fb_height fb)
    else rect_y ?d + int (rect_height ?d))"
  let ?Q = "\<lambda>dy dx j. int (j div fb_stride fb) = rect_y ?d + int dy \<and>
    int (j mod fb_stride fb) = rect_x ?d + int dx"
  let ?xs = "[nat (cl - rect_x ?d)..<nat (cr - rect_x ?d)]" and ?ys = "[nat (ct - rect_y ?d)..<nat (cb - rect_y ?d)]"
  have sampled: "blit_sampled fb options = (if cr \<le> cl \<or> cb \<le> ct then fb_pixels fb
      else fold (\<lambda>dy memory. fold (sample_step fb options dy) ?xs memory) ?ys (fb_pixels fb))"
    unfolding blit_sampled_def cl_def ct_def cr_def cb_def by (simp add: Let_def)
  have P: "?P j \<longleftrightarrow> cl \<le> int (j mod fb_stride fb) \<and> int (j mod fb_stride fb) < cr \<and>
      ct \<le> int (j div fb_stride fb) \<and> int (j div fb_stride fb) < cb" for j
    unfolding cl_def ct_def cr_def cb_def visible_def in_destination_def in_rect_def by auto
  show ?thesis
  proof (cases "cr \<le> cl \<or> cb \<le> ct")
    case True
    then have "\<not> ?P j" for j using P [of j] by linarith
    then show ?thesis unfolding sampled using True by (auto intro: updates_refl)
  next
    case False
    have xs: "0 \<le> rect_x ?d + int dx \<and> rect_x ?d + int dx < int (fb_stride fb)" if "dx \<in> set ?xs" for dx
      using that ok unfolding cl_def cr_def by (auto split: if_splits)
    have ys: "0 \<le> rect_y ?d + int dy" if "dy \<in> set ?ys" for dy
      using that unfolding ct_def by (auto split: if_splits)
    have row: "updates (\<lambda>j. \<exists>dx \<in> set ?xs. ?Q dy dx j) ?H m (fold (sample_step fb options dy) ?xs m)"
      if "dy \<in> set ?ys" for dy m
      by (rule updates_fold) (use updates_sample_step xs ys that in auto)
    have "updates (\<lambda>j. \<exists>dy \<in> set ?ys. \<exists>dx \<in> set ?xs. ?Q dy dx j) ?H (fb_pixels fb)
        (fold (\<lambda>dy memory. fold (sample_step fb options dy) ?xs memory) ?ys (fb_pixels fb))"
      by (rule updates_fold) (use row in auto)
    moreover have "(\<exists>dy \<in> set ?ys. \<exists>dx \<in> set ?xs. ?Q dy dx j) \<longleftrightarrow> ?P j" for j
    proof
      assume "\<exists>dy \<in> set ?ys. \<exists>dx \<in> set ?xs. ?Q dy dx j"
      then show "?P j" unfolding P unfolding cl_def ct_def cr_def cb_def by (auto split: if_splits)
    next
      assume "?P j"
      note p = this [unfolded P]
      then have "?Q (nat (int (j div fb_stride fb) - rect_y ?d)) (nat (int (j mod fb_stride fb) - rect_x ?d)) j"
        unfolding cl_def ct_def by (auto split: if_splits)
      moreover have "nat (int (j div fb_stride fb) - rect_y ?d) \<in> set ?ys"
        and "nat (int (j mod fb_stride fb) - rect_x ?d) \<in> set ?xs"
        using p unfolding cl_def ct_def by (auto split: if_splits)
      ultimately show "\<exists>dy \<in> set ?ys. \<exists>dx \<in> set ?xs. ?Q dy dx j" by blast
    qed
    ultimately have "updates ?P ?H (fb_pixels fb)
        (fold (\<lambda>dy memory. fold (sample_step fb options dy) ?xs memory) ?ys (fb_pixels fb))" by simp
    then show ?thesis unfolding sampled using False by simp
  qed
qed

section \<open>Colour channels\<close>

definition red_of :: "u16 \<Rightarrow> nat" where "red_of c = unat (and (drop_bit 11 c) 31)"
definition green_of :: "u16 \<Rightarrow> nat" where "green_of c = unat (and (drop_bit 5 c) 63)"
definition blue_of :: "u16 \<Rightarrow> nat" where "blue_of c = unat (and c 31)"

definition mix :: "nat \<Rightarrow> nat \<Rightarrow> nat \<Rightarrow> nat" where
  "mix s d opacity = (s * opacity + d * (255 - opacity) + 127) div 255"

lemma u8_le: "unat (x :: u8) \<le> 255"
  using unsigned_less [of x, where ?'a = nat] by simp

lemma unat_u32_u8: "unat (ucast (x :: u8) :: u32) = unat x"
  using u8_le [of x] by (simp add: unsigned_ucast_eq take_bit_nat_eq_self)

lemma unat_u32_u16: "unat (ucast (x :: u16) :: u32) = unat x"
  using unsigned_less [of x, where ?'a = nat] by (simp add: unsigned_ucast_eq take_bit_nat_eq_self)

lemma mask_31: "(31::'a::len word) = mask 5" by (simp add: mask_eq_exp_minus_1)
lemma mask_63: "(63::'a::len word) = mask 6" by (simp add: mask_eq_exp_minus_1)

lemma mix_word:
  fixes s d :: u32 and o8 :: u8
  assumes "unat s \<le> 63" and "unat d \<le> 63"
  shows "unat ((s * ucast o8 + d * (255 - ucast o8) + 127) div 255) = mix (unat s) (unat d) (unat o8)"
proof -
  have o: "unat o8 \<le> 255" by (rule u8_le)
  have o32: "unat (ucast o8 :: u32) = unat o8" by (rule unat_u32_u8)
  have i: "unat (255 - ucast o8 :: u32) = 255 - unat o8"
    using o o32 by (subst unat_sub) (simp_all add: word_le_nat_alt)
  have a: "unat s * unat o8 \<le> 63 * 255" and b: "unat d * (255 - unat o8) \<le> 63 * 255"
    using mult_le_mono [OF assms(1) o] mult_le_mono [OF assms(2), of "255 - unat o8" 255] by simp_all
  have sa: "unat (s * ucast o8) = unat s * unat o8"
    using a o32 by (subst unat_mult_lem [THEN iffD1]) simp_all
  have sb: "unat (d * (255 - ucast o8)) = unat d * (255 - unat o8)"
    using b i by (subst unat_mult_lem [THEN iffD1]) simp_all
  have "unat (s * ucast o8 + d * (255 - ucast o8)) = unat s * unat o8 + unat d * (255 - unat o8)"
    using sa sb a b by (subst unat_plus_no_wrap) simp_all
  then have "unat (s * ucast o8 + d * (255 - ucast o8) + 127) = unat s * unat o8 + unat d * (255 - unat o8) + 127"
    using a b by (subst unat_plus_no_wrap) simp_all
  then show ?thesis unfolding mix_def unat_div by simp
qed

lemma mix_le: "s \<le> n \<Longrightarrow> d \<le> n \<Longrightarrow> opacity \<le> 255 \<Longrightarrow> mix s d opacity \<le> n"
proof -
  assume "s \<le> n" "d \<le> n" "opacity \<le> 255"
  then have "s * opacity + d * (255 - opacity) \<le> n * opacity + n * (255 - opacity)"
    by (intro add_mono mult_le_mono1)
  also have "\<dots> = n * 255" using \<open>opacity \<le> 255\<close> by (metis add_mult_distrib2 le_add_diff_inverse)
  finally show ?thesis unfolding mix_def by simp
qed

lemma pack_channels:
  fixes r g b :: u32
  assumes "r \<le> 31" "g \<le> 63" "b \<le> 31"
  defines "c \<equiv> ucast (or (or (push_bit 11 r) (push_bit 5 g)) b) :: u16"
  shows "red_of c = unat r" "green_of c = unat g" "blue_of c = unat b"
proof -
  have t: "take_bit 5 r = r" "take_bit 6 g = g" "take_bit 5 b = b"
    using assms(1,2,3) by (auto simp: word_unat_eq_iff unsigned_take_bit_eq word_le_nat_alt intro!: take_bit_nat_eq_self)
  have br: "n < 5" if "bit r n" for n using t(1) that by (metis bit_take_bit_iff)
  have bg: "n < 6" if "bit g n" for n using t(2) that by (metis bit_take_bit_iff)
  have bb: "n < 5" if "bit b n" for n using t(3) that by (metis bit_take_bit_iff)
  have "and (drop_bit 11 c) 31 = ucast r"
    unfolding c_def mask_31 by (rule bit_word_eqI) (auto simp: bit_simps dest: br bg bb)
  moreover have "and (drop_bit 5 c) 63 = ucast g"
    unfolding c_def mask_63 by (rule bit_word_eqI) (auto simp: bit_simps dest: br bg bb)
  moreover have "and c 31 = ucast b"
    unfolding c_def mask_31 by (rule bit_word_eqI) (auto simp: bit_simps dest: br bg bb)
  moreover have "unat (ucast x :: u16) = unat x" if "x \<le> 63" for x :: u32
    using that by (simp add: unsigned_ucast_eq word_le_nat_alt take_bit_nat_eq_self)
  ultimately show "red_of c = unat r" "green_of c = unat g" "blue_of c = unat b"
    using assms(1,2,3) by (simp_all add: red_of_def green_of_def blue_of_def word_le_nat_alt)
qed

lemma channel_bounds: "red_of c \<le> 31" "green_of c \<le> 63" "blue_of c \<le> 31"
proof -
  have "unat (and x 31 :: u16) \<le> 31" "unat (and x 63) \<le> 63" for x :: u16
    using word_and_le1 [of x 31] word_and_le1 [of x 63] by (simp_all add: word_le_nat_alt)
  then show "red_of c \<le> 31" "green_of c \<le> 63" "blue_of c \<le> 31"
    unfolding red_of_def green_of_def blue_of_def by blast+
qed

lemma channel_words:
  "unat (and (drop_bit 11 (ucast c :: u32)) 31) = red_of c"
  "unat (and (drop_bit 5 (ucast c :: u32)) 63) = green_of c"
  "unat (and (ucast c :: u32) 31) = blue_of c"
proof -
  have "and (drop_bit 11 (ucast c :: u32)) 31 = ucast (and (drop_bit 11 c) 31)"
    "and (drop_bit 5 (ucast c :: u32)) 63 = ucast (and (drop_bit 5 c) 63)"
    "and (ucast c :: u32) 31 = ucast (and c 31)"
    unfolding mask_31 mask_63 by (rule bit_word_eqI; auto simp: bit_simps)+
  then show "unat (and (drop_bit 11 (ucast c :: u32)) 31) = red_of c"
    "unat (and (drop_bit 5 (ucast c :: u32)) 63) = green_of c"
    "unat (and (ucast c :: u32) 31) = blue_of c"
    by (simp_all add: red_of_def green_of_def blue_of_def unat_u32_u16)
qed

lemma channels_eqI:
  assumes "red_of a = red_of b" "green_of a = green_of b" "blue_of a = blue_of b"
  shows "a = b"
proof (rule bit_word_eqI)
  have e: "and (drop_bit 11 a) (mask 5) = and (drop_bit 11 b) (mask 5)"
    "and (drop_bit 5 a) (mask 6) = and (drop_bit 5 b) (mask 6)" "and a (mask 5) = and b (mask 5)"
    using assms by (simp_all add: red_of_def green_of_def blue_of_def word_unat_eq_iff mask_31 mask_63)
  fix n
  assume "n < LENGTH(16)"
  then consider "n < 5" | "5 \<le> n" "n < 11" | "11 \<le> n" "n < 16" by fastforce
  then show "bit a n = bit b n"
  proof cases
    case 1
    then show ?thesis using arg_cong [OF e(3), of "\<lambda>w. bit w n"] by (simp add: bit_simps)
  next
    case 2
    then have "n - 5 < 6" "n - 5 < 16" by linarith+
    then show ?thesis using 2 arg_cong [OF e(2), of "\<lambda>w. bit w (n - 5)"] by (simp add: bit_simps less_diff_conv)
  next
    case 3
    then have "n - 11 < 5" "n - 11 < 16" by linarith+
    then show ?thesis using 3 arg_cong [OF e(1), of "\<lambda>w. bit w (n - 11)"] by (simp add: bit_simps less_diff_conv)
  qed
qed

lemma blend_mixes:
  "red_of (blend source destination opacity) = mix (red_of source) (red_of destination) (unat opacity) \<and>
   green_of (blend source destination opacity) = mix (green_of source) (green_of destination) (unat opacity) \<and>
   blue_of (blend source destination opacity) = mix (blue_of source) (blue_of destination) (unat opacity)"
proof -
  let ?s = "ucast source :: u32" and ?d = "ucast destination :: u32"
  define channel where "channel a b = (a * ucast opacity + b * (255 - ucast opacity) + 127) div (255 :: u32)" for a b
  have opacity: "unat opacity \<le> 255" by (rule u8_le)
  have c: "unat (channel a b) = mix (unat a) (unat b) (unat opacity)" if "unat a \<le> 63" "unat b \<le> 63" for a b
    unfolding channel_def by (rule mix_word [OF that])
  have limits: "red_of x \<le> 63" "green_of x \<le> 63" "blue_of x \<le> 63" for x
    using channel_bounds [of x] by linarith+
  have r: "unat (channel (and (drop_bit 11 ?s) 31) (and (drop_bit 11 ?d) 31)) =
      mix (red_of source) (red_of destination) (unat opacity)"
    and g: "unat (channel (and (drop_bit 5 ?s) 63) (and (drop_bit 5 ?d) 63)) =
      mix (green_of source) (green_of destination) (unat opacity)"
    and b: "unat (channel (and ?s 31) (and ?d 31)) =
      mix (blue_of source) (blue_of destination) (unat opacity)"
    by (subst c; simp only: channel_words limits)+
  have pack: "blend source destination opacity = ucast (or (or
      (push_bit 11 (channel (and (drop_bit 11 ?s) 31) (and (drop_bit 11 ?d) 31)))
      (push_bit 5 (channel (and (drop_bit 5 ?s) 63) (and (drop_bit 5 ?d) 63))))
      (channel (and ?s 31) (and ?d 31)))"
    unfolding blend_def channel_def by (simp add: Let_def)
  have bounds: "channel (and (drop_bit 11 ?s) 31) (and (drop_bit 11 ?d) 31) \<le> 31"
    "channel (and (drop_bit 5 ?s) 63) (and (drop_bit 5 ?d) 63) \<le> 63"
    "channel (and ?s 31) (and ?d 31) \<le> 31"
    unfolding word_le_nat_alt r g b using channel_bounds opacity by (simp_all add: mix_le)
  show ?thesis unfolding pack
    using pack_channels [OF bounds] unfolding r g b by blast
qed

section \<open>What the rasteriser promises\<close>

definition demo_fb :: framebuffer where
  "demo_fb = \<lparr>fb_pixels = replicate 12 7, fb_width = 2, fb_height = 3, fb_stride = 3\<rparr>"

text \<open>
  C35. The span loop that \<open>raster_blit\<close> uses for an unscaled, opaque copy, with its clipping and
  its runs of pixels between colour-keyed ones, leaves the frame buffer the sampling loop would
  leave.
\<close>

theorem raster_blit_fast_path:
  assumes "fb_width fb \<le> fb_stride fb" and "blit_unscaled options"
  shows "blit_direct fb options = blit_sampled fb options"
  using updates_blit_direct [OF assms] updates_blit_sampled [OF assms(1)] by (rule updates_unique)

definition demo_blit :: blit_options where
  "demo_blit = \<lparr>bitmap = [1, 2, 3, 4, 5, 6], bitmap_width = 3, bitmap_height = 2,
     blit_source = \<lparr>rect_x = 0, rect_y = 0, rect_width = 3, rect_height = 2\<rparr>,
     blit_destination = \<lparr>rect_x = -1, rect_y = 1, rect_width = 3, rect_height = 2\<rparr>,
     blit_rotation = ROTATE_0, mirror_x = False, mirror_y = False, blit_opacity = 255,
     color_key_enabled = True, color_key_low = 2, color_key_high = 2\<rparr>"

theorem raster_blit_fast_path_witness:
  "fb_width demo_fb \<le> fb_stride demo_fb \<and> blit_unscaled demo_blit \<and>
   blit_direct demo_fb demo_blit = [7, 7, 7, 7, 3, 7, 5, 6, 7, 7, 7, 7] \<and>
   blit_direct demo_fb demo_blit = blit_sampled demo_fb demo_blit"
proof -
  have "fb_width demo_fb \<le> fb_stride demo_fb" and "blit_unscaled demo_blit"
    by (simp_all add: demo_fb_def demo_blit_def blit_unscaled_def)
  moreover have "blit_direct demo_fb demo_blit = [7, 7, 7, 7, 3, 7, 5, 6, 7, 7, 7, 7]" by code_simp
  ultimately show ?thesis using raster_blit_fast_path by blast
qed

text \<open>
  C34. An accepted blit succeeds and rewrites exactly the visible pixels of the destination
  rectangle, each from the source pixel its position samples (colour-keyed pixels are skipped,
  translucent ones blended with what was there); every other element of the memory is kept.
\<close>

theorem raster_blit_exact:
  assumes "fb_width fb \<le> fb_stride fb" and "blit_accepted options"
  shows "\<exists>m. raster_blit (Some fb) (Some options) = (True, Some (fb\<lparr>fb_pixels := m\<rparr>)) \<and>
    length m = length (fb_pixels fb) \<and>
    (\<forall>j < length m. m ! j =
      (if visible fb j \<and> in_destination fb options j
       then blit_pixel options (int (j mod fb_stride fb)) (int (j div fb_stride fb)) (fb_pixels fb ! j)
       else fb_pixels fb ! j))"
  using updates_blit_direct [OF assms(1), of options] updates_blit_sampled [OF assms(1), of options] assms(2)
  by (cases "blit_unscaled options") (auto simp: raster_blit_def updates_def)

definition turned_blit :: blit_options where
  "turned_blit = demo_blit\<lparr>blit_rotation := ROTATE_90, blit_opacity := 128, color_key_enabled := False\<rparr>"

theorem raster_blit_exact_witness:
  "fb_width demo_fb \<le> fb_stride demo_fb \<and> blit_accepted turned_blit \<and>
   (\<exists>m. raster_blit (Some demo_fb) (Some turned_blit) = (True, Some (demo_fb\<lparr>fb_pixels := m\<rparr>)) \<and>
    length m = 12 \<and> m ! 3 = blit_pixel turned_blit 0 1 7 \<and> m ! 5 = 7)"
proof -
  have ok: "fb_width demo_fb \<le> fb_stride demo_fb" and accepted: "blit_accepted turned_blit"
    by (simp_all add: demo_fb_def turned_blit_def demo_blit_def blit_accepted_def)
  obtain m where m: "raster_blit (Some demo_fb) (Some turned_blit) = (True, Some (demo_fb\<lparr>fb_pixels := m\<rparr>))"
      "length m = length (fb_pixels demo_fb)"
      "\<forall>j < length m. m ! j = (if visible demo_fb j \<and> in_destination demo_fb turned_blit j
        then blit_pixel turned_blit (int (j mod fb_stride demo_fb)) (int (j div fb_stride demo_fb))
          (fb_pixels demo_fb ! j)
        else fb_pixels demo_fb ! j)"
    using raster_blit_exact [OF ok accepted] by blast
  have "length m = 12" using m(2) by (simp add: demo_fb_def)
  moreover have "visible demo_fb 3 \<and> in_destination demo_fb turned_blit 3" and "\<not> visible demo_fb 5"
    by code_simp+
  moreover have "3 mod fb_stride demo_fb = 0" "3 div fb_stride demo_fb = 1" "fb_pixels demo_fb ! 3 = 7"
      "fb_pixels demo_fb ! 5 = 7"
    by (simp_all add: demo_fb_def)
  ultimately have "m ! 3 = blit_pixel turned_blit 0 1 7" "m ! 5 = 7" using m(3) by simp_all
  then show ?thesis using ok accepted m(1) \<open>length m = 12\<close> by blast
qed

text \<open>
  Every pixel an accepted blit samples lies inside the source rectangle, and so inside the
  bitmap, for every rotation, mirroring and scaling.
\<close>

theorem blit_reads_source:
  assumes accepted: "blit_accepted options"
    and dx: "dx < rect_width (blit_destination options)" and dy: "dy < rect_height (blit_destination options)"
    and position: "(sx, sy) = sample_position options
      (dx * fst (rotated_size options) div rect_width (blit_destination options))
      (dy * snd (rotated_size options) div rect_height (blit_destination options))"
  shows "nat (rect_x (blit_source options)) \<le> sx \<and>
    sx < nat (rect_x (blit_source options)) + rect_width (blit_source options) \<and>
    nat (rect_y (blit_source options)) \<le> sy \<and>
    sy < nat (rect_y (blit_source options)) + rect_height (blit_source options) \<and>
    sy * bitmap_width options + sx < bitmap_width options * bitmap_height options"
proof -
  let ?s = "blit_source options"
  have scaled: "d * size div extent < size" if "d < extent" "0 < size" for d size extent :: nat
    using that by (simp add: div_less_iff_less_mult mult.commute)
  have positive: "0 < rect_width ?s" "0 < rect_height ?s"
    and fits: "nat (rect_x ?s) + rect_width ?s \<le> bitmap_width options"
      "nat (rect_y ?s) + rect_height ?s \<le> bitmap_height options"
    using accepted unfolding blit_accepted_def by auto
  define rx where "rx = dx * fst (rotated_size options) div rect_width (blit_destination options)"
  define ry where "ry = dy * snd (rotated_size options) div rect_height (blit_destination options)"
  have rx: "rx < fst (rotated_size options)" and ry: "ry < snd (rotated_size options)"
    unfolding rx_def ry_def using dx dy positive by (auto intro!: scaled simp: rotated_size_def)
  have inside: "nat (rect_x ?s) \<le> sx \<and> sx < nat (rect_x ?s) + rect_width ?s \<and>
      nat (rect_y ?s) \<le> sy \<and> sy < nat (rect_y ?s) + rect_height ?s"
    using position [folded rx_def ry_def] rx ry positive
    by (cases "blit_rotation options") (auto simp: sample_position_def rotated_size_def Let_def)
  then have "sx < bitmap_width options" and "sy + 1 \<le> bitmap_height options" using fits by linarith+
  then have "sy * bitmap_width options + sx < (sy + 1) * bitmap_width options" by simp
  also have "\<dots> \<le> bitmap_height options * bitmap_width options"
    using \<open>sy + 1 \<le> bitmap_height options\<close> by (rule mult_le_mono1)
  finally show ?thesis using inside by (simp add: mult.commute)
qed

theorem blit_reads_source_witness:
  "blit_accepted turned_blit \<and> (2, 1) = sample_position turned_blit
      (2 * fst (rotated_size turned_blit) div rect_width (blit_destination turned_blit))
      (0 * snd (rotated_size turned_blit) div rect_height (blit_destination turned_blit)) \<and>
   1 * bitmap_width turned_blit + 2 < bitmap_width turned_blit * bitmap_height turned_blit"
proof -
  have "blit_accepted turned_blit"
    by (simp add: turned_blit_def demo_blit_def blit_accepted_def)
  moreover have "(2, 1) = sample_position turned_blit
      (2 * fst (rotated_size turned_blit) div rect_width (blit_destination turned_blit))
      (0 * snd (rotated_size turned_blit) div rect_height (blit_destination turned_blit))"
    by code_simp
  moreover have "2 < rect_width (blit_destination turned_blit)" "0 < rect_height (blit_destination turned_blit)"
    by (simp_all add: turned_blit_def demo_blit_def)
  ultimately show ?thesis using blit_reads_source by blast
qed

text \<open>
  Blending mixes each of the three channels of the two colours separately, rounded to the
  nearest value, with no carry from one channel into the next; full opacity gives the source
  and none the destination.
\<close>

theorem blend_channels:
  "red_of (blend source destination opacity) = mix (red_of source) (red_of destination) (unat opacity) \<and>
   green_of (blend source destination opacity) = mix (green_of source) (green_of destination) (unat opacity) \<and>
   blue_of (blend source destination opacity) = mix (blue_of source) (blue_of destination) (unat opacity) \<and>
   blend source destination 255 = source \<and> blend source destination 0 = destination"
  using blend_mixes by (auto intro!: channels_eqI simp: mix_def)

end
