(* ===== verification/Font.thy ===== *)
theory Font
  imports Raster
begin

text \<open>
  The glyph renderer of \<^verbatim>\<open>src/graphics/font.c\<close>. The glyph table is linked into the program from a
  file of the build (\<^verbatim>\<open>font_data.S.in\<close>), so it is an argument of the model; the sizes are those
  \<^verbatim>\<open>src/config/Font.cmake\<close> configures: 256 glyphs of 8 by 12 pixels, one byte per row.
  The renderer draws each row of a glyph as runs of equal colour; \<open>font_exact\<close> shows that the
  picture is the one that looks every pixel up in the table.
\<close>

section \<open>The renderer\<close>

definition FONT_GLYPH_WIDTH :: nat where "FONT_GLYPH_WIDTH = 8"
definition FONT_GLYPH_HEIGHT :: nat where "FONT_GLYPH_HEIGHT = 12"
definition FONT_GLYPH_COUNT :: nat where "FONT_GLYPH_COUNT = 256"
definition FONT_BYTES_PER_ROW :: nat where "FONT_BYTES_PER_ROW = 1"

lemmas font_sizes = FONT_GLYPH_WIDTH_def FONT_GLYPH_HEIGHT_def FONT_GLYPH_COUNT_def FONT_BYTES_PER_ROW_def

type_synonym font_table = "nat \<Rightarrow> u8"

definition font_glyph_index :: "nat \<Rightarrow> nat" where
  "font_glyph_index character = (if character < FONT_GLYPH_COUNT then character else 0)"

definition glyph_rows :: "font_table \<Rightarrow> u8 \<Rightarrow> nat \<Rightarrow> u8" where
  "glyph_rows font_data character index =
     font_data (font_glyph_index (unat character) * FONT_GLYPH_HEIGHT * FONT_BYTES_PER_ROW + index)"

definition glyph_color :: "(nat \<Rightarrow> u8) \<Rightarrow> nat \<Rightarrow> pixel \<Rightarrow> pixel \<Rightarrow> nat \<Rightarrow> pixel" where
  "glyph_color rows row foreground background column =
     (if and (rows (row * FONT_BYTES_PER_ROW + column div 8)) (drop_bit (column mod 8) 0x80) \<noteq> 0
      then foreground else background)"

definition draw_run :: "framebuffer \<Rightarrow> int \<Rightarrow> nat \<Rightarrow> nat \<Rightarrow> nat \<Rightarrow> nat \<Rightarrow> pixel \<Rightarrow> pixel list \<Rightarrow> pixel list" where
  "draw_run fb x output_y scale column count color memory =
     (let output_x = x + int (column * scale);
          clipped = (if output_x < 0 then nat (- output_x) else 0)
      in if output_x < 0 \<and> count \<le> clipped then memory
         else
           (let output_x = (if output_x < 0 then 0 else output_x);
                count = count - clipped
            in if nat output_x < fb_width fb then
                 (let available = fb_width fb - nat output_x;
                      count = (if available < count then available else count)
                  in raster_fill_span memory (output_y * fb_stride fb + nat output_x) count color)
               else memory))"

lemma run_positive: "column < scan_while P (Suc column) count"
  using scan_while_ge [of "Suc column" P count] by linarith

function draw_glyph_line ::
    "framebuffer \<Rightarrow> int \<Rightarrow> nat \<Rightarrow> nat \<Rightarrow> (nat \<Rightarrow> pixel) \<Rightarrow> nat \<Rightarrow> pixel list \<Rightarrow> pixel list" where
  "draw_glyph_line fb x output_y scale color column memory =
     (if column < FONT_GLYPH_WIDTH then
        (let run = scan_while (\<lambda>c. color c = color column) (column + 1) FONT_GLYPH_WIDTH - column
         in draw_glyph_line fb x output_y scale color (column + run)
              (draw_run fb x output_y scale column (run * scale) (color column) memory))
      else memory)"
  by pat_completeness auto

termination
  by (relation "measure (\<lambda>(fb, x, output_y, scale, color, column, memory). FONT_GLYPH_WIDTH - column)")
     (auto intro!: diff_less_mono2 simp: run_positive)

declare draw_glyph_line.simps [simp del]

definition font_draw_char ::
    "font_table \<Rightarrow> framebuffer option \<Rightarrow> int \<Rightarrow> int \<Rightarrow> u8 \<Rightarrow> nat \<Rightarrow> pixel \<Rightarrow> pixel \<Rightarrow> bool \<times> framebuffer option" where
  "font_draw_char font_data framebuffer x y character scale foreground background =
     (case framebuffer of
        None \<Rightarrow> (False, None)
      | Some fb \<Rightarrow>
          if scale = 0 then (False, Some fb)
          else
            (True, Some (fb\<lparr>fb_pixels :=
               fold (\<lambda>row memory.
                 fold (\<lambda>sy memory.
                   (let output_y = y + int (row * scale + sy)
                    in if output_y < 0 \<or> fb_height fb \<le> nat output_y then memory
                       else draw_glyph_line fb x (nat output_y) scale
                              (glyph_color (glyph_rows font_data character) row foreground background) 0 memory))
                   [0..<scale] memory)
                 [0..<FONT_GLYPH_HEIGHT] (fb_pixels fb)\<rparr>)))"

section \<open>The picture of a glyph\<close>

lemma updates_draw_run:
  assumes ok: "fb_width fb \<le> fb_stride fb"
  shows "updates (\<lambda>j. j mod fb_stride fb < fb_width fb \<and> j div fb_stride fb = output_y \<and>
        x + int (column * scale) \<le> int (j mod fb_stride fb) \<and>
        int (j mod fb_stride fb) < x + int (column * scale) + int count)
      (\<lambda>j old. color) m (draw_run fb x output_y scale column count color m)" (is "updates ?P ?H m _")
proof -
  let ?x = "x + int (column * scale)"
  define clipped where "clipped = (if ?x < 0 then nat (- ?x) else 0)"
  define left where "left = nat (if ?x < 0 then 0 else ?x)"
  define n where "n = (if fb_width fb - left < count - clipped then fb_width fb - left else count - clipped)"
  show ?thesis
  proof (cases "(?x < 0 \<and> count \<le> clipped) \<or> fb_width fb \<le> left")
    case True
    then have "draw_run fb x output_y scale column count color m = m"
      unfolding draw_run_def clipped_def left_def by (auto simp: Let_def split: if_splits)
    moreover have "\<not> ?P j" for j
      using True unfolding clipped_def left_def by (auto split: if_splits)
    ultimately show ?thesis by (auto intro: updates_refl)
  next
    case False
    have run: "draw_run fb x output_y scale column count color m =
        raster_fill_span m (output_y * fb_stride fb + left) n color"
      using False unfolding draw_run_def clipped_def left_def n_def
      by (simp add: Let_def split: if_splits)
    have bound: "left + n \<le> fb_stride fb" using False ok unfolding n_def by auto
    have "?P j \<longleftrightarrow> output_y * fb_stride fb + left \<le> j \<and> j < output_y * fb_stride fb + left + n" for j
      using row_position [OF bound, of output_y left j] False
      unfolding add.assoc n_def left_def clipped_def by (auto split: if_splits)
    then show ?thesis unfolding run by (intro updates_cong [OF updates_fill_span]) simp
  qed
qed

lemma updates_glyph_line:
  assumes ok: "fb_width fb \<le> fb_stride fb" and scale: "0 < scale" and "column \<le> FONT_GLYPH_WIDTH"
  shows "updates (\<lambda>j. j mod fb_stride fb < fb_width fb \<and> j div fb_stride fb = output_y \<and>
        x + int (column * scale) \<le> int (j mod fb_stride fb) \<and>
        int (j mod fb_stride fb) < x + int (FONT_GLYPH_WIDTH * scale))
      (\<lambda>j old. color (nat (int (j mod fb_stride fb) - x) div scale)) m
      (draw_glyph_line fb x output_y scale color column m)"
  using assms
proof (induction fb x output_y scale color column m rule: draw_glyph_line.induct)
  case (1 fb x output_y scale color column m)
  note ok = 1(2) and scale = 1(3) and column = 1(4)
  let ?px = "\<lambda>j. int (j mod fb_stride fb)"
  let ?row = "\<lambda>j. j mod fb_stride fb < fb_width fb \<and> j div fb_stride fb = output_y"
  let ?H = "\<lambda>j (old :: pixel). color (nat (?px j - x) div scale)"
  show ?case
  proof (cases "column < FONT_GLYPH_WIDTH")
    case True
    define stop where "stop = scan_while (\<lambda>c. color c = color column) (column + 1) FONT_GLYPH_WIDTH"
    define run where "run = stop - column"
    have order: "column < stop" "stop \<le> FONT_GLYPH_WIDTH"
      unfolding stop_def using True run_positive by (auto intro: scan_while_le)
    then have stop: "column + run = stop" by (simp add: run_def)
    have same: "color c = color column" if "column \<le> c" "c < stop" for c
      using that scan_while_holds [of "column + 1" c "\<lambda>c. color c = color column" FONT_GLYPH_WIDTH]
      unfolding stop_def by (cases "c = column") auto
    let ?m = "draw_run fb x output_y scale column (run * scale) (color column) m"
    have covered: "int (column * scale) + int (run * scale) = int (stop * scale)"
      unfolding stop [symmetric] by (simp add: algebra_simps)
    have first: "updates (\<lambda>j. ?row j \<and> x + int (column * scale) \<le> ?px j \<and> ?px j < x + int (stop * scale)) ?H m ?m"
    proof (rule updates_cong [OF updates_draw_run [OF ok]])
      fix j
      have "color (nat (?px j - x) div scale) = color column"
        if "x + int (column * scale) \<le> ?px j" "?px j < x + int (stop * scale)"
      proof (rule same)
        have "column * scale \<le> nat (?px j - x)" "nat (?px j - x) < stop * scale" using that by linarith+
        then show "column \<le> nat (?px j - x) div scale" "nat (?px j - x) div scale < stop"
          using scale by (simp_all add: less_eq_div_iff_mult_less_eq div_less_iff_less_mult)
      qed
      then show "(if j mod fb_stride fb < fb_width fb \<and> j div fb_stride fb = output_y \<and>
          x + int (column * scale) \<le> ?px j \<and> ?px j < x + int (column * scale) + int (run * scale)
          then color column else m ! j) =
        (if ?row j \<and> x + int (column * scale) \<le> ?px j \<and> ?px j < x + int (stop * scale)
          then ?H j (m ! j) else m ! j)"
        using covered by (simp add: add.assoc)
    qed
    have rest: "updates (\<lambda>j. j mod fb_stride fb < fb_width fb \<and> j div fb_stride fb = output_y \<and>
          x + int (stop * scale) \<le> ?px j \<and> ?px j < x + int (FONT_GLYPH_WIDTH * scale)) ?H ?m
        (draw_glyph_line fb x output_y scale color stop ?m)"
      using 1(1) [OF True run_def [unfolded stop_def] ok scale] order unfolding stop by blast
    have step: "draw_glyph_line fb x output_y scale color column m =
        draw_glyph_line fb x output_y scale color stop ?m"
      using True stop unfolding draw_glyph_line.simps [of fb x output_y scale color column m]
      by (simp add: Let_def stop_def run_def)
    have "column * scale \<le> stop * scale" "stop * scale \<le> FONT_GLYPH_WIDTH * scale"
      using order by (simp_all add: mult_le_mono1)
    then have bounds: "int (column * scale) \<le> int (stop * scale)"
        "int (stop * scale) \<le> int (FONT_GLYPH_WIDTH * scale)"
      by (simp_all only: of_nat_le_iff)
    show ?thesis unfolding step
      by (rule updates_cong [OF updates_comp [OF first rest]]) (use bounds in auto)
  next
    case False
    have "draw_glyph_line fb x output_y scale color column m = m"
      by (subst draw_glyph_line.simps) (simp add: False)
    moreover have "column = FONT_GLYPH_WIDTH" using False column by simp
    ultimately show ?thesis by (auto intro: updates_refl)
  qed
qed

definition glyph_pixel ::
    "font_table \<Rightarrow> int \<Rightarrow> int \<Rightarrow> u8 \<Rightarrow> nat \<Rightarrow> pixel \<Rightarrow> pixel \<Rightarrow> int \<Rightarrow> int \<Rightarrow> pixel" where
  "glyph_pixel font_data x y character scale foreground background px py =
     glyph_color (glyph_rows font_data character) (nat (py - y) div scale) foreground background
       (nat (px - x) div scale)"

lemma updates_font:
  assumes ok: "fb_width fb \<le> fb_stride fb" and scale: "0 < scale"
  shows "\<exists>m. font_draw_char font_data (Some fb) x y character scale foreground background =
      (True, Some (fb\<lparr>fb_pixels := m\<rparr>)) \<and>
    updates (\<lambda>j. visible fb j \<and> in_rect x y (FONT_GLYPH_WIDTH * scale) (FONT_GLYPH_HEIGHT * scale)
        (int (j mod fb_stride fb)) (int (j div fb_stride fb)))
      (\<lambda>j old. glyph_pixel font_data x y character scale foreground background
        (int (j mod fb_stride fb)) (int (j div fb_stride fb))) (fb_pixels fb) m"
proof -
  let ?px = "\<lambda>j. int (j mod fb_stride fb)" and ?py = "\<lambda>j. int (j div fb_stride fb)"
  let ?color = "\<lambda>row. glyph_color (glyph_rows font_data character) row foreground background"
  let ?H = "\<lambda>j (old :: pixel). glyph_pixel font_data x y character scale foreground background (?px j) (?py j)"
  let ?step = "\<lambda>row sy memory. (let output_y = y + int (row * scale + sy)
      in if output_y < 0 \<or> fb_height fb \<le> nat output_y then memory
         else draw_glyph_line fb x (nat output_y) scale (?color row) 0 memory)"
  let ?in = "\<lambda>j. visible fb j \<and> x \<le> ?px j \<and> ?px j < x + int (FONT_GLYPH_WIDTH * scale)"
  define line where "line row sy j \<longleftrightarrow> ?in j \<and> ?py j = y + int (row * scale + sy)" for row sy j
  have step: "updates (line row sy) ?H m (?step row sy m)" if "sy < scale" for row sy m
  proof (cases "y + int (row * scale + sy) < 0 \<or> fb_height fb \<le> nat (y + int (row * scale + sy))")
    case True
    then have "\<not> line row sy j" for j unfolding line_def visible_def by auto
    moreover have "?step row sy m = m" using True by (simp add: Let_def)
    ultimately show ?thesis by (auto intro: updates_refl)
  next
    case False
    then have "?step row sy m = draw_glyph_line fb x (nat (y + int (row * scale + sy))) scale (?color row) 0 m"
      by (simp add: Let_def)
    moreover have "updates (line row sy) ?H m
        (draw_glyph_line fb x (nat (y + int (row * scale + sy))) scale (?color row) 0 m)"
    proof (rule updates_cong [OF updates_glyph_line [OF ok scale]])
      fix j
      show "(if j mod fb_stride fb < fb_width fb \<and> j div fb_stride fb = nat (y + int (row * scale + sy)) \<and>
          x + int (0 * scale) \<le> ?px j \<and> ?px j < x + int (FONT_GLYPH_WIDTH * scale)
          then ?color row (nat (?px j - x) div scale) else m ! j) =
        (if line row sy j then ?H j (m ! j) else m ! j)"
      proof (cases "line row sy j")
        case True
        then have "?py j - y = int (row * scale + sy)" unfolding line_def by linarith
        then have "nat (?py j - y) = row * scale + sy" by (simp only: nat_int)
        then have "nat (?py j - y) div scale = row" using that by simp
        then show ?thesis using True False unfolding line_def glyph_pixel_def visible_def by auto
      next
        case no: False
        then show ?thesis using False unfolding line_def visible_def by auto
      qed
    qed simp
    ultimately show ?thesis by simp
  qed
  have row: "updates (\<lambda>j. \<exists>sy \<in> set [0..<scale]. line row sy j) ?H m (fold (?step row) [0..<scale] m)" for row m
    by (rule updates_fold) (rule step, simp, simp, simp add: line_def)
  define m where "m = fold (\<lambda>row. fold (?step row) [0..<scale]) [0..<FONT_GLYPH_HEIGHT] (fb_pixels fb)"
  have "updates (\<lambda>j. \<exists>row \<in> set [0..<FONT_GLYPH_HEIGHT]. \<exists>sy \<in> set [0..<scale]. line row sy j) ?H (fb_pixels fb) m"
    unfolding m_def
  proof (rule updates_fold)
    fix k l j
    assume "\<exists>sy \<in> set [0..<scale]. line k sy j" "\<exists>sy \<in> set [0..<scale]. line l sy j"
    then obtain s t where st: "s < scale" "t < scale" and lines: "line k s j" "line l t j" by auto
    then have "int (k * scale + s) = int (l * scale + t)" unfolding line_def by linarith
    then have "k * scale + s = l * scale + t" by (simp only: of_nat_eq_iff)
    with st show "k = l" by (metis div_mult_self3 div_less add.right_neutral less_nat_zero_code)
  qed (use row in auto)
  moreover have "(\<exists>row \<in> set [0..<FONT_GLYPH_HEIGHT]. \<exists>sy \<in> set [0..<scale]. line row sy j) \<longleftrightarrow>
      visible fb j \<and> in_rect x y (FONT_GLYPH_WIDTH * scale) (FONT_GLYPH_HEIGHT * scale) (?px j) (?py j)" for j
  proof
    assume "\<exists>row \<in> set [0..<FONT_GLYPH_HEIGHT]. \<exists>sy \<in> set [0..<scale]. line row sy j"
    then obtain row sy where l: "row < FONT_GLYPH_HEIGHT" "sy < scale" "line row sy j" by auto
    have "row * scale + sy < (row + 1) * scale" using l(2) by simp
    also have "\<dots> \<le> FONT_GLYPH_HEIGHT * scale" using l(1) by (intro mult_le_mono1) simp
    finally have "int (row * scale + sy) < int (FONT_GLYPH_HEIGHT * scale)" by (simp only: of_nat_less_iff)
    then show "visible fb j \<and> in_rect x y (FONT_GLYPH_WIDTH * scale) (FONT_GLYPH_HEIGHT * scale) (?px j) (?py j)"
      using l(3) unfolding line_def in_rect_def by linarith
  next
    assume r: "visible fb j \<and> in_rect x y (FONT_GLYPH_WIDTH * scale) (FONT_GLYPH_HEIGHT * scale) (?px j) (?py j)"
    define k where "k = nat (?py j - y)"
    have k: "?py j = y + int k" "k < FONT_GLYPH_HEIGHT * scale"
      using r unfolding k_def in_rect_def by linarith+
    have "k div scale * scale + k mod scale = k" by simp
    then have "line (k div scale) (k mod scale) j"
      using r k(1) unfolding line_def in_rect_def by metis
    moreover have "k div scale < FONT_GLYPH_HEIGHT" "k mod scale < scale"
      using k(2) scale by (simp_all add: div_less_iff_less_mult)
    ultimately show "\<exists>row \<in> set [0..<FONT_GLYPH_HEIGHT]. \<exists>sy \<in> set [0..<scale]. line row sy j" by force
  qed
  ultimately have "updates (\<lambda>j. visible fb j \<and> in_rect x y (FONT_GLYPH_WIDTH * scale)
      (FONT_GLYPH_HEIGHT * scale) (?px j) (?py j)) ?H (fb_pixels fb) m" by simp
  moreover have "font_draw_char font_data (Some fb) x y character scale foreground background =
      (True, Some (fb\<lparr>fb_pixels := m\<rparr>))"
    unfolding font_draw_char_def m_def using scale by simp
  ultimately show ?thesis by blast
qed

text \<open>
  C36. Drawing a character draws, at every visible pixel of its scaled box, the colour its bit
  in the glyph table selects, clips the rest, and changes no other element of the memory behind
  the frame buffer. The runs of equal pixels, clipped on the left and on the right, draw the same
  picture as a lookup per pixel.
\<close>

theorem font_exact:
  assumes "fb_width fb \<le> fb_stride fb" and "0 < scale"
  shows "\<exists>m. font_draw_char font_data (Some fb) x y character scale foreground background =
      (True, Some (fb\<lparr>fb_pixels := m\<rparr>)) \<and>
    length m = length (fb_pixels fb) \<and>
    (\<forall>j < length m. m ! j =
      (if visible fb j \<and> in_rect x y (FONT_GLYPH_WIDTH * scale) (FONT_GLYPH_HEIGHT * scale)
          (int (j mod fb_stride fb)) (int (j div fb_stride fb))
       then glyph_pixel font_data x y character scale foreground background
          (int (j mod fb_stride fb)) (int (j div fb_stride fb))
       else fb_pixels fb ! j))"
  using updates_font [OF assms, of font_data x y character foreground background]
  by (auto simp: updates_def)

theorem font_exact_witness:
  "\<exists>m. font_draw_char (\<lambda>i. 0x55) (Some demo_fb) (-1) 0 65 2 1 0 = (True, Some (demo_fb\<lparr>fb_pixels := m\<rparr>)) \<and>
    m ! 0 = glyph_pixel (\<lambda>i. 0x55) (-1) 0 65 2 1 0 0 0 \<and> m ! 2 = 7"
proof -
  have ok: "fb_width demo_fb \<le> fb_stride demo_fb" and scale: "(0 :: nat) < 2" by (simp_all add: demo_fb_def)
  obtain m where m: "font_draw_char (\<lambda>i. 0x55) (Some demo_fb) (-1) 0 65 2 1 0 = (True, Some (demo_fb\<lparr>fb_pixels := m\<rparr>))"
      "length m = length (fb_pixels demo_fb)"
      "\<forall>j < length m. m ! j =
        (if visible demo_fb j \<and> in_rect (-1) 0 (FONT_GLYPH_WIDTH * 2) (FONT_GLYPH_HEIGHT * 2)
            (int (j mod fb_stride demo_fb)) (int (j div fb_stride demo_fb))
         then glyph_pixel (\<lambda>i. 0x55) (-1) 0 65 2 1 0
            (int (j mod fb_stride demo_fb)) (int (j div fb_stride demo_fb))
         else fb_pixels demo_fb ! j)"
    using font_exact [OF ok scale, of "\<lambda>i. 0x55" "-1" 0 65 1 0] by blast
  have "length m = 12" using m(2) by (simp add: demo_fb_def)
  moreover have "visible demo_fb 0" "\<not> visible demo_fb 2" "fb_pixels demo_fb ! 2 = 7"
    by (simp_all add: visible_def demo_fb_def)
  moreover have "in_rect (-1) 0 (FONT_GLYPH_WIDTH * 2) (FONT_GLYPH_HEIGHT * 2) 0 0"
    by (simp add: in_rect_def font_sizes)
  ultimately have "m ! 0 = glyph_pixel (\<lambda>i. 0x55) (-1) 0 65 2 1 0 0 0" "m ! 2 = 7" using m(3) by simp_all
  then show ?thesis using m(1) by blast
qed

end
