(* ===== verification/Terminal.thy ===== *)
theory Terminal
  imports Font "HOL-Library.Sublist"
begin

text \<open>
  The terminal of \<^verbatim>\<open>src/graphics/terminal.c\<close>: a grid of character cells with scrollback, an escape
  sequence parser, and a renderer that redraws either everything or the cells marked dirty.
  A line number counts lines since the last clear; line \<open>n\<close> is kept in slot \<open>n mod line_capacity\<close>,
  so the oldest line is evicted when the slots run out. Line numbers are \<^typ>\<open>nat\<close>: the code has
  64 bits for them. \<open>t_cells\<close> holds one list of cells per slot, where the code has one array with
  \<open>columns\<close> cells per slot; \<open>t_allocated\<close> is false where the code has null arrays. The code's
  subtractions of line numbers and columns are on unsigned integers; the invariant of
  \<^verbatim>\<open>TerminalProofs\<close> shows that none of them goes below zero. A null terminal or null text returns
  at once in the code and is not represented.
\<close>

section \<open>State\<close>

record cell =
  cell_character :: u8
  cell_foreground :: pixel
  cell_background :: pixel
  cell_reverse :: bool

definition blank_cell :: cell where
  "blank_cell = \<lparr>cell_character = 0, cell_foreground = 0, cell_background = 0, cell_reverse = False\<rparr>"

record terminal =
  t_framebuffer :: "framebuffer option"
  t_column :: nat
  t_row :: nat
  t_columns :: nat
  t_rows :: nat
  t_scale :: nat
  t_foreground :: pixel
  t_background :: pixel
  t_reverse :: bool
  t_allocated :: bool
  t_cells :: "cell list list"
  t_dirty_cells :: "bool list"
  t_line_lengths :: "nat list"
  t_hard_breaks :: "bool list"
  t_line_capacity :: nat
  t_first_line :: nat
  t_current_line :: nat
  t_last_line :: nat
  t_viewport_top :: nat
  t_cursor_visible :: bool
  t_cursor_phase_visible :: bool
  t_full_redraw :: bool
  t_rendering_enabled :: bool
  t_ansi_state :: nat
  t_ansi_values :: "nat list"
  t_ansi_count :: nat
  t_ansi_private :: bool
  t_ansi_invalid :: bool
  t_saved_column :: nat
  t_saved_line :: nat

definition no_terminal :: terminal where
  "no_terminal =
     \<lparr>t_framebuffer = None, t_column = 0, t_row = 0, t_columns = 0, t_rows = 0, t_scale = 0,
      t_foreground = 0, t_background = 0, t_reverse = False, t_allocated = False, t_cells = [],
      t_dirty_cells = [], t_line_lengths = [], t_hard_breaks = [], t_line_capacity = 0,
      t_first_line = 0, t_current_line = 0, t_last_line = 0, t_viewport_top = 0,
      t_cursor_visible = False, t_cursor_phase_visible = False, t_full_redraw = False,
      t_rendering_enabled = False, t_ansi_state = 0, t_ansi_values = replicate 8 0, t_ansi_count = 0,
      t_ansi_private = False, t_ansi_invalid = False, t_saved_column = 0, t_saved_line = 0\<rparr>"

definition FONT_CELL_WIDTH :: nat where "FONT_CELL_WIDTH = 8"
definition FONT_CELL_HEIGHT :: nat where "FONT_CELL_HEIGHT = 15"
definition TERMINAL_SCROLLBACK_LINES :: nat where "TERMINAL_SCROLLBACK_LINES = 256"
definition SIZE_MAX :: nat where "SIZE_MAX = 2 ^ 32 - 1"
definition SIZEOF_CELL :: nat where "SIZEOF_CELL = 8"

section \<open>Lines and the viewport\<close>

definition cell_width :: "terminal \<Rightarrow> nat" where
  "cell_width t = FONT_CELL_WIDTH * t_scale t"

definition cell_height :: "terminal \<Rightarrow> nat" where
  "cell_height t = FONT_CELL_HEIGHT * t_scale t"

definition line_slot :: "terminal \<Rightarrow> nat \<Rightarrow> nat" where
  "line_slot t line = line mod t_line_capacity t"

definition line_cells :: "terminal \<Rightarrow> nat \<Rightarrow> cell list" where
  "line_cells t line = t_cells t ! line_slot t line"

definition line_length :: "terminal \<Rightarrow> nat \<Rightarrow> nat" where
  "line_length t line = t_line_lengths t ! line_slot t line"

definition hard_break :: "terminal \<Rightarrow> nat \<Rightarrow> bool" where
  "hard_break t line = t_hard_breaks t ! line_slot t line"

definition set_cell :: "nat \<Rightarrow> nat \<Rightarrow> cell \<Rightarrow> terminal \<Rightarrow> terminal" where
  "set_cell line column cell t =
     t\<lparr>t_cells := (t_cells t)[line_slot t line := (line_cells t line)[column := cell]]\<rparr>"

definition set_line_length :: "nat \<Rightarrow> nat \<Rightarrow> terminal \<Rightarrow> terminal" where
  "set_line_length line n t = t\<lparr>t_line_lengths := (t_line_lengths t)[line_slot t line := n]\<rparr>"

definition set_hard_break :: "nat \<Rightarrow> bool \<Rightarrow> terminal \<Rightarrow> terminal" where
  "set_hard_break line hard t = t\<lparr>t_hard_breaks := (t_hard_breaks t)[line_slot t line := hard]\<rparr>"

definition live_viewport_top :: "terminal \<Rightarrow> nat" where
  "live_viewport_top t =
     (let visible_rows = t_rows t;
          first_visible = (if visible_rows < t_last_line t + 1 then t_last_line t + 1 - visible_rows else 0)
      in if t_first_line t < first_visible then first_visible else t_first_line t)"

definition update_cursor_row :: "terminal \<Rightarrow> terminal" where
  "update_cursor_row t = t\<lparr>t_row := t_current_line t - live_viewport_top t\<rparr>"

definition follow_live_output :: "terminal \<Rightarrow> terminal" where
  "follow_live_output t =
     (let viewport_top = live_viewport_top t
      in update_cursor_row
           (if t_viewport_top t \<noteq> viewport_top
            then t\<lparr>t_viewport_top := viewport_top, t_full_redraw := True\<rparr> else t))"

definition mark_cell :: "nat \<Rightarrow> nat \<Rightarrow> terminal \<Rightarrow> terminal" where
  "mark_cell line column t =
     (if t_columns t \<le> column \<or> line < t_viewport_top t \<or> t_viewport_top t + t_rows t \<le> line then t
      else t\<lparr>t_dirty_cells :=
        (t_dirty_cells t)[(line - t_viewport_top t) * t_columns t + column := True]\<rparr>)"

definition cursor_should_draw :: "terminal \<Rightarrow> bool" where
  "cursor_should_draw t \<longleftrightarrow>
     t_cursor_visible t \<and> t_cursor_phase_visible t \<and> t_viewport_top t = live_viewport_top t \<and>
     t_viewport_top t \<le> t_current_line t \<and> t_current_line t < t_viewport_top t + t_rows t"

definition mark_cursor :: "terminal \<Rightarrow> terminal" where
  "mark_cursor t = mark_cell (t_current_line t) (t_column t) t"

definition clear_line :: "nat \<Rightarrow> terminal \<Rightarrow> terminal" where
  "clear_line line t =
     t\<lparr>t_cells := (t_cells t)[line_slot t line := replicate (t_columns t) blank_cell],
       t_line_lengths := (t_line_lengths t)[line_slot t line := 0],
       t_hard_breaks := (t_hard_breaks t)[line_slot t line := False]\<rparr>"

section \<open>Text\<close>

definition next_line :: "terminal \<Rightarrow> terminal" where
  "next_line t =
     (let t = t\<lparr>t_current_line := t_current_line t + 1\<rparr>;
          t = (if t_line_capacity t < t_current_line t - t_first_line t + 1
               then t\<lparr>t_first_line := t_first_line t + 1\<rparr> else t)
      in if t_last_line t < t_current_line t
         then clear_line (t_current_line t) (t\<lparr>t_last_line := t_current_line t\<rparr>) else t)"

definition append_line :: "bool \<Rightarrow> terminal \<Rightarrow> terminal" where
  "append_line hard t =
     follow_live_output ((next_line (set_hard_break (t_current_line t) hard t))\<lparr>t_column := 0\<rparr>)"

definition store_character :: "u8 \<Rightarrow> terminal \<Rightarrow> terminal" where
  "store_character character t =
     (let cell = \<lparr>cell_character = character, cell_foreground = t_foreground t,
            cell_background = t_background t, cell_reverse = t_reverse t\<rparr>;
          t = mark_cell (t_current_line t) (t_column t) (set_cell (t_current_line t) (t_column t) cell t)
      in if line_length t (t_current_line t) < t_column t + 1
         then set_line_length (t_current_line t) (t_column t + 1) t else t)"

definition put_character :: "u8 \<Rightarrow> terminal \<Rightarrow> terminal" where
  "put_character character t =
     (let t = store_character character t;
          t = t\<lparr>t_column := t_column t + 1\<rparr>
      in if t_columns t \<le> t_column t then append_line False t else t)"

fun trimmed_length :: "cell list \<Rightarrow> nat \<Rightarrow> nat" where
  "trimmed_length cells 0 = 0"
| "trimmed_length cells (Suc n) =
     (if cell_character (cells ! n) = 0 then trimmed_length cells n else Suc n)"

definition trim_line :: "nat \<Rightarrow> terminal \<Rightarrow> terminal" where
  "trim_line line t = set_line_length line (trimmed_length (line_cells t line) (line_length t line)) t"

definition leave_line :: "terminal \<Rightarrow> terminal" where
  "leave_line t =
     (let t = clear_line (t_current_line t) t;
          t = (if t_last_line t = t_current_line t then t\<lparr>t_last_line := t_last_line t - 1\<rparr> else t);
          t = t\<lparr>t_current_line := t_current_line t - 1\<rparr>;
          previous_length = line_length t (t_current_line t)
      in set_hard_break (t_current_line t) False
           (t\<lparr>t_column := (if t_columns t < previous_length then t_columns t else previous_length)\<rparr>))"

definition erase_left :: "terminal \<Rightarrow> terminal" where
  "erase_left t =
     (if 0 < t_column t then
        (let t = t\<lparr>t_column := t_column t - 1\<rparr>
         in trim_line (t_current_line t)
              (mark_cell (t_current_line t) (t_column t)
                (set_cell (t_current_line t) (t_column t) blank_cell t)))
      else t)"

definition backspace :: "terminal \<Rightarrow> terminal" where
  "backspace t =
     (if t_column t = 0 then
        (if t_current_line t = t_first_line t then t
         else if t_current_line t = live_viewport_top t \<and> t_current_line t < t_last_line t then t
         else follow_live_output (erase_left (leave_line t)))
      else follow_live_output (erase_left t))"

definition tab :: "terminal \<Rightarrow> terminal" where
  "tab t = fold (\<lambda>index. put_character 0x20) [0..<4 - t_column t mod 4] t"

section \<open>Drawing\<close>

definition clear_framebuffer :: "terminal \<Rightarrow> framebuffer \<Rightarrow> framebuffer" where
  "clear_framebuffer t fb =
     fb\<lparr>fb_pixels :=
       fold (\<lambda>y. fold (\<lambda>x pixels. pixels[y * fb_stride fb + x := t_background t]) [0..<fb_width fb])
         [0..<fb_height fb] (fb_pixels fb)\<rparr>"

definition cell_colors :: "terminal \<Rightarrow> cell \<Rightarrow> pixel \<times> pixel" where
  "cell_colors t cell =
     (let foreground = (if cell_character cell = 0 then t_foreground t else cell_foreground cell);
          background = (if cell_character cell = 0 then t_background t else cell_background cell)
      in if cell_reverse cell then (background, foreground) else (foreground, background))"

definition draw_cell ::
    "font_table \<Rightarrow> terminal \<Rightarrow> nat \<Rightarrow> nat \<Rightarrow> cell \<Rightarrow> bool \<Rightarrow> framebuffer \<Rightarrow> framebuffer" where
  "draw_cell font t column row cell cursor fb =
     (let character = (if cell_character cell = 0 then 0x20 else cell_character cell);
          (foreground, background) = cell_colors t cell;
          rendered_background = (if cursor then foreground else background);
          origin_x = column * cell_width t;
          origin_y = row * cell_height t;
          fb = fb\<lparr>fb_pixels :=
            fold (\<lambda>y pixels. raster_fill_span pixels ((origin_y + y) * fb_stride fb + origin_x) (cell_width t)
                    rendered_background)
              [0..<cell_height t] (fb_pixels fb)\<rparr>
      in the (snd (font_draw_char font (Some fb) (int origin_x) (int origin_y) character (t_scale t)
           (if cursor then background else foreground) (if cursor then foreground else background))))"

definition draw_row :: "font_table \<Rightarrow> terminal \<Rightarrow> nat \<Rightarrow> framebuffer \<Rightarrow> framebuffer" where
  "draw_row font t row fb =
     (let line = t_viewport_top t + row
      in if line < t_first_line t \<or> t_last_line t < line then fb
         else fold (\<lambda>column. draw_cell font t column row (line_cells t line ! column) False)
                [0..<line_length t line] fb)"

definition draw_all :: "font_table \<Rightarrow> terminal \<Rightarrow> framebuffer \<Rightarrow> framebuffer" where
  "draw_all font t fb = fold (draw_row font t) [0..<t_rows t] (clear_framebuffer t fb)"

definition draw_dirty_cell :: "font_table \<Rightarrow> terminal \<Rightarrow> nat \<Rightarrow> nat \<Rightarrow> framebuffer \<Rightarrow> framebuffer" where
  "draw_dirty_cell font t row column fb =
     (let line = t_viewport_top t + row
      in if \<not> t_dirty_cells t ! (row * t_columns t + column) then fb
         else draw_cell font t column row
                (if line \<le> t_last_line t then line_cells t line ! column else blank_cell) False fb)"

definition draw_dirty :: "font_table \<Rightarrow> terminal \<Rightarrow> framebuffer \<Rightarrow> framebuffer" where
  "draw_dirty font t fb =
     fold (\<lambda>row. fold (draw_dirty_cell font t row) [0..<t_columns t]) [0..<t_rows t] fb"

definition draw_cursor :: "font_table \<Rightarrow> terminal \<Rightarrow> framebuffer \<Rightarrow> framebuffer" where
  "draw_cursor font t fb =
     (if cursor_should_draw t
      then draw_cell font t (t_column t) (t_current_line t - t_viewport_top t)
             (line_cells t (t_current_line t) ! t_column t) True fb
      else fb)"

definition render :: "font_table \<Rightarrow> terminal \<Rightarrow> terminal" where
  "render font t =
     (case t_framebuffer t of
        None \<Rightarrow> t
      | Some fb \<Rightarrow>
          if \<not> t_allocated t then t
          else if \<not> t_rendering_enabled t then t
          else
            (let drawn = (if t_full_redraw t then draw_all font t fb else draw_dirty font t fb);
                 t' = t\<lparr>t_dirty_cells := replicate (t_rows t * t_columns t) False, t_full_redraw := False\<rparr>
             in t'\<lparr>t_framebuffer := Some (draw_cursor font t' drawn)\<rparr>))"

section \<open>Initialisation and whole-screen operations\<close>

definition terminal_init_with_rendering ::
    "font_table \<Rightarrow> bool \<Rightarrow> terminal \<Rightarrow> framebuffer option \<Rightarrow> nat \<Rightarrow> bool \<Rightarrow> bool \<times> terminal" where
  "terminal_init_with_rendering font memory_available t framebuffer scale rendering_enabled =
     (case framebuffer of
        None \<Rightarrow> (False, t)
      | Some fb \<Rightarrow>
          if scale = 0 then (False, t)
          else
            (let columns = fb_width fb div (FONT_CELL_WIDTH * scale);
                 rows = fb_height fb div (FONT_CELL_HEIGHT * scale)
             in if columns = 0 \<or> rows = 0 \<or> SIZE_MAX - TERMINAL_SCROLLBACK_LINES < rows then (False, t)
                else
                  (let line_capacity = rows + TERMINAL_SCROLLBACK_LINES
                   in if SIZE_MAX div line_capacity < columns \<or>
                         SIZE_MAX div SIZEOF_CELL < columns * line_capacity then (False, t)
                      else if \<not> memory_available then (False, t)
                      else
                        (True, render font
                          (no_terminal\<lparr>t_framebuffer := Some fb, t_columns := columns, t_rows := rows,
                             t_scale := scale, t_foreground := 0xffff, t_background := 0,
                             t_allocated := True,
                             t_cells := replicate line_capacity (replicate columns blank_cell),
                             t_line_lengths := replicate line_capacity 0,
                             t_hard_breaks := replicate line_capacity False,
                             t_dirty_cells := replicate (rows * columns) False,
                             t_line_capacity := line_capacity, t_cursor_phase_visible := True,
                             t_full_redraw := True, t_rendering_enabled := rendering_enabled\<rparr>)))))"

definition terminal_init ::
    "font_table \<Rightarrow> bool \<Rightarrow> terminal \<Rightarrow> framebuffer option \<Rightarrow> nat \<Rightarrow> bool \<times> terminal" where
  "terminal_init font memory_available t framebuffer scale =
     terminal_init_with_rendering font memory_available t framebuffer scale True"

definition terminal_shutdown :: "terminal \<Rightarrow> terminal" where
  "terminal_shutdown t = no_terminal"

definition replay_cell :: "cell \<Rightarrow> terminal \<Rightarrow> terminal" where
  "replay_cell cell resized =
     put_character (if cell_character cell = 0 then 0x20 else cell_character cell)
       (resized\<lparr>t_foreground := cell_foreground cell, t_background := cell_background cell,
          t_reverse := cell_reverse cell\<rparr>)"

definition replay_line :: "terminal \<Rightarrow> nat \<Rightarrow> terminal \<Rightarrow> terminal" where
  "replay_line t line resized =
     (let resized = fold replay_cell (take (line_length t line) (line_cells t line)) resized
      in if hard_break t line then append_line True resized else resized)"

definition terminal_resize ::
    "font_table \<Rightarrow> bool \<Rightarrow> terminal \<Rightarrow> framebuffer option \<Rightarrow> nat \<Rightarrow> bool \<times> terminal" where
  "terminal_resize font memory_available t framebuffer scale =
     (if \<not> t_allocated t then (False, t)
      else
        (case terminal_init_with_rendering font memory_available no_terminal framebuffer scale
            (t_rendering_enabled t) of
           (False, _) \<Rightarrow> (False, t)
         | (True, resized) \<Rightarrow>
             (let resized = resized\<lparr>t_foreground := t_foreground t, t_background := t_background t,
                    t_cursor_visible := t_cursor_visible t,
                    t_cursor_phase_visible := t_cursor_phase_visible t\<rparr>;
                  old_live_top = live_viewport_top t;
                  distance_from_end =
                    (if t_viewport_top t \<le> old_live_top then old_live_top - t_viewport_top t else 0);
                  resized = fold (replay_line t) [t_first_line t..<Suc (t_last_line t)] resized;
                  resized = resized\<lparr>t_foreground := t_foreground t, t_background := t_background t,
                    t_reverse := t_reverse t\<rparr>;
                  new_live_top = live_viewport_top resized;
                  available = new_live_top - t_first_line resized;
                  resized = update_cursor_row (resized\<lparr>t_viewport_top :=
                    new_live_top - (if distance_from_end < available then distance_from_end else available)\<rparr>)
              in (True, render font (resized\<lparr>t_full_redraw := True\<rparr>)))))"

definition terminal_clear :: "font_table \<Rightarrow> terminal \<Rightarrow> terminal" where
  "terminal_clear font t =
     (if \<not> t_allocated t then t
      else
        render font
          (t\<lparr>t_cells := replicate (t_line_capacity t) (replicate (t_columns t) blank_cell),
             t_line_lengths := replicate (t_line_capacity t) 0,
             t_hard_breaks := replicate (t_line_capacity t) False, t_column := 0, t_row := 0,
             t_first_line := 0, t_current_line := 0, t_last_line := 0, t_viewport_top := 0,
             t_cursor_phase_visible := True, t_full_redraw := True\<rparr>))"

definition terminal_set_colors :: "terminal \<Rightarrow> pixel \<Rightarrow> pixel \<Rightarrow> terminal" where
  "terminal_set_colors t foreground background =
     t\<lparr>t_foreground := foreground, t_background := background\<rparr>"

definition terminal_redraw :: "font_table \<Rightarrow> terminal \<Rightarrow> terminal" where
  "terminal_redraw font t = render font (t\<lparr>t_full_redraw := True\<rparr>)"

definition terminal_set_rendering_enabled :: "font_table \<Rightarrow> terminal \<Rightarrow> bool \<Rightarrow> terminal" where
  "terminal_set_rendering_enabled font t enabled =
     (if t_rendering_enabled t = enabled then t
      else
        (let t = t\<lparr>t_rendering_enabled := enabled\<rparr>
         in if enabled then terminal_redraw font t else t))"

section \<open>Escape sequences\<close>

abbreviation ascii :: "char \<Rightarrow> u8" where
  "ascii c \<equiv> of_char c"

definition ansi_colors :: "pixel list" where
  "ansi_colors =
     [0x0000, 0xf800, 0x07e0, 0xffe0, 0x001f, 0xf81f, 0x07ff, 0xffff,
      0x7bef, 0xfcb2, 0x87f0, 0xfff7, 0x867f, 0xfc1f, 0x87ff, 0xffff]"

definition ansi_color :: "nat \<Rightarrow> pixel" where
  "ansi_color value = ansi_colors ! (if value < 16 then value else 7)"

definition ansi_sgr :: "nat \<Rightarrow> terminal \<Rightarrow> terminal" where
  "ansi_sgr value t =
     (if value = 0 then t\<lparr>t_foreground := 0xffff, t_background := 0, t_reverse := False\<rparr>
      else if 30 \<le> value \<and> value \<le> 37 then t\<lparr>t_foreground := ansi_color (value - 30)\<rparr>
      else if 90 \<le> value \<and> value \<le> 97 then t\<lparr>t_foreground := ansi_color (value - 90 + 8)\<rparr>
      else if 40 \<le> value \<and> value \<le> 47 then t\<lparr>t_background := ansi_color (value - 40)\<rparr>
      else if 100 \<le> value \<and> value \<le> 107 then t\<lparr>t_background := ansi_color (value - 100 + 8)\<rparr>
      else if value = 39 then t\<lparr>t_foreground := 0xffff\<rparr>
      else if value = 49 then t\<lparr>t_background := 0\<rparr>
      else if value = 7 then t\<lparr>t_reverse := True\<rparr>
      else if value = 27 then t\<lparr>t_reverse := False\<rparr>
      else t)"

definition restore_cursor :: "terminal \<Rightarrow> terminal" where
  "restore_cursor t =
     (let top = live_viewport_top t;
          bottom = top + t_rows t - 1;
          line = (if t_saved_line t < top then top else t_saved_line t)
      in t\<lparr>t_column := (if t_saved_column t < t_columns t then t_saved_column t else t_columns t - 1),
           t_current_line := (if bottom < line then bottom else line)\<rparr>)"

definition erase_in_line :: "nat \<Rightarrow> terminal \<Rightarrow> terminal" where
  "erase_in_line value t =
     (let start = (if value = 2 then 0 else t_column t);
          t = fold (\<lambda>column. set_cell (t_current_line t) column blank_cell) [start..<t_columns t] t
      in (set_line_length (t_current_line t) start t)\<lparr>t_full_redraw := True\<rparr>)"

definition extend_lines :: "terminal \<Rightarrow> terminal" where
  "extend_lines t =
     fold (\<lambda>line t. clear_line line (t\<lparr>t_last_line := line\<rparr>))
       [Suc (t_last_line t)..<Suc (t_current_line t)] t"

definition move_cursor :: "u8 \<Rightarrow> terminal \<Rightarrow> terminal" where
  "move_cursor command t =
     (let value = t_ansi_values t ! 0;
          amount = (if value = 0 then 1 else value);
          top = live_viewport_top t;
          bottom = top + t_rows t - 1
      in if command = ascii CHR ''H'' \<or> command = ascii CHR ''f'' then
           (let row = amount - 1;
                column = (if 1 < t_ansi_count t \<and> 0 < t_ansi_values t ! 1 then t_ansi_values t ! 1 - 1 else 0)
            in t\<lparr>t_current_line := top + (if row < t_rows t then row else t_rows t - 1),
                 t_column := (if column < t_columns t then column else t_columns t - 1)\<rparr>)
         else if command = ascii CHR ''A'' then
           (let available = t_current_line t - top
            in t\<lparr>t_current_line := t_current_line t - (if amount < available then amount else available)\<rparr>)
         else if command = ascii CHR ''B'' then
           (let available = bottom - t_current_line t
            in t\<lparr>t_current_line := t_current_line t + (if amount < available then amount else available)\<rparr>)
         else if command = ascii CHR ''C'' then
           (let available = t_columns t - 1 - t_column t
            in t\<lparr>t_column := t_column t + (if amount < available then amount else available)\<rparr>)
         else if command = ascii CHR ''D'' then
           t\<lparr>t_column := t_column t - (if amount < t_column t then amount else t_column t)\<rparr>
         else t\<lparr>t_column := (if amount < t_columns t then amount - 1 else t_columns t - 1)\<rparr>)"

definition ansi_command :: "font_table \<Rightarrow> u8 \<Rightarrow> terminal \<Rightarrow> terminal" where
  "ansi_command font command t =
     (let value = t_ansi_values t ! 0
      in if t_ansi_private t then
           (if t_ansi_count t = 1 \<and> value = 25 \<and>
               (command = ascii CHR ''h'' \<or> command = ascii CHR ''l'')
            then t\<lparr>t_cursor_visible := (command = ascii CHR ''h'')\<rparr> else t)
         else
           extend_lines
             (if command \<in> {ascii CHR ''H'', ascii CHR ''f'', ascii CHR ''A'', ascii CHR ''B'',
                  ascii CHR ''C'', ascii CHR ''D'', ascii CHR ''G''} then move_cursor command t
              else if command = ascii CHR ''J'' \<and> value = 2 then terminal_clear font t
              else if command = ascii CHR ''K'' then erase_in_line value t
              else if command = ascii CHR ''m'' then fold ansi_sgr (take (t_ansi_count t) (t_ansi_values t)) t
              else if command = ascii CHR ''s'' then
                t\<lparr>t_saved_column := t_column t, t_saved_line := t_current_line t\<rparr>
              else if command = ascii CHR ''u'' then restore_cursor t
              else t))"

definition escape_byte :: "u8 \<Rightarrow> terminal \<Rightarrow> terminal" where
  "escape_byte c t =
     (if c = ascii CHR ''['' then
        t\<lparr>t_ansi_state := 2, t_ansi_values := replicate 8 0, t_ansi_count := 1, t_ansi_private := False,
          t_ansi_invalid := False\<rparr>
      else if c = ascii CHR ''7'' then
        t\<lparr>t_saved_column := t_column t, t_saved_line := t_current_line t, t_ansi_state := 0\<rparr>
      else if c = ascii CHR ''8'' then (restore_cursor t)\<lparr>t_ansi_state := 0\<rparr>
      else t\<lparr>t_ansi_state := 0\<rparr>)"

definition UINT16_MAX :: nat where "UINT16_MAX = 65535"

definition sequence_byte :: "font_table \<Rightarrow> u8 \<Rightarrow> terminal \<Rightarrow> terminal" where
  "sequence_byte font c t =
     (if ascii CHR ''0'' \<le> c \<and> c \<le> ascii CHR ''9'' then
        (let index = t_ansi_count t - 1;
             value = t_ansi_values t ! index;
             digit = unat (c - ascii CHR ''0'')
         in if (UINT16_MAX - digit) div 10 < value then t\<lparr>t_ansi_invalid := True\<rparr>
            else t\<lparr>t_ansi_values := (t_ansi_values t)[index := value * 10 + digit]\<rparr>)
      else if c = ascii CHR '';'' then
        (if t_ansi_count t = 8 then t\<lparr>t_ansi_invalid := True\<rparr>
         else t\<lparr>t_ansi_count := t_ansi_count t + 1\<rparr>)
      else if c = ascii CHR ''?'' \<and> t_ansi_count t = 1 \<and> t_ansi_values t ! 0 = 0 \<and> \<not> t_ansi_private t then
        t\<lparr>t_ansi_private := True\<rparr>
      else if c < 0x40 \<or> 0x7e < c then t\<lparr>t_ansi_invalid := True\<rparr>
      else
        (if \<not> t_ansi_invalid t then ansi_command font c t else t)\<lparr>t_ansi_state := 0\<rparr>)"

definition text_byte :: "u8 \<Rightarrow> terminal \<Rightarrow> terminal" where
  "text_byte c t =
     (if c = 0x0a then append_line True t
      else if c = 0x0d then t\<lparr>t_column := 0\<rparr>
      else if c = 0x08 \<or> c = 0x7f then backspace t
      else if c = 0x09 then tab t
      else put_character c t)"

definition write_byte :: "font_table \<Rightarrow> u8 \<Rightarrow> terminal \<Rightarrow> terminal" where
  "write_byte font c t =
     (if c = 0 then t
      else if t_ansi_state t = 1 then escape_byte c t
      else if t_ansi_state t = 2 then sequence_byte font c t
      else if c = 0x1b then t\<lparr>t_ansi_state := 1\<rparr>
      else text_byte c t)"

definition terminal_write_bytes :: "font_table \<Rightarrow> terminal \<Rightarrow> u8 list \<Rightarrow> terminal" where
  "terminal_write_bytes font t bytes =
     (if \<not> t_allocated t then t
      else
        (let t = (mark_cursor t)\<lparr>t_cursor_phase_visible := True\<rparr>;
             t = fold (write_byte font) bytes t
         in render font (mark_cursor (follow_live_output t))))"

definition terminal_write :: "font_table \<Rightarrow> terminal \<Rightarrow> u8 list \<Rightarrow> terminal" where
  "terminal_write font t text = terminal_write_bytes font t (takeWhile (\<lambda>c. c \<noteq> 0) text)"

definition terminal_write_line :: "font_table \<Rightarrow> terminal \<Rightarrow> u8 list \<Rightarrow> terminal" where
  "terminal_write_line font t text = terminal_write font (terminal_write font t text) [0x0a]"

section \<open>Cursor and scrolling\<close>

definition terminal_set_cursor_visible :: "font_table \<Rightarrow> terminal \<Rightarrow> bool \<Rightarrow> terminal" where
  "terminal_set_cursor_visible font t shown =
     (if t_cursor_visible t \<noteq> shown then
        (let t = (mark_cursor t)\<lparr>t_cursor_visible := shown\<rparr>;
             t = (if shown then t\<lparr>t_cursor_phase_visible := True\<rparr> else t)
         in render font (mark_cursor t))
      else t)"

definition terminal_set_cursor_phase :: "font_table \<Rightarrow> terminal \<Rightarrow> bool \<Rightarrow> terminal" where
  "terminal_set_cursor_phase font t shown =
     (if t_cursor_phase_visible t \<noteq> shown
      then render font (mark_cursor ((mark_cursor t)\<lparr>t_cursor_phase_visible := shown\<rparr>))
      else t)"

definition terminal_scroll_lines :: "font_table \<Rightarrow> terminal \<Rightarrow> int \<Rightarrow> bool \<times> terminal" where
  "terminal_scroll_lines font t lines =
     (if \<not> t_allocated t then (False, t)
      else
        (let maximum = live_viewport_top t;
             desired = int (t_viewport_top t) + lines;
             desired = (if desired < int (t_first_line t) then int (t_first_line t) else desired);
             desired = (if maximum < nat desired then int maximum else desired)
         in (True, render font
              (if t_viewport_top t \<noteq> nat desired
               then t\<lparr>t_viewport_top := nat desired, t_full_redraw := True\<rparr> else t))))"

definition page_amount :: "terminal \<Rightarrow> nat" where
  "page_amount t = (if 1 < t_rows t then t_rows t - 1 else 1)"

definition terminal_page_up :: "font_table \<Rightarrow> terminal \<Rightarrow> bool \<times> terminal" where
  "terminal_page_up font t =
     (if t_rows t = 0 then (False, t)
      else
        terminal_scroll_lines font t
          (if 2 ^ 31 - 1 < page_amount t then - (2 ^ 31 - 1) else - int (page_amount t)))"

definition terminal_page_down :: "font_table \<Rightarrow> terminal \<Rightarrow> bool \<times> terminal" where
  "terminal_page_down font t =
     (if t_rows t = 0 then (False, t)
      else
        terminal_scroll_lines font t
          (if 2 ^ 31 - 1 < page_amount t then 2 ^ 31 - 1 else int (page_amount t)))"

definition terminal_scroll_to_start :: "font_table \<Rightarrow> terminal \<Rightarrow> bool \<times> terminal" where
  "terminal_scroll_to_start font t =
     (if \<not> t_allocated t then (False, t)
      else
        (True, render font
          (if t_viewport_top t \<noteq> t_first_line t
           then t\<lparr>t_viewport_top := t_first_line t, t_full_redraw := True\<rparr> else t)))"

definition terminal_scroll_to_end :: "font_table \<Rightarrow> terminal \<Rightarrow> bool \<times> terminal" where
  "terminal_scroll_to_end font t =
     (if \<not> t_allocated t then (False, t) else (True, render font (follow_live_output t)))"

definition terminal_is_at_end :: "terminal \<Rightarrow> bool" where
  "terminal_is_at_end t \<longleftrightarrow> t_allocated t \<and> t_viewport_top t = live_viewport_top t"

definition terminal_history_line_count :: "terminal \<Rightarrow> nat" where
  "terminal_history_line_count t =
     (if \<not> t_allocated t then 0 else t_last_line t - t_first_line t + 1)"

end
