(* ===== verification/TerminalProofs.thy ===== *)
theory TerminalProofs
  imports Terminal
begin

text \<open>
  The terminal keeps its lines, its cursor and its cells consistent whatever is written to it,
  stores plain text without loss, and parses escape sequences the same however a stream of bytes
  is split into writes.
\<close>

section \<open>The invariant\<close>

text \<open>
  \<open>window_ok\<close> relates the line numbers: the retained lines fit the slots, and the cursor is in the
  window of \<open>rows\<close> lines at the end, so that no subtraction of the code goes below zero.
\<close>

definition window_ok :: "terminal \<Rightarrow> bool" where
  "window_ok t \<longleftrightarrow>
     0 < t_columns t \<and> 0 < t_rows t \<and> t_line_capacity t = t_rows t + TERMINAL_SCROLLBACK_LINES \<and>
     t_first_line t \<le> t_last_line t \<and> t_last_line t < t_first_line t + t_line_capacity t \<and>
     live_viewport_top t \<le> t_current_line t \<and> t_current_line t < live_viewport_top t + t_rows t"

definition view_ok :: "terminal \<Rightarrow> bool" where
  "view_ok t \<longleftrightarrow> t_first_line t \<le> t_viewport_top t \<and> t_viewport_top t \<le> live_viewport_top t"

definition line_ok :: "nat \<Rightarrow> cell list \<Rightarrow> nat \<Rightarrow> bool" where
  "line_ok columns cs n \<longleftrightarrow>
     length cs = columns \<and> n \<le> columns \<and>
     (\<forall>c < columns. n \<le> c \<or> cell_character (cs ! c) = 0 \<longrightarrow> cs ! c = blank_cell)"

definition cells_ok :: "terminal \<Rightarrow> bool" where
  "cells_ok t \<longleftrightarrow>
     length (t_cells t) = t_line_capacity t \<and> length (t_line_lengths t) = t_line_capacity t \<and>
     length (t_hard_breaks t) = t_line_capacity t \<and> length (t_dirty_cells t) = t_rows t * t_columns t \<and>
     (\<forall>slot < t_line_capacity t. line_ok (t_columns t) (t_cells t ! slot) (t_line_lengths t ! slot))"

definition parser_ok :: "terminal \<Rightarrow> bool" where
  "parser_ok t \<longleftrightarrow>
     length (t_ansi_values t) = 8 \<and> (\<forall>value \<in> set (t_ansi_values t). value \<le> UINT16_MAX) \<and>
     (t_ansi_state t = 2 \<longrightarrow> 1 \<le> t_ansi_count t) \<and> t_ansi_count t \<le> 8"

definition screen_ok :: "terminal \<Rightarrow> bool" where
  "screen_ok t \<longleftrightarrow>
     (\<exists>fb. t_framebuffer t = Some fb \<and> fb_width fb \<le> fb_stride fb \<and> 0 < t_scale t \<and>
       t_columns t = fb_width fb div (FONT_CELL_WIDTH * t_scale t) \<and>
       t_rows t = fb_height fb div (FONT_CELL_HEIGHT * t_scale t))"

definition grid_ok :: "terminal \<Rightarrow> bool" where
  "grid_ok t \<longleftrightarrow> t_allocated t \<and> window_ok t \<and> cells_ok t \<and> parser_ok t \<and> screen_ok t"

definition terminal_ok :: "terminal \<Rightarrow> bool" where
  "terminal_ok t \<longleftrightarrow> grid_ok t \<and> t_column t < t_columns t \<and> view_ok t"

lemma live_viewport_top_max:
  "live_viewport_top t = max (t_first_line t) (t_last_line t + 1 - t_rows t)"
  by (auto simp: live_viewport_top_def Let_def)

lemmas terminal_ok_defs = terminal_ok_def grid_ok_def window_ok_def view_ok_def cells_ok_def parser_ok_def
  screen_ok_def

section \<open>Frames\<close>

text \<open>Each part of the invariant ignores the fields it does not mention.\<close>

lemma live_viewport_top_frame [simp]:
  "live_viewport_top (t\<lparr>t_framebuffer := x_framebuffer\<rparr>) = live_viewport_top t"
  "live_viewport_top (t\<lparr>t_column := x_column\<rparr>) = live_viewport_top t"
  "live_viewport_top (t\<lparr>t_row := x_row\<rparr>) = live_viewport_top t"
  "live_viewport_top (t\<lparr>t_foreground := x_foreground\<rparr>) = live_viewport_top t"
  "live_viewport_top (t\<lparr>t_background := x_background\<rparr>) = live_viewport_top t"
  "live_viewport_top (t\<lparr>t_reverse := x_reverse\<rparr>) = live_viewport_top t"
  "live_viewport_top (t\<lparr>t_cells := x_cells\<rparr>) = live_viewport_top t"
  "live_viewport_top (t\<lparr>t_dirty_cells := x_dirty_cells\<rparr>) = live_viewport_top t"
  "live_viewport_top (t\<lparr>t_line_lengths := x_line_lengths\<rparr>) = live_viewport_top t"
  "live_viewport_top (t\<lparr>t_hard_breaks := x_hard_breaks\<rparr>) = live_viewport_top t"
  "live_viewport_top (t\<lparr>t_current_line := x_current_line\<rparr>) = live_viewport_top t"
  "live_viewport_top (t\<lparr>t_viewport_top := x_viewport_top\<rparr>) = live_viewport_top t"
  "live_viewport_top (t\<lparr>t_cursor_visible := x_cursor_visible\<rparr>) = live_viewport_top t"
  "live_viewport_top (t\<lparr>t_cursor_phase_visible := x_cursor_phase_visible\<rparr>) = live_viewport_top t"
  "live_viewport_top (t\<lparr>t_full_redraw := x_full_redraw\<rparr>) = live_viewport_top t"
  "live_viewport_top (t\<lparr>t_rendering_enabled := x_rendering_enabled\<rparr>) = live_viewport_top t"
  "live_viewport_top (t\<lparr>t_ansi_state := x_ansi_state\<rparr>) = live_viewport_top t"
  "live_viewport_top (t\<lparr>t_ansi_values := x_ansi_values\<rparr>) = live_viewport_top t"
  "live_viewport_top (t\<lparr>t_ansi_count := x_ansi_count\<rparr>) = live_viewport_top t"
  "live_viewport_top (t\<lparr>t_ansi_private := x_ansi_private\<rparr>) = live_viewport_top t"
  "live_viewport_top (t\<lparr>t_ansi_invalid := x_ansi_invalid\<rparr>) = live_viewport_top t"
  "live_viewport_top (t\<lparr>t_saved_column := x_saved_column\<rparr>) = live_viewport_top t"
  "live_viewport_top (t\<lparr>t_saved_line := x_saved_line\<rparr>) = live_viewport_top t"
  by (simp_all add: live_viewport_top_max)

lemma window_ok_frame [simp]:
  "window_ok (t\<lparr>t_framebuffer := x_framebuffer\<rparr>) = window_ok t"
  "window_ok (t\<lparr>t_column := x_column\<rparr>) = window_ok t"
  "window_ok (t\<lparr>t_row := x_row\<rparr>) = window_ok t"
  "window_ok (t\<lparr>t_foreground := x_foreground\<rparr>) = window_ok t"
  "window_ok (t\<lparr>t_background := x_background\<rparr>) = window_ok t"
  "window_ok (t\<lparr>t_reverse := x_reverse\<rparr>) = window_ok t"
  "window_ok (t\<lparr>t_cells := x_cells\<rparr>) = window_ok t"
  "window_ok (t\<lparr>t_dirty_cells := x_dirty_cells\<rparr>) = window_ok t"
  "window_ok (t\<lparr>t_line_lengths := x_line_lengths\<rparr>) = window_ok t"
  "window_ok (t\<lparr>t_hard_breaks := x_hard_breaks\<rparr>) = window_ok t"
  "window_ok (t\<lparr>t_viewport_top := x_viewport_top\<rparr>) = window_ok t"
  "window_ok (t\<lparr>t_cursor_visible := x_cursor_visible\<rparr>) = window_ok t"
  "window_ok (t\<lparr>t_cursor_phase_visible := x_cursor_phase_visible\<rparr>) = window_ok t"
  "window_ok (t\<lparr>t_full_redraw := x_full_redraw\<rparr>) = window_ok t"
  "window_ok (t\<lparr>t_rendering_enabled := x_rendering_enabled\<rparr>) = window_ok t"
  "window_ok (t\<lparr>t_ansi_state := x_ansi_state\<rparr>) = window_ok t"
  "window_ok (t\<lparr>t_ansi_values := x_ansi_values\<rparr>) = window_ok t"
  "window_ok (t\<lparr>t_ansi_count := x_ansi_count\<rparr>) = window_ok t"
  "window_ok (t\<lparr>t_ansi_private := x_ansi_private\<rparr>) = window_ok t"
  "window_ok (t\<lparr>t_ansi_invalid := x_ansi_invalid\<rparr>) = window_ok t"
  "window_ok (t\<lparr>t_saved_column := x_saved_column\<rparr>) = window_ok t"
  "window_ok (t\<lparr>t_saved_line := x_saved_line\<rparr>) = window_ok t"
  by (simp_all add: window_ok_def)

lemma view_ok_frame [simp]:
  "view_ok (t\<lparr>t_framebuffer := x_framebuffer\<rparr>) = view_ok t"
  "view_ok (t\<lparr>t_column := x_column\<rparr>) = view_ok t"
  "view_ok (t\<lparr>t_row := x_row\<rparr>) = view_ok t"
  "view_ok (t\<lparr>t_foreground := x_foreground\<rparr>) = view_ok t"
  "view_ok (t\<lparr>t_background := x_background\<rparr>) = view_ok t"
  "view_ok (t\<lparr>t_reverse := x_reverse\<rparr>) = view_ok t"
  "view_ok (t\<lparr>t_cells := x_cells\<rparr>) = view_ok t"
  "view_ok (t\<lparr>t_dirty_cells := x_dirty_cells\<rparr>) = view_ok t"
  "view_ok (t\<lparr>t_line_lengths := x_line_lengths\<rparr>) = view_ok t"
  "view_ok (t\<lparr>t_hard_breaks := x_hard_breaks\<rparr>) = view_ok t"
  "view_ok (t\<lparr>t_current_line := x_current_line\<rparr>) = view_ok t"
  "view_ok (t\<lparr>t_cursor_visible := x_cursor_visible\<rparr>) = view_ok t"
  "view_ok (t\<lparr>t_cursor_phase_visible := x_cursor_phase_visible\<rparr>) = view_ok t"
  "view_ok (t\<lparr>t_full_redraw := x_full_redraw\<rparr>) = view_ok t"
  "view_ok (t\<lparr>t_rendering_enabled := x_rendering_enabled\<rparr>) = view_ok t"
  "view_ok (t\<lparr>t_ansi_state := x_ansi_state\<rparr>) = view_ok t"
  "view_ok (t\<lparr>t_ansi_values := x_ansi_values\<rparr>) = view_ok t"
  "view_ok (t\<lparr>t_ansi_count := x_ansi_count\<rparr>) = view_ok t"
  "view_ok (t\<lparr>t_ansi_private := x_ansi_private\<rparr>) = view_ok t"
  "view_ok (t\<lparr>t_ansi_invalid := x_ansi_invalid\<rparr>) = view_ok t"
  "view_ok (t\<lparr>t_saved_column := x_saved_column\<rparr>) = view_ok t"
  "view_ok (t\<lparr>t_saved_line := x_saved_line\<rparr>) = view_ok t"
  by (simp_all add: view_ok_def)

lemma cells_ok_frame [simp]:
  "cells_ok (t\<lparr>t_framebuffer := x_framebuffer\<rparr>) = cells_ok t"
  "cells_ok (t\<lparr>t_column := x_column\<rparr>) = cells_ok t"
  "cells_ok (t\<lparr>t_row := x_row\<rparr>) = cells_ok t"
  "cells_ok (t\<lparr>t_foreground := x_foreground\<rparr>) = cells_ok t"
  "cells_ok (t\<lparr>t_background := x_background\<rparr>) = cells_ok t"
  "cells_ok (t\<lparr>t_reverse := x_reverse\<rparr>) = cells_ok t"
  "cells_ok (t\<lparr>t_first_line := x_first_line\<rparr>) = cells_ok t"
  "cells_ok (t\<lparr>t_current_line := x_current_line\<rparr>) = cells_ok t"
  "cells_ok (t\<lparr>t_last_line := x_last_line\<rparr>) = cells_ok t"
  "cells_ok (t\<lparr>t_viewport_top := x_viewport_top\<rparr>) = cells_ok t"
  "cells_ok (t\<lparr>t_cursor_visible := x_cursor_visible\<rparr>) = cells_ok t"
  "cells_ok (t\<lparr>t_cursor_phase_visible := x_cursor_phase_visible\<rparr>) = cells_ok t"
  "cells_ok (t\<lparr>t_full_redraw := x_full_redraw\<rparr>) = cells_ok t"
  "cells_ok (t\<lparr>t_rendering_enabled := x_rendering_enabled\<rparr>) = cells_ok t"
  "cells_ok (t\<lparr>t_ansi_state := x_ansi_state\<rparr>) = cells_ok t"
  "cells_ok (t\<lparr>t_ansi_values := x_ansi_values\<rparr>) = cells_ok t"
  "cells_ok (t\<lparr>t_ansi_count := x_ansi_count\<rparr>) = cells_ok t"
  "cells_ok (t\<lparr>t_ansi_private := x_ansi_private\<rparr>) = cells_ok t"
  "cells_ok (t\<lparr>t_ansi_invalid := x_ansi_invalid\<rparr>) = cells_ok t"
  "cells_ok (t\<lparr>t_saved_column := x_saved_column\<rparr>) = cells_ok t"
  "cells_ok (t\<lparr>t_saved_line := x_saved_line\<rparr>) = cells_ok t"
  by (simp_all add: cells_ok_def)

lemma parser_ok_frame [simp]:
  "parser_ok (t\<lparr>t_framebuffer := x_framebuffer\<rparr>) = parser_ok t"
  "parser_ok (t\<lparr>t_column := x_column\<rparr>) = parser_ok t"
  "parser_ok (t\<lparr>t_row := x_row\<rparr>) = parser_ok t"
  "parser_ok (t\<lparr>t_foreground := x_foreground\<rparr>) = parser_ok t"
  "parser_ok (t\<lparr>t_background := x_background\<rparr>) = parser_ok t"
  "parser_ok (t\<lparr>t_reverse := x_reverse\<rparr>) = parser_ok t"
  "parser_ok (t\<lparr>t_cells := x_cells\<rparr>) = parser_ok t"
  "parser_ok (t\<lparr>t_dirty_cells := x_dirty_cells\<rparr>) = parser_ok t"
  "parser_ok (t\<lparr>t_line_lengths := x_line_lengths\<rparr>) = parser_ok t"
  "parser_ok (t\<lparr>t_hard_breaks := x_hard_breaks\<rparr>) = parser_ok t"
  "parser_ok (t\<lparr>t_first_line := x_first_line\<rparr>) = parser_ok t"
  "parser_ok (t\<lparr>t_current_line := x_current_line\<rparr>) = parser_ok t"
  "parser_ok (t\<lparr>t_last_line := x_last_line\<rparr>) = parser_ok t"
  "parser_ok (t\<lparr>t_viewport_top := x_viewport_top\<rparr>) = parser_ok t"
  "parser_ok (t\<lparr>t_cursor_visible := x_cursor_visible\<rparr>) = parser_ok t"
  "parser_ok (t\<lparr>t_cursor_phase_visible := x_cursor_phase_visible\<rparr>) = parser_ok t"
  "parser_ok (t\<lparr>t_full_redraw := x_full_redraw\<rparr>) = parser_ok t"
  "parser_ok (t\<lparr>t_rendering_enabled := x_rendering_enabled\<rparr>) = parser_ok t"
  "parser_ok (t\<lparr>t_ansi_private := x_ansi_private\<rparr>) = parser_ok t"
  "parser_ok (t\<lparr>t_ansi_invalid := x_ansi_invalid\<rparr>) = parser_ok t"
  "parser_ok (t\<lparr>t_saved_column := x_saved_column\<rparr>) = parser_ok t"
  "parser_ok (t\<lparr>t_saved_line := x_saved_line\<rparr>) = parser_ok t"
  by (simp_all add: parser_ok_def)

lemma screen_ok_frame [simp]:
  "screen_ok (t\<lparr>t_column := x_column\<rparr>) = screen_ok t"
  "screen_ok (t\<lparr>t_row := x_row\<rparr>) = screen_ok t"
  "screen_ok (t\<lparr>t_foreground := x_foreground\<rparr>) = screen_ok t"
  "screen_ok (t\<lparr>t_background := x_background\<rparr>) = screen_ok t"
  "screen_ok (t\<lparr>t_reverse := x_reverse\<rparr>) = screen_ok t"
  "screen_ok (t\<lparr>t_cells := x_cells\<rparr>) = screen_ok t"
  "screen_ok (t\<lparr>t_dirty_cells := x_dirty_cells\<rparr>) = screen_ok t"
  "screen_ok (t\<lparr>t_line_lengths := x_line_lengths\<rparr>) = screen_ok t"
  "screen_ok (t\<lparr>t_hard_breaks := x_hard_breaks\<rparr>) = screen_ok t"
  "screen_ok (t\<lparr>t_first_line := x_first_line\<rparr>) = screen_ok t"
  "screen_ok (t\<lparr>t_current_line := x_current_line\<rparr>) = screen_ok t"
  "screen_ok (t\<lparr>t_last_line := x_last_line\<rparr>) = screen_ok t"
  "screen_ok (t\<lparr>t_viewport_top := x_viewport_top\<rparr>) = screen_ok t"
  "screen_ok (t\<lparr>t_cursor_visible := x_cursor_visible\<rparr>) = screen_ok t"
  "screen_ok (t\<lparr>t_cursor_phase_visible := x_cursor_phase_visible\<rparr>) = screen_ok t"
  "screen_ok (t\<lparr>t_full_redraw := x_full_redraw\<rparr>) = screen_ok t"
  "screen_ok (t\<lparr>t_rendering_enabled := x_rendering_enabled\<rparr>) = screen_ok t"
  "screen_ok (t\<lparr>t_ansi_state := x_ansi_state\<rparr>) = screen_ok t"
  "screen_ok (t\<lparr>t_ansi_values := x_ansi_values\<rparr>) = screen_ok t"
  "screen_ok (t\<lparr>t_ansi_count := x_ansi_count\<rparr>) = screen_ok t"
  "screen_ok (t\<lparr>t_ansi_private := x_ansi_private\<rparr>) = screen_ok t"
  "screen_ok (t\<lparr>t_ansi_invalid := x_ansi_invalid\<rparr>) = screen_ok t"
  "screen_ok (t\<lparr>t_saved_column := x_saved_column\<rparr>) = screen_ok t"
  "screen_ok (t\<lparr>t_saved_line := x_saved_line\<rparr>) = screen_ok t"
  by (simp_all add: screen_ok_def)

section \<open>Primitive updates\<close>

text \<open>The operations that only touch flags, colours or the dirty map.\<close>

lemma mark_cell_fields [simp]:
  "t_column (mark_cell line column t) = t_column t"
  "t_columns (mark_cell line column t) = t_columns t"
  "t_rows (mark_cell line column t) = t_rows t"
  "t_allocated (mark_cell line column t) = t_allocated t"
  "t_framebuffer (mark_cell line column t) = t_framebuffer t"
  "t_scale (mark_cell line column t) = t_scale t"
  "t_cells (mark_cell line column t) = t_cells t"
  "t_line_lengths (mark_cell line column t) = t_line_lengths t"
  "t_hard_breaks (mark_cell line column t) = t_hard_breaks t"
  "t_line_capacity (mark_cell line column t) = t_line_capacity t"
  "t_first_line (mark_cell line column t) = t_first_line t"
  "t_current_line (mark_cell line column t) = t_current_line t"
  "t_last_line (mark_cell line column t) = t_last_line t"
  "t_viewport_top (mark_cell line column t) = t_viewport_top t"
  "t_ansi_state (mark_cell line column t) = t_ansi_state t"
  "t_ansi_values (mark_cell line column t) = t_ansi_values t"
  "t_ansi_count (mark_cell line column t) = t_ansi_count t"
  "length (t_dirty_cells (mark_cell line column t)) = length (t_dirty_cells t)"
  "live_viewport_top (mark_cell line column t) = live_viewport_top t"
  by (simp_all add: mark_cell_def live_viewport_top_max)

lemma mark_cell_ok [simp]:
  "grid_ok (mark_cell line column t) = grid_ok t"
  "view_ok (mark_cell line column t) = view_ok t"
  "terminal_ok (mark_cell line column t) = terminal_ok t"
  by (simp_all add: mark_cell_def terminal_ok_def grid_ok_def cells_ok_def)

lemma follow_ok:
  assumes "grid_ok t"
  shows "grid_ok (follow_live_output t)" "view_ok (follow_live_output t)"
    "t_column (follow_live_output t) = t_column t" "t_columns (follow_live_output t) = t_columns t"
  using assms
  by (simp_all add: follow_live_output_def update_cursor_row_def grid_ok_def view_ok_def Let_def)
    (simp_all add: live_viewport_top_max)

lemma slot_less: "window_ok t \<Longrightarrow> line_slot t line < t_line_capacity t"
  by (simp add: line_slot_def window_ok_def)

lemma cells_ok_line:
  assumes "cells_ok t" "slot < t_line_capacity t" and "line_ok (t_columns t) cs n"
  shows "cells_ok (t\<lparr>t_cells := (t_cells t)[slot := cs], t_line_lengths := (t_line_lengths t)[slot := n]\<rparr>)"
  using assms by (auto simp: cells_ok_def nth_list_update)

lemma clear_line_ok:
  assumes "grid_ok t"
  shows "grid_ok (clear_line line t)"
proof -
  have "cells_ok (t\<lparr>t_cells := (t_cells t)[line_slot t line := replicate (t_columns t) blank_cell],
      t_line_lengths := (t_line_lengths t)[line_slot t line := 0]\<rparr>)"
    using assms by (intro cells_ok_line) (auto simp: grid_ok_def line_ok_def intro: slot_less)
  then show ?thesis using assms
    by (simp add: clear_line_def grid_ok_def) (simp add: cells_ok_def)
qed

lemma clear_line_fields [simp]:
  "t_column (clear_line line t) = t_column t"
  "t_columns (clear_line line t) = t_columns t"
  "t_rows (clear_line line t) = t_rows t"
  "t_first_line (clear_line line t) = t_first_line t"
  "t_current_line (clear_line line t) = t_current_line t"
  "t_last_line (clear_line line t) = t_last_line t"
  "t_viewport_top (clear_line line t) = t_viewport_top t"
  "t_line_capacity (clear_line line t) = t_line_capacity t"
  "live_viewport_top (clear_line line t) = live_viewport_top t"
  by (simp_all add: clear_line_def live_viewport_top_max)

lemma set_hard_break_ok [simp]:
  "grid_ok (set_hard_break line hard t) = grid_ok t"
  by (simp add: set_hard_break_def grid_ok_def) (simp add: cells_ok_def)

lemma set_hard_break_fields [simp]:
  "t_column (set_hard_break line hard t) = t_column t"
  "t_columns (set_hard_break line hard t) = t_columns t"
  "t_rows (set_hard_break line hard t) = t_rows t"
  "t_first_line (set_hard_break line hard t) = t_first_line t"
  "t_current_line (set_hard_break line hard t) = t_current_line t"
  "t_last_line (set_hard_break line hard t) = t_last_line t"
  "t_viewport_top (set_hard_break line hard t) = t_viewport_top t"
  "t_line_capacity (set_hard_break line hard t) = t_line_capacity t"
  by (simp_all add: set_hard_break_def)

lemma next_line_ok:
  assumes "grid_ok t"
  shows "grid_ok (next_line t)" "t_columns (next_line t) = t_columns t"
proof -
  let ?first = "if t_line_capacity t < t_current_line t + 1 - t_first_line t + 1
    then t_first_line t + 1 else t_first_line t"
  define u where "u = t\<lparr>t_current_line := t_current_line t + 1, t_first_line := ?first,
    t_last_line := max (t_last_line t) (t_current_line t + 1)\<rparr>"
  have "grid_ok u"
    using assms by (simp add: u_def grid_ok_def)
      (auto simp: window_ok_def live_viewport_top_max TERMINAL_SCROLLBACK_LINES_def)
  moreover have "next_line t = (if t_last_line t < t_current_line t + 1 then clear_line (t_current_line t + 1) u else u)"
    by (auto simp: next_line_def u_def Let_def max_def)
  ultimately show "grid_ok (next_line t)" by (simp add: clear_line_ok)
  show "t_columns (next_line t) = t_columns t" by (simp add: next_line_def Let_def)
qed

lemma grid_ok_column [simp]: "grid_ok (t\<lparr>t_column := c\<rparr>) = grid_ok t"
  by (simp add: grid_ok_def)

lemma append_line_ok:
  assumes "grid_ok t"
  shows "terminal_ok (append_line hard t)"
proof -
  let ?n = "next_line (set_hard_break (t_current_line t) hard t)"
  have n: "grid_ok ?n" "t_columns ?n = t_columns t"
    using assms next_line_ok [of "set_hard_break (t_current_line t) hard t"] by simp_all
  then have "0 < t_columns t" by (simp add: grid_ok_def window_ok_def)
  then show ?thesis
    using n follow_ok [of "?n\<lparr>t_column := 0\<rparr>"] unfolding append_line_def terminal_ok_def by simp
qed

lemma set_cell_ok:
  assumes ok: "grid_ok t" and "column < t_columns t" and "cell_character cell = 0 \<Longrightarrow> cell = blank_cell"
    and "line_length t line \<le> column \<Longrightarrow> column < n"
    and "line_length t line \<le> n" and "n \<le> t_columns t"
  shows "grid_ok (set_line_length line n (set_cell line column cell t))"
proof -
  have slot: "line_slot t line < t_line_capacity t" using ok by (simp add: grid_ok_def slot_less)
  then have line: "line_ok (t_columns t) (line_cells t line) (line_length t line)"
    using ok by (simp add: grid_ok_def cells_ok_def line_cells_def line_length_def)
  have "line_ok (t_columns t) ((line_cells t line)[column := cell]) n"
    using line assms(2-) by (auto simp: line_ok_def nth_list_update)
  then have "cells_ok (t\<lparr>t_cells := (t_cells t)[line_slot t line := (line_cells t line)[column := cell]],
      t_line_lengths := (t_line_lengths t)[line_slot t line := n]\<rparr>)"
    using ok slot by (intro cells_ok_line) (simp_all add: grid_ok_def)
  then show ?thesis using ok
    by (simp add: set_cell_def set_line_length_def line_slot_def grid_ok_def)
qed

section \<open>Text keeps the invariant\<close>

lemma set_cell_fields [simp]:
  "t_column (set_cell line column cell t) = t_column t"
  "t_columns (set_cell line column cell t) = t_columns t"
  "t_current_line (set_cell line column cell t) = t_current_line t"
  "t_viewport_top (set_cell line column cell t) = t_viewport_top t"
  "t_last_line (set_cell line column cell t) = t_last_line t"
  "line_length (set_cell line column cell t) l = line_length t l"
  by (simp_all add: set_cell_def line_length_def line_slot_def)

lemma set_line_length_fields [simp]:
  "t_column (set_line_length line n t) = t_column t"
  "t_columns (set_line_length line n t) = t_columns t"
  "t_current_line (set_line_length line n t) = t_current_line t"
  "t_viewport_top (set_line_length line n t) = t_viewport_top t"
  "t_last_line (set_line_length line n t) = t_last_line t"
  by (simp_all add: set_line_length_def)

lemma mark_cell_line_length [simp]: "line_length (mark_cell line column t) l = line_length t l"
  by (simp add: line_length_def line_slot_def)

lemma set_line_length_mark [simp]:
  "set_line_length l n (mark_cell line column t) = mark_cell line column (set_line_length l n t)"
  by (simp add: mark_cell_def set_line_length_def line_slot_def)

lemma set_line_length_same:
  "set_line_length line (line_length t line) t = t"
  by (simp add: set_line_length_def line_length_def)

lemma line_ok_of:
  assumes "grid_ok t"
  shows "line_ok (t_columns t) (line_cells t line) (line_length t line)"
  using assms slot_less [of t line]
  by (simp add: grid_ok_def cells_ok_def line_cells_def line_length_def)

lemma line_length_le: "grid_ok t \<Longrightarrow> line_length t line \<le> t_columns t"
  using line_ok_of [of t line] by (simp add: line_ok_def)

lemma store_character_ok:
  assumes ok: "grid_ok t" and "t_column t < t_columns t" and "character \<noteq> 0"
  shows "grid_ok (store_character character t)"
    and "t_column (store_character character t) = t_column t"
    and "t_columns (store_character character t) = t_columns t"
proof -
  let ?cell = "\<lparr>cell_character = character, cell_foreground = t_foreground t,
    cell_background = t_background t, cell_reverse = t_reverse t\<rparr>"
  let ?n = "max (line_length t (t_current_line t)) (t_column t + 1)"
  have "grid_ok (set_line_length (t_current_line t) ?n (set_cell (t_current_line t) (t_column t) ?cell t))"
    using assms line_length_le [OF ok, of "t_current_line t"] by (intro set_cell_ok) auto
  moreover have "store_character character t = mark_cell (t_current_line t) (t_column t)
      (set_line_length (t_current_line t) ?n (set_cell (t_current_line t) (t_column t) ?cell t))"
    using set_line_length_same [of "t_current_line t" "set_cell (t_current_line t) (t_column t) ?cell t"]
    by (auto simp: store_character_def Let_def max_def not_less)
  ultimately show "grid_ok (store_character character t)"
    and "t_column (store_character character t) = t_column t"
    and "t_columns (store_character character t) = t_columns t" by simp_all
qed

lemma put_character_ok:
  assumes "terminal_ok t" and "character \<noteq> 0"
  shows "terminal_ok (put_character character t)"
proof -
  let ?s = "store_character character t"
  have s: "grid_ok ?s" "t_column ?s = t_column t" "t_columns ?s = t_columns t"
    using assms store_character_ok [of t character] by (simp_all add: terminal_ok_def)
  have "t_rows ?s = t_rows t" "t_first_line ?s = t_first_line t" "t_last_line ?s = t_last_line t"
    "t_viewport_top ?s = t_viewport_top t"
    by (simp_all add: store_character_def set_cell_def set_line_length_def Let_def)
  then have "view_ok ?s" using assms(1) by (simp add: terminal_ok_def view_ok_def live_viewport_top_max)
  then show ?thesis using s append_line_ok [of "?s\<lparr>t_column := t_column t + 1\<rparr>" False]
    by (auto simp: put_character_def Let_def terminal_ok_def)
qed

lemma fold_put_ok: "terminal_ok t \<Longrightarrow> \<forall>c \<in> set cs. c \<noteq> 0 \<Longrightarrow> terminal_ok (fold put_character cs t)"
  by (induction cs arbitrary: t) (simp_all add: put_character_ok)

lemma tab_ok:
  assumes "terminal_ok t"
  shows "terminal_ok (tab t)"
proof -
  have "terminal_ok (fold (\<lambda>index. put_character 0x20) ks t)" for ks :: "nat list"
    using assms by (induction ks arbitrary: t) (simp_all add: put_character_ok)
  then show ?thesis unfolding tab_def .
qed

lemma trimmed_length_le: "trimmed_length cs n \<le> n"
  by (induction n) auto

lemma trimmed_length_ok: "line_ok columns cs n \<Longrightarrow> line_ok columns cs (trimmed_length cs n)"
proof (induction n)
  case (Suc n)
  show ?case
  proof (cases "cell_character (cs ! n) = 0")
    case True
    then have "line_ok columns cs n"
      using Suc.prems unfolding line_ok_def by (metis Suc_le_eq Suc_leD le_eq_less_or_eq not_less_eq_eq)
    then show ?thesis using Suc.IH True by simp
  next
    case False
    then show ?thesis using Suc.prems by simp
  qed
qed simp

lemma set_line_length_ok:
  assumes "grid_ok t" and "line_ok (t_columns t) (line_cells t line) n"
  shows "grid_ok (set_line_length line n t)"
proof -
  have slot: "line_slot t line < t_line_capacity t" using assms(1) by (simp add: grid_ok_def slot_less)
  have "cells_ok (t\<lparr>t_cells := (t_cells t)[line_slot t line := line_cells t line],
      t_line_lengths := (t_line_lengths t)[line_slot t line := n]\<rparr>)"
    using assms slot by (intro cells_ok_line) (simp_all add: grid_ok_def)
  then show ?thesis using assms(1)
    by (simp add: set_line_length_def line_cells_def grid_ok_def)
qed

lemma trim_line_ok:
  assumes "grid_ok t"
  shows "grid_ok (trim_line line t)"
  unfolding trim_line_def using assms
  by (intro set_line_length_ok trimmed_length_ok line_ok_of)

lemma trim_line_fields [simp]:
  "t_column (trim_line line t) = t_column t" "t_columns (trim_line line t) = t_columns t"
  "t_current_line (trim_line line t) = t_current_line t" "t_last_line (trim_line line t) = t_last_line t"
  "t_first_line (trim_line line t) = t_first_line t"
  by (simp_all add: trim_line_def set_line_length_def)

lemma erase_left_ok:
  assumes ok: "grid_ok t" and "t_column t \<le> t_columns t"
  shows "grid_ok (erase_left t)" "t_columns (erase_left t) = t_columns t"
    "t_column (erase_left t) = t_column t - 1"
proof -
  let ?c = "t_column t - 1" and ?l = "t_current_line t"
  let ?s = "set_cell ?l ?c blank_cell (t\<lparr>t_column := ?c\<rparr>)"
  have "grid_ok ?s" if "0 < t_column t"
  proof -
    have "grid_ok (set_line_length ?l (line_length t ?l) ?s)"
    proof (cases "line_length t ?l \<le> ?c")
      case True
      have "line_ok (t_columns t) (line_cells t ?l) (line_length t ?l)" using ok by (rule line_ok_of)
      moreover have "?c < t_columns t" using assms(2) that by simp
      ultimately have "(line_cells t ?l)[?c := blank_cell] = line_cells t ?l"
        using True by (simp add: line_ok_def list_update_same_conv)
      then have "?s = t\<lparr>t_column := ?c\<rparr>"
        by (simp add: set_cell_def line_cells_def line_slot_def)
      then show ?thesis using ok set_line_length_same [of ?l "t\<lparr>t_column := ?c\<rparr>"]
        by (simp add: line_length_def line_slot_def)
    next
      case False
      then show ?thesis
        using assms that line_length_le [OF ok, of ?l]
        by (intro set_cell_ok) (auto simp: line_length_def line_slot_def)
    qed
    then show ?thesis using set_line_length_same [of ?l ?s] by (simp add: line_length_def line_slot_def set_cell_def)
  qed
  then show "grid_ok (erase_left t)" using ok by (simp add: erase_left_def Let_def trim_line_ok)
  show "t_columns (erase_left t) = t_columns t" "t_column (erase_left t) = t_column t - 1"
    by (simp_all add: erase_left_def Let_def)
qed

lemma leave_line_ok:
  assumes ok: "grid_ok t" and above: "t_current_line t \<noteq> t_first_line t"
    and not_top: "\<not> (t_current_line t = live_viewport_top t \<and> t_current_line t < t_last_line t)"
  shows "grid_ok (leave_line t)" "t_column (leave_line t) \<le> t_columns (leave_line t)"
proof -
  let ?c = "clear_line (t_current_line t) t"
  define u where "u = (if t_last_line t = t_current_line t then ?c\<lparr>t_last_line := t_last_line t - 1\<rparr> else ?c)
    \<lparr>t_current_line := t_current_line t - 1\<rparr>"
  have c: "grid_ok ?c" using ok by (rule clear_line_ok)
  then have "grid_ok u" unfolding u_def using above not_top
    by (simp add: grid_ok_def) (auto simp: window_ok_def live_viewport_top_max)
  moreover have "leave_line t = set_hard_break (t_current_line u) False (u\<lparr>t_column :=
      (if t_columns u < line_length u (t_current_line u) then t_columns u else line_length u (t_current_line u))\<rparr>)"
    by (simp add: leave_line_def u_def Let_def)
  ultimately show "grid_ok (leave_line t)" "t_column (leave_line t) \<le> t_columns (leave_line t)"
    by auto
qed

lemma backspace_ok:
  assumes "terminal_ok t"
  shows "terminal_ok (backspace t)"
proof -
  have grid: "grid_ok t" and column: "t_column t < t_columns t" and "0 < t_columns t"
    using assms by (auto simp: terminal_ok_def)
  have follow: "terminal_ok (follow_live_output (erase_left u))"
    if "grid_ok u" "t_column u \<le> t_columns u" for u
  proof -
    have "0 < t_columns u" using that(1) by (simp add: grid_ok_def window_ok_def)
    then show ?thesis
      using that erase_left_ok [OF that] follow_ok [of "erase_left u"] by (auto simp: terminal_ok_def)
  qed
  show ?thesis using assms grid column follow leave_line_ok [OF grid]
    by (auto simp: backspace_def)
qed

section \<open>Rendering keeps the invariant\<close>

text \<open>Drawing changes pixels, never the geometry of the frame buffer.\<close>

definition same_geometry :: "framebuffer \<Rightarrow> framebuffer \<Rightarrow> bool" where
  "same_geometry a b \<longleftrightarrow> fb_width a = fb_width b \<and> fb_height a = fb_height b \<and> fb_stride a = fb_stride b"

lemma same_geometry_refl [simp]: "same_geometry a a"
  by (simp add: same_geometry_def)

lemma same_geometry_fold: "(\<And>k a. same_geometry (f k a) a) \<Longrightarrow> same_geometry (fold f ks a) a"
  by (induction ks arbitrary: a) (auto simp: same_geometry_def)

lemma draw_cell_geometry [simp]: "same_geometry (draw_cell font t column row cell cursor fb) fb"
  by (auto simp: draw_cell_def font_draw_char_def same_geometry_def Let_def split: prod.split)

lemma draw_all_geometry [simp]: "same_geometry (draw_all font t fb) fb"
proof -
  have "same_geometry (draw_row font t row a) a" for row a
    by (auto simp: draw_row_def Let_def intro: same_geometry_fold)
  then have "same_geometry (draw_all font t fb) (clear_framebuffer t fb)"
    unfolding draw_all_def by (rule same_geometry_fold)
  then show ?thesis by (simp add: clear_framebuffer_def same_geometry_def)
qed

lemma draw_dirty_geometry [simp]: "same_geometry (draw_dirty font t fb) fb"
  unfolding draw_dirty_def
  by (intro same_geometry_fold) (simp add: draw_dirty_cell_def Let_def)

lemma draw_cursor_geometry [simp]: "same_geometry (draw_cursor font t fb) fb"
  by (simp add: draw_cursor_def)

lemma screen_ok_draw:
  "screen_ok t \<Longrightarrow> t_framebuffer t = Some fb \<Longrightarrow> same_geometry fb' fb \<Longrightarrow> screen_ok (t\<lparr>t_framebuffer := Some fb'\<rparr>)"
  by (auto simp: screen_ok_def same_geometry_def)

lemma render_fields [simp]:
  "t_column (render font t) = t_column t" "t_columns (render font t) = t_columns t"
  "t_rows (render font t) = t_rows t" "t_viewport_top (render font t) = t_viewport_top t"
  "t_first_line (render font t) = t_first_line t" "t_last_line (render font t) = t_last_line t"
  "t_current_line (render font t) = t_current_line t" "t_line_capacity (render font t) = t_line_capacity t"
  "t_cells (render font t) = t_cells t" "t_line_lengths (render font t) = t_line_lengths t"
  "t_hard_breaks (render font t) = t_hard_breaks t" "t_allocated (render font t) = t_allocated t"
  "t_ansi_state (render font t) = t_ansi_state t" "t_ansi_values (render font t) = t_ansi_values t"
  "t_ansi_count (render font t) = t_ansi_count t"
  by (auto simp: render_def Let_def split: option.split)

lemma render_ok:
  assumes "grid_ok t"
  shows "grid_ok (render font t)" "view_ok (render font t) = view_ok t"
proof -
  obtain fb where fb: "t_framebuffer t = Some fb" using assms by (auto simp: grid_ok_def screen_ok_def)
  have "cells_ok (t\<lparr>t_dirty_cells := replicate (t_rows t * t_columns t) False\<rparr>)"
    using assms by (simp add: grid_ok_def cells_ok_def)
  moreover have "same_geometry (draw_cursor font u (draw_all font t fb)) fb"
    "same_geometry (draw_cursor font u (draw_dirty font t fb)) fb" for u
    using draw_cursor_geometry [of font u "draw_all font t fb"] draw_cursor_geometry [of font u "draw_dirty font t fb"] draw_all_geometry [of font t fb] draw_dirty_geometry [of font t fb]
    by (auto simp: same_geometry_def)
  ultimately show "grid_ok (render font t)" using assms fb
    by (auto simp: render_def Let_def grid_ok_def intro!: screen_ok_draw)
  show "view_ok (render font t) = view_ok t" by (simp add: view_ok_def live_viewport_top_max)
qed

lemma render_terminal_ok: "terminal_ok t \<Longrightarrow> terminal_ok (render font t)"
  by (simp add: terminal_ok_def render_ok)

section \<open>Escape sequences keep the invariant\<close>

lemma move_cursor_ok:
  assumes "terminal_ok t"
  shows "terminal_ok (move_cursor command t)"
proof -
  have w: "window_ok t" and c: "t_column t < t_columns t" using assms by (auto simp: terminal_ok_def grid_ok_def)
  have cursor: "terminal_ok (t\<lparr>t_current_line := l, t_column := k\<rparr>)"
    if "live_viewport_top t \<le> l" "l < live_viewport_top t + t_rows t" "k < t_columns t" for l k
    using assms that by (simp add: terminal_ok_def grid_ok_def window_ok_def)
  have line: "terminal_ok (t\<lparr>t_current_line := l\<rparr>)"
    if "live_viewport_top t \<le> l" "l < live_viewport_top t + t_rows t" for l
    using assms that by (simp add: terminal_ok_def grid_ok_def window_ok_def)
  have column: "terminal_ok (t\<lparr>t_column := k\<rparr>)" if "k < t_columns t" for k
    using assms that by (simp add: terminal_ok_def grid_ok_def window_ok_def)
  note both = if_both [where P = terminal_ok]
  show ?thesis
    unfolding move_cursor_def Let_def
    by (intro both cursor line column) (use w c in \<open>auto simp: window_ok_def\<close>)
qed

lemma restore_cursor_ok:
  assumes "terminal_ok t"
  shows "terminal_ok (restore_cursor t)"
  using assms unfolding restore_cursor_def Let_def terminal_ok_def grid_ok_def
  by (auto simp: window_ok_def)

lemma erase_in_line_ok:
  assumes "terminal_ok t"
  shows "terminal_ok (erase_in_line value t)"
proof -
  let ?l = "t_current_line t"
  define start where "start = (if value = 2 then 0 else t_column t)"
  have grid: "grid_ok t" and start: "start \<le> t_columns t" using assms by (auto simp: terminal_ok_def start_def)
  have erased: "fold (\<lambda>column. set_cell ?l column blank_cell) ks t =
      t\<lparr>t_cells := (t_cells t)[line_slot t ?l := fold (\<lambda>column cs. cs[column := blank_cell]) ks (line_cells t ?l)]\<rparr>" for ks
  proof (induction ks arbitrary: t)
    case (Cons k ks)
    show ?case
    proof (cases "line_slot t (t_current_line t) < length (t_cells t)")
      case True
      then show ?thesis using Cons.IH [of "set_cell (t_current_line t) k blank_cell t"]
        by (simp add: set_cell_def line_slot_def line_cells_def)
    next
      case False
      then show ?thesis using Cons.IH [of "set_cell (t_current_line t) k blank_cell t"]
        by (simp add: set_cell_def line_slot_def line_cells_def list_update_beyond)
    qed
  qed (simp add: line_cells_def)
  have nth: "length (fold (\<lambda>column cs. cs[column := blank_cell]) ks cs) = length cs \<and>
      (\<forall>i < length cs. fold (\<lambda>column cs. cs[column := blank_cell]) ks cs ! i =
        (if i \<in> set ks then blank_cell else cs ! i))" for ks cs
    by (induction ks arbitrary: cs) (auto simp: nth_list_update)
  have line: "line_ok (t_columns t) (line_cells t ?l) (line_length t ?l)" using grid by (rule line_ok_of)
  have "line_ok (t_columns t)
      (fold (\<lambda>column cs. cs[column := blank_cell]) [start..<t_columns t] (line_cells t ?l)) start"
    using line start nth [of "[start..<t_columns t]" "line_cells t ?l"] by (auto simp: line_ok_def)
  then have "cells_ok (t\<lparr>t_cells := (t_cells t)[line_slot t ?l :=
        fold (\<lambda>column cs. cs[column := blank_cell]) [start..<t_columns t] (line_cells t ?l)],
      t_line_lengths := (t_line_lengths t)[line_slot t ?l := start]\<rparr>)"
    using grid by (intro cells_ok_line) (auto simp: grid_ok_def slot_less)
  then show ?thesis using assms
    by (simp add: erase_in_line_def start_def [symmetric] erased set_line_length_def line_slot_def Let_def
        terminal_ok_def grid_ok_def)
qed

lemma extend_lines_same: "t_current_line t \<le> t_last_line t \<Longrightarrow> extend_lines t = t"
  by (simp add: extend_lines_def)

lemma extend_lines_ok:
  assumes "terminal_ok t"
  shows "terminal_ok (extend_lines t)"
proof -
  have "terminal_ok (fold (\<lambda>line t. clear_line line (t\<lparr>t_last_line := line\<rparr>)) [Suc (t_last_line t)..<n] t)"
    if "n \<le> Suc (t_current_line t)" for n
    using assms that
  proof (induction "n - Suc (t_last_line t)" arbitrary: t)
    case (Suc k)
    let ?u = "clear_line (Suc (t_last_line t)) (t\<lparr>t_last_line := Suc (t_last_line t)\<rparr>)"
    have step: "[Suc (t_last_line t)..<n] = Suc (t_last_line t) # [Suc (t_last_line ?u)..<n]"
      using Suc.hyps(2) by (simp add: upt_rec)
    have same_top: "live_viewport_top (t\<lparr>t_last_line := Suc (t_last_line t)\<rparr>) = live_viewport_top t"
      using Suc.prems Suc.hyps(2) by (auto simp: live_viewport_top_max terminal_ok_def grid_ok_def window_ok_def)
    have "window_ok (t\<lparr>t_last_line := Suc (t_last_line t)\<rparr>)"
      using Suc.prems Suc.hyps(2) same_top unfolding terminal_ok_def grid_ok_def window_ok_def
      by (auto simp: live_viewport_top_max)
    then have "terminal_ok ?u" using Suc.prems same_top clear_line_ok [of "t\<lparr>t_last_line := Suc (t_last_line t)\<rparr>"]
      by (simp add: terminal_ok_def grid_ok_def view_ok_def)
    moreover have "k = n - Suc (t_last_line ?u)" using Suc.hyps(2) by simp
    moreover have "n \<le> Suc (t_current_line ?u)" using Suc.prems(2) by simp
    ultimately have "terminal_ok (fold (\<lambda>line t. clear_line line (t\<lparr>t_last_line := line\<rparr>))
        [Suc (t_last_line ?u)..<n] ?u)" using Suc.hyps(1) by blast
    then show ?case unfolding step by simp
  qed simp
  then show ?thesis unfolding extend_lines_def by blast
qed

lemma sgr_ok: "terminal_ok t \<Longrightarrow> terminal_ok (ansi_sgr value t)"
  by (simp add: ansi_sgr_def terminal_ok_def grid_ok_def)

lemma fold_sgr_ok: "terminal_ok t \<Longrightarrow> terminal_ok (fold ansi_sgr values t)"
  by (induction "values" arbitrary: t) (simp_all add: sgr_ok)

lemma terminal_clear_ok:
  assumes "terminal_ok t"
  shows "terminal_ok (terminal_clear font t)"
proof -
  let ?u = "t\<lparr>t_cells := replicate (t_line_capacity t) (replicate (t_columns t) blank_cell),
    t_line_lengths := replicate (t_line_capacity t) 0,
    t_hard_breaks := replicate (t_line_capacity t) False, t_column := 0, t_row := 0,
    t_first_line := 0, t_current_line := 0, t_last_line := 0, t_viewport_top := 0,
    t_cursor_phase_visible := True, t_full_redraw := True\<rparr>"
  have "cells_ok ?u" using assms by (simp add: terminal_ok_def grid_ok_def cells_ok_def line_ok_def)
  moreover have "window_ok ?u" "view_ok ?u" "t_column ?u < t_columns ?u"
    using assms by (simp_all add: terminal_ok_def grid_ok_def window_ok_def view_ok_def live_viewport_top_max)
  ultimately have "terminal_ok ?u" using assms by (simp add: terminal_ok_def grid_ok_def)
  then show ?thesis using assms by (simp add: terminal_clear_def render_terminal_ok)
qed

lemma ansi_command_ok:
  assumes "terminal_ok t"
  shows "terminal_ok (ansi_command font command t)"
proof -
  have "terminal_ok (t\<lparr>t_saved_column := a, t_saved_line := b\<rparr>)" for a b
    using assms by (simp add: terminal_ok_def grid_ok_def)
  moreover have "terminal_ok (t\<lparr>t_cursor_visible := b\<rparr>)" for b
    using assms by (simp add: terminal_ok_def grid_ok_def)
  ultimately show ?thesis using assms unfolding ansi_command_def Let_def
    by (simp add: extend_lines_ok move_cursor_ok terminal_clear_ok erase_in_line_ok fold_sgr_ok restore_cursor_ok)
qed

lemma parser_state_ok:
  assumes "terminal_ok t"
  shows "s \<noteq> 2 \<Longrightarrow> terminal_ok (t\<lparr>t_ansi_state := s\<rparr>)"
  using assms by (auto simp: terminal_ok_def grid_ok_def parser_ok_def)

lemma escape_byte_ok:
  assumes "terminal_ok t"
  shows "terminal_ok (escape_byte c t)"
proof -
  have "terminal_ok (t\<lparr>t_ansi_state := 2, t_ansi_values := replicate 8 0, t_ansi_count := 1,
      t_ansi_private := False, t_ansi_invalid := False\<rparr>)"
    using assms by (simp add: terminal_ok_def grid_ok_def parser_ok_def)
  moreover have "terminal_ok (t\<lparr>t_saved_column := a, t_saved_line := b, t_ansi_state := 0\<rparr>)" for a b
    using assms by (simp add: terminal_ok_def grid_ok_def parser_ok_def)
  ultimately show ?thesis using assms parser_state_ok restore_cursor_ok
    unfolding escape_byte_def by (simp add: of_char_def)
qed

lemma sequence_byte_ok:
  assumes ok: "terminal_ok t" and state: "t_ansi_state t = 2"
  shows "terminal_ok (sequence_byte font c t)"
proof -
  have parser: "length (t_ansi_values t) = 8" "\<forall>value \<in> set (t_ansi_values t). value \<le> UINT16_MAX"
    "1 \<le> t_ansi_count t" "t_ansi_count t \<le> 8"
    using ok state by (auto simp: terminal_ok_def grid_ok_def parser_ok_def)
  have digit: "terminal_ok (t\<lparr>t_ansi_values := (t_ansi_values t)[i := v]\<rparr>)" if "v \<le> UINT16_MAX" for i v
    using ok parser that set_update_subset_insert [of "t_ansi_values t" i v]
    by (auto simp: terminal_ok_def grid_ok_def parser_ok_def)
  have number: "terminal_ok (if (UINT16_MAX - d) div 10 < v then t\<lparr>t_ansi_invalid := True\<rparr>
      else t\<lparr>t_ansi_values := (t_ansi_values t)[i := v * 10 + d]\<rparr>)" if "d \<le> 9" for v d i
  proof (cases "(UINT16_MAX - d) div 10 < v")
    case True
    then show ?thesis using ok by (simp add: terminal_ok_def grid_ok_def)
  next
    case False
    then have "v * 10 \<le> UINT16_MAX - d" by (simp add: less_eq_div_iff_mult_less_eq not_less)
    then have "v * 10 + d \<le> UINT16_MAX" using that by (simp add: UINT16_MAX_def)
    then show ?thesis using False digit by simp
  qed
  have d: "unat (c - ascii CHR ''0'') \<le> 9" if "ascii CHR ''0'' \<le> c" "c \<le> ascii CHR ''9''"
  proof -
    have "unat (c - 0x30) = unat c - 48" using that(1) by (subst unat_sub) (simp_all add: of_char_def)
    then show ?thesis using that(2) by (simp add: of_char_def word_le_nat_alt)
  qed
  have separator: "terminal_ok (t\<lparr>t_ansi_count := t_ansi_count t + 1\<rparr>)" if "t_ansi_count t \<noteq> 8"
    using ok parser that by (simp add: terminal_ok_def grid_ok_def parser_ok_def)
  have flags: "terminal_ok (t\<lparr>t_ansi_invalid := True\<rparr>)" "terminal_ok (t\<lparr>t_ansi_private := True\<rparr>)"
    using ok by (simp_all add: terminal_ok_def grid_ok_def)
  have finished: "terminal_ok ((if \<not> t_ansi_invalid t then ansi_command font c t else t)\<lparr>t_ansi_state := 0\<rparr>)"
    using ok ansi_command_ok [of t] by (simp add: parser_state_ok)
  note both = if_both [where P = terminal_ok]
  show ?thesis
    unfolding sequence_byte_def Let_def
    by (intro both number d separator flags finished) simp_all
qed

lemma terminal_ok_grid: "terminal_ok t \<Longrightarrow> grid_ok t"
  by (simp add: terminal_ok_def)

lemma terminal_ok_column: "terminal_ok t \<Longrightarrow> terminal_ok (t\<lparr>t_column := 0\<rparr>)"
  by (simp add: terminal_ok_def)

lemma text_byte_ok:
  assumes "terminal_ok t" and "c \<noteq> 0"
  shows "terminal_ok (text_byte c t)"
  using assms append_line_ok [of t] backspace_ok [of t] tab_ok [of t] put_character_ok [of t c]
  by (simp add: text_byte_def terminal_ok_column terminal_ok_grid)

lemma write_byte_ok: "terminal_ok t \<Longrightarrow> terminal_ok (write_byte font c t)"
  by (simp add: write_byte_def escape_byte_ok sequence_byte_ok text_byte_ok parser_state_ok)

lemma fold_write_ok: "terminal_ok t \<Longrightarrow> terminal_ok (fold (write_byte font) bytes t)"
  by (induction bytes arbitrary: t) (simp_all add: write_byte_ok)

lemma flags_ok [simp]:
  "terminal_ok (t\<lparr>t_cursor_phase_visible := b\<rparr>) = terminal_ok t"
  "terminal_ok (t\<lparr>t_cursor_visible := b\<rparr>) = terminal_ok t"
  "terminal_ok (t\<lparr>t_full_redraw := b\<rparr>) = terminal_ok t"
  "terminal_ok (t\<lparr>t_rendering_enabled := b\<rparr>) = terminal_ok t"
  "terminal_ok (t\<lparr>t_foreground := p\<rparr>) = terminal_ok t"
  "terminal_ok (t\<lparr>t_background := p\<rparr>) = terminal_ok t"
  "terminal_ok (t\<lparr>t_reverse := b\<rparr>) = terminal_ok t"
  by (simp_all add: terminal_ok_def grid_ok_def)

lemma follow_terminal_ok: "terminal_ok t \<Longrightarrow> terminal_ok (follow_live_output t)"
  by (simp add: terminal_ok_def follow_ok)

lemma write_bytes_ok: "terminal_ok t \<Longrightarrow> terminal_ok (terminal_write_bytes font t bytes)"
  unfolding terminal_write_bytes_def mark_cursor_def Let_def
  by (simp add: render_terminal_ok follow_terminal_ok fold_write_ok)

lemma write_ok: "terminal_ok t \<Longrightarrow> terminal_ok (terminal_write font t text)"
  by (simp add: terminal_write_def write_bytes_ok)

lemma cursor_visible_ok: "terminal_ok t \<Longrightarrow> terminal_ok (terminal_set_cursor_visible font t shown)"
  by (simp add: terminal_set_cursor_visible_def mark_cursor_def Let_def render_terminal_ok)

lemma cursor_phase_ok: "terminal_ok t \<Longrightarrow> terminal_ok (terminal_set_cursor_phase font t shown)"
  by (simp add: terminal_set_cursor_phase_def mark_cursor_def Let_def render_terminal_ok)

lemma viewport_ok:
  assumes "terminal_ok t" and "t_first_line t \<le> v" and "v \<le> live_viewport_top t"
  shows "terminal_ok (t\<lparr>t_viewport_top := v\<rparr>)"
  using assms by (simp add: terminal_ok_def grid_ok_def view_ok_def)

lemma first_le_live: "t_first_line t \<le> live_viewport_top t"
  by (simp add: live_viewport_top_max)

lemma scroll_lines_ok:
  assumes "terminal_ok t"
  shows "terminal_ok (snd (terminal_scroll_lines font t lines))"
proof -
  define desired where "desired = (if int (t_viewport_top t) + lines < int (t_first_line t) then int (t_first_line t)
    else int (t_viewport_top t) + lines)"
  define target where "target = nat (if live_viewport_top t < nat desired then int (live_viewport_top t) else desired)"
  have "t_first_line t \<le> target" "target \<le> live_viewport_top t"
    using first_le_live [of t] unfolding target_def desired_def by auto
  then have "terminal_ok (if t_viewport_top t \<noteq> target then t\<lparr>t_viewport_top := target, t_full_redraw := True\<rparr> else t)"
    using assms by (simp add: viewport_ok)
  moreover have "terminal_scroll_lines font t lines = (if \<not> t_allocated t then (False, t) else (True, render font
      (if t_viewport_top t \<noteq> target then t\<lparr>t_viewport_top := target, t_full_redraw := True\<rparr> else t)))"
    unfolding terminal_scroll_lines_def Let_def target_def desired_def by (rule refl)
  ultimately show ?thesis using assms by (simp add: render_terminal_ok)
qed

lemma scroll_ok:
  assumes "terminal_ok t"
  shows "terminal_ok (snd (terminal_page_up font t))" "terminal_ok (snd (terminal_page_down font t))"
    "terminal_ok (snd (terminal_scroll_to_start font t))" "terminal_ok (snd (terminal_scroll_to_end font t))"
  using assms scroll_lines_ok [OF assms] first_le_live [of t]
  by (simp_all add: terminal_page_up_def terminal_page_down_def terminal_scroll_to_start_def
      terminal_scroll_to_end_def render_terminal_ok follow_terminal_ok viewport_ok)

lemma init_ok:
  assumes "terminal_init_with_rendering font memory_available t (Some fb) scale enabled = (True, u)"
    and "fb_width fb \<le> fb_stride fb"
  shows "terminal_ok u"
proof -
  let ?columns = "fb_width fb div (FONT_CELL_WIDTH * scale)" and ?rows = "fb_height fb div (FONT_CELL_HEIGHT * scale)"
  let ?capacity = "?rows + TERMINAL_SCROLLBACK_LINES"
  let ?v = "no_terminal\<lparr>t_framebuffer := Some fb, t_columns := ?columns, t_rows := ?rows, t_scale := scale,
    t_foreground := 0xffff, t_background := 0, t_allocated := True,
    t_cells := replicate ?capacity (replicate ?columns blank_cell), t_line_lengths := replicate ?capacity 0,
    t_hard_breaks := replicate ?capacity False, t_dirty_cells := replicate (?rows * ?columns) False,
    t_line_capacity := ?capacity, t_cursor_phase_visible := True, t_full_redraw := True,
    t_rendering_enabled := enabled\<rparr>"
  have accepted: "0 < scale" "?columns \<noteq> 0" "?rows \<noteq> 0" "u = render font ?v"
    using assms(1) by (auto simp: terminal_init_with_rendering_def Let_def split: if_splits)
  have "window_ok ?v" "view_ok ?v" "t_column ?v < t_columns ?v" "t_allocated ?v" "parser_ok ?v"
    using accepted(2,3)
    by (simp_all add: window_ok_def view_ok_def live_viewport_top_max parser_ok_def no_terminal_def
        TERMINAL_SCROLLBACK_LINES_def)
  moreover have "cells_ok ?v" by (simp add: cells_ok_def line_ok_def)
  moreover have "screen_ok ?v" using accepted(1) assms(2) by (simp add: screen_ok_def)
  ultimately have "terminal_ok ?v" unfolding terminal_ok_def grid_ok_def by blast
  then show ?thesis using accepted(4) by (simp add: render_terminal_ok)
qed

lemma replay_cell_ok: "terminal_ok t \<Longrightarrow> terminal_ok (replay_cell cell t)"
  by (simp add: replay_cell_def put_character_ok)

lemma replay_line_ok:
  assumes "terminal_ok u"
  shows "terminal_ok (replay_line t line u)"
proof -
  have "terminal_ok (fold replay_cell cs u)" for cs
    using assms by (induction cs arbitrary: u) (simp_all add: replay_cell_ok)
  then show ?thesis by (simp add: replay_line_def Let_def append_line_ok terminal_ok_grid)
qed

lemma replay_lines_ok: "terminal_ok u \<Longrightarrow> terminal_ok (fold (replay_line t) lines u)"
  by (induction lines arbitrary: u) (simp_all add: replay_line_ok)

lemma resize_ok:
  assumes ok: "terminal_ok t" and fb: "\<forall>f. fb = Some f \<longrightarrow> fb_width f \<le> fb_stride f"
  shows "terminal_ok (snd (terminal_resize font memory_available t fb scale))"
proof (cases "terminal_init_with_rendering font memory_available no_terminal fb scale (t_rendering_enabled t)")
  case (Pair success r)
  show ?thesis
  proof (cases success)
    case True
    obtain f where f: "fb = Some f"
      using Pair True by (cases fb) (auto simp: terminal_init_with_rendering_def)
    have r: "terminal_ok r" using init_ok [of font memory_available no_terminal f] Pair True fb f by auto
    define u where "u = (fold (replay_line t) [t_first_line t..<Suc (t_last_line t)]
      (r\<lparr>t_foreground := t_foreground t, t_background := t_background t, t_cursor_visible := t_cursor_visible t,
        t_cursor_phase_visible := t_cursor_phase_visible t\<rparr>))
      \<lparr>t_foreground := t_foreground t, t_background := t_background t, t_reverse := t_reverse t\<rparr>"
    have u: "terminal_ok u" unfolding u_def using r by (simp add: replay_lines_ok)
    have view: "terminal_ok (update_cursor_row (u\<lparr>t_viewport_top := live_viewport_top u - d\<rparr>)\<lparr>t_full_redraw := True\<rparr>)"
      if "d \<le> live_viewport_top u - t_first_line u" for d
      using u that first_le_live [of u]
      by (auto simp: update_cursor_row_def terminal_ok_def grid_ok_def view_ok_def)
    define d where "d = (let distance = (if t_viewport_top t \<le> live_viewport_top t
        then live_viewport_top t - t_viewport_top t else 0)
      in if distance < live_viewport_top u - t_first_line u then distance
         else live_viewport_top u - t_first_line u)"
    have "t_allocated t" using ok by (simp add: terminal_ok_def grid_ok_def)
    then have "terminal_resize font memory_available t fb scale =
        (True, render font (update_cursor_row (u\<lparr>t_viewport_top := live_viewport_top u - d\<rparr>)\<lparr>t_full_redraw := True\<rparr>))"
      using Pair True by (simp add: terminal_resize_def u_def d_def Let_def del: upt_Suc)
    moreover have "d \<le> live_viewport_top u - t_first_line u" by (simp add: d_def Let_def)
    ultimately show ?thesis using view by (simp add: render_terminal_ok)
  next
    case False
    then show ?thesis using ok Pair by (simp add: terminal_resize_def)
  qed
qed

section \<open>Every history keeps the invariant\<close>

datatype terminal_op =
    TWrite "u8 list"
  | TWriteText "u8 list"
  | TWriteLine "u8 list"
  | TClear
  | TRedraw
  | TColors pixel pixel
  | TRendering bool
  | TCursorVisible bool
  | TCursorPhase bool
  | TScroll int
  | TPageUp
  | TPageDown
  | TScrollToStart
  | TScrollToEnd
  | TResize bool "framebuffer option" nat

fun terminal_step :: "font_table \<Rightarrow> terminal_op \<Rightarrow> terminal \<Rightarrow> terminal" where
  "terminal_step font (TWrite bytes) t = terminal_write_bytes font t bytes"
| "terminal_step font (TWriteText text) t = terminal_write font t text"
| "terminal_step font (TWriteLine text) t = terminal_write_line font t text"
| "terminal_step font TClear t = terminal_clear font t"
| "terminal_step font TRedraw t = terminal_redraw font t"
| "terminal_step font (TColors f b) t = terminal_set_colors t f b"
| "terminal_step font (TRendering enabled) t = terminal_set_rendering_enabled font t enabled"
| "terminal_step font (TCursorVisible shown) t = terminal_set_cursor_visible font t shown"
| "terminal_step font (TCursorPhase shown) t = terminal_set_cursor_phase font t shown"
| "terminal_step font (TScroll lines) t = snd (terminal_scroll_lines font t lines)"
| "terminal_step font TPageUp t = snd (terminal_page_up font t)"
| "terminal_step font TPageDown t = snd (terminal_page_down font t)"
| "terminal_step font TScrollToStart t = snd (terminal_scroll_to_start font t)"
| "terminal_step font TScrollToEnd t = snd (terminal_scroll_to_end font t)"
| "terminal_step font (TResize available fb scale) t = snd (terminal_resize font available t fb scale)"

fun framebuffer_given :: "terminal_op \<Rightarrow> bool" where
  "framebuffer_given (TResize available (Some fb) scale) \<longleftrightarrow> fb_width fb \<le> fb_stride fb"
| "framebuffer_given operation \<longleftrightarrow> True"

lemma terminal_step_ok:
  assumes "terminal_ok t" and "framebuffer_given operation"
  shows "terminal_ok (terminal_step font operation t)"
  using assms
proof (cases operation)
  case (TResize available fb scale)
  then show ?thesis using assms resize_ok [of t fb] by (cases fb) auto
qed (simp_all add: write_bytes_ok write_ok terminal_write_line_def terminal_clear_ok terminal_redraw_def
    terminal_set_colors_def terminal_set_rendering_enabled_def Let_def render_terminal_ok cursor_visible_ok
    cursor_phase_ok scroll_lines_ok scroll_ok)

lemma terminal_run_ok:
  "terminal_ok t \<Longrightarrow> \<forall>operation \<in> set ops. framebuffer_given operation \<Longrightarrow>
   terminal_ok (fold (terminal_step font) ops t)"
  by (induction ops arbitrary: t) (simp_all add: terminal_step_ok)

text \<open>
  C30. Whatever is written to a terminal, in whatever order it is written, scrolled, resized,
  cleared and redrawn, its lines and its cursor stay in their ranges: the retained lines fit the
  slots, the cursor is inside the last screenful and before the right margin, the viewport shows
  retained lines, every cell beyond the end of a line is blank, and the arguments of an escape
  sequence stay inside their array. No subtraction and no index of the code goes out of range.
\<close>

theorem terminal_invariant:
  assumes "terminal_init font memory_available t0 (Some fb) scale = (True, t)"
    and "fb_width fb \<le> fb_stride fb"
    and "\<forall>operation \<in> set ops. framebuffer_given operation"
  shows "terminal_ok (fold (terminal_step font) ops t)"
proof (rule terminal_run_ok)
  show "terminal_ok t" using init_ok assms(1,2) unfolding terminal_init_def by blast
qed (rule assms(3))

definition small_screen :: framebuffer where
  "small_screen = \<lparr>fb_pixels = replicate 480 0, fb_width = 16, fb_height = 30, fb_stride = 16\<rparr>"

definition demo_terminal :: terminal where
  "demo_terminal = snd (terminal_init (\<lambda>i. 0) True no_terminal (Some small_screen) 1)"

lemma demo_terminal_init:
  "terminal_init (\<lambda>i. 0) True no_terminal (Some small_screen) 1 = (True, demo_terminal)"
  by (simp add: demo_terminal_def terminal_init_def terminal_init_with_rendering_def small_screen_def
      FONT_CELL_WIDTH_def FONT_CELL_HEIGHT_def SIZE_MAX_def SIZEOF_CELL_def TERMINAL_SCROLLBACK_LINES_def)

lemma demo_terminal_ok: "terminal_ok demo_terminal"
  using init_ok demo_terminal_init unfolding terminal_init_def by (auto simp: small_screen_def)

theorem terminal_invariant_witness:
  "terminal_init (\<lambda>i. 0) True no_terminal (Some small_screen) 1 = (True, demo_terminal) \<and>
   terminal_ok (fold (terminal_step (\<lambda>i. 0)) [TWrite [65, 66, 67, 10, 8, 27, 91], TScroll (-5), TClear] demo_terminal)"
proof -
  have "fb_width small_screen \<le> fb_stride small_screen" by (simp add: small_screen_def)
  moreover have "\<forall>operation \<in> set [TWrite [65, 66, 67, 10, 8, 27, 91], TScroll (-5), TClear].
      framebuffer_given operation" by simp
  ultimately show ?thesis using terminal_invariant demo_terminal_init by blast
qed

section \<open>A stream of bytes may be split anywhere\<close>

text \<open>
  \<open>text_state\<close> forgets what belongs to the picture: the pixels, the dirty map, the viewport and the
  phase of the cursor. Every byte acts on the rest alone.
\<close>

definition text_state :: "terminal \<Rightarrow> terminal" where
  "text_state t = t\<lparr>t_framebuffer := None, t_dirty_cells := [], t_full_redraw := False, t_row := 0,
     t_viewport_top := 0, t_cursor_phase_visible := True\<rparr>"

definition respects_text :: "(terminal \<Rightarrow> terminal) \<Rightarrow> bool" where
  "respects_text f \<longleftrightarrow> (\<forall>t. text_state (f (text_state t)) = text_state (f t))"

lemma text_state_idem [simp]: "text_state (text_state t) = text_state t"
  by (simp add: text_state_def)

lemma respects_textD: "respects_text f \<Longrightarrow> text_state t = text_state u \<Longrightarrow> text_state (f t) = text_state (f u)"
  unfolding respects_text_def by metis

lemma respects_comp: "respects_text f \<Longrightarrow> respects_text g \<Longrightarrow> respects_text (\<lambda>t. g (f t))"
  unfolding respects_text_def by metis

lemma respects_if:
  "(\<And>t. c (text_state t) = c t) \<Longrightarrow> respects_text f \<Longrightarrow> respects_text g \<Longrightarrow>
   respects_text (\<lambda>t. if c t then f t else g t)"
  by (simp add: respects_text_def)

lemma respects_id [simp]: "respects_text (\<lambda>t. t)"
  by (simp add: respects_text_def)

lemma respects_fold: "(\<And>k. respects_text (f k)) \<Longrightarrow> respects_text (fold f ks)"
proof (induction ks)
  case (Cons k ks)
  then have "respects_text (\<lambda>t. fold f ks (f k t))" using respects_comp [of "f k" "fold f ks"] by simp
  then show ?case by (simp add: comp_def)
qed (simp add: respects_text_def)

lemma text_state_mark [simp]: "text_state (mark_cell line column t) = text_state t"
  by (simp add: mark_cell_def text_state_def)

lemma text_state_follow [simp]: "text_state (follow_live_output t) = text_state t"
  by (simp add: follow_live_output_def update_cursor_row_def text_state_def Let_def)

lemma text_state_render [simp]: "text_state (render font t) = text_state t"
  by (simp add: render_def text_state_def Let_def split: option.split)

lemma text_state_fields [simp]:
  "t_column (text_state t) = t_column t" "t_columns (text_state t) = t_columns t"
  "t_rows (text_state t) = t_rows t" "t_allocated (text_state t) = t_allocated t"
  "t_cells (text_state t) = t_cells t" "t_line_lengths (text_state t) = t_line_lengths t"
  "t_line_capacity (text_state t) = t_line_capacity t" "t_first_line (text_state t) = t_first_line t"
  "t_current_line (text_state t) = t_current_line t" "t_last_line (text_state t) = t_last_line t"
  "t_foreground (text_state t) = t_foreground t" "t_background (text_state t) = t_background t"
  "t_reverse (text_state t) = t_reverse t" "t_ansi_state (text_state t) = t_ansi_state t"
  "t_ansi_values (text_state t) = t_ansi_values t" "t_ansi_count (text_state t) = t_ansi_count t"
  "t_ansi_private (text_state t) = t_ansi_private t" "t_ansi_invalid (text_state t) = t_ansi_invalid t"
  "t_saved_column (text_state t) = t_saved_column t" "t_saved_line (text_state t) = t_saved_line t"
  "live_viewport_top (text_state t) = live_viewport_top t"
  "line_slot (text_state t) line = line_slot t line" "line_length (text_state t) line = line_length t line"
  "line_cells (text_state t) line = line_cells t line"
  by (simp_all add: text_state_def line_slot_def line_length_def line_cells_def)

lemma text_state_set_cell [simp]:
  "text_state (set_cell line column cell t) = set_cell line column cell (text_state t)"
  "text_state (set_line_length line n t) = set_line_length line n (text_state t)"
  "text_state (set_hard_break line hard t) = set_hard_break line hard (text_state t)"
  "text_state (clear_line line t) = clear_line line (text_state t)"
  by (simp_all add: text_state_def set_cell_def set_line_length_def set_hard_break_def clear_line_def
      line_slot_def line_cells_def)

lemma text_state_updates [simp]:
  "text_state (t\<lparr>t_column := c\<rparr>) = (text_state t)\<lparr>t_column := c\<rparr>"
  "text_state (t\<lparr>t_current_line := l\<rparr>) = (text_state t)\<lparr>t_current_line := l\<rparr>"
  "text_state (t\<lparr>t_first_line := l\<rparr>) = (text_state t)\<lparr>t_first_line := l\<rparr>"
  "text_state (t\<lparr>t_last_line := l\<rparr>) = (text_state t)\<lparr>t_last_line := l\<rparr>"
  "text_state (t\<lparr>t_ansi_state := s\<rparr>) = (text_state t)\<lparr>t_ansi_state := s\<rparr>"
  "text_state (t\<lparr>t_ansi_values := vs\<rparr>) = (text_state t)\<lparr>t_ansi_values := vs\<rparr>"
  "text_state (t\<lparr>t_ansi_count := n\<rparr>) = (text_state t)\<lparr>t_ansi_count := n\<rparr>"
  "text_state (t\<lparr>t_ansi_private := b\<rparr>) = (text_state t)\<lparr>t_ansi_private := b\<rparr>"
  "text_state (t\<lparr>t_ansi_invalid := b\<rparr>) = (text_state t)\<lparr>t_ansi_invalid := b\<rparr>"
  "text_state (t\<lparr>t_saved_column := n\<rparr>) = (text_state t)\<lparr>t_saved_column := n\<rparr>"
  "text_state (t\<lparr>t_saved_line := n\<rparr>) = (text_state t)\<lparr>t_saved_line := n\<rparr>"
  "text_state (t\<lparr>t_cursor_visible := b\<rparr>) = (text_state t)\<lparr>t_cursor_visible := b\<rparr>"
  "text_state (t\<lparr>t_foreground := p\<rparr>) = (text_state t)\<lparr>t_foreground := p\<rparr>"
  "text_state (t\<lparr>t_background := p\<rparr>) = (text_state t)\<lparr>t_background := p\<rparr>"
  "text_state (t\<lparr>t_reverse := b\<rparr>) = (text_state t)\<lparr>t_reverse := b\<rparr>"
  "text_state (t\<lparr>t_full_redraw := b\<rparr>) = text_state t"
  "text_state (t\<lparr>t_cursor_phase_visible := b\<rparr>) = text_state t"
  by (simp_all add: text_state_def)

lemma respects_next_line: "respects_text next_line"
  by (simp add: respects_text_def next_line_def Let_def)

lemma respects_append_line: "respects_text (append_line hard)"
proof -
  have "text_state (append_line hard t) =
      (text_state (next_line (set_hard_break (t_current_line t) hard t)))\<lparr>t_column := 0\<rparr>" for t
    by (simp add: append_line_def)
  moreover have "text_state (next_line (set_hard_break (t_current_line t) hard t)) =
      text_state (next_line (set_hard_break (t_current_line (text_state t)) hard (text_state t)))" for t
    by (rule respects_textD [OF respects_next_line]) simp
  ultimately show ?thesis by (simp add: respects_text_def)
qed

lemma respects_put_character: "respects_text (put_character character)"
proof -
  define advance where "advance t = (if t_columns t \<le> t_column t + 1 then append_line False (t\<lparr>t_column := t_column t + 1\<rparr>)
    else t\<lparr>t_column := t_column t + 1\<rparr>)" for t
  have "respects_text (store_character character)"
    by (simp add: respects_text_def store_character_def Let_def)
  moreover have "respects_text advance"
    unfolding respects_text_def advance_def by (auto intro: respects_textD [OF respects_append_line])
  ultimately have "respects_text (\<lambda>t. advance (store_character character t))" by (rule respects_comp)
  moreover have "put_character character = (\<lambda>t. advance (store_character character t))"
    by (rule ext) (simp add: put_character_def advance_def Let_def)
  ultimately show ?thesis by simp
qed

lemma respects_tab: "respects_text tab"
proof -
  have "respects_text (fold (\<lambda>index. put_character 0x20) ks)" for ks :: "nat list"
    by (intro respects_fold respects_put_character)
  then show ?thesis by (simp add: respects_text_def tab_def)
qed

lemma line_frame [simp]:
  "line_cells (t\<lparr>t_column := c\<rparr>) line = line_cells t line"
  "line_length (t\<lparr>t_column := c\<rparr>) line = line_length t line"
  "line_cells (mark_cell l c t) line = line_cells t line"
  "line_length (t\<lparr>t_current_line := c\<rparr>) line = line_length t line"
  "line_length (t\<lparr>t_last_line := c\<rparr>) line = line_length t line"
  "line_length (clear_line l (text_state t)) line = line_length (clear_line l t) line"
  by (simp_all add: line_cells_def line_length_def line_slot_def clear_line_def)

lemma text_state_trim [simp]: "text_state (trim_line line t) = trim_line line (text_state t)"
  by (simp add: trim_line_def)

lemma respects_erase_left: "respects_text erase_left"
  by (simp add: respects_text_def erase_left_def Let_def)

lemma respects_leave_line: "respects_text leave_line"
  by (simp add: respects_text_def leave_line_def Let_def)

lemma respects_backspace: "respects_text backspace"
proof -
  have "respects_text (\<lambda>t. erase_left (leave_line t))"
    using respects_leave_line respects_erase_left by (rule respects_comp)
  then show ?thesis using respects_erase_left
    by (simp add: respects_text_def backspace_def)
qed

lemma respects_terminal_clear: "respects_text (terminal_clear font)"
proof -
  have "text_state (terminal_clear font t) = (if t_allocated t then (text_state t)\<lparr>
      t_cells := replicate (t_line_capacity t) (replicate (t_columns t) blank_cell),
      t_line_lengths := replicate (t_line_capacity t) 0,
      t_hard_breaks := replicate (t_line_capacity t) False, t_column := 0,
      t_first_line := 0, t_current_line := 0, t_last_line := 0\<rparr> else text_state t)" for t
    unfolding terminal_clear_def by simp (simp add: text_state_def)
  then show ?thesis by (simp add: respects_text_def)
qed

lemma respects_extend_lines: "respects_text extend_lines"
proof -
  have "respects_text (fold (\<lambda>line t. clear_line line (t\<lparr>t_last_line := line\<rparr>)) ks)" for ks
    by (intro respects_fold) (simp add: respects_text_def)
  then show ?thesis by (simp add: respects_text_def extend_lines_def del: upt_Suc)
qed

lemma respects_erase_in_line: "respects_text (erase_in_line value)"
proof -
  have "text_state (fold (\<lambda>column. set_cell line column blank_cell) ks t) =
      fold (\<lambda>column. set_cell line column blank_cell) ks (text_state t)" for line ks t
    by (induction ks arbitrary: t) simp_all
  moreover have "t_current_line (fold (\<lambda>column. set_cell line column blank_cell) ks t) = t_current_line t" for line ks t
    by (induction ks arbitrary: t) simp_all
  ultimately show ?thesis by (simp add: respects_text_def erase_in_line_def Let_def)
qed

lemma respects_sgr: "respects_text (ansi_sgr value)"
  by (simp add: respects_text_def ansi_sgr_def)

lemma respects_move_cursor: "respects_text (move_cursor command)"
  by (simp add: respects_text_def move_cursor_def Let_def)

lemma respects_restore_cursor: "respects_text restore_cursor"
  by (simp add: respects_text_def restore_cursor_def Let_def)

lemma respects_ansi_command: "respects_text (ansi_command font command)"
proof -
  have sgr: "respects_text (fold ansi_sgr values)" for "values"
    by (intro respects_fold respects_sgr)
  define act where "act t = (if command \<in> {ascii CHR ''H'', ascii CHR ''f'', ascii CHR ''A'', ascii CHR ''B'',
      ascii CHR ''C'', ascii CHR ''D'', ascii CHR ''G''} then move_cursor command t
    else if command = ascii CHR ''J'' \<and> t_ansi_values t ! 0 = 2 then terminal_clear font t
    else if command = ascii CHR ''K'' then erase_in_line (t_ansi_values t ! 0) t
    else if command = ascii CHR ''m'' then fold ansi_sgr (take (t_ansi_count t) (t_ansi_values t)) t
    else if command = ascii CHR ''s'' then
      t\<lparr>t_saved_column := t_column t, t_saved_line := t_current_line t\<rparr>
    else if command = ascii CHR ''u'' then restore_cursor t else t)" for t
  have "respects_text act"
    using respects_move_cursor [of command] respects_terminal_clear [of font] respects_erase_in_line sgr
      respects_restore_cursor
    unfolding respects_text_def act_def by simp
  then have "respects_text (\<lambda>t. extend_lines (act t))" using respects_extend_lines by (rule respects_comp)
  moreover have "ansi_command font command t = (if t_ansi_private t
      then (if t_ansi_count t = 1 \<and> t_ansi_values t ! 0 = 25 \<and>
          (command = ascii CHR ''h'' \<or> command = ascii CHR ''l'')
        then t\<lparr>t_cursor_visible := (command = ascii CHR ''h'')\<rparr> else t)
      else extend_lines (act t))" for t
    unfolding ansi_command_def act_def Let_def by (rule refl)
  ultimately show ?thesis unfolding respects_text_def by auto
qed

lemma respects_write_byte: "respects_text (write_byte font c)"
proof -
  have "respects_text (escape_byte c)"
    using respects_restore_cursor by (simp add: respects_text_def escape_byte_def)
  moreover have "respects_text (sequence_byte font c)"
  proof -
    have finish: "respects_text (\<lambda>t. (if \<not> t_ansi_invalid t then ansi_command font c t else t)\<lparr>t_ansi_state := 0\<rparr>)"
      using respects_ansi_command [of font c] by (simp add: respects_text_def)
    show ?thesis
      unfolding sequence_byte_def [abs_def] Let_def
      by (intro respects_if finish) (simp_all only: respects_text_def text_state_updates text_state_idem text_state_fields simp_thms)
  qed
  moreover have "respects_text (text_byte c)"
    using respects_append_line [of True] respects_backspace respects_tab respects_put_character [of c]
    by (simp add: respects_text_def text_byte_def)
  ultimately show ?thesis by (simp add: respects_text_def write_byte_def)
qed

lemma fold_allocated: "(\<And>k t. t_allocated (f k t) = t_allocated t) \<Longrightarrow> t_allocated (fold f ks t) = t_allocated t"
  by (induction ks arbitrary: t) simp_all

lemma line_allocated [simp]:
  "t_allocated (set_cell line column cell t) = t_allocated t"
  "t_allocated (set_line_length line n t) = t_allocated t"
  "t_allocated (set_hard_break line hard t) = t_allocated t"
  "t_allocated (clear_line line t) = t_allocated t"
  "t_allocated (follow_live_output t) = t_allocated t"
  by (simp_all add: set_cell_def set_line_length_def set_hard_break_def clear_line_def
      follow_live_output_def update_cursor_row_def Let_def)

lemma next_line_allocated [simp]: "t_allocated (next_line t) = t_allocated t"
  by (simp add: next_line_def Let_def)

lemma append_line_allocated [simp]: "t_allocated (append_line hard t) = t_allocated t"
  by (simp add: append_line_def)

lemma put_character_allocated [simp]: "t_allocated (put_character c t) = t_allocated t"
proof -
  have "t_allocated (store_character c t) = t_allocated t" by (simp add: store_character_def Let_def)
  then show ?thesis by (simp add: put_character_def Let_def)
qed

lemma backspace_allocated [simp]: "t_allocated (backspace t) = t_allocated t"
proof -
  have "t_allocated (erase_left t) = t_allocated t" for t by (simp add: erase_left_def trim_line_def Let_def)
  moreover have "t_allocated (leave_line t) = t_allocated t" by (simp add: leave_line_def Let_def)
  ultimately show ?thesis by (simp add: backspace_def)
qed

lemma command_allocated [simp]:
  "t_allocated (tab t) = t_allocated t"
  "t_allocated (restore_cursor t) = t_allocated t"
  "t_allocated (move_cursor c t) = t_allocated t"
  "t_allocated (erase_in_line value t) = t_allocated t"
  "t_allocated (extend_lines t) = t_allocated t"
  "t_allocated (ansi_sgr value t) = t_allocated t"
  "t_allocated (terminal_clear font t) = t_allocated t"
  by (simp_all add: tab_def restore_cursor_def move_cursor_def erase_in_line_def extend_lines_def ansi_sgr_def
      terminal_clear_def fold_allocated Let_def del: upt_Suc)

lemma write_byte_allocated: "t_allocated (write_byte font c t) = t_allocated t"
proof -
  have "t_allocated (ansi_command font c t) = t_allocated t"
    by (simp add: ansi_command_def Let_def fold_allocated)
  then have "t_allocated (sequence_byte font c t) = t_allocated t"
    unfolding sequence_byte_def Let_def
    by (intro if_both [where P = "\<lambda>u. t_allocated u = t_allocated t"]) simp_all
  moreover have "t_allocated (escape_byte c t) = t_allocated t"
    by (simp add: escape_byte_def)
  moreover have "t_allocated (text_byte c t) = t_allocated t"
    by (simp add: text_byte_def)
  ultimately show ?thesis by (simp add: write_byte_def)
qed

lemma write_keeps_allocated: "t_allocated (terminal_write_bytes font t bytes) \<longleftrightarrow> t_allocated t"
  by (simp add: terminal_write_bytes_def Let_def mark_cursor_def fold_allocated write_byte_allocated)

lemma write_bytes_text:
  "text_state (terminal_write_bytes font t bytes) =
     (if t_allocated t then text_state (fold (write_byte font) bytes t) else text_state t)"
proof -
  have "respects_text (fold (write_byte font) bytes)" by (intro respects_fold respects_write_byte)
  then have "text_state (fold (write_byte font) bytes ((mark_cursor t)\<lparr>t_cursor_phase_visible := True\<rparr>)) =
      text_state (fold (write_byte font) bytes t)"
    by (rule respects_textD) (simp add: mark_cursor_def)
  then show ?thesis by (simp add: terminal_write_bytes_def Let_def mark_cursor_def)
qed

text \<open>
  C33. Output reaches the terminal in pieces of any size, so a piece may end inside an escape
  sequence or at the right margin. Writing a stream in two pieces leaves the text, the cursor, the
  colours and the parser exactly as writing it in one; only the picture may be brought up to date
  earlier.
\<close>

theorem terminal_write_split:
  "text_state (terminal_write_bytes font (terminal_write_bytes font t first_part) second_part) =
   text_state (terminal_write_bytes font t (first_part @ second_part))"
proof -
  have "respects_text (fold (write_byte font) second_part)" by (intro respects_fold respects_write_byte)
  then have "t_allocated t \<Longrightarrow> text_state (fold (write_byte font) second_part (terminal_write_bytes font t first_part)) =
      text_state (fold (write_byte font) second_part (fold (write_byte font) first_part t))"
    by (rule respects_textD) (simp add: write_bytes_text)
  then show ?thesis by (simp add: write_bytes_text write_keeps_allocated)
qed

section \<open>Plain text is stored without loss\<close>

definition line_text :: "terminal \<Rightarrow> nat \<Rightarrow> u8 list" where
  "line_text t line =
     map cell_character (take (line_length t line) (line_cells t line)) @ (if hard_break t line then [0x0a] else [])"

definition retained_text :: "terminal \<Rightarrow> u8 list" where
  "retained_text t = concat (map (line_text t) [t_first_line t..<Suc (t_last_line t)])"

definition at_text_end :: "terminal \<Rightarrow> bool" where
  "at_text_end t \<longleftrightarrow>
     t_current_line t = t_last_line t \<and> t_column t = line_length t (t_last_line t) \<and> \<not> hard_break t (t_last_line t)"

lemma slot_inj:
  assumes "window_ok t" and "t_first_line t \<le> a" "a < b" "b < t_first_line t + t_line_capacity t"
  shows "line_slot t a \<noteq> line_slot t b"
proof
  assume eq: "line_slot t a = line_slot t b"
  have "b - a < t_line_capacity t" and "0 < b - a" using assms(2-) by linarith+
  moreover have "t_line_capacity t dvd b - a"
    using eq assms(3) unfolding line_slot_def by (metis mod_eq_dvd_iff_nat less_imp_le_nat)
  ultimately show False using nat_dvd_not_less by blast
qed

lemma line_text_cong:
  assumes "line_cells t l = line_cells u l" "line_length t l = line_length u l" "hard_break t l = hard_break u l"
  shows "line_text t l = line_text u l"
  using assms by (simp add: line_text_def)

lemma line_text_frame [simp]:
  "line_text (t\<lparr>t_column := c\<rparr>) l = line_text t l"
  "line_text (mark_cell a b t) l = line_text t l"
  "line_text (follow_live_output t) l = line_text t l"
  "line_text (t\<lparr>t_current_line := k\<rparr>) l = line_text t l"
  "line_text (t\<lparr>t_first_line := k\<rparr>) l = line_text t l"
  "line_text (t\<lparr>t_last_line := k\<rparr>) l = line_text t l"
  "line_text (t\<lparr>t_foreground := p\<rparr>) l = line_text t l"
  "line_text (t\<lparr>t_background := p\<rparr>) l = line_text t l"
  "line_text (t\<lparr>t_reverse := b'\<rparr>) l = line_text t l"
  by (simp_all add: line_text_def line_cells_def line_length_def hard_break_def line_slot_def
      follow_live_output_def update_cursor_row_def Let_def)

lemma line_text_other:
  assumes "line_slot t a \<noteq> line_slot t l"
  shows "line_text (set_hard_break a hard t) l = line_text t l"
    and "line_text (clear_line a t) l = line_text t l"
    and "line_text (set_line_length a n (set_cell a c cell t)) l = line_text t l"
  using assms
  by (simp_all add: line_text_def line_cells_def line_length_def hard_break_def line_slot_def
      set_hard_break_def clear_line_def set_cell_def set_line_length_def)

text \<open>Advancing from the last line opens an empty line and evicts the oldest one if there is no slot left.\<close>

lemma next_line_text:
  assumes ok: "grid_ok t" and last: "t_current_line t = t_last_line t"
  defines "u \<equiv> next_line t"
  shows "t_last_line u = Suc (t_last_line t)" "t_current_line u = Suc (t_last_line t)"
    "t_first_line u = t_first_line t \<or> t_first_line u = Suc (t_first_line t)"
    "Suc (t_last_line t) < t_first_line t + t_line_capacity t \<Longrightarrow> t_first_line u = t_first_line t"
    "line_text u (Suc (t_last_line t)) = []" "line_length u (Suc (t_last_line t)) = 0"
    "\<not> hard_break u (Suc (t_last_line t))"
    "\<And>l. t_first_line u \<le> l \<Longrightarrow> l \<le> t_last_line t \<Longrightarrow> line_text u l = line_text t l"
proof -
  let ?l = "Suc (t_last_line t)"
  let ?first = "if t_line_capacity t < Suc (Suc (t_last_line t) - t_first_line t) then Suc (t_first_line t) else t_first_line t"
  define v where "v = t\<lparr>t_current_line := ?l, t_first_line := ?first, t_last_line := ?l\<rparr>"
  have u: "u = clear_line ?l v"
    using last by (auto simp: u_def next_line_def v_def Let_def)
  have w: "window_ok t" and c: "cells_ok t" using ok by (simp_all add: grid_ok_def)
  then show fields: "t_last_line u = ?l" "t_current_line u = ?l"
    "t_first_line u = t_first_line t \<or> t_first_line u = Suc (t_first_line t)"
    "Suc (t_last_line t) < t_first_line t + t_line_capacity t \<Longrightarrow> t_first_line u = t_first_line t"
    by (auto simp: u v_def window_ok_def)
  have slot: "line_slot v ?l < t_line_capacity t" using w by (simp add: v_def line_slot_def window_ok_def)
  then show "line_text u ?l = []" "line_length u ?l = 0" "\<not> hard_break u ?l"
    using c by (simp_all add: u line_text_def line_length_def hard_break_def clear_line_def cells_ok_def v_def line_slot_def)
  fix l
  assume l: "t_first_line u \<le> l" "l \<le> t_last_line t"
  have "grid_ok u" unfolding u_def using ok by (rule next_line_ok)
  then have "window_ok u" by (simp add: grid_ok_def)
  then have "line_slot u l \<noteq> line_slot u ?l"
    using l fields(1) by (intro slot_inj) (auto simp: window_ok_def)
  then have "line_slot v ?l \<noteq> line_slot v l" by (simp add: u clear_line_def line_slot_def)
  then show "line_text u l = line_text t l"
    unfolding u by (simp add: line_text_other) (simp add: v_def line_text_def line_cells_def line_length_def hard_break_def line_slot_def)
qed

lemma retained_split:
  assumes "t_first_line t \<le> t_last_line t"
  shows "retained_text t = concat (map (line_text t) [t_first_line t..<t_last_line t]) @ line_text t (t_last_line t)"
  using assms by (simp add: retained_text_def)

lemma concat_suffix_upt:
  assumes "a = b \<or> a = Suc b" and "b \<le> c"
  shows "suffix (concat (map f [a..<c])) (concat (map f [b..<c]))"
  using assms by (cases "b < c") (auto simp: upt_rec [of b c] suffix_def)

lemma append_line_text:
  fixes hard :: bool
  assumes ok: "grid_ok t" and end_of_text: "at_text_end t"
  defines "u \<equiv> append_line hard t" and "mark \<equiv> (if hard then [0x0a] else [])"
  shows "suffix (retained_text u) (retained_text t @ mark)"
    "t_first_line u = t_first_line t \<Longrightarrow> retained_text u = retained_text t @ mark"
    "at_text_end u" "terminal_ok u" "t_last_line u = Suc (t_last_line t)" "t_first_line t \<le> t_first_line u"
    "Suc (t_last_line t) < t_first_line t + t_line_capacity t \<Longrightarrow> t_first_line u = t_first_line t"
    "t_line_capacity u = t_line_capacity t"
proof -
  let ?last = "t_last_line t"
  define h where "h = set_hard_break ?last hard t"
  have current: "t_current_line t = ?last" and open_line: "\<not> hard_break t ?last"
    using end_of_text by (simp_all add: at_text_end_def)
  have h: "grid_ok h" "t_current_line h = t_last_line h" "t_last_line h = ?last" "t_first_line h = t_first_line t"
    "t_line_capacity h = t_line_capacity t"
    using ok current by (simp_all add: h_def)
  note n = next_line_text [OF h(1,2), unfolded h(3,4,5)]
  have u: "u = follow_live_output ((next_line h)\<lparr>t_column := 0\<rparr>)"
    by (simp add: u_def append_line_def h_def current)
  have follow: "t_first_line (follow_live_output v) = t_first_line v" "t_last_line (follow_live_output v) = t_last_line v"
    "t_current_line (follow_live_output v) = t_current_line v" "t_line_capacity (follow_live_output v) = t_line_capacity v"
    "t_column (follow_live_output v) = t_column v"
    "line_length (follow_live_output v) l = line_length v l" "hard_break (follow_live_output v) l = hard_break v l"
    "hard_break (v\<lparr>t_column := 0\<rparr>) l = hard_break v l" for v l
    by (simp_all add: follow_live_output_def update_cursor_row_def line_length_def hard_break_def line_slot_def Let_def)
  have lines: "t_last_line u = Suc ?last" "t_first_line u = t_first_line (next_line h)"
    using n(1) by (simp_all add: u follow)
  then show "t_last_line u = Suc ?last" "t_first_line t \<le> t_first_line u"
    "Suc ?last < t_first_line t + t_line_capacity t \<Longrightarrow> t_first_line u = t_first_line t"
    using n(3,4) by auto
  show "t_line_capacity u = t_line_capacity t" by (simp add: u follow next_line_def h_def Let_def)
  have w: "t_first_line t \<le> ?last" "257 \<le> t_line_capacity t"
    using ok by (auto simp: grid_ok_def window_ok_def TERMINAL_SCROLLBACK_LINES_def)
  then have first: "t_first_line u \<le> ?last" using n(3,4) lines(2) by linarith
  show "terminal_ok u" using ok by (simp add: u_def append_line_ok)
  show "at_text_end u"
    using n(1,2,6,7) by (simp add: at_text_end_def u follow)
  have kept: "line_text u l = line_text h l" if "t_first_line u \<le> l" "l \<le> ?last" for l
    using n(8) [of l] that lines by (simp add: u)
  have slots: "line_slot t ?last \<noteq> line_slot t l" if "t_first_line t \<le> l" "l < ?last" for l
    using slot_inj [of t l ?last] ok that by (auto simp: grid_ok_def window_ok_def)
  have before: "line_text u l = line_text t l" if "t_first_line u \<le> l" "l < ?last" for l
    using kept [of l] that slots [of l] line_text_other(1) [of t ?last l] n(3) lines by (auto simp: h_def)
  have "line_slot t ?last < length (t_hard_breaks t)"
    using ok slot_less [of t] by (simp add: grid_ok_def cells_ok_def)
  then have last_text: "line_text h ?last = line_text t ?last @ mark"
    using open_line by (simp add: h_def mark_def line_text_def set_hard_break_def hard_break_def line_cells_def
        line_length_def line_slot_def)
  have "line_text u (Suc ?last) = []" using n(5) by (simp add: u)
  then have "retained_text u = concat (map (line_text u) [t_first_line u..<?last]) @ line_text u ?last"
    using lines first by (simp add: retained_text_def)
  also have "\<dots> = concat (map (line_text t) [t_first_line u..<?last]) @ line_text t ?last @ mark"
    using before kept [of ?last] first last_text
    by (simp, intro arg_cong [where f = concat] map_cong) auto
  finally have u_text: "retained_text u = concat (map (line_text t) [t_first_line u..<?last]) @ line_text t ?last @ mark" .
  have t_text: "retained_text t @ mark =
      concat (map (line_text t) [t_first_line t..<?last]) @ line_text t ?last @ mark"
    using w(1) by (simp add: retained_split)
  show "retained_text u = retained_text t @ mark" if "t_first_line u = t_first_line t"
    using u_text t_text that by simp
  show "suffix (retained_text u) (retained_text t @ mark)"
    unfolding u_text t_text using concat_suffix_upt [of "t_first_line u" "t_first_line t" ?last "line_text t"]
      n(3) lines(2) w(1) by (auto simp: suffix_def)
qed

lemma store_character_text:
  fixes c :: u8
  assumes ok: "grid_ok t" and end_of_text: "at_text_end t" and column: "t_column t < t_columns t"
  defines "u \<equiv> (store_character c t)\<lparr>t_column := t_column t + 1\<rparr>"
  shows "retained_text u = retained_text t @ [c]" "at_text_end u"
    "t_first_line u = t_first_line t" "t_last_line u = t_last_line t" "t_line_capacity u = t_line_capacity t"
proof -
  let ?last = "t_last_line t"
  let ?cell = "\<lparr>cell_character = c, cell_foreground = t_foreground t,
    cell_background = t_background t, cell_reverse = t_reverse t\<rparr>"
  have e: "t_current_line t = ?last" "t_column t = line_length t ?last" "\<not> hard_break t ?last"
    using end_of_text by (simp_all add: at_text_end_def)
  define s where "s = set_line_length ?last (t_column t + 1) (set_cell ?last (t_column t) ?cell t)"
  have u: "u = (mark_cell ?last (t_column t) s)\<lparr>t_column := t_column t + 1\<rparr>"
    using e by (simp add: u_def store_character_def s_def Let_def)
  have slot: "line_slot t ?last < t_line_capacity t" using ok slot_less [of t] by (simp add: grid_ok_def)
  then have bounds: "line_slot t ?last < length (t_cells t)" "line_slot t ?last < length (t_line_lengths t)"
    using ok by (simp_all add: grid_ok_def cells_ok_def)
  have line: "length (line_cells t ?last) = t_columns t"
    using line_ok_of [OF ok, of ?last] by (simp add: line_ok_def)
  show fields: "t_first_line u = t_first_line t" "t_last_line u = t_last_line t" "t_line_capacity u = t_line_capacity t"
    by (simp_all add: u s_def set_line_length_def set_cell_def)
  have cells: "line_cells s ?last = (line_cells t ?last)[t_column t := ?cell]"
    and n: "line_length s ?last = t_column t + 1" and hard: "hard_break s l = hard_break t l" for l
    using bounds by (simp_all add: s_def set_line_length_def set_cell_def line_cells_def line_length_def
        hard_break_def line_slot_def)
  have "line_text s ?last = line_text t ?last @ [c]"
    using e line column by (simp add: line_text_def cells n hard take_Suc_conv_app_nth take_update_swap list_update_append)
  moreover have "line_text s l = line_text t l" if "t_first_line t \<le> l" "l < ?last" for l
    using slot_inj [of t l ?last] ok that unfolding s_def
    by (intro line_text_other(3)) (auto simp: grid_ok_def window_ok_def)
  moreover have "t_first_line t \<le> ?last" using ok by (simp add: grid_ok_def window_ok_def)
  ultimately show "retained_text u = retained_text t @ [c]"
    using fields by (simp add: retained_split u cong: map_cong)
      (intro arg_cong [where f = concat] map_cong, auto)
  show "at_text_end u"
    using e n hard by (simp add: at_text_end_def u s_def [symmetric] hard_break_def line_length_def line_slot_def)
      (simp add: s_def set_line_length_def set_cell_def line_slot_def)
qed

definition stored :: "terminal \<Rightarrow> u8 list \<Rightarrow> terminal \<Rightarrow> bool" where
  "stored t bytes u \<longleftrightarrow>
     terminal_ok u \<and> at_text_end u \<and> suffix (retained_text u) (retained_text t @ bytes) \<and>
     (t_first_line u = t_first_line t \<longrightarrow> retained_text u = retained_text t @ bytes) \<and>
     t_first_line t \<le> t_first_line u \<and> t_last_line u \<le> t_last_line t + length bytes \<and>
     (t_last_line t + length bytes < t_first_line t + t_line_capacity t \<longrightarrow> t_first_line u = t_first_line t) \<and>
     t_line_capacity u = t_line_capacity t \<and> t_ansi_state u = t_ansi_state t"

lemma stored_refl: "terminal_ok t \<Longrightarrow> at_text_end t \<Longrightarrow> stored t [] t"
  by (simp add: stored_def)

lemma stored_trans:
  assumes "stored t a u" and "stored u b v"
  shows "stored t (a @ b) v"
proof -
  have "suffix (retained_text u @ b) (retained_text t @ a @ b)"
    using assms(1) by (auto simp: stored_def suffix_def)
  then have "suffix (retained_text v) (retained_text t @ a @ b)"
    using assms(2) unfolding stored_def by (meson suffix_order.trans)
  then show ?thesis using assms unfolding stored_def by auto
qed

lemma follow_parser [simp]: "t_ansi_state (follow_live_output t) = t_ansi_state t"
  by (simp add: follow_live_output_def update_cursor_row_def Let_def)

lemma next_line_parser [simp]: "t_ansi_state (next_line t) = t_ansi_state t"
  by (simp add: next_line_def clear_line_def Let_def)

lemma append_line_parser [simp]: "t_ansi_state (append_line hard t) = t_ansi_state t"
  by (simp add: append_line_def set_hard_break_def)

lemma stored_newline:
  assumes "terminal_ok t" and "at_text_end t"
  shows "stored t [0x0a] (append_line True t)"
  using append_line_text [OF terminal_ok_grid [OF assms(1)] assms(2), of True]
  by (simp add: stored_def)

lemma stored_character:
  assumes ok: "terminal_ok t" and end_of_text: "at_text_end t" and c: "c \<noteq> 0"
  shows "stored t [c] (put_character c t)"
proof -
  have grid: "grid_ok t" and column: "t_column t < t_columns t" using ok by (simp_all add: terminal_ok_def)
  define u where "u = (store_character c t)\<lparr>t_column := t_column t + 1\<rparr>"
  note s = store_character_text [OF grid end_of_text column, of c, folded u_def]
  have u: "grid_ok u" "t_columns u = t_columns t"
    using store_character_ok [OF grid column c] by (simp_all add: u_def)
  have parser: "t_ansi_state u = t_ansi_state t"
    by (simp add: u_def store_character_def set_line_length_def set_cell_def Let_def)
  have put: "put_character c t = (if t_columns t \<le> t_column t + 1 then append_line False u else u)"
    using store_character_ok [OF grid column c] by (simp add: put_character_def u_def Let_def)
  have ok': "terminal_ok (put_character c t)" using ok c by (rule put_character_ok)
  show ?thesis
  proof (cases "t_columns t \<le> t_column t + 1")
    case True
    note a = append_line_text [OF u(1) s(2), of False]
    show ?thesis using True a s parser ok' unfolding stored_def put by auto
  next
    case False
    then show ?thesis using s parser ok' unfolding stored_def put by auto
  qed
qed

definition plain_byte :: "u8 \<Rightarrow> bool" where
  "plain_byte c \<longleftrightarrow> c = 0x0a \<or> (0x20 \<le> c \<and> c \<noteq> 0x7f)"

lemma plain_byte_special: "plain_byte c \<Longrightarrow> c \<noteq> 0 \<and> c \<noteq> 0x1b \<and> c \<noteq> 0x0d \<and> c \<noteq> 8 \<and> c \<noteq> 0x7f \<and> c \<noteq> 9"
  by (auto simp: plain_byte_def word_le_nat_alt)

lemma stored_bytes:
  "terminal_ok t \<Longrightarrow> at_text_end t \<Longrightarrow> t_ansi_state t = 0 \<Longrightarrow> \<forall>c \<in> set bytes. plain_byte c \<Longrightarrow>
   stored t bytes (fold (write_byte font) bytes t)"
proof (induction bytes arbitrary: t)
  case Nil
  then show ?case by (simp add: stored_refl)
next
  case (Cons c bytes)
  have "write_byte font c t = (if c = 0x0a then append_line True t else put_character c t)"
    using Cons.prems(3,4) plain_byte_special [of c] by (simp add: write_byte_def text_byte_def)
  then have first: "stored t [c] (write_byte font c t)"
    using Cons.prems plain_byte_special [of c] by (simp add: stored_newline stored_character)
  then have "stored (write_byte font c t) bytes (fold (write_byte font) bytes (write_byte font c t))"
    using Cons.prems by (intro Cons.IH) (simp_all add: stored_def)
  then show ?case using stored_trans [OF first] by simp
qed

lemma retained_text_state: "retained_text (text_state t) = retained_text t" "at_text_end (text_state t) = at_text_end t"
proof -
  have "line_text (text_state t) = line_text t"
    by (rule ext) (simp add: text_state_def line_text_def line_cells_def line_length_def hard_break_def line_slot_def)
  then show "retained_text (text_state t) = retained_text t" by (simp add: retained_text_def)
  show "at_text_end (text_state t) = at_text_end t"
    by (simp add: text_state_def at_text_end_def line_length_def hard_break_def line_slot_def)
qed

lemma retained_text_colors [simp]:
  "retained_text (t\<lparr>t_foreground := f\<rparr>) = retained_text t"
  "retained_text (t\<lparr>t_background := f\<rparr>) = retained_text t"
  "retained_text (t\<lparr>t_reverse := b\<rparr>) = retained_text t"
proof -
  have "line_text (t\<lparr>t_foreground := f\<rparr>) = line_text t" "line_text (t\<lparr>t_background := f\<rparr>) = line_text t"
    "line_text (t\<lparr>t_reverse := b\<rparr>) = line_text t"
    by (rule ext, simp)+
  then show "retained_text (t\<lparr>t_foreground := f\<rparr>) = retained_text t"
    "retained_text (t\<lparr>t_background := f\<rparr>) = retained_text t"
    "retained_text (t\<lparr>t_reverse := b\<rparr>) = retained_text t" by (simp_all add: retained_text_def)
qed

lemma flags_text:
  "retained_text (t\<lparr>t_cursor_visible := b\<rparr>) = retained_text t"
  "retained_text (t\<lparr>t_cursor_phase_visible := b\<rparr>) = retained_text t"
  "retained_text (t\<lparr>t_full_redraw := b\<rparr>) = retained_text t"
  "retained_text (t\<lparr>t_viewport_top := n\<rparr>) = retained_text t"
  "retained_text (t\<lparr>t_row := n\<rparr>) = retained_text t"
  "retained_text (render font t) = retained_text t"
proof -
  have "line_text (t\<lparr>t_cursor_visible := b\<rparr>) = line_text t"
    by (rule ext) (simp add: line_text_def line_cells_def line_length_def hard_break_def line_slot_def)
  then show "retained_text (t\<lparr>t_cursor_visible := b\<rparr>) = retained_text t" by (simp add: retained_text_def)
  have keep: "retained_text u = retained_text t" if "text_state u = text_state t" for u
    using that retained_text_state(1) by metis
  show "retained_text (t\<lparr>t_viewport_top := n\<rparr>) = retained_text t" "retained_text (t\<lparr>t_row := n\<rparr>) = retained_text t"
    by (rule keep, simp add: text_state_def)+
  show "retained_text (t\<lparr>t_cursor_phase_visible := b\<rparr>) = retained_text t"
    "retained_text (t\<lparr>t_full_redraw := b\<rparr>) = retained_text t"
    "retained_text (render font t) = retained_text t"
    by (rule keep, simp)+
qed

lemma stored_text_state:
  assumes "stored t bytes u" and "text_state v = text_state u" and "terminal_ok v"
  shows "stored t bytes v"
proof -
  have same: "retained_text v = retained_text u" "at_text_end v = at_text_end u"
    "t_first_line v = t_first_line u" "t_last_line v = t_last_line u" "t_line_capacity v = t_line_capacity u"
    "t_ansi_state v = t_ansi_state u"
    using assms(2) retained_text_state [of v] retained_text_state [of u] text_state_fields [of v]
      text_state_fields [of u] by metis+
  show ?thesis using assms(1,3) unfolding stored_def same by blast
qed

text \<open>
  C31. Printable characters and newlines written at the end of the text are stored in order across
  soft line breaks, and nothing else is: what the terminal retains afterwards is the end of the old
  text followed by the new bytes, and all of it as long as the scrollback has a line left for every
  byte.
\<close>

theorem terminal_text_stored:
  fixes font :: font_table
  assumes "terminal_ok t" and "at_text_end t" and "t_ansi_state t = 0" and "\<forall>c \<in> set bytes. plain_byte c"
  defines "u \<equiv> terminal_write_bytes font t bytes"
  shows "suffix (retained_text u) (retained_text t @ bytes) \<and> at_text_end u \<and>
    (t_last_line t + length bytes < t_first_line t + t_line_capacity t \<longrightarrow>
     retained_text u = retained_text t @ bytes)"
proof -
  have "text_state u = text_state (fold (write_byte font) bytes t)"
    using assms(1) by (simp add: u_def write_bytes_text terminal_ok_def grid_ok_def)
  moreover have "terminal_ok u" using assms(1) by (simp add: u_def write_bytes_ok)
  ultimately have "stored t bytes u" using stored_text_state stored_bytes [OF assms(1-4)] by blast
  then show ?thesis by (simp add: stored_def)
qed

lemma init_text:
  assumes "terminal_init_with_rendering font memory_available t (Some fb) scale enabled = (True, u)"
  shows "retained_text u = []" "at_text_end u" "t_ansi_state u = 0" "t_first_line u = 0" "t_last_line u = 0"
    "\<not> t_rendering_enabled u \<longleftrightarrow> \<not> enabled"
proof -
  obtain v where v: "u = render font v" "t_first_line v = 0" "t_last_line v = 0" "t_current_line v = 0" "t_column v = 0"
    "t_line_lengths v = replicate (t_line_capacity v) 0" "t_hard_breaks v = replicate (t_line_capacity v) False"
    "0 < t_line_capacity v" "t_ansi_state v = 0" "t_rendering_enabled v = enabled"
    using assms
    by (simp add: terminal_init_with_rendering_def Let_def no_terminal_def TERMINAL_SCROLLBACK_LINES_def split: if_splits)
      fastforce
  then show "retained_text u = []" "at_text_end u" "t_ansi_state u = 0" "t_first_line u = 0" "t_last_line u = 0"
    "\<not> t_rendering_enabled u \<longleftrightarrow> \<not> enabled"
    by (simp_all add: retained_text_def line_text_def at_text_end_def line_length_def hard_break_def line_slot_def
        render_def Let_def split: option.split)
qed

lemmas demo_terminal_text = init_text [OF demo_terminal_init [unfolded terminal_init_def]]

theorem terminal_text_stored_witness:
  "terminal_ok demo_terminal \<and> at_text_end demo_terminal \<and> t_ansi_state demo_terminal = 0 \<and>
   retained_text (terminal_write_bytes (\<lambda>i. 0) demo_terminal [72, 105, 33, 10]) = [72, 105, 33, 10]"
proof -
  have plain: "\<forall>c \<in> set [72, 105, 33, 10 :: u8]. plain_byte c" by (simp add: plain_byte_def)
  have "t_line_capacity demo_terminal = t_rows demo_terminal + 256"
    using demo_terminal_ok by (simp add: terminal_ok_def grid_ok_def window_ok_def TERMINAL_SCROLLBACK_LINES_def)
  then have "retained_text (terminal_write_bytes (\<lambda>i. 0) demo_terminal [72, 105, 33, 10]) =
      retained_text demo_terminal @ [72, 105, 33, 10]"
    using terminal_text_stored [OF demo_terminal_ok demo_terminal_text(2,3) plain, of "\<lambda>i. 0"]
    by (simp add: demo_terminal_text)
  then show ?thesis using demo_terminal_ok demo_terminal_text plain by simp
qed

section \<open>Resizing reflows the text\<close>

definition shown_byte :: "u8 \<Rightarrow> u8" where
  "shown_byte c = (if c = 0 then 0x20 else c)"

lemma stored_replay_cell:
  assumes "terminal_ok u" and "at_text_end u"
  shows "stored u [shown_byte (cell_character cell)] (replay_cell cell u)"
proof -
  let ?u = "u\<lparr>t_foreground := cell_foreground cell, t_background := cell_background cell,
    t_reverse := cell_reverse cell\<rparr>"
  have "stored ?u [shown_byte (cell_character cell)] (replay_cell cell u)"
    using assms unfolding replay_cell_def shown_byte_def
    by (intro stored_character)
      (simp_all add: at_text_end_def line_length_def hard_break_def line_slot_def)
  then show ?thesis by (simp add: stored_def)
qed

lemma stored_replay_cells:
  "terminal_ok u \<Longrightarrow> at_text_end u \<Longrightarrow>
   stored u (map (\<lambda>cell. shown_byte (cell_character cell)) cells) (fold replay_cell cells u)"
proof (induction cells arbitrary: u)
  case (Cons cell cells)
  have first: "stored u [shown_byte (cell_character cell)] (replay_cell cell u)"
    using Cons.prems by (rule stored_replay_cell)
  then have "stored (replay_cell cell u) (map (\<lambda>cell. shown_byte (cell_character cell)) cells)
      (fold replay_cell cells (replay_cell cell u))"
    by (intro Cons.IH) (simp_all add: stored_def)
  then show ?case using stored_trans [OF first] by simp
qed (simp add: stored_refl)

lemma stored_replay_line:
  assumes "terminal_ok u" and "at_text_end u"
  shows "stored u (map shown_byte (line_text t line)) (replay_line t line u)"
proof -
  let ?cells = "take (line_length t line) (line_cells t line)"
  have cells: "stored u (map (\<lambda>cell. shown_byte (cell_character cell)) ?cells) (fold replay_cell ?cells u)"
    using assms by (rule stored_replay_cells)
  show ?thesis
  proof (cases "hard_break t line")
    case True
    have "stored (fold replay_cell ?cells u) [0x0a] (append_line True (fold replay_cell ?cells u))"
      using cells by (intro stored_newline) (simp_all add: stored_def)
    then show ?thesis using stored_trans [OF cells] True
      by (simp add: replay_line_def line_text_def comp_def shown_byte_def)
  next
    case False
    then show ?thesis using cells by (simp add: replay_line_def line_text_def comp_def)
  qed
qed

lemma stored_replay_lines:
  "terminal_ok u \<Longrightarrow> at_text_end u \<Longrightarrow>
   stored u (map shown_byte (concat (map (line_text t) lines))) (fold (replay_line t) lines u)"
proof (induction lines arbitrary: u)
  case (Cons line lines)
  have first: "stored u (map shown_byte (line_text t line)) (replay_line t line u)"
    using Cons.prems by (rule stored_replay_line)
  then have "stored (replay_line t line u) (map shown_byte (concat (map (line_text t) lines)))
      (fold (replay_line t) lines (replay_line t line u))"
    by (intro Cons.IH) (simp_all add: stored_def)
  then show ?case using stored_trans [OF first] by simp
qed (simp add: stored_refl)



section \<open>A terminal that does not render leaves the picture alone\<close>

definition picture :: "terminal \<Rightarrow> framebuffer option \<times> bool" where
  "picture t = (t_framebuffer t, t_rendering_enabled t)"

lemma render_hidden: "\<not> t_rendering_enabled t \<Longrightarrow> render font t = t"
  by (simp add: render_def split: option.split)

lemma picture_hidden: "picture u = picture t \<Longrightarrow> \<not> t_rendering_enabled t \<Longrightarrow> \<not> t_rendering_enabled u"
  by (simp add: picture_def)

lemma fold_picture: "(\<And>k t. picture (f k t) = picture t) \<Longrightarrow> picture (fold f ks t) = picture t"
  by (induction ks arbitrary: t) simp_all

lemma line_picture [simp]:
  "picture (mark_cell line column t) = picture t"
  "picture (set_cell line column cell t) = picture t"
  "picture (set_line_length line n t) = picture t"
  "picture (set_hard_break line hard t) = picture t"
  "picture (clear_line line t) = picture t"
  "picture (follow_live_output t) = picture t"
  "picture (trim_line line t) = picture t"
  by (simp_all add: picture_def mark_cell_def set_cell_def set_line_length_def set_hard_break_def clear_line_def
      follow_live_output_def update_cursor_row_def trim_line_def Let_def)

lemma field_picture [simp]:
  "picture (t\<lparr>t_column := c\<rparr>) = picture t"
  "picture (t\<lparr>t_current_line := l\<rparr>) = picture t"
  "picture (t\<lparr>t_first_line := l\<rparr>) = picture t"
  "picture (t\<lparr>t_last_line := l\<rparr>) = picture t"
  "picture (t\<lparr>t_viewport_top := l\<rparr>) = picture t"
  "picture (t\<lparr>t_ansi_state := s\<rparr>) = picture t"
  "picture (t\<lparr>t_ansi_values := vs\<rparr>) = picture t"
  "picture (t\<lparr>t_ansi_count := n\<rparr>) = picture t"
  "picture (t\<lparr>t_ansi_private := b\<rparr>) = picture t"
  "picture (t\<lparr>t_ansi_invalid := b\<rparr>) = picture t"
  "picture (t\<lparr>t_saved_column := n\<rparr>) = picture t"
  "picture (t\<lparr>t_saved_line := n\<rparr>) = picture t"
  "picture (t\<lparr>t_cursor_visible := b\<rparr>) = picture t"
  "picture (t\<lparr>t_cursor_phase_visible := b\<rparr>) = picture t"
  "picture (t\<lparr>t_full_redraw := b\<rparr>) = picture t"
  "picture (t\<lparr>t_foreground := p\<rparr>) = picture t"
  "picture (t\<lparr>t_background := p\<rparr>) = picture t"
  "picture (t\<lparr>t_reverse := b\<rparr>) = picture t"
  by (simp_all add: picture_def)

lemma next_line_picture [simp]: "picture (next_line t) = picture t"
  by (simp add: next_line_def Let_def)

lemma append_line_picture [simp]: "picture (append_line hard t) = picture t"
  by (simp add: append_line_def)

lemma put_character_picture [simp]: "picture (put_character c t) = picture t"
proof -
  have "picture (store_character c t) = picture t" by (simp add: store_character_def Let_def)
  then show ?thesis by (simp add: put_character_def Let_def)
qed

lemma backspace_picture [simp]: "picture (backspace t) = picture t"
proof -
  have "picture (erase_left t) = picture t" for t by (simp add: erase_left_def Let_def)
  moreover have "picture (leave_line t) = picture t" by (simp add: leave_line_def Let_def)
  ultimately show ?thesis by (simp add: backspace_def)
qed

lemma command_picture [simp]:
  "picture (tab t) = picture t"
  "picture (restore_cursor t) = picture t"
  "picture (move_cursor c t) = picture t"
  "picture (erase_in_line value t) = picture t"
  "picture (extend_lines t) = picture t"
  "picture (ansi_sgr value t) = picture t"
  by (simp_all add: tab_def restore_cursor_def move_cursor_def erase_in_line_def extend_lines_def ansi_sgr_def
      fold_picture Let_def del: upt_Suc)

lemma clear_picture:
  assumes "\<not> t_rendering_enabled t"
  shows "picture (terminal_clear font t) = picture t"
  using assms by (simp add: terminal_clear_def render_hidden) (simp add: picture_def)

lemma write_byte_picture:
  assumes hidden: "\<not> t_rendering_enabled t"
  shows "picture (write_byte font c t) = picture t"
proof -
  have "picture (ansi_command font c t) = picture t"
    using clear_picture [OF hidden] by (simp add: ansi_command_def Let_def fold_picture)
  then have "picture (sequence_byte font c t) = picture t"
    unfolding sequence_byte_def Let_def
    by (intro if_both [where P = "\<lambda>u. picture u = picture t"]) simp_all
  moreover have "picture (escape_byte c t) = picture t"
    by (simp add: escape_byte_def)
  moreover have "picture (text_byte c t) = picture t"
    by (simp add: text_byte_def)
  ultimately show ?thesis by (simp add: write_byte_def)
qed

lemma fold_write_picture:
  "\<not> t_rendering_enabled t \<Longrightarrow> picture (fold (write_byte font) bytes t) = picture t"
  by (induction bytes arbitrary: t) (simp_all add: write_byte_picture picture_hidden)

lemma write_bytes_picture:
  assumes "\<not> t_rendering_enabled t"
  shows "picture (terminal_write_bytes font t bytes) = picture t"
proof -
  let ?s = "(mark_cursor t)\<lparr>t_cursor_phase_visible := True\<rparr>"
  let ?u = "fold (write_byte font) bytes ?s"
  have s: "picture ?s = picture t" by (simp add: mark_cursor_def)
  then have "picture ?u = picture t" using assms fold_write_picture [of ?s] picture_hidden by simp
  then have "picture (mark_cursor (follow_live_output ?u)) = picture t" by (simp add: mark_cursor_def)
  then show ?thesis using assms picture_hidden [of _ t]
    by (simp add: terminal_write_bytes_def Let_def render_hidden)
qed

lemma hidden_operations:
  assumes "\<not> t_rendering_enabled t"
  shows "picture (terminal_write_line font t bytes) = picture t"
    and "picture (terminal_set_cursor_visible font t shown) = picture t"
    and "picture (terminal_set_cursor_phase font t shown) = picture t"
    and "picture (terminal_set_colors t f b) = picture t"
proof -
  show "picture (terminal_write_line font t bytes) = picture t"
    using assms by (simp add: terminal_write_line_def terminal_write_def write_bytes_picture picture_hidden)
  have mark: "picture (mark_cursor u) = picture u" for u by (simp add: mark_cursor_def)
  then have render: "picture (render font (mark_cursor u)) = picture t" if "picture u = picture t" for u
    using that assms picture_hidden [of "mark_cursor u" t] by (simp add: render_hidden)
  show "picture (terminal_set_cursor_visible font t shown) = picture t"
    by (simp add: terminal_set_cursor_visible_def Let_def) (auto intro!: render simp: mark)
  show "picture (terminal_set_cursor_phase font t shown) = picture t"
    by (simp add: terminal_set_cursor_phase_def Let_def) (auto intro!: render simp: mark)
  show "picture (terminal_set_colors t f b) = picture t" by (simp add: terminal_set_colors_def)
qed

end
