(* ===== verification/Console.thy ===== *)
theory Console
  imports TerminalProofs InputQueue
begin

text \<open>
  The console service of \<^verbatim>\<open>src/console/console.c\<close>: the one foreground session, its token, the
  terminal it writes to, the input queue it reads, the blinking cursor, the graphics mode that
  takes the screen away from the terminal, and the capture buffer of the development build. The
  terminal is the model of \<^verbatim>\<open>Terminal\<close>, the queue the one of \<^verbatim>\<open>InputQueue\<close>. The clock (\<open>now\<close>), the glyph
  table (\<open>font\<close>), the success of an allocation and the answer of \<open>display_present\<close> (\<open>presented\<close>)
  are arguments; \<open>c_log\<close> records the frames presented and the runtime notifications. A session is
  its token, \<^const>\<open>None\<close> for a null pointer; text is the bytes before its NUL.
\<close>

section \<open>State\<close>

record console_state =
  c_terminal :: "terminal option"
  c_foreground_token :: u32
  c_next_token :: u32
  c_mutex :: bool
  c_cursor_timer :: tabos_timer
  c_cursor_phase_visible :: bool
  c_graphics_active :: bool
  c_capture :: "u8 list option"
  c_capture_overflow :: bool
  c_input :: input_state
  c_log :: "platform_call list"

type_synonym console_session = "u32 option"

datatype console_resize_result = CONSOLE_RESIZE_FAILED | CONSOLE_RESIZE_PRESENT_FAILED | CONSOLE_RESIZE_OK

definition CAPTURE_SIZE :: nat where "CAPTURE_SIZE = 8192"
definition CURSOR_BLINK_INTERVAL_MS :: u64 where "CURSOR_BLINK_INTERVAL_MS = 500"

definition on_terminal :: "(terminal \<Rightarrow> terminal) \<Rightarrow> console_state \<Rightarrow> console_state" where
  "on_terminal f st = st\<lparr>c_terminal := map_option f (c_terminal st)\<rparr>"

definition console_notify :: "nat \<Rightarrow> console_state \<Rightarrow> console_state" where
  "console_notify events st = st\<lparr>c_log := c_log st @ [Notify events]\<rparr>"

section \<open>Capture\<close>

definition capture_bytes :: "u8 list \<Rightarrow> console_state \<Rightarrow> console_state" where
  "capture_bytes bytes st =
     (case c_capture st of
        None \<Rightarrow> st
      | Some kept \<Rightarrow>
          if bytes = [] then st
          else
            (let available = CAPTURE_SIZE - length kept;
                 copied = (if length bytes < available then length bytes else available)
             in st\<lparr>c_capture := Some (kept @ take copied bytes),
                   c_capture_overflow := c_capture_overflow st \<or> copied \<noteq> length bytes\<rparr>))"

definition console_capture_start :: "bool \<Rightarrow> console_state \<Rightarrow> bool \<times> console_state" where
  "console_capture_start memory_available st =
     (if \<not> c_mutex st then (False, st)
      else
        (let buffer = (if c_capture st \<noteq> None \<or> memory_available then Some [] else None)
         in (buffer \<noteq> None, st\<lparr>c_capture := buffer, c_capture_overflow := False\<rparr>)))"

definition console_capture_read ::
    "bool \<Rightarrow> nat \<Rightarrow> console_state \<Rightarrow> (u8 list \<times> bool) option \<times> console_state" where
  "console_capture_read outputs capacity st =
     (if \<not> c_mutex st \<or> \<not> outputs then (None, st)
      else
        (let kept = (case c_capture st of None \<Rightarrow> [] | Some kept \<Rightarrow> kept);
             count = (if length kept < capacity then length kept else capacity)
         in (Some (take count kept, c_capture_overflow st),
             st\<lparr>c_capture := map_option (drop count) (c_capture st)\<rparr>)))"

definition console_capture_stop :: "console_state \<Rightarrow> console_state" where
  "console_capture_stop st =
     (if \<not> c_mutex st then st else st\<lparr>c_capture := None, c_capture_overflow := False\<rparr>)"

section \<open>Presenting and the cursor\<close>

definition present_console :: "bool \<Rightarrow> console_state \<Rightarrow> bool \<times> console_state" where
  "present_console presented st =
     (if c_graphics_active st then (True, st)
      else (presented, st\<lparr>c_log := c_log st @ [FramePresent]\<rparr>))"

definition restart_cursor_blink :: "font_table \<Rightarrow> u64 \<Rightarrow> console_state \<Rightarrow> bool \<times> console_state" where
  "restart_cursor_blink font now st =
     (let changed = (\<not> c_cursor_phase_visible st);
          st = st\<lparr>c_cursor_phase_visible := True\<rparr>;
          st = (if \<not> c_graphics_active st
            then on_terminal (\<lambda>t. terminal_set_cursor_phase font t True) st else st);
          st = (if \<not> c_graphics_active st
            then console_notify RUNTIME_EVENT_DEADLINE
              (st\<lparr>c_cursor_timer := timer_started now CURSOR_BLINK_INTERVAL_MS CURSOR_BLINK_INTERVAL_MS\<rparr>)
            else st)
      in (changed, st))"

definition owns_console :: "console_session \<Rightarrow> console_state \<Rightarrow> bool" where
  "owns_console session st \<longleftrightarrow>
     (case session of None \<Rightarrow> False | Some token \<Rightarrow> token \<noteq> 0 \<and> token = c_foreground_token st)"

section \<open>The runtime's side\<close>

definition console_init :: "bool \<Rightarrow> terminal option \<Rightarrow> console_state \<Rightarrow> bool \<times> console_state" where
  "console_init mutex terminal st =
     (if terminal = None \<or> c_mutex st then (False, st)
      else if \<not> mutex then (False, st)
      else
        (True, st\<lparr>c_mutex := True, c_terminal := terminal, c_foreground_token := 0, c_next_token := 1,
                  c_cursor_timer := timer_cleared, c_cursor_phase_visible := True\<rparr>))"

definition console_rebind :: "font_table \<Rightarrow> u64 \<Rightarrow> terminal option \<Rightarrow> console_state \<Rightarrow> console_state" where
  "console_rebind font now terminal st =
     (if \<not> c_mutex st \<or> terminal = None then st
      else
        (let st = st\<lparr>c_terminal := terminal\<rparr>
         in if c_foreground_token st \<noteq> 0 then snd (restart_cursor_blink font now st) else st))"

definition console_resize ::
    "font_table \<Rightarrow> u64 \<Rightarrow> bool \<Rightarrow> bool \<Rightarrow> framebuffer option \<Rightarrow> nat \<Rightarrow> console_state \<Rightarrow>
     console_resize_result \<times> console_state" where
  "console_resize font now memory_available presented framebuffer scale st =
     (if \<not> c_mutex st then (CONSOLE_RESIZE_FAILED, st)
      else
        (case c_terminal st of
           None \<Rightarrow> (CONSOLE_RESIZE_FAILED, st)
         | Some t \<Rightarrow>
             (case terminal_resize font memory_available t framebuffer scale of
                (False, t') \<Rightarrow> (CONSOLE_RESIZE_FAILED, st\<lparr>c_terminal := Some t'\<rparr>)
              | (True, t') \<Rightarrow>
                  (let st = st\<lparr>c_terminal := Some t'\<rparr>;
                       st = (if c_foreground_token st \<noteq> 0 then snd (restart_cursor_blink font now st) else st);
                       (shown, st) = present_console presented st
                   in (if shown then CONSOLE_RESIZE_OK else CONSOLE_RESIZE_PRESENT_FAILED, st)))))"

definition console_write_panic ::
    "font_table \<Rightarrow> bool \<Rightarrow> u8 list option \<Rightarrow> console_state \<Rightarrow> bool \<times> console_state" where
  "console_write_panic font presented text st =
     (case text of
        None \<Rightarrow> (False, st)
      | Some text \<Rightarrow>
          if \<not> c_mutex st then (False, st)
          else if c_terminal st = None then (False, st)
          else
            (let st = on_terminal (\<lambda>t.
                   terminal_clear font
                     (terminal_set_colors
                       ((terminal_set_cursor_visible font (terminal_set_rendering_enabled font t True) False)
                          \<lparr>t_ansi_state := 0, t_reverse := False\<rparr>)
                       0xffff 0)) (st\<lparr>c_graphics_active := False\<rparr>);
                 st = capture_bytes [0x0a] (capture_bytes text st);
                 st = on_terminal (\<lambda>t. terminal_write_line font t text) st;
                 (shown, st) = present_console presented st
             in (shown, console_notify (RUNTIME_EVENT_DEADLINE + RUNTIME_EVENT_POWER) st)))"

definition console_shutdown :: "console_state \<Rightarrow> console_state" where
  "console_shutdown st =
     (let st = console_capture_stop st
      in if \<not> c_mutex st then st
         else st\<lparr>c_terminal := None, c_foreground_token := 0, c_cursor_timer := timer_cleared, c_mutex := False\<rparr>)"

section \<open>Sessions\<close>

definition tabos_console_acquire ::
    "font_table \<Rightarrow> u64 \<Rightarrow> bool \<Rightarrow> console_session \<Rightarrow> console_state \<Rightarrow> bool \<times> console_session \<times> console_state" where
  "tabos_console_acquire font now presented session st =
     (case session of
        None \<Rightarrow> (False, None, st)
      | Some _ \<Rightarrow>
          if c_terminal st = None \<or> c_foreground_token st \<noteq> 0 then (False, Some 0, st)
          else
            (let st = (if c_next_token st = 0 then st\<lparr>c_next_token := c_next_token st + 1\<rparr> else st);
                 st = st\<lparr>c_input := input_reset False (c_input st)\<rparr>;
                 st = st\<lparr>c_foreground_token := c_next_token st, c_next_token := c_next_token st + 1\<rparr>;
                 token = c_foreground_token st;
                 st = on_terminal (\<lambda>t. terminal_set_cursor_visible font t True) st;
                 st = snd (restart_cursor_blink font now st);
                 (shown, st) = present_console presented st
             in if \<not> shown
                then (False, Some 0, (on_terminal (\<lambda>t. terminal_set_cursor_visible font t False) st)
                        \<lparr>c_foreground_token := 0, c_cursor_timer := timer_cleared\<rparr>)
                else (True, Some token, st)))"

definition tabos_console_release ::
    "font_table \<Rightarrow> bool \<Rightarrow> console_session \<Rightarrow> console_state \<Rightarrow> console_session \<times> console_state" where
  "tabos_console_release font presented session st =
     (case session of
        None \<Rightarrow> (None, st)
      | Some _ \<Rightarrow>
          if owns_console session st then
            (let st = on_terminal (\<lambda>t. terminal_set_cursor_visible font
                   (terminal_set_colors (t\<lparr>t_ansi_state := 0, t_reverse := False\<rparr>) 0xffff 0) False) st;
                 st = snd (present_console presented (st\<lparr>c_cursor_timer := timer_cleared\<rparr>));
                 st = st\<lparr>c_input := input_reset False (c_input st), c_foreground_token := 0\<rparr>
             in (Some 0, console_notify RUNTIME_EVENT_DEADLINE st))
          else (Some 0, st))"

definition tabos_console_is_foreground :: "console_session \<Rightarrow> console_state \<Rightarrow> bool" where
  "tabos_console_is_foreground session st \<longleftrightarrow> owns_console session st \<and> c_terminal st \<noteq> None"

definition tabos_console_write_bytes ::
    "font_table \<Rightarrow> u64 \<Rightarrow> bool \<Rightarrow> console_session \<Rightarrow> u8 list option \<Rightarrow> nat \<Rightarrow> console_state \<Rightarrow> bool \<times> console_state" where
  "tabos_console_write_bytes font now presented session data count st =
     (if data = None \<and> count \<noteq> 0 then (False, st)
      else if \<not> owns_console session st \<or> c_terminal st = None then (False, st)
      else
        (let bytes = (case data of None \<Rightarrow> [] | Some bytes \<Rightarrow> take count bytes);
             st = capture_bytes bytes st;
             st = on_terminal (\<lambda>t. terminal_write_bytes font t bytes) st
         in present_console presented (snd (restart_cursor_blink font now st))))"

definition tabos_console_write ::
    "font_table \<Rightarrow> u64 \<Rightarrow> bool \<Rightarrow> console_session \<Rightarrow> u8 list option \<Rightarrow> console_state \<Rightarrow> bool \<times> console_state" where
  "tabos_console_write font now presented session text st =
     (case text of
        None \<Rightarrow> (False, st)
      | Some text \<Rightarrow> tabos_console_write_bytes font now presented session (Some text) (length text) st)"

definition tabos_console_write_line ::
    "font_table \<Rightarrow> u64 \<Rightarrow> bool \<Rightarrow> console_session \<Rightarrow> u8 list option \<Rightarrow> console_state \<Rightarrow> bool \<times> console_state" where
  "tabos_console_write_line font now presented session text st =
     (case text of
        None \<Rightarrow> (False, st)
      | Some text \<Rightarrow>
          if \<not> owns_console session st \<or> c_terminal st = None then (False, st)
          else
            (let st = capture_bytes [0x0a] (capture_bytes text st);
                 st = on_terminal (\<lambda>t. terminal_write_line font t text) st
             in present_console presented (snd (restart_cursor_blink font now st))))"

definition tabos_console_clear ::
    "font_table \<Rightarrow> u64 \<Rightarrow> bool \<Rightarrow> console_session \<Rightarrow> console_state \<Rightarrow> bool \<times> console_state" where
  "tabos_console_clear font now presented session st =
     (if \<not> owns_console session st \<or> c_terminal st = None then (False, st)
      else
        present_console presented (snd (restart_cursor_blink font now (on_terminal (terminal_clear font) st))))"

definition tabos_console_get_cursor :: "bool \<Rightarrow> console_session \<Rightarrow> console_state \<Rightarrow> (nat \<times> nat) option" where
  "tabos_console_get_cursor outputs session st =
     (if \<not> outputs then None
      else if \<not> owns_console session st then None
      else
        (case c_terminal st of None \<Rightarrow> None | Some t \<Rightarrow> Some (t_column t, t_row t)))"

definition update_viewport ::
    "bool \<Rightarrow> console_session \<Rightarrow> (terminal \<Rightarrow> bool \<times> terminal) \<Rightarrow> console_state \<Rightarrow> bool \<times> console_state" where
  "update_viewport presented session operation st =
     (case c_terminal st of
        None \<Rightarrow> (False, st)
      | Some t \<Rightarrow>
          if \<not> owns_console session st \<or> c_graphics_active st then (False, st)
          else
            (case operation t of
               (False, t') \<Rightarrow> (False, st\<lparr>c_terminal := Some t'\<rparr>)
             | (True, t') \<Rightarrow> present_console presented (st\<lparr>c_terminal := Some t'\<rparr>)))"

definition tabos_console_scroll_lines ::
    "font_table \<Rightarrow> bool \<Rightarrow> console_session \<Rightarrow> int \<Rightarrow> console_state \<Rightarrow> bool \<times> console_state" where
  "tabos_console_scroll_lines font presented session lines st =
     (case c_terminal st of
        None \<Rightarrow> (False, st)
      | Some t \<Rightarrow>
          if \<not> owns_console session st \<or> c_graphics_active st then (False, st)
          else
            (case terminal_scroll_lines font t lines of
               (False, t') \<Rightarrow> (False, st\<lparr>c_terminal := Some t'\<rparr>)
             | (True, t') \<Rightarrow> present_console presented (st\<lparr>c_terminal := Some t'\<rparr>)))"

definition tabos_console_page_up ::
    "font_table \<Rightarrow> bool \<Rightarrow> console_session \<Rightarrow> console_state \<Rightarrow> bool \<times> console_state" where
  "tabos_console_page_up font presented session st =
     update_viewport presented session (terminal_page_up font) st"

definition tabos_console_page_down ::
    "font_table \<Rightarrow> bool \<Rightarrow> console_session \<Rightarrow> console_state \<Rightarrow> bool \<times> console_state" where
  "tabos_console_page_down font presented session st =
     update_viewport presented session (terminal_page_down font) st"

definition tabos_console_scroll_to_start ::
    "font_table \<Rightarrow> bool \<Rightarrow> console_session \<Rightarrow> console_state \<Rightarrow> bool \<times> console_state" where
  "tabos_console_scroll_to_start font presented session st =
     update_viewport presented session (terminal_scroll_to_start font) st"

definition tabos_console_scroll_to_end ::
    "font_table \<Rightarrow> bool \<Rightarrow> console_session \<Rightarrow> console_state \<Rightarrow> bool \<times> console_state" where
  "tabos_console_scroll_to_end font presented session st =
     update_viewport presented session (terminal_scroll_to_end font) st"

definition tabos_console_is_at_end :: "console_session \<Rightarrow> console_state \<Rightarrow> bool" where
  "tabos_console_is_at_end session st \<longleftrightarrow>
     owns_console session st \<and> (case c_terminal st of None \<Rightarrow> False | Some t \<Rightarrow> terminal_is_at_end t)"

definition tabos_console_get_history_line_count :: "bool \<Rightarrow> console_session \<Rightarrow> console_state \<Rightarrow> nat option" where
  "tabos_console_get_history_line_count output session st =
     (if \<not> output then None
      else if \<not> owns_console session st then None
      else map_option terminal_history_line_count (c_terminal st))"

definition console_get_size :: "bool \<Rightarrow> console_session \<Rightarrow> console_state \<Rightarrow> (u32 \<times> u32) option" where
  "console_get_size output session st =
     (if output \<and> owns_console session st
      then map_option (\<lambda>t. (of_nat (t_rows t), of_nat (t_columns t))) (c_terminal st)
      else None)"

section \<open>Input\<close>

definition tabos_console_poll ::
    "font_table \<Rightarrow> u64 \<Rightarrow> console_session \<Rightarrow> bool \<Rightarrow> console_state \<Rightarrow>
     tabos_input_event option \<times> console_state" where
  "tabos_console_poll font now session event st =
     (if \<not> owns_console session st \<or> c_terminal st = None then (None, st)
      else
        (case tabos_input_poll event (c_input st) of
           (None, queue) \<Rightarrow> (None, st\<lparr>c_input := queue\<rparr>)
         | (Some e, queue) \<Rightarrow> (Some e, snd (restart_cursor_blink font now (st\<lparr>c_input := queue\<rparr>)))))"

text \<open>
  Waiting polls until an event is there or the session is no longer in the foreground. \<open>others\<close> is
  what the rest of the system does during each wait; when it runs out the caller still waits.
\<close>

fun tabos_console_wait ::
    "font_table \<Rightarrow> u64 \<Rightarrow> console_session \<Rightarrow> bool \<Rightarrow> (console_state \<Rightarrow> console_state) list \<Rightarrow> console_state \<Rightarrow>
     (tabos_input_event option \<times> console_state) option" where
  "tabos_console_wait font now session event others st =
     (if \<not> event then Some (None, st)
      else if \<not> owns_console session st \<or> c_terminal st = None then Some (None, st)
      else
        (case tabos_console_poll font now session True st of
           (Some e, st') \<Rightarrow> Some (Some e, st')
         | (None, st') \<Rightarrow>
             (case others of
                [] \<Rightarrow> None
              | other # others \<Rightarrow> tabos_console_wait font now session event others (other st'))))"

section \<open>Time and graphics mode\<close>

definition console_update :: "font_table \<Rightarrow> u64 \<Rightarrow> bool \<Rightarrow> console_state \<Rightarrow> console_state" where
  "console_update font now presented st =
     (if \<not> c_graphics_active st \<and> c_terminal st \<noteq> None \<and> c_foreground_token st \<noteq> 0 then
        (let (fired, timer) = timer_polled now (c_cursor_timer st);
             st = st\<lparr>c_cursor_timer := timer\<rparr>
         in if fired then
              (let phase = (\<not> c_cursor_phase_visible st);
                   st = on_terminal (\<lambda>t. terminal_set_cursor_phase font t phase)
                          (st\<lparr>c_cursor_phase_visible := phase\<rparr>)
               in snd (present_console presented st))
            else st)
      else st)"

definition console_next_deadline :: "console_state \<Rightarrow> u64" where
  "console_next_deadline st =
     (if \<not> c_graphics_active st \<and> c_terminal st \<noteq> None \<and> c_foreground_token st \<noteq> 0
      then timer_deadline (c_cursor_timer st)
      else TIME_DEADLINE_NONE)"

definition console_set_graphics_active :: "font_table \<Rightarrow> u64 \<Rightarrow> bool \<Rightarrow> bool \<Rightarrow> console_state \<Rightarrow> console_state" where
  "console_set_graphics_active font now presented active st =
     (if c_graphics_active st = active \<or> c_terminal st = None then st
      else
        (let st = st\<lparr>c_graphics_active := active\<rparr>;
             st =
               (if active then
                  (let st = on_terminal (\<lambda>t. terminal_set_rendering_enabled font t False) st
                   in on_terminal (\<lambda>t. terminal_set_cursor_visible font t False) (st\<lparr>c_cursor_timer := timer_cleared\<rparr>))
                else
                  (let st = on_terminal (\<lambda>t. terminal_set_rendering_enabled font t True) st;
                       st = (if c_foreground_token st \<noteq> 0
                         then snd (restart_cursor_blink font now
                           (on_terminal (\<lambda>t. terminal_set_cursor_visible font t True) st))
                         else st)
                   in snd (present_console presented (on_terminal (terminal_redraw font) st))))
         in console_notify (RUNTIME_EVENT_DEADLINE + RUNTIME_EVENT_POWER) st))"

definition console_graphics_active :: "console_state \<Rightarrow> bool" where
  "console_graphics_active st = c_graphics_active st"

section \<open>Clients and the system around them\<close>

text \<open>
  A client acts on its own session; the rest of the system updates the cursor, switches graphics
  mode, resizes the screen, reports a panic, captures output and submits key events.
\<close>

datatype session_op =
    SAcquire
  | SRelease
  | SWriteBytes "u8 list option" nat
  | SWrite "u8 list option"
  | SWriteLine "u8 list option"
  | SClear
  | SScrollLines int
  | SPageUp
  | SPageDown
  | SScrollToStart
  | SScrollToEnd
  | SPoll bool

fun session_step ::
    "font_table \<Rightarrow> u64 \<Rightarrow> bool \<Rightarrow> session_op \<Rightarrow> console_session \<Rightarrow> console_state \<Rightarrow>
     console_session \<times> (bool \<times> tabos_input_event option) \<times> console_state" where
  "session_step font now presented SAcquire s st =
     (case tabos_console_acquire font now presented s st of (r, s', st') \<Rightarrow> (s', (r, None), st'))"
| "session_step font now presented SRelease s st =
     (case tabos_console_release font presented s st of (s', st') \<Rightarrow> (s', (False, None), st'))"
| "session_step font now presented (SWriteBytes data count) s st =
     (case tabos_console_write_bytes font now presented s data count st of (r, st') \<Rightarrow> (s, (r, None), st'))"
| "session_step font now presented (SWrite text) s st =
     (case tabos_console_write font now presented s text st of (r, st') \<Rightarrow> (s, (r, None), st'))"
| "session_step font now presented (SWriteLine text) s st =
     (case tabos_console_write_line font now presented s text st of (r, st') \<Rightarrow> (s, (r, None), st'))"
| "session_step font now presented SClear s st =
     (case tabos_console_clear font now presented s st of (r, st') \<Rightarrow> (s, (r, None), st'))"
| "session_step font now presented (SScrollLines lines) s st =
     (case tabos_console_scroll_lines font presented s lines st of (r, st') \<Rightarrow> (s, (r, None), st'))"
| "session_step font now presented SPageUp s st =
     (case tabos_console_page_up font presented s st of (r, st') \<Rightarrow> (s, (r, None), st'))"
| "session_step font now presented SPageDown s st =
     (case tabos_console_page_down font presented s st of (r, st') \<Rightarrow> (s, (r, None), st'))"
| "session_step font now presented SScrollToStart s st =
     (case tabos_console_scroll_to_start font presented s st of (r, st') \<Rightarrow> (s, (r, None), st'))"
| "session_step font now presented SScrollToEnd s st =
     (case tabos_console_scroll_to_end font presented s st of (r, st') \<Rightarrow> (s, (r, None), st'))"
| "session_step font now presented (SPoll event) s st =
     (case tabos_console_poll font now s event st of (e, st') \<Rightarrow> (s, (e \<noteq> None, e), st'))"

datatype console_op =
    Client nat session_op
  | Update
  | SetGraphics bool
  | Resize bool "framebuffer option" nat
  | Panic "u8 list option"
  | CaptureStart bool
  | CaptureRead bool nat
  | CaptureStop
  | KeyEvent "tabos_input_event option"

type_synonym console_world = "(nat \<Rightarrow> console_session) \<times> console_state"

fun console_step :: "font_table \<Rightarrow> u64 \<times> bool \<times> console_op \<Rightarrow> console_world \<Rightarrow> console_world" where
  "console_step font (now, presented, Client i operation) (sessions, st) =
     (case session_step font now presented operation (sessions i) st of
        (s, result, st') \<Rightarrow> (sessions(i := s), st'))"
| "console_step font (now, presented, Update) (sessions, st) =
     (sessions, console_update font now presented st)"
| "console_step font (now, presented, SetGraphics active) (sessions, st) =
     (sessions, console_set_graphics_active font now presented active st)"
| "console_step font (now, presented, Resize memory_available fb scale) (sessions, st) =
     (sessions, snd (console_resize font now memory_available presented fb scale st))"
| "console_step font (now, presented, Panic text) (sessions, st) =
     (sessions, snd (console_write_panic font presented text st))"
| "console_step font (now, presented, CaptureStart memory_available) (sessions, st) =
     (sessions, snd (console_capture_start memory_available st))"
| "console_step font (now, presented, CaptureRead outputs capacity) (sessions, st) =
     (sessions, snd (console_capture_read outputs capacity st))"
| "console_step font (now, presented, CaptureStop) (sessions, st) =
     (sessions, console_capture_stop st)"
| "console_step font (now, presented, KeyEvent event) (sessions, st) =
     (sessions, st\<lparr>c_input := snd (input_submit now event (c_input st))\<rparr>)"

definition console_run :: "font_table \<Rightarrow> (u64 \<times> bool \<times> console_op) list \<Rightarrow> console_world \<Rightarrow> console_world" where
  "console_run font ops w = fold (console_step font) ops w"

section \<open>Ownership\<close>

text \<open>What the helpers leave alone.\<close>

lemma on_terminal_fields [simp]:
  "c_foreground_token (on_terminal f st) = c_foreground_token st"
  "c_graphics_active (on_terminal f st) = c_graphics_active st"
  "c_input (on_terminal f st) = c_input st"
  "c_cursor_timer (on_terminal f st) = c_cursor_timer st"
  "c_terminal (on_terminal f st) = map_option f (c_terminal st)"
  by (simp_all add: on_terminal_def)

lemma notify_fields [simp]:
  "c_foreground_token (console_notify events st) = c_foreground_token st"
  "c_graphics_active (console_notify events st) = c_graphics_active st"
  "c_input (console_notify events st) = c_input st"
  "c_terminal (console_notify events st) = c_terminal st"
  "c_cursor_timer (console_notify events st) = c_cursor_timer st"
  by (simp_all add: console_notify_def)

lemma capture_fields [simp]:
  "c_foreground_token (capture_bytes bytes st) = c_foreground_token st"
  "c_graphics_active (capture_bytes bytes st) = c_graphics_active st"
  "c_input (capture_bytes bytes st) = c_input st"
  "c_terminal (capture_bytes bytes st) = c_terminal st"
  "c_cursor_timer (capture_bytes bytes st) = c_cursor_timer st"
  by (simp_all add: capture_bytes_def Let_def split: option.split)

lemma present_fields [simp]:
  "c_foreground_token (snd (present_console presented st)) = c_foreground_token st"
  "c_graphics_active (snd (present_console presented st)) = c_graphics_active st"
  "c_input (snd (present_console presented st)) = c_input st"
  "c_terminal (snd (present_console presented st)) = c_terminal st"
  "c_cursor_timer (snd (present_console presented st)) = c_cursor_timer st"
  by (simp_all add: present_console_def)

lemma restart_fields [simp]:
  "c_foreground_token (snd (restart_cursor_blink font now st)) = c_foreground_token st"
  "c_graphics_active (snd (restart_cursor_blink font now st)) = c_graphics_active st"
  "c_input (snd (restart_cursor_blink font now st)) = c_input st"
  "c_terminal (snd (restart_cursor_blink font now st)) =
     (if c_graphics_active st then c_terminal st
      else map_option (\<lambda>t. terminal_set_cursor_phase font t True) (c_terminal st))"
  by (simp_all add: restart_cursor_blink_def Let_def)


definition one_owner :: "console_world \<Rightarrow> bool" where
  "one_owner w \<longleftrightarrow>
     (\<forall>i token. fst w i = Some token \<and> token \<noteq> 0 \<longrightarrow> token = c_foreground_token (snd w)) \<and>
     (\<forall>i j a b. fst w i = Some a \<and> a \<noteq> 0 \<and> fst w j = Some b \<and> b \<noteq> 0 \<longrightarrow> i = j)"

lemma acquire_token:
  assumes "tabos_console_acquire font now presented session st = (r, session', st')"
  shows "(r \<and> c_foreground_token st = 0 \<and> session' = Some (c_foreground_token st') \<and> c_foreground_token st' \<noteq> 0) \<or>
    (\<not> r \<and> session' = map_option (\<lambda>token. 0) session \<and> c_foreground_token st' = c_foreground_token st)"
proof (cases "session = None \<or> c_terminal st = None \<or> c_foreground_token st \<noteq> 0")
  case True
  then show ?thesis using assms by (auto simp: tabos_console_acquire_def split: option.splits)
next
  case False
  define a where "a = (if c_next_token st = 0 then st\<lparr>c_next_token := c_next_token st + 1\<rparr> else st)"
  define b where "b = a\<lparr>c_input := input_reset False (c_input a), c_foreground_token := c_next_token a,
    c_next_token := c_next_token a + 1\<rparr>"
  define c where "c = present_console presented (snd (restart_cursor_blink font now
    (on_terminal (\<lambda>t. terminal_set_cursor_visible font t True) b)))"
  have token: "c_foreground_token (snd c) = c_next_token a" by (simp add: c_def b_def)
  have nonzero: "c_next_token a \<noteq> 0" by (simp add: a_def)
  have "tabos_console_acquire font now presented session st =
      (if \<not> fst c then (False, Some 0, (on_terminal (\<lambda>t. terminal_set_cursor_visible font t False) (snd c))
          \<lparr>c_foreground_token := 0, c_cursor_timer := timer_cleared\<rparr>)
       else (True, Some (c_next_token a), snd c))"
    using False unfolding tabos_console_acquire_def
    by (auto simp: c_def b_def a_def Let_def split: option.split prod.split)
  then show ?thesis using assms token nonzero False by (auto split: if_splits)
qed

lemma release_token:
  assumes "tabos_console_release font presented session st = (session', st')"
  shows "session' = map_option (\<lambda>token. 0) session"
    and "c_foreground_token st' = (if owns_console session st then 0 else c_foreground_token st)"
  using assms by (auto simp: tabos_console_release_def owns_console_def Let_def split: option.splits if_splits)

lemma session_step_token:
  assumes "session_step font now presented operation session st = (session', result, st')"
    and "operation \<noteq> SAcquire" "operation \<noteq> SRelease"
  shows "session' = session" and "c_foreground_token st' = c_foreground_token st"
  using assms
  by (cases operation;
      auto simp: tabos_console_write_bytes_def tabos_console_write_def tabos_console_write_line_def
        tabos_console_clear_def tabos_console_scroll_lines_def update_viewport_def tabos_console_page_up_def
        tabos_console_page_down_def tabos_console_scroll_to_start_def tabos_console_scroll_to_end_def
        tabos_console_poll_def Let_def present_console_def
      split: option.splits prod.splits if_splits bool.splits)+
lemma system_step_token:
  assumes "\<not> (\<exists>i operation. op = Client i operation)"
  shows "fst (console_step font (now, presented, op) (sessions, st)) = sessions"
    and "c_foreground_token (snd (console_step font (now, presented, op) (sessions, st))) = c_foreground_token st"
proof -
  have "c_foreground_token (console_set_graphics_active font now presented active st) = c_foreground_token st" for active
    by (simp add: console_set_graphics_active_def Let_def)
  moreover have "c_foreground_token (console_update font now presented st) = c_foreground_token st"
    by (simp add: console_update_def Let_def split: prod.split)
  moreover have "c_foreground_token (snd (console_resize font now available presented fb scale st)) =
      c_foreground_token st" for available fb scale
    by (simp add: console_resize_def Let_def present_console_def split: option.split prod.split bool.split)
  moreover have "c_foreground_token (snd (console_write_panic font presented report st)) = c_foreground_token st" for report
    by (auto simp: console_write_panic_def Let_def present_console_def split: option.split prod.split)
  ultimately show "fst (console_step font (now, presented, op) (sessions, st)) = sessions"
    and "c_foreground_token (snd (console_step font (now, presented, op) (sessions, st))) = c_foreground_token st"
    using assms
    by (cases op; simp add: console_capture_start_def console_capture_read_def console_capture_stop_def Let_def)+
qed

lemma one_ownerD:
  assumes "one_owner w" and "owns_console (fst w i) (snd w)" and "owns_console (fst w j) (snd w)"
  shows "i = j"
proof -
  obtain a b where "fst w i = Some a" "a \<noteq> 0" "fst w j = Some b" "b \<noteq> 0"
    using assms(2,3) by (auto simp: owns_console_def split: option.splits)
  then show ?thesis using assms(1) unfolding one_owner_def by metis
qed

lemma one_owner_step:
  assumes "one_owner w"
  shows "one_owner (console_step font operation w)"
proof -
  obtain now presented op where operation: "operation = (now, presented, op)" by (cases operation) auto
  obtain sessions st where w: "w = (sessions, st)" by (cases w) auto
  have mine: "token = c_foreground_token st" if "sessions i = Some token" "token \<noteq> 0" for i token
    using assms that by (auto simp: one_owner_def w)
  have unique: "i = j" if "sessions i = Some a" "a \<noteq> 0" "sessions j = Some b" "b \<noteq> 0" for i j a b
    using assms that unfolding one_owner_def w by (metis fst_conv)
  show ?thesis
  proof (cases "\<exists>i operation. op = Client i operation")
    case False
    then show ?thesis
      using assms system_step_token [OF False, of font now presented sessions st]
      unfolding operation w one_owner_def by simp
  next
    case True
    then obtain i client where op: "op = Client i client" by blast
    obtain s result st' where step: "session_step font now presented client (sessions i) st = (s, result, st')"
      by (metis prod_cases3)
    have after: "console_step font operation w = (sessions(i := s), st')"
      by (simp add: operation w op step)
    consider "client = SAcquire" | "client = SRelease" | "client \<noteq> SAcquire" "client \<noteq> SRelease" by blast
    then show ?thesis
    proof cases
      case 1
      obtain r where acquire: "tabos_console_acquire font now presented (sessions i) st = (r, s, st')"
        using step 1 by (auto split: prod.splits)
      show ?thesis
        using acquire_token [OF acquire] mine unique unfolding one_owner_def after
        by (auto split: if_splits)
    next
      case 2
      then have "s = map_option (\<lambda>token. 0) (sessions i)"
        and "c_foreground_token st' = (if owns_console (sessions i) st then 0 else c_foreground_token st)"
        using release_token [of font presented "sessions i" st s st'] step by (auto split: prod.splits)
      note s = this
      have other: "k \<noteq> i \<and> sessions k = Some token \<and> \<not> owns_console (sessions i) st"
        if "(sessions(i := s)) k = Some token" "token \<noteq> 0" for k token
      proof -
        have k: "k \<noteq> i" "sessions k = Some token" using that s(1) by (auto split: if_splits)
        have "\<not> owns_console (sessions i) st"
        proof
          assume "owns_console (sessions i) st"
          then obtain a where "sessions i = Some a" "a \<noteq> 0" by (auto simp: owns_console_def split: option.splits)
          then show False using unique k that(2) by blast
        qed
        then show ?thesis using k by simp
      qed
      show ?thesis unfolding one_owner_def after fst_conv snd_conv
      proof (intro conjI allI impI)
        fix k token
        assume h: "(sessions(i := s)) k = Some token \<and> token \<noteq> 0"
        then have "sessions k = Some token" "\<not> owns_console (sessions i) st" using other by blast+
        then show "token = c_foreground_token st'" using h mine s(2) by simp
      next
        fix k l a b
        assume h: "(sessions(i := s)) k = Some a \<and> a \<noteq> 0 \<and> (sessions(i := s)) l = Some b \<and> b \<noteq> 0"
        then have "sessions k = Some a" using other by blast
        moreover have "sessions l = Some b" using h other by blast
        ultimately show "k = l" using h unique by blast
      qed
    next
      case 3
      then have "s = sessions i" and "c_foreground_token st' = c_foreground_token st"
        using session_step_token [OF step] by simp_all
      then have "console_step font operation w = (sessions, st')" using after by simp
      then show ?thesis using assms \<open>c_foreground_token st' = c_foreground_token st\<close> by (simp add: one_owner_def w)
    qed
  qed
qed

lemma one_owner_run: "one_owner w \<Longrightarrow> one_owner (console_run font ops w)"
  unfolding console_run_def by (induction ops arbitrary: w) (simp_all add: one_owner_step)

text \<open>
  C27. However clients claim, use and release the console, and whatever the system does in between,
  at most one of them is ever in the foreground, even after the token counter has wrapped around.
\<close>

theorem console_one_owner:
  assumes "\<forall>i. sessions i = None \<or> sessions i = Some 0"
    and "console_run font ops (sessions, st) = (sessions', st')"
    and "tabos_console_is_foreground (sessions' i) st'" and "tabos_console_is_foreground (sessions' j) st'"
  shows "i = j"
proof -
  have "\<not> (sessions k = Some token \<and> token \<noteq> 0)" for k token
    using assms(1) by (metis option.inject option.distinct(1))
  then have "one_owner (sessions, st)" unfolding one_owner_def fst_conv snd_conv by blast
  then have "one_owner (sessions', st')" using assms(2) one_owner_run [of "(sessions, st)" font ops] by simp
  then show ?thesis using assms(3,4) one_ownerD [of "(sessions', st')" i j]
    by (simp add: tabos_console_is_foreground_def)
qed

section \<open>Graphics mode\<close>

fun keeps_graphics :: "u64 \<times> bool \<times> console_op \<Rightarrow> bool" where
  "keeps_graphics (now, presented, SetGraphics active) \<longleftrightarrow> active"
| "keeps_graphics (now, presented, Panic report) \<longleftrightarrow> False"
| "keeps_graphics (now, presented, Resize memory_available fb scale) \<longleftrightarrow> False"
| "keeps_graphics operation \<longleftrightarrow> True"

definition frames :: "console_state \<Rightarrow> nat" where
  "frames st = length (filter (\<lambda>call. call = FramePresent) (c_log st))"

definition screen_left_alone :: "framebuffer option \<Rightarrow> nat \<Rightarrow> console_state \<Rightarrow> bool" where
  "screen_left_alone fb n st \<longleftrightarrow>
     c_graphics_active st \<and> (\<exists>t. c_terminal st = Some t \<and> picture t = (fb, False)) \<and> frames st = n"

lemma left_alone_terminal:
  assumes "screen_left_alone fb n st" and "\<And>t. \<not> t_rendering_enabled t \<Longrightarrow> picture (f t) = picture t"
  shows "screen_left_alone fb n (on_terminal f st)"
  using assms by (auto simp: screen_left_alone_def frames_def on_terminal_def picture_def)

lemma left_alone_frame [simp]:
  "screen_left_alone fb n (st\<lparr>c_foreground_token := token\<rparr>) = screen_left_alone fb n st"
  "screen_left_alone fb n (st\<lparr>c_next_token := token\<rparr>) = screen_left_alone fb n st"
  "screen_left_alone fb n (st\<lparr>c_cursor_timer := timer\<rparr>) = screen_left_alone fb n st"
  "screen_left_alone fb n (st\<lparr>c_cursor_phase_visible := b\<rparr>) = screen_left_alone fb n st"
  "screen_left_alone fb n (st\<lparr>c_capture := buffer\<rparr>) = screen_left_alone fb n st"
  "screen_left_alone fb n (st\<lparr>c_capture_overflow := b\<rparr>) = screen_left_alone fb n st"
  "screen_left_alone fb n (st\<lparr>c_input := queue\<rparr>) = screen_left_alone fb n st"
  "screen_left_alone fb n (console_notify events st) = screen_left_alone fb n st"
  "screen_left_alone fb n (capture_bytes bytes st) = screen_left_alone fb n st"
  by (auto simp: screen_left_alone_def frames_def console_notify_def capture_bytes_def Let_def split: option.split)

lemma left_alone_present:
  "screen_left_alone fb n st \<Longrightarrow> present_console presented st = (True, st)"
  by (simp add: screen_left_alone_def present_console_def)

lemma left_alone_restart:
  "screen_left_alone fb n st \<Longrightarrow> snd (restart_cursor_blink font now st) = st\<lparr>c_cursor_phase_visible := True\<rparr>"
  by (simp add: screen_left_alone_def restart_cursor_blink_def Let_def)

lemma left_alone_active: "screen_left_alone fb n st \<Longrightarrow> c_graphics_active st"
  by (simp add: screen_left_alone_def)

lemma left_alone_acquire:
  assumes "screen_left_alone fb n st"
  shows "screen_left_alone fb n (snd (snd (tabos_console_acquire font now presented session st)))"
proof (cases "session = None \<or> c_terminal st = None \<or> c_foreground_token st \<noteq> 0")
  case True
  then show ?thesis using assms by (auto simp: tabos_console_acquire_def split: option.split)
next
  case False
  define a where "a = (if c_next_token st = 0 then st\<lparr>c_next_token := c_next_token st + 1\<rparr> else st)"
  define b where "b = on_terminal (\<lambda>t. terminal_set_cursor_visible font t True)
    (a\<lparr>c_input := input_reset False (c_input a), c_foreground_token := c_next_token a,
       c_next_token := c_next_token a + 1\<rparr>)"
  define c where "c = present_console presented (snd (restart_cursor_blink font now b))"
  have "screen_left_alone fb n a" using assms by (simp add: a_def)
  then have b: "screen_left_alone fb n b"
    unfolding b_def by (intro left_alone_terminal) (simp_all add: hidden_operations)
  then have c: "c = (True, b\<lparr>c_cursor_phase_visible := True\<rparr>)"
    unfolding c_def left_alone_restart [OF b] by (intro left_alone_present) simp
  have "snd (snd (tabos_console_acquire font now presented session st)) =
      (if \<not> fst c then (on_terminal (\<lambda>t. terminal_set_cursor_visible font t False) (snd c))
          \<lparr>c_foreground_token := 0, c_cursor_timer := timer_cleared\<rparr> else snd c)"
    using False unfolding tabos_console_acquire_def
    by (auto simp: c_def b_def a_def Let_def split: option.split prod.split)
  then show ?thesis using b c by simp
qed

lemma left_alone_release:
  assumes "screen_left_alone fb n st"
  shows "screen_left_alone fb n (snd (tabos_console_release font presented session st))"
proof -
  define a where "a = on_terminal (\<lambda>t. terminal_set_cursor_visible font
      (terminal_set_colors (t\<lparr>t_ansi_state := 0, t_reverse := False\<rparr>) 0xffff 0) False) st"
  have "screen_left_alone fb n a"
    unfolding a_def using assms
    by (intro left_alone_terminal) (simp_all add: hidden_operations picture_hidden)
  then show ?thesis using assms left_alone_present [of fb n "a\<lparr>c_cursor_timer := timer_cleared\<rparr>" presented]
    by (auto simp: tabos_console_release_def a_def [symmetric] Let_def split: option.split)
qed

lemma left_alone_session:
  assumes "screen_left_alone fb n st"
  shows "screen_left_alone fb n (snd (snd (session_step font now presented operation session st)))"
proof -
  note active = left_alone_active [OF assms]
  have finish: "screen_left_alone fb n (snd (present_console presented (snd (restart_cursor_blink font now u))))"
    if "screen_left_alone fb n u" for u
    using that left_alone_restart [OF that, of font now] left_alone_present [of fb n "u\<lparr>c_cursor_phase_visible := True\<rparr>"]
    by simp
  have wrote: "screen_left_alone fb n (on_terminal (\<lambda>t. terminal_write_bytes font t bytes) (capture_bytes kept st))"
    and line: "screen_left_alone fb n (on_terminal (\<lambda>t. terminal_write_line font t bytes) (capture_bytes kept (capture_bytes more st)))"
    and clear: "screen_left_alone fb n (on_terminal (terminal_clear font) st)" for bytes kept more
    using assms by (intro left_alone_terminal; simp add: write_bytes_picture hidden_operations clear_picture)+
  have bytes: "screen_left_alone fb n (snd (tabos_console_write_bytes font now presented session data count st))" for data count
    using assms finish wrote by (simp add: tabos_console_write_bytes_def Let_def)
  have poll: "screen_left_alone fb n (snd (tabos_console_poll font now session event st))" for event
    using assms left_alone_restart [of fb n "st\<lparr>c_input := queue\<rparr>" font now for queue]
    by (auto simp: tabos_console_poll_def split: prod.split option.split)
  show ?thesis
  proof (cases operation)
    case SAcquire
    then show ?thesis using left_alone_acquire [OF assms, of font now presented session] by (auto split: prod.splits)
  next
    case SRelease
    then show ?thesis using left_alone_release [OF assms, of font presented session] by (auto split: prod.splits)
  next
    case (SPoll event)
    then show ?thesis using poll [of event] by (auto split: prod.splits)
  next
    case (SWriteBytes data count)
    then show ?thesis using bytes [of data count] by (auto split: prod.splits)
  next
    case (SWrite data)
    then show ?thesis using bytes [of data "length (the data)"] assms by (auto simp: tabos_console_write_def split: prod.splits option.splits)
  next
    case (SWriteLine data)
    have "screen_left_alone fb n (snd (tabos_console_write_line font now presented session data st))"
      using assms finish [OF line] by (simp add: tabos_console_write_line_def Let_def split: option.split)
    then show ?thesis using SWriteLine by (auto split: prod.splits)
  next
    case SClear
    then show ?thesis using assms finish [OF clear] by (auto simp: tabos_console_clear_def split: prod.splits if_splits)
  qed (use assms active in \<open>simp add: tabos_console_scroll_lines_def tabos_console_page_up_def
      tabos_console_page_down_def tabos_console_scroll_to_start_def tabos_console_scroll_to_end_def
      update_viewport_def split: option.split prod.split\<close>)+
qed

lemma left_alone_step:
  assumes "screen_left_alone fb n (snd w)" and "keeps_graphics operation"
  shows "screen_left_alone fb n (snd (console_step font operation w))"
proof -
  obtain now presented op where operation: "operation = (now, presented, op)" by (cases operation) auto
  obtain sessions st where w: "w = (sessions, st)" by (cases w) auto
  have st: "screen_left_alone fb n st" using assms(1) by (simp add: w)
  note active = left_alone_active [OF st]
  show ?thesis
  proof (cases op)
    case (Client i client)
    then show ?thesis
      using left_alone_session [OF st, of font now presented client "sessions i"]
      by (auto simp: operation w split: prod.splits)
  qed (use assms(2) st active in \<open>auto simp: operation w console_update_def console_set_graphics_active_def
      console_capture_start_def console_capture_read_def console_capture_stop_def Let_def\<close>)
qed

lemma left_alone_run:
  "screen_left_alone fb n (snd w) \<Longrightarrow> \<forall>operation \<in> set ops. keeps_graphics operation \<Longrightarrow>
   screen_left_alone fb n (snd (console_run font ops w))"
  unfolding console_run_def by (induction ops arbitrary: w) (simp_all add: left_alone_step)

lemma enter_graphics:
  assumes "\<not> c_graphics_active st" and "c_terminal st = Some t"
  shows "screen_left_alone (t_framebuffer t) (frames st) (console_set_graphics_active font now presented True st)"
proof -
  let ?t = "terminal_set_rendering_enabled font t False"
  have t: "picture ?t = (t_framebuffer t, False)"
    by (simp add: terminal_set_rendering_enabled_def picture_def)
  then have "picture (terminal_set_cursor_visible font ?t False) = (t_framebuffer t, False)"
    using hidden_operations(2) [of ?t font False] by (simp add: picture_def)
  then show ?thesis using assms
    by (simp add: console_set_graphics_active_def screen_left_alone_def frames_def Let_def console_notify_def on_terminal_def)
qed


section \<open>Handing the console over\<close>

lemma input_reset_empty: "queue_mutex queue \<Longrightarrow> input_contents (input_reset keep queue) = []"
  by (simp add: input_reset_def input_wake_waiter_def input_contents_def ring_contents_def Let_def)

lemma acquire_input:
  assumes "tabos_console_acquire font now presented session st = (True, session', st')"
  shows "c_input st' = input_reset False (c_input st)"
  using assms present_fields(3) [of presented]
  by (auto simp: tabos_console_acquire_def Let_def present_console_def split: option.splits prod.splits if_splits)

lemma cursor_off:
  fixes font :: font_table and f b :: pixel
  assumes "\<not> t_reverse t" and "t_ansi_state t = 0"
  defines "u \<equiv> terminal_set_cursor_visible font (terminal_set_colors t f b) False"
  shows "t_ansi_state u = 0 \<and> \<not> t_reverse u \<and> t_foreground u = f \<and> t_background u = b \<and>
    \<not> t_cursor_visible u \<and> retained_text u = retained_text t"
proof -
  have render: "t_reverse (render font v) = t_reverse v" "t_foreground (render font v) = t_foreground v"
    "t_background (render font v) = t_background v" "t_cursor_visible (render font v) = t_cursor_visible v" for v
    by (simp_all add: render_def Let_def split: option.split)
  have mark: "t_reverse (mark_cursor v) = t_reverse v" "t_foreground (mark_cursor v) = t_foreground v"
    "t_background (mark_cursor v) = t_background v" "t_cursor_visible (mark_cursor v) = t_cursor_visible v"
    "t_ansi_state (mark_cursor v) = t_ansi_state v" for v
    by (simp_all add: mark_cursor_def mark_cell_def)
  have kept: "retained_text (mark_cursor v) = retained_text v" for v
    unfolding mark_cursor_def by (metis retained_text_state(1) text_state_mark)
  show ?thesis
    using assms(1,2) by (simp add: u_def terminal_set_cursor_visible_def terminal_set_colors_def Let_def render mark kept flags_text)
qed

lemma release_clean:
  assumes "tabos_console_release font presented session st = (session', st')"
    and "owns_console session st" and "c_terminal st = Some t"
  shows "session' = Some 0 \<and> c_foreground_token st' = 0 \<and> c_input st' = input_reset False (c_input st) \<and>
    (\<exists>u. c_terminal st' = Some u \<and> t_ansi_state u = 0 \<and> \<not> t_reverse u \<and>
       t_foreground u = 0xffff \<and> t_background u = 0 \<and> \<not> t_cursor_visible u \<and>
       retained_text u = retained_text t) \<and>
    timer_deadline (c_cursor_timer st') = TIME_DEADLINE_NONE"
proof -
  obtain token where session: "session = Some token" using assms(2) by (cases session) (auto simp: owns_console_def)
  let ?u = "terminal_set_cursor_visible font (terminal_set_colors (t\<lparr>t_ansi_state := 0, t_reverse := False\<rparr>) 0xffff 0) False"
  have "retained_text (t\<lparr>t_ansi_state := 0, t_reverse := False\<rparr>) = retained_text t"
  proof -
    have "line_text (t\<lparr>t_ansi_state := 0\<rparr>) = line_text t"
      by (rule ext) (simp add: line_text_def line_cells_def line_length_def hard_break_def line_slot_def)
    then have "retained_text (t\<lparr>t_ansi_state := 0\<rparr>) = retained_text t" by (simp add: retained_text_def)
    then show ?thesis by simp
  qed
  then have u: "t_ansi_state ?u = 0 \<and> \<not> t_reverse ?u \<and> t_foreground ?u = 0xffff \<and> t_background ?u = 0 \<and>
      \<not> t_cursor_visible ?u \<and> retained_text ?u = retained_text t"
    using cursor_off [where t = "t\<lparr>t_ansi_state := 0, t_reverse := False\<rparr>" and font = font and f = "0xffff" and b = "0"] by simp
  have "c_terminal st' = Some ?u \<and> session' = Some 0 \<and> c_foreground_token st' = 0 \<and>
      c_input st' = input_reset False (c_input st) \<and> c_cursor_timer st' = timer_cleared"
    using assms session by (auto simp: tabos_console_release_def Let_def)
  then show ?thesis using u by (auto simp: timer_deadline_def timer_cleared_def)
qed

text \<open>
  The console changes hands clean. A session that acquires it is its owner and finds no key
  pressed before it came; once it releases it there is no owner, no key is left for the next one, and
  an unfinished escape sequence, the reverse attribute and the colours of the old owner are gone.
\<close>

theorem console_handover:
  assumes "queue_mutex (c_input st)" and "tabos_console_acquire font now presented session st = (True, session', st')"
    and "tabos_console_release font shown session' later = (session'', st'')"
    and "owns_console session' later" and "queue_mutex (c_input later)" and "c_terminal later = Some t"
  shows "owns_console session' st' \<and> input_contents (c_input st') = [] \<and>
    session'' = Some 0 \<and> c_foreground_token st'' = 0 \<and> input_contents (c_input st'') = [] \<and>
    (\<exists>u. c_terminal st'' = Some u \<and> t_ansi_state u = 0 \<and> \<not> t_reverse u \<and>
       t_foreground u = 0xffff \<and> t_background u = 0 \<and> \<not> t_cursor_visible u \<and>
       retained_text u = retained_text t) \<and>
    timer_deadline (c_cursor_timer st'') = TIME_DEADLINE_NONE"
proof -
  have "owns_console session' st'" using acquire_token [OF assms(2)] by (auto simp: owns_console_def)
  moreover have "input_contents (c_input st') = []"
    using acquire_input [OF assms(2)] assms(1) by (simp add: input_reset_empty)
  ultimately show ?thesis
    using release_clean [OF assms(3,4,6)] assms(5) by (auto simp: input_reset_empty)
qed

section \<open>A console at work\<close>

definition demo_console :: console_state where
  "demo_console = \<lparr>c_terminal = Some demo_terminal, c_foreground_token = 0, c_next_token = 1, c_mutex = True,
     c_cursor_timer = timer_cleared, c_cursor_phase_visible = True, c_graphics_active = False,
     c_capture = None, c_capture_overflow = False, c_input = demo_input, c_log = []\<rparr>"

definition owned_console :: console_state where
  "owned_console = snd (snd (tabos_console_acquire (\<lambda>i. 0) 0 True (Some 0) demo_console))"

lemma demo_acquire:
  "tabos_console_acquire (\<lambda>i. 0) 0 True (Some 0) demo_console = (True, Some 1, owned_console)"
  "c_foreground_token owned_console = 1" "\<exists>t. c_terminal owned_console = Some t"
  "c_input owned_console = input_reset False demo_input"
  by (simp_all add: owned_console_def tabos_console_acquire_def demo_console_def present_console_def Let_def
      restart_cursor_blink_def on_terminal_def console_notify_def)


theorem console_one_owner_witness:
  "let ops = [(0, True, Client 0 SAcquire), (0, True, Client 1 SAcquire)];
       w = console_run (\<lambda>i. 0) ops (\<lambda>i. Some 0, demo_console)
   in tabos_console_is_foreground (fst w 0) (snd w) \<and> \<not> tabos_console_is_foreground (fst w 1) (snd w)"
proof -
  define w where "w = console_run (\<lambda>i. 0) [(0, True, Client 0 SAcquire), (0, True, Client 1 SAcquire)]
    (\<lambda>i. Some 0, demo_console)"
  have w: "w = ((\<lambda>i. Some 0)(0 := Some 1, 1 := Some 0), owned_console)"
    using demo_acquire(1,2)
    by (auto simp: w_def console_run_def tabos_console_acquire_def [of _ _ _ _ owned_console])
  have "tabos_console_is_foreground (fst w 0) (snd w)"
    using demo_acquire by (auto simp: w tabos_console_is_foreground_def owns_console_def)
  moreover have "0 = j" if "tabos_console_is_foreground (fst w j) (snd w)" for j
  proof (rule console_one_owner)
    show "\<forall>i. (\<lambda>i. Some 0) i = None \<or> (\<lambda>i. Some (0 :: u32)) i = Some 0" by simp
    show "console_run (\<lambda>i. 0) [(0, True, Client 0 SAcquire), (0, True, Client 1 SAcquire)]
        (\<lambda>i. Some 0, demo_console) = (fst w, snd w)" by (simp add: w_def)
  qed (use that \<open>tabos_console_is_foreground (fst w 0) (snd w)\<close> in simp_all)
  ultimately show ?thesis using zero_neq_one unfolding w_def Let_def by blast
qed


theorem console_handover_witness:
  "\<exists>st. tabos_console_release (\<lambda>i. 0) True (Some 1) owned_console = (Some 0, st) \<and>
     input_contents (c_input st) = [] \<and> c_foreground_token st = 0"
proof -
  obtain t where t: "c_terminal owned_console = Some t" using demo_acquire(3) by blast
  obtain s st where release: "tabos_console_release (\<lambda>i. 0) True (Some 1) owned_console = (s, st)"
    by (metis surj_pair)
  have mutex: "queue_mutex (c_input demo_console)" "queue_mutex (c_input owned_console)"
    using demo_input_ok(2) by (simp_all add: demo_console_def demo_acquire(4) input_reset_def input_wake_waiter_def Let_def)
  have "owns_console (Some 1) owned_console" by (simp add: owns_console_def demo_acquire(2))
  then show ?thesis
    using console_handover [OF mutex(1) demo_acquire(1) release _ mutex(2) t] release by auto
qed

end
