(* ===== verification/PowerManager.thy ===== *)
theory PowerManager
  imports TabPrelude
begin

unbundle bit_operations_syntax

text \<open>
  The power manager of \<^verbatim>\<open>src/kernel/power.c\<close>: the idle stages of the display, and the suspension of
  registered participants in the reverse of their dependency order, with roll-back and resumption.
  The platform and the participants' callbacks are outside: an environment answers each call, and may
  answer it from everything called before (\<open>pm_log\<close> records every call out of the manager and every
  completion it takes). What a callback, or another thread during it, does with the manager's
  thread-safe functions is a list of messages. The manager is a static object of the runtime, so the
  checks for a null manager have no counterpart; the mutex exists from \<open>power_manager_init\<close> on. An
  array with its count is the list of its used elements, except \<open>dependency_order\<close> and \<open>suspended\<close>,
  which the code indexes.
\<close>

section \<open>Data\<close>

definition POWER_PARTICIPANT_CAPACITY :: nat where "POWER_PARTICIPANT_CAPACITY = 16"
definition POWER_NAME_CAPACITY :: nat where "POWER_NAME_CAPACITY = 32"
definition POWER_DEPENDENCY_CAPACITY :: nat where "POWER_DEPENDENCY_CAPACITY = 8"
definition POWER_TRACE_CAPACITY :: nat where "POWER_TRACE_CAPACITY = 64"
definition POWER_INHIBITOR_KEYBOARD :: u32 where "POWER_INHIBITOR_KEYBOARD = 1"
definition POWER_INHIBITOR_POINTER :: u32 where "POWER_INHIBITOR_POINTER = 2"
definition POWER_INHIBITOR_FULLSCREEN :: u32 where "POWER_INHIBITOR_FULLSCREEN = 4"
definition POWER_INHIBITOR_PANIC :: u32 where "POWER_INHIBITOR_PANIC = 16"
definition POWER_DEADLINE_NONE :: u64 where "POWER_DEADLINE_NONE = 0xFFFFFFFFFFFFFFFF"
definition POWER_WAKE_NONE :: u32 where "POWER_WAKE_NONE = 0"
definition POWER_EVENT_DEADLINE :: u32 where "POWER_EVENT_DEADLINE = 0x80"
definition POWER_EVENT_POWER :: u32 where "POWER_EVENT_POWER = 0x200"

datatype power_state =
    POWER_STATE_ACTIVE
  | POWER_STATE_IDLE
  | POWER_STATE_SUSPENDING
  | POWER_STATE_SUSPENDED
  | POWER_STATE_RESUMING
  | POWER_STATE_SHUTTING_DOWN

datatype power_reason =
    POWER_REASON_STARTUP
  | POWER_REASON_INACTIVITY
  | POWER_REASON_REQUEST
  | POWER_REASON_ACTIVITY
  | POWER_REASON_WAKE
  | POWER_REASON_ROLLBACK
  | POWER_REASON_SYSTEM_ACTION

datatype power_failure_code =
    POWER_FAILURE_NONE
  | POWER_FAILURE_ARGUMENT
  | POWER_FAILURE_CAPACITY
  | POWER_FAILURE_DUPLICATE
  | POWER_FAILURE_MISSING_DEPENDENCY
  | POWER_FAILURE_DEPENDENCY_CYCLE
  | POWER_FAILURE_INVALID_STATE
  | POWER_FAILURE_REGISTRATION
  | POWER_FAILURE_BLOCKED
  | POWER_FAILURE_CALLBACK
  | POWER_FAILURE_PLATFORM_PREPARE
  | POWER_FAILURE_PLATFORM_SLEEP
  | POWER_FAILURE_PLATFORM_RESTORE
  | POWER_FAILURE_BRIGHTNESS
  | POWER_FAILURE_PANEL

datatype power_callback_result = POWER_CALLBACK_SUCCESS | POWER_CALLBACK_PENDING | POWER_CALLBACK_FAILURE

datatype power_operation = POWER_OPERATION_SUSPEND | POWER_OPERATION_RESUME

datatype power_phase =
    POWER_PHASE_NONE
  | POWER_PHASE_SUSPEND
  | POWER_PHASE_WAIT_SUSPEND
  | POWER_PHASE_SLEEP
  | POWER_PHASE_RESUME
  | POWER_PHASE_WAIT_RESUME

record power_completion_token =
  tk_generation :: u64
  tk_participant :: u16
  tk_operation :: power_operation

text \<open>A null callback pointer is \<^const>\<open>False\<close>, a null \<open>name\<close> or \<open>dependencies\<close> is \<^const>\<open>None\<close>.\<close>

record power_participant_registration =
  rg_name :: "string option"
  rg_dependencies :: "string option list option"
  rg_dependency_count :: nat
  rg_blocked :: bool
  rg_suspend :: bool
  rg_resume :: bool

record power_participant =
  pp_name :: string
  pp_dependencies :: "string list"
  pp_blocked :: bool
  pp_suspend :: bool
  pp_resume :: bool

record power_policy =
  po_idle_ms :: u64
  po_screen_off_ms :: u64
  po_panel_off_ms :: u64
  po_suspend_ms :: u64
  po_active_brightness :: u8
  po_idle_brightness :: u8
  po_automatic_suspend :: bool

record power_failure =
  pf_code :: power_failure_code
  pf_generation :: u64
  pf_participant :: string

record power_status =
  pw_state :: power_state
  pw_reason :: power_reason
  pw_policy :: power_policy
  pw_generation :: u64
  pw_last_activity_ms :: u64
  pw_state_changed_ms :: u64
  pw_suspend_started_ms :: u64
  pw_suspend_duration_ms :: u64
  pw_resume_started_ms :: u64
  pw_resume_duration_ms :: u64
  pw_wake_causes :: u32
  pw_failure :: power_failure
  pw_blockers :: "string list"
  pw_dim_inhibitors :: u32
  pw_desired_brightness :: u8
  pw_effective_brightness :: u8
  pw_brightness_valid :: bool
  pw_screen_off_requested :: bool
  pw_panel_off_requested :: bool
  pw_panel_enabled :: bool
  pw_panel_valid :: bool
  pw_suspend_available :: bool

text \<open>What the manager calls, with the answer it gets.\<close>

datatype power_call =
    SetBrightness u8 bool
  | SetPanel bool bool
  | PrepareSleep bool
  | EnterSleep bool
  | AbortSleep
  | CollectWakeCauses u32
  | RestorePlatform bool
  | Blocked nat bool
  | Callback nat power_operation power_callback_result
  | Completed nat power_operation power_callback_result
  | NotifyPower

record power_manager =
  pm_status :: power_status
  pm_participants :: "power_participant list"
  pm_dependency_order :: "nat list"
  pm_cursor :: nat
  pm_suspended_count :: nat
  pm_suspended :: "nat list"
  pm_phase :: power_phase
  pm_expected :: power_completion_token
  pm_finalized :: bool
  pm_suspend_requested :: bool
  pm_activity_requested :: bool
  pm_activity_ms :: u64
  pm_completion_ready :: bool
  pm_completion_result :: power_callback_result
  pm_platform_prepared :: bool
  pm_trace :: "string list"
  pm_log :: "power_call list"

datatype power_message =
    Complete power_completion_token power_callback_result
  | RequestSuspend
  | RequestActivity u64

record power_env =
  e_set_brightness :: "power_call list \<Rightarrow> u8 \<Rightarrow> bool"
  e_set_panel_enabled :: "power_call list \<Rightarrow> bool \<Rightarrow> bool"
  e_prepare_sleep :: "power_call list \<Rightarrow> bool"
  e_enter_light_sleep :: "power_call list \<Rightarrow> bool"
  e_collect_wake_causes :: "power_call list \<Rightarrow> u32"
  e_restore :: "power_call list \<Rightarrow> bool"
  e_blocked :: "power_call list \<Rightarrow> nat \<Rightarrow> bool \<times> string"
  e_callback :: "power_call list \<Rightarrow> nat \<Rightarrow> power_completion_token \<Rightarrow> power_callback_result \<times> power_message list"

definition on_status :: "(power_status \<Rightarrow> power_status) \<Rightarrow> power_manager \<Rightarrow> power_manager" where
  "on_status f m = m\<lparr>pm_status := f (pm_status m)\<rparr>"

definition called :: "power_call \<Rightarrow> power_manager \<Rightarrow> power_manager" where
  "called call m = m\<lparr>pm_log := pm_log m @ [call]\<rparr>"

definition policy_zero :: power_policy where
  "policy_zero = \<lparr>po_idle_ms = 0, po_screen_off_ms = 0, po_panel_off_ms = 0, po_suspend_ms = 0,
     po_active_brightness = 0, po_idle_brightness = 0, po_automatic_suspend = False\<rparr>"

definition failure_zero :: power_failure where
  "failure_zero = \<lparr>pf_code = POWER_FAILURE_NONE, pf_generation = 0, pf_participant = ''''\<rparr>"

definition status_zero :: power_status where
  "status_zero = \<lparr>pw_state = POWER_STATE_ACTIVE, pw_reason = POWER_REASON_STARTUP, pw_policy = policy_zero,
     pw_generation = 0, pw_last_activity_ms = 0, pw_state_changed_ms = 0, pw_suspend_started_ms = 0,
     pw_suspend_duration_ms = 0, pw_resume_started_ms = 0, pw_resume_duration_ms = 0, pw_wake_causes = 0,
     pw_failure = failure_zero, pw_blockers = [], pw_dim_inhibitors = 0, pw_desired_brightness = 0,
     pw_effective_brightness = 0, pw_brightness_valid = False, pw_screen_off_requested = False,
     pw_panel_off_requested = False, pw_panel_enabled = False, pw_panel_valid = False,
     pw_suspend_available = False\<rparr>"

definition manager_zero :: power_manager where
  "manager_zero = \<lparr>pm_status = status_zero, pm_participants = [],
     pm_dependency_order = replicate POWER_PARTICIPANT_CAPACITY 0, pm_cursor = 0, pm_suspended_count = 0,
     pm_suspended = replicate POWER_PARTICIPANT_CAPACITY 0, pm_phase = POWER_PHASE_NONE,
     pm_expected = \<lparr>tk_generation = 0, tk_participant = 0, tk_operation = POWER_OPERATION_SUSPEND\<rparr>,
     pm_finalized = False, pm_suspend_requested = False, pm_activity_requested = False, pm_activity_ms = 0,
     pm_completion_ready = False, pm_completion_result = POWER_CALLBACK_SUCCESS,
     pm_platform_prepared = False, pm_trace = [], pm_log = []\<rparr>"

section \<open>Helpers\<close>

definition power_add :: "u64 \<Rightarrow> u64 \<Rightarrow> u64" where
  "power_add a b = (if POWER_DEADLINE_NONE - a < b then POWER_DEADLINE_NONE else a + b)"

definition name_ok :: "string option \<Rightarrow> bool" where
  "name_ok name \<longleftrightarrow> (case name of None \<Rightarrow> False | Some name \<Rightarrow> name \<noteq> [] \<and> length name < POWER_NAME_CAPACITY)"

definition power_find :: "string \<Rightarrow> power_manager \<Rightarrow> nat" where
  "power_find name m =
     (let i = length (takeWhile (\<lambda>p. pp_name p \<noteq> name) (pm_participants m))
      in if i < length (pm_participants m) then i else POWER_PARTICIPANT_CAPACITY)"

text \<open>\<^verbatim>\<open>snprintf(\<dots>, POWER_NAME_CAPACITY, "%s", \<dots>)\<close>.\<close>

definition bounded_name :: "string \<Rightarrow> string" where
  "bounded_name name = take (POWER_NAME_CAPACITY - 1) name"

definition record_failure :: "power_failure_code \<Rightarrow> string \<Rightarrow> power_manager \<Rightarrow> power_manager" where
  "record_failure code name m =
     on_status (\<lambda>s. s\<lparr>pw_failure := \<lparr>pf_code = code, pf_generation = pw_generation s,
       pf_participant = bounded_name name\<rparr>\<rparr>) m"

definition policy_ok :: "power_policy \<Rightarrow> bool" where
  "policy_ok policy \<longleftrightarrow>
     po_active_brightness policy \<le> 100 \<and> po_idle_brightness policy \<le> 100 \<and>
     (po_screen_off_ms policy = 0 \<or> po_idle_ms policy \<le> po_screen_off_ms policy) \<and>
     (po_panel_off_ms policy = 0 \<or>
      po_screen_off_ms policy \<noteq> 0 \<and> po_screen_off_ms policy \<le> po_panel_off_ms policy)"

definition power_idle_brightness :: "power_policy \<Rightarrow> u8" where
  "power_idle_brightness policy =
     (if po_idle_brightness policy < po_active_brightness policy
      then po_idle_brightness policy else po_active_brightness policy)"

definition inhibitor_name :: "u32 \<Rightarrow> string" where
  "inhibitor_name inhibitors =
     (if inhibitors AND POWER_INHIBITOR_KEYBOARD \<noteq> 0 then ''keyboard''
      else if inhibitors AND POWER_INHIBITOR_POINTER \<noteq> 0 then ''pointer''
      else if inhibitors AND POWER_INHIBITOR_FULLSCREEN \<noteq> 0 then ''fullscreen''
      else if inhibitors AND POWER_INHIBITOR_PANIC \<noteq> 0 then ''panic''
      else ''media'')"

section \<open>The display\<close>

definition set_brightness :: "power_env \<Rightarrow> u8 \<Rightarrow> power_manager \<Rightarrow> bool \<times> power_manager" where
  "set_brightness env brightness m =
     (let m = on_status (\<lambda>s. s\<lparr>pw_desired_brightness := brightness\<rparr>) m
      in if pw_brightness_valid (pm_status m) \<and> pw_effective_brightness (pm_status m) = brightness then (True, m)
         else if \<not> e_set_brightness env (pm_log m) brightness then
           (False, record_failure POWER_FAILURE_BRIGHTNESS ''''
             (on_status (\<lambda>s. s\<lparr>pw_brightness_valid := False\<rparr>) (called (SetBrightness brightness False) m)))
         else
           (True, on_status (\<lambda>s. s\<lparr>pw_effective_brightness := brightness, pw_brightness_valid := True\<rparr>)
             (called (SetBrightness brightness True) m)))"

definition set_panel :: "power_env \<Rightarrow> bool \<Rightarrow> power_manager \<Rightarrow> bool \<times> power_manager" where
  "set_panel env enabled m =
     (if pw_panel_valid (pm_status m) \<and> pw_panel_enabled (pm_status m) = enabled then (True, m)
      else if \<not> e_set_panel_enabled env (pm_log m) enabled then
        (False, record_failure POWER_FAILURE_PANEL ''''
          (on_status (\<lambda>s. s\<lparr>pw_panel_valid := False\<rparr>) (called (SetPanel enabled False) m)))
      else
        (True, on_status (\<lambda>s. s\<lparr>pw_panel_enabled := enabled, pw_panel_valid := True\<rparr>)
          (called (SetPanel enabled True) m)))"

definition set_display :: "power_env \<Rightarrow> u8 \<Rightarrow> bool \<Rightarrow> power_manager \<Rightarrow> power_manager" where
  "set_display env brightness panel_enabled m =
     (let m = on_status (\<lambda>s. s\<lparr>pw_desired_brightness := brightness\<rparr>) m
      in if \<not> panel_enabled then
           (case set_brightness env 0 m of
              (True, m) \<Rightarrow> snd (set_panel env False m)
            | (False, m) \<Rightarrow> m)
         else
           (case set_panel env True m of
              (True, m) \<Rightarrow> snd (set_brightness env brightness m)
            | (False, m) \<Rightarrow> m))"

definition restore_display :: "power_env \<Rightarrow> power_manager \<Rightarrow> power_manager" where
  "restore_display env m =
     set_display env (po_active_brightness (pw_policy (pm_status m))) True
       (on_status (\<lambda>s. s\<lparr>pw_screen_off_requested := False, pw_panel_off_requested := False\<rparr>) m)"

definition apply_idle_display :: "power_env \<Rightarrow> u64 \<Rightarrow> power_manager \<Rightarrow> power_manager" where
  "apply_idle_display env now m =
     (let policy = pw_policy (pm_status m);
          screen_off = (po_screen_off_ms policy \<noteq> 0 \<and>
            power_add (pw_last_activity_ms (pm_status m)) (po_screen_off_ms policy) \<le> now);
          panel_off = (po_panel_off_ms policy \<noteq> 0 \<and>
            power_add (pw_last_activity_ms (pm_status m)) (po_panel_off_ms policy) \<le> now)
      in set_display env (if screen_off then 0 else power_idle_brightness policy) (\<not> panel_off)
           (on_status (\<lambda>s. s\<lparr>pw_screen_off_requested := screen_off, pw_panel_off_requested := panel_off\<rparr>) m))"

section \<open>Start-up, registration and the dependency order\<close>

text \<open>\<open>mutex\<close>: the platform can create the mutex.\<close>

definition power_manager_init ::
    "power_env \<Rightarrow> bool \<Rightarrow> power_policy \<Rightarrow> u64 \<Rightarrow> power_manager option" where
  "power_manager_init env mutex policy now =
     (if \<not> policy_ok policy then None
      else if \<not> mutex then None
      else
        Some (restore_display env
          (manager_zero\<lparr>pm_status := status_zero\<lparr>pw_state := POWER_STATE_ACTIVE, pw_reason := POWER_REASON_STARTUP,
             pw_policy := policy, pw_last_activity_ms := now, pw_state_changed_ms := now,
             pw_suspend_available := True\<rparr>\<rparr>)))"

definition refuse :: "power_failure_code \<Rightarrow> string \<Rightarrow> power_manager \<Rightarrow> power_manager" where
  "refuse code name m = record_failure code name (on_status (\<lambda>s. s\<lparr>pw_suspend_available := False\<rparr>) m)"

definition power_manager_register ::
    "power_participant_registration option \<Rightarrow> power_manager \<Rightarrow> bool \<times> power_manager" where
  "power_manager_register registration m =
     (case registration of
        None \<Rightarrow> (False, refuse POWER_FAILURE_ARGUMENT '''' m)
      | Some r \<Rightarrow>
          if pm_finalized m \<or> \<not> name_ok (rg_name r) \<or> POWER_DEPENDENCY_CAPACITY < rg_dependency_count r \<or>
            0 < rg_dependency_count r \<and> rg_dependencies r = None
          then (False, refuse POWER_FAILURE_ARGUMENT '''' m)
          else if length (pm_participants m) = POWER_PARTICIPANT_CAPACITY
          then (False, refuse POWER_FAILURE_CAPACITY (the (rg_name r)) m)
          else if power_find (the (rg_name r)) m \<noteq> POWER_PARTICIPANT_CAPACITY
          then (False, refuse POWER_FAILURE_DUPLICATE (the (rg_name r)) m)
          else
            (let dependencies = (case rg_dependencies r of None \<Rightarrow> []
                   | Some names \<Rightarrow> take (rg_dependency_count r) names)
             in if \<not> list_all name_ok dependencies
                then (False, refuse POWER_FAILURE_ARGUMENT (the (rg_name r)) m)
                else
                  (True, m\<lparr>pm_participants := pm_participants m @
                     [\<lparr>pp_name = bounded_name (the (rg_name r)),
                       pp_dependencies = map (\<lambda>name. bounded_name (the name)) dependencies,
                       pp_blocked = rg_blocked r, pp_suspend = rg_suspend r, pp_resume = rg_resume r\<rparr>]\<rparr>)))"

text \<open>
  The depth-first search that orders the participants. \<open>marks\<close> and \<open>count\<close> are the caller's locals;
  the first argument bounds the depth of the recursion, \<^const>\<open>None\<close> is a recursion that is deeper.
\<close>

type_synonym visit_state = "nat list \<times> nat \<times> power_manager"

fun visit :: "nat \<Rightarrow> nat \<Rightarrow> visit_state \<Rightarrow> (bool \<times> visit_state) option"
  and visit_dependencies :: "nat \<Rightarrow> string list \<Rightarrow> visit_state \<Rightarrow> (bool \<times> visit_state) option" where
  "visit 0 index v = None"
| "visit (Suc depth) index (marks, count, m) =
     (if marks ! index = 2 then Some (True, marks, count, m)
      else if marks ! index = 1 then
        Some (False, marks, count,
          record_failure POWER_FAILURE_DEPENDENCY_CYCLE (pp_name (pm_participants m ! index)) m)
      else
        (case visit_dependencies depth (pp_dependencies (pm_participants m ! index)) (marks[index := 1], count, m) of
           None \<Rightarrow> None
         | Some (False, v) \<Rightarrow> Some (False, v)
         | Some (True, marks, count, m) \<Rightarrow>
             Some (True, marks[index := 2], count + 1,
               m\<lparr>pm_dependency_order := (pm_dependency_order m)[count := index]\<rparr>)))"
| "visit_dependencies depth [] v = Some (True, v)"
| "visit_dependencies depth (name # names) (marks, count, m) =
     (let dependency = power_find name m
      in if dependency = POWER_PARTICIPANT_CAPACITY
         then Some (False, marks, count, record_failure POWER_FAILURE_MISSING_DEPENDENCY name m)
         else
           (case visit depth dependency (marks, count, m) of
              None \<Rightarrow> None
            | Some (False, v) \<Rightarrow> Some (False, v)
            | Some (True, v) \<Rightarrow> visit_dependencies depth names v))"

definition VISIT_DEPTH :: nat where "VISIT_DEPTH = POWER_PARTICIPANT_CAPACITY + 1"

fun visit_all :: "nat list \<Rightarrow> visit_state \<Rightarrow> visit_state option" where
  "visit_all [] v = Some v"
| "visit_all (i # is) v =
     (case visit VISIT_DEPTH i v of
        None \<Rightarrow> None
      | Some (True, v) \<Rightarrow> visit_all is v
      | Some (False, marks, count, m) \<Rightarrow>
          visit_all is (marks, count, on_status (\<lambda>s. s\<lparr>pw_suspend_available := False\<rparr>) m))"

definition power_manager_finalize :: "power_manager \<Rightarrow> (bool \<times> power_manager) option" where
  "power_manager_finalize m =
     (if pm_finalized m then Some (False, m)
      else
        (case visit_all [0..<length (pm_participants m)] (replicate POWER_PARTICIPANT_CAPACITY 0, 0, m) of
           None \<Rightarrow> None
         | Some (marks, count, m) \<Rightarrow>
             Some (pw_suspend_available (pm_status m), m\<lparr>pm_finalized := True\<rparr>)))"

section \<open>Requests and completions\<close>

definition power_manager_request_suspend :: "power_manager \<Rightarrow> bool \<times> power_manager" where
  "power_manager_request_suspend m =
     (let accepted = (\<not> pm_suspend_requested m);
          m = m\<lparr>pm_suspend_requested := True\<rparr>
      in (accepted, if accepted then called NotifyPower m else m))"

definition power_manager_request_activity :: "u64 \<Rightarrow> power_manager \<Rightarrow> power_manager" where
  "power_manager_request_activity now m =
     called NotifyPower (m\<lparr>pm_activity_requested := True, pm_activity_ms := now\<rparr>)"

definition power_manager_complete ::
    "power_completion_token \<Rightarrow> power_callback_result \<Rightarrow> power_manager \<Rightarrow> power_manager" where
  "power_manager_complete token result m =
     (if result = POWER_CALLBACK_PENDING then m
      else
        called NotifyPower
          (if \<not> pm_completion_ready m \<and> tk_generation token = tk_generation (pm_expected m) \<and>
             tk_participant token = tk_participant (pm_expected m) \<and>
             tk_operation token = tk_operation (pm_expected m)
           then m\<lparr>pm_completion_result := result, pm_completion_ready := True\<rparr>
           else m))"

fun deliver :: "power_message \<Rightarrow> power_manager \<Rightarrow> power_manager" where
  "deliver (Complete token result) m = power_manager_complete token result m"
| "deliver RequestSuspend m = snd (power_manager_request_suspend m)"
| "deliver (RequestActivity now) m = power_manager_request_activity now m"

section \<open>Suspending and resuming\<close>

definition operation_suffix :: "power_operation \<Rightarrow> string" where
  "operation_suffix operation = (case operation of POWER_OPERATION_SUSPEND \<Rightarrow> '':down'' | POWER_OPERATION_RESUME \<Rightarrow> '':up'')"

definition trace_operation :: "power_participant \<Rightarrow> power_operation \<Rightarrow> power_manager \<Rightarrow> power_manager" where
  "trace_operation participant operation m =
     (if length (pm_trace m) < POWER_TRACE_CAPACITY
      then m\<lparr>pm_trace := pm_trace m @
        [take (POWER_NAME_CAPACITY + 7) (bounded_name (pp_name participant) @ operation_suffix operation)]\<rparr>
      else m)"

definition begin_resume :: "u64 \<Rightarrow> power_reason \<Rightarrow> power_manager \<Rightarrow> power_manager" where
  "begin_resume now reason m =
     (on_status (\<lambda>s. s\<lparr>pw_state := POWER_STATE_RESUMING, pw_reason := reason, pw_state_changed_ms := now,
        pw_resume_started_ms := now\<rparr>) m)\<lparr>pm_phase := POWER_PHASE_RESUME, pm_cursor := 0\<rparr>"

definition rollback :: "u64 \<Rightarrow> power_failure_code \<Rightarrow> string \<Rightarrow> power_manager \<Rightarrow> power_manager" where
  "rollback now code name m =
     (let m = record_failure code name m
      in begin_resume now POWER_REASON_ROLLBACK (if pm_platform_prepared m then called AbortSleep m else m))"

definition take_completion :: "power_manager \<Rightarrow> power_callback_result option \<times> power_manager" where
  "take_completion m =
     (if pm_completion_ready m then (Some (pm_completion_result m), m\<lparr>pm_completion_ready := False\<rparr>)
      else (None, m))"

definition expect_completion :: "power_completion_token \<Rightarrow> power_manager \<Rightarrow> power_manager" where
  "expect_completion token m = m\<lparr>pm_expected := token, pm_completion_ready := False\<rparr>"

definition finish :: "power_env \<Rightarrow> u64 \<Rightarrow> power_manager \<Rightarrow> power_manager" where
  "finish env now m =
     restore_display env
       ((on_status (\<lambda>s. s\<lparr>pw_state := POWER_STATE_ACTIVE, pw_state_changed_ms := now,
           pw_resume_duration_ms := now - pw_resume_started_ms s\<rparr>) m)
         \<lparr>pm_phase := POWER_PHASE_NONE, pm_cursor := 0, pm_suspended_count := 0, pm_platform_prepared := False\<rparr>)"

text \<open>One call of a participant's \<open>suspend\<close> or \<open>resume\<close>: the expected token, the trace, the call.\<close>

definition call_participant ::
    "power_env \<Rightarrow> nat \<Rightarrow> power_operation \<Rightarrow> power_manager \<Rightarrow> power_callback_result \<times> power_manager" where
  "call_participant env index operation m =
     (let token = \<lparr>tk_generation = pw_generation (pm_status m), tk_participant = of_nat index,
            tk_operation = operation\<rparr>;
          m = trace_operation (pm_participants m ! index) operation (expect_completion token m);
          (result, messages) = e_callback env (pm_log m) index token
      in (result, fold deliver messages (called (Callback index operation result) m)))"

definition mark_suspended :: "nat \<Rightarrow> power_manager \<Rightarrow> power_manager" where
  "mark_suspended index m =
     m\<lparr>pm_suspended := (pm_suspended m)[pm_suspended_count m := index],
       pm_suspended_count := pm_suspended_count m + 1\<rparr>"

text \<open>
  One turn of the loop of \<^verbatim>\<open>drive\<close>: the branch of the current phase. The flag is \<^const>\<open>True\<close> where the
  code continues the loop and \<^const>\<open>False\<close> where it returns.
\<close>

definition drive_wait :: "u64 \<Rightarrow> power_manager \<Rightarrow> bool \<times> power_manager" where
  "drive_wait now m =
     (case take_completion m of
        (None, m) \<Rightarrow> (False, m)
      | (Some result, m) \<Rightarrow>
          (let index = unat (tk_participant (pm_expected m));
               m = called (Completed index (tk_operation (pm_expected m)) result) m
           in if result = POWER_CALLBACK_FAILURE \<and> pm_phase m = POWER_PHASE_WAIT_SUSPEND
              then (True, rollback now POWER_FAILURE_CALLBACK (pp_name (pm_participants m ! index)) m)
              else
                (let m = (if result = POWER_CALLBACK_FAILURE
                       then record_failure POWER_FAILURE_CALLBACK (pp_name (pm_participants m ! index)) m else m);
                     m = (if pm_phase m = POWER_PHASE_WAIT_SUSPEND
                       then (mark_suspended index m)\<lparr>pm_phase := POWER_PHASE_SUSPEND\<rparr>
                       else m\<lparr>pm_phase := POWER_PHASE_RESUME\<rparr>)
                 in (True, m\<lparr>pm_cursor := pm_cursor m + 1\<rparr>))))"

definition drive_sleep :: "power_env \<Rightarrow> u64 \<Rightarrow> power_manager \<Rightarrow> bool \<times> power_manager" where
  "drive_sleep env now m =
     (if \<not> e_prepare_sleep env (pm_log m)
      then (True, rollback now POWER_FAILURE_PLATFORM_PREPARE '''' (called (PrepareSleep False) m))
      else
        (let m = (on_status (\<lambda>s. s\<lparr>pw_state := POWER_STATE_SUSPENDED, pw_state_changed_ms := now,
                    pw_suspend_duration_ms := now - pw_suspend_started_ms s\<rparr>) (called (PrepareSleep True) m))
                   \<lparr>pm_platform_prepared := True, pm_phase := POWER_PHASE_SLEEP\<rparr>
         in if \<not> e_enter_light_sleep env (pm_log m)
            then (True, rollback now POWER_FAILURE_PLATFORM_SLEEP '''' (called (EnterSleep False) m))
            else (False, called (EnterSleep True) m)))"

definition drive_suspend :: "power_env \<Rightarrow> u64 \<Rightarrow> power_manager \<Rightarrow> bool \<times> power_manager" where
  "drive_suspend env now m =
     (let index = pm_dependency_order m ! (length (pm_participants m) - 1 - pm_cursor m)
      in case call_participant env index POWER_OPERATION_SUSPEND m of
           (POWER_CALLBACK_PENDING, m) \<Rightarrow> (False, m\<lparr>pm_phase := POWER_PHASE_WAIT_SUSPEND\<rparr>)
         | (POWER_CALLBACK_FAILURE, m) \<Rightarrow>
             (True, rollback now POWER_FAILURE_CALLBACK (pp_name (pm_participants m ! index)) m)
         | (POWER_CALLBACK_SUCCESS, m) \<Rightarrow> (True, (mark_suspended index m)\<lparr>pm_cursor := pm_cursor m + 1\<rparr>))"

definition drive_resume :: "power_env \<Rightarrow> power_manager \<Rightarrow> bool \<times> power_manager" where
  "drive_resume env m =
     (let index = pm_suspended m ! (pm_suspended_count m - 1 - pm_cursor m)
      in case call_participant env index POWER_OPERATION_RESUME m of
           (POWER_CALLBACK_PENDING, m) \<Rightarrow> (False, m\<lparr>pm_phase := POWER_PHASE_WAIT_RESUME\<rparr>)
         | (POWER_CALLBACK_FAILURE, m) \<Rightarrow>
             (True, (record_failure POWER_FAILURE_CALLBACK (pp_name (pm_participants m ! index)) m)
                      \<lparr>pm_cursor := pm_cursor m + 1\<rparr>)
         | (POWER_CALLBACK_SUCCESS, m) \<Rightarrow> (True, m\<lparr>pm_cursor := pm_cursor m + 1\<rparr>))"

definition drive_step :: "power_env \<Rightarrow> u64 \<Rightarrow> power_manager \<Rightarrow> bool \<times> power_manager" where
  "drive_step env now m =
     (case pm_phase m of
        POWER_PHASE_WAIT_SUSPEND \<Rightarrow> drive_wait now m
      | POWER_PHASE_WAIT_RESUME \<Rightarrow> drive_wait now m
      | POWER_PHASE_SUSPEND \<Rightarrow>
          if pm_cursor m = length (pm_participants m) then drive_sleep env now m else drive_suspend env now m
      | POWER_PHASE_RESUME \<Rightarrow>
          if pm_cursor m = pm_suspended_count m then (False, finish env now m) else drive_resume env m
      | POWER_PHASE_NONE \<Rightarrow> (False, m)
      | POWER_PHASE_SLEEP \<Rightarrow> (False, m))"

definition DRIVE_STEPS :: nat where "DRIVE_STEPS = POWER_PARTICIPANT_CAPACITY * 2 + 8"

fun drive_loop :: "power_env \<Rightarrow> u64 \<Rightarrow> nat \<Rightarrow> power_manager \<Rightarrow> power_manager" where
  "drive_loop env now 0 m = m"
| "drive_loop env now (Suc steps) m =
     (case drive_step env now m of
        (False, m) \<Rightarrow> m
      | (True, m) \<Rightarrow> drive_loop env now steps m)"

definition drive :: "power_env \<Rightarrow> u64 \<Rightarrow> power_manager \<Rightarrow> power_manager" where
  "drive env now m = drive_loop env now DRIVE_STEPS m"

text \<open>The participants that stand in the way of a suspension, asked in the reverse dependency order.\<close>

definition ask_blocker :: "power_env \<Rightarrow> nat \<Rightarrow> power_manager \<Rightarrow> bool \<times> string \<times> power_manager" where
  "ask_blocker env index m =
     (let p = pm_participants m ! index
      in if \<not> pp_suspend p \<or> \<not> pp_resume p then (True, '''', m)
         else if pp_blocked p then
           (case e_blocked env (pm_log m) index of
              (blocked, reason) \<Rightarrow> (blocked, bounded_name reason, called (Blocked index blocked) m))
         else (False, '''', m))"

fun collect_blockers :: "power_env \<Rightarrow> nat list \<Rightarrow> power_manager \<Rightarrow> power_manager" where
  "collect_blockers env [] m = m"
| "collect_blockers env (index # rest) m =
     (case ask_blocker env index m of
        (False, reason, m) \<Rightarrow> collect_blockers env rest m
      | (True, reason, m) \<Rightarrow>
          collect_blockers env rest
            (on_status (\<lambda>s. s\<lparr>pw_blockers := pw_blockers s @
               [bounded_name (if reason \<noteq> [] then reason else pp_name (pm_participants m ! index))]\<rparr>) m))"

definition start_suspend :: "power_env \<Rightarrow> u64 \<Rightarrow> power_manager \<Rightarrow> power_manager" where
  "start_suspend env now m =
     (let m = on_status (\<lambda>s. s\<lparr>pw_blockers := []\<rparr>) m
      in if \<not> pw_suspend_available (pm_status m) then record_failure POWER_FAILURE_REGISTRATION '''' m
         else if pw_dim_inhibitors (pm_status m) \<noteq> 0 then
           (let name = bounded_name (inhibitor_name (pw_dim_inhibitors (pm_status m)))
            in record_failure POWER_FAILURE_BLOCKED name (on_status (\<lambda>s. s\<lparr>pw_blockers := [name]\<rparr>) m))
         else
           (let m = collect_blockers env (rev (take (length (pm_participants m)) (pm_dependency_order m))) m
            in if pw_blockers (pm_status m) \<noteq> []
               then record_failure POWER_FAILURE_BLOCKED (hd (pw_blockers (pm_status m))) m
               else
                 drive env now
                   ((on_status (\<lambda>s. s\<lparr>pw_generation := pw_generation s + 1, pw_state := POWER_STATE_SUSPENDING,
                       pw_reason := POWER_REASON_REQUEST, pw_state_changed_ms := now, pw_suspend_started_ms := now,
                       pw_failure := failure_zero\<rparr>) m)
                     \<lparr>pm_phase := POWER_PHASE_SUSPEND, pm_cursor := 0, pm_suspended_count := 0\<rparr>)))"

section \<open>Policy, inhibitors, deadlines and the update\<close>

definition become :: "power_state \<Rightarrow> power_reason \<Rightarrow> u64 \<Rightarrow> power_manager \<Rightarrow> power_manager" where
  "become state reason now m =
     on_status (\<lambda>s. s\<lparr>pw_state := state, pw_reason := reason, pw_state_changed_ms := now\<rparr>) m"

definition power_manager_set_policy ::
    "power_env \<Rightarrow> power_policy \<Rightarrow> u64 \<Rightarrow> power_manager \<Rightarrow> bool \<times> power_manager" where
  "power_manager_set_policy env policy now m =
     (if \<not> pm_finalized m \<or> \<not> policy_ok policy \<or> pw_state (pm_status m) = POWER_STATE_SHUTTING_DOWN then (False, m)
      else
        (let m = on_status (\<lambda>s. s\<lparr>pw_policy := policy\<rparr>) m
         in if pw_dim_inhibitors (pm_status m) \<noteq> 0 then (True, restore_display env m)
            else
              (let awake = (pw_state (pm_status m) = POWER_STATE_ACTIVE \<or> pw_state (pm_status m) = POWER_STATE_IDLE)
               in if awake \<and> power_add (pw_last_activity_ms (pm_status m)) (po_idle_ms policy) \<le> now
                  then (True, apply_idle_display env now (become POWER_STATE_IDLE POWER_REASON_INACTIVITY now m))
                  else if awake
                  then (True, restore_display env
                    (on_status (\<lambda>s. s\<lparr>pw_state := POWER_STATE_ACTIVE, pw_state_changed_ms := now\<rparr>) m))
                  else (True, m))))"

definition wake_from_idle :: "u64 \<Rightarrow> power_manager \<Rightarrow> power_manager" where
  "wake_from_idle now m =
     (if pw_state (pm_status m) = POWER_STATE_IDLE then become POWER_STATE_ACTIVE POWER_REASON_ACTIVITY now m else m)"

definition power_manager_set_dim_inhibitors :: "power_env \<Rightarrow> u32 \<Rightarrow> u64 \<Rightarrow> power_manager \<Rightarrow> power_manager" where
  "power_manager_set_dim_inhibitors env inhibitors now m =
     (if \<not> pm_finalized m \<or> pw_state (pm_status m) = POWER_STATE_SHUTTING_DOWN then m
      else
        (let previous = pw_dim_inhibitors (pm_status m);
             m = on_status (\<lambda>s. s\<lparr>pw_dim_inhibitors := inhibitors\<rparr>) m
         in if inhibitors \<noteq> 0 then restore_display env (wake_from_idle now m)
            else if previous \<noteq> 0 then wake_from_idle now (on_status (\<lambda>s. s\<lparr>pw_last_activity_ms := now\<rparr>) m)
            else m))"

definition power_manager_next_deadline :: "power_manager \<Rightarrow> u64" where
  "power_manager_next_deadline m =
     (let s = pm_status m; policy = pw_policy s
      in if \<not> pm_finalized m then POWER_DEADLINE_NONE
         else if pw_dim_inhibitors s \<noteq> 0 then POWER_DEADLINE_NONE
         else if pw_state s = POWER_STATE_ACTIVE then power_add (pw_last_activity_ms s) (po_idle_ms policy)
         else if pw_state s = POWER_STATE_IDLE then
           (let deadline = POWER_DEADLINE_NONE;
                deadline = (if \<not> pw_screen_off_requested s \<and> po_screen_off_ms policy \<noteq> 0
                  then power_add (pw_last_activity_ms s) (po_screen_off_ms policy) else deadline);
                deadline = (if \<not> pw_panel_off_requested s \<and> po_panel_off_ms policy \<noteq> 0 \<and>
                    power_add (pw_last_activity_ms s) (po_panel_off_ms policy) < deadline
                  then power_add (pw_last_activity_ms s) (po_panel_off_ms policy) else deadline);
                deadline = (if po_automatic_suspend policy \<and>
                    power_add (pw_last_activity_ms s) (po_suspend_ms policy) < deadline
                  then power_add (pw_last_activity_ms s) (po_suspend_ms policy) else deadline)
            in deadline)
         else POWER_DEADLINE_NONE)"

text \<open>The parts of \<^verbatim>\<open>power_manager_update\<close>, in their order.\<close>

definition update_activity :: "power_env \<Rightarrow> u64 \<Rightarrow> power_manager \<Rightarrow> power_manager" where
  "update_activity env now m =
     (if pm_activity_requested m then
        (let m = wake_from_idle now (on_status (\<lambda>s. s\<lparr>pw_last_activity_ms := pm_activity_ms m\<rparr>) m)
         in if pw_state (pm_status m) = POWER_STATE_ACTIVE then restore_display env m else m)
      else m)\<lparr>pm_activity_requested := False\<rparr>"

definition update_deadline :: "power_env \<Rightarrow> u32 \<Rightarrow> u64 \<Rightarrow> power_manager \<Rightarrow> bool \<times> power_manager" where
  "update_deadline env events now m =
     (if events AND POWER_EVENT_DEADLINE \<noteq> 0 \<and> power_manager_next_deadline m \<le> now then
        (let m =
           (if pw_state (pm_status m) = POWER_STATE_ACTIVE
            then apply_idle_display env now (become POWER_STATE_IDLE POWER_REASON_INACTIVITY now m)
            else if pw_state (pm_status m) = POWER_STATE_IDLE then apply_idle_display env now m
            else m)
         in (pw_state (pm_status m) = POWER_STATE_IDLE \<and> po_automatic_suspend (pw_policy (pm_status m)) \<and>
               power_add (pw_last_activity_ms (pm_status m)) (po_suspend_ms (pw_policy (pm_status m))) \<le> now, m))
      else (False, m))"

definition update_wake :: "power_env \<Rightarrow> u32 \<Rightarrow> u64 \<Rightarrow> power_manager \<Rightarrow> power_manager" where
  "update_wake env events now m =
     (if pw_state (pm_status m) = POWER_STATE_SUSPENDED \<and> events AND POWER_EVENT_POWER \<noteq> 0 then
        (let causes = e_collect_wake_causes env (pm_log m);
             m = called (CollectWakeCauses causes) m
         in if causes \<noteq> POWER_WAKE_NONE then
              (let m = on_status (\<lambda>s. s\<lparr>pw_wake_causes := causes\<rparr>) m;
                   restored = e_restore env (pm_log m);
                   m = called (RestorePlatform restored) m;
                   m = (if \<not> restored then record_failure POWER_FAILURE_PLATFORM_RESTORE '''' m else m)
               in begin_resume now POWER_REASON_WAKE m)
            else m)
      else m)"

definition update_request :: "power_env \<Rightarrow> bool \<Rightarrow> u64 \<Rightarrow> power_manager \<Rightarrow> power_manager" where
  "update_request env request now m =
     (if request \<and> (pw_state (pm_status m) = POWER_STATE_ACTIVE \<or> pw_state (pm_status m) = POWER_STATE_IDLE)
      then start_suspend env now m
      else if request then record_failure POWER_FAILURE_INVALID_STATE '''' m
      else m)"

definition power_manager_update :: "power_env \<Rightarrow> u32 \<Rightarrow> u64 \<Rightarrow> power_manager \<Rightarrow> power_manager" where
  "power_manager_update env events now m =
     (if \<not> pm_finalized m \<or> pw_state (pm_status m) = POWER_STATE_SHUTTING_DOWN then m
      else
        (let request = pm_suspend_requested m;
             m = update_activity env now (m\<lparr>pm_suspend_requested := False\<rparr>);
             (due, m) = update_deadline env events now m;
             m = update_wake env events now m
         in drive env now (update_request env (request \<or> due) now m)))"

definition power_manager_begin_shutdown :: "u64 \<Rightarrow> power_manager \<Rightarrow> power_manager" where
  "power_manager_begin_shutdown now m =
     (if pm_finalized m
      then (become POWER_STATE_SHUTTING_DOWN POWER_REASON_SYSTEM_ACTION now m)\<lparr>pm_phase := POWER_PHASE_NONE\<rparr>
      else m)"

text \<open>The calls made so far stay on record.\<close>

definition power_manager_shutdown :: "power_manager \<Rightarrow> power_manager" where
  "power_manager_shutdown m = manager_zero\<lparr>pm_log := pm_log m\<rparr>"

definition power_manager_ordered_name :: "nat \<Rightarrow> power_manager \<Rightarrow> string option" where
  "power_manager_ordered_name index m =
     (if pm_finalized m \<and> index < length (pm_participants m)
      then Some (pp_name (pm_participants m ! (pm_dependency_order m ! index)))
      else None)"

definition power_manager_trace_entry :: "nat \<Rightarrow> power_manager \<Rightarrow> string option" where
  "power_manager_trace_entry index m = (if index < length (pm_trace m) then Some (pm_trace m ! index) else None)"

end
