(* ===== verification/PowerOrder.thy ===== *)
theory PowerOrder
  imports PowerManager
begin

text \<open>
  \<^verbatim>\<open>power_manager_finalize\<close> orders the participants by a depth-first search. This theory shows that
  the search ends, that it succeeds exactly when every dependency is registered and there is no
  cycle, and that the order it then leaves puts each participant after everything it depends on.
\<close>

section \<open>The dependency order\<close>

definition zeros :: "nat list \<Rightarrow> nat" where
  "zeros marks = length (filter (\<lambda>x. x = 0) marks)"

lemma zeros_update [simp]: "i < length marks \<Longrightarrow> marks ! i = 0 \<Longrightarrow> v \<noteq> 0 \<Longrightarrow> zeros (marks[i := v]) = zeros marks - 1"
  using length_filter_update [of i marks "\<lambda>x. x = 0" v] by (simp add: zeros_def)

lemma zeros_pos: "i < length marks \<Longrightarrow> marks ! i = 0 \<Longrightarrow> 0 < zeros marks"
proof -
  assume "i < length marks" and "marks ! i = 0"
  then have "0 \<in> set marks" using nth_mem by fastforce
  then show "0 < zeros marks" by (auto simp: zeros_def filter_empty_conv)
qed

lemma zeros_keep [simp]: "i < length marks \<Longrightarrow> marks ! i \<noteq> 0 \<Longrightarrow> v \<noteq> 0 \<Longrightarrow> zeros (marks[i := v]) = zeros marks"
  using length_filter_update [of i marks "\<lambda>x. x = 0" v] by (simp add: zeros_def)

definition depends :: "power_participant list \<Rightarrow> nat \<Rightarrow> nat \<Rightarrow> bool" where
  "depends ps j i \<longleftrightarrow> pp_name (ps ! i) \<in> set (pp_dependencies (ps ! j))"

text \<open>
  What has been ordered so far: the participants with mark 2, each after all its dependencies.
\<close>

definition ordered_upto :: "power_participant list \<Rightarrow> nat list \<Rightarrow> nat \<Rightarrow> bool" where
  "ordered_upto ps order count \<longleftrightarrow>
     (\<forall>a < count. \<forall>name \<in> set (pp_dependencies (ps ! (order ! a))). \<exists>b < a. pp_name (ps ! (order ! b)) = name)"

definition visit_ok :: "power_participant list \<Rightarrow> visit_state \<Rightarrow> bool" where
  "visit_ok ps v \<longleftrightarrow>
     (case v of (marks, count, m) \<Rightarrow>
        pm_participants m = ps \<and> length ps \<le> POWER_PARTICIPANT_CAPACITY \<and>
        length marks = POWER_PARTICIPANT_CAPACITY \<and> (\<forall>i. i < length marks \<longrightarrow> marks ! i \<le> 2) \<and>
        length (pm_dependency_order m) = POWER_PARTICIPANT_CAPACITY \<and>
        count \<le> length ps \<and> distinct (take count (pm_dependency_order m)) \<and>
        set (take count (pm_dependency_order m)) = {i. i < length ps \<and> marks ! i = 2} \<and>
        ordered_upto ps (pm_dependency_order m) count)"

text \<open>The search changes nothing but the order and the failure.\<close>

definition reordered :: "power_manager \<Rightarrow> power_manager \<Rightarrow> bool" where
  "reordered m m' \<longleftrightarrow>
     (\<exists>order f. m' = on_status (\<lambda>s. s\<lparr>pw_failure := f\<rparr>) (m\<lparr>pm_dependency_order := order\<rparr>))"

lemma reordered_refl [simp]: "reordered m m"
  unfolding reordered_def
  by (rule exI [of _ "pm_dependency_order m"], rule exI [of _ "pw_failure (pm_status m)"]) (simp add: on_status_def)

lemma reordered_trans: "reordered m m' \<Longrightarrow> reordered m' m'' \<Longrightarrow> reordered m m''"
  unfolding reordered_def on_status_def
proof (elim exE)
  fix order f order' f'
  assume "m' = m\<lparr>pm_dependency_order := order, pm_status := pm_status (m\<lparr>pm_dependency_order := order\<rparr>)\<lparr>pw_failure := f\<rparr>\<rparr>"
    and "m'' = m'\<lparr>pm_dependency_order := order', pm_status := pm_status (m'\<lparr>pm_dependency_order := order'\<rparr>)\<lparr>pw_failure := f'\<rparr>\<rparr>"
  then have "m'' = m\<lparr>pm_dependency_order := order',
      pm_status := pm_status (m\<lparr>pm_dependency_order := order'\<rparr>)\<lparr>pw_failure := f'\<rparr>\<rparr>" by simp
  then show "\<exists>order f. m'' = m\<lparr>pm_dependency_order := order,
      pm_status := pm_status (m\<lparr>pm_dependency_order := order\<rparr>)\<lparr>pw_failure := f\<rparr>\<rparr>" by blast
qed

lemma reordered_failure: "reordered m (record_failure code name m)"
  unfolding reordered_def record_failure_def
  by (rule exI [of _ "pm_dependency_order m"]) (auto simp: on_status_def)

lemma reordered_order: "reordered m (m\<lparr>pm_dependency_order := order\<rparr>)"
  unfolding reordered_def
  by (rule exI [of _ order], rule exI [of _ "pw_failure (pm_status m)"]) (simp add: on_status_def)

lemma record_failure_keeps [simp]:
  "pm_participants (record_failure code name m) = pm_participants m"
  "pm_dependency_order (record_failure code name m) = pm_dependency_order m"
  "pm_log (record_failure code name m) = pm_log m"
  by (simp_all add: record_failure_def on_status_def)

lemma visit_ok_failure [simp]:
  "visit_ok ps (marks, count, record_failure code name m) = visit_ok ps (marks, count, m)"
  by (simp add: visit_ok_def)

lemma visit_ok_mark:
  assumes "visit_ok ps (marks, count, m)" and "i < length ps" and "marks ! i = 0"
  shows "visit_ok ps (marks[i := 1], count, m)"
proof -
  have "{j. j < length ps \<and> marks[i := 1] ! j = 2} = {j. j < length ps \<and> marks ! j = 2}"
    using assms(3) by (intro Collect_cong) (metis nth_list_update_neq nth_list_update_eq list_update_beyond not_le
        zero_neq_numeral one_eq_numeral_iff num.distinct(1))
  moreover have "marks[i := 1] ! j \<le> 2" if "j < length marks" for j
    using assms(1) that by (cases "j = i") (auto simp: visit_ok_def)
  ultimately show ?thesis using assms(1) by (simp add: visit_ok_def)
qed

lemma power_find_found:
  assumes "power_find name m \<noteq> POWER_PARTICIPANT_CAPACITY"
  shows "power_find name m < length (pm_participants m) \<and> pp_name (pm_participants m ! power_find name m) = name"
proof -
  have i: "length (takeWhile (\<lambda>p. pp_name p \<noteq> name) (pm_participants m)) < length (pm_participants m)"
    using assms by (auto simp: power_find_def Let_def split: if_splits)
  show ?thesis using i nth_length_takeWhile [OF i] by (simp add: power_find_def Let_def)
qed

lemma visit_ok_place:
  assumes ok: "visit_ok ps (marks, count, m)" and i: "i < length ps" "marks ! i = 1"
    and deps: "\<forall>name \<in> set (pp_dependencies (ps ! i)). \<exists>b < count. pp_name (ps ! (pm_dependency_order m ! b)) = name"
  shows "visit_ok ps (marks[i := 2], count + 1, m\<lparr>pm_dependency_order := (pm_dependency_order m)[count := i]\<rparr>)"
proof -
  let ?order = "pm_dependency_order m"
  have len: "length ps \<le> 16" "length marks = 16" "length ?order = 16" "count \<le> length ps"
    using ok by (auto simp: visit_ok_def POWER_PARTICIPANT_CAPACITY_def)
  have set: "set (take count ?order) = {j. j < length ps \<and> marks ! j = 2}" and dist: "distinct (take count ?order)"
    using ok by (auto simp: visit_ok_def)
  have new: "i \<notin> set (take count ?order)" using set i by simp
  have "set (take count ?order) \<subseteq> {..<length ps} - {i}" using new set by auto
  then have "card (set (take count ?order)) \<le> card ({..<length ps} - {i})" by (intro card_mono) auto
  then have room: "count < length ps" using dist len i by (simp add: distinct_card)
  then have "count < length ?order" using len by simp
  then have take: "take (count + 1) (?order[count := i]) = take count ?order @ [i]"
    by (simp add: take_Suc_conv_app_nth)
  have "ordered_upto ps (?order[count := i]) (count + 1)"
    unfolding ordered_upto_def
  proof (intro allI impI ballI)
    fix a name
    assume a: "a < count + 1" and name: "name \<in> set (pp_dependencies (ps ! (?order[count := i] ! a)))"
    show "\<exists>b<a. pp_name (ps ! (?order[count := i] ! b)) = name"
    proof (cases "a < count")
      case True
      then have "name \<in> set (pp_dependencies (ps ! (?order ! a)))" using name by simp
      moreover have "ordered_upto ps ?order count" using ok by (simp add: visit_ok_def)
      ultimately obtain b where "b < a" "pp_name (ps ! (?order ! b)) = name"
        using True unfolding ordered_upto_def by blast
      then show ?thesis using True by (intro exI [of _ b]) simp
    next
      case False
      then have "a = count" using a by simp
      then have "name \<in> set (pp_dependencies (ps ! i))" using name \<open>count < length ?order\<close> by simp
      then obtain b where "b < count" "pp_name (ps ! (?order ! b)) = name" using deps by blast
      then show ?thesis using \<open>a = count\<close> by (intro exI [of _ b]) simp
    qed
  qed
  moreover have "set (take count ?order @ [i]) = {j. j < length ps \<and> marks[i := 2] ! j = 2}"
    using set i len by (auto simp: nth_list_update split: if_splits)
  moreover have "marks[i := 2] ! j \<le> 2" if "j < length marks" for j
    using ok that by (cases "j = i") (auto simp: visit_ok_def)
  ultimately show ?thesis
    using ok take dist new room len by (simp add: visit_ok_def POWER_PARTICIPANT_CAPACITY_def)
qed

text \<open>
  What a successful and a failed visit leave: the order only grows, marks only advance, and after a
  success no node is left open that was not open before.
\<close>

definition extends :: "visit_state \<Rightarrow> visit_state \<Rightarrow> bool" where
  "extends v v' \<longleftrightarrow>
     (case (v, v') of ((marks, count, m), (marks', count', m')) \<Rightarrow>
        count \<le> count' \<and> take count (pm_dependency_order m') = take count (pm_dependency_order m) \<and>
        zeros marks' \<le> zeros marks \<and> reordered m m')"

lemma extends_refl [simp]: "extends v v"
  by (cases v) (simp add: extends_def)

lemma extends_trans: "extends v v' \<Longrightarrow> extends v' v'' \<Longrightarrow> extends v v''"
proof (cases v; cases v'; cases v'')
  fix marks count m marks' count' m' marks'' count'' m''
  assume v: "v = (marks, count, m)" "v' = (marks', count', m')" "v'' = (marks'', count'', m'')"
    and steps: "extends v v'" "extends v' v''"
  have le: "count \<le> count'" using steps v by (simp add: extends_def)
  have "take count (pm_dependency_order m'') = take count (take count' (pm_dependency_order m''))"
    using le by (simp add: min_def)
  also have "\<dots> = take count (pm_dependency_order m')" using steps v by (simp add: extends_def min_def)
  also have "\<dots> = take count (pm_dependency_order m)" using steps v by (simp add: extends_def)
  finally have "take count (pm_dependency_order m'') = take count (pm_dependency_order m)" .
  moreover have "reordered m m''" using steps v reordered_trans by (simp add: extends_def) blast
  ultimately show ?thesis using steps v by (simp add: extends_def)
qed

definition same_open :: "visit_state \<Rightarrow> visit_state \<Rightarrow> bool" where
  "same_open v v' \<longleftrightarrow> (\<forall>j. (fst v' ! j = 1) = (fst v ! j = 1))"

lemma extends_named:
  assumes "extends (marks, count, m) (marks', count', m')"
    and "\<exists>b < count. pp_name (ps ! (pm_dependency_order m ! b)) = name"
  shows "\<exists>b < count'. pp_name (ps ! (pm_dependency_order m' ! b)) = name"
proof -
  obtain b where b: "b < count" "pp_name (ps ! (pm_dependency_order m ! b)) = name" using assms(2) by blast
  have "take count (pm_dependency_order m') = take count (pm_dependency_order m)" "count \<le> count'"
    using assms(1) by (simp_all add: extends_def)
  then have "pm_dependency_order m' ! b = pm_dependency_order m ! b" using b(1) by (metis nth_take)
  then show ?thesis using b \<open>count \<le> count'\<close> by (intro exI [of _ b]) simp
qed

lemma visit_spec:
  "visit_ok ps v \<Longrightarrow> i < length ps \<Longrightarrow> zeros (fst v) < depth \<Longrightarrow>
     \<exists>r v'. visit depth i v = Some (r, v') \<and> visit_ok ps v' \<and> extends v v' \<and>
       (r \<longrightarrow> same_open v v' \<and> fst v' ! i = 2)"
  "visit_ok ps v \<Longrightarrow> zeros (fst v) < depth \<Longrightarrow>
     \<exists>r marks' count' m'. visit_dependencies depth names v = Some (r, marks', count', m') \<and>
       visit_ok ps (marks', count', m') \<and> extends v (marks', count', m') \<and>
       (r \<longrightarrow> same_open v (marks', count', m') \<and>
         (\<forall>name \<in> set names. \<exists>b < count'. pp_name (ps ! (pm_dependency_order m' ! b)) = name))"
proof (induction depth i v and depth names v rule: visit_visit_dependencies.induct)
  case (1 index v)
  then show ?case by simp
next
  case (2 depth index marks count m)
  note ok = "2.prems"(1) and index = "2.prems"(2) and depth = "2.prems"(3)
  have ps: "pm_participants m = ps" and len: "index < length marks"
    using ok index by (auto simp: visit_ok_def)
  show ?case
  proof (cases "marks ! index = 2 \<or> marks ! index = 1")
    case True
    then show ?thesis using ok by (auto simp: extends_def same_open_def reordered_failure)
  next
    case False
    have "marks ! index \<le> 2" using ok len by (simp add: visit_ok_def)
    then have zero: "marks ! index = 0" using False by linarith
    have ok1: "visit_ok ps (marks[index := 1], count, m)" using visit_ok_mark [OF ok index zero] .
    have "zeros (marks[index := 1]) < depth" using depth zeros_pos [OF len zero] len zero by simp
    then obtain r marks' count' m' where run: "visit_dependencies depth (pp_dependencies (pm_participants m ! index))
          (marks[index := 1], count, m) = Some (r, marks', count', m')"
      and ok': "visit_ok ps (marks', count', m')" and ext: "extends (marks[index := 1], count, m) (marks', count', m')"
      and res: "r \<Longrightarrow> same_open (marks[index := 1], count, m) (marks', count', m') \<and>
        (\<forall>name \<in> set (pp_dependencies (ps ! index)). \<exists>b < count'. pp_name (ps ! (pm_dependency_order m' ! b)) = name)"
      using "2.IH" [of] False ok1 ps by fastforce
    have ext': "extends (marks, count, m) (marks', count', m')"
      using ext len zero by (auto simp: extends_def)
    show ?thesis
    proof (cases r)
      case False
      then show ?thesis using run ok' ext' \<open>\<not> (marks ! index = 2 \<or> marks ! index = 1)\<close> by auto
    next
      case True
      note res = res [OF True]
      have open_index: "marks' ! index = 1" using res len by (simp add: same_open_def)
      let ?v = "(marks'[index := 2], count' + 1, m'\<lparr>pm_dependency_order := (pm_dependency_order m')[count' := index]\<rparr>)"
      have "visit_ok ps ?v" using visit_ok_place [OF ok' index open_index] res by blast
      moreover have "extends (marks', count', m') ?v"
        using open_index by (cases "index < length marks'") (simp_all add: extends_def reordered_order list_update_beyond)
      then have "extends (marks, count, m) ?v" using ext' extends_trans by blast
      moreover have "same_open (marks, count, m) ?v"
        using res zero len ok' ok by (auto simp: same_open_def nth_list_update visit_ok_def)
      moreover have "marks'[index := 2] ! index = 2" using ok' ok len by (simp add: visit_ok_def)
      ultimately show ?thesis using run True \<open>\<not> (marks ! index = 2 \<or> marks ! index = 1)\<close> by auto
    qed
  qed
next
  case (3 depth v)
  then show ?case by (cases v) (auto simp: same_open_def)
next
  case (4 depth name names marks count m)
  note ok = "4.prems"(1) and depth = "4.prems"(2)
  have ps: "pm_participants m = ps" using ok by (simp add: visit_ok_def)
  show ?case
  proof (cases "power_find name m = POWER_PARTICIPANT_CAPACITY")
    case True
    then show ?thesis using ok by (auto simp: extends_def reordered_failure)
  next
    case False
    let ?d = "power_find name m"
    have found: "?d < length ps" "pp_name (ps ! ?d) = name" using power_find_found [OF False] ps by simp_all
    obtain r1 marks1 count1 m1 where one: "visit depth ?d (marks, count, m) = Some (r1, marks1, count1, m1)"
      "visit_ok ps (marks1, count1, m1)" "extends (marks, count, m) (marks1, count1, m1)"
      "r1 \<Longrightarrow> same_open (marks, count, m) (marks1, count1, m1) \<and> marks1 ! ?d = 2"
      using "4.IH"(1) [OF refl False ok found(1) depth] by fastforce
    show ?thesis
    proof (cases r1)
      case False
      then show ?thesis using one \<open>?d \<noteq> POWER_PARTICIPANT_CAPACITY\<close> by (auto simp: Let_def)
    next
      case True
      have "zeros marks1 < depth" using one(3) depth by (simp add: extends_def)
      then obtain r2 marks2 count2 m2 where two:
        "visit_dependencies depth names (marks1, count1, m1) = Some (r2, marks2, count2, m2)"
        "visit_ok ps (marks2, count2, m2)" "extends (marks1, count1, m1) (marks2, count2, m2)"
        "r2 \<Longrightarrow> same_open (marks1, count1, m1) (marks2, count2, m2) \<and>
          (\<forall>name \<in> set names. \<exists>b < count2. pp_name (ps ! (pm_dependency_order m2 ! b)) = name)"
        using "4.IH"(2) [OF refl False] one(1,2) True by fastforce
      have "?d \<in> set (take count1 (pm_dependency_order m1))" using one(2,4) True found by (simp add: visit_ok_def)
      then have "\<exists>b < count1. pp_name (ps ! (pm_dependency_order m1 ! b)) = name"
        using found(2) by (auto simp: in_set_conv_nth)
      then have "\<exists>b < count2. pp_name (ps ! (pm_dependency_order m2 ! b)) = name"
        using extends_named [OF two(3)] by blast
      then show ?thesis
        using one two True False extends_trans [OF one(3) two(3)] by (auto simp: Let_def same_open_def)
    qed
  qed
qed

lemma takeWhile_found: "\<exists>x \<in> set xs. \<not> P x \<Longrightarrow> length (takeWhile P xs) < length xs"
  by (induction xs) auto

definition registered :: "power_participant list \<Rightarrow> bool" where
  "registered ps \<longleftrightarrow> (\<forall>p \<in> set ps. set (pp_dependencies p) \<subseteq> pp_name ` set ps)"

definition dependency :: "power_participant list \<Rightarrow> (nat \<times> nat) set" where
  "dependency ps = {(j, i). j < length ps \<and> i < length ps \<and> depends ps j i}"

lemma visit_sound:
  assumes "visit_ok ps v" and "i < length ps" and "zeros (fst v) < depth" and "visit depth i v = Some (r, v')"
  shows "visit_ok ps v' \<and> extends v v' \<and> (r \<longrightarrow> same_open v v' \<and> fst v' ! i = 2)"
  using visit_spec(1) [OF assms(1-3)] assms(4) by auto

text \<open>
  With every dependency registered and no cycle the search cannot fail: an open node leads to the
  one visited, so visiting an open node would close a cycle.
\<close>

lemma visit_succeeds:
  "registered ps \<Longrightarrow> acyclic (dependency ps) \<Longrightarrow> visit_ok ps v \<Longrightarrow> i < length ps \<Longrightarrow> zeros (fst v) < depth \<Longrightarrow>
     \<forall>j < length ps. fst v ! j = 1 \<longrightarrow> (j, i) \<in> (dependency ps)\<^sup>+ \<Longrightarrow>
     \<exists>v'. visit depth i v = Some (True, v')"
  "registered ps \<Longrightarrow> acyclic (dependency ps) \<Longrightarrow> visit_ok ps v \<Longrightarrow> k < length ps \<Longrightarrow> zeros (fst v) < depth \<Longrightarrow>
     set names \<subseteq> set (pp_dependencies (ps ! k)) \<Longrightarrow>
     \<forall>j < length ps. fst v ! j = 1 \<longrightarrow> (j, k) \<in> (dependency ps)\<^sup>* \<Longrightarrow>
     \<exists>v'. visit_dependencies depth names v = Some (True, v')"
proof (induction depth i v and depth names v arbitrary: and k rule: visit_visit_dependencies.induct)
  case (1 index v)
  then show ?case by simp
next
  case (2 depth index marks count m)
  note ok = "2.prems"(3) and index = "2.prems"(4) and depth = "2.prems"(5) and path = "2.prems"(6)
  have ps: "pm_participants m = ps" and len: "index < length marks"
    using ok index by (auto simp: visit_ok_def)
  have "marks ! index \<noteq> 1" using path index "2.prems"(2) by (auto simp: acyclic_def)
  show ?case
  proof (cases "marks ! index = 2")
    case False
    have "marks ! index \<le> 2" using ok len by (simp add: visit_ok_def)
    then have zero: "marks ! index = 0" using False \<open>marks ! index \<noteq> 1\<close> by linarith
    have "zeros (marks[index := 1]) < depth" using depth zeros_pos [OF len zero] len zero by simp
    moreover have "\<forall>j < length ps. marks[index := 1] ! j = 1 \<longrightarrow> (j, index) \<in> (dependency ps)\<^sup>*"
      using path len by (auto simp: nth_list_update trancl_into_rtrancl)
    ultimately have "\<exists>v'. visit_dependencies depth (pp_dependencies (ps ! index)) (marks[index := 1], count, m) = Some (True, v')"
      using "2.IH" [OF False \<open>marks ! index \<noteq> 1\<close>, of index] "2.prems"(1,2) visit_ok_mark [OF ok index zero] index ps
      by simp
    then show ?thesis using False \<open>marks ! index \<noteq> 1\<close> ps by auto
  qed simp
next
  case (3 depth v)
  then show ?case by (cases v) simp
next
  case (4 depth name names marks count m)
  note ok = "4.prems"(3) and k = "4.prems"(4) and depth = "4.prems"(5) and sub = "4.prems"(6) and path = "4.prems"(7)
  have ps: "pm_participants m = ps" using ok by (simp add: visit_ok_def)
  have "name \<in> pp_name ` set ps" using "4.prems"(1) sub k by (auto simp: registered_def)
  then obtain p where "p \<in> set ps" "pp_name p = name" by auto
  then have "length (takeWhile (\<lambda>p. pp_name p \<noteq> name) ps) < length ps"
    by (intro takeWhile_found) auto
  moreover have "length ps \<le> 16" using ok by (simp add: visit_ok_def POWER_PARTICIPANT_CAPACITY_def)
  ultimately have found: "power_find name m \<noteq> POWER_PARTICIPANT_CAPACITY"
    by (simp add: power_find_def ps POWER_PARTICIPANT_CAPACITY_def Let_def)
  let ?d = "power_find name m"
  have d: "?d < length ps" "pp_name (ps ! ?d) = name" using power_find_found [OF found] ps by simp_all
  have "(k, ?d) \<in> dependency ps" using d k sub by (simp add: dependency_def depends_def)
  then have "\<forall>j < length ps. marks ! j = 1 \<longrightarrow> (j, ?d) \<in> (dependency ps)\<^sup>+"
    using path by (auto intro: rtrancl_into_trancl1)
  then obtain marks1 count1 m1 where one: "visit depth ?d (marks, count, m) = Some (True, marks1, count1, m1)"
    using "4.IH"(1) [OF refl found "4.prems"(1,2) ok d(1) depth] by auto
  have sound: "visit_ok ps (marks1, count1, m1)" "extends (marks, count, m) (marks1, count1, m1)"
    "same_open (marks, count, m) (marks1, count1, m1)"
    using visit_sound [OF ok d(1) depth one] by simp_all
  have "zeros marks1 < depth" using sound(2) depth by (simp add: extends_def)
  moreover have "\<forall>j < length ps. marks1 ! j = 1 \<longrightarrow> (j, k) \<in> (dependency ps)\<^sup>*"
    using path sound(3) by (simp add: same_open_def)
  ultimately have "\<exists>v'. visit_dependencies depth names (marks1, count1, m1) = Some (True, v')"
    using "4.IH"(2) [OF refl found one refl refl, of k] "4.prems"(1,2) sound(1) k sub by simp
  then show ?case using one found by (auto simp: Let_def)
qed

section \<open>Finalizing\<close>

lemma marked_persists:
  assumes "visit_ok ps v" and "visit_ok ps v'" and "extends v v'" and "i < length ps" and "fst v ! i = 2"
  shows "fst v' ! i = 2"
proof -
  obtain marks count m marks' count' m' where v: "v = (marks, count, m)" "v' = (marks', count', m')"
    by (metis surj_pair)
  have "i \<in> set (take count (pm_dependency_order m))" using assms v by (simp add: visit_ok_def)
  also have "take count (pm_dependency_order m) = take count (pm_dependency_order m')"
    using assms(3) v by (simp add: extends_def)
  also have "set \<dots> \<subseteq> set (take count' (pm_dependency_order m'))"
    using assms(3) v by (intro set_take_subset_set_take) (simp add: extends_def)
  finally show ?thesis using assms(2) v by (simp add: visit_ok_def)
qed

text \<open>What \<^verbatim>\<open>power_manager_finalize\<close> may change.\<close>

definition refinalized :: "power_manager \<Rightarrow> power_manager \<Rightarrow> bool" where
  "refinalized m m' \<longleftrightarrow>
     (\<exists>order f a. m' = on_status (\<lambda>s. s\<lparr>pw_failure := f, pw_suspend_available := a\<rparr>) (m\<lparr>pm_dependency_order := order\<rparr>))"

lemma refinalized_refl [simp]: "refinalized m m"
  unfolding refinalized_def
  by (rule exI [of _ "pm_dependency_order m"], rule exI [of _ "pw_failure (pm_status m)"],
      rule exI [of _ "pw_suspend_available (pm_status m)"]) (simp add: on_status_def)

lemma status_commute:
  "s\<lparr>pw_suspend_available := a, pw_failure := f\<rparr> = s\<lparr>pw_failure := f, pw_suspend_available := a\<rparr>"
  by (cases s) simp

lemma refinalized_reordered: "refinalized m m' \<Longrightarrow> reordered m' m'' \<Longrightarrow> refinalized m m''"
  unfolding refinalized_def reordered_def on_status_def by (clarsimp simp: status_commute) blast

lemma refinalized_unavailable:
  "refinalized m m' \<Longrightarrow> refinalized m (on_status (\<lambda>s. s\<lparr>pw_suspend_available := a\<rparr>) m')"
  unfolding refinalized_def on_status_def by clarsimp blast

lemma reordered_available: "reordered m m' \<Longrightarrow> pw_suspend_available (pm_status m') = pw_suspend_available (pm_status m)"
  by (auto simp: reordered_def on_status_def)

lemma visit_all_spec:
  assumes "visit_ok ps (marks, count, m)" and "set is \<subseteq> {..<length ps}" and "zeros marks < VISIT_DEPTH"
    and "refinalized m0 m"
  shows "\<exists>marks' count' m'. visit_all is (marks, count, m) = Some (marks', count', m') \<and>
    visit_ok ps (marks', count', m') \<and> refinalized m0 m' \<and>
    (\<forall>i < length ps. marks ! i = 2 \<longrightarrow> marks' ! i = 2) \<and>
    (pw_suspend_available (pm_status m') \<longrightarrow> pw_suspend_available (pm_status m) \<and> (\<forall>i \<in> set is. marks' ! i = 2)) \<and>
    (registered ps \<and> acyclic (dependency ps) \<and> (\<forall>j < length ps. marks ! j \<noteq> 1) \<longrightarrow>
       pw_suspend_available (pm_status m') = pw_suspend_available (pm_status m))"
  using assms
proof (induction "is" arbitrary: marks count m)
  case Nil
  then show ?case by simp
next
  case (Cons i rest)
  have i: "i < length ps" using Cons.prems(2) by simp
  have depth: "zeros (fst (marks, count, m)) < VISIT_DEPTH" using Cons.prems(3) by simp
  obtain r marks1 count1 m1 where one: "visit VISIT_DEPTH i (marks, count, m) = Some (r, marks1, count1, m1)"
    using visit_spec(1) [OF Cons.prems(1) i depth] by auto
  have sound: "visit_ok ps (marks1, count1, m1)" "extends (marks, count, m) (marks1, count1, m1)"
    "r \<Longrightarrow> same_open (marks, count, m) (marks1, count1, m1) \<and> marks1 ! i = 2"
    using visit_sound [OF Cons.prems(1) i depth one] by simp_all
  define m2 where "m2 = (if r then m1 else on_status (\<lambda>s. s\<lparr>pw_suspend_available := False\<rparr>) m1)"
  have step: "visit_all (i # rest) (marks, count, m) = visit_all rest (marks1, count1, m2)"
    using one by (cases r) (simp_all add: m2_def)
  have ok2: "visit_ok ps (marks1, count1, m2)" using sound(1) by (simp add: m2_def visit_ok_def on_status_def)
  have "refinalized m0 m1" using refinalized_reordered Cons.prems(4) sound(2) by (auto simp: extends_def)
  then have frame: "refinalized m0 m2" using refinalized_unavailable by (simp add: m2_def)
  have zeros1: "zeros marks1 < VISIT_DEPTH" using sound(2) Cons.prems(3) by (simp add: extends_def)
  obtain marks' count' m' where rest: "visit_all rest (marks1, count1, m2) = Some (marks', count', m')"
    "visit_ok ps (marks', count', m')" "refinalized m0 m'" "\<forall>i < length ps. marks1 ! i = 2 \<longrightarrow> marks' ! i = 2"
    "pw_suspend_available (pm_status m') \<Longrightarrow> pw_suspend_available (pm_status m2) \<and> (\<forall>i \<in> set rest. marks' ! i = 2)"
    "registered ps \<and> acyclic (dependency ps) \<and> (\<forall>j < length ps. marks1 ! j \<noteq> 1) \<Longrightarrow>
       pw_suspend_available (pm_status m') = pw_suspend_available (pm_status m2)"
    using Cons.IH [OF ok2 _ zeros1 frame] Cons.prems(2) by auto
  have keep: "\<forall>i < length ps. marks ! i = 2 \<longrightarrow> marks' ! i = 2"
    using marked_persists [OF Cons.prems(1) sound(1,2)] rest(4) by auto
  have same: "pw_suspend_available (pm_status m1) = pw_suspend_available (pm_status m)"
    using sound(2) reordered_available by (auto simp: extends_def)
  have avail2: "pw_suspend_available (pm_status m2) \<longleftrightarrow> r \<and> pw_suspend_available (pm_status m)"
    using same by (auto simp: m2_def on_status_def)
  have "pw_suspend_available (pm_status m') = pw_suspend_available (pm_status m)"
    if "registered ps \<and> acyclic (dependency ps) \<and> (\<forall>j < length ps. marks ! j \<noteq> 1)"
  proof -
    have "\<exists>v'. visit VISIT_DEPTH i (marks, count, m) = Some (True, v')"
      using that visit_succeeds(1) [OF _ _ Cons.prems(1) i depth] by simp
    then have "r" using one by simp
    then have "same_open (marks, count, m) (marks1, count1, m1)" using sound(3) by simp
    then have "\<forall>j < length ps. marks1 ! j \<noteq> 1" using that by (simp add: same_open_def)
    then have "pw_suspend_available (pm_status m') = pw_suspend_available (pm_status m2)" using rest(6) that by simp
    then show ?thesis using avail2 \<open>r\<close> by simp
  qed
  moreover have "pw_suspend_available (pm_status m) \<and> (\<forall>j \<in> set (i # rest). marks' ! j = 2)"
    if "pw_suspend_available (pm_status m')"
    using rest(4) rest(5) [OF that] that avail2 sound(3) i by auto
  ultimately show ?case using step rest(1-3) keep by simp
qed

definition topological :: "power_manager \<Rightarrow> bool" where
  "topological m \<longleftrightarrow>
     (let n = length (pm_participants m); order = take n (pm_dependency_order m)
      in distinct order \<and> set order = {..<n} \<and>
         (\<forall>a < n. \<forall>b < n. depends (pm_participants m) (order ! a) (order ! b) \<longrightarrow> b < a))"

text \<open>What the registrations establish.\<close>

definition participants_ok :: "power_manager \<Rightarrow> bool" where
  "participants_ok m \<longleftrightarrow>
     distinct (map pp_name (pm_participants m)) \<and> length (pm_participants m) \<le> POWER_PARTICIPANT_CAPACITY \<and>
     length (pm_dependency_order m) = POWER_PARTICIPANT_CAPACITY"

lemma refinalized_keeps:
  assumes "refinalized m m'"
  shows "pm_participants m' = pm_participants m" "pm_log m' = pm_log m" "pm_phase m' = pm_phase m"
    "pm_finalized m' = pm_finalized m" "pw_state (pm_status m') = pw_state (pm_status m)"
    "pm_suspended m' = pm_suspended m" "pm_suspended_count m' = pm_suspended_count m" "pm_cursor m' = pm_cursor m"
    "pw_brightness_valid (pm_status m') = pw_brightness_valid (pm_status m)"
    "pw_effective_brightness (pm_status m') = pw_effective_brightness (pm_status m)"
    "pw_panel_valid (pm_status m') = pw_panel_valid (pm_status m)"
    "pw_panel_enabled (pm_status m') = pw_panel_enabled (pm_status m)"
  using assms by (auto simp: refinalized_def on_status_def)

lemma visit_ok_topological:
  assumes ok: "visit_ok ps (marks, count, m)" and all: "\<forall>i < length ps. marks ! i = 2"
    and names: "distinct (map pp_name ps)"
  shows "count = length ps \<and> topological m"
proof -
  let ?order = "take count (pm_dependency_order m)"
  have set: "set ?order = {..<length ps}" and dist: "distinct ?order" using ok all by (auto simp: visit_ok_def)
  have "length ?order = card {..<length ps}" using set dist by (metis distinct_card)
  then have count: "count = length ps" using ok by (simp add: visit_ok_def)
  have "b < a" if a: "a < length ps" and b: "b < length ps" and dep: "depends ps (?order ! a) (?order ! b)" for a b
  proof -
    have len: "length ?order = length ps" using ok count by (simp add: visit_ok_def)
    have "pp_name (ps ! (?order ! b)) \<in> set (pp_dependencies (ps ! (?order ! a)))" using dep by (simp add: depends_def)
    moreover have "ordered_upto ps (pm_dependency_order m) count" using ok by (simp add: visit_ok_def)
    moreover have "?order ! a = pm_dependency_order m ! a" using a count by simp
    ultimately obtain c where c: "c < a" "pp_name (ps ! (pm_dependency_order m ! c)) = pp_name (ps ! (?order ! b))"
      using a count unfolding ordered_upto_def by metis
    then have c: "c < a" "pp_name (ps ! (?order ! c)) = pp_name (ps ! (?order ! b))" using a count by simp_all
    have "?order ! c < length ps" "?order ! b < length ps"
      using set len c(1) a b nth_mem [of c ?order] nth_mem [of b ?order] by auto
    then have "?order ! c = ?order ! b" using c(2) names by (simp add: distinct_conv_nth) (metis nth_map)
    then have "c = b" using dist len c(1) a b by (metis less_trans nth_eq_iff_index_eq)
    then show ?thesis using c(1) by simp
  qed
  moreover have "pm_participants m = ps" using ok by (simp add: visit_ok_def)
  ultimately show ?thesis using count set dist by (simp add: topological_def Let_def)
qed

text \<open>A topological order leaves no room for a cycle or for an unregistered dependency.\<close>

lemma topological_acyclic:
  assumes "topological m"
  shows "acyclic (dependency (pm_participants m))"
proof -
  let ?ps = "pm_participants m"
  let ?n = "length ?ps"
  let ?order = "take ?n (pm_dependency_order m)"
  define position where "position i = (LEAST a. ?order ! a = i \<and> a < ?n)" for i
  have len: "length ?order = ?n" and set: "set ?order = {..<?n}" and dist: "distinct ?order"
    and before: "\<And>a b. a < ?n \<Longrightarrow> b < ?n \<Longrightarrow> depends ?ps (?order ! a) (?order ! b) \<Longrightarrow> b < a"
    using assms distinct_card [of ?order] by (auto simp: topological_def Let_def)
  have place: "?order ! position i = i \<and> position i < ?n" if "i < ?n" for i
  proof -
    have "i \<in> set ?order" using that set by simp
    then obtain a where "?order ! a = i \<and> a < ?n" using len by (auto simp: in_set_conv_nth)
    then show ?thesis unfolding position_def by (rule LeastI)
  qed
  have "position i < position j" if "(j, i) \<in> dependency ?ps" for i j
    using that before [of "position j" "position i"] place [of i] place [of j]
    by (simp add: dependency_def del: nth_take)
  then have "dependency ?ps \<subseteq> (measure position)\<inverse>" by auto
  moreover have "acyclic ((measure position)\<inverse>)" by (simp add: acyclic_converse wf_acyclic)
  ultimately show ?thesis by (rule acyclic_subset [rotated])
qed

lemma finalize_order:
  assumes "participants_ok m" and "\<not> pm_finalized m"
  shows "\<exists>r m'. power_manager_finalize m = Some (r, m') \<and> pm_finalized m' \<and>
    (\<exists>m1. refinalized m m1 \<and> m' = m1\<lparr>pm_finalized := True\<rparr>) \<and> participants_ok m' \<and>
    r = pw_suspend_available (pm_status m') \<and>
    (r \<longleftrightarrow> pw_suspend_available (pm_status m) \<and> registered (pm_participants m) \<and>
        acyclic (dependency (pm_participants m))) \<and>
    (r \<longrightarrow> topological m')"
proof -
  let ?ps = "pm_participants m"
  have ok0: "visit_ok ?ps (replicate POWER_PARTICIPANT_CAPACITY 0, 0, m)"
    using assms(1) by (auto simp: visit_ok_def participants_ok_def ordered_upto_def)
  have depth: "zeros (replicate POWER_PARTICIPANT_CAPACITY 0) < VISIT_DEPTH" by (simp add: zeros_def VISIT_DEPTH_def)
  have untouched: "\<forall>j < length ?ps. replicate POWER_PARTICIPANT_CAPACITY 0 ! j \<noteq> (1 :: nat)"
    using assms(1) by (simp add: participants_ok_def)
  have sub: "set [0..<length ?ps] \<subseteq> {..<length ?ps}" by auto
  obtain marks count m1 where run: "visit_all [0..<length ?ps] (replicate POWER_PARTICIPANT_CAPACITY 0, 0, m) = Some (marks, count, m1)"
    and ok: "visit_ok ?ps (marks, count, m1)" and frame: "refinalized m m1"
    and avail': "pw_suspend_available (pm_status m1) \<longrightarrow>
      pw_suspend_available (pm_status m) \<and> (\<forall>i \<in> set [0..<length ?ps]. marks ! i = 2)"
    and succeeds: "registered ?ps \<and> acyclic (dependency ?ps) \<and>
      (\<forall>j < length ?ps. replicate POWER_PARTICIPANT_CAPACITY 0 ! j \<noteq> (1 :: nat)) \<longrightarrow>
      pw_suspend_available (pm_status m1) = pw_suspend_available (pm_status m)"
    using visit_all_spec [OF ok0 sub depth refinalized_refl] by blast
  have avail: "pw_suspend_available (pm_status m) \<and> (\<forall>i < length ?ps. marks ! i = 2)"
    if "pw_suspend_available (pm_status m1)"
    using avail' that by simp
  let ?m = "m1\<lparr>pm_finalized := True\<rparr>"
  have fin: "power_manager_finalize m = Some (pw_suspend_available (pm_status m1), ?m)"
    using run assms(2) by (simp add: power_manager_finalize_def)
  have ps1: "pm_participants m1 = ?ps" using frame refinalized_keeps(1) by blast
  have topo: "topological m1" if "pw_suspend_available (pm_status m1)"
    using visit_ok_topological [OF ok] avail [OF that] assms(1) by (simp add: participants_ok_def)
  have "registered ?ps" if "pw_suspend_available (pm_status m1)"
  proof -
    have marks: "\<forall>i < length ?ps. marks ! i = 2" using avail [OF that] by simp
    have len: "count = length ?ps" using visit_ok_topological [OF ok marks] assms(1) by (simp add: participants_ok_def)
    have set: "set (take count (pm_dependency_order m1)) = {..<length ?ps}" using ok marks by (auto simp: visit_ok_def)
    have "name \<in> pp_name ` set ?ps" if i: "i < length ?ps" and name: "name \<in> set (pp_dependencies (?ps ! i))" for i name
    proof -
      have lenorder: "length (pm_dependency_order m1) = 16" "length ?ps \<le> 16"
        using ok by (auto simp: visit_ok_def POWER_PARTICIPANT_CAPACITY_def)
      have "i \<in> set (take count (pm_dependency_order m1))" using i set by simp
      then obtain a where a: "a < count" "pm_dependency_order m1 ! a = i" using lenorder len by (auto simp: in_set_conv_nth)
      have "ordered_upto ?ps (pm_dependency_order m1) count" using ok by (simp add: visit_ok_def)
      then obtain b where b: "b < a" "pp_name (?ps ! (pm_dependency_order m1 ! b)) = name"
        using a name unfolding ordered_upto_def by metis
      have "pm_dependency_order m1 ! b \<in> set (take count (pm_dependency_order m1))"
        using a b lenorder len by (auto simp: in_set_conv_nth intro!: exI [of _ b])
      then have "pm_dependency_order m1 ! b < length ?ps" using set by simp
      then show ?thesis using b(2) by (metis image_eqI nth_mem)
    qed
    then show ?thesis unfolding registered_def by (metis in_set_conv_nth subsetI)
  qed
  moreover have "acyclic (dependency ?ps)" if "pw_suspend_available (pm_status m1)"
    using topological_acyclic [OF topo [OF that]] ps1 by simp
  ultimately have iff: "pw_suspend_available (pm_status m1) \<longleftrightarrow>
      pw_suspend_available (pm_status m) \<and> registered ?ps \<and> acyclic (dependency ?ps)"
    using avail succeeds untouched by blast
  have "participants_ok ?m" using ok assms(1) by (simp add: participants_ok_def visit_ok_def)
  moreover have "topological ?m = topological m1" by (simp add: topological_def)
  ultimately have "pm_finalized ?m \<and> (\<exists>m1. refinalized m m1 \<and> ?m = m1\<lparr>pm_finalized := True\<rparr>) \<and>
      participants_ok ?m \<and> pw_suspend_available (pm_status m1) = pw_suspend_available (pm_status ?m) \<and>
      (pw_suspend_available (pm_status m1) \<longrightarrow> topological ?m)"
    using frame topo by auto
  then show ?thesis using fin iff by blast
qed

lemma finalize_frame:
  assumes "participants_ok m" and "\<not> pm_finalized m" and "power_manager_finalize m = Some (r, m')"
  shows "\<exists>m1. refinalized m m1 \<and> m' = m1\<lparr>pm_finalized := True\<rparr> \<and> participants_ok m' \<and>
    (pw_suspend_available (pm_status m') \<longrightarrow> topological m')"
proof -
  obtain r2 m2 where all: "power_manager_finalize m = Some (r2, m2)"
    "\<exists>m1. refinalized m m1 \<and> m2 = m1\<lparr>pm_finalized := True\<rparr>" "participants_ok m2"
    "r2 = pw_suspend_available (pm_status m2)" "r2 \<longrightarrow> topological m2"
    using finalize_order [OF assms(1,2)] by blast
  moreover have "r2 = r" "m2 = m'" using all(1) assms(3) by simp_all
  ultimately show ?thesis by blast
qed

section \<open>Registration\<close>

lemma display_keeps_participants [simp]:
  "pm_participants (snd (set_brightness env b m)) = pm_participants m"
  "pm_participants (snd (set_panel env e m)) = pm_participants m"
  "pm_dependency_order (snd (set_brightness env b m)) = pm_dependency_order m"
  "pm_dependency_order (snd (set_panel env e m)) = pm_dependency_order m"
  "pm_finalized (snd (set_brightness env b m)) = pm_finalized m"
  "pm_finalized (snd (set_panel env e m)) = pm_finalized m"
  by (simp_all add: set_brightness_def set_panel_def Let_def on_status_def called_def record_failure_def)

lemma set_display_keeps:
  assumes "\<And>m b. P m \<Longrightarrow> P (snd (set_brightness env b m))" and "\<And>m e. P m \<Longrightarrow> P (snd (set_panel env e m))"
    and "\<And>m b. P m \<Longrightarrow> P (on_status (\<lambda>s. s\<lparr>pw_desired_brightness := b\<rparr>) m)" and "P m"
  shows "P (set_display env b e m)"
proof -
  have one: "P (case f m of (True, m') \<Rightarrow> snd (g m') | (False, m') \<Rightarrow> m')"
    if "\<And>m. P m \<Longrightarrow> P (snd (f m))" "\<And>m. P m \<Longrightarrow> P (snd (g m))" "P m" for f g m
    using that(1) [OF that(3)] that(2) by (cases "f m"; cases "fst (f m)") auto
  show ?thesis
    unfolding set_display_def Let_def
    by (rule if_both; rule one) (use assms in auto)
qed

lemma init_participants_ok:
  assumes "power_manager_init env mutex policy now = Some m"
  shows "participants_ok m \<and> \<not> pm_finalized m"
proof -
  have "participants_ok (restore_display env m') \<and> \<not> pm_finalized (restore_display env m')"
    if "participants_ok m' \<and> \<not> pm_finalized m'" for m'
    unfolding restore_display_def
    by (rule set_display_keeps) (use that in \<open>auto simp: participants_ok_def on_status_def\<close>)
  moreover have "participants_ok manager_zero \<and> \<not> pm_finalized manager_zero"
    by (simp add: participants_ok_def manager_zero_def)
  then have "participants_ok (manager_zero\<lparr>pm_status := s\<rparr>) \<and> \<not> pm_finalized (manager_zero\<lparr>pm_status := s\<rparr>)" for s
    by (simp add: participants_ok_def)
  moreover have "\<exists>s. m = restore_display env (manager_zero\<lparr>pm_status := s\<rparr>)"
    using assms unfolding power_manager_init_def by (metis option.distinct(1) option.inject)
  ultimately show ?thesis by blast
qed

lemma refuse_keeps [simp]:
  "pm_participants (refuse code name m) = pm_participants m"
  "pm_dependency_order (refuse code name m) = pm_dependency_order m"
  "pm_finalized (refuse code name m) = pm_finalized m"
  "pm_log (refuse code name m) = pm_log m"
  by (simp_all add: refuse_def record_failure_def on_status_def)

lemma power_find_missing:
  assumes "power_find name m = POWER_PARTICIPANT_CAPACITY" and "length (pm_participants m) < POWER_PARTICIPANT_CAPACITY"
  shows "name \<notin> pp_name ` set (pm_participants m)"
  using assms takeWhile_found [of "pm_participants m" "\<lambda>p. pp_name p \<noteq> name"]
  by (auto simp: power_find_def Let_def split: if_splits)

lemma register_participants:
  assumes "participants_ok m"
  shows "participants_ok (snd (power_manager_register r m))"
proof (cases "snd (power_manager_register r m) = m \<or> (\<exists>code name. snd (power_manager_register r m) = refuse code name m)")
  case True
  then show ?thesis using assms by (auto simp: participants_ok_def)
next
  case False
  then obtain reg where r: "r = Some reg" by (cases r) (auto simp: power_manager_register_def)
  define name where "name = the (rg_name reg)"
  have room: "name_ok (rg_name reg)" "length (pm_participants m) \<noteq> POWER_PARTICIPANT_CAPACITY"
    "power_find name m = POWER_PARTICIPANT_CAPACITY"
    using False by (auto simp: power_manager_register_def r name_def Let_def split: if_splits)
  have "length (pm_participants m) < POWER_PARTICIPANT_CAPACITY" using room(2) assms by (simp add: participants_ok_def)
  then have new: "name \<notin> pp_name ` set (pm_participants m)" and "length (pm_participants m) < POWER_PARTICIPANT_CAPACITY"
    using power_find_missing [OF room(3)] by simp_all
  moreover have "bounded_name name = name"
    using room(1) by (auto simp: name_ok_def bounded_name_def name_def POWER_NAME_CAPACITY_def split: option.splits)
  moreover obtain p where "snd (power_manager_register r m) = m\<lparr>pm_participants := pm_participants m @ [p]\<rparr>"
      "pp_name p = bounded_name name"
    using False by (auto simp: power_manager_register_def r name_def Let_def split: if_splits)
  ultimately show ?thesis using assms by (simp add: participants_ok_def)
qed

lemma register_finalized [simp]: "pm_finalized (snd (power_manager_register r m)) = pm_finalized m"
  by (auto simp: power_manager_register_def Let_def split: option.split)

definition register_all :: "power_participant_registration option list \<Rightarrow> power_manager \<Rightarrow> power_manager" where
  "register_all registrations m = fold (\<lambda>r m. snd (power_manager_register r m)) registrations m"

lemma register_all_ok:
  "participants_ok m \<Longrightarrow> participants_ok (register_all rs m) \<and> pm_finalized (register_all rs m) = pm_finalized m"
  unfolding register_all_def by (induction rs arbitrary: m) (simp_all add: register_participants)

text \<open>
  C39. Whatever was registered, finalizing ends and answers whether suspension is possible: it is
  exactly when no registration was refused, every dependency is registered and the dependencies
  have no cycle. The order it then leaves lists every participant once, each after everything it
  depends on.
\<close>

theorem power_finalize_order:
  assumes "power_manager_init env mutex policy now = Some m0" and "m = register_all registrations m0"
  shows "\<exists>possible m'. power_manager_finalize m = Some (possible, m') \<and>
    (possible \<longleftrightarrow> pw_suspend_available (pm_status m) \<and> registered (pm_participants m) \<and>
       acyclic (dependency (pm_participants m))) \<and>
    (possible \<longrightarrow> topological m')"
proof -
  have "participants_ok m" "\<not> pm_finalized m" using init_participants_ok [OF assms(1)] register_all_ok [of m0] assms(2) by auto
  then show ?thesis using finalize_order by blast
qed

section \<open>Three participants\<close>

definition demo_policy :: power_policy where
  "demo_policy = \<lparr>po_idle_ms = 100, po_screen_off_ms = 300, po_panel_off_ms = 500, po_suspend_ms = 1000,
     po_active_brightness = 75, po_idle_brightness = 20, po_automatic_suspend = False\<rparr>"

text \<open>A platform where everything succeeds and participants that answer at once.\<close>

definition demo_env :: power_env where
  "demo_env = \<lparr>e_set_brightness = (\<lambda>log b. True), e_set_panel_enabled = (\<lambda>log e. True),
     e_prepare_sleep = (\<lambda>log. True), e_enter_light_sleep = (\<lambda>log. True), e_collect_wake_causes = (\<lambda>log. 1),
     e_restore = (\<lambda>log. True), e_blocked = (\<lambda>log i. (False, '''')),
     e_callback = (\<lambda>log i token. (POWER_CALLBACK_SUCCESS, []))\<rparr>"

definition demo_registration :: "string \<Rightarrow> string list \<Rightarrow> power_participant_registration option" where
  "demo_registration name dependencies =
     Some \<lparr>rg_name = Some name, rg_dependencies = Some (map Some dependencies),
       rg_dependency_count = length dependencies, rg_blocked = False, rg_suspend = True, rg_resume = True\<rparr>"

definition demo_registrations :: "power_participant_registration option list" where
  "demo_registrations =
     [demo_registration ''app'' [''media''], demo_registration ''storage'' [], demo_registration ''media'' [''storage'']]"

definition demo_initial :: power_manager where
  "demo_initial = the (power_manager_init demo_env True demo_policy 10)"

lemma demo_initial: "power_manager_init demo_env True demo_policy 10 = Some demo_initial"
  by (simp add: demo_initial_def power_manager_init_def policy_ok_def demo_policy_def)

theorem power_finalize_order_witness:
  "\<exists>possible m'. power_manager_finalize (register_all demo_registrations demo_initial) = Some (possible, m') \<and>
    (possible \<longleftrightarrow> pw_suspend_available (pm_status (register_all demo_registrations demo_initial)) \<and>
       registered (pm_participants (register_all demo_registrations demo_initial)) \<and>
       acyclic (dependency (pm_participants (register_all demo_registrations demo_initial))))"
  using power_finalize_order [OF demo_initial refl, of demo_registrations] by blast

end
