(* ===== verification/PowerProofs.thy ===== *)
theory PowerProofs
  imports PowerOrder
begin

text \<open>
  What the power manager of \<^verbatim>\<open>PowerManager\<close> guarantees once its participants are in order: no
  participant is suspended while one that depends on it still works, and none is resumed before what
  it depends on; the bounded loop of \<^verbatim>\<open>drive\<close> always comes to rest; the panel is never switched off
  under a lit backlight, nor the backlight lit on a panel that is off.
\<close>

section \<open>Who sleeps\<close>

text \<open>
  The record of calls decides who is asleep: a participant is once its \<open>suspend\<close> has succeeded, at once
  or by a completion, and until its \<open>resume\<close> has ended, well or not.
\<close>

fun asleep_step :: "power_call \<Rightarrow> (nat \<Rightarrow> bool) \<Rightarrow> nat \<Rightarrow> bool" where
  "asleep_step (Callback i POWER_OPERATION_SUSPEND result) a =
     (if result = POWER_CALLBACK_SUCCESS then a(i := True) else a)"
| "asleep_step (Completed i POWER_OPERATION_SUSPEND result) a =
     (if result \<noteq> POWER_CALLBACK_FAILURE then a(i := True) else a)"
| "asleep_step (Callback i POWER_OPERATION_RESUME result) a =
     (if result \<noteq> POWER_CALLBACK_PENDING then a(i := False) else a)"
| "asleep_step (Completed i POWER_OPERATION_RESUME result) a = a(i := False)"
| "asleep_step _ a = a"

definition asleep :: "power_call list \<Rightarrow> nat \<Rightarrow> bool" where
  "asleep log = fold asleep_step log (\<lambda>i. False)"

text \<open>Which calls are in order when the participants \<open>a\<close> sleep.\<close>

fun allowed :: "power_participant list \<Rightarrow> (nat \<Rightarrow> bool) \<Rightarrow> power_call \<Rightarrow> bool" where
  "allowed ps a (Callback i POWER_OPERATION_SUSPEND result) \<longleftrightarrow>
     i < length ps \<and> \<not> a i \<and> (\<forall>j < length ps. depends ps j i \<longrightarrow> a j)"
| "allowed ps a (Callback i POWER_OPERATION_RESUME result) \<longleftrightarrow>
     i < length ps \<and> a i \<and> (\<forall>j < length ps. depends ps i j \<longrightarrow> \<not> a j)"
| "allowed ps a (PrepareSleep result) \<longleftrightarrow> (\<forall>i < length ps. a i)"
| "allowed ps a (EnterSleep result) \<longleftrightarrow> (\<forall>i < length ps. a i)"
| "allowed ps a _ \<longleftrightarrow> True"

fun orderly_from :: "power_participant list \<Rightarrow> (nat \<Rightarrow> bool) \<Rightarrow> power_call list \<Rightarrow> bool" where
  "orderly_from ps a [] \<longleftrightarrow> True"
| "orderly_from ps a (c # cs) \<longleftrightarrow> allowed ps a c \<and> orderly_from ps (asleep_step c a) cs"

definition orderly :: "power_participant list \<Rightarrow> power_call list \<Rightarrow> bool" where
  "orderly ps log = orderly_from ps (\<lambda>i. False) log"

lemma orderly_from_append:
  "orderly_from ps a (xs @ ys) \<longleftrightarrow> orderly_from ps a xs \<and> orderly_from ps (fold asleep_step xs a) ys"
  by (induction xs arbitrary: a) auto

lemma asleep_nil [simp]: "asleep [] = (\<lambda>i. False)" by (simp add: asleep_def)

lemma asleep_snoc [simp]: "asleep (log @ [c]) = asleep_step c (asleep log)" by (simp add: asleep_def)

lemma orderly_nil [simp]: "orderly ps []" by (simp add: orderly_def)

lemma orderly_snoc [simp]: "orderly ps (log @ [c]) \<longleftrightarrow> orderly ps log \<and> allowed ps (asleep log) c"
  by (simp add: orderly_def orderly_from_append asleep_def)

lemma orderly_at: "orderly ps (before @ c # after) \<Longrightarrow> allowed ps (asleep before) c"
  by (simp add: orderly_def orderly_from_append asleep_def)

text \<open>Only some calls matter for this.\<close>

fun is_event :: "power_call \<Rightarrow> bool" where
  "is_event (Callback i operation result) = True"
| "is_event (Completed i operation result) = True"
| "is_event (PrepareSleep result) = True"
| "is_event (EnterSleep result) = True"
| "is_event _ = False"

definition events :: "power_manager \<Rightarrow> power_call list" where
  "events m = filter is_event (pm_log m)"

lemma event_step: "\<not> is_event c \<Longrightarrow> asleep_step c a = a \<and> allowed ps a c"
  by (cases "(ps, a, c)" rule: allowed.cases) auto

lemma asleep_from_events: "fold asleep_step (filter is_event log) a = fold asleep_step log a"
  by (induction log arbitrary: a) (auto simp: event_step)

lemma orderly_from_events: "orderly_from ps a (filter is_event log) = orderly_from ps a log"
  by (induction log arbitrary: a) (auto simp: event_step)

lemma asleep_events: "asleep (pm_log m) = asleep (events m)"
  by (simp add: asleep_def events_def asleep_from_events)

lemma orderly_events: "orderly ps (pm_log m) = orderly ps (events m)"
  by (simp add: orderly_def events_def orderly_from_events)

section \<open>What the small steps leave alone\<close>

definition engine ::
  "power_manager \<Rightarrow> (power_participant list \<times> nat list \<times> nat \<times> nat \<times> nat list) \<times>
     power_phase \<times> bool \<times> power_state \<times> bool \<times> power_completion_token" where
  "engine m = ((pm_participants m, pm_dependency_order m, pm_cursor m, pm_suspended_count m, pm_suspended m),
     pm_phase m, pm_finalized m, pw_state (pm_status m), pw_suspend_available (pm_status m), pm_expected m)"

definition same_engine :: "power_manager \<Rightarrow> power_manager \<Rightarrow> bool" where
  "same_engine m m' \<longleftrightarrow> engine m' = engine m \<and> events m' = events m"

lemma same_engine_refl [simp]: "same_engine m m" by (simp add: same_engine_def)

lemma same_engine_trans [trans]: "same_engine m m' \<Longrightarrow> same_engine m' m'' \<Longrightarrow> same_engine m m''"
  by (simp add: same_engine_def)

lemma same_engine_status:
  "pw_state (f (pm_status m)) = pw_state (pm_status m) \<Longrightarrow>
   pw_suspend_available (f (pm_status m)) = pw_suspend_available (pm_status m) \<Longrightarrow> same_engine m (on_status f m)"
  by (simp add: same_engine_def engine_def events_def on_status_def)

lemma same_engine_called: "\<not> is_event c \<Longrightarrow> same_engine m (called c m)"
  by (simp add: same_engine_def engine_def events_def called_def)

lemma same_engine_failure [simp]: "same_engine m (record_failure code name m)"
  by (simp add: record_failure_def same_engine_status)

lemma same_engine_brightness: "same_engine m (snd (set_brightness env b m))"
  by (simp add: set_brightness_def Let_def same_engine_def engine_def events_def on_status_def called_def record_failure_def)

lemma same_engine_panel: "same_engine m (snd (set_panel env e m))"
  by (simp add: set_panel_def Let_def same_engine_def engine_def events_def on_status_def called_def record_failure_def)

lemma same_engine_display [simp]: "same_engine m (set_display env b e m)"
proof (rule set_display_keeps)
  show "same_engine m (on_status (\<lambda>s. s\<lparr>pw_desired_brightness := b\<rparr>) m')" if "same_engine m m'" for m' b
    by (rule same_engine_trans [OF that same_engine_status]) simp_all
qed (auto intro: same_engine_trans same_engine_brightness same_engine_panel)

lemma same_engine_restore [simp]: "same_engine m (restore_display env m)"
  unfolding restore_display_def by (rule same_engine_trans [OF same_engine_status same_engine_display]) simp_all

lemma same_engine_idle [simp]: "same_engine m (apply_idle_display env now m)"
  unfolding apply_idle_display_def Let_def
  by (rule same_engine_trans [OF same_engine_status same_engine_display]) simp_all

lemma same_engine_request [simp]: "same_engine m (snd (power_manager_request_suspend m))"
  by (simp add: power_manager_request_suspend_def Let_def same_engine_def engine_def events_def called_def)

lemma same_engine_activity [simp]: "same_engine m (power_manager_request_activity now m)"
  by (simp add: power_manager_request_activity_def same_engine_def engine_def events_def called_def)

lemma same_engine_complete [simp]: "same_engine m (power_manager_complete token result m)"
  by (simp add: power_manager_complete_def same_engine_def engine_def events_def called_def)

lemma same_engine_deliver [simp]: "same_engine m (deliver message m)"
  by (cases message) simp_all

lemma same_engine_messages [simp]: "same_engine m (fold deliver messages m)"
  by (induction messages arbitrary: m) (auto intro: same_engine_trans [OF same_engine_deliver])

lemma same_engine_ask: "ask_blocker env i m = (blocked, reason, m') \<Longrightarrow> same_engine m m'"
  by (auto simp: ask_blocker_def Let_def same_engine_called split: if_splits prod.splits)

lemma same_engine_blockers [simp]: "same_engine m (collect_blockers env is m)"
proof (induction "is" arbitrary: m)
  case (Cons i rest)
  obtain blocked reason m1 where ask: "ask_blocker env i m = (blocked, reason, m1)" by (metis surj_pair)
  define m2 where "m2 = (if blocked then on_status (\<lambda>s. s\<lparr>pw_blockers := pw_blockers s @
      [bounded_name (if reason \<noteq> [] then reason else pp_name (pm_participants m1 ! i))]\<rparr>) m1 else m1)"
  have "collect_blockers env (i # rest) m = collect_blockers env rest m2"
    using ask by (cases blocked) (simp_all add: m2_def)
  moreover have "same_engine m1 m2" by (simp add: m2_def same_engine_status)
  ultimately show ?case
    using same_engine_trans [OF same_engine_trans [OF same_engine_ask [OF ask]] Cons.IH] by simp
qed simp

section \<open>The invariant of the engine\<close>

text \<open>The participant that is suspended as the \<open>k\<close>-th.\<close>

definition slot :: "power_manager \<Rightarrow> nat \<Rightarrow> nat" where
  "slot m k = pm_dependency_order m ! (length (pm_participants m) - 1 - k)"

definition resuming :: "power_manager \<Rightarrow> bool" where
  "resuming m \<longleftrightarrow> pm_phase m = POWER_PHASE_RESUME \<or> pm_phase m = POWER_PHASE_WAIT_RESUME"

definition sleepers :: "power_manager \<Rightarrow> nat" where
  "sleepers m = (if resuming m then pm_suspended_count m - pm_cursor m else pm_suspended_count m)"

definition phase_ok :: "power_manager \<Rightarrow> bool" where
  "phase_ok m \<longleftrightarrow>
     (let n = length (pm_participants m); state = pw_state (pm_status m); cursor = pm_cursor m; count = pm_suspended_count m
      in case pm_phase m of
           POWER_PHASE_NONE \<Rightarrow> state = POWER_STATE_ACTIVE \<or> state = POWER_STATE_IDLE \<or> state = POWER_STATE_SHUTTING_DOWN
         | POWER_PHASE_SUSPEND \<Rightarrow> state = POWER_STATE_SUSPENDING \<and> cursor = count \<and> count \<le> n
         | POWER_PHASE_WAIT_SUSPEND \<Rightarrow> state = POWER_STATE_SUSPENDING \<and> cursor = count \<and> count < n \<and>
             unat (tk_participant (pm_expected m)) = slot m cursor \<and> tk_operation (pm_expected m) = POWER_OPERATION_SUSPEND
         | POWER_PHASE_SLEEP \<Rightarrow> state = POWER_STATE_SUSPENDED \<and> count = n
         | POWER_PHASE_RESUME \<Rightarrow> state = POWER_STATE_RESUMING \<and> cursor \<le> count \<and> count \<le> n
         | POWER_PHASE_WAIT_RESUME \<Rightarrow> state = POWER_STATE_RESUMING \<and> cursor < count \<and> count \<le> n \<and>
             unat (tk_participant (pm_expected m)) = slot m (count - 1 - cursor) \<and>
             tk_operation (pm_expected m) = POWER_OPERATION_RESUME)"

definition engine_ok :: "power_manager \<Rightarrow> bool" where
  "engine_ok m \<longleftrightarrow>
     participants_ok m \<and> length (pm_suspended m) = POWER_PARTICIPANT_CAPACITY \<and> phase_ok m \<and>
     (pm_finalized m \<and> pw_suspend_available (pm_status m) \<longrightarrow> topological m) \<and>
     (pm_phase m \<noteq> POWER_PHASE_NONE \<longrightarrow> pm_finalized m \<and> topological m \<and>
        (\<forall>k < pm_suspended_count m. pm_suspended m ! k = slot m k) \<and>
        asleep (events m) = (\<lambda>i. i \<in> slot m ` {..<sleepers m})) \<and>
     (pm_phase m = POWER_PHASE_NONE \<and> pw_state (pm_status m) \<noteq> POWER_STATE_SHUTTING_DOWN \<longrightarrow>
        asleep (events m) = (\<lambda>i. False)) \<and>
     orderly (pm_participants m) (events m) \<and> (\<not> pm_finalized m \<longrightarrow> events m = [])"

lemma engine_fields:
  assumes "engine m' = engine m"
  shows "pm_participants m' = pm_participants m" "pm_dependency_order m' = pm_dependency_order m"
    "pm_cursor m' = pm_cursor m" "pm_suspended_count m' = pm_suspended_count m" "pm_suspended m' = pm_suspended m"
    "pm_phase m' = pm_phase m" "pm_finalized m' = pm_finalized m" "pw_state (pm_status m') = pw_state (pm_status m)"
    "pw_suspend_available (pm_status m') = pw_suspend_available (pm_status m)" "pm_expected m' = pm_expected m"
  using assms by (simp_all add: engine_def)

lemma same_engine_ok:
  assumes "same_engine m m'"
  shows "engine_ok m' = engine_ok m"
proof -
  have "engine m' = engine m" and events: "events m' = events m" using assms by (simp_all add: same_engine_def)
  note fields = engine_fields [OF this(1)]
  show ?thesis
    unfolding engine_ok_def participants_ok_def phase_ok_def topological_def slot_def sleepers_def resuming_def
      fields events ..
qed

text \<open>The order seen from the suspension: what depends on a participant is suspended before it.\<close>

lemma topological_slots:
  assumes "topological m" and "participants_ok m"
  shows "\<And>k. k < length (pm_participants m) \<Longrightarrow> slot m k < length (pm_participants m)"
    and "\<And>j k. j < length (pm_participants m) \<Longrightarrow> k < length (pm_participants m) \<Longrightarrow> slot m j = slot m k \<Longrightarrow> j = k"
    and "\<And>j k. j < length (pm_participants m) \<Longrightarrow> k < length (pm_participants m) \<Longrightarrow>
       depends (pm_participants m) (slot m j) (slot m k) \<Longrightarrow> j < k"
    and "\<And>i. i < length (pm_participants m) \<Longrightarrow> \<exists>k < length (pm_participants m). i = slot m k"
proof -
  let ?n = "length (pm_participants m)"
  let ?order = "take ?n (pm_dependency_order m)"
  have len: "length ?order = ?n" and dist: "distinct ?order" and set: "set ?order = {..<?n}"
    and before: "\<And>a b. a < ?n \<Longrightarrow> b < ?n \<Longrightarrow> depends (pm_participants m) (?order ! a) (?order ! b) \<Longrightarrow> b < a"
    using assms by (auto simp: topological_def participants_ok_def Let_def)
  have slot: "slot m k = ?order ! (?n - 1 - k)" if "k < ?n" for k using that by (simp add: slot_def)
  show less: "slot m k < ?n" if "k < ?n" for k
    using that len set nth_mem [of "?n - 1 - k" ?order] unfolding slot [OF that] by auto
  show inj: "j = k" if "j < ?n" "k < ?n" "slot m j = slot m k" for j k
  proof -
    have "?n - 1 - j = ?n - 1 - k"
      using that len dist unfolding slot [OF that(1)] slot [OF that(2)] by (subst (asm) nth_eq_iff_index_eq) auto
    then show ?thesis using that(1,2) by linarith
  qed
  show "j < k" if "j < ?n" "k < ?n" "depends (pm_participants m) (slot m j) (slot m k)" for j k
    using before [of "?n - 1 - j" "?n - 1 - k"] that unfolding slot [OF that(1)] slot [OF that(2)] by linarith
  show "\<exists>k < ?n. i = slot m k" if "i < ?n" for i
  proof -
    have "i \<in> set ?order" using that set by simp
    then obtain a where "a < ?n" "i = ?order ! a" using len by (auto simp: in_set_conv_nth)
    then show ?thesis using slot [of "?n - 1 - a"] by (intro exI [of _ "?n - 1 - a"]) simp
  qed
qed

lemma slot_word:
  assumes "engine_ok m" and "topological m" and "k < length (pm_participants m)"
  shows "unat (of_nat (slot m k) :: u16) = slot m k"
proof -
  have "slot m k < 16"
    using topological_slots(1) [OF assms(2) _ assms(3)] assms(1)
    by (auto simp: engine_ok_def participants_ok_def POWER_PARTICIPANT_CAPACITY_def)
  then show ?thesis by (simp add: unat_of_nat)
qed

text \<open>Suspending the next participant is in order, and so is resuming the last one.\<close>

lemma allowed_suspend:
  assumes "engine_ok m" and "pm_phase m \<noteq> POWER_PHASE_NONE" and "k < length (pm_participants m)"
    and "asleep (events m) = (\<lambda>i. i \<in> slot m ` {..<k})"
  shows "allowed (pm_participants m) (asleep (events m)) (Callback (slot m k) POWER_OPERATION_SUSPEND result)"
proof -
  have topo: "topological m" "participants_ok m" using assms(1,2) by (simp_all add: engine_ok_def)
  note slots = topological_slots [OF topo]
  have "slot m k \<notin> slot m ` {..<k}"
  proof
    assume "slot m k \<in> slot m ` {..<k}"
    then obtain j where "j < k" "slot m k = slot m j" by auto
    then show False using slots(2) [OF assms(3), of j] assms(3) by simp
  qed
  moreover have "j \<in> slot m ` {..<k}"
    if j: "j < length (pm_participants m)" and dep: "depends (pm_participants m) j (slot m k)" for j
  proof -
    obtain a where "a < length (pm_participants m)" "j = slot m a" using slots(4) [OF j] by blast
    then show ?thesis using slots(3) [OF _ assms(3), of a] dep by simp
  qed
  ultimately show ?thesis using slots(1) [OF assms(3)] assms(4) by simp
qed

lemma allowed_resume:
  assumes "engine_ok m" and "pm_phase m \<noteq> POWER_PHASE_NONE" and "k < length (pm_participants m)"
    and "asleep (events m) = (\<lambda>i. i \<in> slot m ` {..<Suc k})"
  shows "allowed (pm_participants m) (asleep (events m)) (Callback (slot m k) POWER_OPERATION_RESUME result)"
proof -
  have topo: "topological m" "participants_ok m" using assms(1,2) by (simp_all add: engine_ok_def)
  note slots = topological_slots [OF topo]
  have "j \<notin> slot m ` {..<Suc k}" if "depends (pm_participants m) (slot m k) j" for j
  proof
    assume "j \<in> slot m ` {..<Suc k}"
    then obtain a where "a < Suc k" "j = slot m a" by auto
    then show False using slots(3) [OF assms(3), of a] that assms(3) by auto
  qed
  then show ?thesis using slots(1) [OF assms(3)] assms(4) by auto
qed

section \<open>The branches of the loop\<close>

lemma call_participant_engine:
  assumes "call_participant env index operation m = (result, m')"
  shows "engine m' = engine (m\<lparr>pm_expected := \<lparr>tk_generation = pw_generation (pm_status m),
      tk_participant = of_nat index, tk_operation = operation\<rparr>\<rparr>)"
    and "events m' = events m @ [Callback index operation result]"
proof -
  let ?token = "\<lparr>tk_generation = pw_generation (pm_status m), tk_participant = of_nat index, tk_operation = operation\<rparr>"
  let ?m = "trace_operation (pm_participants m ! index) operation (expect_completion ?token m)"
  obtain messages where answer: "e_callback env (pm_log ?m) index ?token = (result, messages)"
    and m': "m' = fold deliver messages (called (Callback index operation result) ?m)"
    using assms by (auto simp: call_participant_def Let_def trace_operation_def expect_completion_def
        split: prod.splits if_splits)
  have "same_engine (called (Callback index operation result) ?m) m'" unfolding m' by simp
  moreover have "engine (called (Callback index operation result) ?m) = engine (m\<lparr>pm_expected := ?token\<rparr>)"
    and "events (called (Callback index operation result) ?m) = events m @ [Callback index operation result]"
    by (simp_all add: engine_def events_def called_def trace_operation_def expect_completion_def)
  ultimately show "engine m' = engine (m\<lparr>pm_expected := ?token\<rparr>)"
    and "events m' = events m @ [Callback index operation result]"
    by (simp_all add: same_engine_def)
qed

text \<open>What holds whenever a suspension or a resumption is under way.\<close>

definition base_ok :: "power_manager \<Rightarrow> bool" where
  "base_ok m \<longleftrightarrow>
     participants_ok m \<and> length (pm_suspended m) = POWER_PARTICIPANT_CAPACITY \<and> pm_finalized m \<and> topological m \<and>
     pm_suspended_count m \<le> length (pm_participants m) \<and>
     (\<forall>k < pm_suspended_count m. pm_suspended m ! k = slot m k) \<and> orderly (pm_participants m) (events m)"

lemma engine_base: "engine_ok m \<Longrightarrow> pm_phase m \<noteq> POWER_PHASE_NONE \<Longrightarrow> base_ok m"
  by (cases "pm_phase m") (auto simp: engine_ok_def base_ok_def phase_ok_def Let_def)

lemma base_engine:
  assumes "base_ok m" and "pm_phase m \<noteq> POWER_PHASE_NONE" and "phase_ok m"
    and "asleep (events m) = (\<lambda>i. i \<in> slot m ` {..<sleepers m})"
  shows "engine_ok m"
  using assms by (simp add: engine_ok_def base_ok_def)

text \<open>Rolling back and waking up start the resumption of everyone who is asleep.\<close>

lemma begin_resume_ok:
  assumes "base_ok m" and "asleep (events m) = (\<lambda>i. i \<in> slot m ` {..<pm_suspended_count m})"
  shows "engine_ok (begin_resume now reason m)"
  using assms
  by (simp add: engine_ok_def base_ok_def begin_resume_def on_status_def participants_ok_def phase_ok_def topological_def
      slot_def sleepers_def resuming_def events_def)

lemma rollback_ok:
  assumes "base_ok m" and "asleep (events m) = (\<lambda>i. i \<in> slot m ` {..<pm_suspended_count m})"
  shows "engine_ok (rollback now code name m)"
proof -
  define m1 where "m1 = (let m = record_failure code name m in if pm_platform_prepared m then called AbortSleep m else m)"
  have "same_engine m m1"
    by (auto simp: m1_def Let_def intro: same_engine_trans [OF same_engine_failure same_engine_called])
  then have events: "events m1 = events m" and "engine m1 = engine m" by (simp_all add: same_engine_def)
  note fields = engine_fields [OF this(2)]
  have "engine_ok (begin_resume now POWER_REASON_ROLLBACK m1)"
    by (rule begin_resume_ok) (use assms in \<open>unfold base_ok_def participants_ok_def topological_def slot_def fields events\<close>)
  then show ?thesis by (simp add: rollback_def m1_def Let_def)
qed

lemma mark_suspended_ok:
  assumes "base_ok m" and "pm_suspended_count m < length (pm_participants m)" and "index = slot m (pm_suspended_count m)"
  shows "base_ok (mark_suspended index m)"
  using assms
  by (auto simp: base_ok_def mark_suspended_def participants_ok_def topological_def slot_def events_def nth_list_update
      less_Suc_eq)

text \<open>The set of sleepers after one more has been suspended, or the last has been resumed.\<close>

lemma sleeper_added: "(\<lambda>i. i \<in> f ` {..<k})(f k := True) = (\<lambda>i. i \<in> f ` {..<Suc k})"
  by (auto simp: lessThan_Suc fun_eq_iff)

lemma sleeper_removed:
  assumes "\<And>j. j < k \<Longrightarrow> f j \<noteq> f k"
  shows "(\<lambda>i. i \<in> f ` {..<Suc k})(f k := False) = (\<lambda>i. i \<in> f ` {..<k})"
  by (auto simp: lessThan_Suc fun_eq_iff) (metis assms)

lemma drive_wait_ok:
  assumes ok: "engine_ok m" and phase: "pm_phase m = POWER_PHASE_WAIT_SUSPEND \<or> pm_phase m = POWER_PHASE_WAIT_RESUME"
  shows "engine_ok (snd (drive_wait now m))"
proof (cases "pm_completion_ready m")
  case False
  then show ?thesis using ok by (simp add: drive_wait_def take_completion_def)
next
  case True
  define result where "result = pm_completion_result m"
  define index where "index = unat (tk_participant (pm_expected m))"
  define operation where "operation = tk_operation (pm_expected m)"
  define m1 where "m1 = called (Completed index operation result) (m\<lparr>pm_completion_ready := False\<rparr>)"
  have "engine m1 = engine m" by (simp add: m1_def engine_def called_def)
  note fields = engine_fields [OF this]
  have base: "base_ok m" using engine_base [OF ok] phase by auto
  have events: "events m1 = events m @ [Completed index operation result]"
    by (simp add: m1_def events_def called_def)
  have topo: "topological m" "participants_ok m" using base by (simp_all add: base_ok_def)
  have allowed: "allowed (pm_participants m) (asleep (events m)) (Completed index operation result)" by simp
  have base1: "base_ok m1"
    using base unfolding base_ok_def participants_ok_def topological_def slot_def fields events by simp
  have slot1: "slot m1 = slot m" by (rule ext) (simp add: slot_def fields)
  let ?name = "pp_name (pm_participants m1 ! index)"
  show ?thesis
  proof (cases "pm_phase m = POWER_PHASE_WAIT_SUSPEND")
    case waiting: True
    have state: "pm_suspended_count m < length (pm_participants m)" "pm_cursor m = pm_suspended_count m"
      "index = slot m (pm_suspended_count m)" "operation = POWER_OPERATION_SUSPEND" "pw_state (pm_status m) = POWER_STATE_SUSPENDING"
      using ok waiting by (simp_all add: engine_ok_def phase_ok_def index_def operation_def Let_def)
    have asleep: "asleep (events m) = (\<lambda>i. i \<in> slot m ` {..<pm_suspended_count m})"
      using ok waiting by (simp add: engine_ok_def sleepers_def resuming_def)
    show ?thesis
    proof (cases "result = POWER_CALLBACK_FAILURE")
      case success: False
      define m2 where "m2 = (mark_suspended index m1)\<lparr>pm_phase := POWER_PHASE_SUSPEND, pm_cursor := pm_cursor m1 + 1\<rparr>"
      have "snd (drive_wait now m) = m2"
        using True waiting success fields by (simp add: drive_wait_def take_completion_def Let_def m2_def m1_def result_def
            index_def operation_def mark_suspended_def called_def)
      moreover have "base_ok (mark_suspended index m1)"
        by (rule mark_suspended_ok [OF base1]) (simp_all add: fields slot1 state)
      then have "base_ok m2" by (simp add: base_ok_def m2_def participants_ok_def topological_def slot_def events_def)
      moreover have "asleep (events m2) = (\<lambda>i. i \<in> slot m ` {..<Suc (pm_suspended_count m)})"
      proof -
        have "events m2 = events m1" by (simp add: m2_def mark_suspended_def events_def)
        then show ?thesis unfolding sleeper_added [symmetric] by (simp add: events state success asleep)
      qed
      moreover have "slot m2 = slot m" by (rule ext) (simp add: slot_def m2_def mark_suspended_def fields)
      moreover have "sleepers m2 = Suc (pm_suspended_count m)" "phase_ok m2"
        using state by (simp_all add: m2_def mark_suspended_def sleepers_def resuming_def fields phase_ok_def)
      ultimately show ?thesis using base_engine [of m2] by (simp add: m2_def)
    next
      case failed: True
      have "snd (drive_wait now m) = rollback now POWER_FAILURE_CALLBACK ?name m1"
        using True waiting failed by (simp add: drive_wait_def take_completion_def Let_def m1_def result_def
            index_def operation_def called_def)
      moreover have "asleep (events m1) = (\<lambda>i. i \<in> slot m1 ` {..<pm_suspended_count m1})"
        by (simp add: events state failed asleep slot1 fields)
      ultimately show ?thesis using rollback_ok [OF base1] by simp
    qed
  next
    case False
    then have waiting: "pm_phase m = POWER_PHASE_WAIT_RESUME" using phase by simp
    have state: "pm_suspended_count m \<le> length (pm_participants m)" "pm_cursor m < pm_suspended_count m"
      "index = slot m (pm_suspended_count m - 1 - pm_cursor m)" "operation = POWER_OPERATION_RESUME"
      "pw_state (pm_status m) = POWER_STATE_RESUMING"
      using ok waiting by (simp_all add: engine_ok_def phase_ok_def index_def operation_def Let_def)
    define k where "k = pm_suspended_count m - 1 - pm_cursor m"
    have k: "sleepers m = Suc k" "k < length (pm_participants m)" "index = slot m k"
      using state waiting by (auto simp: k_def sleepers_def resuming_def)
    have asleep: "asleep (events m) = (\<lambda>i. i \<in> slot m ` {..<Suc k})" using ok waiting k by (simp add: engine_ok_def)
    define m2 where "m2 = (if result = POWER_CALLBACK_FAILURE then record_failure POWER_FAILURE_CALLBACK ?name m1 else m1)"
    define m3 where "m3 = m2\<lparr>pm_phase := POWER_PHASE_RESUME, pm_cursor := pm_cursor m2 + 1\<rparr>"
    have "snd (drive_wait now m) = m3"
      using True waiting by (simp add: drive_wait_def take_completion_def Let_def m1_def m2_def m3_def result_def
          index_def operation_def called_def record_failure_def on_status_def)
    have "same_engine m1 m2" by (simp add: m2_def)
    then have "engine m2 = engine m1" and events2: "events m2 = events m1" by (simp_all add: same_engine_def)
    note fields2 = engine_fields [OF this(1)]
    have "base_ok m3"
      using base1 by (simp add: base_ok_def m3_def participants_ok_def topological_def slot_def fields2)
        (simp add: events_def m3_def events2 [unfolded events_def])
    moreover have "slot m3 = slot m" by (rule ext) (simp add: slot_def m3_def fields2 fields)
    moreover have "asleep (events m3) = (\<lambda>i. i \<in> slot m ` {..<k})"
    proof -
      have "events m3 = events m @ [Completed index operation result]"
        using events events2 by (simp add: m3_def events_def)
      moreover have "slot m j \<noteq> slot m k" if "j < k" for j
        using topological_slots(2) [OF topo _ k(2), of j] k(2) that by auto
      ultimately show ?thesis using sleeper_removed [of k "slot m"] by (simp add: state(4) asleep k(3) del: fun_upd_apply)
    qed
    moreover have "sleepers m3 = k" "phase_ok m3"
      using state by (simp_all add: m3_def sleepers_def resuming_def fields2 fields phase_ok_def k_def)
    ultimately have "engine_ok m3" using base_engine [of m3] by (simp add: m3_def)
    then show ?thesis using \<open>snd (drive_wait now m) = m3\<close> by simp
  qed
qed

lemma drive_sleep_ok:
  assumes ok: "engine_ok m" and phase: "pm_phase m = POWER_PHASE_SUSPEND" and all: "pm_cursor m = length (pm_participants m)"
  shows "engine_ok (snd (drive_sleep env now m))"
proof -
  have base: "base_ok m" using engine_base [OF ok] phase by simp
  have state: "pm_suspended_count m = length (pm_participants m)" "pw_state (pm_status m) = POWER_STATE_SUSPENDING"
    using ok phase all by (simp_all add: engine_ok_def phase_ok_def Let_def)
  have asleep: "asleep (events m) = (\<lambda>i. i \<in> slot m ` {..<pm_suspended_count m})"
    using ok phase by (simp add: engine_ok_def sleepers_def resuming_def)
  have everyone: "\<forall>i < length (pm_participants m). asleep (events m) i"
  proof (intro allI impI)
    fix i
    assume "i < length (pm_participants m)"
    then obtain k where "k < length (pm_participants m)" "i = slot m k"
      using topological_slots(4) base by (auto simp: base_ok_def)
    then show "asleep (events m) i" using asleep state by simp
  qed
  have called: "base_ok (called c m1) \<and> asleep (events (called c m1)) = asleep (events m1) \<and>
      (\<forall>i < length (pm_participants m1). asleep (events (called c m1)) i)"
    if "base_ok m1" "\<forall>i < length (pm_participants m1). asleep (events m1) i"
      "c = PrepareSleep r \<or> c = EnterSleep r" for c r m1
    using that by (auto simp: base_ok_def called_def participants_ok_def topological_def slot_def events_def)
  show ?thesis
  proof (cases "e_prepare_sleep env (pm_log m)")
    case False
    have "asleep (events (called (PrepareSleep False) m)) =
        (\<lambda>i. i \<in> slot (called (PrepareSleep False) m) ` {..<pm_suspended_count (called (PrepareSleep False) m)})"
      using called [OF base everyone, of "PrepareSleep False" False] asleep by (simp add: called_def slot_def)
    then have "engine_ok (rollback now POWER_FAILURE_PLATFORM_PREPARE [] (called (PrepareSleep False) m))"
      using rollback_ok called [OF base everyone, of "PrepareSleep False" False] by blast
    then show ?thesis using False by (simp add: drive_sleep_def)
  next
    case True
    define m1 where "m1 = (on_status (\<lambda>s. s\<lparr>pw_state := POWER_STATE_SUSPENDED, pw_state_changed_ms := now,
        pw_suspend_duration_ms := now - pw_suspend_started_ms s\<rparr>) (called (PrepareSleep True) m))
        \<lparr>pm_platform_prepared := True, pm_phase := POWER_PHASE_SLEEP\<rparr>"
    define r where "r = e_enter_light_sleep env (pm_log m1)"
    have events1: "events m1 = events m @ [PrepareSleep True]"
      by (simp add: m1_def on_status_def called_def events_def)
    have fields1: "pm_participants m1 = pm_participants m" "pm_suspended_count m1 = pm_suspended_count m"
      "slot m1 = slot m" "pm_phase m1 = POWER_PHASE_SLEEP" "pw_state (pm_status m1) = POWER_STATE_SUSPENDED"
      by (simp_all add: m1_def on_status_def called_def slot_def fun_eq_iff)
    have base1: "base_ok m1"
      using called [OF base everyone, of "PrepareSleep True" True]
      by (simp add: base_ok_def m1_def on_status_def called_def participants_ok_def topological_def slot_def events_def)
    have everyone1: "\<forall>i < length (pm_participants m1). asleep (events m1) i"
      using everyone by (simp add: fields1 events1)
    let ?m = "called (EnterSleep r) m1"
    have base2: "base_ok ?m" and asleep2: "asleep (events ?m) = (\<lambda>i. i \<in> slot m ` {..<pm_suspended_count m})"
      using called [OF base1 everyone1, of "EnterSleep r" r] asleep by (simp_all add: events1)
    have fields2: "pm_phase ?m = POWER_PHASE_SLEEP" "slot ?m = slot m" "pm_suspended_count ?m = pm_suspended_count m"
      "pm_participants ?m = pm_participants m" "pw_state (pm_status ?m) = POWER_STATE_SUSPENDED"
      using fields1 by (simp_all add: called_def slot_def fun_eq_iff)
    have "phase_ok ?m" using fields2 state by (simp add: phase_ok_def Let_def)
    then have "engine_ok ?m"
      using base_engine [OF base2] fields2 asleep2 by (simp add: sleepers_def resuming_def)
    moreover have "engine_ok (rollback now POWER_FAILURE_PLATFORM_SLEEP [] ?m)"
      using rollback_ok [OF base2] asleep2 fields2 by simp
    moreover have "drive_sleep env now m = (if \<not> r then (True, rollback now POWER_FAILURE_PLATFORM_SLEEP [] ?m) else (False, ?m))"
      using True by (simp add: drive_sleep_def m1_def [symmetric] r_def Let_def)
    ultimately show ?thesis by (cases r) simp_all
  qed
qed

lemma drive_suspend_ok:
  assumes ok: "engine_ok m" and phase: "pm_phase m = POWER_PHASE_SUSPEND" and more: "pm_cursor m \<noteq> length (pm_participants m)"
  shows "engine_ok (snd (drive_suspend env now m))"
proof -
  have base: "base_ok m" using engine_base [OF ok] phase by simp
  define k where "k = pm_suspended_count m"
  have state: "pm_cursor m = k" "k < length (pm_participants m)" "pw_state (pm_status m) = POWER_STATE_SUSPENDING"
    using ok phase more by (auto simp: engine_ok_def phase_ok_def Let_def k_def)
  have asleep: "asleep (events m) = (\<lambda>i. i \<in> slot m ` {..<k})"
    using ok phase by (simp add: engine_ok_def sleepers_def resuming_def k_def)
  have index: "pm_dependency_order m ! (length (pm_participants m) - 1 - pm_cursor m) = slot m k"
    by (simp add: slot_def state)
  obtain result m1 where call: "call_participant env (slot m k) POWER_OPERATION_SUSPEND m = (result, m1)"
    by (metis surj_pair)
  note eng = call_participant_engine [OF call]
  have fields: "pm_participants m1 = pm_participants m" "pm_dependency_order m1 = pm_dependency_order m"
    "pm_cursor m1 = k" "pm_suspended_count m1 = k" "pm_suspended m1 = pm_suspended m" "pm_phase m1 = POWER_PHASE_SUSPEND"
    "pm_finalized m1 = pm_finalized m" "pw_state (pm_status m1) = POWER_STATE_SUSPENDING"
    "tk_participant (pm_expected m1) = of_nat (slot m k)" "tk_operation (pm_expected m1) = POWER_OPERATION_SUSPEND"
    using eng(1) state phase by (simp_all add: engine_def k_def)
  have slot1: "slot m1 = slot m" by (rule ext) (simp add: slot_def fields)
  have "allowed (pm_participants m) (asleep (events m)) (Callback (slot m k) POWER_OPERATION_SUSPEND result)"
    using allowed_suspend [OF ok _ state(2) asleep] phase by simp
  then have "base_ok m1"
    using base unfolding base_ok_def participants_ok_def topological_def slot1 fields eng(2)
    by (simp add: k_def)
  show ?thesis
  proof (cases result)
    case POWER_CALLBACK_SUCCESS
    let ?m = "(mark_suspended (slot m k) m1)\<lparr>pm_cursor := pm_cursor m1 + 1\<rparr>"
    have "base_ok (mark_suspended (slot m k) m1)"
      by (rule mark_suspended_ok [OF \<open>base_ok m1\<close>]) (simp_all add: fields slot1 state)
    then have "base_ok ?m" by (simp add: base_ok_def participants_ok_def topological_def slot_def events_def)
    moreover have "asleep (events ?m) = (\<lambda>i. i \<in> slot m ` {..<Suc k})"
    proof -
      have "events ?m = events m1" by (simp add: mark_suspended_def events_def)
      then show ?thesis unfolding sleeper_added [symmetric] by (simp add: eng(2) POWER_CALLBACK_SUCCESS asleep)
    qed
    moreover have "slot ?m = slot m" by (rule ext) (simp add: slot_def mark_suspended_def fields)
    moreover have "sleepers ?m = Suc k" "phase_ok ?m" "pm_phase ?m = POWER_PHASE_SUSPEND"
      using state by (simp_all add: mark_suspended_def sleepers_def resuming_def fields phase_ok_def)
    ultimately have "engine_ok ?m" using base_engine [of ?m] by simp
    moreover have "pm_cursor (mark_suspended (slot m k) m1) = pm_cursor m1" by (simp add: mark_suspended_def)
    ultimately show ?thesis using call POWER_CALLBACK_SUCCESS index by (simp add: drive_suspend_def Let_def)
  next
    case POWER_CALLBACK_PENDING
    let ?m = "m1\<lparr>pm_phase := POWER_PHASE_WAIT_SUSPEND\<rparr>"
    have "base_ok ?m" using \<open>base_ok m1\<close> by (simp add: base_ok_def participants_ok_def topological_def slot_def events_def)
    moreover have "slot ?m = slot m" by (rule ext) (simp add: slot_def fields)
    moreover have "asleep (events ?m) = (\<lambda>i. i \<in> slot m ` {..<k})"
    proof -
      have "events ?m = events m1" by (simp add: events_def)
      then show ?thesis by (simp add: eng(2) POWER_CALLBACK_PENDING asleep)
    qed
    moreover have "sleepers ?m = k" by (simp add: sleepers_def resuming_def fields)
    moreover have "phase_ok ?m"
      using state slot_word [OF ok _ state(2)] base \<open>slot ?m = slot m\<close>
      by (simp add: phase_ok_def fields base_ok_def)
    ultimately have "engine_ok ?m" using base_engine [of ?m] by simp
    then show ?thesis using call POWER_CALLBACK_PENDING index by (simp add: drive_suspend_def Let_def)
  next
    case POWER_CALLBACK_FAILURE
    have "asleep (events m1) = (\<lambda>i. i \<in> slot m1 ` {..<pm_suspended_count m1})"
      by (simp add: eng(2) POWER_CALLBACK_FAILURE asleep slot1 fields)
    then have "engine_ok (rollback now POWER_FAILURE_CALLBACK name m1)" for name
      using rollback_ok \<open>base_ok m1\<close> by blast
    then show ?thesis using call POWER_CALLBACK_FAILURE index by (simp add: drive_suspend_def Let_def)
  qed
qed

lemma drive_resume_ok:
  assumes ok: "engine_ok m" and phase: "pm_phase m = POWER_PHASE_RESUME" and more: "pm_cursor m \<noteq> pm_suspended_count m"
  shows "engine_ok (snd (drive_resume env m))"
proof -
  have base: "base_ok m" using engine_base [OF ok] phase by simp
  have topo: "topological m" "participants_ok m" using base by (simp_all add: base_ok_def)
  define k where "k = pm_suspended_count m - 1 - pm_cursor m"
  have state: "pm_cursor m < pm_suspended_count m" "pm_suspended_count m \<le> length (pm_participants m)"
    "pw_state (pm_status m) = POWER_STATE_RESUMING"
    using ok phase more by (auto simp: engine_ok_def phase_ok_def Let_def)
  have k: "sleepers m = Suc k" "k < length (pm_participants m)" "k < pm_suspended_count m"
    using state phase by (auto simp: k_def sleepers_def resuming_def)
  have asleep: "asleep (events m) = (\<lambda>i. i \<in> slot m ` {..<Suc k})" using ok phase k by (simp add: engine_ok_def)
  have index: "pm_suspended m ! (pm_suspended_count m - 1 - pm_cursor m) = slot m k"
    using base k(3) by (simp add: base_ok_def k_def)
  obtain result m1 where call: "call_participant env (slot m k) POWER_OPERATION_RESUME m = (result, m1)"
    by (metis surj_pair)
  note eng = call_participant_engine [OF call]
  have fields: "pm_participants m1 = pm_participants m" "pm_dependency_order m1 = pm_dependency_order m"
    "pm_cursor m1 = pm_cursor m" "pm_suspended_count m1 = pm_suspended_count m" "pm_suspended m1 = pm_suspended m"
    "pm_phase m1 = POWER_PHASE_RESUME"
    "pm_finalized m1 = pm_finalized m" "pw_state (pm_status m1) = POWER_STATE_RESUMING"
    "tk_participant (pm_expected m1) = of_nat (slot m k)" "tk_operation (pm_expected m1) = POWER_OPERATION_RESUME"
    using eng(1) state phase by (simp_all add: engine_def)
  have slot1: "slot m1 = slot m" by (rule ext) (simp add: slot_def fields)
  have "allowed (pm_participants m) (asleep (events m)) (Callback (slot m k) POWER_OPERATION_RESUME result)"
    using allowed_resume [OF ok _ k(2) asleep] phase by simp
  then have base1: "base_ok m1"
    using base unfolding base_ok_def participants_ok_def topological_def slot1 fields eng(2)
    by simp
  have done_ok: "engine_ok (m2\<lparr>pm_cursor := pm_cursor m2 + 1\<rparr>)"
    if "result \<noteq> POWER_CALLBACK_PENDING" "same_engine m1 m2" for m2
  proof -
    have "engine m2 = engine m1" and events2: "events m2 = events m1" using that(2) by (simp_all add: same_engine_def)
    note fields2 = engine_fields [OF this(1)]
    let ?m = "m2\<lparr>pm_cursor := pm_cursor m2 + 1\<rparr>"
    have "base_ok ?m"
      using base1 by (simp add: base_ok_def participants_ok_def topological_def slot_def fields2)
        (simp add: events_def events2 [unfolded events_def])
    moreover have "slot ?m = slot m" by (rule ext) (simp add: slot_def fields2 fields)
    moreover have "asleep (events ?m) = (\<lambda>i. i \<in> slot m ` {..<k})"
    proof -
      have "events ?m = events m @ [Callback (slot m k) POWER_OPERATION_RESUME result]"
        using eng(2) events2 by (simp add: events_def)
      moreover have "slot m j \<noteq> slot m k" if "j < k" for j
        using topological_slots(2) [OF topo _ k(2), of j] k(2) that by auto
      ultimately show ?thesis
        using sleeper_removed [of k "slot m"] that(1) by (simp add: asleep del: fun_upd_apply)
    qed
    moreover have "sleepers ?m = k" "phase_ok ?m"
      using state by (simp_all add: sleepers_def resuming_def fields2 fields phase_ok_def k_def)
    ultimately show ?thesis using base_engine [of ?m] fields2 fields by simp
  qed
  show ?thesis
  proof (cases result)
    case POWER_CALLBACK_SUCCESS
    then show ?thesis using call done_ok [OF _ same_engine_refl] index by (simp add: drive_resume_def Let_def)
  next
    case POWER_CALLBACK_PENDING
    let ?m = "m1\<lparr>pm_phase := POWER_PHASE_WAIT_RESUME\<rparr>"
    have "base_ok ?m" using base1 by (simp add: base_ok_def participants_ok_def topological_def slot_def events_def)
    moreover have "slot ?m = slot m" by (rule ext) (simp add: slot_def fields)
    moreover have "asleep (events ?m) = (\<lambda>i. i \<in> slot m ` {..<Suc k})"
    proof -
      have "events ?m = events m1" by (simp add: events_def)
      then show ?thesis by (simp add: eng(2) POWER_CALLBACK_PENDING asleep)
    qed
    moreover have "sleepers ?m = Suc k" using state by (simp add: sleepers_def resuming_def fields k_def)
    moreover have "phase_ok ?m"
      using state slot_word [OF ok topo(1) k(2)] \<open>slot ?m = slot m\<close>
      by (simp add: phase_ok_def fields k_def)
    ultimately have "engine_ok ?m" using base_engine [of ?m] by simp
    then show ?thesis using call POWER_CALLBACK_PENDING index by (simp add: drive_resume_def Let_def)
  next
    case POWER_CALLBACK_FAILURE
    have "pm_cursor (record_failure POWER_FAILURE_CALLBACK name m1) = pm_cursor m1" for name
      by (simp add: record_failure_def on_status_def)
    then show ?thesis
      using call POWER_CALLBACK_FAILURE index done_ok [OF _ same_engine_failure]
      by (simp add: drive_resume_def Let_def) metis
  qed
qed

lemma finish_ok:
  assumes ok: "engine_ok m" and phase: "pm_phase m = POWER_PHASE_RESUME" and all: "pm_cursor m = pm_suspended_count m"
  shows "engine_ok (finish env now m)"
proof -
  define m1 where "m1 = (on_status (\<lambda>s. s\<lparr>pw_state := POWER_STATE_ACTIVE, pw_state_changed_ms := now,
      pw_resume_duration_ms := now - pw_resume_started_ms s\<rparr>) m)
      \<lparr>pm_phase := POWER_PHASE_NONE, pm_cursor := 0, pm_suspended_count := 0, pm_platform_prepared := False\<rparr>"
  have "asleep (events m) = (\<lambda>i. False)" using ok phase all by (simp add: engine_ok_def sleepers_def resuming_def)
  moreover have "events m1 = events m" by (simp add: m1_def events_def on_status_def)
  ultimately have "engine_ok m1"
    using ok phase by (simp add: engine_ok_def m1_def on_status_def participants_ok_def phase_ok_def topological_def)
  then show ?thesis
    unfolding finish_def m1_def [symmetric] using same_engine_ok [OF same_engine_restore] by blast
qed

lemma drive_step_ok: "engine_ok m \<Longrightarrow> engine_ok (snd (drive_step env now m))"
  by (cases "pm_phase m")
    (simp_all add: drive_step_def drive_wait_ok drive_sleep_ok drive_suspend_ok drive_resume_ok finish_ok)

lemma drive_loop_ok: "engine_ok m \<Longrightarrow> engine_ok (drive_loop env now steps m)"
proof (induction steps arbitrary: m)
  case (Suc steps)
  then show ?case using drive_step_ok [OF Suc.prems, of env now]
    by (cases "drive_step env now m"; cases "fst (drive_step env now m)") auto
qed simp

section \<open>The loop comes to rest\<close>

text \<open>How many turns are left at most: at most one call and one completion per participant each way.\<close>

definition turns :: "power_manager \<Rightarrow> nat" where
  "turns m =
     (let n = length (pm_participants m)
      in case pm_phase m of
           POWER_PHASE_SUSPEND \<Rightarrow> (n - pm_cursor m) + n + 2
         | POWER_PHASE_WAIT_SUSPEND \<Rightarrow> (n - pm_cursor m) + n + 2
         | POWER_PHASE_RESUME \<Rightarrow> pm_suspended_count m - pm_cursor m
         | POWER_PHASE_WAIT_RESUME \<Rightarrow> pm_suspended_count m - pm_cursor m
         | _ \<Rightarrow> 0)"

definition at_rest :: "power_manager \<Rightarrow> bool" where
  "at_rest m \<longleftrightarrow> pm_phase m \<noteq> POWER_PHASE_SUSPEND \<and> pm_phase m \<noteq> POWER_PHASE_RESUME"

lemma rollback_fields [simp]:
  "pm_phase (rollback now code name m) = POWER_PHASE_RESUME" "pm_cursor (rollback now code name m) = 0"
  "pm_suspended_count (rollback now code name m) = pm_suspended_count m"
  "pm_participants (rollback now code name m) = pm_participants m"
  by (simp_all add: rollback_def begin_resume_def Let_def on_status_def called_def record_failure_def)

lemma finish_phase [simp]: "pm_phase (finish env now m) = POWER_PHASE_NONE"
proof -
  have "pm_phase (restore_display env m1) = pm_phase m1" for m1
    using same_engine_restore [of m1 env] by (simp add: same_engine_def engine_def)
  then show ?thesis by (simp add: finish_def)
qed

lemma wait_turns:
  assumes "engine_ok m" and "pm_phase m = POWER_PHASE_WAIT_SUSPEND \<or> pm_phase m = POWER_PHASE_WAIT_RESUME"
    and "drive_wait now m = (go, m')"
  shows "if go then turns m' < turns m else at_rest m'"
proof (cases "pm_completion_ready m")
  case False
  then show ?thesis using assms by (auto simp: drive_wait_def take_completion_def at_rest_def)
next
  case True
  have "pm_phase m = POWER_PHASE_WAIT_SUSPEND \<Longrightarrow>
      pm_cursor m = pm_suspended_count m \<and> pm_cursor m < length (pm_participants m)"
    and "pm_phase m = POWER_PHASE_WAIT_RESUME \<Longrightarrow> pm_cursor m < pm_suspended_count m"
    using assms(1) by (simp_all add: engine_ok_def phase_ok_def Let_def)
  then show ?thesis
    using True assms(2,3)
    by (auto simp: drive_wait_def take_completion_def Let_def turns_def called_def record_failure_def on_status_def
        mark_suspended_def split: if_splits)
qed

lemma suspend_turns:
  assumes "engine_ok m" and "pm_phase m = POWER_PHASE_SUSPEND" and "pm_cursor m \<noteq> length (pm_participants m)"
    and "drive_suspend env now m = (go, m')"
  shows "if go then turns m' < turns m else at_rest m'"
proof -
  let ?index = "pm_dependency_order m ! (length (pm_participants m) - 1 - pm_cursor m)"
  obtain result m1 where call: "call_participant env ?index POWER_OPERATION_SUSPEND m = (result, m1)"
    by (metis surj_pair)
  have "engine m1 = engine (m\<lparr>pm_expected := pm_expected m1\<rparr>)"
    using call_participant_engine(1) [OF call] by (simp add: engine_def)
  note fields = engine_fields [OF this]
  have "pm_cursor m = pm_suspended_count m" "pm_cursor m < length (pm_participants m)"
    using assms(1-3) by (auto simp: engine_ok_def phase_ok_def Let_def)
  then show ?thesis
    using assms(2,4) call fields
    by (cases result) (auto simp: drive_suspend_def Let_def turns_def at_rest_def mark_suspended_def)
qed

lemma resume_turns:
  assumes "engine_ok m" and "pm_phase m = POWER_PHASE_RESUME" and "pm_cursor m \<noteq> pm_suspended_count m"
    and "drive_resume env m = (go, m')"
  shows "if go then turns m' < turns m else at_rest m'"
proof -
  let ?index = "pm_suspended m ! (pm_suspended_count m - 1 - pm_cursor m)"
  obtain result m1 where call: "call_participant env ?index POWER_OPERATION_RESUME m = (result, m1)"
    by (metis surj_pair)
  have "engine m1 = engine (m\<lparr>pm_expected := pm_expected m1\<rparr>)"
    using call_participant_engine(1) [OF call] by (simp add: engine_def)
  note fields = engine_fields [OF this]
  have "pm_cursor m < pm_suspended_count m"
    using assms(1-3) by (auto simp: engine_ok_def phase_ok_def Let_def)
  then show ?thesis
    using assms(2,4) call fields
    by (cases result) (auto simp: drive_resume_def Let_def turns_def at_rest_def record_failure_def on_status_def)
qed

lemma sleep_turns:
  assumes "engine_ok m" and "pm_phase m = POWER_PHASE_SUSPEND" and "pm_cursor m = length (pm_participants m)"
    and "drive_sleep env now m = (go, m')"
  shows "if go then turns m' < turns m else at_rest m'"
proof -
  have "pm_suspended_count m = length (pm_participants m)"
    using assms(1-3) by (auto simp: engine_ok_def phase_ok_def Let_def)
  then show ?thesis
    using assms(2-4)
    by (auto simp: drive_sleep_def Let_def turns_def at_rest_def called_def on_status_def split: if_splits)
qed

lemma step_turns:
  assumes "engine_ok m" and "drive_step env now m = (go, m')"
  shows "if go then turns m' < turns m else at_rest m'"
proof (cases "pm_phase m")
  case POWER_PHASE_SUSPEND
  then show ?thesis
    using assms suspend_turns sleep_turns by (cases "pm_cursor m = length (pm_participants m)") (auto simp: drive_step_def)
next
  case POWER_PHASE_RESUME
  then show ?thesis
    using assms resume_turns [OF assms(1)]
    by (cases "pm_cursor m = pm_suspended_count m") (auto simp: drive_step_def at_rest_def [of "finish env now m"])
next
  case POWER_PHASE_WAIT_SUSPEND
  then show ?thesis using assms wait_turns by (auto simp: drive_step_def)
next
  case POWER_PHASE_WAIT_RESUME
  then show ?thesis using assms wait_turns by (auto simp: drive_step_def)
qed (use assms in \<open>auto simp: drive_step_def at_rest_def\<close>)

lemma drive_loop_rest: "engine_ok m \<Longrightarrow> turns m < steps \<Longrightarrow> at_rest (drive_loop env now steps m)"
proof (induction steps arbitrary: m)
  case (Suc steps)
  obtain go m' where step: "drive_step env now m = (go, m')" by (metis surj_pair)
  have "engine_ok m'" using drive_step_ok [OF Suc.prems(1), of env now] step by simp
  then show ?case using step_turns [OF Suc.prems(1) step] step Suc.IH [of m'] Suc.prems(2) by (cases go) auto
qed simp

lemma turns_bound: "engine_ok m \<Longrightarrow> turns m < DRIVE_STEPS"
proof -
  assume ok: "engine_ok m"
  have "length (pm_participants m) \<le> 16" using ok by (simp add: engine_ok_def participants_ok_def POWER_PARTICIPANT_CAPACITY_def)
  moreover have "resuming m \<Longrightarrow> pm_suspended_count m \<le> length (pm_participants m)"
    using ok by (auto simp: engine_ok_def phase_ok_def resuming_def Let_def)
  ultimately show ?thesis
    by (cases "pm_phase m") (auto simp: turns_def resuming_def Let_def DRIVE_STEPS_def POWER_PARTICIPANT_CAPACITY_def)
qed

lemma drive_ok: "engine_ok m \<Longrightarrow> engine_ok (drive env now m) \<and> at_rest (drive env now m)"
  by (simp add: drive_def drive_loop_ok drive_loop_rest turns_bound)

section \<open>The interface\<close>

datatype power_op =
    Register "power_participant_registration option"
  | Finalize
  | Message power_message
  | SetPolicy power_policy u64
  | SetInhibitors u32 u64
  | PowerUpdate u32 u64
  | BeginShutdown u64

fun power_step :: "power_env \<Rightarrow> power_op \<Rightarrow> power_manager \<Rightarrow> power_manager" where
  "power_step env (Register registration) m = snd (power_manager_register registration m)"
| "power_step env Finalize m = (case power_manager_finalize m of None \<Rightarrow> m | Some (possible, m') \<Rightarrow> m')"
| "power_step env (Message message) m = deliver message m"
| "power_step env (SetPolicy policy now) m = snd (power_manager_set_policy env policy now m)"
| "power_step env (SetInhibitors inhibitors now) m = power_manager_set_dim_inhibitors env inhibitors now m"
| "power_step env (PowerUpdate runtime_events now) m = power_manager_update env runtime_events now m"
| "power_step env (BeginShutdown now) m = power_manager_begin_shutdown now m"

definition power_run :: "power_env \<Rightarrow> power_op list \<Rightarrow> power_manager \<Rightarrow> power_manager" where
  "power_run env ops m = fold (power_step env) ops m"

definition power_ok :: "power_manager \<Rightarrow> bool" where
  "power_ok m \<longleftrightarrow> engine_ok m \<and> at_rest m"

lemma same_engine_power: "same_engine m m' \<Longrightarrow> power_ok m' = power_ok m"
  using same_engine_ok [of m m'] by (auto simp: power_ok_def at_rest_def same_engine_def dest: engine_fields(6))

lemma same_engine_keeps: "power_ok m \<Longrightarrow> same_engine m m' \<Longrightarrow> power_ok m'"
  by (simp add: same_engine_power)

definition is_awake :: "power_manager \<Rightarrow> bool" where
  "is_awake m \<longleftrightarrow> pw_state (pm_status m) = POWER_STATE_ACTIVE \<or> pw_state (pm_status m) = POWER_STATE_IDLE"

lemma awake_phase: "engine_ok m \<Longrightarrow> is_awake m \<Longrightarrow> pm_phase m = POWER_PHASE_NONE"
  by (cases "pm_phase m") (auto simp: engine_ok_def phase_ok_def is_awake_def Let_def)

lemma awake_keeps:
  assumes "power_ok m" and "is_awake m" and "is_awake (on_status f m)"
    and "pw_suspend_available (f (pm_status m)) = pw_suspend_available (pm_status m)"
  shows "power_ok (on_status f m)"
proof -
  have "pm_phase m = POWER_PHASE_NONE" using awake_phase assms(1,2) by (simp add: power_ok_def)
  then show ?thesis
    using assms by (auto simp: power_ok_def engine_ok_def at_rest_def phase_ok_def is_awake_def on_status_def
        participants_ok_def topological_def events_def)
qed

lemma become_keeps:
  assumes "power_ok m" and "is_awake m" and "state = POWER_STATE_ACTIVE \<or> state = POWER_STATE_IDLE"
  shows "power_ok (become state reason now m) \<and> is_awake (become state reason now m)"
proof -
  have "is_awake (become state reason now m)" using assms(3) by (auto simp: become_def is_awake_def on_status_def)
  then show ?thesis using awake_keeps [of m] assms(1,2) by (simp add: become_def)
qed

lemma wake_from_idle_keeps: "power_ok m \<Longrightarrow> power_ok (wake_from_idle now m)"
  using become_keeps [of m POWER_STATE_ACTIVE] by (auto simp: wake_from_idle_def is_awake_def)

lemma unavailable_keeps:
  assumes "power_ok m"
  shows "power_ok (on_status (\<lambda>s. s\<lparr>pw_suspend_available := False\<rparr>) m)" (is "power_ok ?m")
proof -
  have fields: "pm_participants ?m = pm_participants m" "pm_dependency_order ?m = pm_dependency_order m"
    "pm_cursor ?m = pm_cursor m" "pm_suspended_count ?m = pm_suspended_count m" "pm_suspended ?m = pm_suspended m"
    "pm_phase ?m = pm_phase m" "pm_finalized ?m = pm_finalized m" "pw_state (pm_status ?m) = pw_state (pm_status m)"
    "pm_expected ?m = pm_expected m" "events ?m = events m" "pw_suspend_available (pm_status ?m) = False"
    by (simp_all add: on_status_def events_def)
  show ?thesis
    using assms
    unfolding power_ok_def at_rest_def engine_ok_def participants_ok_def phase_ok_def topological_def slot_def
      sleepers_def resuming_def fields by simp
qed

lemma register_keeps:
  assumes "power_ok m"
  shows "power_ok (snd (power_manager_register r m))"
proof (cases "snd (power_manager_register r m) = m \<or> (\<exists>code name. snd (power_manager_register r m) = refuse code name m)")
  case True
  have "power_ok (refuse code name m)" for code name
    unfolding refuse_def using unavailable_keeps [OF assms] same_engine_keeps [OF _ same_engine_failure] by blast
  then show ?thesis using True assms by auto
next
  case False
  then obtain p where m': "snd (power_manager_register r m) = m\<lparr>pm_participants := pm_participants m @ [p]\<rparr>"
    and fin: "\<not> pm_finalized m"
    by (cases r) (auto simp: power_manager_register_def Let_def split: if_splits)
  have "pm_phase m = POWER_PHASE_NONE" "events m = []"
    using assms fin by (auto simp: power_ok_def engine_ok_def)
  then show ?thesis
    using assms fin register_participants [of m r] m'
    by (simp add: power_ok_def engine_ok_def at_rest_def phase_ok_def events_def)
qed

lemma finalize_keeps:
  assumes "power_ok m" and "power_manager_finalize m = Some (r, m')"
  shows "power_ok m'"
proof (cases "pm_finalized m")
  case True
  then show ?thesis using assms by (simp add: power_manager_finalize_def)
next
  case False
  have "participants_ok m" using assms(1) by (simp add: power_ok_def engine_ok_def)
  then obtain m1 where frame: "refinalized m m1" and m': "m' = m1\<lparr>pm_finalized := True\<rparr>"
    and ok: "participants_ok m'" and topo: "pw_suspend_available (pm_status m') \<longrightarrow> topological m'"
    using finalize_frame [OF _ False assms(2)] by blast
  note keeps = refinalized_keeps [OF frame]
  have "pm_phase m = POWER_PHASE_NONE" "events m = []"
    using assms(1) False by (auto simp: power_ok_def engine_ok_def)
  moreover have "events m' = events m" using keeps(2) by (simp add: m' events_def)
  ultimately show ?thesis
    using assms(1) ok topo keeps by (simp add: power_ok_def engine_ok_def at_rest_def phase_ok_def m')
qed

lemma set_policy_keeps:
  assumes "power_ok m"
  shows "power_ok (snd (power_manager_set_policy env policy now m))"
proof -
  define m1 where "m1 = on_status (\<lambda>s. s\<lparr>pw_policy := policy\<rparr>) m"
  have m1: "power_ok m1" using same_engine_keeps [OF assms] by (simp add: m1_def same_engine_status)
  have idle: "power_ok (apply_idle_display env now (become POWER_STATE_IDLE POWER_REASON_INACTIVITY now m1))"
    if "is_awake m1"
    using become_keeps [OF m1 that] same_engine_keeps [OF _ same_engine_idle] by blast
  have "is_awake (on_status (\<lambda>s. s\<lparr>pw_state := POWER_STATE_ACTIVE, pw_state_changed_ms := now\<rparr>) m1)"
    by (simp add: is_awake_def on_status_def)
  then have active: "power_ok (restore_display env (on_status (\<lambda>s. s\<lparr>pw_state := POWER_STATE_ACTIVE, pw_state_changed_ms := now\<rparr>) m1))"
    if "is_awake m1"
    using awake_keeps [OF m1 that] same_engine_keeps [OF _ same_engine_restore] by simp
  show ?thesis
    using assms m1 idle active same_engine_keeps [OF m1 same_engine_restore]
    unfolding power_manager_set_policy_def m1_def [symmetric] Let_def is_awake_def [symmetric] by simp
qed

lemma set_inhibitors_keeps:
  assumes "power_ok m"
  shows "power_ok (power_manager_set_dim_inhibitors env inhibitors now m)"
proof -
  define m1 where "m1 = on_status (\<lambda>s. s\<lparr>pw_dim_inhibitors := inhibitors\<rparr>) m"
  have m1: "power_ok m1" using same_engine_keeps [OF assms] by (simp add: m1_def same_engine_status)
  have "power_ok (on_status (\<lambda>s. s\<lparr>pw_last_activity_ms := now\<rparr>) m1)"
    using same_engine_keeps [OF m1] by (simp add: same_engine_status)
  then show ?thesis
    using assms m1 wake_from_idle_keeps same_engine_keeps [OF _ same_engine_restore]
    unfolding power_manager_set_dim_inhibitors_def m1_def [symmetric] Let_def by simp
qed

lemma update_activity_keeps:
  assumes "power_ok m"
  shows "power_ok (update_activity env now m)"
proof -
  have clear: "power_ok (m'\<lparr>pm_activity_requested := False\<rparr>)" if "power_ok m'" for m'
    by (rule same_engine_keeps [OF that]) (simp add: same_engine_def engine_def events_def)
  have "power_ok (on_status (\<lambda>s. s\<lparr>pw_last_activity_ms := pm_activity_ms m\<rparr>) m)"
    using same_engine_keeps [OF assms] by (simp add: same_engine_status)
  then have "power_ok (wake_from_idle now (on_status (\<lambda>s. s\<lparr>pw_last_activity_ms := pm_activity_ms m\<rparr>) m))"
    by (rule wake_from_idle_keeps)
  then show ?thesis
    unfolding update_activity_def Let_def
    using assms clear same_engine_keeps [OF _ same_engine_restore] by simp
qed

lemma update_deadline_keeps:
  assumes "power_ok m"
  shows "power_ok (snd (update_deadline env runtime_events now m))"
proof -
  have "power_ok (apply_idle_display env now (become POWER_STATE_IDLE POWER_REASON_INACTIVITY now m))"
    if "pw_state (pm_status m) = POWER_STATE_ACTIVE"
    using become_keeps [OF assms, of POWER_STATE_IDLE] that same_engine_keeps [OF _ same_engine_idle]
    by (simp add: is_awake_def)
  then show ?thesis
    using assms same_engine_keeps [OF assms same_engine_idle] by (simp add: update_deadline_def Let_def)
qed

lemma update_wake_engine:
  assumes "power_ok m"
  shows "engine_ok (update_wake env runtime_events now m)"
proof (cases "pw_state (pm_status m) = POWER_STATE_SUSPENDED \<and> runtime_events AND POWER_EVENT_POWER \<noteq> 0")
  case False
  then have "update_wake env runtime_events now m = m" unfolding update_wake_def by (rule if_not_P)
  then show ?thesis using assms by (simp add: power_ok_def)
next
  case True
  have ok: "engine_ok m" using assms by (simp add: power_ok_def)
  have phase: "pm_phase m = POWER_PHASE_SLEEP"
    using ok True by (cases "pm_phase m") (auto simp: engine_ok_def phase_ok_def Let_def)
  define causes where "causes = e_collect_wake_causes env (pm_log m)"
  define m1 where "m1 = called (CollectWakeCauses causes) m"
  define m2 where "m2 = on_status (\<lambda>s. s\<lparr>pw_wake_causes := causes\<rparr>) m1"
  define restored where "restored = e_restore env (pm_log m2)"
  define m3 where "m3 = called (RestorePlatform restored) m2"
  define m4 where "m4 = (if \<not> restored then record_failure POWER_FAILURE_PLATFORM_RESTORE [] m3 else m3)"
  have one: "same_engine m m1" by (simp add: m1_def same_engine_called)
  have "same_engine m1 m2" by (simp add: m2_def same_engine_status)
  then have "same_engine m m2" using one same_engine_trans by blast
  moreover have "same_engine m2 m3" by (simp add: m3_def same_engine_called)
  moreover have "same_engine m3 m4" by (simp add: m4_def)
  ultimately have four: "same_engine m m4" using same_engine_trans by blast
  then have "engine_ok m4" using same_engine_ok ok by blast
  moreover have "pm_phase m4 = POWER_PHASE_SLEEP" using four phase by (auto simp: same_engine_def dest: engine_fields(6))
  ultimately have "engine_ok (begin_resume now POWER_REASON_WAKE m4)"
    using begin_resume_ok [OF engine_base [of m4]] by (simp add: engine_ok_def sleepers_def resuming_def)
  moreover have "engine_ok m1" using same_engine_ok [OF one] ok by blast
  moreover have "update_wake env runtime_events now m =
      (if causes \<noteq> POWER_WAKE_NONE then begin_resume now POWER_REASON_WAKE m4 else m1)"
    using True by (simp add: update_wake_def Let_def causes_def m1_def m2_def m3_def m4_def restored_def)
  ultimately show ?thesis by simp
qed

lemma start_suspend_engine:
  assumes ok: "engine_ok m" and awake: "is_awake m" and fin: "pm_finalized m"
  shows "engine_ok (start_suspend env now m)"
proof -
  define m1 where "m1 = on_status (\<lambda>s. s\<lparr>pw_blockers := []\<rparr>) m"
  define m2 where "m2 = collect_blockers env (rev (take (length (pm_participants m1)) (pm_dependency_order m1))) m1"
  define m3 where "m3 = (on_status (\<lambda>s. s\<lparr>pw_generation := pw_generation s + 1, pw_state := POWER_STATE_SUSPENDING,
      pw_reason := POWER_REASON_REQUEST, pw_state_changed_ms := now, pw_suspend_started_ms := now,
      pw_failure := failure_zero\<rparr>) m2)\<lparr>pm_phase := POWER_PHASE_SUSPEND, pm_cursor := 0, pm_suspended_count := 0\<rparr>"
  have one: "same_engine m m1" by (simp add: m1_def same_engine_status)
  have two: "same_engine m m2" using same_engine_trans [OF one] by (simp add: m2_def)
  have eq2: "engine m2 = engine m" and events2: "events m2 = events m" using two by (simp_all add: same_engine_def)
  note fields = engine_fields [OF eq2]
  have "pm_phase m = POWER_PHASE_NONE" using awake_phase ok awake by simp
  then have none: "asleep (events m) = (\<lambda>i. False)" using ok awake by (auto simp: engine_ok_def is_awake_def)
  have "engine_ok m3" if "pw_suspend_available (pm_status m)"
  proof -
    have topo: "topological m" using ok fin that by (simp add: engine_ok_def)
    have "events m3 = events m" using events2 by (simp add: m3_def events_def on_status_def)
    moreover have "pm_participants m3 = pm_participants m" "pm_dependency_order m3 = pm_dependency_order m"
      "pm_suspended m3 = pm_suspended m" "pm_finalized m3 = pm_finalized m" "pm_phase m3 = POWER_PHASE_SUSPEND"
      "pm_cursor m3 = 0" "pm_suspended_count m3 = 0" "pw_state (pm_status m3) = POWER_STATE_SUSPENDING"
      by (simp_all add: m3_def fields on_status_def)
    ultimately show ?thesis
      using ok fin topo none
      by (simp add: engine_ok_def participants_ok_def topological_def phase_ok_def sleepers_def resuming_def)
  qed
  then have run: "engine_ok (drive env now m3)" if "pw_suspend_available (pm_status m)"
    using drive_ok that by blast
  have same: "engine_ok (record_failure code name m')" if "same_engine m m'" for code name m'
    using same_engine_ok [OF same_engine_trans [OF that same_engine_failure]] ok by blast
  have blocked: "same_engine m (on_status (\<lambda>s. s\<lparr>pw_blockers := bs\<rparr>) m1)" for bs
    by (rule same_engine_trans [OF one same_engine_status]) simp_all
  have "pw_suspend_available (pm_status m1) = pw_suspend_available (pm_status m)" by (simp add: m1_def on_status_def)
  then show ?thesis
    unfolding start_suspend_def m1_def [symmetric] Let_def m2_def [symmetric] m3_def [symmetric]
    using run same [OF one] same [OF two] same [OF blocked] by simp
qed

lemma finalized_display [simp]:
  "pm_finalized (restore_display env m) = pm_finalized m" "pm_finalized (apply_idle_display env now m) = pm_finalized m"
  using same_engine_restore [of m env] same_engine_idle [of m env now] by (simp_all add: same_engine_def engine_def)

lemma finalized_small [simp]:
  "pm_finalized (on_status f m) = pm_finalized m" "pm_finalized (called c m) = pm_finalized m"
  "pm_finalized (record_failure code name m) = pm_finalized m" "pm_finalized (become state reason now m) = pm_finalized m"
  "pm_finalized (wake_from_idle now m) = pm_finalized m" "pm_finalized (begin_resume now reason m) = pm_finalized m"
  by (simp_all add: on_status_def called_def record_failure_def become_def wake_from_idle_def begin_resume_def)

lemma finalized_activity [simp]: "pm_finalized (update_activity env now m) = pm_finalized m"
  by (simp add: update_activity_def Let_def)

lemma finalized_deadline: "pm_finalized (snd (update_deadline env runtime_events now m)) = pm_finalized m"
  by (simp add: update_deadline_def Let_def)

lemma finalized_wake [simp]: "pm_finalized (update_wake env runtime_events now m) = pm_finalized m"
  by (simp add: update_wake_def Let_def)

lemma power_update_keeps:
  assumes "power_ok m"
  shows "power_ok (power_manager_update env runtime_events now m)"
proof (cases "\<not> pm_finalized m \<or> pw_state (pm_status m) = POWER_STATE_SHUTTING_DOWN")
  case True
  then show ?thesis using assms by (simp add: power_manager_update_def)
next
  case False
  define m1 where "m1 = update_activity env now (m\<lparr>pm_suspend_requested := False\<rparr>)"
  obtain due m2 where m2: "update_deadline env runtime_events now m1 = (due, m2)" by (metis surj_pair)
  define m3 where "m3 = update_wake env runtime_events now m2"
  define m4 where "m4 = update_request env (pm_suspend_requested m \<or> due) now m3"
  have "power_ok (m\<lparr>pm_suspend_requested := False\<rparr>)"
    by (rule same_engine_keeps [OF assms]) (simp add: same_engine_def engine_def events_def)
  then have "power_ok m1" unfolding m1_def by (rule update_activity_keeps)
  then have ok2: "power_ok m2" using update_deadline_keeps [of m1 env runtime_events now] m2 by simp
  then have ok3: "engine_ok m3" unfolding m3_def by (rule update_wake_engine)
  have "pm_finalized m1" using False by (simp add: m1_def)
  then have fin: "pm_finalized m3" using finalized_deadline [of env runtime_events now m1] m2 by (simp add: m3_def)
  have "engine_ok m4"
    unfolding m4_def update_request_def is_awake_def [symmetric]
    using start_suspend_engine [OF ok3] fin ok3 same_engine_ok [OF same_engine_failure] by simp
  then have "power_ok (drive env now m4)" using drive_ok by (simp add: power_ok_def)
  moreover have "power_manager_update env runtime_events now m = drive env now m4"
    using False m2 by (simp add: power_manager_update_def m1_def m3_def m4_def Let_def)
  ultimately show ?thesis by simp
qed

lemma begin_shutdown_keeps:
  assumes "power_ok m"
  shows "power_ok (power_manager_begin_shutdown now m)"
proof (cases "pm_finalized m")
  case False
  then show ?thesis using assms by (simp add: power_manager_begin_shutdown_def)
next
  case True
  let ?m = "(become POWER_STATE_SHUTTING_DOWN POWER_REASON_SYSTEM_ACTION now m)\<lparr>pm_phase := POWER_PHASE_NONE\<rparr>"
  have fields: "pm_participants ?m = pm_participants m" "pm_dependency_order ?m = pm_dependency_order m"
    "pm_suspended ?m = pm_suspended m" "pm_phase ?m = POWER_PHASE_NONE" "pm_finalized ?m = pm_finalized m"
    "pw_state (pm_status ?m) = POWER_STATE_SHUTTING_DOWN" "events ?m = events m"
    "pw_suspend_available (pm_status ?m) = pw_suspend_available (pm_status m)"
    by (simp_all add: become_def on_status_def events_def)
  have "power_ok ?m"
    using assms unfolding power_ok_def engine_ok_def participants_ok_def phase_ok_def topological_def at_rest_def fields
    by (simp add: Let_def)
  then show ?thesis using True by (simp add: power_manager_begin_shutdown_def)
qed

lemma power_step_keeps: "power_ok m \<Longrightarrow> power_ok (power_step env operation m)"
  by (cases operation)
    (auto simp: register_keeps finalize_keeps set_policy_keeps set_inhibitors_keeps power_update_keeps
      begin_shutdown_keeps intro: same_engine_keeps split: option.split)

lemma power_run_keeps: "power_ok m \<Longrightarrow> power_ok (power_run env ops m)"
  unfolding power_run_def by (induction ops arbitrary: m) (auto simp: power_step_keeps)

lemma init_power_ok:
  assumes "power_manager_init env mutex policy now = Some m"
  shows "power_ok m"
proof -
  define s where "s = status_zero\<lparr>pw_state := POWER_STATE_ACTIVE, pw_reason := POWER_REASON_STARTUP,
      pw_policy := policy, pw_last_activity_ms := now, pw_state_changed_ms := now, pw_suspend_available := True\<rparr>"
  have s: "m = restore_display env (manager_zero\<lparr>pm_status := s\<rparr>)"
    using assms unfolding power_manager_init_def s_def [symmetric] by (simp split: if_splits)
  have "pw_state s = POWER_STATE_ACTIVE" by (simp add: s_def)
  have "power_ok (manager_zero\<lparr>pm_status := s\<rparr>)"
    by (simp add: power_ok_def engine_ok_def at_rest_def participants_ok_def phase_ok_def manager_zero_def
        events_def orderly_def \<open>pw_state s = POWER_STATE_ACTIVE\<close>)
  then show ?thesis unfolding s using same_engine_keeps same_engine_restore by blast
qed

text \<open>
  C37. In every reachable state of the manager, whatever the participants and the platform answered:
  a participant was asked to suspend only while it was awake and everything that depends on it slept,
  it was asked to resume only while it slept and everything it depends on was awake, and the platform
  was prepared for sleep only with every participant asleep.
\<close>

theorem power_dependency_order:
  assumes "power_manager_init env mutex policy now = Some m0" and "m = power_run env ops m0"
    and "pm_log m = before @ call # after"
  shows "allowed (pm_participants m) (asleep before) call"
proof -
  have "orderly (pm_participants m) (pm_log m)"
    using power_run_keeps [OF init_power_ok [OF assms(1)], of env ops] assms(2)
    by (simp add: power_ok_def engine_ok_def orderly_events)
  then show ?thesis unfolding assms(3) by (rule orderly_at)
qed

text \<open>
  C38. The bounded loop of \<^verbatim>\<open>drive\<close> never stops half-way: after any call of the interface the manager is
  active, idle or shut down with no suspension under way and, unless it shuts down, nobody asleep; or
  it is suspended with everyone asleep; or it waits for the completion of one participant, which it
  has just asked to suspend or to resume.
\<close>

theorem power_settles:
  assumes "power_manager_init env mutex policy now = Some m0" and "m = power_run env ops m0"
  shows "case pw_state (pm_status m) of
      POWER_STATE_ACTIVE \<Rightarrow> pm_phase m = POWER_PHASE_NONE \<and> (\<forall>i. \<not> asleep (pm_log m) i)
    | POWER_STATE_IDLE \<Rightarrow> pm_phase m = POWER_PHASE_NONE \<and> (\<forall>i. \<not> asleep (pm_log m) i)
    | POWER_STATE_SUSPENDING \<Rightarrow> pm_phase m = POWER_PHASE_WAIT_SUSPEND \<and>
        unat (tk_participant (pm_expected m)) < length (pm_participants m) \<and>
        \<not> asleep (pm_log m) (unat (tk_participant (pm_expected m)))
    | POWER_STATE_SUSPENDED \<Rightarrow> pm_phase m = POWER_PHASE_SLEEP \<and>
        {i. asleep (pm_log m) i} = {..<length (pm_participants m)}
    | POWER_STATE_RESUMING \<Rightarrow> pm_phase m = POWER_PHASE_WAIT_RESUME \<and>
        unat (tk_participant (pm_expected m)) < length (pm_participants m) \<and>
        asleep (pm_log m) (unat (tk_participant (pm_expected m)))
    | POWER_STATE_SHUTTING_DOWN \<Rightarrow> pm_phase m = POWER_PHASE_NONE"
proof -
  have ok: "engine_ok m" and rest: "at_rest m"
    using power_run_keeps [OF init_power_ok [OF assms(1)], of env ops] assms(2) by (simp_all add: power_ok_def)
  show ?thesis
  proof (cases "pm_phase m = POWER_PHASE_NONE")
    case True
    then show ?thesis using ok by (auto simp: engine_ok_def phase_ok_def asleep_events split: power_state.split)
  next
    case False
    have topo: "topological m" "participants_ok m" using ok False by (simp_all add: engine_ok_def)
    note slots = topological_slots [OF topo]
    have asleep: "asleep (pm_log m) = (\<lambda>i. i \<in> slot m ` {..<sleepers m})"
      using ok False by (simp add: engine_ok_def asleep_events)
    have "pm_phase m = POWER_PHASE_WAIT_SUSPEND \<or> pm_phase m = POWER_PHASE_SLEEP \<or> pm_phase m = POWER_PHASE_WAIT_RESUME"
      using rest False by (cases "pm_phase m") (auto simp: at_rest_def)
    then show ?thesis
    proof (elim disjE)
      assume phase: "pm_phase m = POWER_PHASE_WAIT_SUSPEND"
      then have state: "pw_state (pm_status m) = POWER_STATE_SUSPENDING" "pm_suspended_count m < length (pm_participants m)"
        "unat (tk_participant (pm_expected m)) = slot m (pm_suspended_count m)" "sleepers m = pm_suspended_count m"
        using ok by (auto simp: engine_ok_def phase_ok_def sleepers_def resuming_def Let_def)
      have "slot m (pm_suspended_count m) \<notin> slot m ` {..<pm_suspended_count m}"
      proof
        assume "slot m (pm_suspended_count m) \<in> slot m ` {..<pm_suspended_count m}"
        then obtain j where "j < pm_suspended_count m" "slot m (pm_suspended_count m) = slot m j" by auto
        then show False using slots(2) [OF state(2), of j] state(2) by simp
      qed
      then show ?thesis using phase state slots(1) [OF state(2)] asleep by simp
    next
      assume phase: "pm_phase m = POWER_PHASE_SLEEP"
      then have state: "pw_state (pm_status m) = POWER_STATE_SUSPENDED" "sleepers m = length (pm_participants m)"
        using ok by (auto simp: engine_ok_def phase_ok_def sleepers_def resuming_def Let_def)
      have "slot m ` {..<length (pm_participants m)} = {..<length (pm_participants m)}"
        using slots(1,4) by auto
      then show ?thesis using phase state asleep by (simp add: lessThan_def)
    next
      assume phase: "pm_phase m = POWER_PHASE_WAIT_RESUME"
      define k where "k = pm_suspended_count m - 1 - pm_cursor m"
      have state: "pw_state (pm_status m) = POWER_STATE_RESUMING" "k < length (pm_participants m)"
        "unat (tk_participant (pm_expected m)) = slot m k" "sleepers m = Suc k"
        using ok phase by (auto simp: engine_ok_def phase_ok_def sleepers_def resuming_def Let_def k_def)
      then show ?thesis using phase slots(1) [OF state(2)] asleep by simp
    qed
  qed
qed

section \<open>A suspension and a wake-up\<close>

definition demo_ops :: "power_op list" where
  "demo_ops = map Register demo_registrations @
    [Finalize, Message RequestSuspend, PowerUpdate POWER_EVENT_POWER 20, PowerUpdate POWER_EVENT_POWER 30]"

lemma demo_log:
  "pm_log (power_run demo_env demo_ops demo_initial) =
    [SetPanel True True, SetBrightness 75 True, NotifyPower,
     Callback 0 POWER_OPERATION_SUSPEND POWER_CALLBACK_SUCCESS] @
    Callback 2 POWER_OPERATION_SUSPEND POWER_CALLBACK_SUCCESS #
    [Callback 1 POWER_OPERATION_SUSPEND POWER_CALLBACK_SUCCESS, PrepareSleep True, EnterSleep True,
     CollectWakeCauses 1, RestorePlatform True,
     Callback 1 POWER_OPERATION_RESUME POWER_CALLBACK_SUCCESS,
     Callback 2 POWER_OPERATION_RESUME POWER_CALLBACK_SUCCESS,
     Callback 0 POWER_OPERATION_RESUME POWER_CALLBACK_SUCCESS]"
  by code_simp

theorem power_dependency_order_witness:
  "allowed (pm_participants (power_run demo_env demo_ops demo_initial))
     (asleep [SetPanel True True, SetBrightness 75 True, NotifyPower,
        Callback 0 POWER_OPERATION_SUSPEND POWER_CALLBACK_SUCCESS])
     (Callback 2 POWER_OPERATION_SUSPEND POWER_CALLBACK_SUCCESS)"
  by (rule power_dependency_order [OF demo_initial refl demo_log])

lemma demo_suspended:
  "pw_state (pm_status (power_run demo_env (take 6 demo_ops) demo_initial)) = POWER_STATE_SUSPENDED"
  "length (pm_participants (power_run demo_env (take 6 demo_ops) demo_initial)) = 3"
  by code_simp+

theorem power_settles_witness:
  "pm_phase (power_run demo_env (take 6 demo_ops) demo_initial) = POWER_PHASE_SLEEP \<and>
   {i. asleep (pm_log (power_run demo_env (take 6 demo_ops) demo_initial)) i} = {..<3}"
  using power_settles [OF demo_initial refl, of "take 6 demo_ops"] demo_suspended by simp

section \<open>Deadlines in the past\<close>

text \<open>
  A blocked automatic suspension leaves a deadline that has passed, so the runtime is woken again at
  once; and after a wake-up the time of idleness still counts from before the suspension, so the next
  deadline event dims the display that was just restored.
\<close>

lemma power_blocked_spins:
  "let env = demo_env\<lparr>e_blocked := (\<lambda>log i. (True, ''busy''))\<rparr>;
       m0 = the (power_manager_init env True (demo_policy\<lparr>po_automatic_suspend := True\<rparr>) 10);
       busy = Some ((the (demo_registration ''app'' []))\<lparr>rg_blocked := True\<rparr>);
       m = power_run env [Register busy, Finalize, PowerUpdate POWER_EVENT_DEADLINE 110,
         PowerUpdate POWER_EVENT_DEADLINE 1010] m0
   in pw_state (pm_status m) = POWER_STATE_IDLE \<and> power_manager_next_deadline m \<le> 1010"
  by code_simp

lemma power_wake_dims:
  "let m = power_run demo_env (take 6 demo_ops @ [PowerUpdate POWER_EVENT_POWER 50000]) demo_initial
   in pw_state (pm_status m) = POWER_STATE_ACTIVE \<and> power_manager_next_deadline m = 110 \<and>
      pw_state (pm_status (power_manager_update demo_env POWER_EVENT_DEADLINE 50001 m)) = POWER_STATE_IDLE"
  by code_simp

end
