(* ===== verification/PowerDisplay.thy ===== *)
theory PowerDisplay
  imports PowerProofs
begin

text \<open>
  The order of the power manager's commands to the display: whatever fails and in whatever order the
  interface is used, the panel is never switched off unless the backlight is known to be dark, and the
  backlight is never lit unless the panel is known to be on. What is known comes from the record of
  calls: the last command, if it succeeded.
\<close>

section \<open>What the calls tell about the display\<close>

fun backlight_step :: "power_call \<Rightarrow> u8 option \<Rightarrow> u8 option" where
  "backlight_step (SetBrightness brightness ok) known = (if ok then Some brightness else None)"
| "backlight_step _ known = known"

fun panel_step :: "power_call \<Rightarrow> bool option \<Rightarrow> bool option" where
  "panel_step (SetPanel enabled ok) known = (if ok then Some enabled else None)"
| "panel_step _ known = known"

definition backlight :: "power_call list \<Rightarrow> u8 option" where
  "backlight log = fold backlight_step log None"

definition panel :: "power_call list \<Rightarrow> bool option" where
  "panel log = fold panel_step log None"

fun display_safe :: "u8 option \<Rightarrow> bool option \<Rightarrow> power_call \<Rightarrow> bool" where
  "display_safe light on (SetPanel enabled ok) \<longleftrightarrow> enabled \<or> light = Some 0"
| "display_safe light on (SetBrightness brightness ok) \<longleftrightarrow> brightness = 0 \<or> on = Some True"
| "display_safe light on _ \<longleftrightarrow> True"

fun safe_from :: "u8 option \<Rightarrow> bool option \<Rightarrow> power_call list \<Rightarrow> bool" where
  "safe_from light on [] \<longleftrightarrow> True"
| "safe_from light on (c # cs) \<longleftrightarrow> display_safe light on c \<and> safe_from (backlight_step c light) (panel_step c on) cs"

lemma safe_from_append:
  "safe_from light on (xs @ ys) \<longleftrightarrow>
     safe_from light on xs \<and> safe_from (fold backlight_step xs light) (fold panel_step xs on) ys"
  by (induction xs arbitrary: light on) auto

lemma display_snoc [simp]:
  "backlight (log @ [c]) = backlight_step c (backlight log)" "panel (log @ [c]) = panel_step c (panel log)"
  "safe_from None None (log @ [c]) \<longleftrightarrow> safe_from None None log \<and> display_safe (backlight log) (panel log) c"
  by (simp_all add: backlight_def panel_def safe_from_append)

fun is_display :: "power_call \<Rightarrow> bool" where
  "is_display (SetBrightness brightness ok) = True"
| "is_display (SetPanel enabled ok) = True"
| "is_display _ = False"

lemma not_display: "\<not> is_display c \<Longrightarrow> backlight_step c l = l \<and> panel_step c p = p \<and> display_safe l p c"
  by (cases c) auto

section \<open>The part of the state that describes the display\<close>

definition display_of :: "power_status \<Rightarrow> bool \<times> u8 \<times> bool \<times> bool" where
  "display_of s = (pw_brightness_valid s, pw_effective_brightness s, pw_panel_valid s, pw_panel_enabled s)"

definition display_view :: "power_manager \<Rightarrow>
    (bool \<times> u8 \<times> bool \<times> bool) \<times> u8 option \<times> bool option \<times> bool" where
  "display_view m =
     (display_of (pm_status m), backlight (pm_log m), panel (pm_log m), safe_from None None (pm_log m))"

definition display_ok :: "power_manager \<Rightarrow> bool" where
  "display_ok m \<longleftrightarrow>
     (case display_view m of ((lit_known, level, panel_known, enabled), light, on, safe) \<Rightarrow>
        (lit_known \<longrightarrow> light = Some level) \<and> (panel_known \<longrightarrow> on = Some enabled) \<and> safe)"

lemma display_same: "display_view m' = display_view m \<Longrightarrow> display_ok m' = display_ok m"
  by (simp add: display_ok_def)

lemma view_status [simp]: "display_of (f (pm_status m)) = display_of (pm_status m) \<Longrightarrow> display_view (on_status f m) = display_view m"
  by (simp add: display_view_def on_status_def)

lemma view_called [simp]: "\<not> is_display c \<Longrightarrow> display_view (called c m) = display_view m"
  by (simp add: display_view_def called_def not_display)

lemma view_fields [simp]:
  "display_view (m\<lparr>pm_phase := phase\<rparr>) = display_view m"
  "display_view (m\<lparr>pm_cursor := n\<rparr>) = display_view m"
  "display_view (m\<lparr>pm_suspended_count := n\<rparr>) = display_view m"
  "display_view (m\<lparr>pm_suspended := ns\<rparr>) = display_view m"
  "display_view (m\<lparr>pm_platform_prepared := b\<rparr>) = display_view m"
  "display_view (m\<lparr>pm_participants := ps\<rparr>) = display_view m"
  "display_view (m\<lparr>pm_dependency_order := ns\<rparr>) = display_view m"
  "display_view (m\<lparr>pm_suspend_requested := b\<rparr>) = display_view m"
  "display_view (m\<lparr>pm_activity_requested := b\<rparr>) = display_view m"
  "display_view (m\<lparr>pm_activity_ms := t\<rparr>) = display_view m"
  "display_view (m\<lparr>pm_completion_ready := b\<rparr>) = display_view m"
  "display_view (m\<lparr>pm_completion_result := r\<rparr>) = display_view m"
  "display_view (m\<lparr>pm_expected := token\<rparr>) = display_view m"
  "display_view (m\<lparr>pm_finalized := b\<rparr>) = display_view m"
  "display_view (m\<lparr>pm_trace := names\<rparr>) = display_view m"
  by (simp_all add: display_view_def)

lemma view_small [simp]:
  "display_view (record_failure code name m) = display_view m"
  "display_view (refuse code name m) = display_view m"
  "display_view (become state reason now m) = display_view m"
  "display_view (wake_from_idle now m) = display_view m"
  "display_view (begin_resume now reason m) = display_view m"
  "display_view (rollback now code name m) = display_view m"
  "display_view (trace_operation p operation m) = display_view m"
  "display_view (expect_completion token m) = display_view m"
  "display_view (mark_suspended index m) = display_view m"
  "display_view (deliver message m) = display_view m"
  by (simp_all add: record_failure_def refuse_def become_def wake_from_idle_def begin_resume_def rollback_def
      trace_operation_def expect_completion_def mark_suspended_def Let_def display_of_def)
    (cases message; simp add: power_manager_complete_def power_manager_request_suspend_def
      power_manager_request_activity_def Let_def)

lemma view_messages [simp]: "display_view (fold deliver messages m) = display_view m"
  by (induction messages arbitrary: m) simp_all

lemma view_register [simp]: "display_view (snd (power_manager_register r m)) = display_view m"
  by (simp add: power_manager_register_def Let_def split: option.split)

lemma view_call: "call_participant env i operation m = (result, m') \<Longrightarrow> display_view m' = display_view m"
  by (auto simp: call_participant_def Let_def split: prod.splits)

section \<open>Commands to the display\<close>

lemma brightness_safe:
  assumes "display_ok m" and "b = 0 \<or> panel (pm_log m) = Some True"
  shows "display_ok (snd (set_brightness env b m))"
  using assms
  by (auto simp: set_brightness_def Let_def display_ok_def display_view_def display_of_def on_status_def called_def
      record_failure_def)

lemma panel_safe:
  assumes "display_ok m" and "e \<or> backlight (pm_log m) = Some 0"
  shows "display_ok (snd (set_panel env e m))"
  using assms
  by (auto simp: set_panel_def display_ok_def display_view_def display_of_def on_status_def called_def record_failure_def)

lemma brightness_known:
  assumes "display_ok m" and "set_brightness env b m = (True, m')"
  shows "backlight (pm_log m') = Some b"
  using assms
  by (auto simp: set_brightness_def Let_def display_ok_def display_view_def display_of_def on_status_def called_def
      record_failure_def split: if_splits)

lemma panel_known:
  assumes "display_ok m" and "set_panel env e m = (True, m')"
  shows "panel (pm_log m') = Some e"
  using assms
  by (auto simp: set_panel_def display_ok_def display_view_def display_of_def on_status_def called_def
      record_failure_def split: if_splits)

lemma set_display_safe:
  assumes "display_ok m"
  shows "display_ok (set_display env b enabled m)"
proof -
  let ?m = "on_status (\<lambda>s. s\<lparr>pw_desired_brightness := b\<rparr>) m"
  have ok: "display_ok ?m" using assms by (simp add: display_ok_def display_of_def)
  show ?thesis
  proof (cases enabled)
    case True
    obtain r m1 where panel: "set_panel env True ?m = (r, m1)" by (metis surj_pair)
    have "display_ok m1" using panel_safe [OF ok, of True env] panel by simp
    then show ?thesis
      using True panel brightness_safe panel_known [OF ok] by (cases r) (simp_all add: set_display_def Let_def)
  next
    case False
    obtain r m1 where dark: "set_brightness env 0 ?m = (r, m1)" by (metis surj_pair)
    have "display_ok m1" using brightness_safe [OF ok, of 0 env] dark by simp
    then show ?thesis
      using False dark panel_safe brightness_known [OF ok] by (cases r) (simp_all add: set_display_def Let_def)
  qed
qed

lemma restore_display_safe: "display_ok m \<Longrightarrow> display_ok (restore_display env m)"
  unfolding restore_display_def by (rule set_display_safe) (simp add: display_ok_def display_of_def)

lemma apply_idle_safe: "display_ok m \<Longrightarrow> display_ok (apply_idle_display env now m)"
  unfolding apply_idle_display_def Let_def by (rule set_display_safe) (simp add: display_ok_def display_of_def)

section \<open>Every operation is safe\<close>

lemma finish_safe: "display_ok m \<Longrightarrow> display_ok (finish env now m)"
  unfolding finish_def by (rule restore_display_safe) (simp add: display_ok_def display_of_def)

lemma drive_wait_view: "display_view (snd (drive_wait now m)) = display_view m"
  by (simp add: drive_wait_def take_completion_def Let_def)

lemma drive_sleep_view: "display_view (snd (drive_sleep env now m)) = display_view m"
  by (simp add: drive_sleep_def Let_def display_of_def)

lemma drive_suspend_view: "display_view (snd (drive_suspend env now m)) = display_view m"
proof -
  let ?index = "pm_dependency_order m ! (length (pm_participants m) - 1 - pm_cursor m)"
  obtain r m1 where call: "call_participant env ?index POWER_OPERATION_SUSPEND m = (r, m1)" by (metis surj_pair)
  then show ?thesis using view_call [OF call] by (cases r) (simp_all add: drive_suspend_def Let_def)
qed

lemma drive_resume_view: "display_view (snd (drive_resume env m)) = display_view m"
proof -
  let ?index = "pm_suspended m ! (pm_suspended_count m - 1 - pm_cursor m)"
  obtain r m1 where call: "call_participant env ?index POWER_OPERATION_RESUME m = (r, m1)" by (metis surj_pair)
  then show ?thesis using view_call [OF call] by (cases r) (simp_all add: drive_resume_def Let_def)
qed

lemma drive_step_safe: "display_ok m \<Longrightarrow> display_ok (snd (drive_step env now m))"
  by (cases "pm_phase m")
    (simp_all add: drive_step_def finish_safe display_same [OF drive_wait_view] display_same [OF drive_sleep_view]
      display_same [OF drive_suspend_view] display_same [OF drive_resume_view])

lemma drive_safe: "display_ok m \<Longrightarrow> display_ok (drive env now m)"
proof -
  have "display_ok (drive_loop env now steps m)" if "display_ok m" for steps
    using that
  proof (induction steps arbitrary: m)
    case (Suc steps)
    then show ?case using drive_step_safe [OF Suc.prems, of env now]
      by (cases "drive_step env now m"; cases "fst (drive_step env now m)") auto
  qed simp
  then show "display_ok m \<Longrightarrow> display_ok (drive env now m)" by (simp add: drive_def)
qed

lemma ask_view: "ask_blocker env i m = (blocked, reason, m') \<Longrightarrow> display_view m' = display_view m"
  by (auto simp: ask_blocker_def Let_def split: if_splits prod.splits)

lemma blockers_view: "display_view (collect_blockers env is m) = display_view m"
proof (induction "is" arbitrary: m)
  case (Cons i rest)
  obtain blocked reason m1 where ask: "ask_blocker env i m = (blocked, reason, m1)" by (metis surj_pair)
  then show ?case using ask_view [OF ask] Cons.IH by (cases blocked) (simp_all add: display_of_def)
qed simp

lemma start_suspend_safe: "display_ok m \<Longrightarrow> display_ok (start_suspend env now m)"
proof -
  assume ok: "display_ok m"
  have same: "display_ok m'" if "display_view m' = display_view m" for m' using display_same [OF that] ok by simp
  have run: "display_ok (drive env now m')" if "display_view m' = display_view m" for m' using drive_safe same [OF that] by blast
  show ?thesis
    unfolding start_suspend_def Let_def
    by (intro if_both [where P = display_ok] same run) (simp_all add: blockers_view display_of_def)
qed

lemma power_update_safe: "display_ok m \<Longrightarrow> display_ok (power_manager_update env runtime_events now m)"
proof -
  assume ok: "display_ok m"
  have activity: "display_ok (update_activity env now m')" if "display_ok m'" for m'
  proof -
    have "display_ok (wake_from_idle now (on_status (\<lambda>s. s\<lparr>pw_last_activity_ms := t\<rparr>) m'))" for t
      using that by (simp add: display_ok_def display_of_def)
    then show ?thesis
      using that restore_display_safe by (simp add: update_activity_def Let_def display_same [OF view_fields(9)])
  qed
  have deadline: "display_ok (snd (update_deadline env runtime_events now m'))" if "display_ok m'" for m'
    using that apply_idle_safe by (simp add: update_deadline_def Let_def display_same [OF view_small(3)])
  have wake: "display_ok (update_wake env runtime_events now m')" if "display_ok m'" for m'
    using that by (simp add: update_wake_def Let_def display_ok_def display_of_def)
  have request: "display_ok (update_request env request now m')" if "display_ok m'" for request m'
    using that start_suspend_safe by (simp add: update_request_def display_same [OF view_small(1)])
  obtain due m2 where m2: "update_deadline env runtime_events now
      (update_activity env now (m\<lparr>pm_suspend_requested := False\<rparr>)) = (due, m2)" by (metis surj_pair)
  have "display_ok (m\<lparr>pm_suspend_requested := False\<rparr>)" using ok by (simp add: display_ok_def)
  then have "display_ok m2" using deadline [OF activity] m2 by (metis snd_conv)
  then show ?thesis
    using ok m2 drive_safe [OF request [OF wake]] by (simp add: power_manager_update_def Let_def)
qed

lemma finalize_view:
  assumes "participants_ok m" and "power_manager_finalize m = Some (r, m')"
  shows "display_view m' = display_view m"
proof (cases "pm_finalized m")
  case True
  then show ?thesis using assms(2) by (simp add: power_manager_finalize_def)
next
  case False
  then obtain m1 where frame: "refinalized m m1" and "m' = m1\<lparr>pm_finalized := True\<rparr>"
    using finalize_frame [OF assms(1) False assms(2)] by blast
  then show ?thesis using refinalized_keeps [OF frame] by (simp add: display_view_def display_of_def)
qed

lemma set_policy_safe: "display_ok m \<Longrightarrow> display_ok (snd (power_manager_set_policy env policy now m))"
proof -
  assume ok: "display_ok m"
  have same: "display_ok m'" if "display_view m' = display_view m" for m' using display_same [OF that] ok by simp
  show ?thesis
    unfolding power_manager_set_policy_def Let_def if_distrib [of snd] snd_conv
    by (intro if_both [where P = display_ok] ok restore_display_safe apply_idle_safe same) (simp_all add: display_of_def)
qed

lemma set_inhibitors_safe: "display_ok m \<Longrightarrow> display_ok (power_manager_set_dim_inhibitors env inhibitors now m)"
proof -
  assume ok: "display_ok m"
  have same: "display_ok m'" if "display_view m' = display_view m" for m' using display_same [OF that] ok by simp
  show ?thesis
    unfolding power_manager_set_dim_inhibitors_def Let_def
    by (intro if_both [where P = display_ok] ok restore_display_safe same) (simp_all add: display_of_def)
qed

lemma power_step_safe: "power_ok m \<Longrightarrow> display_ok m \<Longrightarrow> display_ok (power_step env operation m)"
proof (cases operation)
  case Finalize
  assume ok: "power_ok m" "display_ok m"
  show ?thesis
  proof (cases "power_manager_finalize m")
    case (Some result)
    moreover have "participants_ok m" using ok(1) by (simp add: power_ok_def engine_ok_def)
    ultimately have "display_view (snd result) = display_view m"
      using finalize_view [of m "fst result" "snd result"] by simp
    then show ?thesis using Some Finalize ok(2) display_same [of "snd result" m] by (cases result) simp
  qed (use ok(2) Finalize in simp)
next
  case (BeginShutdown now)
  assume "display_ok m"
  then show ?thesis using BeginShutdown by (simp add: power_manager_begin_shutdown_def display_ok_def)
qed (simp_all add: set_policy_safe set_inhibitors_safe power_update_safe display_same [OF view_register]
    display_same [OF view_small(10)])

lemma power_run_safe: "power_ok m \<Longrightarrow> display_ok m \<Longrightarrow> display_ok (power_run env ops m)"
  unfolding power_run_def by (induction ops arbitrary: m) (auto simp: power_step_keeps power_step_safe)

lemma init_display_ok:
  assumes "power_manager_init env mutex policy now = Some m"
  shows "display_ok m"
proof -
  define s where "s = status_zero\<lparr>pw_state := POWER_STATE_ACTIVE, pw_reason := POWER_REASON_STARTUP,
      pw_policy := policy, pw_last_activity_ms := now, pw_state_changed_ms := now, pw_suspend_available := True\<rparr>"
  have "m = restore_display env (manager_zero\<lparr>pm_status := s\<rparr>)"
    using assms unfolding power_manager_init_def s_def [symmetric] by (simp split: if_splits)
  moreover have "\<not> pw_brightness_valid s \<and> \<not> pw_panel_valid s" by (simp add: s_def status_zero_def)
  then have "display_ok (manager_zero\<lparr>pm_status := s\<rparr>)"
    by (simp add: display_ok_def display_view_def display_of_def manager_zero_def)
  ultimately show ?thesis using restore_display_safe by simp
qed

text \<open>
  C40. In every run of the manager, even when the display refuses commands, the panel is switched off
  only while the backlight is known to be dark, and the backlight is set to a level above zero only
  while the panel is known to be on.
\<close>

theorem power_display_safe:
  assumes "power_manager_init env mutex policy now = Some m0" and "m = power_run env ops m0"
    and "pm_log m = before @ call # after"
  shows "case call of
      SetPanel enabled ok \<Rightarrow> enabled \<or> backlight before = Some 0
    | SetBrightness brightness ok \<Rightarrow> brightness = 0 \<or> panel before = Some True
    | _ \<Rightarrow> True"
proof -
  have "display_ok m"
    using power_run_safe [OF init_power_ok [OF assms(1)] init_display_ok [OF assms(1)]] assms(2) by simp
  then have "safe_from None None (before @ call # after)"
    by (simp add: display_ok_def display_view_def display_of_def assms(3))
  then have "display_safe (backlight before) (panel before) call"
    by (simp add: safe_from_append backlight_def panel_def)
  then show ?thesis by (cases call) auto
qed

section \<open>An idle display\<close>

definition idle_ops :: "power_op list" where
  "idle_ops = [Finalize, PowerUpdate POWER_EVENT_DEADLINE 110, PowerUpdate POWER_EVENT_DEADLINE 310,
     PowerUpdate POWER_EVENT_DEADLINE 510, Message (RequestActivity 600), PowerUpdate POWER_EVENT_POWER 600]"

lemma idle_log:
  "pm_log (power_run demo_env idle_ops demo_initial) =
    [SetPanel True True, SetBrightness 75 True, SetBrightness 20 True, SetBrightness 0 True] @
    SetPanel False True # [NotifyPower, SetPanel True True, SetBrightness 75 True]"
  by code_simp

theorem power_display_safe_witness:
  "backlight [SetPanel True True, SetBrightness 75 True, SetBrightness 20 True, SetBrightness 0 True] = Some 0"
  using power_display_safe [OF demo_initial refl idle_log] by simp

end
