(* ===== verification/Applications.thy ===== *)
theory Applications
  imports Filesystem Console Pointer "HOL-Library.Monad_Syntax"
begin

unbundle bit_operations_syntax

text \<open>
  What the process service works on: application descriptors and the registry of
  \<^verbatim>\<open>src/kernel/application_registry.c\<close>, the ELF application object of \<^verbatim>\<open>src/loader/elf_application.c\<close>,
  the process table of \<^verbatim>\<open>src/process/process.c\<close>, and the environment: the code of the applications,
  the memory allocator and the platform. Addresses of ELF objects are numbers, 0 for NULL; a pointer
  to a process context is the index of its slot. The code of an application is a program tree: it
  returns, or calls the kernel and goes on with the answer.
\<close>

section \<open>Descriptors and the registry\<close>

datatype code_pointer = ElfEntry | ElfUpdate | ElfCleanup | Code nat

record app_descriptor =
  abi_version :: u32
  app_name :: "string option"
  app_version :: "string option"
  app_capabilities :: u32
  app_entry :: "code_pointer option"
  app_update :: "code_pointer option"
  app_cleanup :: "code_pointer option"

definition TABOS_APPLICATION_ABI_VERSION :: u32 where "TABOS_APPLICATION_ABI_VERSION = 3"
definition TABOS_APP_CAPABILITY_CONSOLE :: u32 where "TABOS_APP_CAPABILITY_CONSOLE = 1"
definition APPLICATION_REGISTRY_CAPACITY :: nat where "APPLICATION_REGISTRY_CAPACITY = 16"

definition descriptor_valid :: "app_descriptor option \<Rightarrow> bool" where
  "descriptor_valid descriptor =
     (case descriptor of
        None \<Rightarrow> False
      | Some d \<Rightarrow>
          abi_version d = TABOS_APPLICATION_ABI_VERSION \<and> app_name d \<noteq> None \<and> app_name d \<noteq> Some [] \<and>
          app_version d \<noteq> None \<and> app_version d \<noteq> Some [] \<and> app_entry d \<noteq> None \<and>
          app_capabilities d AND NOT TABOS_APP_CAPABILITY_CONSOLE = 0)"

definition tabos_app_find :: "string option \<Rightarrow> app_descriptor list \<Rightarrow> app_descriptor option" where
  "tabos_app_find name applications =
     (case name of None \<Rightarrow> None | Some n \<Rightarrow> List.find (\<lambda>d. app_name d = Some n) applications)"

definition application_registry_register ::
    "app_descriptor option \<Rightarrow> app_descriptor list \<Rightarrow> bool \<times> app_descriptor list" where
  "application_registry_register descriptor applications =
     (if \<not> descriptor_valid descriptor \<or> APPLICATION_REGISTRY_CAPACITY \<le> length applications \<or>
         tabos_app_find (app_name (the descriptor)) applications \<noteq> None
      then (False, applications)
      else (True, applications @ [the descriptor]))"

definition tabos_app_count :: "app_descriptor list \<Rightarrow> nat" where
  "tabos_app_count applications = length applications"

definition tabos_app_at :: "nat \<Rightarrow> app_descriptor list \<Rightarrow> app_descriptor option" where
  "tabos_app_at index applications = (if index < length applications then Some (applications ! index) else None)"

section \<open>Processes\<close>

datatype process_state = TABOS_PROCESS_RUNNING | TABOS_PROCESS_BLOCKED | TABOS_PROCESS_PANICKED

datatype process_termination =
    TERMINATION_NONE
  | TERMINATION_EXIT_REQUEST
  | TERMINATION_RETURN
  | TERMINATION_FAULT
  | TERMINATION_FORCED

datatype app_result =
    APP_RESULT_OK
  | APP_RESULT_NOT_FOUND
  | APP_RESULT_BUSY
  | APP_RESULT_INVALID
  | APP_RESULT_START_FAILED

definition app_result_number :: "app_result \<Rightarrow> int" where
  "app_result_number r =
     (case r of APP_RESULT_OK \<Rightarrow> 0 | APP_RESULT_NOT_FOUND \<Rightarrow> 1 | APP_RESULT_BUSY \<Rightarrow> 2
      | APP_RESULT_INVALID \<Rightarrow> 3 | APP_RESULT_START_FAILED \<Rightarrow> 4)"

record app_context =
  ctx_descriptor :: "app_descriptor option"
  ctx_process_id :: u32
  ctx_console :: u32
  ctx_console_owned :: bool
  ctx_exit_requested :: bool
  ctx_exit_status :: int
  ctx_termination_cause :: process_termination
  ctx_child_status_valid :: bool
  ctx_child_status :: int
  ctx_application_data :: nat

definition context_zero :: app_context where
  "context_zero = \<lparr>ctx_descriptor = None, ctx_process_id = 0, ctx_console = 0, ctx_console_owned = False,
     ctx_exit_requested = False, ctx_exit_status = 0, ctx_termination_cause = TERMINATION_NONE,
     ctx_child_status_valid = False, ctx_child_status = 0, ctx_application_data = 0\<rparr>"

text \<open>
  \<^verbatim>\<open>application_data_destroy\<close> is NULL or \<^verbatim>\<open>loader_elf_application_destroy\<close>: \<open>p_elf_destroy\<close> says which.
\<close>

record kernel_process =
  p_occupied :: bool
  p_id :: u32
  p_parent_id :: u32
  p_state :: process_state
  p_context :: app_context
  p_elf_destroy :: bool

definition process_zero :: kernel_process where
  "process_zero = \<lparr>p_occupied = False, p_id = 0, p_parent_id = 0, p_state = TABOS_PROCESS_RUNNING,
     p_context = context_zero, p_elf_destroy = False\<rparr>"

definition KERNEL_PROCESS_CAPACITY :: nat where "KERNEL_PROCESS_CAPACITY = 16"
definition TABOS_PROCESS_ID_INVALID :: u32 where "TABOS_PROCESS_ID_INVALID = 0xFFFFFFFF"

section \<open>ELF applications\<close>

text \<open>What a loaded program holds of the other services; tables are lists of slots.\<close>

record elf_descriptor =
  ed_kernel_descriptor :: int
  ed_flags :: int
  ed_open :: bool

record elf_socket =
  es_platform_socket :: int
  es_wait_source :: int
  es_generation :: u32
  es_open :: bool

datatype wait_source_type =
    WAIT_SOCKET
  | WAIT_DEVICE_SUBSCRIPTION
  | WAIT_AUDIO
  | WAIT_POINTER
  | WAIT_CAMERA
  | WAIT_INPUT

record elf_wait_source =
  ws_parent :: nat
  ws_generation :: u32
  ws_type :: wait_source_type
  ws_open :: bool

record elf_tls =
  et_platform_connection :: int
  et_generation :: u32
  et_open :: bool

record elf_resources =
  er_graphics_active :: bool
  er_overlay_flags :: u32
  er_command_head :: nat
  er_command_count :: nat
  er_descriptors :: "elf_descriptor list"
  er_sockets :: "elf_socket list"
  er_wait_sources :: "elf_wait_source list"
  er_tls :: "elf_tls list"
  er_heap_allocation :: "u8 list option"
  er_heap_used :: nat
  er_heap_limit :: nat

record elf_image =
  image_memory_size :: nat
  image_requested_heap :: nat

record elf_application =
  ea_descriptor :: app_descriptor
  ea_path :: string
  ea_argv :: "string list"
  ea_context :: "nat option"
  ea_console :: "nat option"
  ea_image :: "elf_image option"
  ea_execution :: "nat option"
  ea_exit_requested :: bool
  ea_requested_exit_status :: int
  ea_exec_requested :: bool
  ea_exec_in_flight :: bool
  ea_exec_status_ready :: bool
  ea_exec_status :: int
  ea_exec_path :: string
  ea_exec_argv :: "string list"
  ea_resources :: elf_resources
  ea_working_directory :: string
  ea_tty_mode :: u32

definition TABOS_ELF_ARG_MAX :: nat where "TABOS_ELF_ARG_MAX = 16"
definition TABOS_ELF_ARG_BYTES_MAX :: nat where "TABOS_ELF_ARG_BYTES_MAX = 512"
definition TABOS_ELF_EXEC_PENDING :: int where "TABOS_ELF_EXEC_PENDING = - 2147483648"
definition ELF_DESCRIPTOR_CAPACITY :: nat where "ELF_DESCRIPTOR_CAPACITY = 16"
definition ELF_SOCKET_CAPACITY :: nat where "ELF_SOCKET_CAPACITY = 8"
definition ELF_TLS_CAPACITY :: nat where "ELF_TLS_CAPACITY = 4"
definition ELF_WAIT_SOURCE_CAPACITY :: nat where "ELF_WAIT_SOURCE_CAPACITY = 16"
definition ELF_HEAP_GUARD_SIZE :: nat where "ELF_HEAP_GUARD_SIZE = 32"
definition ELF_HEAP_GUARD_VALUE :: u8 where "ELF_HEAP_GUARD_VALUE = 0xa5"
definition TTY_MODE_SCROLL_KEYS :: u32 where "TTY_MODE_SCROLL_KEYS = 1"
definition TTY_MODE_RAW_INPUT :: u32 where "TTY_MODE_RAW_INPUT = 2"
definition GRAPHICS_OVERLAY_ALL :: u32 where "GRAPHICS_OVERLAY_ALL = 3"
definition DEADLINE_NONE :: u64 where "DEADLINE_NONE = 0xFFFFFFFFFFFFFFFF"
definition ENOTTY :: int where "ENOTTY = 25"
definition ENOTSUP :: int where "ENOTSUP = 95"

definition elf_wait_source_zero :: elf_wait_source where
  "elf_wait_source_zero = \<lparr>ws_parent = 0, ws_generation = 0, ws_type = WAIT_SOCKET, ws_open = False\<rparr>"

definition elf_socket_zero :: elf_socket where
  "elf_socket_zero = \<lparr>es_platform_socket = 0, es_wait_source = 0, es_generation = 0, es_open = False\<rparr>"

definition elf_tls_zero :: elf_tls where
  "elf_tls_zero = \<lparr>et_platform_connection = 0, et_generation = 0, et_open = False\<rparr>"

definition elf_descriptor_zero :: elf_descriptor where
  "elf_descriptor_zero = \<lparr>ed_kernel_descriptor = 0, ed_flags = 0, ed_open = False\<rparr>"

definition resources_zero :: elf_resources where
  "resources_zero = \<lparr>er_graphics_active = False, er_overlay_flags = 0, er_command_head = 0, er_command_count = 0,
     er_descriptors = replicate ELF_DESCRIPTOR_CAPACITY elf_descriptor_zero,
     er_sockets = replicate ELF_SOCKET_CAPACITY elf_socket_zero,
     er_wait_sources = replicate ELF_WAIT_SOURCE_CAPACITY elf_wait_source_zero,
     er_tls = replicate ELF_TLS_CAPACITY elf_tls_zero,
     er_heap_allocation = None, er_heap_used = 0, er_heap_limit = 0\<rparr>"

definition elf_zero :: elf_application where
  "elf_zero = \<lparr>ea_descriptor = \<lparr>abi_version = 0, app_name = None, app_version = None, app_capabilities = 0,
       app_entry = None, app_update = None, app_cleanup = None\<rparr>,
     ea_path = [], ea_argv = [], ea_context = None, ea_console = None, ea_image = None, ea_execution = None,
     ea_exit_requested = False, ea_requested_exit_status = 0, ea_exec_requested = False,
     ea_exec_in_flight = False, ea_exec_status_ready = False, ea_exec_status = 0, ea_exec_path = [],
     ea_exec_argv = [], ea_resources = resources_zero, ea_working_directory = [], ea_tty_mode = 0\<rparr>"

section \<open>The kernel and its environment\<close>

text \<open>
  Calls out of the modelled services, in order. \<open>Callback\<close> records that the code of an application is
  entered, so that what the environment answers may depend on everything that came before.
\<close>

datatype app_callback =
    EntryCall code_pointer
  | UpdateCall code_pointer
  | CleanupCall code_pointer int

datatype kernel_call =
    RuntimeNotify nat
  | PlatformLog string
  | Callback app_callback nat
  | RiscvStop "nat option"
  | RiscvDestroy "nat option"
  | AudioCloseOwner nat
  | CameraCloseOwner nat
  | DeviceUnsubscribeOwner nat
  | OverlayFlags u32
  | GraphicsEnd
  | SocketInterrupt int
  | SocketsSuspend
  | SocketDispose int
  | SocketsResume
  | TlsClose int
  | ElfUnload
  | FsClose int

text \<open>
  \<open>launched\<close> is not a variable of the program: it counts the processes started, to say when the 32-bit
  process identifiers cannot have wrapped around. No operation reads it.
\<close>

record kernel =
  processes :: "kernel_process list"
  foreground_stack :: "u32 list"
  foreground_depth :: nat
  next_process_id :: u32
  foreground_process :: "nat option"
  last_exit_valid :: bool
  last_exit_status :: int
  applications :: "app_descriptor list"
  k_console :: console_state
  k_pointer :: pointer_state
  k_elf :: "nat \<Rightarrow> elf_application option"
  k_log :: "kernel_call list"
  launched :: nat

text \<open>
  What an application may ask: its launches, its exit, the status of its child, diagnostics, and any
  operation on the console session it holds. A program is entered with the context of its process and
  may pass any other.
\<close>

datatype app_call =
    CallLaunch "string option"
  | CallLaunchPath "string option" nat "string option list option"
  | CallExec "nat option" "string option" nat "string option list option"
  | CallLaunchChild "nat option" "string option"
  | CallTakeChildStatus "nat option"
  | CallRequestExit nat int
  | CallFail nat process_termination int
  | CallForceTerminate u32 int
  | CallReportDiagnostic nat int
  | CallConsole nat session_op
  | CallRegister "app_descriptor option"
  | CallProcessId nat
  | CallProcessCount
  | CallPointerOpen nat u32
  | CallPointerRead nat int
  | CallPointerClose nat int

datatype app_answer =
    Nothing
  | Answer bool
  | Result app_result
  | Status "int option"
  | Number int
  | ConsoleAnswer "(bool \<times> tabos_input_event option) option"
  | PointerAnswer int "tabos_pointer_event option"

datatype app_program = Finish bool | Call app_call "app_answer \<Rightarrow> app_program"

text \<open>The same for a loaded ELF program, which reaches the kernel through its call table.\<close>

datatype guest_call =
    GuestExec "string option" nat "string option list option"
  | GuestRequestExit int
  | GuestWriteLine "string option"
  | GuestWrite "string option"
  | GuestClear
  | GuestTtyGet int
  | GuestTtySet int u32
  | GuestResources elf_resources

datatype riscv_result = RISCV32_YIELDED | RISCV32_RETURNED | RISCV32_FAULT

datatype guest_program = GuestFinish riscv_result int | GuestCall guest_call "int \<Rightarrow> guest_program"

text \<open>What \<^verbatim>\<open>loader_elf_load_file\<close> answers: an image, or the name of the error.\<close>

datatype load_result = Loaded elf_image | LoadFailed string

record process_env =
  ke_font :: font_table
  ke_now :: "kernel \<Rightarrow> u64"
  ke_presented :: "kernel \<Rightarrow> bool"
  ke_calloc :: "kernel \<Rightarrow> nat option"
  ke_getcwd :: "kernel \<Rightarrow> string option"
  ke_data_pointer :: "string option \<Rightarrow> nat \<Rightarrow> bool"
  ke_app :: "app_callback \<Rightarrow> nat \<Rightarrow> kernel \<Rightarrow> app_program"
  ke_load :: "string \<Rightarrow> kernel \<Rightarrow> load_result"
  ke_can_execute :: bool
  ke_riscv_create :: "nat \<Rightarrow> kernel \<Rightarrow> nat option"
  ke_guest :: "nat \<Rightarrow> kernel \<Rightarrow> guest_program"
  ke_compute_wait :: "kernel \<Rightarrow> int"
  ke_suspend_sockets :: "kernel \<Rightarrow> bool"
  ke_requires_slices :: bool
  ke_riscv_deadline :: "nat option \<Rightarrow> kernel \<Rightarrow> u64"

definition log_call :: "kernel_call \<Rightarrow> kernel \<Rightarrow> kernel" where
  "log_call c k = k\<lparr>k_log := k_log k @ [c]\<rparr>"

definition on_process :: "nat \<Rightarrow> (kernel_process \<Rightarrow> kernel_process) \<Rightarrow> kernel \<Rightarrow> kernel" where
  "on_process slot f k = k\<lparr>processes := (processes k)[slot := f (processes k ! slot)]\<rparr>"

definition on_context :: "nat \<Rightarrow> (app_context \<Rightarrow> app_context) \<Rightarrow> kernel \<Rightarrow> kernel" where
  "on_context slot f = on_process slot (\<lambda>p. p\<lparr>p_context := f (p_context p)\<rparr>)"

definition context_of :: "nat \<Rightarrow> kernel \<Rightarrow> app_context" where
  "context_of slot k = p_context (processes k ! slot)"

definition on_elf :: "nat \<Rightarrow> (elf_application \<Rightarrow> elf_application) \<Rightarrow> kernel \<Rightarrow> kernel" where
  "on_elf address f k = k\<lparr>k_elf := (k_elf k)(address := map_option f (k_elf k address))\<rparr>"

definition on_resources :: "nat \<Rightarrow> (elf_resources \<Rightarrow> elf_resources) \<Rightarrow> kernel \<Rightarrow> kernel" where
  "on_resources address f = on_elf address (\<lambda>a. a\<lparr>ea_resources := f (ea_resources a)\<rparr>)"

definition bytes_of :: "string \<Rightarrow> u8 list" where
  "bytes_of s = map of_char s"

text \<open>\<^verbatim>\<open>snprintf\<close> into a buffer of \<open>capacity\<close> bytes, and its conversion \<^verbatim>\<open>%d\<close>.\<close>

definition snprintf :: "nat \<Rightarrow> string \<Rightarrow> string" where
  "snprintf capacity s = take (capacity - 1) s"

fun decimal_nat :: "nat \<Rightarrow> string" where
  "decimal_nat n = (if n < 10 then [char_of (48 + n)] else decimal_nat (n div 10) @ [char_of (48 + n mod 10)])"

declare decimal_nat.simps [simp del]

definition decimal :: "int \<Rightarrow> string" where
  "decimal x = (if x < 0 then CHR ''-'' # decimal_nat (nat (- x)) else decimal_nat (nat x))"

end
