(* ===== verification/ElfObject.thy ===== *)
theory ElfObject
  imports Applications
begin

unbundle bit_operations_syntax

text \<open>
  The life of an ELF application object (\<^verbatim>\<open>src/loader/elf_application.c\<close>): its creation from a path and
  arguments, the settings a child inherits, and the release of everything the program held. The
  console and the pointer service are the models of their theories; calls into services that are not
  modelled are recorded in the log. The platform may call \<^verbatim>\<open>elf_cancel_execution\<close> while it stops a
  program; that only wakes threads and is not modelled.
\<close>

section \<open>Creation\<close>

text \<open>
  The loop over the arguments: each is copied behind the ones before it, with its NUL. An array that is
  shorter than \<open>argc\<close> ends in NULL.
\<close>

fun copy_from ::
    "(string option \<Rightarrow> nat \<Rightarrow> bool) \<Rightarrow> nat \<Rightarrow> string option list \<Rightarrow> nat \<Rightarrow> nat \<Rightarrow> string list option" where
  "copy_from readable 0 argv data_size used = Some []"
| "copy_from readable (Suc n) argv data_size used =
     (case argv of
        Some argument # rest \<Rightarrow>
          if \<not> readable (Some argument) (data_size - used) then None
          else if data_size - used < length argument + 1 then None
          else map_option ((#) argument) (copy_from readable n rest data_size (used + (length argument + 1)))
      | _ \<Rightarrow> None)"

definition copy_arguments ::
    "process_env \<Rightarrow> nat \<Rightarrow> string option list option \<Rightarrow> nat \<Rightarrow> string list option" where
  "copy_arguments env argc argv data_size =
     (if TABOS_ELF_ARG_MAX < argc then None
      else
        (case argv of
           None \<Rightarrow> None
         | Some argv \<Rightarrow>
             if \<not> ke_data_pointer env None ((argc + 1) * 4) then None
             else copy_from (ke_data_pointer env) argc argv data_size 0))"

definition base_name :: "string \<Rightarrow> string" where
  "base_name path = rev (takeWhile (\<lambda>c. c \<noteq> CHR ''/'') (rev path))"

definition elf_free :: "nat \<Rightarrow> kernel \<Rightarrow> kernel" where
  "elf_free address k = k\<lparr>k_elf := (k_elf k)(address := None)\<rparr>"

definition elf_descriptor_of :: "string \<Rightarrow> app_descriptor" where
  "elf_descriptor_of name =
     \<lparr>abi_version = TABOS_APPLICATION_ABI_VERSION, app_name = Some name, app_version = Some ''ELF'',
      app_capabilities = TABOS_APP_CAPABILITY_CONSOLE, app_entry = Some ElfEntry,
      app_update = Some ElfUpdate, app_cleanup = Some ElfCleanup\<rparr>"

definition loader_elf_application_create ::
    "process_env \<Rightarrow> string option \<Rightarrow> nat \<Rightarrow> string option list option \<Rightarrow> kernel \<Rightarrow> nat \<times> kernel" where
  "loader_elf_application_create env path argc argv k =
     (case path of
        None \<Rightarrow> (0, k)
      | Some path \<Rightarrow>
          if path = [] \<or> FS_PATH_MAX \<le> length path then (0, k)
          else
            (case ke_calloc env k of
               None \<Rightarrow> (0, k)
             | Some a \<Rightarrow>
                 (let k = k\<lparr>k_elf := (k_elf k)(a := Some elf_zero)\<rparr>
                  in case copy_arguments env argc argv TABOS_ELF_ARG_BYTES_MAX of
                       None \<Rightarrow> (0, elf_free a k)
                     | Some arguments \<Rightarrow>
                         (let k = on_elf a (\<lambda>e. e\<lparr>ea_argv := arguments, ea_path := path\<rparr>) k;
                              k = on_resources a (\<lambda>r. r\<lparr>er_descriptors :=
                                    replicate 3 (elf_descriptor_zero\<lparr>ed_open := True\<rparr>) @
                                      drop 3 (er_descriptors r)\<rparr>) k;
                              directory = (case ke_getcwd env k of None \<Rightarrow> ''A:/'' | Some directory \<Rightarrow> directory);
                              k = on_elf a (\<lambda>e. e\<lparr>ea_working_directory := directory\<rparr>) k;
                              name = base_name path
                          in if name = [] \<or> FS_NAME_MAX < length name then (0, elf_free a k)
                             else (a, on_elf a (\<lambda>e. e\<lparr>ea_descriptor := elf_descriptor_of name\<rparr>) k)))))"

section \<open>Settings\<close>

definition loader_elf_application_descriptor :: "nat \<Rightarrow> kernel \<Rightarrow> app_descriptor option" where
  "loader_elf_application_descriptor a k =
     (if a \<noteq> 0 then map_option ea_descriptor (k_elf k a) else None)"

definition loader_elf_application_path :: "nat \<Rightarrow> kernel \<Rightarrow> string option" where
  "loader_elf_application_path a k = (if a \<noteq> 0 then map_option ea_path (k_elf k a) else None)"

definition loader_elf_application_working_directory :: "nat \<Rightarrow> kernel \<Rightarrow> string option" where
  "loader_elf_application_working_directory a k =
     (if a \<noteq> 0 then map_option ea_working_directory (k_elf k a) else None)"

definition loader_elf_application_set_working_directory ::
    "nat \<Rightarrow> string option \<Rightarrow> kernel \<Rightarrow> bool \<times> kernel" where
  "loader_elf_application_set_working_directory a directory k =
     (case (k_elf k a, directory) of
        (Some e, Some directory) \<Rightarrow>
          if a = 0 \<or> FS_PATH_MAX \<le> length directory then (False, k)
          else
            (case filesystem_normalize_path (Some (ea_path e)) (Some directory) (Some FS_PATH_MAX) of
               None \<Rightarrow> (False, k)
             | Some resolved \<Rightarrow>
                 (True, on_elf a (\<lambda>e. e\<lparr>ea_working_directory := directory, ea_path := resolved\<rparr>) k))
      | _ \<Rightarrow> (False, k))"

definition loader_elf_application_tty_mode :: "nat \<Rightarrow> kernel \<Rightarrow> u32" where
  "loader_elf_application_tty_mode a k =
     (if a \<noteq> 0 then (case k_elf k a of None \<Rightarrow> 0 | Some e \<Rightarrow> ea_tty_mode e) else 0)"

definition tty_mode_valid :: "u32 \<Rightarrow> bool" where
  "tty_mode_valid mode \<longleftrightarrow> mode AND NOT (TTY_MODE_SCROLL_KEYS OR TTY_MODE_RAW_INPUT) = 0"

definition loader_elf_application_set_tty_mode :: "nat \<Rightarrow> u32 \<Rightarrow> kernel \<Rightarrow> bool \<times> kernel" where
  "loader_elf_application_set_tty_mode a mode k =
     (if a = 0 \<or> \<not> tty_mode_valid mode then (False, k)
      else (True, on_elf a (\<lambda>e. e\<lparr>ea_tty_mode := mode\<rparr>) k))"

section \<open>Release\<close>

definition elf_wait_source :: "int \<Rightarrow> elf_resources \<Rightarrow> nat option" where
  "elf_wait_source source r =
     (if source < 0 then None
      else
        (let handle = word_of_int source :: u32;
             index = unat (handle AND 15);
             generation = drop_bit 4 handle;
             owned = er_wait_sources r ! index
         in if \<not> ws_open owned \<or> generation = 0 \<or> ws_generation owned \<noteq> generation then None else Some index))"

definition elf_wait_source_invalidate :: "int \<Rightarrow> elf_resources \<Rightarrow> elf_resources" where
  "elf_wait_source_invalidate source r =
     (case elf_wait_source source r of
        None \<Rightarrow> r
      | Some index \<Rightarrow>
          r\<lparr>er_wait_sources := (er_wait_sources r)[index :=
              elf_wait_source_zero\<lparr>ws_generation := ws_generation (er_wait_sources r ! index)\<rparr>]\<rparr>)"

definition elf_heap_guards_intact :: "elf_resources \<Rightarrow> bool" where
  "elf_heap_guards_intact r =
     (case er_heap_allocation r of
        None \<Rightarrow> True
      | Some heap \<Rightarrow>
          list_all (\<lambda>i. heap ! i = ELF_HEAP_GUARD_VALUE \<and>
              heap ! (ELF_HEAP_GUARD_SIZE + er_heap_limit r + i) = ELF_HEAP_GUARD_VALUE)
            [0..<ELF_HEAP_GUARD_SIZE])"

text \<open>The resources of the application at an address, and the loops over its tables.\<close>

definition resources_of :: "nat \<Rightarrow> kernel \<Rightarrow> elf_resources" where
  "resources_of a k = (case k_elf k a of None \<Rightarrow> resources_zero | Some e \<Rightarrow> ea_resources e)"

definition interrupt_socket :: "nat \<Rightarrow> nat \<Rightarrow> kernel \<Rightarrow> kernel" where
  "interrupt_socket a index k =
     (let s = er_sockets (resources_of a k) ! index
      in if es_open s then log_call (SocketInterrupt (es_platform_socket s)) k else k)"

definition dispose_socket :: "nat \<Rightarrow> nat \<Rightarrow> kernel \<Rightarrow> kernel" where
  "dispose_socket a index k =
     (let s = er_sockets (resources_of a k) ! index
      in if es_open s
         then on_resources a (\<lambda>r. r\<lparr>er_sockets := (er_sockets r)[index := elf_socket_zero]\<rparr>)
                (on_resources a (elf_wait_source_invalidate (es_wait_source s))
                  (log_call (SocketDispose (es_platform_socket s)) k))
         else k)"

definition close_tls :: "nat \<Rightarrow> nat \<Rightarrow> kernel \<Rightarrow> kernel" where
  "close_tls a index k =
     (let t = er_tls (resources_of a k) ! index
      in if et_open t
         then on_resources a (\<lambda>r. r\<lparr>er_tls := (er_tls r)[index := elf_tls_zero]\<rparr>)
                (log_call (TlsClose (et_platform_connection t)) k)
         else k)"

definition close_descriptor :: "nat \<Rightarrow> nat \<Rightarrow> kernel \<Rightarrow> kernel" where
  "close_descriptor a index k =
     (let d = er_descriptors (resources_of a k) ! index
      in if ed_open d
         then on_resources a (\<lambda>r. r\<lparr>er_descriptors := (er_descriptors r)[index := elf_descriptor_zero]\<rparr>)
                (log_call (FsClose (ed_kernel_descriptor d)) k)
         else k)"

definition close_streams :: "nat \<Rightarrow> kernel \<Rightarrow> kernel" where
  "close_streams a k =
     (let k = log_call (AudioCloseOwner a) k;
          k = k\<lparr>k_pointer := pointer_service_close_owner a (k_pointer k)\<rparr>;
          k = log_call (CameraCloseOwner a) k;
          k = log_call (DeviceUnsubscribeOwner a) k
      in on_resources a (\<lambda>r. r\<lparr>er_wait_sources := map (\<lambda>w.
           if ws_open w \<and> ws_type w \<noteq> WAIT_SOCKET
           then elf_wait_source_zero\<lparr>ws_generation := ws_generation w\<rparr> else w) (er_wait_sources r)\<rparr>) k)"

definition end_graphics :: "process_env \<Rightarrow> nat \<Rightarrow> kernel \<Rightarrow> kernel" where
  "end_graphics env a k =
     (if er_graphics_active (resources_of a k) then
        (let k = on_resources a (\<lambda>r. r\<lparr>er_graphics_active := False, er_overlay_flags := GRAPHICS_OVERLAY_ALL\<rparr>) k;
             k = log_call GraphicsEnd (log_call (OverlayFlags GRAPHICS_OVERLAY_ALL) k)
         in k\<lparr>k_console := console_set_graphics_active (ke_font env) (ke_now env k) (ke_presented env k) False (k_console k)\<rparr>)
      else k)"

definition close_connections :: "process_env \<Rightarrow> nat \<Rightarrow> kernel \<Rightarrow> kernel" where
  "close_connections env a k =
     (let k = fold (interrupt_socket a) [0..<ELF_SOCKET_CAPACITY] k;
          k = log_call SocketsSuspend k;
          suspended = ke_suspend_sockets env k;
          k = (if \<not> suspended
            then log_call (PlatformLog ''Could not suspend socket operations during process cleanup'') k else k);
          k = fold (dispose_socket a) [0..<ELF_SOCKET_CAPACITY] k;
          k = fold (close_tls a) [0..<ELF_TLS_CAPACITY] k
      in if suspended then log_call SocketsResume k else k)"

definition elf_release_resources :: "process_env \<Rightarrow> nat \<Rightarrow> kernel \<Rightarrow> kernel" where
  "elf_release_resources env a k =
     (case k_elf k a of
        None \<Rightarrow> k
      | Some e \<Rightarrow>
          (let k = log_call (RiscvStop (ea_execution e)) k;
               k = on_resources a (\<lambda>r. r\<lparr>er_command_head := 0, er_command_count := 0\<rparr>) k;
               k = end_graphics env a (close_streams a k);
               k = log_call (RiscvDestroy (ea_execution e)) k;
               k = on_elf a (\<lambda>e. e\<lparr>ea_execution := None\<rparr>) k;
               k = close_connections env a k;
               k = on_elf a (\<lambda>e. e\<lparr>ea_image := None\<rparr>) (log_call ElfUnload k);
               k = fold (close_descriptor a) [3..<ELF_DESCRIPTOR_CAPACITY] k;
               k = (if \<not> elf_heap_guards_intact (resources_of a k)
                 then log_call (PlatformLog ''ELF heap boundary corruption detected during process cleanup'') k else k);
               k = on_resources a (\<lambda>r. r\<lparr>er_heap_allocation := None, er_heap_used := 0, er_heap_limit := 0\<rparr>) k
           in on_elf a (\<lambda>e. e\<lparr>ea_context := None, ea_console := None\<rparr>) k))"

definition loader_elf_application_destroy :: "process_env \<Rightarrow> nat \<Rightarrow> kernel \<Rightarrow> kernel" where
  "loader_elf_application_destroy env a k = elf_free a (elf_release_resources env a k)"

end
