(* ===== verification/Process.thy ===== *)
theory Process
  imports ElfObject
begin

unbundle bit_operations_syntax

text \<open>
  The process service of \<^verbatim>\<open>src/process/process.c\<close> and the callbacks of ELF applications. One process is in
  the foreground; launching a child blocks its parent, and the parent resumes when the child has
  finished. An operation that runs code of an application takes the runner of callbacks as its argument
  (\<open>enter\<close>) and answers \<^const>\<open>None\<close> only if a callback does; \<open>callback_at\<close> ties the knot, with the depth
  to which callbacks may nest. Every function runs on the one thread of the runtime.
\<close>

type_synonym runner = "app_callback \<Rightarrow> nat \<Rightarrow> kernel \<Rightarrow> (bool \<times> kernel) option"

section \<open>Helpers\<close>

definition termination_name :: "process_termination \<Rightarrow> string" where
  "termination_name cause =
     (case cause of
        TERMINATION_EXIT_REQUEST \<Rightarrow> ''exit request''
      | TERMINATION_RETURN \<Rightarrow> ''return''
      | TERMINATION_FAULT \<Rightarrow> ''execution fault''
      | TERMINATION_FORCED \<Rightarrow> ''forced termination''
      | TERMINATION_NONE \<Rightarrow> ''unknown cause'')"

definition descriptor_name :: "app_descriptor option \<Rightarrow> string" where
  "descriptor_name d = (case d of None \<Rightarrow> [] | Some d \<Rightarrow> (case app_name d of None \<Rightarrow> [] | Some name \<Rightarrow> name))"

definition panic_message :: "app_context \<Rightarrow> string" where
  "panic_message c =
     snprintf 96 (''KERNEL PANIC: process 0 ('' @ descriptor_name (ctx_descriptor c) @ ''): '' @
       termination_name (ctx_termination_cause c) @ ''; status '' @ decimal (ctx_exit_status c))"

definition panic_root_process :: "process_env \<Rightarrow> nat \<Rightarrow> kernel \<Rightarrow> kernel" where
  "panic_root_process env slot k =
     (let k = on_process slot (\<lambda>p. p\<lparr>p_state := TABOS_PROCESS_PANICKED\<rparr>) k;
          k = on_context slot (\<lambda>c. c\<lparr>ctx_exit_requested := False\<rparr>) k;
          k = k\<lparr>last_exit_status := ctx_exit_status (context_of slot k), last_exit_valid := True\<rparr>;
          message = panic_message (context_of slot k);
          k = log_call (PlatformLog message) k
      in k\<lparr>k_console := snd (console_write_panic (ke_font env) (ke_presented env k) (Some (bytes_of message)) (k_console k))\<rparr>)"

definition find_process :: "u32 \<Rightarrow> kernel \<Rightarrow> nat option" where
  "find_process process k =
     List.find (\<lambda>i. p_occupied (processes k ! i) \<and> p_id (processes k ! i) = process) [0..<KERNEL_PROCESS_CAPACITY]"

definition free_process_slot :: "kernel \<Rightarrow> nat option" where
  "free_process_slot k = List.find (\<lambda>i. \<not> p_occupied (processes k ! i)) [0..<KERNEL_PROCESS_CAPACITY]"

definition session_release :: "process_env \<Rightarrow> nat \<Rightarrow> kernel \<Rightarrow> kernel" where
  "session_release env slot k =
     (case tabos_console_release (ke_font env) (ke_presented env k) (Some (ctx_console (context_of slot k))) (k_console k) of
        (session, console) \<Rightarrow>
          (on_context slot (\<lambda>c. c\<lparr>ctx_console := the session\<rparr>) k)\<lparr>k_console := console\<rparr>)"

definition acquire_process_console :: "process_env \<Rightarrow> nat \<Rightarrow> kernel \<Rightarrow> bool \<times> kernel" where
  "acquire_process_console env slot k =
     (if app_capabilities (the (ctx_descriptor (context_of slot k))) AND TABOS_APP_CAPABILITY_CONSOLE = 0
      then (True, k)
      else
        (case tabos_console_acquire (ke_font env) (ke_now env k) (ke_presented env k)
            (Some (ctx_console (context_of slot k))) (k_console k) of
           (acquired, session, console) \<Rightarrow>
             (let k = (on_context slot (\<lambda>c. c\<lparr>ctx_console := the session\<rparr>) k)\<lparr>k_console := console\<rparr>
              in if \<not> acquired then (False, k)
                 else (True, on_context slot (\<lambda>c. c\<lparr>ctx_console_owned := True\<rparr>) k))))"

definition release_process_console :: "process_env \<Rightarrow> nat \<Rightarrow> kernel \<Rightarrow> kernel" where
  "release_process_console env slot k =
     (if ctx_console_owned (context_of slot k)
      then on_context slot (\<lambda>c. c\<lparr>ctx_console_owned := False\<rparr>) (session_release env slot k)
      else k)"

definition set_pointer_owner :: "nat \<Rightarrow> kernel \<Rightarrow> kernel" where
  "set_pointer_owner owner k = k\<lparr>k_pointer := pointer_service_set_foreground_owner owner (k_pointer k)\<rparr>"

definition destroy_data :: "process_env \<Rightarrow> bool \<Rightarrow> nat \<Rightarrow> kernel \<Rightarrow> kernel" where
  "destroy_data env elf data k = (if elf then loader_elf_application_destroy env data k else k)"

definition destroy_process :: "process_env \<Rightarrow> runner \<Rightarrow> nat \<Rightarrow> kernel \<Rightarrow> kernel option" where
  "destroy_process env enter slot k =
     (if \<not> p_occupied (processes k ! slot) then Some k
      else do {
        let status = ctx_exit_status (context_of slot k);
        k \<leftarrow> (case app_cleanup (the (ctx_descriptor (context_of slot k))) of
               None \<Rightarrow> Some k
             | Some code \<Rightarrow> map_option snd (enter (CleanupCall code status) slot k));
        let k = (if ctx_console_owned (context_of slot k) then session_release env slot k else k);
        let k = destroy_data env (p_elf_destroy (processes k ! slot)) (ctx_application_data (context_of slot k)) k;
        Some ((on_process slot (\<lambda>p. process_zero) k)\<lparr>last_exit_status := status, last_exit_valid := True\<rparr>)
      })"

definition finish_child_process :: "process_env \<Rightarrow> runner \<Rightarrow> nat \<Rightarrow> kernel \<Rightarrow> kernel option" where
  "finish_child_process env enter child k =
     do {
       let status = ctx_exit_status (context_of child k);
       let k = release_process_console env child (set_pointer_owner 0 k);
       k \<leftarrow> destroy_process env enter child k;
       let k = (if 0 < foreground_depth k then k\<lparr>foreground_depth := foreground_depth k - 1\<rparr> else k);
       let k = k\<lparr>foreground_process :=
         (if 0 < foreground_depth k then find_process (foreground_stack k ! (foreground_depth k - 1)) k else None)\<rparr>;
       (case foreground_process k of
          None \<Rightarrow> Some k
        | Some parent \<Rightarrow>
            (let k = on_process parent (\<lambda>p. p\<lparr>p_state := TABOS_PROCESS_RUNNING\<rparr>) k;
                 k = on_context parent (\<lambda>c. c\<lparr>ctx_child_status := status, ctx_child_status_valid := True\<rparr>) k;
                 k = set_pointer_owner (ctx_application_data (context_of parent k)) k;
                 (acquired, k) = acquire_process_console env parent k;
                 k = (if acquired then k
                   else
                     (let k = on_context parent (\<lambda>c. c\<lparr>ctx_exit_status := - 1\<rparr>) k
                      in if p_id (processes k ! parent) = 0 then panic_root_process env parent k
                         else on_context parent (\<lambda>c. c\<lparr>ctx_exit_requested := True\<rparr>) k))
             in Some (log_call (RuntimeNotify RUNTIME_EVENT_APPLICATION) k)))
     }"

section \<open>Start and stop\<close>

definition kernel_application_system_init :: "kernel \<Rightarrow> kernel" where
  "kernel_application_system_init k =
     k\<lparr>processes := replicate KERNEL_PROCESS_CAPACITY process_zero, foreground_process := None,
       foreground_depth := 0, next_process_id := 0, last_exit_valid := False, last_exit_status := 0,
       applications := []\<rparr>"

fun destroy_from :: "process_env \<Rightarrow> runner \<Rightarrow> nat \<Rightarrow> kernel \<Rightarrow> kernel option" where
  "destroy_from env enter 0 k = Some k"
| "destroy_from env enter (Suc slot) k =
     do {
       k \<leftarrow> (if p_occupied (processes k ! slot) then destroy_process env enter slot k else Some k);
       destroy_from env enter slot k
     }"

definition kernel_application_system_shutdown :: "process_env \<Rightarrow> runner \<Rightarrow> kernel \<Rightarrow> kernel option" where
  "kernel_application_system_shutdown env enter k =
     do {
       k \<leftarrow> destroy_from env enter KERNEL_PROCESS_CAPACITY (set_pointer_owner 0 k);
       Some (k\<lparr>foreground_process := None, foreground_depth := 0, applications := []\<rparr>)
     }"

definition kernel_application_system_update :: "process_env \<Rightarrow> runner \<Rightarrow> kernel \<Rightarrow> kernel option" where
  "kernel_application_system_update env enter k =
     (case foreground_process k of
        None \<Rightarrow> Some k
      | Some slot \<Rightarrow>
          do {
            k \<leftarrow> (case app_update (the (ctx_descriptor (context_of slot k))) of
                   None \<Rightarrow> Some k
                 | Some code \<Rightarrow>
                     if p_state (processes k ! slot) = TABOS_PROCESS_RUNNING \<and> \<not> ctx_exit_requested (context_of slot k)
                     then map_option snd (enter (UpdateCall code) slot k) else Some k);
            (if ctx_exit_requested (context_of slot k) then
               (case foreground_process k of
                  None \<Rightarrow> Some k
                | Some foreground \<Rightarrow>
                    if p_id (processes k ! foreground) = 0 then Some (panic_root_process env foreground k)
                    else finish_child_process env enter foreground k)
             else Some k)
          })"

definition foreground_running :: "kernel \<Rightarrow> bool" where
  "foreground_running k \<longleftrightarrow>
     (case foreground_process k of
        None \<Rightarrow> False
      | Some slot \<Rightarrow> p_state (processes k ! slot) = TABOS_PROCESS_RUNNING \<and> \<not> ctx_exit_requested (context_of slot k))"

section \<open>Launching\<close>

definition new_process :: "u32 \<Rightarrow> u32 \<Rightarrow> app_descriptor \<Rightarrow> nat \<Rightarrow> bool \<Rightarrow> kernel_process" where
  "new_process process parent descriptor data elf =
     process_zero\<lparr>p_occupied := True, p_id := process, p_parent_id := parent,
       p_context := context_zero\<lparr>ctx_descriptor := Some descriptor, ctx_process_id := process,
         ctx_application_data := data\<rparr>, p_elf_destroy := elf\<rparr>"

definition start_root :: "app_descriptor \<Rightarrow> nat \<Rightarrow> bool \<Rightarrow> nat \<Rightarrow> kernel \<Rightarrow> kernel" where
  "start_root descriptor data elf slot k =
     (on_process slot (\<lambda>p. new_process 0 TABOS_PROCESS_ID_INVALID descriptor data elf) k)
       \<lparr>next_process_id := 1, launched := launched k + 1\<rparr>"

definition launch_root_descriptor ::
    "process_env \<Rightarrow> runner \<Rightarrow> app_descriptor option \<Rightarrow> nat \<Rightarrow> bool \<Rightarrow> kernel \<Rightarrow> (app_result \<times> kernel) option" where
  "launch_root_descriptor env enter descriptor data elf k =
     (case descriptor of
        None \<Rightarrow> Some (APP_RESULT_INVALID, destroy_data env elf data k)
      | Some d \<Rightarrow>
          if foreground_process k \<noteq> None then Some (APP_RESULT_BUSY, destroy_data env elf data k)
          else
            (case free_process_slot k of
               None \<Rightarrow> Some (APP_RESULT_START_FAILED, destroy_data env elf data k)
             | Some slot \<Rightarrow>
                 (case acquire_process_console env slot (start_root d data elf slot k) of
                    (False, k) \<Rightarrow>
                      Some (APP_RESULT_START_FAILED, on_process slot (\<lambda>p. process_zero) (destroy_data env elf data k))
                  | (True, k) \<Rightarrow>
                      do {
                        let k = k\<lparr>foreground_process := Some slot, foreground_stack := (foreground_stack k)[0 := 0],
                                  foreground_depth := 1, last_exit_valid := False\<rparr>;
                        let k = set_pointer_owner (ctx_application_data (context_of slot k)) k;
                        (started, k) \<leftarrow> enter (EntryCall (the (app_entry d))) slot k;
                        (if \<not> started then
                           do {
                             k \<leftarrow> destroy_process env enter slot (on_context slot (\<lambda>c. c\<lparr>ctx_exit_status := - 1\<rparr>) k);
                             Some (APP_RESULT_START_FAILED,
                               set_pointer_owner 0 (k\<lparr>foreground_process := None, foreground_depth := 0\<rparr>))
                           }
                         else
                           (let k = (if ctx_exit_requested (context_of slot k) then panic_root_process env slot k else k)
                            in Some (APP_RESULT_OK, log_call (RuntimeNotify RUNTIME_EVENT_APPLICATION) k)))
                      })))"

definition tabos_app_launch ::
    "process_env \<Rightarrow> runner \<Rightarrow> string option \<Rightarrow> kernel \<Rightarrow> (app_result \<times> kernel) option" where
  "tabos_app_launch env enter name k =
     (if name = None \<or> name = Some [] then Some (APP_RESULT_INVALID, k)
      else if foreground_process k \<noteq> None then Some (APP_RESULT_BUSY, k)
      else
        (case tabos_app_find name (applications k) of
           None \<Rightarrow> Some (APP_RESULT_NOT_FOUND, k)
         | Some descriptor \<Rightarrow> launch_root_descriptor env enter (Some descriptor) 0 False k))"

definition tabos_app_launch_path_args ::
    "process_env \<Rightarrow> runner \<Rightarrow> string option \<Rightarrow> nat \<Rightarrow> string option list option \<Rightarrow> kernel \<Rightarrow> (app_result \<times> kernel) option" where
  "tabos_app_launch_path_args env enter path argc argv k =
     (if path = None \<or> path = Some [] then Some (APP_RESULT_INVALID, k)
      else
        (case loader_elf_application_create env path argc argv k of
           (application, k) \<Rightarrow>
             if application = 0 then Some (APP_RESULT_INVALID, k)
             else launch_root_descriptor env enter (loader_elf_application_descriptor application k) application True k))"

definition tabos_app_launch_path ::
    "process_env \<Rightarrow> runner \<Rightarrow> string option \<Rightarrow> kernel \<Rightarrow> (app_result \<times> kernel) option" where
  "tabos_app_launch_path env enter path k = tabos_app_launch_path_args env enter path 1 (Some [path]) k"

definition start_child :: "app_descriptor \<Rightarrow> nat \<Rightarrow> bool \<Rightarrow> nat \<Rightarrow> nat \<Rightarrow> kernel \<Rightarrow> kernel" where
  "start_child descriptor data elf parent child k =
     (on_process child (\<lambda>p. new_process (next_process_id k) (p_id (processes k ! parent)) descriptor data elf) k)
       \<lparr>next_process_id := next_process_id k + 1, launched := launched k + 1\<rparr>"

definition launch_child_descriptor ::
    "process_env \<Rightarrow> runner \<Rightarrow> nat option \<Rightarrow> app_descriptor option \<Rightarrow> nat \<Rightarrow> bool \<Rightarrow> kernel \<Rightarrow>
     (app_result \<times> kernel) option" where
  "launch_child_descriptor env enter caller descriptor data elf k =
     (case (caller, descriptor) of
        (Some parent, Some d) \<Rightarrow>
          if foreground_process k \<noteq> Some parent \<or> p_state (processes k ! parent) \<noteq> TABOS_PROCESS_RUNNING
          then Some (APP_RESULT_BUSY, destroy_data env elf data k)
          else
            (case free_process_slot k of
               None \<Rightarrow> Some (APP_RESULT_START_FAILED, destroy_data env elf data k)
             | Some child \<Rightarrow>
                 if KERNEL_PROCESS_CAPACITY \<le> foreground_depth k
                 then Some (APP_RESULT_START_FAILED, destroy_data env elf data k)
                 else
                   do {
                     let child_id = next_process_id k;
                     let k = release_process_console env parent (start_child d data elf parent child k);
                     let k = on_process parent (\<lambda>p. p\<lparr>p_state := TABOS_PROCESS_BLOCKED\<rparr>) k;
                     let k = k\<lparr>foreground_stack := (foreground_stack k)[foreground_depth k := child_id],
                               foreground_depth := foreground_depth k + 1, foreground_process := Some child\<rparr>;
                     let k = set_pointer_owner (ctx_application_data (context_of child k)) k;
                     (started, k) \<leftarrow> (case acquire_process_console env child k of
                         (False, k) \<Rightarrow> Some (False, k)
                       | (True, k) \<Rightarrow> enter (EntryCall (the (app_entry d))) child k);
                     (if \<not> started then
                        do {
                          k \<leftarrow> finish_child_process env enter child (on_context child (\<lambda>c. c\<lparr>ctx_exit_status := - 1\<rparr>) k);
                          Some (APP_RESULT_START_FAILED, k)
                        }
                      else if ctx_exit_requested (context_of child k) then
                        do { k \<leftarrow> finish_child_process env enter child k; Some (APP_RESULT_OK, k) }
                      else Some (APP_RESULT_OK, log_call (RuntimeNotify RUNTIME_EVENT_APPLICATION) k))
                   })
      | _ \<Rightarrow> Some (APP_RESULT_INVALID, destroy_data env elf data k))"

definition kernel_process_launch_child ::
    "process_env \<Rightarrow> runner \<Rightarrow> nat option \<Rightarrow> string option \<Rightarrow> kernel \<Rightarrow> (app_result \<times> kernel) option" where
  "kernel_process_launch_child env enter caller name k =
     (if caller = None \<or> name = None \<or> name = Some [] then Some (APP_RESULT_INVALID, k)
      else
        (case tabos_app_find name (applications k) of
           None \<Rightarrow> Some (APP_RESULT_NOT_FOUND, k)
         | Some descriptor \<Rightarrow> launch_child_descriptor env enter caller (Some descriptor) 0 False k))"

text \<open>What a child inherits when an ELF application is in the foreground: directory and terminal mode.\<close>

definition inherit_settings :: "nat \<Rightarrow> kernel \<Rightarrow> bool \<times> kernel" where
  "inherit_settings application k =
     (case foreground_process k of
        None \<Rightarrow> (True, k)
      | Some slot \<Rightarrow>
          if \<not> p_elf_destroy (processes k ! slot) then (True, k)
          else
            (let data = ctx_application_data (context_of slot k)
             in case loader_elf_application_set_working_directory application
                  (loader_elf_application_working_directory data k) k of
                  (False, k) \<Rightarrow> (False, k)
                | (True, k) \<Rightarrow>
                    loader_elf_application_set_tty_mode application (loader_elf_application_tty_mode data k) k))"

definition tabos_app_exec_args ::
    "process_env \<Rightarrow> runner \<Rightarrow> nat option \<Rightarrow> string option \<Rightarrow> nat \<Rightarrow> string option list option \<Rightarrow> kernel \<Rightarrow>
     (app_result \<times> kernel) option" where
  "tabos_app_exec_args env enter caller path argc argv k =
     (if caller = None \<or> path = None \<or> path = Some [] then Some (APP_RESULT_INVALID, k)
      else
        (case loader_elf_application_create env path argc argv k of
           (application, k) \<Rightarrow>
             if application = 0 then Some (APP_RESULT_INVALID, k)
             else
               (case inherit_settings application k of
                  (False, k) \<Rightarrow> Some (APP_RESULT_INVALID, loader_elf_application_destroy env application k)
                | (True, k) \<Rightarrow>
                    launch_child_descriptor env enter caller (loader_elf_application_descriptor application k)
                      application True k)))"

definition tabos_app_exec ::
    "process_env \<Rightarrow> runner \<Rightarrow> nat option \<Rightarrow> string option \<Rightarrow> kernel \<Rightarrow> (app_result \<times> kernel) option" where
  "tabos_app_exec env enter caller path k = tabos_app_exec_args env enter caller path 1 (Some [path]) k"

section \<open>Requests and queries\<close>

definition is_foreground :: "nat \<Rightarrow> kernel \<Rightarrow> bool" where
  "is_foreground slot k \<longleftrightarrow> foreground_process k = Some slot"

definition tabos_app_take_child_status :: "nat option \<Rightarrow> kernel \<Rightarrow> int option \<times> kernel" where
  "tabos_app_take_child_status parent k =
     (case parent of
        None \<Rightarrow> (None, k)
      | Some slot \<Rightarrow>
          if \<not> ctx_child_status_valid (context_of slot k) then (None, k)
          else (Some (ctx_child_status (context_of slot k)),
                on_context slot (\<lambda>c. c\<lparr>ctx_child_status_valid := False\<rparr>) k))"

definition tabos_app_is_running :: "kernel \<Rightarrow> bool" where
  "tabos_app_is_running k \<longleftrightarrow>
     (case foreground_process k of None \<Rightarrow> False
      | Some slot \<Rightarrow> p_state (processes k ! slot) = TABOS_PROCESS_RUNNING)"

definition tabos_app_active :: "kernel \<Rightarrow> app_descriptor option" where
  "tabos_app_active k =
     (case foreground_process k of None \<Rightarrow> None | Some slot \<Rightarrow> ctx_descriptor (context_of slot k))"

definition tabos_app_request_exit :: "nat \<Rightarrow> int \<Rightarrow> kernel \<Rightarrow> kernel" where
  "tabos_app_request_exit slot exit_status k =
     (if is_foreground slot k then
        (let k = (if ctx_termination_cause (context_of slot k) = TERMINATION_NONE
               then on_context slot (\<lambda>c. c\<lparr>ctx_termination_cause := TERMINATION_EXIT_REQUEST\<rparr>) k else k);
             k = on_context slot (\<lambda>c. c\<lparr>ctx_exit_requested := True, ctx_exit_status := exit_status\<rparr>) k
         in log_call (RuntimeNotify RUNTIME_EVENT_APPLICATION) k)
      else k)"

definition kernel_process_fail :: "nat \<Rightarrow> process_termination \<Rightarrow> int \<Rightarrow> kernel \<Rightarrow> kernel" where
  "kernel_process_fail slot cause exit_status k =
     (if \<not> is_foreground slot k \<or> cause = TERMINATION_NONE then k
      else
        log_call (RuntimeNotify RUNTIME_EVENT_APPLICATION)
          (on_context slot (\<lambda>c. c\<lparr>ctx_termination_cause := cause, ctx_exit_requested := True,
             ctx_exit_status := exit_status\<rparr>) k))"

definition kernel_process_force_terminate :: "u32 \<Rightarrow> int \<Rightarrow> kernel \<Rightarrow> bool \<times> kernel" where
  "kernel_process_force_terminate process exit_status k =
     (case find_process process k of
        None \<Rightarrow> (False, k)
      | Some slot \<Rightarrow>
          if \<not> is_foreground slot k then (False, k)
          else (True, kernel_process_fail slot TERMINATION_FORCED exit_status k))"

text \<open>The session pointer an application gets is that of its own context, \<^const>\<open>None\<close> for NULL.\<close>

definition tabos_app_console :: "nat \<Rightarrow> kernel \<Rightarrow> nat option" where
  "tabos_app_console slot k =
     (if is_foreground slot k \<and> ctx_console_owned (context_of slot k) then Some slot else None)"

definition tabos_app_process_id :: "nat \<Rightarrow> kernel \<Rightarrow> u32" where
  "tabos_app_process_id slot k =
     (if is_foreground slot k then ctx_process_id (context_of slot k) else TABOS_PROCESS_ID_INVALID)"

definition tabos_process_count :: "kernel \<Rightarrow> nat" where
  "tabos_process_count k = length (filter p_occupied (processes k))"

definition tabos_process_info :: "u32 \<Rightarrow> bool \<Rightarrow> kernel \<Rightarrow> (u32 \<times> u32 \<times> process_state \<times> string) option" where
  "tabos_process_info process info k =
     (if \<not> info then None
      else
        (case find_process process k of
           None \<Rightarrow> None
         | Some slot \<Rightarrow>
             (let p = processes k ! slot
              in Some (p_id p, p_parent_id p, p_state p, descriptor_name (ctx_descriptor (p_context p))))))"

definition tabos_process_system_panicked :: "kernel \<Rightarrow> bool" where
  "tabos_process_system_panicked k \<longleftrightarrow>
     (case foreground_process k of None \<Rightarrow> False
      | Some slot \<Rightarrow> p_state (processes k ! slot) = TABOS_PROCESS_PANICKED)"

definition tabos_process_panic_info :: "bool \<Rightarrow> kernel \<Rightarrow> (process_termination \<times> int) option" where
  "tabos_process_panic_info outputs k =
     (if \<not> tabos_process_system_panicked k \<or> \<not> outputs then None
      else
        (let c = context_of (the (foreground_process k)) k
         in Some (ctx_termination_cause c, ctx_exit_status c)))"

definition application_report_diagnostic_result :: "nat \<Rightarrow> int \<Rightarrow> kernel \<Rightarrow> kernel" where
  "application_report_diagnostic_result slot status k =
     (if is_foreground slot k then k\<lparr>last_exit_status := status, last_exit_valid := True\<rparr> else k)"

definition tabos_app_last_exit_status :: "bool \<Rightarrow> kernel \<Rightarrow> int option" where
  "tabos_app_last_exit_status output k =
     (if \<not> last_exit_valid k \<or> \<not> output then None else Some (last_exit_status k))"

definition loader_elf_application_runtime_runnable ::
    "process_env \<Rightarrow> app_descriptor option \<Rightarrow> nat \<Rightarrow> kernel \<Rightarrow> bool" where
  "loader_elf_application_runtime_runnable env descriptor data k \<longleftrightarrow>
     (case (descriptor, k_elf k data) of
        (Some d, Some e) \<Rightarrow>
          app_update d = Some ElfUpdate \<and> data \<noteq> 0 \<and> ea_execution e \<noteq> None \<and> ke_requires_slices env \<and>
          ke_riscv_deadline env (ea_execution e) k \<le> ke_now env k
      | _ \<Rightarrow> False)"

definition loader_elf_application_next_deadline ::
    "process_env \<Rightarrow> app_descriptor option \<Rightarrow> nat \<Rightarrow> kernel \<Rightarrow> u64" where
  "loader_elf_application_next_deadline env descriptor data k =
     (case (descriptor, k_elf k data) of
        (Some d, Some e) \<Rightarrow>
          if app_update d \<noteq> Some ElfUpdate \<or> data = 0 then DEADLINE_NONE
          else ke_riscv_deadline env (ea_execution e) k
      | _ \<Rightarrow> DEADLINE_NONE)"

definition kernel_application_system_runnable :: "process_env \<Rightarrow> kernel \<Rightarrow> bool" where
  "kernel_application_system_runnable env k \<longleftrightarrow>
     foreground_running k \<and>
     (let c = context_of (the (foreground_process k)) k
      in loader_elf_application_runtime_runnable env (ctx_descriptor c) (ctx_application_data c) k)"

definition kernel_application_system_next_deadline :: "process_env \<Rightarrow> kernel \<Rightarrow> u64" where
  "kernel_application_system_next_deadline env k =
     (if \<not> foreground_running k then DEADLINE_NONE
      else
        (let c = context_of (the (foreground_process k)) k
         in loader_elf_application_next_deadline env (ctx_descriptor c) (ctx_application_data c) k))"

section \<open>The call table of ELF programs\<close>

text \<open>Writing through the console pointer of an application: the session of the context it points to.\<close>

definition console_call :: "process_env \<Rightarrow> session_op \<Rightarrow> nat \<Rightarrow> kernel \<Rightarrow> (bool \<times> tabos_input_event option) \<times> kernel" where
  "console_call env operation slot k =
     (case session_step (ke_font env) (ke_now env k) (ke_presented env k) operation
         (Some (ctx_console (context_of slot k))) (k_console k) of
        (session, answer, console) \<Rightarrow> (answer, k\<lparr>k_console := console\<rparr>))"

definition elf_console_text :: "process_env \<Rightarrow> (u8 list option \<Rightarrow> session_op) \<Rightarrow> nat \<Rightarrow> string option \<Rightarrow> kernel \<Rightarrow> kernel" where
  "elf_console_text env operation a message k =
     (case (k_elf k a, message) of
        (Some e, Some message) \<Rightarrow>
          (case ea_console e of
             None \<Rightarrow> k
           | Some slot \<Rightarrow>
               if \<not> ke_data_pointer env (Some message) TABOS_ELF_ARG_BYTES_MAX then k
               else snd (console_call env (operation (Some (bytes_of message))) slot k))
      | _ \<Rightarrow> k)"

definition elf_console_write :: "process_env \<Rightarrow> nat \<Rightarrow> string option \<Rightarrow> kernel \<Rightarrow> kernel" where
  "elf_console_write env = elf_console_text env SWriteLine"

definition elf_console_write_raw :: "process_env \<Rightarrow> nat \<Rightarrow> string option \<Rightarrow> kernel \<Rightarrow> kernel" where
  "elf_console_write_raw env = elf_console_text env SWrite"

definition elf_console_clear :: "process_env \<Rightarrow> nat \<Rightarrow> kernel \<Rightarrow> int \<times> kernel" where
  "elf_console_clear env a k =
     (case k_elf k a of
        None \<Rightarrow> (- 1, k)
      | Some e \<Rightarrow>
          (case ea_console e of
             None \<Rightarrow> (- 1, k)
           | Some slot \<Rightarrow>
               (case console_call env SClear slot k of ((cleared, event), k) \<Rightarrow> (if cleared then 0 else - 1, k))))"

definition elf_request_exit :: "nat \<Rightarrow> int \<Rightarrow> kernel \<Rightarrow> kernel" where
  "elf_request_exit a exit_status k =
     (case k_elf k a of
        None \<Rightarrow> k
      | Some e \<Rightarrow>
          if ea_context e = None then k
          else log_call (RuntimeNotify RUNTIME_EVENT_APPLICATION)
            (on_elf a (\<lambda>e. e\<lparr>ea_requested_exit_status := exit_status, ea_exit_requested := True\<rparr>) k))"

definition elf_tty_get_mode :: "nat \<Rightarrow> int \<Rightarrow> kernel \<Rightarrow> int" where
  "elf_tty_get_mode a descriptor k =
     (case k_elf k a of
        None \<Rightarrow> - ENOTTY
      | Some e \<Rightarrow> if descriptor < 0 \<or> 2 < descriptor then - ENOTTY else sint (ea_tty_mode e))"

definition elf_tty_set_mode :: "nat \<Rightarrow> int \<Rightarrow> u32 \<Rightarrow> kernel \<Rightarrow> int \<times> kernel" where
  "elf_tty_set_mode a descriptor mode k =
     (if k_elf k a = None \<or> descriptor < 0 \<or> 2 < descriptor then (- ENOTTY, k)
      else if \<not> tty_mode_valid mode then (- EINVAL, k)
      else (0, on_elf a (\<lambda>e. e\<lparr>ea_tty_mode := mode\<rparr>) k))"

definition elf_exec ::
    "process_env \<Rightarrow> nat \<Rightarrow> string option \<Rightarrow> nat \<Rightarrow> string option list option \<Rightarrow> kernel \<Rightarrow> int \<times> kernel" where
  "elf_exec env a path argc argv k =
     (case (k_elf k a, path) of
        (Some e, Some path) \<Rightarrow>
          if path = [] then (- EINVAL, k)
          else if ea_exec_status_ready e
          then (ea_exec_status e, on_elf a (\<lambda>e. e\<lparr>ea_exec_status_ready := False, ea_exec_in_flight := False\<rparr>) k)
          else if ea_exec_in_flight e then (TABOS_ELF_EXEC_PENDING, k)
          else if er_graphics_active (ea_resources e) then (- EBUSY, k)
          else if ke_compute_wait env k < 0 \<and> ke_compute_wait env k \<noteq> - ENOTSUP then (ke_compute_wait env k, k)
          else if \<not> ke_data_pointer env (Some path) FS_PATH_MAX then (- EIO, k)
          else if FS_PATH_MAX \<le> length path then (- ENAMETOOLONG, k)
          else
            (case copy_arguments env argc argv TABOS_ELF_ARG_BYTES_MAX of
               None \<Rightarrow> (- EINVAL, k)
             | Some arguments \<Rightarrow>
                 (TABOS_ELF_EXEC_PENDING,
                  log_call (RuntimeNotify RUNTIME_EVENT_APPLICATION)
                    (on_elf a (\<lambda>e. e\<lparr>ea_exec_argv := arguments, ea_exec_path := path,
                       ea_exec_in_flight := True, ea_exec_requested := True\<rparr>) k)))
      | _ \<Rightarrow> (- EINVAL, k))"

fun guest_step :: "process_env \<Rightarrow> nat \<Rightarrow> guest_call \<Rightarrow> kernel \<Rightarrow> int \<times> kernel" where
  "guest_step env a (GuestExec path argc argv) k = elf_exec env a path argc argv k"
| "guest_step env a (GuestRequestExit exit_status) k = (0, elf_request_exit a exit_status k)"
| "guest_step env a (GuestWriteLine message) k = (0, elf_console_write env a message k)"
| "guest_step env a (GuestWrite message) k = (0, elf_console_write_raw env a message k)"
| "guest_step env a GuestClear k = elf_console_clear env a k"
| "guest_step env a (GuestTtyGet descriptor) k = (elf_tty_get_mode a descriptor k, k)"
| "guest_step env a (GuestTtySet descriptor mode) k = elf_tty_set_mode a descriptor mode k"
| "guest_step env a (GuestResources r) k = (0, on_resources a (\<lambda>_. r) k)"

primrec run_guest :: "process_env \<Rightarrow> nat \<Rightarrow> guest_program \<Rightarrow> kernel \<Rightarrow> (riscv_result \<times> int) \<times> kernel" where
  "run_guest env a (GuestFinish result status) k = ((result, status), k)"
| "run_guest env a (GuestCall call continue) k =
     (case guest_step env a call k of (answer, k) \<Rightarrow> run_guest env a (continue answer) k)"

section \<open>The callbacks of ELF applications\<close>

definition elf_entry :: "process_env \<Rightarrow> nat \<Rightarrow> kernel \<Rightarrow> bool \<times> kernel" where
  "elf_entry env slot k =
     (let a = ctx_application_data (context_of slot k)
      in case k_elf k a of
           None \<Rightarrow> (False, k)
         | Some e \<Rightarrow>
             (let k = on_elf a (\<lambda>e. e\<lparr>ea_context := Some slot, ea_console := tabos_app_console slot k\<rparr>) k
              in if tabos_app_console slot k = None then (False, k)
                 else
                   (case ke_load env (ea_path e) k of
                      LoadFailed name \<Rightarrow>
                        (let k = log_call (PlatformLog (snprintf 96 (''ELF load FAILED: '' @ name))) k;
                             k = snd (console_call env (SWrite (Some (bytes_of ''ELF load FAILED: ''))) slot k);
                             k = snd (console_call env (SWriteLine (Some (bytes_of name))) slot k)
                         in (False, k))
                    | Loaded loaded \<Rightarrow>
                        (let k = on_elf a (\<lambda>e. e\<lparr>ea_image := Some loaded\<rparr>) k;
                             k = on_resources a (\<lambda>r. r\<lparr>er_heap_limit := image_requested_heap loaded\<rparr>) k
                         in if \<not> ke_can_execute env then
                              (False, snd (console_call env
                                 (SWriteLine (Some (bytes_of ''ELF execution unsupported on this target''))) slot k))
                            else
                              (let k = log_call (PlatformLog (snprintf 640 (''ELF image loaded from '' @ ea_path e @ '': '' @
                                     decimal (int (image_memory_size loaded)) @ '' memory bytes''))) k;
                                   execution = ke_riscv_create env a k;
                                   k = on_elf a (\<lambda>e. e\<lparr>ea_execution := execution\<rparr>) k
                               in if execution = None then
                                    (False, snd (console_call env
                                       (SWriteLine (Some (bytes_of ''ELF execution FAILED''))) slot k))
                                  else (True, k))))))"

text \<open>The part of \<open>elf_update\<close> after the requests: one slice of the program.\<close>

definition elf_slice :: "process_env \<Rightarrow> nat \<Rightarrow> nat \<Rightarrow> kernel \<Rightarrow> kernel" where
  "elf_slice env slot a k =
     (case run_guest env a (ke_guest env a k) k of
        ((result, returned_status), k) \<Rightarrow>
          (case result of
             RISCV32_YIELDED \<Rightarrow> k
           | RISCV32_FAULT \<Rightarrow>
               (let k = (case map_option ea_console (k_elf k a) of
                      Some (Some session) \<Rightarrow>
                        snd (console_call env (SWriteLine (Some (bytes_of ''ELF execution FAILED''))) session k)
                    | _ \<Rightarrow> k)
                in kernel_process_fail slot TERMINATION_FAULT 5 k)
           | RISCV32_RETURNED \<Rightarrow>
               (let k = log_call (PlatformLog (snprintf 56 (''ELF entry returned status '' @ decimal returned_status))) k
                in if \<not> (case k_elf k a of None \<Rightarrow> False | Some e \<Rightarrow> ea_exit_requested e)
                   then kernel_process_fail slot TERMINATION_RETURN returned_status k else k)))"

definition store_exec_status :: "nat \<Rightarrow> int \<Rightarrow> kernel \<Rightarrow> kernel" where
  "store_exec_status a status = on_elf a (\<lambda>e. e\<lparr>ea_exec_status := status, ea_exec_status_ready := True\<rparr>)"

definition elf_collect_status :: "nat \<Rightarrow> nat \<Rightarrow> kernel \<Rightarrow> kernel" where
  "elf_collect_status slot a k =
     (case tabos_app_take_child_status (Some slot) k of
        (None, k) \<Rightarrow> k
      | (Some status, k) \<Rightarrow> store_exec_status a status k)"

text \<open>The request for a child: \<open>True\<close> with the state when the child has started.\<close>

definition elf_serve_exec :: "process_env \<Rightarrow> runner \<Rightarrow> nat \<Rightarrow> nat \<Rightarrow> kernel \<Rightarrow> (bool \<times> kernel) option" where
  "elf_serve_exec env enter slot a k =
     (case k_elf k a of
        None \<Rightarrow> Some (False, k)
      | Some e \<Rightarrow>
          if \<not> ea_exec_requested e then Some (False, k)
          else
            do {
              (result, k) \<leftarrow> tabos_app_exec_args env enter (Some slot) (Some (ea_exec_path e)) (length (ea_exec_argv e))
                (Some (map Some (ea_exec_argv e))) (on_elf a (\<lambda>e. e\<lparr>ea_exec_requested := False\<rparr>) k);
              (if result = APP_RESULT_OK then Some (True, k)
               else
                 Some (False, store_exec_status a (- (100 + app_result_number result))
                   (snd (tabos_app_take_child_status (Some slot) k))))
            })"

definition elf_update :: "process_env \<Rightarrow> runner \<Rightarrow> nat \<Rightarrow> kernel \<Rightarrow> kernel option" where
  "elf_update env enter slot k =
     (let a = ctx_application_data (context_of slot k)
      in case k_elf k a of
           None \<Rightarrow> Some (kernel_process_fail slot TERMINATION_FAULT 5 k)
         | Some e \<Rightarrow>
             if ea_execution e = None then Some (kernel_process_fail slot TERMINATION_FAULT 5 k)
             else
               do {
                 (launched, k) \<leftarrow> elf_serve_exec env enter slot a (elf_collect_status slot a k);
                 (if launched then Some k
                  else
                    (case k_elf k a of
                       None \<Rightarrow> Some k
                     | Some e \<Rightarrow>
                         if ea_exit_requested e
                         then Some (tabos_app_request_exit slot (ea_requested_exit_status e)
                                (on_elf a (\<lambda>e. e\<lparr>ea_exit_requested := False\<rparr>) k))
                         else Some (elf_slice env slot a k)))
               })"

definition elf_cleanup :: "process_env \<Rightarrow> nat \<Rightarrow> kernel \<Rightarrow> kernel" where
  "elf_cleanup env slot k = elf_release_resources env (ctx_application_data (context_of slot k)) k"

section \<open>Running application code\<close>

text \<open>
  A native application may use its console session as it likes, but the session it is given is
  constant: it cannot acquire or release it.
\<close>

fun app_console_op :: "process_env \<Rightarrow> nat \<Rightarrow> session_op \<Rightarrow> kernel \<Rightarrow> app_answer \<times> kernel" where
  "app_console_op env slot operation k =
     (if operation = SAcquire \<or> operation = SRelease \<or> tabos_app_console slot k = None then (ConsoleAnswer None, k)
      else (case console_call env operation slot k of (answer, k) \<Rightarrow> (ConsoleAnswer (Some answer), k)))"

fun app_step :: "process_env \<Rightarrow> runner \<Rightarrow> app_call \<Rightarrow> kernel \<Rightarrow> (app_answer \<times> kernel) option" where
  "app_step env enter (CallLaunch name) k = map_option (apfst Result) (tabos_app_launch env enter name k)"
| "app_step env enter (CallLaunchPath path argc argv) k =
     map_option (apfst Result) (tabos_app_launch_path_args env enter path argc argv k)"
| "app_step env enter (CallExec caller path argc argv) k =
     map_option (apfst Result) (tabos_app_exec_args env enter caller path argc argv k)"
| "app_step env enter (CallLaunchChild caller name) k =
     map_option (apfst Result) (kernel_process_launch_child env enter caller name k)"
| "app_step env enter (CallTakeChildStatus caller) k = Some (apfst Status (tabos_app_take_child_status caller k))"
| "app_step env enter (CallRequestExit slot status) k = Some (Nothing, tabos_app_request_exit slot status k)"
| "app_step env enter (CallFail slot cause status) k = Some (Nothing, kernel_process_fail slot cause status k)"
| "app_step env enter (CallForceTerminate process status) k =
     Some (apfst Answer (kernel_process_force_terminate process status k))"
| "app_step env enter (CallReportDiagnostic slot status) k =
     Some (Nothing, application_report_diagnostic_result slot status k)"
| "app_step env enter (CallConsole slot operation) k = Some (app_console_op env slot operation k)"
| "app_step env enter (CallRegister descriptor) k =
     (case application_registry_register descriptor (applications k) of
        (registered, table) \<Rightarrow> Some (Answer registered, k\<lparr>applications := table\<rparr>))"
| "app_step env enter (CallProcessId slot) k = Some (Number (uint (tabos_app_process_id slot k)), k)"
| "app_step env enter CallProcessCount k = Some (Number (int (tabos_process_count k)), k)"
| "app_step env enter (CallPointerOpen owner device) k =
     (case pointer_service_open owner device (k_pointer k) of (r, p) \<Rightarrow> Some (Number r, k\<lparr>k_pointer := p\<rparr>))"
| "app_step env enter (CallPointerRead owner handle) k =
     (case pointer_service_read owner handle True (k_pointer k) of
        (r, event, p) \<Rightarrow> Some (PointerAnswer r event, k\<lparr>k_pointer := p\<rparr>))"
| "app_step env enter (CallPointerClose owner handle) k =
     (case pointer_service_close owner handle (k_pointer k) of (r, p) \<Rightarrow> Some (Number r, k\<lparr>k_pointer := p\<rparr>))"

primrec run_program :: "process_env \<Rightarrow> runner \<Rightarrow> app_program \<Rightarrow> kernel \<Rightarrow> (bool \<times> kernel) option" where
  "run_program env enter (Finish result) k = Some (result, k)"
| "run_program env enter (Call call continue) k =
     (case app_step env enter call k of
        None \<Rightarrow> None
      | Some (answer, k) \<Rightarrow> run_program env enter (continue answer) k)"

text \<open>
  Entering a callback of an application: those of ELF applications are functions of the loader, the
  others are the code of the application. \<open>enter\<close> runs the callbacks nested in it.
\<close>

fun run_callback :: "process_env \<Rightarrow> runner \<Rightarrow> runner" where
  "run_callback env enter (EntryCall ElfEntry) slot k = Some (elf_entry env slot k)"
| "run_callback env enter (UpdateCall ElfUpdate) slot k = map_option (Pair True) (elf_update env enter slot k)"
| "run_callback env enter (CleanupCall ElfCleanup status) slot k = Some (True, elf_cleanup env slot k)"
| "run_callback env enter callback slot k = run_program env enter (ke_app env callback slot k) k"

primrec callback_at :: "process_env \<Rightarrow> nat \<Rightarrow> runner" where
  "callback_at env 0 = (\<lambda>callback slot k. None)"
| "callback_at env (Suc depth) =
     (\<lambda>callback slot k. run_callback env (callback_at env depth) callback slot (log_call (Callback callback slot) k))"

text \<open>
  At most 16 processes exist, and a nested callback belongs to a process of its own, so 17 levels are
  enough.
\<close>

definition CALLBACK_DEPTH :: nat where "CALLBACK_DEPTH = 17"

definition kernel_runner :: "process_env \<Rightarrow> runner" where
  "kernel_runner env = callback_at env CALLBACK_DEPTH"

section \<open>The runtime and the system around the processes\<close>

text \<open>
  The runtime updates the foreground application and launches the first one; other parts of the
  system force a process to end, deliver input, move the pointer and redraw the console between two
  updates; an ELF program may also run between updates (on the board it has a thread of its own).
\<close>

datatype kernel_op =
    OpUpdate
  | OpLaunch "string option"
  | OpLaunchPath "string option"
  | OpRegister "app_descriptor option"
  | OpForceTerminate u32 int
  | OpGuest nat guest_program
  | OpConsole console_op
  | OpTouch "tabos_pointer_event option"
  | OpPointerRemoved
  | OpShutdown

fun kernel_step :: "process_env \<Rightarrow> kernel_op \<Rightarrow> kernel \<Rightarrow> kernel option" where
  "kernel_step env OpUpdate k = kernel_application_system_update env (kernel_runner env) k"
| "kernel_step env (OpLaunch name) k = map_option snd (tabos_app_launch env (kernel_runner env) name k)"
| "kernel_step env (OpLaunchPath path) k = map_option snd (tabos_app_launch_path env (kernel_runner env) path k)"
| "kernel_step env (OpRegister descriptor) k =
     Some (k\<lparr>applications := snd (application_registry_register descriptor (applications k))\<rparr>)"
| "kernel_step env (OpForceTerminate process status) k =
     Some (snd (kernel_process_force_terminate process status k))"
| "kernel_step env (OpGuest a program) k = Some (snd (run_guest env a program k))"
| "kernel_step env (OpConsole operation) k =
     Some (k\<lparr>k_console := snd (console_step (ke_font env) (ke_now env k, ke_presented env k, operation)
       (\<lambda>_. None, k_console k))\<rparr>)"
| "kernel_step env (OpTouch event) k = Some (k\<lparr>k_pointer := pointer_service_submit event (k_pointer k)\<rparr>)"
| "kernel_step env OpPointerRemoved k = Some (k\<lparr>k_pointer := pointer_service_remove_device (k_pointer k)\<rparr>)"
| "kernel_step env OpShutdown k = kernel_application_system_shutdown env (kernel_runner env) k"

primrec kernel_run :: "process_env \<Rightarrow> kernel_op list \<Rightarrow> kernel \<Rightarrow> kernel option" where
  "kernel_run env [] k = Some k"
| "kernel_run env (operation # rest) k =
     (case kernel_step env operation k of None \<Rightarrow> None | Some k \<Rightarrow> kernel_run env rest k)"

end
