(* ===== verification/ProcessFrame.thy ===== *)
theory ProcessFrame
  imports Process
begin

text \<open>
  What the operations of the process service leave alone. \<open>core\<close> is the process table with the
  foreground stack, \<open>services\<close> what the service relies on in the ELF objects, the console and the
  pointer service. Operations on the services keep the core; requests and the quiet part of application
  code keep the \<open>frame\<close>, which is all of this up to the exit and child status of the processes.
\<close>

section \<open>Projections\<close>

definition core :: "kernel \<Rightarrow> kernel_process list \<times> u32 list \<times> nat \<times> u32 \<times> nat option \<times> nat" where
  "core k = (processes k, foreground_stack k, foreground_depth k, next_process_id k, foreground_process k, launched k)"

definition services :: "kernel \<Rightarrow> nat set \<times> u32 \<times> bool" where
  "services k = (dom (k_elf k), c_foreground_token (k_console k), pointer_initialized (k_pointer k))"

definition pointer_owner :: "kernel \<Rightarrow> nat" where
  "pointer_owner k = foreground_owner (k_pointer k)"

lemma core_fields:
  assumes "core k' = core k"
  shows "processes k' = processes k" "foreground_stack k' = foreground_stack k"
    "foreground_depth k' = foreground_depth k" "next_process_id k' = next_process_id k"
    "foreground_process k' = foreground_process k" "launched k' = launched k"
  using assms by (simp_all add: core_def)

lemma core_log [simp]: "core (log_call c k) = core k"
  and services_log [simp]: "services (log_call c k) = services k"
  and owner_log [simp]: "pointer_owner (log_call c k) = pointer_owner k"
  by (simp_all add: core_def services_def pointer_owner_def log_call_def)

lemma core_elf [simp]: "core (on_elf a f k) = core k"
  and services_elf [simp]: "services (on_elf a f k) = services k"
  and owner_elf [simp]: "pointer_owner (on_elf a f k) = pointer_owner k"
  by (auto simp: core_def services_def pointer_owner_def on_elf_def dom_def)

lemma core_resources [simp]: "core (on_resources a f k) = core k"
  and services_resources [simp]: "services (on_resources a f k) = services k"
  and owner_resources [simp]: "pointer_owner (on_resources a f k) = pointer_owner k"
  by (simp_all add: on_resources_def)

lemma log_fields [simp]:
  "processes (log_call c k) = processes k" "foreground_process (log_call c k) = foreground_process k"
  "foreground_stack (log_call c k) = foreground_stack k" "foreground_depth (log_call c k) = foreground_depth k"
  "launched (log_call c k) = launched k" "k_elf (log_call c k) = k_elf k" "k_console (log_call c k) = k_console k"
  "k_pointer (log_call c k) = k_pointer k" "next_process_id (log_call c k) = next_process_id k"
  by (simp_all add: log_call_def)

lemma on_process_fields [simp]:
  "processes (on_process slot f k) = (processes k)[slot := f (processes k ! slot)]"
  "foreground_process (on_process slot f k) = foreground_process k"
  "foreground_stack (on_process slot f k) = foreground_stack k"
  "foreground_depth (on_process slot f k) = foreground_depth k"
  "launched (on_process slot f k) = launched k" "k_elf (on_process slot f k) = k_elf k"
  "k_console (on_process slot f k) = k_console k" "k_pointer (on_process slot f k) = k_pointer k"
  "next_process_id (on_process slot f k) = next_process_id k" "k_log (on_process slot f k) = k_log k"
  by (simp_all add: on_process_def)

lemma on_context_fields [simp]:
  "processes (on_context slot g k) = (processes k)[slot := (processes k ! slot)\<lparr>p_context := g (p_context (processes k ! slot))\<rparr>]"
  "foreground_process (on_context slot g k) = foreground_process k"
  "foreground_stack (on_context slot g k) = foreground_stack k"
  "foreground_depth (on_context slot g k) = foreground_depth k"
  "launched (on_context slot g k) = launched k" "k_elf (on_context slot g k) = k_elf k"
  "k_console (on_context slot g k) = k_console k" "k_pointer (on_context slot g k) = k_pointer k"
  "next_process_id (on_context slot g k) = next_process_id k" "k_log (on_context slot g k) = k_log k"
  by (simp_all add: on_context_def)

section \<open>The services\<close>

text \<open>Folds of steps that keep the core and the services.\<close>

lemma fold_keeps:
  assumes "\<And>i k. core (f i k) = core k" and "\<And>i k. services (f i k) = services k"
    and "\<And>i k. pointer_owner (f i k) = pointer_owner k"
  shows "core (fold f is k) = core k" and "services (fold f is k) = services k"
    and "pointer_owner (fold f is k) = pointer_owner k"
  by (induction "is" arbitrary: k) (simp_all add: assms)

lemma interrupt_keeps [simp]:
  "core (interrupt_socket a i k) = core k" "services (interrupt_socket a i k) = services k"
  "pointer_owner (interrupt_socket a i k) = pointer_owner k"
  by (simp_all add: interrupt_socket_def Let_def)

lemma dispose_keeps [simp]:
  "core (dispose_socket a i k) = core k" "services (dispose_socket a i k) = services k"
  "pointer_owner (dispose_socket a i k) = pointer_owner k"
  by (simp_all add: dispose_socket_def Let_def)

lemma close_tls_keeps [simp]:
  "core (close_tls a i k) = core k" "services (close_tls a i k) = services k"
  "pointer_owner (close_tls a i k) = pointer_owner k"
  by (simp_all add: close_tls_def Let_def)

lemma close_descriptor_keeps [simp]:
  "core (close_descriptor a i k) = core k" "services (close_descriptor a i k) = services k"
  "pointer_owner (close_descriptor a i k) = pointer_owner k"
  by (simp_all add: close_descriptor_def Let_def)

lemmas fold_keeps_steps [simp] =
  fold_keeps [OF interrupt_keeps] fold_keeps [OF dispose_keeps] fold_keeps [OF close_tls_keeps]
  fold_keeps [OF close_descriptor_keeps]

lemma close_connections_keeps [simp]:
  "core (close_connections env a k) = core k" "services (close_connections env a k) = services k"
  "pointer_owner (close_connections env a k) = pointer_owner k"
  by (simp_all add: close_connections_def Let_def)

lemma close_owner_pointer:
  "pointer_initialized (pointer_service_close_owner a p) = pointer_initialized p"
  "foreground_owner (pointer_service_close_owner a p) =
     (if pointer_initialized p \<and> a \<noteq> 0 \<and> foreground_owner p = a then 0 else foreground_owner p)"
  by (simp_all add: pointer_service_close_owner_def Let_def)

lemma close_streams_keeps [simp]:
  "core (close_streams a k) = core k" "services (close_streams a k) = services k"
  "pointer_owner (close_streams a k) = (if pointer_initialized (k_pointer k) \<and> a \<noteq> 0 \<and> pointer_owner k = a then 0 else pointer_owner k)"
  by (simp_all add: close_streams_def Let_def)
    (simp_all add: core_def services_def pointer_owner_def log_call_def close_owner_pointer)

lemma graphics_token: "c_foreground_token (console_set_graphics_active font now presented active st) = c_foreground_token st"
  using system_step_token(2) [of "SetGraphics active" font now presented "\<lambda>_. None" st] by simp

lemma end_graphics_keeps [simp]:
  "core (end_graphics env a k) = core k" "services (end_graphics env a k) = services k"
  "pointer_owner (end_graphics env a k) = pointer_owner k"
proof -
  define m where "m = on_resources a (\<lambda>r. r\<lparr>er_graphics_active := False, er_overlay_flags := GRAPHICS_OVERLAY_ALL\<rparr>) k"
  have "core m = core k" "services m = services k" "pointer_owner m = pointer_owner k" by (simp_all add: m_def)
  then show "core (end_graphics env a k) = core k" "services (end_graphics env a k) = services k"
    "pointer_owner (end_graphics env a k) = pointer_owner k"
    unfolding end_graphics_def Let_def m_def [symmetric]
    by (simp_all add: core_def services_def pointer_owner_def log_call_def graphics_token)
qed

text \<open>
  Releasing an ELF application keeps the processes; the pointer service may lose its foreground owner.
\<close>

lemma release_resources_keeps [simp]:
  "core (elf_release_resources env a k) = core k" "services (elf_release_resources env a k) = services k"
  by (simp_all add: elf_release_resources_def Let_def split: option.split)

lemma release_resources_owner:
  "pointer_owner (elf_release_resources env a k) = pointer_owner k \<or>
     pointer_owner (elf_release_resources env a k) = 0"
  by (simp add: elf_release_resources_def Let_def split: option.split)

lemma destroy_application_keeps:
  "core (loader_elf_application_destroy env a k) = core k"
  "services (loader_elf_application_destroy env a k) =
     (dom (k_elf k) - {a}, c_foreground_token (k_console k), pointer_initialized (k_pointer k))"
proof -
  have "services (elf_release_resources env a k) = services k" by simp
  then show "services (loader_elf_application_destroy env a k) =
      (dom (k_elf k) - {a}, c_foreground_token (k_console k), pointer_initialized (k_pointer k))"
    by (simp add: loader_elf_application_destroy_def services_def elf_free_def)
  have "core (elf_release_resources env a k) = core k" by simp
  then show "core (loader_elf_application_destroy env a k) = core k"
    by (simp add: loader_elf_application_destroy_def core_def elf_free_def)
qed

section \<open>Requests and guests\<close>

lemma console_call_keeps [simp]:
  assumes "operation \<noteq> SAcquire" "operation \<noteq> SRelease"
  shows "core (snd (console_call env operation slot k)) = core k"
    and "services (snd (console_call env operation slot k)) = services k"
    and "pointer_owner (snd (console_call env operation slot k)) = pointer_owner k"
    and "k_elf (snd (console_call env operation slot k)) = k_elf k"
proof -
  obtain session answer console where step: "session_step (ke_font env) (ke_now env k) (ke_presented env k) operation
      (Some (ctx_console (context_of slot k))) (k_console k) = (session, answer, console)"
    by (metis prod_cases3)
  have "c_foreground_token console = c_foreground_token (k_console k)"
    by (rule session_step_token(2) [OF step assms])
  then show "core (snd (console_call env operation slot k)) = core k"
    and "services (snd (console_call env operation slot k)) = services k"
    and "pointer_owner (snd (console_call env operation slot k)) = pointer_owner k"
    and "k_elf (snd (console_call env operation slot k)) = k_elf k"
    by (simp_all add: console_call_def step core_def services_def pointer_owner_def)
qed

lemma guest_step_keeps [simp]:
  "core (snd (guest_step env a call k)) = core k"
  "services (snd (guest_step env a call k)) = services k"
  "pointer_owner (snd (guest_step env a call k)) = pointer_owner k"
proof -
  have cleared: "core (snd (elf_console_clear env a k)) = core k \<and> services (snd (elf_console_clear env a k)) = services k \<and>
      pointer_owner (snd (elf_console_clear env a k)) = pointer_owner k"
    by (simp add: elf_console_clear_def case_prod_beta split: option.split)
  show "core (snd (guest_step env a call k)) = core k"
    "services (snd (guest_step env a call k)) = services k"
    "pointer_owner (snd (guest_step env a call k)) = pointer_owner k"
    by (cases call; simp add: elf_exec_def elf_request_exit_def elf_console_write_def elf_console_write_raw_def
        elf_console_text_def elf_tty_set_mode_def cleared split: option.split)+
qed

lemma run_guest_keeps [simp]:
  "core (snd (run_guest env a program k)) = core k"
  "services (snd (run_guest env a program k)) = services k"
  "pointer_owner (snd (run_guest env a program k)) = pointer_owner k"
proof -
  have "core (snd (run_guest env a program k)) = core k \<and> services (snd (run_guest env a program k)) = services k \<and>
      pointer_owner (snd (run_guest env a program k)) = pointer_owner k"
  proof (induction program arbitrary: k)
    case (GuestCall call continue)
    then show ?case by (simp add: case_prod_beta)
  qed simp
  then show "core (snd (run_guest env a program k)) = core k"
    "services (snd (run_guest env a program k)) = services k"
    "pointer_owner (snd (run_guest env a program k)) = pointer_owner k"
    by auto
qed

section \<open>Frames\<close>

text \<open>A process up to its exit request, its causes and the status of its child.\<close>

definition process_frame :: "kernel_process \<Rightarrow>
    (bool \<times> u32 \<times> u32 \<times> process_state \<times> bool) \<times> (app_descriptor option \<times> u32 \<times> bool \<times> nat)" where
  "process_frame p =
     ((p_occupied p, p_id p, p_parent_id p, p_state p, p_elf_destroy p),
      (ctx_descriptor (p_context p), ctx_console (p_context p), ctx_console_owned (p_context p),
       ctx_application_data (p_context p)))"

definition frame :: "kernel \<Rightarrow> _" where
  "frame k = (map process_frame (processes k), foreground_stack k, foreground_depth k, next_process_id k,
     foreground_process k, launched k, services k, pointer_owner k)"

definition exit_wanted :: "nat \<Rightarrow> kernel \<Rightarrow> bool" where
  "exit_wanted slot k = ctx_exit_requested (context_of slot k)"

lemma process_frame_fields:
  assumes "process_frame p = process_frame q"
  shows "p_occupied p = p_occupied q" "p_id p = p_id q" "p_parent_id p = p_parent_id q" "p_state p = p_state q"
    "p_elf_destroy p = p_elf_destroy q" "ctx_descriptor (p_context p) = ctx_descriptor (p_context q)"
    "ctx_console (p_context p) = ctx_console (p_context q)"
    "ctx_console_owned (p_context p) = ctx_console_owned (p_context q)"
    "ctx_application_data (p_context p) = ctx_application_data (p_context q)"
  using assms by (simp_all add: process_frame_def)

lemma frame_fields:
  assumes "frame k' = frame k"
  shows "length (processes k') = length (processes k)" "foreground_stack k' = foreground_stack k"
    "foreground_depth k' = foreground_depth k" "next_process_id k' = next_process_id k"
    "foreground_process k' = foreground_process k" "launched k' = launched k" "services k' = services k"
    "pointer_owner k' = pointer_owner k"
    "i < length (processes k) \<Longrightarrow> process_frame (processes k' ! i) = process_frame (processes k ! i)"
proof -
  have maps: "map process_frame (processes k') = map process_frame (processes k)"
    using assms by (simp add: frame_def)
  then show "length (processes k') = length (processes k)" by (rule map_eq_imp_length_eq)
  then show "i < length (processes k) \<Longrightarrow> process_frame (processes k' ! i) = process_frame (processes k ! i)"
    using maps by (metis nth_map)
qed (use assms in \<open>simp_all add: frame_def\<close>)

lemma frame_core: "core k' = core k \<Longrightarrow> services k' = services k \<Longrightarrow> pointer_owner k' = pointer_owner k \<Longrightarrow> frame k' = frame k"
  by (simp add: frame_def core_def)

lemma wanted_core: "core k' = core k \<Longrightarrow> exit_wanted slot k' = exit_wanted slot k"
  by (simp add: exit_wanted_def context_of_def core_def)

lemma frame_context:
  assumes "\<And>c. ctx_descriptor (g c) = ctx_descriptor c" "\<And>c. ctx_console (g c) = ctx_console c"
    "\<And>c. ctx_console_owned (g c) = ctx_console_owned c" "\<And>c. ctx_application_data (g c) = ctx_application_data c"
  shows "frame (on_context slot g k) = frame k"
proof -
  have same: "process_frame (p\<lparr>p_context := g (p_context p)\<rparr>) = process_frame p" for p
    by (simp add: process_frame_def assms)
  have "map process_frame ((processes k)[slot := (processes k ! slot)\<lparr>p_context := g (p_context (processes k ! slot))\<rparr>])
      = map process_frame (processes k)"
    by (intro nth_equalityI) (simp_all add: nth_update_field [where f = process_frame, OF same])
  then show ?thesis by (simp add: frame_def services_def pointer_owner_def)
qed

lemma frame_log [simp]: "frame (log_call c k) = frame k"
  by (rule frame_core) simp_all

lemma wanted_log [simp]: "exit_wanted slot (log_call c k) = exit_wanted slot k"
  by (simp add: exit_wanted_def context_of_def)

lemma wanted_context:
  "exit_wanted s (on_context slot g k) =
     (if s = slot \<and> slot < length (processes k) then ctx_exit_requested (g (context_of slot k)) else exit_wanted s k)"
  by (auto simp: exit_wanted_def context_of_def nth_list_update list_update_beyond)

lemma request_exit_frame [simp]: "frame (tabos_app_request_exit slot status k) = frame k"
  by (simp add: tabos_app_request_exit_def Let_def frame_context)

lemma request_exit_wanted:
  "\<not> is_foreground s k \<Longrightarrow> exit_wanted s (tabos_app_request_exit slot status k) = exit_wanted s k"
  by (auto simp: tabos_app_request_exit_def Let_def wanted_context)

lemma fail_frame [simp]: "frame (kernel_process_fail slot cause status k) = frame k"
  by (simp add: kernel_process_fail_def frame_context)

lemma fail_wanted: "\<not> is_foreground s k \<Longrightarrow> exit_wanted s (kernel_process_fail slot cause status k) = exit_wanted s k"
  by (auto simp: kernel_process_fail_def wanted_context)

lemma force_frame [simp]: "frame (snd (kernel_process_force_terminate process status k)) = frame k"
  by (simp add: kernel_process_force_terminate_def split: option.split)

lemma force_wanted:
  "\<not> is_foreground s k \<Longrightarrow> exit_wanted s (snd (kernel_process_force_terminate process status k)) = exit_wanted s k"
  by (simp add: kernel_process_force_terminate_def fail_wanted split: option.split)

lemma take_status_frame [simp]:
  "frame (snd (tabos_app_take_child_status caller k)) = frame k"
  "exit_wanted s (snd (tabos_app_take_child_status caller k)) = exit_wanted s k"
  by (simp_all add: tabos_app_take_child_status_def frame_context wanted_context split: option.split)
    (simp add: exit_wanted_def)

lemma pointer_calls:
  "pointer_initialized (snd (pointer_service_open owner device p)) = pointer_initialized p"
  "foreground_owner (snd (pointer_service_open owner device p)) = foreground_owner p"
  "pointer_initialized (snd (snd (pointer_service_read owner handle event p))) = pointer_initialized p"
  "foreground_owner (snd (snd (pointer_service_read owner handle event p))) = foreground_owner p"
  "pointer_initialized (snd (pointer_service_close owner handle p)) = pointer_initialized p"
  "foreground_owner (snd (pointer_service_close owner handle p)) = foreground_owner p"
  by (auto simp: pointer_service_open_def pointer_service_read_def pointer_service_close_def Let_def split: option.split)

section \<open>Quiet programs\<close>

text \<open>
  A quiet program starts no process. It keeps the frame, and only the process in the foreground can be
  made to want its exit.
\<close>

fun launches :: "app_call \<Rightarrow> bool" where
  "launches (CallLaunch name) = True"
| "launches (CallLaunchPath path argc argv) = True"
| "launches (CallExec caller path argc argv) = True"
| "launches (CallLaunchChild caller name) = True"
| "launches _ = False"

fun requests_exit :: "app_call \<Rightarrow> bool" where
  "requests_exit (CallRequestExit slot status) = True"
| "requests_exit (CallFail slot cause status) = True"
| "requests_exit (CallForceTerminate process status) = True"
| "requests_exit _ = False"

primrec quiet :: "app_program \<Rightarrow> bool" where
  "quiet (Finish result) = True"
| "quiet (Call call continue) = (\<not> launches call \<and> (\<forall>answer. quiet (continue answer)))"

lemma app_console_keeps:
  "frame (snd (app_console_op env slot operation k)) = frame k"
  "exit_wanted s (snd (app_console_op env slot operation k)) = exit_wanted s k"
  by (auto simp: case_prod_beta intro!: frame_core wanted_core)

lemma quiet_step:
  assumes "app_step env enter call k = Some (answer, k')" and "\<not> launches call"
  shows "frame k' = frame k"
    and "\<not> is_foreground s k \<or> \<not> requests_exit call \<Longrightarrow> exit_wanted s k' = exit_wanted s k"
proof -
  have "frame k' = frame k \<and> (\<not> is_foreground s k \<or> \<not> requests_exit call \<longrightarrow> exit_wanted s k' = exit_wanted s k)"
  proof (cases call)
    case (CallConsole slot operation)
    then show ?thesis
      using assms app_console_keeps(1) [of env slot operation k] app_console_keeps(2) [of s env slot operation k]
      by (metis app_step.simps(10) option.inject snd_conv)
  next
    case (CallPointerOpen owner device)
    then show ?thesis using assms pointer_calls(1,2) [of owner device "k_pointer k"]
      by (auto simp: case_prod_beta frame_def services_def pointer_owner_def exit_wanted_def context_of_def)
  next
    case (CallPointerRead owner handle)
    then show ?thesis using assms pointer_calls(3,4) [of owner handle True "k_pointer k"]
      by (auto simp: case_prod_beta frame_def services_def pointer_owner_def exit_wanted_def context_of_def)
  next
    case (CallPointerClose owner handle)
    then show ?thesis using assms pointer_calls(5,6) [of owner handle "k_pointer k"]
      by (auto simp: case_prod_beta frame_def services_def pointer_owner_def exit_wanted_def context_of_def)
  next
    case (CallTakeChildStatus caller)
    then show ?thesis
      using assms take_status_frame(1) [of caller k] take_status_frame(2) [of s caller k]
      by (auto simp: apfst_def map_prod_def case_prod_beta)
  next
    case (CallForceTerminate process status)
    then show ?thesis using assms force_frame [of process status k] force_wanted [of s k process status]
      by (auto simp: apfst_def map_prod_def case_prod_beta)
  next
    case (CallRegister descriptor)
    then show ?thesis using assms
      by (auto simp: case_prod_beta frame_def services_def pointer_owner_def exit_wanted_def context_of_def)
  next
    case (CallReportDiagnostic slot status)
    then show ?thesis using assms
      by (cases "is_foreground slot k")
        (auto simp: application_report_diagnostic_result_def frame_def services_def pointer_owner_def
          exit_wanted_def context_of_def)
  qed (use assms in \<open>auto simp: request_exit_wanted fail_wanted\<close>)
  then show "frame k' = frame k"
    and "\<not> is_foreground s k \<or> \<not> requests_exit call \<Longrightarrow> exit_wanted s k' = exit_wanted s k" by auto
qed

lemma is_foreground_frame: "frame k' = frame k \<Longrightarrow> is_foreground s k' = is_foreground s k"
  using frame_fields(5) [of k' k] by (simp add: is_foreground_def)

lemma quiet_program:
  assumes "run_program env enter p k = Some (result, k')" and "quiet p"
  shows "frame k' = frame k" and "\<not> is_foreground s k \<Longrightarrow> exit_wanted s k' = exit_wanted s k"
proof -
  have "frame k' = frame k \<and> (\<not> is_foreground s k \<longrightarrow> exit_wanted s k' = exit_wanted s k)"
    using assms
  proof (induction p arbitrary: k)
    case (Call call continue)
    then obtain answer m where step: "app_step env enter call k = Some (answer, m)"
      and rest: "run_program env enter (continue answer) m = Some (result, k')"
      by (auto split: option.splits)
    have same: "frame m = frame k" using quiet_step(1) [OF step] Call.prems by simp
    have "frame k' = frame m \<and> (\<not> is_foreground s m \<longrightarrow> exit_wanted s k' = exit_wanted s m)"
      using Call.IH [OF _ rest] Call.prems(2) by auto
    then show ?case using same is_foreground_frame [OF same] quiet_step(2) [OF step, of s] Call.prems by simp
  qed simp
  then show "frame k' = frame k" and "\<not> is_foreground s k \<Longrightarrow> exit_wanted s k' = exit_wanted s k" by auto
qed

end
