(* ===== verification/ProcessReturn.thy ===== *)
theory ProcessReturn
  imports ProcessFrame
begin

text \<open>
  Every operation of the process service returns. Application code may launch from within a callback,
  and the child's entry callback runs inside it, so callbacks nest; but each level holds a process slot
  of its own until its callback is over. With as many levels as there are slots, and one for the
  clean-up of the last, the depth never runs out, whatever the applications do.
\<close>

section \<open>Occupied slots\<close>

definition occupancy :: "kernel \<Rightarrow> bool list" where
  "occupancy k = map p_occupied (processes k)"

definition free_slots :: "kernel \<Rightarrow> nat" where
  "free_slots k = length (filter Not (occupancy k))"

text \<open>\<open>k'\<close> has at least the processes of \<open>k\<close>, those in \<open>S\<close> excepted.\<close>

definition keeps_but :: "nat set \<Rightarrow> kernel \<Rightarrow> kernel \<Rightarrow> bool" where
  "keeps_but S k k' \<longleftrightarrow> length (occupancy k') = length (occupancy k) \<and>
     (\<forall>i < length (occupancy k). i \<notin> S \<and> occupancy k ! i \<longrightarrow> occupancy k' ! i)"

lemma occupancy_core: "core k' = core k \<Longrightarrow> occupancy k' = occupancy k"
  by (simp add: occupancy_def core_def)

lemma occupancy_frame: "frame k' = frame k \<Longrightarrow> occupancy k' = occupancy k"
proof -
  assume "frame k' = frame k"
  then have "map process_frame (processes k') = map process_frame (processes k)" by (simp add: frame_def)
  then have "map (\<lambda>f. fst (fst f)) (map process_frame (processes k')) = map (\<lambda>f. fst (fst f)) (map process_frame (processes k))"
    by (rule arg_cong)
  moreover have "(\<lambda>f. fst (fst f)) \<circ> process_frame = p_occupied" by (rule ext) (simp add: process_frame_def)
  ultimately show ?thesis by (simp only: occupancy_def map_map)
qed

lemma occupancy_log [simp]: "occupancy (log_call c k) = occupancy k"
  by (simp add: occupancy_def)

lemma occupancy_process [simp]:
  "(\<And>p. p_occupied (f p) = p_occupied p) \<Longrightarrow> occupancy (on_process slot f k) = occupancy k"
  by (simp add: occupancy_def map_update list_update_same_conv)
    (metis list_update_beyond list_update_id length_map not_le nth_map)

lemma occupancy_context [simp]: "occupancy (on_context slot g k) = occupancy k"
  by (simp add: on_context_def)

lemma occupancy_fields [simp]:
  "occupancy (k\<lparr>k_console := c\<rparr>) = occupancy k" "occupancy (k\<lparr>k_pointer := p\<rparr>) = occupancy k"
  "occupancy (k\<lparr>foreground_process := f\<rparr>) = occupancy k" "occupancy (k\<lparr>foreground_depth := d\<rparr>) = occupancy k"
  "occupancy (k\<lparr>foreground_stack := st\<rparr>) = occupancy k" "occupancy (k\<lparr>next_process_id := n\<rparr>) = occupancy k"
  "occupancy (k\<lparr>launched := m\<rparr>) = occupancy k" "occupancy (k\<lparr>last_exit_status := s\<rparr>) = occupancy k"
  "occupancy (k\<lparr>last_exit_valid := v\<rparr>) = occupancy k" "occupancy (k\<lparr>k_elf := e\<rparr>) = occupancy k"
  "occupancy (k\<lparr>applications := as\<rparr>) = occupancy k"
  by (simp_all add: occupancy_def)

lemma occupancy_panic [simp]: "occupancy (panic_root_process env slot k) = occupancy k"
  by (simp add: panic_root_process_def Let_def)

lemma occupancy_release [simp]:
  "occupancy (session_release env slot k) = occupancy k"
  "occupancy (release_process_console env slot k) = occupancy k"
  by (simp_all add: session_release_def release_process_console_def case_prod_beta)

lemma occupancy_acquire [simp]: "occupancy (snd (acquire_process_console env slot k)) = occupancy k"
  by (simp add: acquire_process_console_def case_prod_beta Let_def)

lemma occupancy_owner [simp]: "occupancy (set_pointer_owner a k) = occupancy k"
  by (simp add: set_pointer_owner_def)

lemma occupancy_destroy_data [simp]: "occupancy (destroy_data env elf data k) = occupancy k"
  by (simp add: destroy_data_def occupancy_core [OF destroy_application_keeps(1)])

lemma occupancy_clear: "occupancy (on_process slot (\<lambda>p. process_zero) k) = (occupancy k)[slot := False]"
  by (simp add: occupancy_def map_update process_zero_def)

lemma keeps_refl [simp]: "keeps_but S k k"
  by (simp add: keeps_but_def)

lemma keeps_same: "occupancy k' = occupancy k \<Longrightarrow> keeps_but S k k'"
  by (simp add: keeps_but_def)

lemma keeps_trans: "keeps_but S k m \<Longrightarrow> keeps_but S m k' \<Longrightarrow> keeps_but S k k'"
  by (simp add: keeps_but_def)

lemma keeps_weaken: "keeps_but {} k k' \<Longrightarrow> keeps_but S k k'"
  by (simp add: keeps_but_def)

lemma keeps_new:
  assumes "keeps_but {slot} m k'" and "occupancy m = (occupancy k)[slot := True]" and "\<not> occupancy k ! slot"
  shows "keeps_but {} k k'"
  unfolding keeps_but_def
proof (intro conjI allI impI)
  show "length (occupancy k') = length (occupancy k)" using assms by (simp add: keeps_but_def)
  fix i assume i: "i < length (occupancy k)" "i \<notin> {} \<and> occupancy k ! i"
  then have "i \<noteq> slot" using assms(3) by auto
  then show "occupancy k' ! i" using assms(1,2) i unfolding keeps_but_def by simp
qed

lemma keeps_free: "keeps_but {} k k' \<Longrightarrow> free_slots k' \<le> free_slots k"
  unfolding free_slots_def length_filter_conv_card keeps_but_def by (intro card_mono) auto

lemma free_start:
  assumes "slot < length (occupancy k)" and "\<not> occupancy k ! slot" and "occupancy m = (occupancy k)[slot := True]"
  shows "free_slots m + 1 = free_slots k"
  using length_filter_update [OF assms(1), of Not True] assms(2,3) by (simp add: free_slots_def)

lemma free_bound: "free_slots k \<le> length (processes k)"
  by (simp add: free_slots_def occupancy_def length_filter_le [of _ "map p_occupied (processes k)", simplified])

lemma free_slot_found:
  assumes "free_process_slot k = Some slot"
  shows "slot < KERNEL_PROCESS_CAPACITY" and "\<not> p_occupied (processes k ! slot)"
  using assms by (auto simp: free_process_slot_def find_Some_iff)

section \<open>The operations\<close>

definition returns :: "runner \<Rightarrow> nat \<Rightarrow> bool" where
  "returns enter n \<longleftrightarrow>
     (\<forall>callback slot k. length (processes k) = KERNEL_PROCESS_CAPACITY \<and> free_slots k < n \<longrightarrow>
       (\<exists>r k'. enter callback slot k = Some (r, k') \<and> keeps_but {} k k'))"

lemma returnsD:
  assumes "returns enter n" and "length (processes k) = KERNEL_PROCESS_CAPACITY" and "free_slots k < n"
  obtains r k' where "enter callback slot k = Some (r, k')" and "keeps_but {} k k'"
  using assms unfolding returns_def by blast

lemma keeps_length: "keeps_but S k k' \<Longrightarrow> length (processes k') = length (processes k)"
  by (simp add: keeps_but_def occupancy_def)

lemma destroy_returns:
  assumes "returns enter n" and "length (processes k) = KERNEL_PROCESS_CAPACITY" and "free_slots k < n"
  shows "\<exists>k'. destroy_process env enter slot k = Some k' \<and> keeps_but {slot} k k'"
proof (cases "p_occupied (processes k ! slot)")
  case True
  define cleanup where "cleanup = (case app_cleanup (the (ctx_descriptor (context_of slot k))) of
    None \<Rightarrow> Some k | Some code \<Rightarrow> map_option snd (enter (CleanupCall code (ctx_exit_status (context_of slot k))) slot k))"
  obtain m where m: "cleanup = Some m" "keeps_but {} k m"
  proof (cases "app_cleanup (the (ctx_descriptor (context_of slot k)))")
    case None
    then show ?thesis using that [of k] by (simp add: cleanup_def)
  next
    case (Some code)
    obtain r k' where "enter (CleanupCall code (ctx_exit_status (context_of slot k))) slot k = Some (r, k')"
      and "keeps_but {} k k'" using returnsD [OF assms] .
    then show ?thesis using that [of k'] Some by (simp add: cleanup_def)
  qed
  define m1 where "m1 = (if ctx_console_owned (context_of slot m) then session_release env slot m else m)"
  define m2 where "m2 = destroy_data env (p_elf_destroy (processes m1 ! slot)) (ctx_application_data (context_of slot m1)) m1"
  define k' where "k' = (on_process slot (\<lambda>p. process_zero) m2)
    \<lparr>last_exit_status := ctx_exit_status (context_of slot k), last_exit_valid := True\<rparr>"
  have "destroy_process env enter slot k = Some k'"
    using True m(1) unfolding destroy_process_def cleanup_def [symmetric] Let_def
    by (simp add: k'_def m2_def m1_def)
  moreover have "occupancy k' = (occupancy m)[slot := False]"
    by (simp add: k'_def occupancy_clear m2_def m1_def)
  then have "keeps_but {slot} k k'" using m(2) by (simp add: keeps_but_def)
  ultimately show ?thesis by blast
qed (simp add: destroy_process_def)

text \<open>What \<open>finish_child_process\<close> does after the child is gone.\<close>

definition resume_parent :: "process_env \<Rightarrow> int \<Rightarrow> kernel \<Rightarrow> kernel" where
  "resume_parent env status k =
     (case foreground_process k of
        None \<Rightarrow> k
      | Some parent \<Rightarrow>
          (let k = on_process parent (\<lambda>p. p\<lparr>p_state := TABOS_PROCESS_RUNNING\<rparr>) k;
               k = on_context parent (\<lambda>c. c\<lparr>ctx_child_status := status, ctx_child_status_valid := True\<rparr>) k;
               k = set_pointer_owner (ctx_application_data (context_of parent k)) k;
               (acquired, k) = acquire_process_console env parent k;
               k = (if acquired then k
                 else
                   (let k = on_context parent (\<lambda>c. c\<lparr>ctx_exit_status := - 1\<rparr>) k
                    in if p_id (processes k ! parent) = 0 then panic_root_process env parent k
                       else on_context parent (\<lambda>c. c\<lparr>ctx_exit_requested := True\<rparr>) k))
           in log_call (RuntimeNotify RUNTIME_EVENT_APPLICATION) k))"

definition pop_foreground :: "kernel \<Rightarrow> kernel" where
  "pop_foreground k =
     (let k = (if 0 < foreground_depth k then k\<lparr>foreground_depth := foreground_depth k - 1\<rparr> else k)
      in k\<lparr>foreground_process :=
         (if 0 < foreground_depth k then find_process (foreground_stack k ! (foreground_depth k - 1)) k else None)\<rparr>)"

lemma finish_child_parts:
  "finish_child_process env enter child k =
     map_option (\<lambda>m. resume_parent env (ctx_exit_status (context_of child k)) (pop_foreground m))
       (destroy_process env enter child (release_process_console env child (set_pointer_owner 0 k)))"
  unfolding finish_child_process_def Let_def resume_parent_def pop_foreground_def
  by (cases "destroy_process env enter child (release_process_console env child (set_pointer_owner 0 k))")
    (simp_all split: option.split prod.split)

lemma occupancy_resume [simp]: "occupancy (resume_parent env status k) = occupancy k"
  by (simp add: resume_parent_def Let_def case_prod_beta split: option.split)

lemma occupancy_pop [simp]: "occupancy (pop_foreground k) = occupancy k"
  by (simp add: pop_foreground_def Let_def)

lemma free_occupancy: "occupancy k' = occupancy k \<Longrightarrow> free_slots k' = free_slots k"
  by (simp add: free_slots_def)

lemma length_occupancy: "occupancy k' = occupancy k \<Longrightarrow> length (processes k') = length (processes k)"
  by (metis length_map occupancy_def)

lemma finish_returns:
  assumes "returns enter n" and "length (processes k) = KERNEL_PROCESS_CAPACITY" and "free_slots k < n"
  shows "\<exists>k'. finish_child_process env enter child k = Some k' \<and> keeps_but {child} k k'"
proof -
  define m where "m = release_process_console env child (set_pointer_owner 0 k)"
  have same: "occupancy m = occupancy k" by (simp add: m_def)
  obtain m' where "destroy_process env enter child m = Some m'" "keeps_but {child} m m'"
    using destroy_returns [OF assms(1), of m env child] assms(2,3) length_occupancy [OF same] free_occupancy [OF same]
    by auto
  then show ?thesis using same
    by (simp add: finish_child_parts m_def [symmetric] keeps_but_def)
qed

text \<open>What a launch does before the child's code runs, and after it.\<close>

definition enter_child :: "process_env \<Rightarrow> app_descriptor \<Rightarrow> nat \<Rightarrow> bool \<Rightarrow> nat \<Rightarrow> nat \<Rightarrow> kernel \<Rightarrow> kernel" where
  "enter_child env d data elf parent child k =
     (let child_id = next_process_id k;
          k = release_process_console env parent (start_child d data elf parent child k);
          k = on_process parent (\<lambda>p. p\<lparr>p_state := TABOS_PROCESS_BLOCKED\<rparr>) k;
          k = k\<lparr>foreground_stack := (foreground_stack k)[foreground_depth k := child_id],
                foreground_depth := foreground_depth k + 1, foreground_process := Some child\<rparr>
      in set_pointer_owner (ctx_application_data (context_of child k)) k)"

definition settle_child ::
    "process_env \<Rightarrow> runner \<Rightarrow> nat \<Rightarrow> bool \<Rightarrow> kernel \<Rightarrow> (app_result \<times> kernel) option" where
  "settle_child env enter child started k =
     (if \<not> started then
        map_option (Pair APP_RESULT_START_FAILED)
          (finish_child_process env enter child (on_context child (\<lambda>c. c\<lparr>ctx_exit_status := - 1\<rparr>) k))
      else if ctx_exit_requested (context_of child k) then
        map_option (Pair APP_RESULT_OK) (finish_child_process env enter child k)
      else Some (APP_RESULT_OK, log_call (RuntimeNotify RUNTIME_EVENT_APPLICATION) k))"

definition run_entry :: "process_env \<Rightarrow> runner \<Rightarrow> app_descriptor \<Rightarrow> nat \<Rightarrow> kernel \<Rightarrow> (bool \<times> kernel) option" where
  "run_entry env enter d child k =
     (case acquire_process_console env child k of
        (False, k) \<Rightarrow> Some (False, k)
      | (True, k) \<Rightarrow> enter (EntryCall (the (app_entry d))) child k)"

definition child_refused :: "nat \<Rightarrow> kernel \<Rightarrow> bool" where
  "child_refused parent k \<longleftrightarrow>
     foreground_process k \<noteq> Some parent \<or> p_state (processes k ! parent) \<noteq> TABOS_PROCESS_RUNNING"

lemma launch_child_parts:
  "launch_child_descriptor env enter caller descriptor data elf k =
     (case (caller, descriptor) of
        (Some parent, Some d) \<Rightarrow>
          if child_refused parent k then Some (APP_RESULT_BUSY, destroy_data env elf data k)
          else
            (case free_process_slot k of
               None \<Rightarrow> Some (APP_RESULT_START_FAILED, destroy_data env elf data k)
             | Some child \<Rightarrow>
                 if KERNEL_PROCESS_CAPACITY \<le> foreground_depth k
                 then Some (APP_RESULT_START_FAILED, destroy_data env elf data k)
                 else
                   (case run_entry env enter d child (enter_child env d data elf parent child k) of
                      None \<Rightarrow> None
                    | Some (started, k) \<Rightarrow> settle_child env enter child started k))
      | _ \<Rightarrow> Some (APP_RESULT_INVALID, destroy_data env elf data k))"
proof -
  have bind: "(do { m \<leftarrow> x; Some (r, m) }) = map_option (Pair r) x" for x and r :: app_result
    by (cases x) simp_all
  show ?thesis
    unfolding launch_child_descriptor_def enter_child_def run_entry_def settle_child_def child_refused_def Let_def bind
    by (auto split: option.split prod.split bool.split simp: Option.bind_eq_None_conv)
qed

definition enter_root :: "nat \<Rightarrow> kernel \<Rightarrow> kernel" where
  "enter_root slot k =
     (let k = k\<lparr>foreground_process := Some slot, foreground_stack := (foreground_stack k)[0 := 0],
                foreground_depth := 1, last_exit_valid := False\<rparr>
      in set_pointer_owner (ctx_application_data (context_of slot k)) k)"

definition settle_root ::
    "process_env \<Rightarrow> runner \<Rightarrow> nat \<Rightarrow> bool \<Rightarrow> kernel \<Rightarrow> (app_result \<times> kernel) option" where
  "settle_root env enter slot started k =
     (if \<not> started then
        map_option (\<lambda>m. (APP_RESULT_START_FAILED,
            set_pointer_owner 0 (m\<lparr>foreground_process := None, foreground_depth := 0\<rparr>)))
          (destroy_process env enter slot (on_context slot (\<lambda>c. c\<lparr>ctx_exit_status := - 1\<rparr>) k))
      else
        Some (APP_RESULT_OK, log_call (RuntimeNotify RUNTIME_EVENT_APPLICATION)
          (if ctx_exit_requested (context_of slot k) then panic_root_process env slot k else k)))"

lemma launch_root_parts:
  "launch_root_descriptor env enter descriptor data elf k =
     (case descriptor of
        None \<Rightarrow> Some (APP_RESULT_INVALID, destroy_data env elf data k)
      | Some d \<Rightarrow>
          if foreground_process k \<noteq> None then Some (APP_RESULT_BUSY, destroy_data env elf data k)
          else
            (case free_process_slot k of
               None \<Rightarrow> Some (APP_RESULT_START_FAILED, destroy_data env elf data k)
             | Some slot \<Rightarrow>
                 (case acquire_process_console env slot (start_root d data elf slot k) of
                    (False, k) \<Rightarrow>
                      Some (APP_RESULT_START_FAILED, on_process slot (\<lambda>p. process_zero) (destroy_data env elf data k))
                  | (True, k) \<Rightarrow>
                      (case enter (EntryCall (the (app_entry d))) slot (enter_root slot k) of
                         None \<Rightarrow> None
                       | Some (started, k) \<Rightarrow> settle_root env enter slot started k))))"
proof -
  have bind: "(do { m \<leftarrow> x; Some (f m) }) = map_option f x" for x and f :: "kernel \<Rightarrow> app_result \<times> kernel"
    by (cases x) simp_all
  show ?thesis
    unfolding launch_root_descriptor_def enter_root_def settle_root_def Let_def bind
    by (auto split: option.split prod.split bool.split simp: Option.bind_eq_None_conv)
qed

lemma new_process_fields [simp]:
  "p_occupied (new_process process parent d data elf)" "p_id (new_process process parent d data elf) = process"
  "p_parent_id (new_process process parent d data elf) = parent"
  "p_state (new_process process parent d data elf) = TABOS_PROCESS_RUNNING"
  "p_elf_destroy (new_process process parent d data elf) = elf"
  "ctx_descriptor (p_context (new_process process parent d data elf)) = Some d"
  "ctx_application_data (p_context (new_process process parent d data elf)) = data"
  "ctx_console (p_context (new_process process parent d data elf)) = 0"
  "\<not> ctx_console_owned (p_context (new_process process parent d data elf))"
  "\<not> ctx_exit_requested (p_context (new_process process parent d data elf))"
  "ctx_exit_status (p_context (new_process process parent d data elf)) = 0"
  by (simp_all add: new_process_def process_zero_def context_zero_def)

lemma occupancy_start:
  "occupancy (enter_child env d data elf parent child k) = (occupancy k)[child := True]"
  "occupancy (start_root d data elf slot k) = (occupancy k)[slot := True]"
  "occupancy (enter_root slot k) = occupancy k"
proof -
  have "occupancy (on_process slot (\<lambda>p. new_process process parent d data elf) k) = (occupancy k)[slot := True]"
    for slot process parent
    by (simp add: occupancy_def map_update)
  then show "occupancy (enter_child env d data elf parent child k) = (occupancy k)[child := True]"
    "occupancy (start_root d data elf slot k) = (occupancy k)[slot := True]"
    by (simp_all add: enter_child_def start_child_def start_root_def Let_def)
  show "occupancy (enter_root slot k) = occupancy k" by (simp add: enter_root_def Let_def)
qed

text \<open>
  A slot that the launch has just filled: what happens until the launch is over keeps every other
  process, and with one free slot fewer the nested callbacks return.
\<close>

lemma launch_child_returns:
  assumes "returns enter n" and length: "length (processes k) = KERNEL_PROCESS_CAPACITY" and "free_slots k < n + 1"
  shows "\<exists>r k'. launch_child_descriptor env enter caller descriptor data elf k = Some (r, k') \<and> keeps_but {} k k'"
proof -
  have started: "\<exists>r k'. (case run_entry env enter d child (enter_child env d data elf parent child k) of
      None \<Rightarrow> None | Some (started, k) \<Rightarrow> settle_child env enter child started k) = Some (r, k') \<and> keeps_but {} k k'"
    if slot: "free_process_slot k = Some child" for d parent child
  proof -
    obtain acquired m where acquire:
        "acquire_process_console env child (enter_child env d data elf parent child k) = (acquired, m)"
      by fastforce
    have child: "child < length (occupancy k)" "\<not> occupancy k ! child"
      using free_slot_found [OF slot] length by (simp_all add: occupancy_def)
    have m: "occupancy m = (occupancy k)[child := True]"
      using occupancy_acquire [of env child "enter_child env d data elf parent child k"]
      by (simp add: acquire occupancy_start)
    have fewer: "free_slots m + 1 = free_slots k" using free_start [OF child m] .
    have lengths: "length (processes m) = KERNEL_PROCESS_CAPACITY"
      using arg_cong [OF m, of length] length by (simp add: occupancy_def)
    have free: "free_slots m < n" using fewer assms(3) by simp
    obtain started m1 where run: "run_entry env enter d child (enter_child env d data elf parent child k) = Some (started, m1)"
      and m1: "keeps_but {} m m1"
    proof (cases acquired)
      case True
      obtain r k' where "enter (EntryCall (the (app_entry d))) child m = Some (r, k')" "keeps_but {} m k'"
        using returnsD [OF assms(1) lengths free] .
      then show ?thesis using that [of r k'] True by (simp add: run_entry_def acquire)
    next
      case False
      then show ?thesis using that [of False m] by (simp add: run_entry_def acquire)
    qed
    have after: "length (processes m1) = KERNEL_PROCESS_CAPACITY" "free_slots m1 < n"
      using keeps_length [OF m1] lengths keeps_free [OF m1] free by simp_all
    have finish: "\<exists>k'. finish_child_process env enter child (on_context child g m1) = Some k' \<and> keeps_but {child} m k'" for g
    proof -
      have same: "occupancy (on_context child g m1) = occupancy m1" by simp
      obtain k' where "finish_child_process env enter child (on_context child g m1) = Some k'"
        and "keeps_but {child} (on_context child g m1) k'"
        using finish_returns [OF assms(1), of "on_context child g m1" env child] after
          free_occupancy [OF same] length_occupancy [OF same] by auto
      then show ?thesis using m1 by (auto simp: keeps_but_def)
    qed
    obtain r k' where "settle_child env enter child started m1 = Some (r, k')" and "keeps_but {child} m k'"
    proof (cases "\<not> started \<or> ctx_exit_requested (context_of child m1)")
      case True
      have "on_context child (\<lambda>c. c) m1 = m1"
        by (simp add: on_context_def on_process_def)
      then show ?thesis using that True finish [of "\<lambda>c. c\<lparr>ctx_exit_status := - 1\<rparr>"] finish [of "\<lambda>c. c"]
        unfolding settle_child_def by (cases started) auto
    next
      case False
      then show ?thesis using that m1 by (auto simp: settle_child_def keeps_but_def)
    qed
    then have "settle_child env enter child started m1 = Some (r, k')" and "keeps_but {} k k'"
      using keeps_new m child(2) by auto
    then show ?thesis using run by simp
  qed
  have refused: "keeps_but {} k (destroy_data env elf data k)" by (simp add: keeps_same)
  show ?thesis
    unfolding launch_child_parts
    using started refused by (auto split: option.split)
qed

lemma launch_root_returns:
  assumes "returns enter n" and length: "length (processes k) = KERNEL_PROCESS_CAPACITY" and "free_slots k < n + 1"
  shows "\<exists>r k'. launch_root_descriptor env enter descriptor data elf k = Some (r, k') \<and> keeps_but {} k k'"
proof -
  have refused: "keeps_but {} k (destroy_data env elf data k)" by (simp add: keeps_same)
  have started: "\<exists>r k'. (case acquire_process_console env slot (start_root d data elf slot k) of
      (False, k) \<Rightarrow> Some (APP_RESULT_START_FAILED, on_process slot (\<lambda>p. process_zero) (destroy_data env elf data k))
    | (True, k) \<Rightarrow>
        (case enter (EntryCall (the (app_entry d))) slot (enter_root slot k) of
           None \<Rightarrow> None | Some (started, k) \<Rightarrow> settle_root env enter slot started k)) = Some (r, k') \<and> keeps_but {} k k'"
    if slot: "free_process_slot k = Some slot" for d slot
  proof -
    obtain acquired m where acquire: "acquire_process_console env slot (start_root d data elf slot k) = (acquired, m)"
      by fastforce
    have free: "slot < length (occupancy k)" "\<not> occupancy k ! slot"
      using free_slot_found [OF slot] length by (simp_all add: occupancy_def)
    have m: "occupancy m = (occupancy k)[slot := True]"
      using occupancy_acquire [of env slot "start_root d data elf slot k"] by (simp add: acquire occupancy_start)
    have root: "occupancy (enter_root slot m) = (occupancy k)[slot := True]" by (simp add: m occupancy_start)
    have lengths: "length (processes (enter_root slot m)) = KERNEL_PROCESS_CAPACITY"
      using arg_cong [OF root, of length] length by (simp add: occupancy_def)
    have "free_slots (enter_root slot m) < n" using free_start [OF free root] assms(3) by simp
    then obtain ok m1 where run: "enter (EntryCall (the (app_entry d))) slot (enter_root slot m) = Some (ok, m1)"
      and m1: "keeps_but {} (enter_root slot m) m1"
      using returnsD [OF assms(1) lengths] by blast
    have after: "length (processes m1) = KERNEL_PROCESS_CAPACITY" "free_slots m1 < n"
      using keeps_length [OF m1] lengths keeps_free [OF m1] \<open>free_slots (enter_root slot m) < n\<close> by simp_all
    define g where "g = on_context slot (\<lambda>c. c\<lparr>ctx_exit_status := - 1\<rparr>) m1"
    have g: "occupancy g = occupancy m1" by (simp add: g_def)
    obtain m2 where destroy: "destroy_process env enter slot g = Some m2" and m2: "keeps_but {slot} g m2"
      using destroy_returns [OF assms(1), of g env slot] after free_occupancy [OF g] length_occupancy [OF g] by auto
    have "settle_root env enter slot ok m1 \<noteq> None" and
      "keeps_but {slot} (enter_root slot m) (snd (the (settle_root env enter slot ok m1)))"
      using m1 m2 g destroy by (auto simp: settle_root_def g_def [symmetric] keeps_but_def)
    then have "\<exists>r k'. settle_root env enter slot ok m1 = Some (r, k') \<and> keeps_but {} k k'"
      using keeps_new [OF _ root free(2)] by (cases "settle_root env enter slot ok m1") auto
    moreover have "keeps_but {} k (on_process slot (\<lambda>p. process_zero) (destroy_data env elf data m))"
      using free by (auto simp: keeps_but_def occupancy_clear m nth_list_update)
    ultimately show ?thesis by (cases acquired) (simp_all add: acquire run)
  qed
  show ?thesis
    unfolding launch_root_parts
    using started refused by (auto split: option.split)
qed

lemma create_keeps:
  "core (snd (loader_elf_application_create env path argc argv k)) = core k"
  by (simp add: loader_elf_application_create_def Let_def elf_free_def split: option.split)
    (simp add: core_def on_elf_def on_resources_def)

lemma settings_keep:
  "core (snd (inherit_settings a k)) = core k"
proof -
  have "core (snd (loader_elf_application_set_working_directory a directory k)) = core k" for directory
    by (simp add: loader_elf_application_set_working_directory_def split: option.split)
  moreover have "core (snd (loader_elf_application_set_tty_mode a mode m)) = core m" for mode m
    by (simp add: loader_elf_application_set_tty_mode_def)
  ultimately show ?thesis
    by (simp add: inherit_settings_def Let_def split: option.split prod.split bool.split) (metis snd_conv)
qed

lemma start_application_keeps:
  assumes "loader_elf_application_create env path argc argv k = (a, m)" and "inherit_settings a m = (ok, m')"
  shows "core m = core k" and "core m' = core k"
  using create_keeps [of env path argc argv k] settings_keep [of a m] assms by simp_all

lemma core_returns:
  assumes "core m = core k"
  shows "occupancy m = occupancy k" "free_slots m = free_slots k" "length (processes m) = length (processes k)"
    "keeps_but S k m"
  using assms occupancy_core [OF assms] core_fields(1) [OF assms]
  by (simp_all add: free_slots_def keeps_same)

lemma exec_returns:
  assumes "returns enter n" and "length (processes k) = KERNEL_PROCESS_CAPACITY" and "free_slots k < n + 1"
  shows "\<exists>r k'. tabos_app_exec_args env enter caller path argc argv k = Some (r, k') \<and> keeps_but {} k k'"
proof -
  obtain a m where create: "loader_elf_application_create env path argc argv k = (a, m)" by fastforce
  obtain ok m' where settings: "inherit_settings a m = (ok, m')" by fastforce
  note cores = start_application_keeps [OF create settings]
  note same = core_returns [OF cores(1)] and same' = core_returns [OF cores(2)]
  obtain r k' where "launch_child_descriptor env enter caller (loader_elf_application_descriptor a m') a True m' = Some (r, k')"
    and "keeps_but {} m' k'"
    using launch_child_returns [OF assms(1)] same'(2,3) assms(2,3) by metis
  moreover have "occupancy (loader_elf_application_destroy env a m') = occupancy k"
    using destroy_application_keeps(1) occupancy_core same'(1) by metis
  ultimately show ?thesis using keeps_trans [OF same'(4), of "{}"] same
    unfolding tabos_app_exec_args_def create prod.case settings
    by (cases ok) (auto simp: keeps_same)
qed

lemma launch_path_returns:
  assumes "returns enter n" and "length (processes k) = KERNEL_PROCESS_CAPACITY" and "free_slots k < n + 1"
  shows "\<exists>r k'. tabos_app_launch_path_args env enter path argc argv k = Some (r, k') \<and> keeps_but {} k k'"
proof -
  obtain a m where create: "loader_elf_application_create env path argc argv k = (a, m)" by fastforce
  have "core m = core k" using create_keeps [of env path argc argv k] create by simp
  note same = core_returns [OF this]
  obtain r k' where "launch_root_descriptor env enter (loader_elf_application_descriptor a m) a True m = Some (r, k')"
    and "keeps_but {} m k'"
    using launch_root_returns [OF assms(1)] same(2,3) assms(2,3) by metis
  then show ?thesis using keeps_trans [OF same(4), of "{}"] same
    unfolding tabos_app_launch_path_args_def create prod.case by auto
qed

lemma app_step_returns:
  assumes "returns enter n" and "length (processes k) = KERNEL_PROCESS_CAPACITY" and "free_slots k < n + 1"
  shows "\<exists>a k'. app_step env enter call k = Some (a, k') \<and> keeps_but {} k k'"
proof (cases "launches call")
  case True
  have lift: "\<exists>a k'. map_option (apfst Result) x = Some (a, k') \<and> keeps_but {} k k'"
    if "\<exists>r k'. x = Some (r, k') \<and> keeps_but {} k k'" for x
    using that by auto
  have name: "\<exists>r k'. tabos_app_launch env enter name k = Some (r, k') \<and> keeps_but {} k k'" for name
    using launch_root_returns [OF assms] by (simp add: tabos_app_launch_def split: option.split)
  have child: "\<exists>r k'. kernel_process_launch_child env enter caller name k = Some (r, k') \<and> keeps_but {} k k'"
    for caller name
    using launch_child_returns [OF assms] by (simp add: kernel_process_launch_child_def split: option.split)
  show ?thesis
    using True lift [OF name] lift [OF child] lift [OF launch_path_returns [OF assms]] lift [OF exec_returns [OF assms]]
    by (cases call) simp_all
next
  case False
  have "app_step env enter call k \<noteq> None"
    using False by (cases call) (simp_all add: case_prod_beta)
  then obtain a k' where step: "app_step env enter call k = Some (a, k')" by fastforce
  show ?thesis using step occupancy_frame [OF quiet_step(1) [OF step False]] by (auto simp: keeps_same)
qed

lemma program_returns:
  assumes "returns enter n" and "length (processes k) = KERNEL_PROCESS_CAPACITY" and "free_slots k < n + 1"
  shows "\<exists>r k'. run_program env enter p k = Some (r, k') \<and> keeps_but {} k k'"
  using assms(2,3)
proof (induction p arbitrary: k)
  case (Call call continue)
  obtain a m where step: "app_step env enter call k = Some (a, m)" and m: "keeps_but {} k m"
    using app_step_returns [OF assms(1) Call.prems] by blast
  obtain r k' where "run_program env enter (continue a) m = Some (r, k')" and "keeps_but {} m k'"
    using Call.IH [of "continue a" m] Call.prems keeps_length [OF m] keeps_free [OF m] by auto
  then show ?case using step keeps_trans [OF m] by auto
qed simp

lemma collect_occupancy: "occupancy (elf_collect_status slot a k) = occupancy k"
proof -
  have same: "occupancy (snd (tabos_app_take_child_status (Some slot) k)) = occupancy k"
    by (rule occupancy_frame) simp
  obtain status m where take: "tabos_app_take_child_status (Some slot) k = (status, m)" by fastforce
  have "occupancy (on_elf a f m) = occupancy m" for f by (rule occupancy_core) simp
  then show ?thesis using same
    by (simp add: elf_collect_status_def take store_exec_status_def split: option.split)
qed

lemma serve_returns:
  assumes "returns enter n" and "length (processes k) = KERNEL_PROCESS_CAPACITY" and "free_slots k < n + 1"
  shows "\<exists>r k'. elf_serve_exec env enter slot a k = Some (r, k') \<and> keeps_but {} k k'"
proof (cases "\<exists>e. k_elf k a = Some e \<and> ea_exec_requested e")
  case True
  then obtain e where e: "k_elf k a = Some e" "ea_exec_requested e" by blast
  have "core (on_elf a (\<lambda>e. e\<lparr>ea_exec_requested := False\<rparr>) k) = core k" by simp
  note same = core_returns [OF this]
  obtain r m where exec: "tabos_app_exec_args env enter (Some slot) (Some (ea_exec_path e)) (length (ea_exec_argv e))
      (Some (map Some (ea_exec_argv e))) (on_elf a (\<lambda>e. e\<lparr>ea_exec_requested := False\<rparr>) k) = Some (r, m)"
    and m: "keeps_but {} (on_elf a (\<lambda>e. e\<lparr>ea_exec_requested := False\<rparr>) k) m"
    using exec_returns [OF assms(1)] same(2,3) assms(2,3) by metis
  have "occupancy (store_exec_status a s (snd (tabos_app_take_child_status (Some slot) m))) = occupancy m" for s
    unfolding store_exec_status_def using occupancy_frame [OF take_status_frame(1)] occupancy_core [OF core_elf] by metis
  then show ?thesis using e exec m same(1)
    by (auto simp: elf_serve_exec_def keeps_but_def)
next
  case False
  then show ?thesis by (auto simp: elf_serve_exec_def split: option.split)
qed

lemma slice_frame [simp]: "frame (elf_slice env slot a k) = frame k"
proof -
  obtain result status m where run: "run_guest env a (ke_guest env a k) k = ((result, status), m)"
    by (metis prod.collapse)
  have "frame m = frame k"
    using run_guest_keeps [of env a "ke_guest env a k" k] by (intro frame_core) (simp_all add: run)
  moreover have "frame (snd (console_call env (SWriteLine line) s m)) = frame m" for line s
    by (intro frame_core) simp_all
  ultimately show ?thesis
    by (simp add: elf_slice_def run Let_def split: riscv_result.split option.split)
qed

lemma update_returns:
  assumes "returns enter n" and "length (processes k) = KERNEL_PROCESS_CAPACITY" and "free_slots k < n + 1"
  shows "\<exists>k'. elf_update env enter slot k = Some k' \<and> keeps_but {} k k'"
proof -
  define a where "a = ctx_application_data (context_of slot k)"
  note collected = collect_occupancy [of slot a k]
  obtain r m where serve: "elf_serve_exec env enter slot a (elf_collect_status slot a k) = Some (r, m)"
    and m: "keeps_but {} (elf_collect_status slot a k) m"
    using serve_returns [OF assms(1)] length_occupancy [OF collected] free_occupancy [OF collected] assms(2,3) by metis
  have keeps: "keeps_but {} k m" using m collected by (simp add: keeps_but_def)
  have frames: "keeps_but {} k k'" if "frame k' = frame m \<or> frame k' = frame k" for k'
    using that occupancy_frame [of k' m] occupancy_frame [of k' k] keeps by (auto simp: keeps_but_def)
  define failed where "failed = kernel_process_fail slot TERMINATION_FAULT 5 k"
  define exiting where "exiting e = tabos_app_request_exit slot (ea_requested_exit_status e)
    (on_elf a (\<lambda>e. e\<lparr>ea_exit_requested := False\<rparr>) m)" for e :: elf_application
  have "frame (on_elf a f m) = frame m" for f by (intro frame_core) simp_all
  then have ends: "keeps_but {} k failed" "keeps_but {} k (exiting e)" "keeps_but {} k (elf_slice env slot a m)" for e
    by (intro frames; simp add: failed_def exiting_def)+
  show ?thesis
    unfolding elf_update_def a_def [symmetric] Let_def serve failed_def [symmetric]
    using keeps ends by (simp add: exiting_def split: option.split)
qed

lemma release_occupancy: "occupancy (elf_cleanup env slot k) = occupancy k"
  unfolding elf_cleanup_def by (rule occupancy_core) simp

lemma entry_core: "core (snd (elf_entry env slot k)) = core k"
  by (simp add: elf_entry_def Let_def split: option.split load_result.split)

lemma run_callback_cases:
  "run_callback env enter callback slot k =
     (case callback of
        EntryCall code \<Rightarrow> if code = ElfEntry then Some (elf_entry env slot k)
          else run_program env enter (ke_app env callback slot k) k
      | UpdateCall code \<Rightarrow> if code = ElfUpdate then map_option (Pair True) (elf_update env enter slot k)
          else run_program env enter (ke_app env callback slot k) k
      | CleanupCall code status \<Rightarrow> if code = ElfCleanup then Some (True, elf_cleanup env slot k)
          else run_program env enter (ke_app env callback slot k) k)"
  by (cases "(env, enter, callback, slot, k)" rule: run_callback.cases) simp_all

lemma callback_returns:
  assumes "returns enter n" and "length (processes k) = KERNEL_PROCESS_CAPACITY" and "free_slots k < n + 1"
  shows "\<exists>r k'. run_callback env enter callback slot k = Some (r, k') \<and> keeps_but {} k k'"
proof -
  obtain r m where entry: "elf_entry env slot k = (r, m)" by fastforce
  have "occupancy m = occupancy k" using occupancy_core [OF entry_core [of env slot k]] by (simp add: entry)
  then have m: "keeps_but {} k m" by (rule keeps_same)
  have cleanup: "keeps_but {} k (elf_cleanup env slot k)" by (rule keeps_same [OF release_occupancy])
  obtain k' where "elf_update env enter slot k = Some k'" "keeps_but {} k k'" using update_returns [OF assms] by blast
  then show ?thesis
    using program_returns [OF assms, of env "ke_app env callback slot k"] m cleanup
    by (auto simp: run_callback_cases entry split: app_callback.split)
qed

lemma callback_at_returns: "returns (callback_at env depth) depth"
proof (induction depth)
  case 0
  then show ?case by (simp add: returns_def)
next
  case (Suc depth)
  show ?case
    unfolding returns_def
  proof (intro allI impI)
    fix callback slot k
    assume k: "length (processes k) = KERNEL_PROCESS_CAPACITY \<and> free_slots k < Suc depth"
    define m where "m = log_call (Callback callback slot) k"
    have m: "occupancy m = occupancy k" by (simp add: m_def)
    show "\<exists>r k'. callback_at env (Suc depth) callback slot k = Some (r, k') \<and> keeps_but {} k k'"
      using callback_returns [OF Suc, of m env callback slot] k length_occupancy [OF m] free_occupancy [OF m]
      by (simp add: m_def [symmetric] keeps_but_def m)
  qed
qed

lemma runner_returns: "returns (kernel_runner env) CALLBACK_DEPTH"
  by (simp add: kernel_runner_def callback_at_returns)

section \<open>The kernel\<close>

lemma runner_free: "length (processes k) = KERNEL_PROCESS_CAPACITY \<Longrightarrow> free_slots k < CALLBACK_DEPTH"
  using free_bound [of k] by (simp add: KERNEL_PROCESS_CAPACITY_def CALLBACK_DEPTH_def)

lemma destroy_from_returns:
  assumes "length (processes k) = KERNEL_PROCESS_CAPACITY"
  shows "\<exists>k'. destroy_from env (kernel_runner env) n k = Some k' \<and> length (processes k') = KERNEL_PROCESS_CAPACITY"
  using assms
proof (induction n arbitrary: k)
  case (Suc n)
  obtain m where "destroy_process env (kernel_runner env) n k = Some m" and "keeps_but {n} k m"
    using destroy_returns [OF runner_returns Suc.prems runner_free [OF Suc.prems]] by blast
  then show ?case using Suc keeps_length by simp
qed simp

lemma kernel_step_returns:
  assumes length: "length (processes k) = KERNEL_PROCESS_CAPACITY"
  shows "\<exists>k'. kernel_step env operation k = Some k' \<and> length (processes k') = KERNEL_PROCESS_CAPACITY"
proof -
  note runner = runner_returns [of env] length runner_free [OF length]
  have free: "free_slots k < CALLBACK_DEPTH + 1" using runner(3) by simp
  have lift: "\<exists>k'. map_option snd x = Some k' \<and> length (processes k') = KERNEL_PROCESS_CAPACITY"
    if "\<exists>r k'. x = Some (r, k') \<and> keeps_but {} k k'" for x :: "(app_result \<times> kernel) option"
    using that keeps_length length by fastforce
  show ?thesis
  proof (cases operation)
    case OpUpdate
    show ?thesis
    proof (cases "foreground_process k")
      case (Some slot)
      define update where "update = (case app_update (the (ctx_descriptor (context_of slot k))) of
        None \<Rightarrow> Some k
      | Some code \<Rightarrow>
          if p_state (processes k ! slot) = TABOS_PROCESS_RUNNING \<and> \<not> ctx_exit_requested (context_of slot k)
          then map_option snd (kernel_runner env (UpdateCall code) slot k) else Some k)"
      obtain m where m: "update = Some m" "length (processes m) = KERNEL_PROCESS_CAPACITY"
      proof (cases "app_update (the (ctx_descriptor (context_of slot k)))")
        case (Some code)
        obtain r k' where "kernel_runner env (UpdateCall code) slot k = Some (r, k')" "keeps_but {} k k'"
          using returnsD [OF runner] .
        then have "\<exists>m. update = Some m \<and> length (processes m) = KERNEL_PROCESS_CAPACITY"
          using Some length by (simp add: update_def keeps_length)
        then show ?thesis using that by blast
      qed (use that length in \<open>simp add: update_def\<close>)
      have "\<exists>k'. finish_child_process env (kernel_runner env) child m = Some k' \<and>
          length (processes k') = KERNEL_PROCESS_CAPACITY" for child
        using finish_returns [OF runner_returns m(2) runner_free [OF m(2)]] keeps_length m(2) by metis
      moreover have "length (processes (panic_root_process env f m)) = KERNEL_PROCESS_CAPACITY" for f
        using length_occupancy [OF occupancy_panic] m(2) by metis
      ultimately show ?thesis
        unfolding OpUpdate kernel_step.simps kernel_application_system_update_def Some option.case update_def [symmetric]
        by (simp add: m split: option.split)
    qed (simp add: OpUpdate kernel_application_system_update_def length)
  next
    case (OpLaunch name)
    have "\<exists>r k'. tabos_app_launch env (kernel_runner env) name k = Some (r, k') \<and> keeps_but {} k k'"
      using launch_root_returns [OF runner(1) length free] by (simp add: tabos_app_launch_def split: option.split)
    then show ?thesis using lift OpLaunch by simp
  next
    case (OpLaunchPath path)
    then show ?thesis using lift [OF launch_path_returns [OF runner(1) length free]]
      by (simp add: tabos_app_launch_path_def)
  next
    case OpShutdown
    have "length (processes (set_pointer_owner 0 k)) = KERNEL_PROCESS_CAPACITY" by (simp add: set_pointer_owner_def length)
    then show ?thesis using destroy_from_returns [of "set_pointer_owner 0 k" env KERNEL_PROCESS_CAPACITY] OpShutdown
      by (auto simp: kernel_application_system_shutdown_def)
  next
    case (OpForceTerminate process status)
    then show ?thesis
      using length_occupancy [OF occupancy_frame [OF force_frame [of process status k]]] length by simp
  next
    case (OpGuest a program)
    then show ?thesis
      using core_fields(1) [OF run_guest_keeps(1) [of env a program k]] length by simp
  qed (use length in simp_all)
qed

lemma kernel_run_returns:
  "length (processes k) = KERNEL_PROCESS_CAPACITY \<Longrightarrow> \<exists>k'. kernel_run env operations k = Some k'"
proof (induction operations arbitrary: k)
  case (Cons operation rest)
  obtain m where "kernel_step env operation k = Some m" "length (processes m) = KERNEL_PROCESS_CAPACITY"
    using kernel_step_returns [OF Cons.prems] by blast
  then show ?case using Cons.IH by simp
qed simp

text \<open>
  C4. Every operation of the process service returns, in every state that can follow the start of the
  system and for every behaviour of the applications: callbacks may launch applications whose own
  callbacks launch further ones, from entry, update and clean-up code alike, and 17 levels of nesting
  are always enough, because each level below the first occupies a process slot of its own. (A
  callback by itself is a finite program.)
\<close>

theorem process_calls_return:
  "\<exists>k'. kernel_run env operations (kernel_application_system_init k) = Some k'"
  by (rule kernel_run_returns) (simp add: kernel_application_system_init_def)

end
