(* ===== verification/ConsoleSession.thy ===== *)
theory ConsoleSession
  imports Console
begin

text \<open>
  The interface through which processes share the console: a resource with at most one holder, named by
  a token that is not zero. The clients of the interface prove their hand-over from its laws; the
  console of \<^verbatim>\<open>src/console/console.c\<close> provides it.
\<close>

locale exclusive_session =
  fixes holder :: "'s \<Rightarrow> u32"
    and acquire :: "u32 \<Rightarrow> 's \<Rightarrow> bool \<times> u32 \<times> 's"
    and release :: "u32 \<Rightarrow> 's \<Rightarrow> u32 \<times> 's"
  assumes acquired: "acquire token s = (True, token', s') \<Longrightarrow> holder s = 0 \<and> token' \<noteq> 0 \<and> holder s' = token'"
    and refused: "acquire token s = (False, token', s') \<Longrightarrow> token' = 0 \<and> holder s' = holder s"
    and released: "release token s = (token', s') \<Longrightarrow>
      token' = 0 \<and> holder s' = (if token \<noteq> 0 \<and> token = holder s then 0 else holder s)"
begin

text \<open>While somebody holds the resource, nobody else gets it; a client that gives it up frees it.\<close>

lemma held: "holder s \<noteq> 0 \<Longrightarrow> acquire token s = (r, token', s') \<Longrightarrow> \<not> r \<and> holder s' = holder s"
  using acquired [of token s token' s'] refused [of token s token' s'] by (cases r) auto

lemma give_up: "release (holder s) s = (token', s') \<Longrightarrow> token' = 0 \<and> holder s' = 0"
  using released [of "holder s" s token' s'] by auto

lemma acquire_free:
  assumes "holder s = 0" and "acquire token s = (r, token', s')"
  shows "holder s' = token'" and "r \<longleftrightarrow> token' \<noteq> 0"
  using acquired [of token s token' s'] refused [of token s token' s'] assms by (cases r; simp)+

lemma hand_over:
  assumes "release (holder s) s = (token, m)" and "acquire other m = (r, token', s')"
  shows "holder s' = token'" and "r \<longleftrightarrow> token' \<noteq> 0"
  using acquire_free [OF conjunct2 [OF give_up [OF assms(1)]] assms(2)] by auto

end

text \<open>The console's operations on a session that exists.\<close>

definition session_acquire ::
    "font_table \<Rightarrow> u64 \<Rightarrow> bool \<Rightarrow> u32 \<Rightarrow> console_state \<Rightarrow> bool \<times> u32 \<times> console_state" where
  "session_acquire font now presented token st =
     (case tabos_console_acquire font now presented (Some token) st of (r, session, st) \<Rightarrow> (r, the session, st))"

definition session_give_up :: "font_table \<Rightarrow> bool \<Rightarrow> u32 \<Rightarrow> console_state \<Rightarrow> u32 \<times> console_state" where
  "session_give_up font presented token st =
     (case tabos_console_release font presented (Some token) st of (session, st) \<Rightarrow> (the session, st))"

interpretation session: exclusive_session c_foreground_token "session_acquire font now presented"
    "session_give_up font presented" for font now presented
proof
  fix token st token' st'
  show "c_foreground_token st = 0 \<and> token' \<noteq> 0 \<and> c_foreground_token st' = token'"
    if "session_acquire font now presented token st = (True, token', st')"
    using that acquire_token [of font now presented "Some token" st]
    by (auto simp: session_acquire_def split: prod.splits)
  show "token' = 0 \<and> c_foreground_token st' = c_foreground_token st"
    if "session_acquire font now presented token st = (False, token', st')"
    using that acquire_token [of font now presented "Some token" st]
    by (auto simp: session_acquire_def split: prod.splits)
  show "token' = 0 \<and> c_foreground_token st' =
      (if token \<noteq> 0 \<and> token = c_foreground_token st then 0 else c_foreground_token st)"
    if "session_give_up font presented token st = (token', st')"
    using that release_token [of font presented "Some token" st]
    by (auto simp: session_give_up_def owns_console_def split: prod.splits)
qed

end
