(* ===== verification/ProcessChain.thy ===== *)
theory ProcessChain
  imports ProcessReturn ConsoleSession
begin

text \<open>
  The invariant of the process service. The occupied slots form a chain: the foreground stack lists their
  identifiers, each process is the parent of the next, all but the last wait for their child, and only
  the last may hold the console and receive the pointer. Every ELF object belongs to exactly one process.
  Launching appends to the chain, finishing drops its last element. The table is read by columns.
\<close>

section \<open>Columns of the process table\<close>

definition column :: "(kernel_process \<Rightarrow> 'a) \<Rightarrow> kernel \<Rightarrow> 'a list" where
  "column f k = map f (processes k)"

definition data_of :: "kernel_process \<Rightarrow> nat" where "data_of p = ctx_application_data (p_context p)"
definition session_of :: "kernel_process \<Rightarrow> u32" where "session_of p = ctx_console (p_context p)"
definition owned_of :: "kernel_process \<Rightarrow> bool" where "owned_of p = ctx_console_owned (p_context p)"
definition descriptor_of :: "kernel_process \<Rightarrow> app_descriptor option" where
  "descriptor_of p = ctx_descriptor (p_context p)"

lemmas column_parts = data_of_def session_of_def owned_of_def descriptor_of_def

lemma length_column [simp]: "length (column f k) = length (processes k)"
  by (simp add: column_def)

lemma column_nth: "i < length (processes k) \<Longrightarrow> column f k ! i = f (processes k ! i)"
  by (simp add: column_def)

lemma column_self [simp]: "(column f k)[i := f (processes k ! i)] = column f k"
  by (cases "i < length (processes k)") (simp_all add: column_def list_update_same_conv list_update_beyond)

lemma column_process [simp]:
  "column f (on_process slot h k) = (column f k)[slot := f (h (processes k ! slot))]"
  by (simp add: column_def map_update)

lemma column_context [simp]:
  "column f (on_context slot g k) = (column f k)[slot := f ((processes k ! slot)\<lparr>p_context := g (p_context (processes k ! slot))\<rparr>)]"
  by (simp add: column_def map_update)

lemma column_log [simp]: "column f (log_call c k) = column f k"
  by (simp add: column_def)

lemma column_fields [simp]:
  "column f (k\<lparr>k_console := c\<rparr>) = column f k" "column f (k\<lparr>k_pointer := p\<rparr>) = column f k"
  "column f (k\<lparr>foreground_process := fg\<rparr>) = column f k" "column f (k\<lparr>foreground_depth := d\<rparr>) = column f k"
  "column f (k\<lparr>foreground_stack := st\<rparr>) = column f k" "column f (k\<lparr>next_process_id := n\<rparr>) = column f k"
  "column f (k\<lparr>launched := m\<rparr>) = column f k" "column f (k\<lparr>last_exit_status := s\<rparr>) = column f k"
  "column f (k\<lparr>last_exit_valid := v\<rparr>) = column f k" "column f (k\<lparr>k_elf := e\<rparr>) = column f k"
  "column f (k\<lparr>applications := as\<rparr>) = column f k"
  by (simp_all add: column_def)

lemma column_core: "core k' = core k \<Longrightarrow> column f k' = column f k"
  by (simp add: column_def core_def)

text \<open>The frame without the owner of the pointer, which a release may take away.\<close>

definition table_frame :: "kernel \<Rightarrow> _" where
  "table_frame k = (map process_frame (processes k), foreground_stack k, foreground_depth k, next_process_id k,
     foreground_process k, launched k, services k)"

lemma frame_table: "frame k' = frame k \<longleftrightarrow> table_frame k' = table_frame k \<and> pointer_owner k' = pointer_owner k"
  by (auto simp: frame_def table_frame_def)

lemma table_core: "core k' = core k \<Longrightarrow> services k' = services k \<Longrightarrow> table_frame k' = table_frame k"
  by (simp add: table_frame_def core_def)

lemma table_fields:
  assumes "table_frame k' = table_frame k"
  shows "length (processes k') = length (processes k)" "foreground_stack k' = foreground_stack k"
    "foreground_depth k' = foreground_depth k" "next_process_id k' = next_process_id k"
    "foreground_process k' = foreground_process k" "launched k' = launched k"
    "dom (k_elf k') = dom (k_elf k)" "c_foreground_token (k_console k') = c_foreground_token (k_console k)"
    "pointer_initialized (k_pointer k') = pointer_initialized (k_pointer k)"
proof -
  have "map process_frame (processes k') = map process_frame (processes k)" using assms by (simp add: table_frame_def)
  then show "length (processes k') = length (processes k)" by (rule map_eq_imp_length_eq)
qed (use assms in \<open>simp_all add: table_frame_def services_def\<close>)

lemma column_table:
  assumes "table_frame k' = table_frame k"
  shows "column p_occupied k' = column p_occupied k" "column p_id k' = column p_id k"
    "column p_parent_id k' = column p_parent_id k" "column p_state k' = column p_state k"
    "column p_elf_destroy k' = column p_elf_destroy k" "column descriptor_of k' = column descriptor_of k"
    "column session_of k' = column session_of k" "column owned_of k' = column owned_of k"
    "column data_of k' = column data_of k"
proof -
  have all: "column f k' = column f k" if "\<And>p q. process_frame p = process_frame q \<Longrightarrow> f p = f q" for f :: "kernel_process \<Rightarrow> 'c"
  proof (rule nth_equalityI)
    note lengths = table_fields(1) [OF assms]
    show "length (column f k') = length (column f k)" using lengths by simp
    fix i assume "i < length (column f k')"
    then have i: "i < length (processes k)" using lengths by simp
    have "map process_frame (processes k') ! i = map process_frame (processes k) ! i"
      using assms by (simp add: table_frame_def)
    then have "process_frame (processes k' ! i) = process_frame (processes k ! i)" using i lengths by simp
    from that [OF this] show "column f k' ! i = column f k ! i" using i lengths by (simp add: column_nth)
  qed
  show "column p_occupied k' = column p_occupied k" "column p_id k' = column p_id k"
    "column p_parent_id k' = column p_parent_id k" "column p_state k' = column p_state k"
    "column p_elf_destroy k' = column p_elf_destroy k" "column descriptor_of k' = column descriptor_of k"
    "column session_of k' = column session_of k" "column owned_of k' = column owned_of k"
    "column data_of k' = column data_of k"
    by (rule all, simp add: column_parts process_frame_def)+
qed

section \<open>The chain\<close>

definition stack_ids :: "kernel \<Rightarrow> u32 list" where
  "stack_ids k = take (foreground_depth k) (foreground_stack k)"

text \<open>
  \<open>linked\<close>: the chain is what the table and the stack say. Identifiers grow along it and are smaller than
  the next one.
\<close>

definition linked :: "nat list \<Rightarrow> kernel \<Rightarrow> bool" where
  "linked chain k \<longleftrightarrow>
     length (processes k) = KERNEL_PROCESS_CAPACITY \<and> length (foreground_stack k) = KERNEL_PROCESS_CAPACITY \<and>
     foreground_depth k = length chain \<and> distinct chain \<and>
     set chain = {i. i < KERNEL_PROCESS_CAPACITY \<and> column p_occupied k ! i} \<and>
     map ((!) (column p_id k)) chain = stack_ids k \<and>
     map ((!) (column p_parent_id k)) chain = butlast (TABOS_PROCESS_ID_INVALID # stack_ids k) \<and>
     sorted_wrt (<) (stack_ids k) \<and> (chain \<noteq> [] \<longrightarrow> hd (stack_ids k) = 0) \<and>
     (\<forall>process \<in> set (stack_ids k). process < next_process_id k) \<and>
     unat (next_process_id k) \<le> launched k \<and>
     (\<forall>i \<in> set chain. column descriptor_of k ! i \<noteq> None)"

text \<open>\<open>owning\<close>: every ELF object belongs to one process, apart from \<open>pending\<close> ones about to be attached.\<close>

definition elf_slots :: "nat list \<Rightarrow> kernel \<Rightarrow> nat set" where
  "elf_slots chain k = {i \<in> set chain. column p_elf_destroy k ! i}"

definition owning :: "nat set \<Rightarrow> nat list \<Rightarrow> kernel \<Rightarrow> bool" where
  "owning pending chain k \<longleftrightarrow>
     (\<forall>i \<in> set chain. column p_elf_destroy k ! i \<longleftrightarrow> column data_of k ! i \<noteq> 0) \<and>
     inj_on ((!) (column data_of k)) (elf_slots chain k) \<and> 0 \<notin> pending \<and>
     pending \<inter> (!) (column data_of k) ` elf_slots chain k = {} \<and>
     dom (k_elf k) = pending \<union> (!) (column data_of k) ` elf_slots chain k"

text \<open>\<open>seated\<close>: the last process is in the foreground with the console and the pointer, the others wait.\<close>

definition seated :: "nat list \<Rightarrow> kernel \<Rightarrow> bool" where
  "seated chain k \<longleftrightarrow>
     foreground_process k = (if chain = [] then None else Some (last chain)) \<and>
     (\<forall>i \<in> set (butlast chain). column p_state k ! i = TABOS_PROCESS_BLOCKED \<and> \<not> column owned_of k ! i) \<and>
     (chain \<noteq> [] \<longrightarrow> column p_state k ! last chain \<noteq> TABOS_PROCESS_BLOCKED \<and>
        (column p_state k ! last chain = TABOS_PROCESS_PANICKED \<longrightarrow> length chain = 1) \<and>
        (column owned_of k ! last chain \<longrightarrow> column session_of k ! last chain \<noteq> 0)) \<and>
     c_foreground_token (k_console k) =
       (if chain \<noteq> [] \<and> column owned_of k ! last chain then column session_of k ! last chain else 0) \<and>
     (pointer_initialized (k_pointer k) \<longrightarrow>
        pointer_owner k = (if chain = [] then 0 else column data_of k ! last chain))"

definition represents :: "nat set \<Rightarrow> nat list \<Rightarrow> kernel \<Rightarrow> bool" where
  "represents pending chain k \<longleftrightarrow> linked chain k \<and> owning pending chain k \<and> seated chain k"

lemma represents_table:
  assumes "table_frame k' = table_frame k"
  shows "linked chain k' = linked chain k" and "owning pending chain k' = owning pending chain k"
  using column_table [OF assms] table_fields [OF assms]
  by (simp_all add: linked_def stack_ids_def owning_def elf_slots_def)

lemma represents_frame:
  assumes "frame k' = frame k"
  shows "seated chain k' = seated chain k" and "represents pending chain k' = represents pending chain k"
proof -
  have table: "table_frame k' = table_frame k" and owner: "pointer_owner k' = pointer_owner k"
    using assms by (simp_all add: frame_table)
  show "seated chain k' = seated chain k"
    unfolding seated_def column_table [OF table] table_fields [OF table] owner ..
  then show "represents pending chain k' = represents pending chain k"
    by (simp add: represents_def represents_table [OF table])
qed

lemma linkedD:
  assumes "linked chain k"
  shows "length (processes k) = KERNEL_PROCESS_CAPACITY" "length (foreground_stack k) = KERNEL_PROCESS_CAPACITY"
    "foreground_depth k = length chain" "distinct chain"
    "set chain = {i. i < KERNEL_PROCESS_CAPACITY \<and> column p_occupied k ! i}"
    "map ((!) (column p_id k)) chain = stack_ids k"
    "map ((!) (column p_parent_id k)) chain = butlast (TABOS_PROCESS_ID_INVALID # stack_ids k)"
    "sorted_wrt (<) (stack_ids k)" "chain \<noteq> [] \<Longrightarrow> hd (stack_ids k) = 0"
    "\<forall>process \<in> set (stack_ids k). process < next_process_id k" "unat (next_process_id k) \<le> launched k"
    "\<forall>i \<in> set chain. column descriptor_of k ! i \<noteq> None"
  using assms unfolding linked_def by blast+

lemma linked_slot: "linked chain k \<Longrightarrow> i \<in> set chain \<Longrightarrow> i < length (processes k)"
  by (auto simp: linked_def)

lemma linked_free:
  assumes "linked chain k" and "free_process_slot k = Some slot"
  shows "slot < length (processes k)" and "slot \<notin> set chain"
proof -
  note free = free_slot_found [OF assms(2)]
  have "length (processes k) = KERNEL_PROCESS_CAPACITY" using assms(1) by (simp add: linked_def)
  then show "slot < length (processes k)" using free by simp
  then show "slot \<notin> set chain" using assms(1) free by (auto simp: linked_def column_nth)
qed

lemma stack_ids_length: "linked chain k \<Longrightarrow> length (stack_ids k) = length chain"
  by (metis length_map linked_def)

lemma linked_length: "linked chain k \<Longrightarrow> length chain \<le> KERNEL_PROCESS_CAPACITY"
proof -
  assume "linked chain k"
  then have "length (stack_ids k) = length chain" and "length (foreground_stack k) = KERNEL_PROCESS_CAPACITY"
    by (simp_all add: stack_ids_length) (simp add: linked_def)
  then show ?thesis using length_take [of "foreground_depth k" "foreground_stack k"] by (simp add: stack_ids_def)
qed

section \<open>Appending and dropping\<close>

lemma map_nth_update: "c \<notin> set chain \<Longrightarrow> map ((!) (xs[c := v])) chain = map ((!) xs) chain"
  by (rule map_cong [OF refl]) (metis nth_list_update_neq)

lemma linked_push:
  assumes linked: "linked chain k" and slot: "c < length (processes k)" "c \<notin> set chain"
    and room: "length chain < KERNEL_PROCESS_CAPACITY"
    and columns: "column p_occupied m = (column p_occupied k)[c := True]"
      "column p_id m = (column p_id k)[c := new]"
      "column p_parent_id m = (column p_parent_id k)[c := last (TABOS_PROCESS_ID_INVALID # stack_ids k)]"
      "column descriptor_of m = (column descriptor_of k)[c := Some d]"
    and stack: "foreground_stack m = (foreground_stack k)[length chain := new]"
      "foreground_depth m = length chain + 1"
    and ids: "chain = [] \<Longrightarrow> new = 0" "\<forall>process \<in> set (stack_ids k). process < new" "new < next_process_id m"
    and count: "unat (next_process_id m) \<le> launched m"
  shows "linked (chain @ [c]) m"
proof -
  have lengths: "length (processes m) = length (processes k)"
    using arg_cong [OF columns(1), of length] by simp
  note depth = linkedD(3,2) [OF linked]
  have shown: "stack_ids m = stack_ids k @ [new]"
    using room depth by (simp add: stack_ids_def stack take_Suc_conv_app_nth)
  have used: "column p_occupied m ! i = (i = c \<or> column p_occupied k ! i)" if "i < KERNEL_PROCESS_CAPACITY" for i
    using that slot linkedD(1) [OF linked] by (auto simp: columns nth_list_update)
  show ?thesis
    unfolding linked_def
  proof (intro conjI)
    show "set (chain @ [c]) = {i. i < KERNEL_PROCESS_CAPACITY \<and> column p_occupied m ! i}"
      using linkedD(1,5) [OF linked] slot used by auto
    have "map ((!) (column p_id m)) chain = stack_ids k"
      unfolding columns map_nth_update [OF slot(2)] using linkedD(6) [OF linked] .
    then show "map ((!) (column p_id m)) (chain @ [c]) = stack_ids m"
      using slot by (simp add: columns shown)
    show "map ((!) (column p_parent_id m)) (chain @ [c]) = butlast (TABOS_PROCESS_ID_INVALID # stack_ids m)"
    proof -
      have "map ((!) (column p_parent_id m)) chain = butlast (TABOS_PROCESS_ID_INVALID # stack_ids k)"
        unfolding columns map_nth_update [OF slot(2)] using linkedD(7) [OF linked] .
      moreover have "column p_parent_id m ! c = last (TABOS_PROCESS_ID_INVALID # stack_ids k)"
        using slot by (simp add: columns)
      moreover have "butlast (TABOS_PROCESS_ID_INVALID # stack_ids m) = TABOS_PROCESS_ID_INVALID # stack_ids k"
        by (simp add: shown butlast_append)
      ultimately show ?thesis
        using append_butlast_last_id [of "TABOS_PROCESS_ID_INVALID # stack_ids k"] by simp
    qed
    show "sorted_wrt (<) (stack_ids m)" using linkedD(8) [OF linked] ids(2) by (simp add: shown sorted_wrt_append)
    show "chain @ [c] \<noteq> [] \<longrightarrow> hd (stack_ids m) = 0"
    proof (cases "chain = []")
      case True
      then have "stack_ids k = []" using stack_ids_length [OF linked] by simp
      then show ?thesis using ids(1) [OF True] by (simp add: shown)
    next
      case False
      then have "stack_ids k \<noteq> []" using stack_ids_length [OF linked] by auto
      then show ?thesis using linkedD(9) [OF linked] False by (simp add: shown)
    qed
    show "\<forall>process \<in> set (stack_ids m). process < next_process_id m"
      using ids(2,3) by (auto simp: shown)
    show "\<forall>i \<in> set (chain @ [c]). column descriptor_of m ! i \<noteq> None"
      using linkedD(12) [OF linked] slot by (auto simp: columns nth_list_update)
  qed (use linkedD(1-4) [OF linked] slot stack count lengths in simp_all)
qed

lemma linked_pop:
  assumes linked: "linked (chain @ [c]) k"
    and columns: "column p_occupied m = (column p_occupied k)[c := False]" "column p_id m = (column p_id k)[c := a]"
      "column p_parent_id m = (column p_parent_id k)[c := b]" "column descriptor_of m = (column descriptor_of k)[c := d]"
    and same: "foreground_stack m = foreground_stack k" "foreground_depth m = length chain"
      "next_process_id m = next_process_id k" "launched m = launched k"
  shows "linked chain m"
proof -
  have lengths: "length (processes m) = length (processes k)"
    using arg_cong [OF columns(1), of length] by simp
  note facts = linkedD [OF linked]
  have slot: "c \<notin> set chain" "c < length (processes k)"
    using facts(1,4,5) by auto
  have depth: "foreground_depth k = Suc (length chain)" using facts(3) by simp
  have "length chain < length (foreground_stack k)"
    using linked_length [OF linked] facts(2) by simp
  then have split: "stack_ids k = stack_ids m @ [column p_id k ! c]"
    using facts(6) by (simp add: stack_ids_def same depth take_Suc_conv_app_nth)
  show ?thesis
    unfolding linked_def
  proof (intro conjI)
    have "column p_occupied m ! i = (i \<noteq> c \<and> column p_occupied k ! i)" if "i < KERNEL_PROCESS_CAPACITY" for i
      using that slot facts(1) by (auto simp: columns nth_list_update)
    then show "set chain = {i. i < KERNEL_PROCESS_CAPACITY \<and> column p_occupied m ! i}"
      using slot facts(5) by auto
    show "map ((!) (column p_id m)) chain = stack_ids m"
      using facts(6) unfolding columns map_nth_update [OF slot(1)] by (simp add: split)
    have "map ((!) (column p_parent_id k)) (chain @ [c]) = TABOS_PROCESS_ID_INVALID # stack_ids m"
      using facts(7) by (simp add: split butlast_append)
    then have "map ((!) (column p_parent_id k)) chain = butlast (TABOS_PROCESS_ID_INVALID # stack_ids m)"
      by (metis butlast_snoc list.map(1,2) map_append)
    then show "map ((!) (column p_parent_id m)) chain = butlast (TABOS_PROCESS_ID_INVALID # stack_ids m)"
      unfolding columns map_nth_update [OF slot(1)] .
    show "sorted_wrt (<) (stack_ids m)" using facts(8) by (simp add: split sorted_wrt_append)
    show "chain \<noteq> [] \<longrightarrow> hd (stack_ids m) = 0"
    proof
      assume "chain \<noteq> []"
      then have "stack_ids m \<noteq> []" using stack_ids_length [OF linked] split by auto
      then show "hd (stack_ids m) = 0" using facts(9) by (simp add: split)
    qed
    show "\<forall>process \<in> set (stack_ids m). process < next_process_id m" using facts(10) by (simp add: split same)
    show "\<forall>i \<in> set chain. column descriptor_of m ! i \<noteq> None"
      using facts(12) slot by (auto simp: columns nth_list_update)
  qed (use facts slot same lengths in simp_all)
qed

text \<open>The identifier on the stack finds its process, because identifiers differ.\<close>

lemma linked_find:
  assumes linked: "linked chain k" and "chain \<noteq> []"
  shows "find_process (foreground_stack k ! (foreground_depth k - 1)) k = Some (last chain)"
proof -
  have lengths: "length (stack_ids k) = length chain" using stack_ids_length [OF linked] .
  note facts = linkedD [OF linked]
  note depth = facts(3)
  have ids: "column p_id k ! (chain ! j) = stack_ids k ! j" if "j < length chain" for j
    using facts(6) that by (metis nth_map)
  define process where "process = foreground_stack k ! (foreground_depth k - 1)"
  have top: "process = stack_ids k ! (length chain - 1)"
    using assms(2) by (simp add: stack_ids_def depth process_def)
  have dist: "distinct (stack_ids k)"
    using facts(8) by (simp add: strict_sorted_iff)
  have only: "i = last chain" if "i < KERNEL_PROCESS_CAPACITY" "p_occupied (processes k ! i)" "p_id (processes k ! i) = process" for i
  proof -
    have bound: "i < length (processes k)" using that(1) facts(1) by simp
    then have "i \<in> set chain" using that facts(5) by (simp add: column_nth)
    then obtain j where j: "j < length chain" "chain ! j = i" by (auto simp: in_set_conv_nth)
    then have "stack_ids k ! j = stack_ids k ! (length chain - 1)" using ids [OF j(1)] that bound top by (simp add: column_nth)
    then have "j = length chain - 1" using dist j(1) lengths by (simp add: nth_eq_iff_index_eq)
    then show ?thesis using j assms(2) by (simp add: last_conv_nth)
  qed
  have "last chain \<in> set chain" using assms(2) by simp
  then have bound: "last chain < KERNEL_PROCESS_CAPACITY" "last chain < length (processes k)"
    using facts(1,5) by auto
  moreover have "p_occupied (processes k ! last chain)"
    using \<open>last chain \<in> set chain\<close> facts(5) bound by (auto simp: column_nth)
  moreover have "p_id (processes k ! last chain) = process"
    using ids [of "length chain - 1"] assms(2) bound by (simp add: top last_conv_nth column_nth)
  ultimately show ?thesis
    unfolding find_process_def process_def [symmetric]
  proof -
    assume a: "last chain < KERNEL_PROCESS_CAPACITY" "p_occupied (processes k ! last chain)"
      "p_id (processes k ! last chain) = process"
    define P where "P i \<longleftrightarrow> p_occupied (processes k ! i) \<and> p_id (processes k ! i) = process" for i
    have "List.find P [0..<KERNEL_PROCESS_CAPACITY] \<noteq> None"
      using a by (auto simp: find_None_iff P_def)
    then obtain i where i: "List.find P [0..<KERNEL_PROCESS_CAPACITY] = Some i" by auto
    then have "i < KERNEL_PROCESS_CAPACITY" "P i" by (auto simp: find_Some_iff)
    then show "List.find P [0..<KERNEL_PROCESS_CAPACITY] = Some (last chain)" using i only by (simp add: P_def)
  qed
qed

lemma elf_slots_push:
  assumes "c \<notin> set chain" and "c < length (column p_elf_destroy k)"
    and "column p_elf_destroy m = (column p_elf_destroy k)[c := elf]"
  shows "elf_slots (chain @ [c]) m = elf_slots chain k \<union> (if elf then {c} else {})"
  using assms by (auto simp: elf_slots_def nth_list_update)

lemma owning_push:
  assumes owning: "owning (if elf then {data} else {}) chain k"
    and slot: "c < length (processes k)" "c \<notin> set chain"
    and columns: "column p_elf_destroy m = (column p_elf_destroy k)[c := elf]" "column data_of m = (column data_of k)[c := data]"
    and same: "dom (k_elf m) = dom (k_elf k)" and elf: "elf \<longleftrightarrow> data \<noteq> 0"
  shows "owning {} (chain @ [c]) m"
proof -
  have slots: "elf_slots (chain @ [c]) m = elf_slots chain k \<union> (if elf then {c} else {})"
    using elf_slots_push [OF slot(2) _ columns(1)] slot(1) by simp
  have old: "column data_of m ! i = column data_of k ! i" if "i \<in> set chain" for i
    using that slot by (auto simp: columns nth_list_update)
  have new: "column data_of m ! c = data" using slot by (simp add: columns)
  have inside: "elf_slots chain k \<subseteq> set chain" by (auto simp: elf_slots_def)
  have image: "(!) (column data_of m) ` elf_slots chain k = (!) (column data_of k) ` elf_slots chain k"
    using old inside by (intro image_cong) auto
  have inj: "inj_on ((!) (column data_of m)) (elf_slots chain k)"
    using owning old inside by (auto simp: owning_def inj_on_def subset_iff)
  show ?thesis
    unfolding owning_def
  proof (intro conjI)
    show "\<forall>i \<in> set (chain @ [c]). column p_elf_destroy m ! i \<longleftrightarrow> column data_of m ! i \<noteq> 0"
      using owning old new elf slot by (auto simp: owning_def columns(1) nth_list_update)
    show "inj_on ((!) (column data_of m)) (elf_slots (chain @ [c]) m)"
      using inj owning image new unfolding slots owning_def by (cases elf) (auto simp: inj_on_insert)
    show "dom (k_elf m) = {} \<union> (!) (column data_of m) ` elf_slots (chain @ [c]) m"
      using owning image new unfolding slots owning_def same by (cases elf) simp_all
  qed simp_all
qed

lemma owning_pop:
  assumes owning: "owning {} (chain @ [c]) k" and slot: "c < length (processes k)" "c \<notin> set chain"
    and columns: "column p_elf_destroy m = (column p_elf_destroy k)[c := False]" "column data_of m = (column data_of k)[c := d]"
    and less: "dom (k_elf m) = dom (k_elf k) - (if column p_elf_destroy k ! c then {column data_of k ! c} else {})"
  shows "owning {} chain m"
proof -
  have same: "column p_elf_destroy m ! i = column p_elf_destroy k ! i" "column data_of m ! i = column data_of k ! i"
    if "i \<in> set chain" for i
    using that slot by (auto simp: columns nth_list_update)
  have slots: "elf_slots chain m = elf_slots chain k" using same by (auto simp: elf_slots_def)
  have before: "elf_slots (chain @ [c]) k = elf_slots chain k \<union> (if column p_elf_destroy k ! c then {c} else {})"
    by (auto simp: elf_slots_def)
  have inside: "elf_slots chain k \<subseteq> set chain" by (auto simp: elf_slots_def)
  have image: "(!) (column data_of m) ` elf_slots chain k = (!) (column data_of k) ` elf_slots chain k"
    using same inside by (intro image_cong) auto
  have inj: "inj_on ((!) (column data_of k)) (elf_slots (chain @ [c]) k)" using owning by (simp add: owning_def)
  have fresh: "column data_of k ! c \<notin> (!) (column data_of k) ` elf_slots chain k" if "column p_elf_destroy k ! c"
    using inj that inside slot unfolding before by (auto simp: inj_on_insert)
  show ?thesis
    unfolding owning_def
  proof (intro conjI)
    show "\<forall>i \<in> set chain. column p_elf_destroy m ! i \<longleftrightarrow> column data_of m ! i \<noteq> 0"
      using owning same by (simp add: owning_def)
    show "inj_on ((!) (column data_of m)) (elf_slots chain m)"
      using inj same inside unfolding slots before by (auto simp: inj_on_def subset_iff)
    show "dom (k_elf m) = {} \<union> (!) (column data_of m) ` elf_slots chain m"
      using owning image fresh unfolding slots less owning_def before by (cases "column p_elf_destroy k ! c") auto
  qed simp_all
qed

section \<open>What the helpers do\<close>

lemma session_release_cases:
  obtains console where
    "session_release env slot k = (on_context slot (\<lambda>c. c\<lparr>ctx_console := 0\<rparr>) k)\<lparr>k_console := console\<rparr>"
    and "c_foreground_token console =
      (if ctx_console (context_of slot k) \<noteq> 0 \<and> ctx_console (context_of slot k) = c_foreground_token (k_console k)
       then 0 else c_foreground_token (k_console k))"
proof -
  obtain token console where release: "session_give_up (ke_font env) (ke_presented env k) (ctx_console (context_of slot k)) (k_console k)
      = (token, console)" by fastforce
  then have "session_release env slot k = (on_context slot (\<lambda>c. c\<lparr>ctx_console := token\<rparr>) k)\<lparr>k_console := console\<rparr>"
    by (auto simp: session_release_def session_give_up_def split: prod.splits)
  then show ?thesis using session.released [OF release] that by auto
qed

lemma acquire_cases:
  assumes "acquire_process_console env slot k = (acquired, m)"
  obtains (none) "app_capabilities (the (ctx_descriptor (context_of slot k))) AND TABOS_APP_CAPABILITY_CONSOLE = 0"
      "acquired" "m = k"
  | (granted) console token where "acquired" "c_foreground_token (k_console k) = 0" "token \<noteq> 0"
      "c_foreground_token console = token"
      "m = (on_context slot (\<lambda>c. c\<lparr>ctx_console := token, ctx_console_owned := True\<rparr>) k)\<lparr>k_console := console\<rparr>"
  | (refused) console where "\<not> acquired" "c_foreground_token console = c_foreground_token (k_console k)"
      "m = (on_context slot (\<lambda>c. c\<lparr>ctx_console := 0\<rparr>) k)\<lparr>k_console := console\<rparr>"
proof (cases "app_capabilities (the (ctx_descriptor (context_of slot k))) AND TABOS_APP_CAPABILITY_CONSOLE = 0")
  case True
  then show ?thesis using none assms by (simp add: acquire_process_console_def)
next
  case False
  obtain r token console where acquire: "session_acquire (ke_font env) (ke_now env k) (ke_presented env k)
      (ctx_console (context_of slot k)) (k_console k) = (r, token, console)" by (metis prod_cases3)
  have again: "on_context slot (\<lambda>c. c\<lparr>ctx_console_owned := True\<rparr>)
      ((on_context slot (\<lambda>c. c\<lparr>ctx_console := token\<rparr>) k)\<lparr>k_console := console\<rparr>) =
      (on_context slot (\<lambda>c. c\<lparr>ctx_console := token, ctx_console_owned := True\<rparr>) k)\<lparr>k_console := console\<rparr>"
    by (cases "slot < length (processes k)") (simp_all add: on_context_def on_process_def list_update_beyond)
  have effect: "(acquired, m) = (let k = (on_context slot (\<lambda>c. c\<lparr>ctx_console := token\<rparr>) k)\<lparr>k_console := console\<rparr>
      in if \<not> r then (False, k) else (True, on_context slot (\<lambda>c. c\<lparr>ctx_console_owned := True\<rparr>) k))"
    using assms False acquire by (auto simp: acquire_process_console_def session_acquire_def split: prod.splits)
  show ?thesis
  proof (cases r)
    case True
    then have laws: "c_foreground_token (k_console k) = 0 \<and> token \<noteq> 0 \<and> c_foreground_token console = token"
      using session.acquired acquire by metis
    show ?thesis using granted [of token console] effect True laws again by (simp add: Let_def)
  next
    case nobody: False
    then have laws: "token = 0 \<and> c_foreground_token console = c_foreground_token (k_console k)"
      using session.refused acquire by metis
    show ?thesis using refused [of console] effect nobody laws by (simp add: Let_def)
  qed
qed

lemma panic_token [simp]:
  "c_foreground_token (k_console (panic_root_process env slot k)) = c_foreground_token (k_console k)"
proof -
  have "c_foreground_token (snd (console_write_panic font presented message st)) = c_foreground_token st" for font presented message st
    using system_step_token(2) [of "Panic message" font 0 presented "\<lambda>_. None" st] by simp
  then show ?thesis by (simp add: panic_root_process_def Let_def)
qed

lemma panic_fields [simp]:
  "foreground_stack (panic_root_process env slot k) = foreground_stack k"
  "foreground_depth (panic_root_process env slot k) = foreground_depth k"
  "foreground_process (panic_root_process env slot k) = foreground_process k"
  "next_process_id (panic_root_process env slot k) = next_process_id k"
  "launched (panic_root_process env slot k) = launched k" "k_elf (panic_root_process env slot k) = k_elf k"
  "k_pointer (panic_root_process env slot k) = k_pointer k"
  "processes (panic_root_process env slot k) = (processes k)[slot :=
     (processes k ! slot)\<lparr>p_state := TABOS_PROCESS_PANICKED,
       p_context := (p_context (processes k ! slot))\<lparr>ctx_exit_requested := False\<rparr>\<rparr>]"
  by (cases "slot < length (processes k)"; simp add: panic_root_process_def Let_def list_update_beyond)+

lemma set_owner_fields [simp]:
  "processes (set_pointer_owner a k) = processes k" "foreground_stack (set_pointer_owner a k) = foreground_stack k"
  "foreground_depth (set_pointer_owner a k) = foreground_depth k"
  "foreground_process (set_pointer_owner a k) = foreground_process k"
  "next_process_id (set_pointer_owner a k) = next_process_id k" "launched (set_pointer_owner a k) = launched k"
  "k_elf (set_pointer_owner a k) = k_elf k" "k_console (set_pointer_owner a k) = k_console k"
  "pointer_initialized (k_pointer (set_pointer_owner a k)) = pointer_initialized (k_pointer k)"
  "column f (set_pointer_owner a k) = column f k" "context_of slot (set_pointer_owner a k) = context_of slot k"
  by (simp_all add: set_pointer_owner_def pointer_service_set_foreground_owner_def column_def context_of_def)

lemma set_owner_owner:
  "pointer_owner (set_pointer_owner a k) = (if pointer_initialized (k_pointer k) then a else pointer_owner k)"
  by (simp add: set_pointer_owner_def pointer_service_set_foreground_owner_def pointer_owner_def)

lemma owner_fields [simp]:
  "pointer_owner (on_process slot f k) = pointer_owner k" "pointer_owner (on_context slot g k) = pointer_owner k"
  "pointer_owner (k\<lparr>k_console := c\<rparr>) = pointer_owner k" "pointer_owner (panic_root_process env slot k) = pointer_owner k"
  "pointer_owner (k\<lparr>foreground_process := fg\<rparr>) = pointer_owner k" "pointer_owner (k\<lparr>foreground_depth := d\<rparr>) = pointer_owner k"
  "pointer_owner (k\<lparr>foreground_stack := st\<rparr>) = pointer_owner k" "pointer_owner (k\<lparr>next_process_id := n\<rparr>) = pointer_owner k"
  "pointer_owner (k\<lparr>launched := l\<rparr>) = pointer_owner k" "pointer_owner (k\<lparr>last_exit_status := s\<rparr>) = pointer_owner k"
  "pointer_owner (k\<lparr>last_exit_valid := v\<rparr>) = pointer_owner k"
  by (simp_all add: pointer_owner_def)

section \<open>Destroying and finishing\<close>

text \<open>A clean-up callback starts no process: it keeps the table, and only the foreground can want its exit.\<close>

definition quiet_cleanup :: "runner \<Rightarrow> bool" where
  "quiet_cleanup enter \<longleftrightarrow>
     (\<forall>code status slot k r k'. enter (CleanupCall code status) slot k = Some (r, k') \<longrightarrow>
        table_frame k' = table_frame k \<and> (pointer_owner k' = pointer_owner k \<or> pointer_owner k' = 0) \<and>
        (\<forall>s. \<not> is_foreground s k \<longrightarrow> exit_wanted s k' = exit_wanted s k))"

definition cleared_columns :: "nat \<Rightarrow> kernel \<Rightarrow> kernel \<Rightarrow> bool" where
  "cleared_columns slot k m \<longleftrightarrow>
     column p_occupied m = (column p_occupied k)[slot := False] \<and> column p_id m = (column p_id k)[slot := 0] \<and>
     column p_parent_id m = (column p_parent_id k)[slot := 0] \<and>
     column p_state m = (column p_state k)[slot := TABOS_PROCESS_RUNNING] \<and>
     column p_elf_destroy m = (column p_elf_destroy k)[slot := False] \<and>
     column descriptor_of m = (column descriptor_of k)[slot := None] \<and>
     column session_of m = (column session_of k)[slot := 0] \<and> column owned_of m = (column owned_of k)[slot := False] \<and>
     column data_of m = (column data_of k)[slot := 0]"

lemma cleared_clear:
  "cleared_columns slot k (on_process slot (\<lambda>p. process_zero) k)"
  by (simp add: cleared_columns_def process_zero_def context_zero_def column_parts)

lemma wanted_other:
  "s \<noteq> slot \<Longrightarrow> exit_wanted s (on_process slot f k) = exit_wanted s k"
  "s \<noteq> slot \<Longrightarrow> exit_wanted s (on_context slot g k) = exit_wanted s k"
  by (simp_all add: exit_wanted_def context_of_def)

lemma wanted_fields [simp]:
  "exit_wanted s (k\<lparr>k_console := c\<rparr>) = exit_wanted s k" "exit_wanted s (k\<lparr>k_pointer := p\<rparr>) = exit_wanted s k"
  "exit_wanted s (k\<lparr>foreground_process := fg\<rparr>) = exit_wanted s k"
  "exit_wanted s (k\<lparr>foreground_depth := d\<rparr>) = exit_wanted s k"
  "exit_wanted s (k\<lparr>foreground_stack := st\<rparr>) = exit_wanted s k"
  "exit_wanted s (k\<lparr>next_process_id := n\<rparr>) = exit_wanted s k" "exit_wanted s (k\<lparr>launched := l\<rparr>) = exit_wanted s k"
  "exit_wanted s (k\<lparr>last_exit_status := e\<rparr>) = exit_wanted s k"
  "exit_wanted s (k\<lparr>last_exit_valid := v\<rparr>) = exit_wanted s k"
  "exit_wanted s (set_pointer_owner a k) = exit_wanted s k"
  by (simp_all add: exit_wanted_def context_of_def)

lemma destroy_data_core:
  "core (destroy_data env elf data k) = core k"
  "dom (k_elf (destroy_data env elf data k)) = dom (k_elf k) - (if elf then {data} else {})"
  "c_foreground_token (k_console (destroy_data env elf data k)) = c_foreground_token (k_console k)"
  "pointer_initialized (k_pointer (destroy_data env elf data k)) = pointer_initialized (k_pointer k)"
  "pointer_owner (destroy_data env elf data k) = pointer_owner k \<or> pointer_owner (destroy_data env elf data k) = 0"
proof -
  have "services (loader_elf_application_destroy env data k) =
      (dom (k_elf k) - {data}, c_foreground_token (k_console k), pointer_initialized (k_pointer k))"
    by (rule destroy_application_keeps(2))
  then show "dom (k_elf (destroy_data env elf data k)) = dom (k_elf k) - (if elf then {data} else {})"
    "c_foreground_token (k_console (destroy_data env elf data k)) = c_foreground_token (k_console k)"
    "pointer_initialized (k_pointer (destroy_data env elf data k)) = pointer_initialized (k_pointer k)"
    by (simp_all add: destroy_data_def services_def)
  show "core (destroy_data env elf data k) = core k"
    by (simp add: destroy_data_def destroy_application_keeps(1))
  show "pointer_owner (destroy_data env elf data k) = pointer_owner k \<or> pointer_owner (destroy_data env elf data k) = 0"
    using release_resources_owner [of env data k]
    by (simp add: destroy_data_def loader_elf_application_destroy_def elf_free_def pointer_owner_def)
qed

text \<open>Giving up the console if it is owned; the process itself is about to be cleared.\<close>

definition give_up :: "process_env \<Rightarrow> nat \<Rightarrow> kernel \<Rightarrow> kernel" where
  "give_up env slot k = (if ctx_console_owned (context_of slot k) then session_release env slot k else k)"

lemma give_up_spec:
  "column p_occupied (give_up env slot k) = column p_occupied k" "column p_id (give_up env slot k) = column p_id k"
  "column p_parent_id (give_up env slot k) = column p_parent_id k" "column p_state (give_up env slot k) = column p_state k"
  "column p_elf_destroy (give_up env slot k) = column p_elf_destroy k"
  "column descriptor_of (give_up env slot k) = column descriptor_of k"
  "column owned_of (give_up env slot k) = column owned_of k" "column data_of (give_up env slot k) = column data_of k"
  "(column session_of (give_up env slot k))[slot := v] = (column session_of k)[slot := v]"
  "length (processes (give_up env slot k)) = length (processes k)"
  "foreground_stack (give_up env slot k) = foreground_stack k" "foreground_depth (give_up env slot k) = foreground_depth k"
  "next_process_id (give_up env slot k) = next_process_id k"
  "foreground_process (give_up env slot k) = foreground_process k" "launched (give_up env slot k) = launched k"
  "k_elf (give_up env slot k) = k_elf k" "k_pointer (give_up env slot k) = k_pointer k"
proof -
  obtain console where release: "session_release env slot k = (on_context slot (\<lambda>c. c\<lparr>ctx_console := 0\<rparr>) k)\<lparr>k_console := console\<rparr>"
    by (rule session_release_cases)
  have same: "column f (give_up env slot k) = column f k"
    if "\<And>p. f (p\<lparr>p_context := (p_context p)\<lparr>ctx_console := 0\<rparr>\<rparr>) = f p" for f :: "kernel_process \<Rightarrow> 'b"
    by (simp add: give_up_def release that)
  show "column p_occupied (give_up env slot k) = column p_occupied k" "column p_id (give_up env slot k) = column p_id k"
    "column p_parent_id (give_up env slot k) = column p_parent_id k" "column p_state (give_up env slot k) = column p_state k"
    "column p_elf_destroy (give_up env slot k) = column p_elf_destroy k"
    "column descriptor_of (give_up env slot k) = column descriptor_of k"
    "column owned_of (give_up env slot k) = column owned_of k" "column data_of (give_up env slot k) = column data_of k"
    by (rule same, simp add: column_parts)+
  show "(column session_of (give_up env slot k))[slot := v] = (column session_of k)[slot := v]"
    by (simp add: give_up_def release)
  show "length (processes (give_up env slot k)) = length (processes k)"
    "foreground_stack (give_up env slot k) = foreground_stack k" "foreground_depth (give_up env slot k) = foreground_depth k"
    "next_process_id (give_up env slot k) = next_process_id k"
    "foreground_process (give_up env slot k) = foreground_process k" "launched (give_up env slot k) = launched k"
    "k_elf (give_up env slot k) = k_elf k" "k_pointer (give_up env slot k) = k_pointer k"
    by (simp_all add: give_up_def release)
qed

lemma give_up_wanted: "exit_wanted s (give_up env slot k) = exit_wanted s k"
  by (rule session_release_cases [of env slot k])
    (simp add: give_up_def wanted_context, simp add: exit_wanted_def)

lemma give_up_token:
  assumes "slot < length (processes k)"
  shows "c_foreground_token (k_console (give_up env slot k)) =
    (if column owned_of k ! slot \<and> column session_of k ! slot \<noteq> 0 \<and>
        column session_of k ! slot = c_foreground_token (k_console k) then 0 else c_foreground_token (k_console k))"
  by (rule session_release_cases [of env slot k])
    (simp add: give_up_def column_nth assms column_parts context_of_def)

lemma destroy_spec:
  assumes cleanup: "quiet_cleanup enter" and slot: "slot < length (processes k)" "column p_occupied k ! slot"
    and run: "destroy_process env enter slot k = Some m"
  shows "cleared_columns slot k m"
    and "foreground_stack m = foreground_stack k" "foreground_depth m = foreground_depth k"
      "next_process_id m = next_process_id k" "foreground_process m = foreground_process k" "launched m = launched k"
    and "dom (k_elf m) = dom (k_elf k) - (if column p_elf_destroy k ! slot then {column data_of k ! slot} else {})"
    and "c_foreground_token (k_console m) =
      (if column owned_of k ! slot \<and> column session_of k ! slot \<noteq> 0 \<and>
          column session_of k ! slot = c_foreground_token (k_console k) then 0 else c_foreground_token (k_console k))"
    and "pointer_initialized (k_pointer m) = pointer_initialized (k_pointer k)"
    and "pointer_owner m = pointer_owner k \<or> pointer_owner m = 0"
    and "s \<noteq> slot \<Longrightarrow> \<not> is_foreground s k \<Longrightarrow> exit_wanted s m = exit_wanted s k"
proof -
  define status where "status = ctx_exit_status (context_of slot k)"
  define cleanup_run where "cleanup_run = (case app_cleanup (the (ctx_descriptor (context_of slot k))) of
    None \<Rightarrow> Some k | Some code \<Rightarrow> map_option snd (enter (CleanupCall code status) slot k))"
  have "p_occupied (processes k ! slot)" using slot by (simp add: column_nth)
  then obtain m1 where m1: "cleanup_run = Some m1" and m: "m = (on_process slot (\<lambda>p. process_zero)
      (destroy_data env (p_elf_destroy (processes (give_up env slot m1) ! slot))
        (ctx_application_data (context_of slot (give_up env slot m1))) (give_up env slot m1)))
      \<lparr>last_exit_status := status, last_exit_valid := True\<rparr>"
    using run unfolding destroy_process_def status_def [symmetric] Let_def cleanup_run_def [symmetric] give_up_def [symmetric]
    by (auto simp: bind_eq_Some_conv)
  have table: "table_frame m1 = table_frame k" and owner: "pointer_owner m1 = pointer_owner k \<or> pointer_owner m1 = 0"
    and wanted: "\<not> is_foreground s k \<Longrightarrow> exit_wanted s m1 = exit_wanted s k"
  proof -
    have "m1 = k \<or> (\<exists>code r. enter (CleanupCall code status) slot k = Some (r, m1))"
      using m1 unfolding cleanup_run_def by (auto split: option.splits)
    then have "table_frame m1 = table_frame k \<and> (pointer_owner m1 = pointer_owner k \<or> pointer_owner m1 = 0) \<and>
        (\<forall>s. \<not> is_foreground s k \<longrightarrow> exit_wanted s m1 = exit_wanted s k)"
    proof (elim disjE exE)
      fix code r assume "enter (CleanupCall code status) slot k = Some (r, m1)"
      then show ?thesis by (rule cleanup [unfolded quiet_cleanup_def, THEN spec, THEN spec, THEN spec, THEN spec,
            THEN spec, THEN spec, THEN mp])
    qed simp
    then show "table_frame m1 = table_frame k" "pointer_owner m1 = pointer_owner k \<or> pointer_owner m1 = 0"
      "\<not> is_foreground s k \<Longrightarrow> exit_wanted s m1 = exit_wanted s k" by auto
  qed
  note columns = column_table [OF table] and fields = table_fields [OF table]
  define e where "e = give_up env slot m1"
  have bound: "slot < length (processes e)" using slot fields(1) by (simp add: e_def give_up_spec)
  have data: "p_elf_destroy (processes e ! slot) = column p_elf_destroy k ! slot"
    "ctx_application_data (context_of slot e) = column data_of k ! slot"
  proof -
    have "column p_elf_destroy e ! slot = column p_elf_destroy k ! slot" "column data_of e ! slot = column data_of k ! slot"
      by (simp_all add: e_def give_up_spec columns)
    then show "p_elf_destroy (processes e ! slot) = column p_elf_destroy k ! slot"
      "ctx_application_data (context_of slot e) = column data_of k ! slot"
      using bound by (simp_all add: column_nth column_parts context_of_def)
  qed
  define g where "g = destroy_data env (column p_elf_destroy k ! slot) (column data_of k ! slot) e"
  note gone = destroy_data_core [of env "column p_elf_destroy k ! slot" "column data_of k ! slot" e, folded g_def]
  have m: "m = (on_process slot (\<lambda>p. process_zero) g)\<lparr>last_exit_status := status, last_exit_valid := True\<rparr>"
    using m by (simp add: e_def [symmetric] data g_def)
  have table_g: "column f g = column f e" for f :: "kernel_process \<Rightarrow> 'b" using column_core [OF gone(1)] .
  show "cleared_columns slot k m"
    using cleared_clear [of slot g]
    by (simp add: m cleared_columns_def table_g e_def give_up_spec columns)
  show "foreground_stack m = foreground_stack k" "foreground_depth m = foreground_depth k"
    "next_process_id m = next_process_id k" "foreground_process m = foreground_process k" "launched m = launched k"
    using core_fields [OF gone(1)] by (simp_all add: m e_def give_up_spec fields)
  show "dom (k_elf m) = dom (k_elf k) - (if column p_elf_destroy k ! slot then {column data_of k ! slot} else {})"
    using gone(2) by (simp add: m e_def give_up_spec fields)
  show "c_foreground_token (k_console m) =
      (if column owned_of k ! slot \<and> column session_of k ! slot \<noteq> 0 \<and>
          column session_of k ! slot = c_foreground_token (k_console k) then 0 else c_foreground_token (k_console k))"
    using gone(3) give_up_token [of slot m1 env] slot fields(1) by (simp add: m e_def columns fields)
  show "pointer_initialized (k_pointer m) = pointer_initialized (k_pointer k)"
    using gone(4) by (simp add: m e_def give_up_spec fields)
  show "pointer_owner m = pointer_owner k \<or> pointer_owner m = 0"
    using gone(5) owner by (auto simp: m e_def pointer_owner_def give_up_spec)
  show "exit_wanted s m = exit_wanted s k" if "s \<noteq> slot" "\<not> is_foreground s k"
    using that wanted wanted_core [OF gone(1), of s] by (simp add: m wanted_other e_def give_up_wanted)
qed

lemma release_spec:
  assumes slot: "slot < length (processes k)"
  shows "column p_occupied (release_process_console env slot k) = column p_occupied k"
    "column p_id (release_process_console env slot k) = column p_id k"
    "column p_parent_id (release_process_console env slot k) = column p_parent_id k"
    "column p_state (release_process_console env slot k) = column p_state k"
    "column p_elf_destroy (release_process_console env slot k) = column p_elf_destroy k"
    "column descriptor_of (release_process_console env slot k) = column descriptor_of k"
    "column data_of (release_process_console env slot k) = column data_of k"
    "column owned_of (release_process_console env slot k) = (column owned_of k)[slot := False]"
    "(column session_of (release_process_console env slot k))[slot := v] = (column session_of k)[slot := v]"
    "length (processes (release_process_console env slot k)) = length (processes k)"
    "foreground_stack (release_process_console env slot k) = foreground_stack k"
    "foreground_depth (release_process_console env slot k) = foreground_depth k"
    "next_process_id (release_process_console env slot k) = next_process_id k"
    "foreground_process (release_process_console env slot k) = foreground_process k"
    "launched (release_process_console env slot k) = launched k"
    "k_elf (release_process_console env slot k) = k_elf k"
    "k_pointer (release_process_console env slot k) = k_pointer k"
    "exit_wanted s (release_process_console env slot k) = exit_wanted s k"
    "c_foreground_token (k_console (release_process_console env slot k)) =
      (if column owned_of k ! slot \<and> column session_of k ! slot \<noteq> 0 \<and>
          column session_of k ! slot = c_foreground_token (k_console k) then 0 else c_foreground_token (k_console k))"
proof -
  have eq: "release_process_console env slot k =
      (if column owned_of k ! slot then on_context slot (\<lambda>c. c\<lparr>ctx_console_owned := False\<rparr>) (give_up env slot k)
       else give_up env slot k)"
    using slot by (simp add: release_process_console_def give_up_def column_nth column_parts context_of_def)
  have same: "column f (release_process_console env slot k) = column f (give_up env slot k)"
    if "\<And>p. f (p\<lparr>p_context := (p_context p)\<lparr>ctx_console_owned := False\<rparr>\<rparr>) = f p" for f :: "kernel_process \<Rightarrow> 'b"
    by (simp add: eq that)
  show "column p_occupied (release_process_console env slot k) = column p_occupied k"
    "column p_id (release_process_console env slot k) = column p_id k"
    "column p_parent_id (release_process_console env slot k) = column p_parent_id k"
    "column p_state (release_process_console env slot k) = column p_state k"
    "column p_elf_destroy (release_process_console env slot k) = column p_elf_destroy k"
    "column descriptor_of (release_process_console env slot k) = column descriptor_of k"
    "column data_of (release_process_console env slot k) = column data_of k"
    by (subst same, simp add: column_parts, simp add: give_up_spec)+
  show "(column session_of (release_process_console env slot k))[slot := v] = (column session_of k)[slot := v]"
    by (subst same, simp add: column_parts, simp add: give_up_spec)
  show "column owned_of (release_process_console env slot k) = (column owned_of k)[slot := False]"
  proof (cases "column owned_of k ! slot")
    case True
    then show ?thesis using slot by (simp add: eq give_up_spec owned_of_def)
  next
    case False
    then have "column owned_of k = (column owned_of k)[slot := False]" by (metis list_update_id)
    then show ?thesis using False by (simp add: eq give_up_spec)
  qed
  show "exit_wanted s (release_process_console env slot k) = exit_wanted s k"
    by (simp add: eq wanted_context give_up_wanted) (simp add: exit_wanted_def [symmetric] give_up_wanted)
  show "c_foreground_token (k_console (release_process_console env slot k)) =
      (if column owned_of k ! slot \<and> column session_of k ! slot \<noteq> 0 \<and>
          column session_of k ! slot = c_foreground_token (k_console k) then 0 else c_foreground_token (k_console k))"
    using give_up_token [OF slot, of env] by (simp add: eq)
qed (simp_all add: release_process_console_def give_up_def [symmetric] give_up_spec, simp_all add: release_process_console_def session_release_def case_prod_beta)

lemma linked_cong:
  assumes "column p_occupied m = column p_occupied k" "column p_id m = column p_id k"
    "column p_parent_id m = column p_parent_id k" "column descriptor_of m = column descriptor_of k"
    "foreground_stack m = foreground_stack k" "foreground_depth m = foreground_depth k"
    "next_process_id m = next_process_id k" "launched m = launched k"
  shows "linked chain m = linked chain k"
proof -
  have "length (processes m) = length (processes k)" using arg_cong [OF assms(1), of length] by simp
  then show ?thesis using assms by (simp add: linked_def stack_ids_def)
qed

lemma owning_cong:
  assumes "column p_elf_destroy m = column p_elf_destroy k" "column data_of m = column data_of k"
    "dom (k_elf m) = dom (k_elf k)"
  shows "owning pending chain m = owning pending chain k"
  using assms by (simp add: owning_def elf_slots_def)

lemma last_id: "linked chain k \<Longrightarrow> chain \<noteq> [] \<Longrightarrow> column p_id k ! last chain = last (stack_ids k)"
  by (metis last_map linkedD(6))

lemma last_id_zero:
  assumes "linked chain k" and "chain \<noteq> []"
  shows "column p_id k ! last chain = 0 \<longleftrightarrow> length chain = 1"
proof -
  note facts = linkedD [OF assms(1)] and ids = stack_ids_length [OF assms(1)]
  have nonempty: "stack_ids k \<noteq> []" using assms(2) ids by auto
  have first: "stack_ids k ! 0 = 0" using facts(9) [OF assms(2)] nonempty by (simp add: hd_conv_nth)
  have "last (stack_ids k) = 0 \<longleftrightarrow> length chain = 1"
  proof (cases "length chain = 1")
    case True
    then show ?thesis using first nonempty ids by (simp add: last_conv_nth)
  next
    case False
    then have "0 < length (stack_ids k) - 1" "length (stack_ids k) - 1 < length (stack_ids k)"
      using ids nonempty by (auto simp: neq_Nil_conv)
    then have "stack_ids k ! 0 < last (stack_ids k)"
      using facts(8) nonempty by (simp add: sorted_wrt_iff_nth_less last_conv_nth)
    then show ?thesis using first False by auto
  qed
  then show ?thesis using last_id [OF assms] by simp
qed

lemma on_context_cong: "g (context_of slot k) = h (context_of slot k) \<Longrightarrow> on_context slot g k = on_context slot h k"
  by (simp add: on_context_def on_process_def context_of_def)

lemma representsD:
  assumes "represents pending chain k"
  shows "linked chain k" "owning pending chain k" "seated chain k"
  using assms by (simp_all add: represents_def)

lemma last_slot: "linked chain k \<Longrightarrow> chain \<noteq> [] \<Longrightarrow> last chain < length (processes k)"
  by (simp add: linked_slot)

lemma butlast_other:
  assumes "linked chain k" and "i \<in> set (butlast chain)"
  shows "i \<noteq> last chain" and "i \<in> set chain"
proof -
  show "i \<in> set chain" using assms(2) by (rule in_set_butlastD)
  have "chain \<noteq> []" using assms(2) by auto
  then have "distinct (butlast chain @ [last chain])" using linkedD(4) [OF assms(1)] by simp
  then show "i \<noteq> last chain" using assms(2) by auto
qed

text \<open>The process in the foreground asks for the console: granted or refused, the chain stands.\<close>

lemma acquire_represents:
  assumes before: "represents pending chain k" and chain: "chain \<noteq> []" and free: "\<not> column owned_of k ! last chain"
    and acquire: "acquire_process_console env (last chain) k = (acquired, m)"
  shows "represents pending chain m" and "launched m = launched k" and "exit_wanted s m = exit_wanted s k"
    and "column p_id m = column p_id k" and "k_elf m = k_elf k" and "processes m ! i = processes k ! i \<or> i = last chain"
proof -
  note facts = representsD [OF before]
  note p = last_slot [OF facts(1) chain]
  have update: "represents pending chain (k'\<lparr>k_console := console\<rparr>) \<and> launched (k'\<lparr>k_console := console\<rparr>) = launched k \<and>
      exit_wanted s (k'\<lparr>k_console := console\<rparr>) = exit_wanted s k \<and> column p_id (k'\<lparr>k_console := console\<rparr>) = column p_id k \<and>
      k_elf (k'\<lparr>k_console := console\<rparr>) = k_elf k \<and>
      (processes (k'\<lparr>k_console := console\<rparr>) ! i = processes k ! i \<or> i = last chain)"
    if k': "k' = on_context (last chain) g k" and g: "\<And>c. ctx_console (g c) = token \<and> ctx_descriptor (g c) = ctx_descriptor c \<and>
        ctx_console_owned (g c) = (token \<noteq> 0) \<and> ctx_application_data (g c) = ctx_application_data c \<and>
        ctx_exit_requested (g c) = ctx_exit_requested c" and token: "c_foreground_token console = token"
    for k' g token console
  proof -
    have same: "column f k' = column f k" if "\<And>p x. f (p\<lparr>p_context := g (p_context p)\<rparr>) = f p" for f :: "kernel_process \<Rightarrow> 'b"
      by (simp add: k' that)
    have columns: "column p_occupied k' = column p_occupied k" "column p_id k' = column p_id k"
      "column p_parent_id k' = column p_parent_id k" "column p_elf_destroy k' = column p_elf_destroy k"
      "column descriptor_of k' = column descriptor_of k" "column data_of k' = column data_of k" "column p_state k' = column p_state k"
      by (rule same, simp add: column_parts g)+
    have own: "column owned_of k' = (column owned_of k)[last chain := token \<noteq> 0]"
      "column session_of k' = (column session_of k)[last chain := token]"
      by (simp_all add: k' column_parts g)
    have fields: "foreground_stack k' = foreground_stack k" "foreground_depth k' = foreground_depth k"
      "next_process_id k' = next_process_id k" "foreground_process k' = foreground_process k" "launched k' = launched k"
      "k_elf k' = k_elf k" "k_pointer k' = k_pointer k" by (simp_all add: k')
    have "linked chain (k'\<lparr>k_console := console\<rparr>)"
      using facts(1) linked_cong [of "k'\<lparr>k_console := console\<rparr>" k chain] by (simp add: columns fields)
    moreover have "owning pending chain (k'\<lparr>k_console := console\<rparr>)"
      using facts(2) owning_cong [of "k'\<lparr>k_console := console\<rparr>" k pending chain] by (simp add: columns fields)
    moreover have "seated chain (k'\<lparr>k_console := console\<rparr>)"
      using facts(3) p chain butlast_other [OF facts(1)] token
      by (auto simp: seated_def columns own fields pointer_owner_def nth_list_update)
    moreover have "exit_wanted s (k'\<lparr>k_console := console\<rparr>) = exit_wanted s k"
      by (simp add: k' wanted_context g) (simp add: exit_wanted_def)
    moreover have "processes k' ! i = processes k ! i \<or> i = last chain"
      by (cases "i = last chain") (simp_all add: k')
    ultimately show ?thesis using columns fields by (simp add: represents_def)
  qed
  have "represents pending chain m \<and> launched m = launched k \<and> exit_wanted s m = exit_wanted s k \<and>
      column p_id m = column p_id k \<and> k_elf m = k_elf k \<and> (processes m ! i = processes k ! i \<or> i = last chain)"
    using acquire
  proof (cases rule: acquire_cases)
    case none
    then show ?thesis using before by simp
  next
    case (granted console token)
    show ?thesis unfolding granted(5) by (rule update [OF refl]) (use granted in simp_all)
  next
    case (refused console)
    have "c_foreground_token (k_console k) = 0" using facts(3) free by (simp add: seated_def)
    then have "c_foreground_token console = 0" using refused by simp
    moreover have "on_context (last chain) (\<lambda>c. c\<lparr>ctx_console := 0\<rparr>) k =
        on_context (last chain) (\<lambda>c. c\<lparr>ctx_console := 0, ctx_console_owned := False\<rparr>) k"
    proof -
      have "c\<lparr>ctx_console := 0\<rparr> = c\<lparr>ctx_console := 0, ctx_console_owned := False\<rparr>"
        if "\<not> ctx_console_owned c" for c :: app_context
        using that by (cases c) simp
      moreover have "\<not> ctx_console_owned (context_of (last chain) k)"
        using free p by (simp add: column_nth owned_of_def context_of_def)
      ultimately show ?thesis by (intro on_context_cong) blast
    qed
    ultimately show ?thesis
      unfolding refused(3) using update [of _ "\<lambda>c. c\<lparr>ctx_console := 0, ctx_console_owned := False\<rparr>" 0 console] by simp
  qed
  then show "represents pending chain m" and "launched m = launched k" and "exit_wanted s m = exit_wanted s k"
    and "column p_id m = column p_id k" and "k_elf m = k_elf k" and "processes m ! i = processes k ! i \<or> i = last chain"
    by auto
qed

lemma panic_represents:
  assumes before: "represents pending chain k" and chain: "chain \<noteq> []" and root: "column p_id k ! last chain = 0"
  shows "represents pending chain (panic_root_process env (last chain) k)"
proof -
  note facts = representsD [OF before]
  note p = last_slot [OF facts(1) chain]
  have single: "length chain = 1" using last_id_zero [OF facts(1) chain] root by simp
  define m where "m = panic_root_process env (last chain) k"
  have same: "column f m = column f k"
    if "\<And>p x. f (p\<lparr>p_state := TABOS_PROCESS_PANICKED, p_context := (p_context p)\<lparr>ctx_exit_requested := False\<rparr>\<rparr>) = f p"
    for f :: "kernel_process \<Rightarrow> 'b"
    using p that by (simp add: m_def column_def map_update list_update_same_conv)
  have columns: "column p_occupied m = column p_occupied k" "column p_id m = column p_id k"
    "column p_parent_id m = column p_parent_id k" "column p_elf_destroy m = column p_elf_destroy k"
    "column descriptor_of m = column descriptor_of k" "column data_of m = column data_of k"
    "column owned_of m = column owned_of k" "column session_of m = column session_of k"
    by (rule same, simp add: column_parts)+
  have state: "column p_state m = (column p_state k)[last chain := TABOS_PROCESS_PANICKED]"
    using p by (simp add: m_def column_def map_update)
  have "linked chain m" using facts(1) linked_cong [of m k chain] by (simp add: columns) (simp add: m_def)
  moreover have "owning pending chain m"
    using facts(2) owning_cong [of m k pending chain] by (simp add: columns) (simp add: m_def)
  moreover have "seated chain m"
  proof -
    have "butlast chain = []" using single by (simp add: length_Suc_conv) (metis butlast.simps(1,2) length_0_conv length_Suc_conv)
    then show ?thesis using facts(3) p chain single unfolding seated_def columns state by (simp add: m_def)
  qed
  ultimately show ?thesis by (simp add: represents_def m_def)
qed

lemma wanted_panic: "s \<noteq> slot \<Longrightarrow> exit_wanted s (panic_root_process env slot k) = exit_wanted s k"
  by (simp add: exit_wanted_def context_of_def)

lemma resume_spec:
  assumes linked: "linked chain m" and owning: "owning {} chain m" and chain: "chain \<noteq> []"
    and fg: "foreground_process m = Some (last chain)"
    and waiting: "\<forall>i \<in> set (butlast chain). column p_state m ! i = TABOS_PROCESS_BLOCKED"
    and free: "\<forall>i \<in> set chain. \<not> column owned_of m ! i" "c_foreground_token (k_console m) = 0"
  shows "represents {} chain (resume_parent env status m)" and "launched (resume_parent env status m) = launched m"
    and "s \<noteq> last chain \<Longrightarrow> exit_wanted s (resume_parent env status m) = exit_wanted s m"
proof -
  define p where "p = last chain"
  note p = last_slot [OF linked chain, folded p_def]
  define b where "b = on_context p (\<lambda>c. c\<lparr>ctx_child_status := status, ctx_child_status_valid := True\<rparr>)
      (on_process p (\<lambda>p. p\<lparr>p_state := TABOS_PROCESS_RUNNING\<rparr>) m)"
  define a where "a = set_pointer_owner (ctx_application_data (context_of p b)) b"
  have columns: "column p_occupied a = column p_occupied m" "column p_id a = column p_id m"
    "column p_parent_id a = column p_parent_id m" "column p_elf_destroy a = column p_elf_destroy m"
    "column descriptor_of a = column descriptor_of m" "column owned_of a = column owned_of m"
    "column data_of a = column data_of m" "column p_state a = (column p_state m)[p := TABOS_PROCESS_RUNNING]"
    using p by (simp_all add: a_def b_def column_parts list_update_same_conv column_def map_update)
  have data: "ctx_application_data (context_of p b) = column data_of m ! p"
    using p by (simp add: b_def context_of_def column_nth data_of_def)
  have wanted: "s \<noteq> p \<Longrightarrow> exit_wanted s a = exit_wanted s m" for s
    by (simp add: a_def b_def wanted_other)
  have ready: "represents {} chain a"
  proof -
    have "linked chain a" using linked linked_cong [of a m chain] by (simp add: columns) (simp add: a_def b_def)
    moreover have "owning {} chain a" using owning owning_cong [of a m "{}" chain] by (simp add: columns) (simp add: a_def b_def)
    moreover have "pointer_owner a = column data_of m ! p" if "pointer_initialized (k_pointer a)"
      using that by (simp add: a_def set_owner_owner data)
    moreover have "last chain \<noteq> i" if "i \<in> set (butlast chain)" for i
      using butlast_other(1) [OF linked that] by (rule not_sym)
    ultimately have "seated chain a"
      using waiting free p fg chain butlast_other(2) [OF linked] unfolding seated_def columns
      by (simp add: p_def) (simp add: a_def b_def p_def nth_list_update)
    with \<open>linked chain a\<close> \<open>owning {} chain a\<close> show ?thesis by (simp add: represents_def)
  qed
  obtain acquired c where acquire: "acquire_process_console env p a = (acquired, c)" by fastforce
  have free_p: "\<not> column owned_of a ! last chain" using free(1) chain by (simp add: columns)
  note granted = acquire_represents [OF ready chain free_p acquire [unfolded p_def]]
  define g where "g = on_context p (\<lambda>c. c\<lparr>ctx_exit_status := - 1\<rparr>) c"
  have g: "frame g = frame c" unfolding g_def by (rule frame_context) simp_all
  define d where "d = (if acquired then c
    else if p_id (processes g ! p) = 0 then panic_root_process env p g
    else on_context p (\<lambda>c. c\<lparr>ctx_exit_requested := True\<rparr>) g)"
  have result: "resume_parent env status m = log_call (RuntimeNotify RUNTIME_EVENT_APPLICATION) d"
    using acquire unfolding resume_parent_def fg option.case p_def [symmetric] Let_def b_def [symmetric] a_def [symmetric]
    by (simp add: d_def g_def)
  have "represents {} chain g" using granted(1) represents_frame(2) [OF g] by simp
  moreover have "p < length (processes g)"
    using linked_slot [OF representsD(1) [OF \<open>represents {} chain g\<close>]] chain by (simp add: p_def)
  moreover have "frame (on_context p (\<lambda>c. c\<lparr>ctx_exit_requested := True\<rparr>) g) = frame g"
    by (rule frame_context) simp_all
  ultimately have "represents {} chain d"
    using granted(1) panic_represents [of "{}" chain g env] chain
      represents_frame(2) [of "on_context p (\<lambda>c. c\<lparr>ctx_exit_requested := True\<rparr>) g" g "{}" chain]
    by (cases acquired) (auto simp: d_def p_def column_nth)
  moreover have "launched d = launched m"
    using granted(2) by (simp add: d_def g_def) (simp add: a_def b_def)
  moreover have "s \<noteq> p \<Longrightarrow> exit_wanted s d = exit_wanted s m"
    using granted(3) [of s] wanted by (simp add: d_def g_def wanted_panic wanted_other)
  ultimately show "represents {} chain (resume_parent env status m)" and "launched (resume_parent env status m) = launched m"
    and "s \<noteq> last chain \<Longrightarrow> exit_wanted s (resume_parent env status m) = exit_wanted s m"
    unfolding result by (simp_all add: p_def represents_frame(2) [OF frame_log])
qed

text \<open>Finishing the last process of a chain gives the chain without it.\<close>

lemma finish_spec:
  assumes cleanup: "quiet_cleanup enter" and before: "represents {} (chain @ [c]) k" and chain: "chain \<noteq> []"
    and run: "finish_child_process env enter c k = Some m"
  shows "represents {} chain m" and "launched m = launched k"
    and "s \<in> set (butlast chain) \<Longrightarrow> exit_wanted s m = exit_wanted s k"
proof -
  note linked = representsD(1) [OF before] and owning = representsD(2) [OF before] and seated = representsD(3) [OF before]
  note facts = linkedD [OF linked]
  have slot: "c < length (processes k)" "c \<notin> set chain" "column p_occupied k ! c"
    using linked_slot [OF linked, of c] facts(4,5) by auto
  define r where "r = release_process_console env c (set_pointer_owner 0 k)"
  have bound: "c < length (processes (set_pointer_owner 0 k))" using slot by simp
  note r_spec = release_spec [OF bound, where env = env, folded r_def]
  have r_slot: "c < length (processes r)" "column p_occupied r ! c" using slot r_spec(1,10) by simp_all
  obtain d where destroy: "destroy_process env enter c r = Some d"
    and m: "m = resume_parent env (ctx_exit_status (context_of c k)) (pop_foreground d)"
    using run by (auto simp: finish_child_parts r_def)
  note d_spec = destroy_spec [OF cleanup r_slot destroy]
  define q where "q = pop_foreground d"
  have depth: "foreground_depth d = Suc (length chain)" using d_spec(3) r_spec(12) facts(3) by simp
  have q: "foreground_depth q = length chain" "foreground_stack q = foreground_stack d" "next_process_id q = next_process_id d"
    "launched q = launched d" "k_elf q = k_elf d" "k_console q = k_console d" "k_pointer q = k_pointer d"
    "processes q = processes d"
    using depth by (simp_all add: q_def pop_foreground_def Let_def)
  have q_column: "column f q = column f d" for f :: "kernel_process \<Rightarrow> 'b" by (simp add: column_def q)
  note cleared = d_spec(1) [unfolded cleared_columns_def]
  have q_linked: "linked chain q"
    by (rule linked_pop [OF linked, where a = 0 and b = 0 and d = None])
      (use cleared r_spec d_spec in \<open>simp_all add: q q_column\<close>)
  have "owning {} chain q"
    by (rule owning_pop [OF owning slot(1,2), where d = 0])
      (use cleared r_spec d_spec in \<open>simp_all add: q q_column\<close>)
  moreover have "foreground_process q = Some (last chain)"
  proof -
    define q' where "q' = d\<lparr>foreground_depth := length chain\<rparr>"
    have "linked chain q'" using q_linked linked_cong [of q' q chain] by (simp add: q q_column) (simp add: q'_def q)
    then have "find_process (foreground_stack q' ! (foreground_depth q' - 1)) q' = Some (last chain)"
      using chain by (rule linked_find)
    then show ?thesis using depth chain by (simp add: q_def pop_foreground_def Let_def q'_def)
  qed
  moreover have "\<forall>i \<in> set (butlast chain). column p_state q ! i = TABOS_PROCESS_BLOCKED"
    "\<forall>i \<in> set chain. \<not> column owned_of q ! i"
    using seated slot cleared r_spec(4,8) by (auto simp: seated_def q_column nth_list_update dest: in_set_butlastD)
  moreover have "c_foreground_token (k_console q) = 0"
    using seated d_spec(8) r_spec(8,19) slot by (auto simp: seated_def q)
  ultimately have resumed: "represents {} chain m" "launched m = launched q"
    "\<And>s. s \<noteq> last chain \<Longrightarrow> exit_wanted s m = exit_wanted s q"
    using resume_spec [OF q_linked _ chain] unfolding m q_def [symmetric] by blast+
  show "represents {} chain m" by (rule resumed)
  show "launched m = launched k" using resumed(2) d_spec(6) r_spec(15) by (simp add: q)
  show "exit_wanted s m = exit_wanted s k" if s: "s \<in> set (butlast chain)"
  proof -
    have "s \<noteq> last chain" "s \<in> set chain" using butlast_other [OF q_linked s] by simp_all
    moreover from this have "s \<noteq> c" using slot by auto
    moreover have "\<not> is_foreground s r"
      using seated \<open>s \<noteq> c\<close> r_spec(14) by (simp add: is_foreground_def seated_def)
    moreover have "exit_wanted s q = exit_wanted s d" by (simp add: exit_wanted_def context_of_def q)
    ultimately show ?thesis using resumed(3) d_spec(11) r_spec(18) by simp
  qed
qed

end
