(* ===== verification/ProcessLaunch.thy ===== *)
theory ProcessLaunch
  imports ProcessChain
begin

text \<open>
  Launching keeps the chain: a refused launch releases the object it was given, a launch that starts
  appends the child, and a child that fails or ends at once is dropped again. Application code is
  assumed to keep two rules (\<open>well_behaved\<close>): clean-up callbacks start nothing, and an entry callback
  that starts a child then returns success without asking for its own exit.
\<close>

section \<open>A launch that is refused\<close>

lemma release_other_owner:
  "pointer_owner k \<noteq> a \<Longrightarrow> pointer_owner (elf_release_resources env a k) = pointer_owner k"
  by (simp add: elf_release_resources_def Let_def split: option.split)

lemma refuse_spec:
  assumes before: "represents (if elf then {data} else {}) chain k" and elf: "elf \<longleftrightarrow> data \<noteq> 0"
  shows "represents {} chain (destroy_data env elf data k)"
    and "launched (destroy_data env elf data k) = launched k"
    and "exit_wanted s (destroy_data env elf data k) = exit_wanted s k"
proof -
  note linked = representsD(1) [OF before] and owning = representsD(2) [OF before] and seated = representsD(3) [OF before]
  define m where "m = destroy_data env elf data k"
  note gone = destroy_data_core [of env elf data k, folded m_def]
  have columns: "column f m = column f k" for f :: "kernel_process \<Rightarrow> 'b" using column_core [OF gone(1)] .
  note fields = core_fields [OF gone(1)]
  have "linked chain m" using linked linked_cong [of m k chain] by (simp add: columns fields)
  moreover have "owning {} chain m"
    using owning gone(2) by (auto simp: owning_def elf_slots_def columns split: if_splits)
  moreover have "seated chain m"
  proof -
    have "pointer_owner m = pointer_owner k" if init: "pointer_initialized (k_pointer k)"
    proof (cases elf)
      case True
      have "pointer_owner k \<noteq> data"
      proof (cases "chain = []")
        case True
        then show ?thesis using seated init \<open>elf\<close> elf by (auto simp: seated_def)
      next
        case False
        then have last: "last chain \<in> set chain" and owner: "pointer_owner k = column data_of k ! last chain"
          using seated init by (auto simp: seated_def)
        show ?thesis
        proof
          assume "pointer_owner k = data"
          then have "column data_of k ! last chain = data" using owner by simp
          moreover from this have "last chain \<in> elf_slots chain k"
            using last owning elf \<open>elf\<close> by (auto simp: owning_def elf_slots_def)
          ultimately show False using owning \<open>elf\<close> by (auto simp: owning_def)
        qed
      qed
      then show ?thesis
        using True release_other_owner [of k data env]
        by (simp add: m_def destroy_data_def loader_elf_application_destroy_def elf_free_def pointer_owner_def)
    qed (simp add: m_def destroy_data_def)
    then show ?thesis using seated by (auto simp: seated_def columns fields gone(3,4))
  qed
  ultimately show "represents {} chain (destroy_data env elf data k)" by (simp add: represents_def m_def)
  show "launched (destroy_data env elf data k) = launched k"
    and "exit_wanted s (destroy_data env elf data k) = exit_wanted s k"
    using fields(6) wanted_core [OF gone(1)] by (simp_all add: m_def)
qed

section \<open>The child enters the chain\<close>

definition LAUNCH_LIMIT :: nat where "LAUNCH_LIMIT = 2 ^ 32"

lemma enter_child_spec:
  fixes env :: process_env and d :: app_descriptor
  assumes before: "represents (if elf then {data} else {}) chain k" and elf: "elf \<longleftrightarrow> data \<noteq> 0"
    and parent: "\<not> child_refused parent k" and slot: "free_process_slot k = Some child"
    and room: "foreground_depth k < KERNEL_PROCESS_CAPACITY" and limit: "launched k + 1 < LAUNCH_LIMIT"
  defines "m \<equiv> enter_child env d data elf parent child k"
  shows "chain \<noteq> []" and "represents {} (chain @ [child]) m" and "launched m = launched k + 1"
    and "\<not> column owned_of m ! child" and "\<not> exit_wanted child m"
    and "s \<in> set chain \<Longrightarrow> exit_wanted s m = exit_wanted s k" and "child \<notin> set chain"
proof -
  note linked = representsD(1) [OF before] and owning = representsD(2) [OF before] and seated = representsD(3) [OF before]
  note facts = linkedD [OF linked]
  have fg: "foreground_process k = Some parent" and running: "p_state (processes k ! parent) = TABOS_PROCESS_RUNNING"
    using parent by (simp_all add: child_refused_def)
  show chain: "chain \<noteq> []" using fg seated by (auto simp: seated_def)
  then have last: "parent = last chain" using fg seated by (simp add: seated_def)
  note free = linked_free [OF linked slot]
  show "child \<notin> set chain" by (rule free(2))
  have parent_slot: "parent < length (processes k)" "parent \<noteq> child"
    using last_slot [OF linked chain] free(2) chain by (auto simp: last)
  define k1 where "k1 = start_child d data elf parent child k"
  have k1: "column f k1 = (column f k)[child := f (new_process (next_process_id k) (p_id (processes k ! parent)) d data elf)]"
    for f :: "kernel_process \<Rightarrow> 'b" by (simp add: k1_def start_child_def)
  have k1_fields: "foreground_stack k1 = foreground_stack k" "foreground_depth k1 = foreground_depth k"
    "next_process_id k1 = next_process_id k + 1" "launched k1 = launched k + 1" "k_elf k1 = k_elf k"
    "k_console k1 = k_console k" "k_pointer k1 = k_pointer k"
    by (simp_all add: k1_def start_child_def)
  define k2 where "k2 = release_process_console env parent k1"
  have bound: "parent < length (processes k1)" using parent_slot by (simp add: k1_def start_child_def)
  note k2 = release_spec [OF bound, where env = env, folded k2_def]
  define k3 where "k3 = on_process parent (\<lambda>p. p\<lparr>p_state := TABOS_PROCESS_BLOCKED\<rparr>) k2"
  define k4 where "k4 = k3\<lparr>foreground_stack := (foreground_stack k3)[foreground_depth k3 := next_process_id k],
    foreground_depth := foreground_depth k3 + 1, foreground_process := Some child\<rparr>"
  have m: "m = set_pointer_owner (ctx_application_data (context_of child k4)) k4"
    by (simp add: m_def enter_child_def Let_def k4_def k3_def k2_def k1_def)
  have same: "column f m = column f k2" if "\<And>p. f (p\<lparr>p_state := TABOS_PROCESS_BLOCKED\<rparr>) = f p" for f :: "kernel_process \<Rightarrow> 'b"
    by (simp add: m k4_def k3_def that)
  have columns: "column p_occupied m = column p_occupied k2" "column p_id m = column p_id k2"
    "column p_parent_id m = column p_parent_id k2" "column p_elf_destroy m = column p_elf_destroy k2"
    "column descriptor_of m = column descriptor_of k2" "column data_of m = column data_of k2"
    "column owned_of m = column owned_of k2" "column session_of m = column session_of k2"
    by (rule same, simp add: column_parts)+
  have state: "column p_state m = (column p_state k2)[parent := TABOS_PROCESS_BLOCKED]"
    by (simp add: m k4_def k3_def)
  have m_fields: "foreground_stack m = (foreground_stack k)[length chain := next_process_id k]"
    "foreground_depth m = length chain + 1" "next_process_id m = next_process_id k + 1" "launched m = launched k + 1"
    "k_elf m = k_elf k" "foreground_process m = Some child" "k_console m = k_console k2"
    "pointer_initialized (k_pointer m) = pointer_initialized (k_pointer k)"
    by (simp_all add: m k4_def k3_def k2 k1_fields facts(3))
  show "launched m = launched k + 1" by (rule m_fields)
  have data: "ctx_application_data (context_of child k4) = data"
  proof -
    have "column data_of k4 ! child = data"
      using free(1) columns(6) k2(7) by (simp add: m k1) (simp add: data_of_def)
    moreover have "child < length (processes k4)" using free(1) k2(10) by (simp add: k4_def k3_def k1_def start_child_def)
    ultimately show ?thesis by (simp add: column_nth data_of_def context_of_def)
  qed
  have id_room: "unat (next_process_id k + 1) = unat (next_process_id k) + 1"
    using limit facts(11) unat_plus_no_wrap [of "next_process_id k" 1] by (simp add: LAUNCH_LIMIT_def)
  have "linked (chain @ [child]) m"
  proof (rule linked_push [OF linked free, where new = "next_process_id k" and d = d])
    show "column p_parent_id m = (column p_parent_id k)[child := last (TABOS_PROCESS_ID_INVALID # stack_ids k)]"
      using last_id [OF linked chain] parent_slot facts(9) stack_ids_length [OF linked] chain
      by (auto simp: columns k2 k1 last column_nth)
    show "next_process_id k < next_process_id m"
      using id_room by (simp add: m_fields word_less_nat_alt)
    show "unat (next_process_id m) \<le> launched m" using id_room facts(11) by (simp add: m_fields)
  qed (use room facts chain in \<open>simp_all add: columns k2 k1 m_fields descriptor_of_def\<close>)
  moreover have "owning {} (chain @ [child]) m"
    by (rule owning_push [OF owning free _ _ _ elf]) (simp_all add: columns k2 k1 m_fields data_of_def)
  moreover have "seated (chain @ [child]) m"
  proof -
    have waits: "column p_state m ! i = TABOS_PROCESS_BLOCKED \<and> \<not> column owned_of m ! i" if i: "i \<in> set chain" for i
    proof (cases "i = parent")
      case True
      then show ?thesis using parent_slot k2(10) bound by (simp add: state columns k2(8)) 
    next
      case False
      then have "i \<in> set (butlast chain)" using i chain append_butlast_last_id [OF chain]
        by (metis last rotate1.simps(2) set_ConsD set_rotate1)
      moreover have "i \<noteq> child" using i free(2) by auto
      ultimately show ?thesis using seated False by (simp add: state columns k2 k1 seated_def)
    qed
    have "column owned_of k1 ! parent = column owned_of k ! parent" "column session_of k1 ! parent = column session_of k ! parent"
      using parent_slot by (simp_all add: k1)
    then have "c_foreground_token (k_console m) = 0"
      using seated chain k2(19) by (auto simp: m_fields k1_fields seated_def last)
    then show ?thesis
      using waits free(1) parent_slot data
      by (simp add: seated_def m_fields state columns k2 k1)
        (simp add: m set_owner_owner data owned_of_def session_of_def data_of_def k4_def k3_def k2 k1_fields)
  qed
  ultimately show "represents {} (chain @ [child]) m" by (simp add: represents_def)
  show "\<not> column owned_of m ! child"
    using free(1) parent_slot by (simp add: columns k2 k1 owned_of_def)
  have wanted: "exit_wanted s m = exit_wanted s k1" for s
  proof -
    have "exit_wanted s k3 = exit_wanted s k2"
      using nth_update_field [where f = "\<lambda>p. ctx_exit_requested (p_context p)" and xs = "processes k2" and j = parent
          and i = s and v = "(processes k2 ! parent)\<lparr>p_state := TABOS_PROCESS_BLOCKED\<rparr>"]
      by (simp add: k3_def exit_wanted_def context_of_def)
    then show ?thesis by (simp add: m k4_def k2)
  qed
  show "\<not> exit_wanted child m"
    unfolding wanted using free(1) by (simp add: k1_def start_child_def exit_wanted_def context_of_def)
  show "exit_wanted s m = exit_wanted s k" if "s \<in> set chain"
    unfolding wanted using that free(2)
    by (cases "s = child") (simp_all add: k1_def start_child_def exit_wanted_def context_of_def)
qed

section \<open>The count of launches never falls\<close>

definition counts :: "runner \<Rightarrow> bool" where
  "counts enter \<longleftrightarrow> (\<forall>callback slot k r k'. enter callback slot k = Some (r, k') \<longrightarrow> launched k \<le> launched k')"

lemma countsD: "counts enter \<Longrightarrow> enter callback slot k = Some (r, k') \<Longrightarrow> launched k \<le> launched k'"
  unfolding counts_def by blast

lemma launched_core: "core k' = core k \<Longrightarrow> launched k' = launched k"
  by (simp add: core_def)

lemma launched_helpers [simp]:
  "launched (session_release env slot k) = launched k" "launched (release_process_console env slot k) = launched k"
  "launched (snd (acquire_process_console env slot k)) = launched k"
  "launched (destroy_data env elf data k) = launched k"
  "launched (resume_parent env status k) = launched k" "launched (pop_foreground k) = launched k"
  "launched (enter_root slot k) = launched k" "launched (start_root d data elf slot k) = launched k + 1"
  "launched (enter_child env d data elf parent child k) = launched k + 1"
proof -
  show release: "launched (session_release env slot k) = launched k" for slot k
    by (simp add: session_release_def case_prod_beta)
  show released: "launched (release_process_console env slot k) = launched k" for slot k
    by (simp add: release_process_console_def release)
  show acquire: "launched (snd (acquire_process_console env slot k)) = launched k" for slot k
    by (simp add: acquire_process_console_def case_prod_beta Let_def)
  show "launched (destroy_data env elf data k) = launched k"
    by (rule launched_core) (rule destroy_data_core)
  show "launched (resume_parent env status k) = launched k"
    by (simp add: resume_parent_def Let_def case_prod_beta acquire split: option.split)
qed (simp_all add: pop_foreground_def enter_root_def start_root_def enter_child_def start_child_def
    release_process_console_def session_release_def case_prod_beta Let_def)

lemma destroy_counts:
  assumes "counts enter" and "destroy_process env enter slot k = Some m"
  shows "launched k \<le> launched m"
  using assms(2) countsD [OF assms(1)]
  by (auto simp: destroy_process_def bind_eq_Some_conv Let_def split: if_splits option.splits)

lemma finish_counts:
  assumes "counts enter" and "finish_child_process env enter child k = Some m"
  shows "launched k \<le> launched m"
proof -
  obtain d where destroy: "destroy_process env enter child (release_process_console env child (set_pointer_owner 0 k)) = Some d"
    and m: "m = resume_parent env (ctx_exit_status (context_of child k)) (pop_foreground d)"
    using assms(2) by (auto simp: finish_child_parts)
  show ?thesis using destroy_counts [OF assms(1) destroy] by (simp add: m)
qed

lemma settle_counts:
  assumes "counts enter" and "settle_child env enter child started k = Some (r, m)"
  shows "launched k \<le> launched m"
  using assms(2) finish_counts [OF assms(1)]
  by (fastforce simp: settle_child_def split: if_splits)

lemma entry_counts:
  assumes "counts enter" and "run_entry env enter d child k = Some (r, m)"
  shows "launched k \<le> launched m"
proof -
  obtain acquired k' where acquire: "acquire_process_console env child k = (acquired, k')" by fastforce
  then have "launched k' = launched k" using launched_helpers(3) [of env child k] by simp
  then show ?thesis using assms(2) countsD [OF assms(1)] acquire
    by (fastforce simp: run_entry_def split: bool.splits)
qed

lemma launch_child_counts:
  assumes "counts enter" and "launch_child_descriptor env enter caller descriptor data elf k = Some (r, m)"
  shows "launched k \<le> launched m"
  using assms(2) unfolding launch_child_parts
  by (auto split: option.splits if_splits dest!: entry_counts [OF assms(1)] settle_counts [OF assms(1)])

lemma launch_root_counts:
  assumes "counts enter" and "launch_root_descriptor env enter descriptor data elf k = Some (r, m)"
  shows "launched k \<le> launched m"
proof -
  have settle: "launched x \<le> launched y" if "settle_root env enter slot started x = Some (r, y)" for slot started x y r
    using that destroy_counts [OF assms(1)] by (fastforce simp: settle_root_def split: if_splits)
  have start: "launched m' = launched k + 1" if "acquire_process_console env slot (start_root d data elf slot k) = (b, m')"
    for slot d b m'
    using launched_helpers(3) [of env slot "start_root d data elf slot k"] by (simp add: that)
  have rest: "launched k \<le> launched m"
    if outcome: "(case acquire_process_console env slot (start_root d data elf slot k) of
      (False, k) \<Rightarrow> Some (APP_RESULT_START_FAILED, on_process slot (\<lambda>p. process_zero) (destroy_data env elf data k))
    | (True, k) \<Rightarrow>
        (case enter (EntryCall (the (app_entry d))) slot (enter_root slot k) of
           None \<Rightarrow> None | Some (started, k) \<Rightarrow> settle_root env enter slot started k)) = Some (r, m)" for slot d
  proof -
    obtain b m' where acquire: "acquire_process_console env slot (start_root d data elf slot k) = (b, m')" by fastforce
    show ?thesis
    proof (cases b)
      case True
      then obtain started x where run: "enter (EntryCall (the (app_entry d))) slot (enter_root slot m') = Some (started, x)"
        and "settle_root env enter slot started x = Some (r, m)"
        using outcome acquire by (auto split: option.splits)
      then show ?thesis using countsD [OF assms(1) run] settle start [OF acquire] by fastforce
    qed (use outcome acquire start [OF acquire] in auto)
  qed
  show ?thesis
    using assms(2) rest unfolding launch_root_parts by (auto split: option.splits if_splits)
qed

lemma exec_counts:
  assumes "counts enter" and "tabos_app_exec_args env enter caller path argc argv k = Some (r, m)"
  shows "launched k \<le> launched m"
proof -
  obtain a k1 where create: "loader_elf_application_create env path argc argv k = (a, k1)" by fastforce
  obtain ok k2 where settings: "inherit_settings a k1 = (ok, k2)" by fastforce
  have same: "launched k1 = launched k" "launched k2 = launched k"
    by (rule launched_core [OF start_application_keeps(1) [OF create settings]],
        rule launched_core [OF start_application_keeps(2) [OF create settings]])
  have "launched (loader_elf_application_destroy env a k2) = launched k"
    using launched_core [OF destroy_application_keeps(1)] same by simp
  moreover have "launched k2 \<le> launched m"
    if "launch_child_descriptor env enter caller (loader_elf_application_descriptor a k2) a True k2 = Some (r, m)"
    by (rule launch_child_counts [OF assms(1) that])
  ultimately show ?thesis
    using assms(2) same unfolding tabos_app_exec_args_def create prod.case settings
    by (cases ok) (auto split: if_splits)
qed

lemma launch_path_counts:
  assumes "counts enter" and "tabos_app_launch_path_args env enter path argc argv k = Some (r, m)"
  shows "launched k \<le> launched m"
proof -
  obtain a k1 where create: "loader_elf_application_create env path argc argv k = (a, k1)" by fastforce
  have "launched k1 = launched k" using launched_core [OF create_keeps [of env path argc argv k]] create by simp
  moreover have "launched k1 \<le> launched m"
    if "launch_root_descriptor env enter (loader_elf_application_descriptor a k1) a True k1 = Some (r, m)"
    by (rule launch_root_counts [OF assms(1) that])
  ultimately show ?thesis
    using assms(2) unfolding tabos_app_launch_path_args_def create prod.case by (auto split: if_splits)
qed

lemma app_step_counts:
  assumes "counts enter" and "app_step env enter call k = Some (a, m)"
  shows "launched k \<le> launched m"
proof (cases "launches call")
  case True
  have name: "launched k \<le> launched m" if "tabos_app_launch env enter name k = Some (r, m)" for name r
    using that launch_root_counts [OF assms(1)] by (auto simp: tabos_app_launch_def split: if_splits option.splits)
  have child: "launched k \<le> launched m" if "kernel_process_launch_child env enter caller name k = Some (r, m)" for caller name r
    using that launch_child_counts [OF assms(1)] by (auto simp: kernel_process_launch_child_def split: if_splits option.splits)
  show ?thesis
    using True assms(2) name child launch_path_counts [OF assms(1)] exec_counts [OF assms(1)]
    by (cases call) auto
next
  case False
  show ?thesis using frame_fields(6) [OF quiet_step(1) [OF assms(2) False]] by simp
qed

lemma program_counts:
  assumes "counts enter" and "run_program env enter p k = Some (r, m)"
  shows "launched k \<le> launched m"
  using assms(2)
proof (induction p arbitrary: k)
  case (Call call continue)
  then obtain a k1 where "app_step env enter call k = Some (a, k1)" and "run_program env enter (continue a) k1 = Some (r, m)"
    by (auto split: option.splits)
  then show ?case using app_step_counts [OF assms(1)] Call.IH by (meson le_trans rangeI)
qed simp

lemma collect_launched: "launched (elf_collect_status slot a k) = launched k"
proof -
  obtain status m where take: "tabos_app_take_child_status (Some slot) k = (status, m)" by fastforce
  have "launched m = launched k" using frame_fields(6) [OF take_status_frame(1) [of "Some slot" k]] by (simp add: take)
  moreover have "launched (on_elf a f m) = launched m" for f by (simp add: on_elf_def)
  ultimately show ?thesis by (simp add: elf_collect_status_def take store_exec_status_def split: option.split)
qed

lemma serve_counts:
  assumes "counts enter" and "elf_serve_exec env enter slot a k = Some (r, m)"
  shows "launched k \<le> launched m"
proof -
  have elf: "launched (on_elf a f x) = launched x" for f x by (simp add: on_elf_def)
  have stored: "launched (store_exec_status a s (snd (tabos_app_take_child_status (Some slot) x))) = launched x" for s x
    unfolding store_exec_status_def elf using frame_fields(6) [OF take_status_frame(1)] by metis
  show ?thesis
    using assms(2) exec_counts [OF assms(1)]
    by (fastforce simp: elf_serve_exec_def elf stored bind_eq_Some_conv split: option.splits if_splits)
qed

lemma update_counts:
  assumes "counts enter" and "elf_update env enter slot k = Some m"
  shows "launched k \<le> launched m"
proof -
  define a where "a = ctx_application_data (context_of slot k)"
  have same: "launched x = launched y" if "frame x = frame y" for x y using frame_fields(6) [OF that] .
  have quiet: "launched (kernel_process_fail slot cause s k) = launched k" "launched (elf_slice env slot a x) = launched x"
    "launched (tabos_app_request_exit slot s (on_elf a f x)) = launched x" for cause s x f
    using same [OF fail_frame] same [OF slice_frame] same [OF request_exit_frame] by (simp_all add: on_elf_def)
  show ?thesis
    using assms(2) serve_counts [OF assms(1)] collect_launched [of slot a k]
    unfolding elf_update_def a_def [symmetric] Let_def
    by (fastforce simp: quiet bind_eq_Some_conv split: option.splits if_splits)
qed

lemma callback_counts: "counts (callback_at env depth)"
proof (induction depth)
  case 0
  then show ?case by (simp add: counts_def)
next
  case (Suc depth)
  have "launched k \<le> launched k'" if run: "run_callback env (callback_at env depth) callback slot k = Some (r, k')"
    for callback slot k r k'
  proof -
    have entry: "launched (snd (elf_entry env slot k)) = launched k" by (rule launched_core [OF entry_core])
    have cleanup: "launched (elf_cleanup env slot k) = launched k"
      unfolding elf_cleanup_def by (rule launched_core) simp
    show ?thesis
      using run entry cleanup update_counts [OF Suc, of env slot k] program_counts [OF Suc, of env "ke_app env callback slot k" k]
      by (cases callback) (auto simp: run_callback_cases split: if_splits)
  qed
  then show ?case by (simp add: counts_def) fastforce
qed

section \<open>Launching a child\<close>

text \<open>What an entry callback of a process that does not want its exit must do to the chain.\<close>

definition entry_good :: "runner \<Rightarrow> bool" where
  "entry_good enter \<longleftrightarrow>
     (\<forall>code slot chain k r k'.
        represents {} chain k \<and> chain \<noteq> [] \<and> last chain = slot \<and> \<not> exit_wanted slot k \<and>
        enter (EntryCall code) slot k = Some (r, k') \<and> launched k' < LAUNCH_LIMIT \<longrightarrow>
        (\<exists>ext. represents {} (chain @ ext) k' \<and>
           (\<forall>s \<in> set (butlast chain). exit_wanted s k' = exit_wanted s k) \<and>
           (\<not> r \<or> exit_wanted slot k' \<longrightarrow> ext = [])))"

definition good :: "runner \<Rightarrow> bool" where
  "good enter \<longleftrightarrow> counts enter \<and> quiet_cleanup enter \<and> entry_good enter"

text \<open>
  What a launch does to a chain: it stays, or grows by the child and what the child started. The exit
  wishes of the processes that wait are kept, and that of the launching one if its child is running.
\<close>

definition extends :: "nat list \<Rightarrow> kernel \<Rightarrow> app_result \<Rightarrow> kernel \<Rightarrow> bool" where
  "extends chain k r m \<longleftrightarrow>
     (\<exists>ext. represents {} (chain @ ext) m \<and> (\<forall>s \<in> set (butlast chain). exit_wanted s m = exit_wanted s k) \<and>
        (r \<noteq> APP_RESULT_OK \<longrightarrow> ext = []) \<and>
        (ext \<noteq> [] \<longrightarrow> (\<forall>s \<in> set chain. exit_wanted s m = exit_wanted s k)))"

lemma extends_refused:
  assumes "represents (if elf then {data} else {}) chain k" and "elf \<longleftrightarrow> data \<noteq> 0"
  shows "extends chain k r (destroy_data env elf data k)"
  using refuse_spec [OF assms] unfolding extends_def by (intro exI [of _ "[]"]) simp

lemma run_entry_spec:
  assumes good: "good enter" and before: "represents {} (chain @ [child]) k"
    and new: "\<not> column owned_of k ! child" "\<not> exit_wanted child k"
    and run: "run_entry env enter d child k = Some (started, m)" and limit: "launched m < LAUNCH_LIMIT"
  shows "\<exists>ext. represents {} (chain @ [child] @ ext) m \<and> (\<forall>s \<in> set chain. exit_wanted s m = exit_wanted s k) \<and>
    (\<not> started \<or> exit_wanted child m \<longrightarrow> ext = [])"
proof -
  obtain acquired k1 where acquire: "acquire_process_console env child k = (acquired, k1)" by fastforce
  note after = acquire_represents [OF before, of env acquired k1, simplified, OF new(1) acquire]
  show ?thesis
  proof (cases acquired)
    case True
    then have enter: "enter (EntryCall (the (app_entry d))) child k1 = Some (started, m)"
      using run acquire by (simp add: run_entry_def)
    have "entry_good enter" using good by (simp add: good_def)
    then obtain ext where "represents {} ((chain @ [child]) @ ext) m"
      and "\<forall>s \<in> set (butlast (chain @ [child])). exit_wanted s m = exit_wanted s k1"
      and "\<not> started \<or> exit_wanted child m \<longrightarrow> ext = []"
      using after(1,3) new(2) enter limit unfolding entry_good_def
      by (metis append_is_Nil_conv last_snoc not_Cons_self2)
    then show ?thesis using after(3) by (intro exI [of _ ext]) simp
  next
    case False
    then have "m = k1" "\<not> started" using run acquire by (simp_all add: run_entry_def)
    then show ?thesis using after(1,3) by (intro exI [of _ "[]"]) simp
  qed
qed

lemma settle_spec:
  assumes good: "good enter" and chain: "chain \<noteq> []" and before: "represents {} (chain @ [child] @ ext) k"
    and ends: "\<not> started \<or> exit_wanted child k \<longrightarrow> ext = []"
    and run: "settle_child env enter child started k = Some (r, m)"
  shows "extends chain k r m"
proof (cases "\<not> started \<or> exit_wanted child k")
  case True
  then have "ext = []" using ends by simp
  define k' where "k' = (if started then k else on_context child (\<lambda>c. c\<lparr>ctx_exit_status := - 1\<rparr>) k)"
  have frame: "frame k' = frame k" by (simp add: k'_def frame_context)
  have finish: "finish_child_process env enter child k' = Some m"
    using run True by (cases started) (auto simp: settle_child_def k'_def exit_wanted_def)
  have "represents {} (chain @ [child]) k'"
    using before \<open>ext = []\<close> represents_frame(2) [OF frame] by simp
  note finished = finish_spec [OF _ this chain finish]
  have wanted: "exit_wanted s k' = exit_wanted s k" for s
    by (simp add: k'_def wanted_context) (simp add: exit_wanted_def)
  show ?thesis
    unfolding extends_def using finished good by (intro exI [of _ "[]"]) (simp add: good_def wanted)
next
  case False
  then have "r = APP_RESULT_OK" "m = log_call (RuntimeNotify RUNTIME_EVENT_APPLICATION) k"
    using run by (auto simp: settle_child_def exit_wanted_def)
  then show ?thesis
    unfolding extends_def using before represents_frame(2) [OF frame_log] by (intro exI [of _ "[child] @ ext"]) simp
qed

lemma launch_child_spec:
  assumes good: "good enter" and before: "represents (if elf then {data} else {}) chain k" and elf: "elf \<longleftrightarrow> data \<noteq> 0"
    and run: "launch_child_descriptor env enter caller descriptor data elf k = Some (r, m)"
    and limit: "launched m < LAUNCH_LIMIT"
  shows "extends chain k r m"
proof -
  note refused = extends_refused [OF before elf]
  have started: "extends chain k r m"
    if parent: "\<not> child_refused parent k" and slot: "free_process_slot k = Some child"
      and room: "foreground_depth k < KERNEL_PROCESS_CAPACITY"
      and entry: "run_entry env enter d child (enter_child env d data elf parent child k) = Some (ok, k1)"
      and settle: "settle_child env enter child ok k1 = Some (r, m)" for parent child d ok k1
  proof -
    have counts: "counts enter" using good by (simp add: good_def)
    note c1 = entry_counts [OF counts entry] and c2 = settle_counts [OF counts settle]
    have "launched k + 1 < LAUNCH_LIMIT" and limit1: "launched k1 < LAUNCH_LIMIT" using c1 c2 limit by simp_all
    note entered = enter_child_spec [OF before elf parent slot room this(1)]
    obtain ext where ext: "represents {} (chain @ [child] @ ext) k1"
      and same: "\<forall>s \<in> set chain. exit_wanted s k1 = exit_wanted s (enter_child env d data elf parent child k)"
      and ends: "\<not> ok \<or> exit_wanted child k1 \<longrightarrow> ext = []"
      using run_entry_spec [OF good entered(2,4,5) entry limit1] by blast
    have same: "exit_wanted s k1 = exit_wanted s k" if "s \<in> set chain" for s using same entered(6) that by simp
    have "extends chain k1 r m" by (rule settle_spec [OF good entered(1) ext ends settle])
    moreover have "exit_wanted s k1 = exit_wanted s k" if "s \<in> set (butlast chain)" for s
      using same [OF in_set_butlastD [OF that]] .
    ultimately show ?thesis using same unfolding extends_def by (elim exE) (rule exI, auto)
  qed
  show ?thesis
    using run started refused unfolding launch_child_parts
    by (auto split: option.splits if_splits simp: not_le)
qed

section \<open>Launching the first application\<close>

text \<open>The effect of asking for the console while nobody holds it, by columns.\<close>

lemma acquire_effect:
  assumes acquire: "acquire_process_console env slot k = (acquired, m)" and slot: "slot < length (processes k)"
    and free: "\<not> column owned_of k ! slot" "c_foreground_token (k_console k) = 0"
  shows "column p_occupied m = column p_occupied k" "column p_id m = column p_id k"
    "column p_parent_id m = column p_parent_id k" "column p_elf_destroy m = column p_elf_destroy k"
    "column descriptor_of m = column descriptor_of k" "column data_of m = column data_of k"
    "column p_state m = column p_state k"
    and "foreground_stack m = foreground_stack k" "foreground_depth m = foreground_depth k"
      "next_process_id m = next_process_id k" "foreground_process m = foreground_process k" "launched m = launched k"
      "k_elf m = k_elf k" "k_pointer m = k_pointer k"
    and "exit_wanted s m = exit_wanted s k"
    and "c_foreground_token (k_console m) = (if column owned_of m ! slot then column session_of m ! slot else 0)"
    and "column owned_of m ! slot \<Longrightarrow> column session_of m ! slot \<noteq> 0"
    and "\<not> acquired \<Longrightarrow> c_foreground_token (k_console m) = 0"
proof -
  have same: "column f m = column f k" if "\<And>p x y. f (p\<lparr>p_context := (p_context p)\<lparr>ctx_console := x, ctx_console_owned := y\<rparr>\<rparr>) = f p"
    "\<And>p x. f (p\<lparr>p_context := (p_context p)\<lparr>ctx_console := x\<rparr>\<rparr>) = f p" for f :: "kernel_process \<Rightarrow> 'b"
    using acquire by (cases rule: acquire_cases) (simp_all add: that)
  show "column p_occupied m = column p_occupied k" "column p_id m = column p_id k"
    "column p_parent_id m = column p_parent_id k" "column p_elf_destroy m = column p_elf_destroy k"
    "column descriptor_of m = column descriptor_of k" "column data_of m = column data_of k"
    "column p_state m = column p_state k"
    by (rule same; simp add: column_parts)+
  show "foreground_stack m = foreground_stack k" "foreground_depth m = foreground_depth k"
      "next_process_id m = next_process_id k" "foreground_process m = foreground_process k" "launched m = launched k"
      "k_elf m = k_elf k" "k_pointer m = k_pointer k"
    using acquire by (cases rule: acquire_cases; simp)+
  show "exit_wanted s m = exit_wanted s k"
    using acquire by (cases rule: acquire_cases) (simp_all add: wanted_context, simp_all add: exit_wanted_def)
  have last: "column f (on_context slot g k) ! slot = f ((processes k ! slot)\<lparr>p_context := g (p_context (processes k ! slot))\<rparr>)"
    for f :: "kernel_process \<Rightarrow> 'b" and g using slot by simp
  have "\<not> ctx_console_owned (p_context (processes k ! slot))" using free slot by (simp add: column_nth owned_of_def)
  then have facts: "\<not> ctx_console_owned (p_context (processes k ! slot))" .
  have "c_foreground_token (k_console m) = (if column owned_of m ! slot then column session_of m ! slot else 0) \<and>
      (column owned_of m ! slot \<longrightarrow> column session_of m ! slot \<noteq> 0) \<and>
      (\<not> acquired \<longrightarrow> c_foreground_token (k_console m) = 0)"
    by (rule acquire_cases [OF acquire]; use facts free slot in \<open>simp add: last session_of_def owned_of_def\<close>)
  then show "c_foreground_token (k_console m) = (if column owned_of m ! slot then column session_of m ! slot else 0)"
    and "column owned_of m ! slot \<Longrightarrow> column session_of m ! slot \<noteq> 0"
    and "\<not> acquired \<Longrightarrow> c_foreground_token (k_console m) = 0"
    by auto
qed

lemma linked_nil:
  "linked [] k \<longleftrightarrow> length (processes k) = KERNEL_PROCESS_CAPACITY \<and> length (foreground_stack k) = KERNEL_PROCESS_CAPACITY \<and>
     foreground_depth k = 0 \<and> (\<forall>i < KERNEL_PROCESS_CAPACITY. \<not> column p_occupied k ! i) \<and> unat (next_process_id k) \<le> launched k"
  by (auto simp: linked_def stack_ids_def)

lemma settle_root_spec:
  assumes good: "good enter" and before: "represents {} (slot # ext) k"
    and ends: "\<not> started \<or> exit_wanted slot k \<longrightarrow> ext = []"
    and run: "settle_root env enter slot started k = Some (r, m)"
  shows "\<exists>ext. represents {} ext m \<and> (r \<noteq> APP_RESULT_OK \<longrightarrow> ext = [])"
proof (cases started)
  case False
  then have ext: "ext = []" using ends by simp
  define k' where "k' = on_context slot (\<lambda>c. c\<lparr>ctx_exit_status := - 1\<rparr>) k"
  have frame: "frame k' = frame k" unfolding k'_def by (rule frame_context) simp_all
  have single: "represents {} ([] @ [slot]) k'" using before ext represents_frame(2) [OF frame] by simp
  note facts = representsD [OF single]
  have slot: "slot < length (processes k')" "column p_occupied k' ! slot"
    using linked_slot [OF facts(1), of slot] linkedD(5) [OF facts(1)] by auto
  obtain d where destroy: "destroy_process env enter slot k' = Some d"
    and m: "m = set_pointer_owner 0 (d\<lparr>foreground_process := None, foreground_depth := 0\<rparr>)"
    using run False by (auto simp: settle_root_def k'_def)
  note d_spec = destroy_spec [OF _ slot destroy]
  have cleanup: "quiet_cleanup enter" using good by (simp add: good_def)
  note cleared = d_spec(1) [OF cleanup, unfolded cleared_columns_def]
  have columns: "column f m = column f d" for f :: "kernel_process \<Rightarrow> 'b" by (simp add: m)
  have "linked [] m"
    by (rule linked_pop [where chain = "[]", simplified, OF facts(1) [simplified]])
      (use cleared d_spec(2-6) [OF cleanup] in \<open>simp_all add: columns\<close>, simp_all add: m)
  moreover have "owning {} [] m"
    by (rule owning_pop [OF facts(2) slot(1), where d = 0])
      (use cleared d_spec(7) [OF cleanup] in \<open>simp_all add: columns\<close>, simp add: m)
  moreover have "seated [] m"
    using facts(3) d_spec(8) [OF cleanup] by (auto simp: seated_def m set_owner_owner)
  ultimately show ?thesis by (intro exI [of _ "[]"]) (simp add: represents_def)
next
  case True
  then have r: "r = APP_RESULT_OK" and m: "m = log_call (RuntimeNotify RUNTIME_EVENT_APPLICATION)
      (if ctx_exit_requested (context_of slot k) then panic_root_process env slot k else k)"
    using run by (simp_all add: settle_root_def)
  show ?thesis
  proof (cases "ctx_exit_requested (context_of slot k)")
    case True
    then have single: "represents {} [slot] k" using ends before by (simp add: exit_wanted_def)
    then have "column p_id k ! slot = 0" using last_id_zero [OF representsD(1) [OF single]] by simp
    then show ?thesis
      using panic_represents [OF single] True represents_frame(2) [OF frame_log] m by (intro exI [of _ "[slot]"]) (simp add: r)
  qed (use before m r represents_frame(2) [OF frame_log] in auto)
qed

lemma enter_root_spec:
  assumes before: "represents (if elf then {data} else {}) [] k" and elf: "elf \<longleftrightarrow> data \<noteq> 0"
    and slot: "free_process_slot k = Some slot"
    and acquire: "acquire_process_console env slot (start_root d data elf slot k) = (acquired, m)"
  shows "acquired \<Longrightarrow> represents {} [slot] (enter_root slot m)"
    and "acquired \<Longrightarrow> \<not> exit_wanted slot (enter_root slot m)"
    and "\<not> acquired \<Longrightarrow> represents {} [] (on_process slot (\<lambda>p. process_zero) (destroy_data env elf data m))"
proof -
  note linked = representsD(1) [OF before] and owning = representsD(2) [OF before] and seated = representsD(3) [OF before]
  note facts = linkedD [OF linked] and free = linked_free [OF linked slot]
  define k1 where "k1 = start_root d data elf slot k"
  have k1: "column f k1 = (column f k)[slot := f (new_process 0 TABOS_PROCESS_ID_INVALID d data elf)]" for f :: "kernel_process \<Rightarrow> 'b"
    by (simp add: k1_def start_root_def)
  have k1_fields: "foreground_stack k1 = foreground_stack k" "foreground_depth k1 = 0" "next_process_id k1 = 1"
    "launched k1 = launched k + 1" "k_elf k1 = k_elf k" "k_console k1 = k_console k" "k_pointer k1 = k_pointer k"
    "foreground_process k1 = None" "length (processes k1) = length (processes k)"
    using facts(3) seated by (simp_all add: k1_def start_root_def seated_def)
  have ready: "slot < length (processes k1)" "\<not> column owned_of k1 ! slot" "c_foreground_token (k_console k1) = 0"
    using free(1) seated by (simp_all add: k1_fields k1 owned_of_def seated_def)
  note effect = acquire_effect [OF acquire [folded k1_def] ready]
  define e where "e = enter_root slot m"
  have e: "column f e = column f m" for f :: "kernel_process \<Rightarrow> 'b" by (simp add: e_def enter_root_def Let_def)
  have data: "ctx_application_data (context_of slot m) = data"
  proof -
    have "column data_of m ! slot = data" using free(1) effect(6) by (simp add: k1 data_of_def)
    moreover have "slot < length (processes m)"
      using arg_cong [OF effect(1), of length] ready(1) by simp
    ultimately show ?thesis by (simp add: column_nth data_of_def context_of_def)
  qed
  have e_fields: "foreground_stack e = (foreground_stack k)[0 := 0]" "foreground_depth e = 1" "next_process_id e = 1"
    "launched e = launched k + 1" "k_elf e = k_elf k" "foreground_process e = Some slot" "k_console e = k_console m"
    "pointer_initialized (k_pointer e) = pointer_initialized (k_pointer k)"
    by (simp_all add: e_def enter_root_def Let_def effect k1_fields)
  have owner: "pointer_initialized (k_pointer k) \<Longrightarrow> pointer_owner e = data"
  proof -
    define x where "x = m\<lparr>foreground_process := Some slot, foreground_stack := (foreground_stack m)[0 := 0],
      foreground_depth := 1, last_exit_valid := False\<rparr>"
    have "ctx_application_data (context_of slot x) = data" using data by (simp add: x_def context_of_def)
    then have "e = set_pointer_owner data x" by (simp add: e_def enter_root_def Let_def x_def)
    then show "pointer_initialized (k_pointer k) \<Longrightarrow> pointer_owner e = data"
      by (simp add: set_owner_owner) (simp add: x_def effect k1_fields)
  qed
  have entered: "represents {} ([] @ [slot]) e"
  proof -
    have "linked ([] @ [slot]) e"
    proof (rule linked_push [OF linked free, where new = 0 and d = d])
      show "column p_parent_id e = (column p_parent_id k)[slot := last (TABOS_PROCESS_ID_INVALID # stack_ids k)]"
        using facts(3) by (simp add: e effect k1 stack_ids_def)
    qed (use facts in \<open>simp_all add: e effect k1 e_fields descriptor_of_def stack_ids_def KERNEL_PROCESS_CAPACITY_def\<close>)
    moreover have "owning {} ([] @ [slot]) e"
      by (rule owning_push [OF owning free _ _ _ elf]) (simp_all add: e effect k1 e_fields data_of_def)
    moreover have "seated ([] @ [slot]) e"
      using owner free(1) effect(16,17)
      by (simp add: seated_def e_fields e effect k1) (simp add: data_of_def k1_fields)
    ultimately show ?thesis by (simp add: represents_def)
  qed
  then show "represents {} [slot] (enter_root slot m)" by (simp add: e_def)
  show "\<not> exit_wanted slot (enter_root slot m)"
  proof -
    have "exit_wanted slot (enter_root slot m) = exit_wanted slot m" by (simp add: enter_root_def Let_def)
    also have "\<dots> = exit_wanted slot k1" by (rule effect)
    finally show ?thesis using free(1) by (simp add: k1_def start_root_def exit_wanted_def context_of_def)
  qed
  show "represents {} [] (on_process slot (\<lambda>p. process_zero) (destroy_data env elf data m))" if "\<not> acquired"
  proof -
    define g where "g = destroy_data env elf data m"
    note gone = destroy_data_core [of env elf data m, folded g_def]
    have columns: "column f g = column f m" for f :: "kernel_process \<Rightarrow> 'b" by (rule column_core) (rule gone(1))
    define z where "z = on_process slot (\<lambda>p. process_zero) g"
    have occupied: "column p_occupied z = (column p_occupied k)[slot := False]"
      by (simp add: z_def columns effect k1 process_zero_def)
    have "length (processes z) = length (processes k)" using arg_cong [OF occupied, of length] by simp
    moreover have "\<not> column p_occupied z ! i" if "i < KERNEL_PROCESS_CAPACITY" for i
      using that linked by (cases "i = slot") (auto simp: occupied linked_nil)
    ultimately have "linked [] z"
      using linked core_fields [OF gone(1)] by (simp add: linked_nil) (simp add: z_def effect k1_fields)
    moreover have "owning {} [] z"
      using owning gone(2) by (auto simp: owning_def elf_slots_def z_def effect k1_fields split: if_splits)
    moreover have "seated [] z"
      using seated gone(3-5) effect(18) that core_fields(5) [OF gone(1)]
      by (auto simp: seated_def z_def effect k1_fields pointer_owner_def)
    ultimately show ?thesis by (simp add: represents_def z_def g_def)
  qed
qed

lemma launch_root_spec:
  assumes good: "good enter" and before: "represents (if elf then {data} else {}) chain k" and elf: "elf \<longleftrightarrow> data \<noteq> 0"
    and run: "launch_root_descriptor env enter descriptor data elf k = Some (r, m)" and limit: "launched m < LAUNCH_LIMIT"
  shows "extends chain k r m"
proof -
  note refused = extends_refused [OF before elf]
  show ?thesis
  proof (cases "foreground_process k")
    case (Some slot)
    then show ?thesis using run refused unfolding launch_root_parts by (auto split: option.splits)
  next
    case None
    then have chain: "chain = []" using before by (auto simp: represents_def seated_def split: if_splits)
    have counts: "counts enter" using good by (simp add: good_def)
    have started: "extends chain k r m"
      if slot: "free_process_slot k = Some slot" and
        outcome: "(case acquire_process_console env slot (start_root d data elf slot k) of
            (False, k) \<Rightarrow> Some (APP_RESULT_START_FAILED, on_process slot (\<lambda>p. process_zero) (destroy_data env elf data k))
          | (True, k) \<Rightarrow>
              (case enter (EntryCall (the (app_entry d))) slot (enter_root slot k) of
                 None \<Rightarrow> None | Some (started, k) \<Rightarrow> settle_root env enter slot started k)) = Some (r, m)" for slot d
    proof -
      obtain acquired x where acquire: "acquire_process_console env slot (start_root d data elf slot k) = (acquired, x)"
        by fastforce
      note entered = enter_root_spec [OF before [unfolded chain] elf slot acquire]
      show ?thesis
      proof (cases acquired)
        case True
        obtain ok y where entry: "enter (EntryCall (the (app_entry d))) slot (enter_root slot x) = Some (ok, y)"
          and settle: "settle_root env enter slot ok y = Some (r, m)"
          using outcome acquire True by (auto split: option.splits)
        have "launched y \<le> launched m"
          using settle destroy_counts [OF counts] by (fastforce simp: settle_root_def split: if_splits)
        then have "launched y < LAUNCH_LIMIT" using limit by simp
        moreover have "entry_good enter" using good by (simp add: good_def)
        ultimately obtain ext where "represents {} ([slot] @ ext) y" and "\<not> ok \<or> exit_wanted slot y \<longrightarrow> ext = []"
          using entered(1,2) [OF True] entry unfolding entry_good_def by (metis last_ConsL not_Cons_self2)
        then obtain ext' where "represents {} ext' m" "r \<noteq> APP_RESULT_OK \<longrightarrow> ext' = []"
          using settle_root_spec [OF good _ _ settle] by (metis append_Cons append_Nil)
        then show ?thesis unfolding extends_def chain by (intro exI [of _ ext']) simp
      next
        case False
        then show ?thesis
          using outcome acquire entered(3) unfolding extends_def chain by (intro exI [of _ "[]"]) simp
      qed
    qed
    show ?thesis
      using run started refused None unfolding launch_root_parts by (auto split: option.splits)
  qed
qed

end
