(* ===== verification/ProcessInvariant.thy ===== *)
theory ProcessInvariant
  imports ProcessLaunch
begin

text \<open>
  The invariant over whole runs: the API calls of applications, their programs under the rules of
  \<open>well_behaved\<close>, the callbacks at every depth, and the operations of the runtime.
\<close>

section \<open>Starting an ELF application\<close>

text \<open>The allocator answers with memory that is not in use, as \<^verbatim>\<open>calloc\<close> does.\<close>

definition calloc_fresh :: "process_env \<Rightarrow> bool" where
  "calloc_fresh env \<longleftrightarrow> (\<forall>k a. ke_calloc env k = Some a \<longrightarrow> a \<noteq> 0 \<and> k_elf k a = None)"

lemma represents_core:
  assumes "core m = core k" and "c_foreground_token (k_console m) = c_foreground_token (k_console k)"
    and "k_pointer m = k_pointer k"
  shows "linked chain m = linked chain k" and "seated chain m = seated chain k"
    and "dom (k_elf m) = dom (k_elf k) \<Longrightarrow> owning pending chain m = owning pending chain k"
    and "elf_slots chain m = elf_slots chain k" and "column f m = column f k"
proof -
  have columns: "column f m = column f k" for f :: "kernel_process \<Rightarrow> 'b" by (rule column_core) (rule assms(1))
  show "column f m = column f k" by (rule columns)
  note fields = core_fields [OF assms(1)]
  show "linked chain m = linked chain k" by (rule linked_cong) (simp_all add: columns fields)
  show "seated chain m = seated chain k"
    using assms(2,3) by (simp add: seated_def columns fields pointer_owner_def)
  show "owning pending chain m = owning pending chain k" if "dom (k_elf m) = dom (k_elf k)"
    by (rule owning_cong) (simp_all add: columns that)
  show "elf_slots chain m = elf_slots chain k" by (simp add: elf_slots_def columns)
qed

lemma create_spec:
  assumes fresh: "calloc_fresh env" and before: "represents {} chain k"
    and create: "loader_elf_application_create env path argc argv k = (a, m)"
  shows "represents (if a \<noteq> 0 then {a} else {}) chain m"
proof -
  have "a = 0 \<and> dom (k_elf m) = dom (k_elf k) \<or> a \<noteq> 0 \<and> k_elf k a = None \<and> dom (k_elf m) = insert a (dom (k_elf k))"
  proof -
    have fresh: "ke_calloc env k = Some x \<Longrightarrow> x \<noteq> 0 \<and> k_elf k x = None" for x
      using fresh unfolding calloc_fresh_def by blast
    have remove: "dom (k_elf (elf_free x y)) = dom (k_elf y) - {x}" for x y by (simp add: elf_free_def)
    have on: "dom (k_elf (on_elf x f y)) = dom (k_elf y)" "dom (k_elf (on_resources x g y)) = dom (k_elf y)" for x f g y
      by (auto simp: on_elf_def on_resources_def dom_def)
    have undo: "dom (k_elf k) - {x} = dom (k_elf k)" "0 < x" if "ke_calloc env k = Some x" for x
      using fresh [OF that] by auto
    have "fst c = 0 \<and> dom (k_elf (snd c)) = dom (k_elf k) \<or>
        fst c \<noteq> 0 \<and> k_elf k (fst c) = None \<and> dom (k_elf (snd c)) = insert (fst c) (dom (k_elf k))"
      if "c = loader_elf_application_create env path argc argv k" for c
      unfolding that loader_elf_application_create_def Let_def
      by (simp add: remove on fresh undo split: option.split)
    from this [OF refl] show ?thesis by (simp add: create)
  qed
  moreover have core: "core m = core k" using create_keeps [of env path argc argv k] create by simp
  have parts: "k_console m = k_console k \<and> k_pointer m = k_pointer k"
  proof -
    have "k_console (snd (loader_elf_application_create env path argc argv k)) = k_console k \<and>
        k_pointer (snd (loader_elf_application_create env path argc argv k)) = k_pointer k"
      unfolding loader_elf_application_create_def Let_def
      by (simp add: elf_free_def on_elf_def on_resources_def split: option.split)
    then show ?thesis by (simp add: create)
  qed
  note same = represents_core [OF core]
  have "linked chain m" "seated chain m" "elf_slots chain m = elf_slots chain k" "column data_of m = column data_of k"
    "column p_elf_destroy m = column p_elf_destroy k"
    using before same parts by (simp_all add: represents_def)
  moreover have "k_elf k a = None \<longleftrightarrow> a \<notin> dom (k_elf k)" by (simp add: domIff)
  ultimately show ?thesis
    using before unfolding represents_def owning_def by (auto simp del: domIff)
qed

lemma settings_spec:
  assumes before: "represents pending chain k" and settings: "inherit_settings a k = (ok, m)"
  shows "represents pending chain m" and "exit_wanted s m = exit_wanted s k"
proof -
  have keep: "services (snd (loader_elf_application_set_working_directory a directory x)) = services x \<and>
      pointer_owner (snd (loader_elf_application_set_working_directory a directory x)) = pointer_owner x" for directory x
    by (simp add: loader_elf_application_set_working_directory_def split: option.split)
  have keep': "services (snd (loader_elf_application_set_tty_mode a mode x)) = services x \<and>
      pointer_owner (snd (loader_elf_application_set_tty_mode a mode x)) = pointer_owner x" for mode x
    by (simp add: loader_elf_application_set_tty_mode_def)
  have "services (snd (inherit_settings a k)) = services k \<and> pointer_owner (snd (inherit_settings a k)) = pointer_owner k"
    using keep keep' by (simp add: inherit_settings_def Let_def split: option.split prod.split bool.split) (metis snd_conv)
  moreover have core: "core m = core k" using settings_keep [of a k] settings by simp
  ultimately have "frame m = frame k" using settings by (intro frame_core) simp_all
  then show "represents pending chain m" using before represents_frame(2) by blast
  show "exit_wanted s m = exit_wanted s k" by (rule wanted_core) (rule core)
qed

lemma exec_spec:
  assumes good: "good enter" and fresh: "calloc_fresh env" and before: "represents {} chain k"
    and run: "tabos_app_exec_args env enter caller path argc argv k = Some (r, m)" and limit: "launched m < LAUNCH_LIMIT"
  shows "extends chain k r m"
proof -
  obtain a k1 where create: "loader_elf_application_create env path argc argv k = (a, k1)" by fastforce
  obtain ok k2 where settings: "inherit_settings a k1 = (ok, k2)" by fastforce
  have created: "represents (if a \<noteq> 0 then {a} else {}) chain k1" by (rule create_spec [OF fresh before create])
  note settled = settings_spec [OF created settings]
  have wanted: "exit_wanted s k1 = exit_wanted s k" "exit_wanted s k2 = exit_wanted s k" for s
    using wanted_core [OF start_application_keeps(1) [OF create settings]] settled(2) by simp_all
  have change: "extends chain k r m" if "extends chain k1 r m \<or> extends chain k2 r m"
    using that unfolding extends_def wanted by blast
  have same: "extends chain k r k" for r using before unfolding extends_def by (intro exI [of _ "[]"]) simp
  show ?thesis
  proof (cases "a = 0")
    case True
    then have "extends chain k1 r k1" for r using created unfolding extends_def by (intro exI [of _ "[]"]) simp
    then show ?thesis
      using True run same change unfolding tabos_app_exec_args_def create prod.case by (auto split: if_splits)
  next
    case False
    have pending: "represents (if True then {a} else {}) chain k2" using settled(1) False by simp
    have "extends chain k2 r m"
      if "launch_child_descriptor env enter caller (loader_elf_application_descriptor a k2) a True k2 = Some (r, m)"
      by (rule launch_child_spec [OF good pending _ that limit]) (simp add: False)
    moreover have "extends chain k2 r (loader_elf_application_destroy env a k2)"
      using extends_refused [OF pending, of r env] False by (simp add: destroy_data_def)
    ultimately show ?thesis
      using False run same change unfolding tabos_app_exec_args_def create prod.case settings
      by (cases ok) (auto split: if_splits)
  qed
qed

lemma launch_path_spec:
  assumes good: "good enter" and fresh: "calloc_fresh env" and before: "represents {} chain k"
    and run: "tabos_app_launch_path_args env enter path argc argv k = Some (r, m)" and limit: "launched m < LAUNCH_LIMIT"
  shows "extends chain k r m"
proof -
  obtain a k1 where create: "loader_elf_application_create env path argc argv k = (a, k1)" by fastforce
  have created: "represents (if a \<noteq> 0 then {a} else {}) chain k1" by (rule create_spec [OF fresh before create])
  have wanted: "exit_wanted s k1 = exit_wanted s k" for s
    using wanted_core [OF create_keeps [of env path argc argv k]] create by simp
  have change: "extends chain k r m" if "extends chain k1 r m" using that unfolding extends_def wanted .
  have same: "extends chain k r k" for r using before unfolding extends_def by (intro exI [of _ "[]"]) simp
  show ?thesis
  proof (cases "a = 0")
    case True
    then have "extends chain k1 r k1" for r using created unfolding extends_def by (intro exI [of _ "[]"]) simp
    then show ?thesis
      using True run same change unfolding tabos_app_launch_path_args_def create prod.case by (auto split: if_splits)
  next
    case False
    have pending: "represents (if True then {a} else {}) chain k1" using created False by simp
    have "extends chain k1 r m"
      if "launch_root_descriptor env enter (loader_elf_application_descriptor a k1) a True k1 = Some (r, m)"
      by (rule launch_root_spec [OF good pending _ that limit]) (simp add: False)
    then show ?thesis
      using False run same change unfolding tabos_app_launch_path_args_def create prod.case by (auto split: if_splits)
  qed
qed

section \<open>Application programs\<close>

text \<open>
  The rules for native applications. A clean-up callback starts nothing (\<open>quiet\<close>). An entry callback may
  start one application; then it does nothing more that could end its own process, and returns success
  if the launch succeeded. An update callback may do anything.
\<close>

primrec succeeds :: "app_program \<Rightarrow> bool" where
  "succeeds (Finish result) = result"
| "succeeds (Call call continue) = (\<forall>answer. succeeds (continue answer))"

primrec entry_disciplined :: "app_program \<Rightarrow> bool" where
  "entry_disciplined (Finish result) = True"
| "entry_disciplined (Call call continue) =
     (if launches call then
        (\<forall>answer. quiet (continue answer)) \<and> succeeds (continue (Result APP_RESULT_OK))
      else if requests_exit call then (\<forall>answer. quiet (continue answer))
      else (\<forall>answer. entry_disciplined (continue answer)))"

definition well_behaved :: "process_env \<Rightarrow> bool" where
  "well_behaved env \<longleftrightarrow>
     (\<forall>code status slot k. quiet (ke_app env (CleanupCall code status) slot k)) \<and>
     (\<forall>code slot k. entry_disciplined (ke_app env (EntryCall code) slot k))"

lemma launch_step_spec:
  assumes good: "good enter" and fresh: "calloc_fresh env" and before: "represents {} chain k"
    and launch: "launches call" and step: "app_step env enter call k = Some (answer, m)" and limit: "launched m < LAUNCH_LIMIT"
  shows "\<exists>r. answer = Result r \<and> extends chain k r m"
proof -
  have same: "extends chain k r k" for r using before unfolding extends_def by (intro exI [of _ "[]"]) simp
  have plain: "represents (if False then {0} else {}) chain k" using before by simp
  have name: "extends chain k r m" if "tabos_app_launch env enter name k = Some (r, m)" for name r
    using that same launch_root_spec [OF good plain _ _ limit]
    by (auto simp: tabos_app_launch_def split: if_splits option.splits)
  have child: "extends chain k r m" if "kernel_process_launch_child env enter caller name k = Some (r, m)" for caller name r
    using that same launch_child_spec [OF good plain _ _ limit]
    by (auto simp: kernel_process_launch_child_def split: if_splits option.splits)
  show ?thesis
    using launch step name child launch_path_spec [OF good fresh before _ limit] exec_spec [OF good fresh before _ limit]
    by (cases call) auto
qed

lemma represents_foreground: "represents pending chain k \<Longrightarrow> chain \<noteq> [] \<Longrightarrow> is_foreground s k \<longleftrightarrow> s = last chain"
  by (auto simp: represents_def seated_def is_foreground_def)

lemma butlast_subset: "s \<in> set (butlast chain) \<Longrightarrow> s \<in> set (butlast (chain @ ext))"
  by (cases "ext = []") (auto simp: butlast_append dest: in_set_butlastD)

lemma butlast_background:
  assumes "represents pending chain k" and "s \<in> set (butlast chain)"
  shows "\<not> is_foreground s k"
proof -
  have "chain \<noteq> []" using assms(2) by auto
  then show ?thesis
    using butlast_other(1) [OF representsD(1) [OF assms(1)] assms(2)] represents_foreground [OF assms(1)] by simp
qed

lemma program_spec:
  assumes good: "good enter" and fresh: "calloc_fresh env" and limit: "launched m < LAUNCH_LIMIT"
    and "represents {} chain k" and "run_program env enter p k = Some (r, m)"
  shows "\<exists>ext. represents {} (chain @ ext) m \<and> (\<forall>s \<in> set (butlast chain). exit_wanted s m = exit_wanted s k)"
  using assms(4,5)
proof (induction p arbitrary: chain k)
  case (Finish result)
  then show ?case by (intro exI [of _ "[]"]) simp
next
  case (Call call continue)
  obtain answer x where step: "app_step env enter call k = Some (answer, x)"
    and rest: "run_program env enter (continue answer) x = Some (r, m)"
    using Call.prems by (auto split: option.splits)
  have "launched x < LAUNCH_LIMIT"
    using program_counts [OF _ rest] good limit by (fastforce simp: good_def)
  have "\<exists>ext. represents {} (chain @ ext) x \<and> (\<forall>s \<in> set (butlast chain). exit_wanted s x = exit_wanted s k)"
  proof (cases "launches call")
    case True
    then show ?thesis
      using launch_step_spec [OF good fresh Call.prems(1) True step \<open>launched x < LAUNCH_LIMIT\<close>] by (auto simp: extends_def)
  next
    case False
    then show ?thesis
      using Call.prems(1) quiet_step [OF step False] represents_frame(2) [OF quiet_step(1) [OF step False]]
        butlast_background [OF Call.prems(1)] by (intro exI [of _ "[]"]) simp
  qed
  then obtain ext where ext: "represents {} (chain @ ext) x" "\<forall>s \<in> set (butlast chain). exit_wanted s x = exit_wanted s k"
    by blast
  obtain ext' where "represents {} ((chain @ ext) @ ext') m"
    and "\<forall>s \<in> set (butlast (chain @ ext)). exit_wanted s m = exit_wanted s x"
    using Call.IH [OF _ ext(1) rest] by auto
  then show ?case using ext(2) butlast_subset by (intro exI [of _ "ext @ ext'"]) fastforce
qed

lemma succeeds_result:
  "succeeds p \<Longrightarrow> run_program env enter p k = Some (r, m) \<Longrightarrow> r"
  by (induction p arbitrary: k) (auto split: option.splits)

text \<open>An entry program under its rule: if it fails or wants its exit, no child of it is running.\<close>

lemma entry_program_spec:
  assumes good: "good enter" and fresh: "calloc_fresh env" and limit: "launched m < LAUNCH_LIMIT"
    and chain: "chain \<noteq> []" "last chain = slot"
    and "represents {} chain k" and "\<not> exit_wanted slot k" and "entry_disciplined p"
    and "run_program env enter p k = Some (r, m)"
  shows "\<exists>ext. represents {} (chain @ ext) m \<and> (\<forall>s \<in> set (butlast chain). exit_wanted s m = exit_wanted s k) \<and>
    (\<not> r \<or> exit_wanted slot m \<longrightarrow> ext = [])"
  using assms(6-9)
proof (induction p arbitrary: k)
  case (Finish result)
  then show ?case by (intro exI [of _ "[]"]) simp
next
  case (Call call continue)
  note before = Call.prems(1)
  obtain answer x where step: "app_step env enter call k = Some (answer, x)"
    and rest: "run_program env enter (continue answer) x = Some (r, m)"
    using Call.prems by (auto split: option.splits)
  have limit': "launched x < LAUNCH_LIMIT"
    using program_counts [OF _ rest] good limit by (fastforce simp: good_def)
  show ?case
  proof (cases "launches call")
    case True
    then have quiet: "quiet (continue answer)" using Call.prems(3) by simp
    obtain a ext where answer: "answer = Result a" and ext: "represents {} (chain @ ext) x"
      and same: "\<forall>s \<in> set (butlast chain). exit_wanted s x = exit_wanted s k"
      and failed: "a \<noteq> APP_RESULT_OK \<longrightarrow> ext = []"
      and running: "ext \<noteq> [] \<longrightarrow> (\<forall>s \<in> set chain. exit_wanted s x = exit_wanted s k)"
      using launch_step_spec [OF good fresh before True step limit'] by (auto simp: extends_def)
    have after: "represents {} (chain @ ext) m"
      using ext represents_frame(2) [OF quiet_program(1) [OF rest quiet]] by simp
    have calm: "exit_wanted s m = exit_wanted s x" if "s \<in> set (butlast (chain @ ext))" for s
      by (rule quiet_program(2) [OF rest quiet butlast_background [OF ext that]])
    have "ext = []" if "\<not> r \<or> exit_wanted slot m"
    proof (rule ccontr)
      assume "ext \<noteq> []"
      then have "a = APP_RESULT_OK" using failed by blast
      then have "r" using Call.prems(3) True rest answer by (auto intro: succeeds_result)
      moreover have "slot \<in> set (butlast (chain @ ext))"
        using \<open>ext \<noteq> []\<close> chain by (auto simp: butlast_append)
      then have "\<not> exit_wanted slot m"
        using calm running \<open>ext \<noteq> []\<close> chain Call.prems(2) by (metis last_in_set)
      ultimately show False using that by simp
    qed
    moreover have "exit_wanted s m = exit_wanted s k" if "s \<in> set (butlast chain)" for s
      using calm [OF butlast_subset [OF that]] same that by simp
    ultimately show ?thesis using after by (intro exI [of _ ext]) simp
  next
    case False
    have x: "represents {} chain x" using before represents_frame(2) [OF quiet_step(1) [OF step False]] by simp
    have same: "exit_wanted s x = exit_wanted s k" if "s \<in> set (butlast chain)" for s
      by (rule quiet_step(2) [OF step False]) (use butlast_background [OF before that] in simp)
    show ?thesis
    proof (cases "requests_exit call")
      case True
      then have quiet: "quiet (continue answer)" using Call.prems(3) False by simp
      have "represents {} chain m" using x represents_frame(2) [OF quiet_program(1) [OF rest quiet]] by simp
      moreover have "exit_wanted s m = exit_wanted s x" if "s \<in> set (butlast chain)" for s
        by (rule quiet_program(2) [OF rest quiet butlast_background [OF x that]])
      ultimately show ?thesis using same by (intro exI [of _ "[]"]) simp
    next
      case silent: False
      then have "\<not> exit_wanted slot x" using quiet_step(2) [OF step False] Call.prems(2) by simp
      moreover have "entry_disciplined (continue answer)" using Call.prems(3) False silent by simp
      ultimately show ?thesis using Call.IH [OF _ x _ _ rest] same by auto
    qed
  qed
qed

section \<open>Callbacks\<close>

lemma entry_keeps:
  "services (snd (elf_entry env slot k)) = services k" "pointer_owner (snd (elf_entry env slot k)) = pointer_owner k"
  by (simp_all add: elf_entry_def Let_def split: option.split load_result.split)

lemma entry_frame: "frame (snd (elf_entry env slot k)) = frame k"
  by (rule frame_core) (simp_all add: entry_core entry_keeps)

lemma callback_log [simp]:
  "represents pending chain (log_call c k) = represents pending chain k" "is_foreground s (log_call c k) = is_foreground s k"
  "table_frame (log_call c k) = table_frame k"
  by (rule represents_frame(2) [OF frame_log], simp add: is_foreground_def, rule table_core, simp_all)

lemma cleanup_spec:
  assumes behaved: "well_behaved env"
    and run: "run_callback env enter (CleanupCall code status) slot k = Some (r, k')"
  shows "table_frame k' = table_frame k" and "pointer_owner k' = pointer_owner k \<or> pointer_owner k' = 0"
    and "\<not> is_foreground s k \<Longrightarrow> exit_wanted s k' = exit_wanted s k"
proof -
  have "table_frame k' = table_frame k \<and> (pointer_owner k' = pointer_owner k \<or> pointer_owner k' = 0) \<and>
      (\<not> is_foreground s k \<longrightarrow> exit_wanted s k' = exit_wanted s k)"
  proof (cases "code = ElfCleanup")
    case True
    then have "k' = elf_release_resources env (ctx_application_data (context_of slot k)) k"
      using run by (simp add: elf_cleanup_def)
    then show ?thesis
      using release_resources_owner [of env "ctx_application_data (context_of slot k)" k]
        table_core [OF release_resources_keeps, of env "ctx_application_data (context_of slot k)" k]
        wanted_core [OF release_resources_keeps(1), of s env "ctx_application_data (context_of slot k)" k] by simp
  next
    case False
    then have program: "run_program env enter (ke_app env (CleanupCall code status) slot k) k = Some (r, k')"
      using run by (simp add: run_callback_cases)
    have quiet: "quiet (ke_app env (CleanupCall code status) slot k)" using behaved by (simp add: well_behaved_def)
    show ?thesis
      using quiet_program(1) [OF program quiet] quiet_program(2) [OF program quiet, of s] by (simp add: frame_table)
  qed
  then show "table_frame k' = table_frame k" and "pointer_owner k' = pointer_owner k \<or> pointer_owner k' = 0"
    and "\<not> is_foreground s k \<Longrightarrow> exit_wanted s k' = exit_wanted s k" by auto
qed

lemma entry_callback_spec:
  assumes good: "good enter" and fresh: "calloc_fresh env" and behaved: "well_behaved env"
    and limit: "launched m < LAUNCH_LIMIT" and chain: "chain \<noteq> []" "last chain = slot"
    and before: "represents {} chain k" and calm: "\<not> exit_wanted slot k"
    and run: "run_callback env enter (EntryCall code) slot k = Some (r, m)"
  shows "\<exists>ext. represents {} (chain @ ext) m \<and> (\<forall>s \<in> set (butlast chain). exit_wanted s m = exit_wanted s k) \<and>
    (\<not> r \<or> exit_wanted slot m \<longrightarrow> ext = [])"
proof (cases "code = ElfEntry")
  case True
  then have m: "m = snd (elf_entry env slot k)" using run by simp
  show ?thesis
    using before represents_frame(2) [OF entry_frame] wanted_core [OF entry_core] by (intro exI [of _ "[]"]) (simp add: m)
next
  case False
  then have program: "run_program env enter (ke_app env (EntryCall code) slot k) k = Some (r, m)"
    using run by (simp add: run_callback_cases)
  have "entry_disciplined (ke_app env (EntryCall code) slot k)" using behaved by (simp add: well_behaved_def)
  then show ?thesis by (rule entry_program_spec [OF good fresh limit chain before calm _ program])
qed

lemma good_callbacks:
  assumes fresh: "calloc_fresh env" and behaved: "well_behaved env"
  shows "good (callback_at env depth)"
proof (induction depth)
  case 0
  then show ?case by (simp add: good_def counts_def quiet_cleanup_def entry_good_def)
next
  case (Suc depth)
  have "quiet_cleanup (callback_at env (Suc depth))"
    unfolding quiet_cleanup_def using cleanup_spec [OF behaved] by fastforce
  moreover have "entry_good (callback_at env (Suc depth))"
    unfolding entry_good_def
  proof (intro allI impI, elim conjE)
    fix code slot chain k r m
    assume "represents {} chain k" "chain \<noteq> []" "last chain = slot" "\<not> exit_wanted slot k"
      "callback_at env (Suc depth) (EntryCall code) slot k = Some (r, m)" "launched m < LAUNCH_LIMIT"
    then show "\<exists>ext. represents {} (chain @ ext) m \<and>
        (\<forall>s \<in> set (butlast chain). exit_wanted s m = exit_wanted s k) \<and> (\<not> r \<or> exit_wanted slot m \<longrightarrow> ext = [])"
      using entry_callback_spec [OF Suc fresh behaved, of m chain slot "log_call (Callback (EntryCall code) slot) k" code r]
      by simp
  qed
  ultimately show ?case unfolding good_def using callback_counts [of env "Suc depth"] by blast
qed

lemma update_callback_spec:
  assumes good: "good enter" and fresh: "calloc_fresh env" and limit: "launched m < LAUNCH_LIMIT"
    and before: "represents {} chain k" and run: "run_callback env enter (UpdateCall code) slot k = Some (r, m)"
  shows "\<exists>ext. represents {} (chain @ ext) m"
proof (cases "code = ElfUpdate")
  case False
  then have "run_program env enter (ke_app env (UpdateCall code) slot k) k = Some (r, m)"
    using run by (simp add: run_callback_cases)
  then show ?thesis using program_spec [OF good fresh limit before] by blast
next
  case True
  then have update: "elf_update env enter slot k = Some m" using run by auto
  define a where "a = ctx_application_data (context_of slot k)"
  have on: "frame (on_elf x f y) = frame y" for x f y by (rule frame_core) simp_all
  have stop: "\<exists>ext. represents {} (chain @ ext) y" if "frame y = frame z" "represents {} (chain @ ext) z" for y z ext
    using represents_frame(2) [OF that(1)] that(2) by blast
  have collected: "frame (elf_collect_status slot a k) = frame k"
  proof -
    obtain status y where take: "tabos_app_take_child_status (Some slot) k = (status, y)" by fastforce
    then have "frame y = frame k" using take_status_frame(1) [of "Some slot" k] by simp
    then show ?thesis by (simp add: elf_collect_status_def take store_exec_status_def on split: option.split)
  qed
  then have start: "represents {} chain (elf_collect_status slot a k)" using before represents_frame(2) [OF collected] by simp
  show ?thesis
  proof (cases "\<exists>e. k_elf k a = Some e \<and> ea_execution e \<noteq> None")
    case False
    then have "m = kernel_process_fail slot TERMINATION_FAULT 5 k"
      using update unfolding elf_update_def a_def [symmetric] Let_def by (auto split: option.splits if_splits)
    then show ?thesis using stop [of m k "[]"] before by simp
  next
    case True
    then obtain started x where serve: "elf_serve_exec env enter slot a (elf_collect_status slot a k) = Some (started, x)"
      and rest: "frame m = frame x"
      using update unfolding elf_update_def a_def [symmetric] Let_def
      by (auto simp: bind_eq_Some_conv on split: option.splits if_splits)
    have "launched x < LAUNCH_LIMIT" using frame_fields(6) [OF rest] limit by simp
    have "\<exists>ext. represents {} (chain @ ext) x"
    proof (cases "\<exists>e. k_elf (elf_collect_status slot a k) a = Some e \<and> ea_exec_requested e")
      case False
      then have "x = elf_collect_status slot a k" using serve by (auto simp: elf_serve_exec_def split: option.splits)
      then show ?thesis using start by (intro exI [of _ "[]"]) simp
    next
      case True
      then obtain e where e: "k_elf (elf_collect_status slot a k) a = Some e" "ea_exec_requested e" by blast
      then obtain result y where exec: "tabos_app_exec_args env enter (Some slot) (Some (ea_exec_path e)) (length (ea_exec_argv e))
          (Some (map Some (ea_exec_argv e)))
          (on_elf a (\<lambda>e. e\<lparr>ea_exec_requested := False\<rparr>) (elf_collect_status slot a k)) = Some (result, y)"
        and y: "x = y \<or> x = store_exec_status a (- (100 + app_result_number result))
          (snd (tabos_app_take_child_status (Some slot) y))"
        using serve by (auto simp: elf_serve_exec_def bind_eq_Some_conv split: if_splits)
      have x: "frame x = frame y" using y on by (auto simp: store_exec_status_def)
      have "represents {} chain (on_elf a (\<lambda>e. e\<lparr>ea_exec_requested := False\<rparr>) (elf_collect_status slot a k))"
        using start represents_frame(2) [OF on] by simp
      moreover have "launched y < LAUNCH_LIMIT" using frame_fields(6) [OF x] \<open>launched x < LAUNCH_LIMIT\<close> by simp
      ultimately have "extends chain (on_elf a (\<lambda>e. e\<lparr>ea_exec_requested := False\<rparr>) (elf_collect_status slot a k)) result y"
        by (rule exec_spec [OF good fresh _ exec])
      then show ?thesis using stop [OF x] by (auto simp: extends_def)
    qed
    then show ?thesis using stop [OF rest] by blast
  qed
qed

section \<open>Shutdown\<close>

text \<open>
  During shutdown the chain is emptied from the highest slot down. What remains below slot \<open>n\<close> still owns
  its objects, and the console is held by a remaining process or by nobody.
\<close>

definition emptying :: "nat \<Rightarrow> nat list \<Rightarrow> nat \<Rightarrow> kernel \<Rightarrow> bool" where
  "emptying n rest holder k \<longleftrightarrow>
     length (processes k) = KERNEL_PROCESS_CAPACITY \<and> length (foreground_stack k) = KERNEL_PROCESS_CAPACITY \<and>
     distinct rest \<and> set rest = {i. i < KERNEL_PROCESS_CAPACITY \<and> column p_occupied k ! i} \<and> (\<forall>i \<in> set rest. i < n) \<and>
     owning {} rest k \<and> unat (next_process_id k) \<le> launched k \<and>
     (\<forall>i \<in> set rest. column owned_of k ! i \<longrightarrow> i = holder \<and> column session_of k ! i \<noteq> 0 \<and>
        column session_of k ! i = c_foreground_token (k_console k)) \<and>
     (c_foreground_token (k_console k) \<noteq> 0 \<longrightarrow> holder \<in> set rest \<and> column owned_of k ! holder) \<and>
     (pointer_initialized (k_pointer k) \<longrightarrow> pointer_owner k = 0)"

lemma emptyingD:
  assumes "emptying n rest holder k"
  shows "length (processes k) = KERNEL_PROCESS_CAPACITY" "length (foreground_stack k) = KERNEL_PROCESS_CAPACITY"
    "distinct rest" "set rest = {i. i < KERNEL_PROCESS_CAPACITY \<and> column p_occupied k ! i}" "i \<in> set rest \<Longrightarrow> i < n"
    "owning {} rest k" "unat (next_process_id k) \<le> launched k"
    "i \<in> set rest \<Longrightarrow> column owned_of k ! i \<Longrightarrow> i = holder \<and> column session_of k ! i \<noteq> 0 \<and>
        column session_of k ! i = c_foreground_token (k_console k)"
    "c_foreground_token (k_console k) \<noteq> 0 \<Longrightarrow> holder \<in> set rest \<and> column owned_of k ! holder"
    "pointer_initialized (k_pointer k) \<Longrightarrow> pointer_owner k = 0"
  using assms unfolding emptying_def by blast+

lemma owning_set: "set a = set b \<Longrightarrow> owning pending a k = owning pending b k"
  by (simp add: owning_def elf_slots_def)

lemma emptying_step:
  assumes cleanup: "quiet_cleanup enter" and before: "emptying (Suc n) rest holder k" and occupied: "p_occupied (processes k ! n)"
    and bound: "n < KERNEL_PROCESS_CAPACITY" and run: "destroy_process env enter n k = Some m"
  shows "emptying n (filter (\<lambda>i. i \<noteq> n) rest) holder m" and "launched m = launched k"
proof -
  note facts = emptyingD [OF before]
  have slot: "n < length (processes k)" "column p_occupied k ! n"
    using facts(1) bound occupied by (simp_all add: column_nth)
  note spec = destroy_spec [OF cleanup slot run]
  note cleared = spec(1) [unfolded cleared_columns_def]
  define keep where "keep = filter (\<lambda>i. i \<noteq> n) rest"
  have keep: "set keep = set rest - {n}" by (auto simp: keep_def)
  have member: "n \<in> set rest" using facts(4) slot bound by simp
  have lengths: "length (processes m) = length (processes k)"
    using arg_cong [of _ _ length, OF conjunct1 [OF cleared]] by simp
  have same: "column owned_of m ! i = column owned_of k ! i" "column session_of m ! i = column session_of k ! i"
    if "i \<noteq> n" for i using that cleared slot by (auto simp: nth_list_update)
  show "emptying n (filter (\<lambda>i. i \<noteq> n) rest) holder m"
    unfolding keep_def [symmetric] emptying_def
  proof (intro conjI)
    have all: "set (keep @ [n]) = set rest" using member keep by auto
    have "owning {} (keep @ [n]) k" using facts(6) owning_set [OF all] by simp
    then show "owning {} keep m"
      by (rule owning_pop [where d = 0]) (use slot cleared spec(7) keep in \<open>simp_all\<close>)
    show "set keep = {i. i < KERNEL_PROCESS_CAPACITY \<and> column p_occupied m ! i}"
      unfolding keep facts(4) using facts(1) slot cleared by (auto simp: nth_list_update)
    show "\<forall>i \<in> set keep. i < n" using facts(5) by (auto simp: keep less_Suc_eq)
    show "\<forall>i \<in> set keep. column owned_of m ! i \<longrightarrow> i = holder \<and> column session_of m ! i \<noteq> 0 \<and>
        column session_of m ! i = c_foreground_token (k_console m)"
    proof (intro ballI impI)
      fix i assume "i \<in> set keep" "column owned_of m ! i"
      then have i: "i \<in> set rest" "i \<noteq> n" "column owned_of k ! i" using same keep by auto
      have "\<not> column owned_of k ! n" using facts(8) [OF member] facts(8) [OF i(1,3)] i(2) by blast
      then have token: "c_foreground_token (k_console m) = c_foreground_token (k_console k)" using spec(8) by simp
      show "i = holder \<and> column session_of m ! i \<noteq> 0 \<and> column session_of m ! i = c_foreground_token (k_console m)"
        unfolding same(2) [OF i(2)] token by (rule facts(8) [OF i(1,3)])
    qed
    show "c_foreground_token (k_console m) \<noteq> 0 \<longrightarrow> holder \<in> set keep \<and> column owned_of m ! holder"
    proof
      assume token: "c_foreground_token (k_console m) \<noteq> 0"
      then have "c_foreground_token (k_console k) \<noteq> 0" using spec(8) by (auto split: if_splits)
      then have holder: "holder \<in> set rest" "column owned_of k ! holder" using facts(9) by simp_all
      have "holder \<noteq> n"
      proof
        assume "holder = n"
        then show False using facts(8) [OF holder] holder token spec(8) by (simp split: if_splits)
      qed
      then show "holder \<in> set keep \<and> column owned_of m ! holder" using holder same keep by simp
    qed
    show "pointer_initialized (k_pointer m) \<longrightarrow> pointer_owner m = 0" using facts(10) spec(9,10) by auto
  qed (use facts(1-3,7) spec(2-6) lengths in \<open>simp_all add: keep_def\<close>)
  show "launched m = launched k" by (rule spec)
qed

lemma destroy_from_spec:
  assumes cleanup: "quiet_cleanup enter" and "n \<le> KERNEL_PROCESS_CAPACITY" and "emptying n rest holder k"
    and "destroy_from env enter n k = Some m"
  shows "emptying 0 [] holder m \<and> launched m = launched k"
  using assms(2-4)
proof (induction n arbitrary: k rest)
  case 0
  moreover from 0 have "rest = []" by (cases rest) (auto simp: emptying_def)
  ultimately show ?case by simp
next
  case (Suc n)
  show ?case
  proof (cases "p_occupied (processes k ! n)")
    case True
    then obtain x where destroy: "destroy_process env enter n k = Some x" and rest: "destroy_from env enter n x = Some m"
      using Suc.prems(3) by (auto simp: bind_eq_Some_conv)
    have "n < KERNEL_PROCESS_CAPACITY" using Suc.prems(1) by simp
    note step = emptying_step [OF cleanup Suc.prems(2) True this destroy]
    show ?thesis using Suc.IH [OF _ step(1) rest] Suc.prems(1) step(2) by simp
  next
    case False
    then have "n \<notin> set rest" using Suc.prems(1,2) by (auto simp: emptying_def column_nth)
    then have "emptying n rest holder k"
      using Suc.prems(2) unfolding emptying_def by (metis less_Suc_eq)
    then show ?thesis using Suc.IH Suc.prems(1,3) False by simp
  qed
qed

lemma shutdown_spec:
  assumes cleanup: "quiet_cleanup enter" and before: "represents {} chain k"
    and run: "kernel_application_system_shutdown env enter k = Some m"
  shows "represents {} [] m" and "launched m = launched k"
proof -
  note linked = representsD(1) [OF before] and seated = representsD(3) [OF before]
  note facts = linkedD [OF linked]
  obtain x where destroy: "destroy_from env enter KERNEL_PROCESS_CAPACITY (set_pointer_owner 0 k) = Some x"
    and m: "m = x\<lparr>foreground_process := None, foreground_depth := 0, applications := []\<rparr>"
    using run by (auto simp: kernel_application_system_shutdown_def bind_eq_Some_conv)
  have quiet: "\<not> column owned_of k ! i" if "i \<in> set chain" "i \<noteq> last chain" for i
  proof -
    have "chain \<noteq> []" using that by auto
    then have "i \<in> set (butlast chain)"
      using that append_butlast_last_id [of chain] by (metis in_set_conv_decomp last_appendR last_snoc set_ConsD UnE set_append empty_iff list.set(1))
    then show ?thesis using seated by (simp add: seated_def)
  qed
  have "emptying KERNEL_PROCESS_CAPACITY chain (last chain) (set_pointer_owner 0 k)"
    unfolding emptying_def
  proof (intro conjI)
    show "owning {} chain (set_pointer_owner 0 k)"
      using representsD(2) [OF before] owning_cong [of "set_pointer_owner 0 k" k "{}" chain] by simp
    show "\<forall>i \<in> set chain. column owned_of (set_pointer_owner 0 k) ! i \<longrightarrow> i = last chain \<and>
        column session_of (set_pointer_owner 0 k) ! i \<noteq> 0 \<and>
        column session_of (set_pointer_owner 0 k) ! i = c_foreground_token (k_console (set_pointer_owner 0 k))"
    proof (intro ballI impI)
      fix i assume i: "i \<in> set chain" "column owned_of (set_pointer_owner 0 k) ! i"
      then have "chain \<noteq> []" "i = last chain" "column owned_of k ! i" using quiet by auto
      then show "i = last chain \<and> column session_of (set_pointer_owner 0 k) ! i \<noteq> 0 \<and>
        column session_of (set_pointer_owner 0 k) ! i = c_foreground_token (k_console (set_pointer_owner 0 k))"
        using seated by (simp add: seated_def)
    qed
    show "c_foreground_token (k_console (set_pointer_owner 0 k)) \<noteq> 0 \<longrightarrow>
        last chain \<in> set chain \<and> column owned_of (set_pointer_owner 0 k) ! last chain"
      using seated by (auto simp: seated_def)
    show "\<forall>i \<in> set chain. i < KERNEL_PROCESS_CAPACITY" using facts(5) by auto
  qed (use facts in \<open>simp_all add: set_owner_owner\<close>)
  then have over: "emptying 0 [] (last chain) x" "launched x = launched k"
    using destroy_from_spec [OF cleanup order_refl _ destroy] by simp_all
  have "linked [] m" using over(1) by (auto simp: m linked_nil emptying_def)
  moreover have "owning {} [] m"
    using over(1) owning_cong [of m x "{}" "[]"] by (simp add: m emptying_def)
  moreover have "seated [] m" using over(1) by (auto simp: m seated_def emptying_def pointer_owner_def)
  ultimately show "represents {} [] m" by (simp add: represents_def)
  show "launched m = launched k" using over(2) by (simp add: m)
qed

end
