(* ===== verification/ProcessRun.thy ===== *)
theory ProcessRun
  imports ProcessInvariant
begin

text \<open>
  The operations of the runtime keep the chain of processes, so whole runs do. From this come the
  properties of the process service: the foreground chain, failed launches that leave no trace, the exit
  status handed to the parent, and a shutdown that releases everything.
\<close>

section \<open>One operation of the runtime\<close>

lemma console_op_token:
  "c_foreground_token (snd (console_step font (now, presented, operation) (\<lambda>_. None, st))) = c_foreground_token st"
proof (cases "\<exists>i op. operation = Client i op")
  case True
  then obtain i op where op: "operation = Client i op" by blast
  obtain s r st' where step: "session_step font now presented op None st = (s, r, st')" by (cases "session_step font now presented op None st")
  have "c_foreground_token st' = c_foreground_token st"
  proof (cases "op = SAcquire \<or> op = SRelease")
    case True
    then show ?thesis
      using step by (auto simp: tabos_console_acquire_def tabos_console_release_def owns_console_def split: prod.splits)
  next
    case False
    then show ?thesis using session_step_token(2) [OF step] by simp
  qed
  then show ?thesis by (simp add: op step)
next
  case False
  then show ?thesis by (rule system_step_token(2))
qed

lemma console_op_frame:
  "frame (k\<lparr>k_console := snd (console_step font (now, presented, operation) (\<lambda>_. None, k_console k))\<rparr>) = frame k"
  by (rule frame_core) (simp_all add: core_def services_def pointer_owner_def console_op_token)

lemma touch_owner:
  "pointer_initialized (pointer_service_submit event p) = pointer_initialized p"
  "foreground_owner (pointer_service_submit event p) = foreground_owner p"
  "pointer_initialized (pointer_service_remove_device p) = pointer_initialized p"
  "foreground_owner (pointer_service_remove_device p) = foreground_owner p"
  by (auto simp: pointer_service_submit_def pointer_service_remove_device_def Let_def split: option.split)

lemma pointer_frame:
  assumes "pointer_initialized p = pointer_initialized (k_pointer k)" and "foreground_owner p = foreground_owner (k_pointer k)"
  shows "frame (k\<lparr>k_pointer := p\<rparr>) = frame k"
  using assms by (intro frame_core) (simp_all add: core_def services_def pointer_owner_def)

text \<open>The operations that start and end no process.\<close>

fun steady :: "kernel_op \<Rightarrow> bool" where
  "steady OpUpdate = False"
| "steady (OpLaunch name) = False"
| "steady (OpLaunchPath path) = False"
| "steady OpShutdown = False"
| "steady operation = True"

lemma steady_frame: "steady operation \<Longrightarrow> kernel_step env operation k = Some m \<Longrightarrow> frame m = frame k"
proof (cases operation)
  case (OpGuest a program)
  assume "kernel_step env operation k = Some m"
  then show ?thesis using OpGuest run_guest_keeps [of env a program k] by (auto intro: frame_core)
next
  case (OpRegister descriptor)
  assume "kernel_step env operation k = Some m"
  then show ?thesis using OpRegister by (auto intro!: frame_core simp: core_def services_def pointer_owner_def)
qed (auto simp: console_op_frame pointer_frame touch_owner)

section \<open>The update\<close>

lemma update_spec:
  assumes fresh: "calloc_fresh env" and behaved: "well_behaved env" and limit: "launched m < LAUNCH_LIMIT"
    and before: "represents {} chain k"
    and run: "kernel_application_system_update env (kernel_runner env) k = Some m"
  shows "\<exists>chain'. represents {} chain' m"
proof (cases "foreground_process k")
  case None
  then show ?thesis using run before by (auto simp: kernel_application_system_update_def)
next
  case (Some slot)
  define runner where "runner = kernel_runner env"
  have good: "good (callback_at env depth)" for depth by (rule good_callbacks [OF fresh behaved])
  have depth: "callback_at env CALLBACK_DEPTH =
      (\<lambda>callback slot k. run_callback env (callback_at env 16) callback slot (log_call (Callback callback slot) k))"
    unfolding callback_at.simps(2) [of env 16, symmetric] by (simp add: CALLBACK_DEPTH_def)
  have cleanup: "quiet_cleanup runner" using good by (simp add: runner_def kernel_runner_def good_def)
  obtain x where callback: "(case app_update (the (ctx_descriptor (context_of slot k))) of None \<Rightarrow> Some k
        | Some code \<Rightarrow>
            if p_state (processes k ! slot) = TABOS_PROCESS_RUNNING \<and> \<not> ctx_exit_requested (context_of slot k)
            then map_option snd (runner (UpdateCall code) slot k) else Some k) = Some x"
    and rest: "(if ctx_exit_requested (context_of slot x) then
         (case foreground_process x of None \<Rightarrow> Some x
          | Some foreground \<Rightarrow>
              if p_id (processes x ! foreground) = 0 then Some (panic_root_process env foreground x)
              else finish_child_process env runner foreground x)
       else Some x) = Some m"
    using run Some unfolding kernel_application_system_update_def runner_def [symmetric] by (auto simp: bind_eq_Some_conv)
  have "counts runner" using good by (simp add: runner_def kernel_runner_def good_def)
  then have count: "launched x \<le> launched m"
    using rest finish_counts [of runner env _ x m]
    by (auto simp: panic_root_process_def Let_def split: if_splits option.splits)
  have "\<exists>chain'. represents {} chain' x"
  proof (cases "x = k")
    case True
    then show ?thesis using before by blast
  next
    case False
    then obtain code r where "runner (UpdateCall code) slot k = Some (r, x)"
      using callback by (auto split: option.splits if_splits)
    then have "run_callback env (callback_at env 16) (UpdateCall code) slot (log_call (Callback (UpdateCall code) slot) k) = Some (r, x)"
      using depth unfolding runner_def kernel_runner_def by simp
    moreover have "represents {} chain (log_call (Callback (UpdateCall code) slot) k)" using before by simp
    ultimately have "\<exists>ext. represents {} (chain @ ext) x"
      using update_callback_spec [OF good fresh le_less_trans [OF count limit]] by blast
    then show ?thesis by blast
  qed
  then obtain chain' where chain': "represents {} chain' x" by blast
  show ?thesis
  proof (cases "ctx_exit_requested (context_of slot x) \<and> foreground_process x \<noteq> None")
    case False
    then show ?thesis using rest chain' by (auto split: if_splits option.splits)
  next
    case True
    then obtain foreground where fg: "foreground_process x = Some foreground" by auto
    then have nonempty: "chain' \<noteq> []" and last: "foreground = last chain'"
      using chain' by (auto simp: represents_def seated_def split: if_splits)
    note linked = representsD(1) [OF chain'] and slot = last_slot [OF representsD(1) [OF chain'] nonempty]
    show ?thesis
    proof (cases "p_id (processes x ! foreground) = 0")
      case True
      then have "m = panic_root_process env (last chain') x"
        using rest fg last \<open>_ \<and> _\<close> by simp
      moreover have "column p_id x ! last chain' = 0" using True last slot by (simp add: column_nth)
      ultimately show ?thesis using panic_represents [OF chain' nonempty] by blast
    next
      case other: False
      then have finish: "finish_child_process env runner (last chain') x = Some m" using rest fg last True by simp
      have "length chain' \<noteq> 1" using other last_id_zero [OF linked nonempty] last slot by (simp add: column_nth)
      then have "butlast chain' \<noteq> []" using nonempty by (cases chain') auto
      moreover have "represents {} (butlast chain' @ [last chain']) x" using chain' nonempty by simp
      ultimately show ?thesis using finish_spec(1) [OF cleanup _ _ finish] by blast
    qed
  qed
qed

section \<open>Whole runs\<close>

lemma kernel_step_spec:
  assumes fresh: "calloc_fresh env" and behaved: "well_behaved env" and limit: "launched m < LAUNCH_LIMIT"
    and before: "represents {} chain k" and step: "kernel_step env operation k = Some m"
  shows "\<exists>chain'. represents {} chain' m"
proof (cases "steady operation")
  case True
  then have "represents {} chain m" using before represents_frame(2) [OF steady_frame [OF True step]] by simp
  then show ?thesis by blast
next
  case False
  have good: "good (kernel_runner env)" unfolding kernel_runner_def by (rule good_callbacks [OF fresh behaved])
  have grown: "\<exists>chain'. represents {} chain' m" if "extends chain k r m" for r using that by (auto simp: extends_def)
  have plain: "represents (if False then {0} else {}) chain k" using before by simp
  from False show ?thesis
  proof (cases operation)
    case OpUpdate
    then show ?thesis using update_spec [OF fresh behaved limit before] step by simp
  next
    case (OpLaunch name)
    then obtain r where "tabos_app_launch env (kernel_runner env) name k = Some (r, m)" using step by auto
    then have "m = k \<or> extends chain k r m"
      using launch_root_spec [OF good plain _ _ limit] by (auto simp: tabos_app_launch_def split: if_splits option.splits)
    then show ?thesis using before grown by blast
  next
    case (OpLaunchPath path)
    then obtain r where "tabos_app_launch_path_args env (kernel_runner env) path 1 (Some [path]) k = Some (r, m)"
      using step by (auto simp: tabos_app_launch_path_def)
    then show ?thesis using launch_path_spec [OF good fresh before _ limit] grown by blast
  next
    case OpShutdown
    then show ?thesis using shutdown_spec(1) [OF _ before] good step by (auto simp: good_def)
  qed simp_all
qed

lemma kernel_step_counts:
  assumes "kernel_step env operation k = Some m"
  shows "launched k \<le> launched m"
proof -
  have counts: "counts (kernel_runner env)" unfolding kernel_runner_def by (rule callback_counts)
  have from_n: "launched x \<le> launched y" if "destroy_from env (kernel_runner env) n x = Some y" for n x y
    using that
  proof (induction n arbitrary: x)
    case (Suc n)
    then show ?case using destroy_counts [OF counts] by (fastforce simp: bind_eq_Some_conv split: if_splits)
  qed simp
  show ?thesis
  proof (cases operation)
    case OpUpdate
    have panic: "launched (panic_root_process env slot x) = launched x" for slot x
      by (simp add: panic_root_process_def Let_def)
    show ?thesis
      using assms OpUpdate countsD [OF counts] finish_counts [OF counts] panic
      by (fastforce simp: kernel_application_system_update_def bind_eq_Some_conv split: option.splits if_splits)
  next
    case (OpLaunch name)
    then show ?thesis using assms launch_root_counts [OF counts]
      by (auto simp: tabos_app_launch_def split: if_splits option.splits)
  next
    case (OpLaunchPath path)
    then show ?thesis using assms launch_path_counts [OF counts] by (auto simp: tabos_app_launch_path_def)
  next
    case OpShutdown
    then show ?thesis using assms from_n
      by (fastforce simp: kernel_application_system_shutdown_def bind_eq_Some_conv)
  qed (use frame_fields(6) [OF steady_frame [OF _ assms]] in simp_all)
qed

lemma kernel_run_counts: "kernel_run env operations k = Some m \<Longrightarrow> launched k \<le> launched m"
proof (induction operations arbitrary: k)
  case (Cons operation rest)
  then show ?case using kernel_step_counts by (fastforce split: option.splits)
qed simp

lemma kernel_run_spec:
  assumes fresh: "calloc_fresh env" and behaved: "well_behaved env" and limit: "launched m < LAUNCH_LIMIT"
    and "represents {} chain k" and "kernel_run env operations k = Some m"
  shows "\<exists>chain'. represents {} chain' m"
  using assms(4,5)
proof (induction operations arbitrary: k chain)
  case Nil
  then show ?case by auto
next
  case (Cons operation rest)
  obtain x where step: "kernel_step env operation k = Some x" and rest: "kernel_run env rest x = Some m"
    using Cons.prems(2) by (auto split: option.splits)
  have "launched x < LAUNCH_LIMIT" using kernel_run_counts [OF rest] limit by simp
  then show ?case using kernel_step_spec [OF fresh behaved _ Cons.prems(1) step] Cons.IH [OF _ rest] by blast
qed

text \<open>The state the system starts from: no ELF object yet, nobody at the console.\<close>

definition kernel_start :: "kernel \<Rightarrow> bool" where
  "kernel_start k \<longleftrightarrow>
     length (foreground_stack k) = KERNEL_PROCESS_CAPACITY \<and> k_elf k = (\<lambda>_. None) \<and>
     c_foreground_token (k_console k) = 0 \<and> (pointer_initialized (k_pointer k) \<longrightarrow> pointer_owner k = 0)"

lemma init_spec: "kernel_start k \<Longrightarrow> represents {} [] (kernel_application_system_init k)"
  by (simp add: kernel_start_def represents_def linked_def owning_def seated_def kernel_application_system_init_def
      stack_ids_def column_def process_zero_def pointer_owner_def elf_slots_def)

section \<open>Panics\<close>

text \<open>The root process in the panicked state, in the foreground.\<close>

definition panicked :: "nat \<Rightarrow> kernel \<Rightarrow> bool" where
  "panicked slot k \<longleftrightarrow> foreground_process k = Some slot \<and> slot < length (processes k) \<and>
     p_state (processes k ! slot) = TABOS_PROCESS_PANICKED \<and> p_id (processes k ! slot) = 0"

lemma panicked_core: "core m = core k \<Longrightarrow> panicked slot m = panicked slot k"
  by (simp add: panicked_def core_def)

lemma panicked_frame:
  assumes "frame m = frame k" and "panicked slot k"
  shows "panicked slot m"
proof -
  have table: "table_frame m = table_frame k" using assms(1) by (simp add: frame_table)
  note fields = table_fields [OF table]
  have slot: "slot < length (processes m)" using assms(2) fields(1) by (simp add: panicked_def)
  then have "p_state (processes m ! slot) = column p_state k ! slot" "p_id (processes m ! slot) = column p_id k ! slot"
    using column_table(4,2) [OF table] column_nth [of slot m p_state] column_nth [of slot m p_id] by simp_all
  then show ?thesis using assms(2) slot fields(1,5) by (simp add: panicked_def column_nth)
qed

lemma panic_panicked: "panicked slot k \<Longrightarrow> panicked slot (panic_root_process env slot k)"
  "launched (panic_root_process env slot k) = launched k"
  by (simp_all add: panicked_def panic_root_process_def Let_def on_context_def on_process_def log_call_def)

lemma launch_root_busy:
  assumes "foreground_process k = Some slot" and "launch_root_descriptor env enter descriptor data elf k = Some (r, m)"
  shows "core m = core k" and "r \<noteq> APP_RESULT_OK"
proof -
  have "m = destroy_data env elf data k \<and> r \<noteq> APP_RESULT_OK"
    using assms unfolding launch_root_parts by (auto split: option.splits if_splits)
  then show "core m = core k" and "r \<noteq> APP_RESULT_OK" by (simp_all add: destroy_data_def destroy_application_keeps(1))
qed

lemma panicked_step:
  assumes before: "panicked slot k" and operation: "operation \<noteq> OpShutdown" and step: "kernel_step env operation k = Some m"
  shows "panicked slot m \<and> launched m = launched k"
proof (cases "steady operation")
  case True
  note same = steady_frame [OF True step]
  show ?thesis using panicked_frame [OF same before] frame_fields(6) [OF same] by simp
next
  case False
  have fg: "foreground_process k = Some slot" using before by (simp add: panicked_def)
  from False show ?thesis
  proof (cases operation)
    case OpUpdate
    then have "m = k \<or> m = panic_root_process env slot k"
      using step before by (auto simp: kernel_application_system_update_def panicked_def split: option.splits if_splits)
    then show ?thesis using before panic_panicked [where env = env and slot = slot and k = k] by auto
  next
    case (OpLaunch name)
    then have "m = k \<or> core m = core k"
      using step launch_root_busy(1) [OF fg] by (auto simp: tabos_app_launch_def split: if_splits option.splits)
    then show ?thesis using before panicked_core [of m k] launched_core [of m k] by auto
  next
    case (OpLaunchPath path)
    obtain a k1 where create: "loader_elf_application_create env path 1 (Some [path]) k = (a, k1)" by fastforce
    have same: "core k1 = core k" using create_keeps [of env path 1 "Some [path]" k] create by simp
    then have fg1: "foreground_process k1 = Some slot" using fg core_fields(5) [OF same] by simp
    obtain r where "tabos_app_launch_path_args env (kernel_runner env) path 1 (Some [path]) k = Some (r, m)"
      using step OpLaunchPath by (auto simp: tabos_app_launch_path_def)
    then have "m = k \<or> m = k1 \<or> core m = core k1"
      using launch_root_busy(1) [OF fg1] unfolding tabos_app_launch_path_args_def create prod.case by (auto split: if_splits)
    then show ?thesis
      using before panicked_core [OF same] panicked_core [of m k1] launched_core [OF same] launched_core [of m k1] by auto
  qed (use operation in simp_all)
qed

lemma panicked_run:
  assumes "panicked slot k" and "OpShutdown \<notin> set operations" and "kernel_run env operations k = Some m"
  shows "panicked slot m \<and> launched m = launched k"
  using assms
proof (induction operations arbitrary: k)
  case (Cons operation rest)
  obtain x where step: "kernel_step env operation k = Some x" and rest: "kernel_run env rest x = Some m"
    using Cons.prems(3) by (auto split: option.splits)
  have "panicked slot x \<and> launched x = launched k"
    by (rule panicked_step [OF Cons.prems(1) _ step]) (use Cons.prems(2) in auto)
  then show ?case using Cons.IH [OF _ _ rest] Cons.prems(2) by simp
qed simp

section \<open>The hand-over to the parent\<close>

lemma context_context [simp]:
  "context_of s (on_context slot g k) =
     (if s = slot \<and> slot < length (processes k) then g (context_of slot k) else context_of s k)"
  by (auto simp: context_of_def on_context_def on_process_def nth_list_update list_update_beyond)

definition child_status :: "nat \<Rightarrow> kernel \<Rightarrow> bool \<times> int" where
  "child_status slot k = (ctx_child_status_valid (context_of slot k), ctx_child_status (context_of slot k))"

lemma status_context:
  assumes "\<And>c. (ctx_child_status_valid (g c), ctx_child_status (g c)) = (ctx_child_status_valid c, ctx_child_status c)"
  shows "child_status s (on_context slot g k) = child_status s k"
  using assms by (simp add: child_status_def)

lemma nth_update_if: "xs[i := v] ! j = (if j = i \<and> i < length xs then v else xs ! j)"
  by (cases "i < length xs") (simp_all add: nth_list_update list_update_beyond)

lemma status_other [simp]:
  "child_status s (k\<lparr>k_console := c\<rparr>) = child_status s k" "child_status s (log_call call k) = child_status s k"
  "child_status s (k\<lparr>last_exit_status := e, last_exit_valid := v\<rparr>) = child_status s k"
  "child_status s (set_pointer_owner a k) = child_status s k"
  "child_status s (on_process slot (\<lambda>p. p\<lparr>p_state := st\<rparr>) k) = child_status s k"
  by (auto simp: child_status_def context_of_def set_pointer_owner_def log_call_def on_process_def nth_update_if)

lemma acquire_status: "child_status s (snd (acquire_process_console env slot k)) = child_status s k"
  by (simp add: acquire_process_console_def Let_def status_context split: prod.split)

lemma panic_status: "child_status s (panic_root_process env slot k) = child_status s k"
  by (simp add: panic_root_process_def Let_def status_context)

text \<open>What a resumed parent finds.\<close>

lemma panic_foreground: "foreground_process (panic_root_process env s k) = foreground_process k"
  "foreground_stack (panic_root_process env s k) = foreground_stack k"
  by (simp_all add: panic_root_process_def Let_def)

lemma resume_foreground: "foreground_process (resume_parent env status k) = foreground_process k"
proof -
  have "foreground_process (snd (acquire_process_console env s x)) = foreground_process x" for s x
    by (simp add: acquire_process_console_def Let_def split: prod.split)
  then show ?thesis by (simp add: resume_parent_def Let_def case_prod_beta panic_foreground split: option.split)
qed

lemma resume_status:
  assumes fg: "foreground_process k = Some parent" and slot: "parent < length (processes k)"
  shows "child_status parent (resume_parent env status k) = (True, status)"
    and "foreground_stack (resume_parent env status k) = foreground_stack k"
proof -
  define b where "b = set_pointer_owner (ctx_application_data (context_of parent (on_context parent
      (\<lambda>c. c\<lparr>ctx_child_status := status, ctx_child_status_valid := True\<rparr>)
      (on_process parent (\<lambda>p. p\<lparr>p_state := TABOS_PROCESS_RUNNING\<rparr>) k))))
    (on_context parent (\<lambda>c. c\<lparr>ctx_child_status := status, ctx_child_status_valid := True\<rparr>)
      (on_process parent (\<lambda>p. p\<lparr>p_state := TABOS_PROCESS_RUNNING\<rparr>) k))"
  obtain ok m where acquire: "acquire_process_console env parent b = (ok, m)" by fastforce
  have b: "child_status parent b = (True, status)" "foreground_process b = Some parent" "foreground_stack b = foreground_stack k"
    using slot fg by (simp_all add: b_def child_status_def)
  have m: "child_status parent m = (True, status)" "foreground_process m = Some parent" "foreground_stack m = foreground_stack k"
    using acquire_status [of parent env parent b] acquire b
    by (auto simp: acquire_process_console_def Let_def split: prod.splits if_splits)
  have "resume_parent env status k = log_call (RuntimeNotify RUNTIME_EVENT_APPLICATION)
      (if ok then m
       else if p_id (processes (on_context parent (\<lambda>c. c\<lparr>ctx_exit_status := - 1\<rparr>) m) ! parent) = 0
       then panic_root_process env parent (on_context parent (\<lambda>c. c\<lparr>ctx_exit_status := - 1\<rparr>) m)
       else on_context parent (\<lambda>c. c\<lparr>ctx_exit_requested := True\<rparr>) (on_context parent (\<lambda>c. c\<lparr>ctx_exit_status := - 1\<rparr>) m))"
    unfolding resume_parent_def fg option.case Let_def b_def [symmetric] acquire prod.case ..
  then show "child_status parent (resume_parent env status k) = (True, status)"
    and "foreground_stack (resume_parent env status k) = foreground_stack k"
    using m by (simp_all add: panic_status panic_foreground status_context)
qed

lemma stack_ids_pop:
  assumes "linked (chain @ [c]) k" and "linked chain m" and "foreground_stack m = foreground_stack k"
  shows "stack_ids m = butlast (stack_ids k)"
  using linkedD(3) [OF assms(1)] linkedD(3) [OF assms(2)] linked_length [OF assms(1)] linkedD(2) [OF assms(1)] assms(3)
  by (simp add: stack_ids_def butlast_take)

lemma finish_handover:
  assumes cleanup: "quiet_cleanup enter" and before: "represents {} (chain @ [c]) k" and chain: "chain \<noteq> []"
    and run: "finish_child_process env enter c k = Some m"
  shows "child_status (last chain) m = (True, ctx_exit_status (context_of c k))"
    and "column p_id m ! last chain = column p_parent_id k ! c" and "\<not> column p_occupied m ! c"
proof -
  have after: "represents {} chain m" by (rule finish_spec(1) [OF cleanup before chain run])
  note linked = representsD(1) [OF before] and linked' = representsD(1) [OF after]
  note facts = linkedD [OF linked]
  have slot: "c < length (processes k)" "c \<notin> set chain" "column p_occupied k ! c" "c < KERNEL_PROCESS_CAPACITY"
    using linked_slot [OF linked, of c] facts(4,5) by auto
  show "\<not> column p_occupied m ! c" using slot linkedD(5) [OF linked'] by auto
  define r where "r = release_process_console env c (set_pointer_owner 0 k)"
  have bound: "c < length (processes (set_pointer_owner 0 k))" using slot by simp
  note r_spec = release_spec [OF bound, where env = env, folded r_def]
  have r_slot: "c < length (processes r)" "column p_occupied r ! c" using slot r_spec(1,10) by simp_all
  obtain d where destroy: "destroy_process env enter c r = Some d"
    and m: "m = resume_parent env (ctx_exit_status (context_of c k)) (pop_foreground d)"
    using run by (auto simp: finish_child_parts r_def)
  note d_spec = destroy_spec [OF cleanup r_slot destroy]
  have stack: "foreground_stack (pop_foreground d) = foreground_stack k"
    using d_spec(2) r_spec(11) by (simp add: pop_foreground_def Let_def)
  have fg': "foreground_process m = Some (last chain)"
    using representsD(3) [OF after] chain by (simp add: seated_def)
  have fg: "foreground_process (pop_foreground d) = Some (last chain)" using fg' by (simp add: m resume_foreground)
  have "length (processes d) = length (processes r)"
    using arg_cong [of _ _ length, OF conjunct1 [OF d_spec(1) [unfolded cleared_columns_def]]] by simp
  then have same: "length (processes (pop_foreground d)) = length (processes k)"
    using r_spec(10) by (simp add: pop_foreground_def Let_def)
  have bound': "last chain < length (processes (pop_foreground d))" using same last_slot [OF linked] linked_slot [OF linked, of "last chain"] chain by simp
  note resume = resume_status [OF fg bound', of env "ctx_exit_status (context_of c k)", folded m]
  show "child_status (last chain) m = (True, ctx_exit_status (context_of c k))" by (rule resume(1))
  have "stack_ids m = butlast (stack_ids k)" by (rule stack_ids_pop [OF linked linked']) (simp add: resume(2) stack)
  moreover have "column p_id m ! last chain = last (stack_ids m)" by (rule last_id [OF linked' chain])
  moreover have "column p_parent_id k ! c = last (butlast (TABOS_PROCESS_ID_INVALID # stack_ids k))"
    using facts(7) by (metis last_map last_snoc map_is_Nil_conv snoc_eq_iff_butlast)
  moreover have "butlast (stack_ids k) \<noteq> []" using stack_ids_length [OF linked] chain
    by (metis Nil_is_map_conv calculation(1) linkedD(6) linked')
  ultimately show "column p_id m ! last chain = column p_parent_id k ! c" by (auto split: if_splits)
qed

section \<open>Reachable states\<close>

inductive kernel_reachable :: "process_env \<Rightarrow> kernel \<Rightarrow> bool" for env where
  start: "kernel_start k \<Longrightarrow> kernel_reachable env (kernel_application_system_init k)"
| step: "kernel_reachable env k \<Longrightarrow> kernel_step env operation k = Some m \<Longrightarrow> kernel_reachable env m"

lemma run_reachable: "kernel_reachable env k \<Longrightarrow> kernel_run env operations k = Some m \<Longrightarrow> kernel_reachable env m"
  by (induction operations arbitrary: k) (auto intro: kernel_reachable.step split: option.splits)

lemma reachable_chain:
  assumes "kernel_reachable env k" and "calloc_fresh env" and "well_behaved env" and "launched k < LAUNCH_LIMIT"
  shows "\<exists>chain. represents {} chain k"
  using assms(1,4)
proof induction
  case (start k)
  then show ?case using init_spec by blast
next
  case (step k operation m)
  have "launched k < LAUNCH_LIMIT" using kernel_step_counts [OF step.hyps(2)] step.prems by simp
  then show ?case using kernel_step_spec [OF assms(2,3) step.prems _ step.hyps(2)] step.IH by blast
qed

lemma occupied_chain:
  assumes "linked chain k" and "linked chain m"
  shows "column p_occupied m = column p_occupied k"
proof (rule nth_equalityI)
  note facts = linkedD [OF assms(1)] and facts' = linkedD [OF assms(2)]
  show "length (column p_occupied m) = length (column p_occupied k)" using facts(1) facts'(1) by simp
  fix i assume "i < length (column p_occupied m)"
  then show "column p_occupied m ! i = column p_occupied k ! i" using facts(5) facts'(1,5) by auto
qed

section \<open>The properties\<close>

text \<open>
  C1. In every state the runtime can reach the processes form one chain, whatever the applications do
  within their rules: the occupied slots are the processes on the foreground stack, each launched by the
  one below it; all but the last wait without the console; the last is in the foreground and alone may
  hold the console session and receive the pointer; and the ELF objects in memory are exactly those of the
  processes, each owned by one. The rules are those of \<^const>\<open>well_behaved\<close>; the allocator hands out
  memory that is not in use; fewer than \<open>2 ^ 32\<close> processes were started, so identifiers did not wrap.
\<close>

theorem process_foreground_chain:
  assumes "kernel_reachable env k" and "calloc_fresh env" and "well_behaved env" and "launched k < LAUNCH_LIMIT"
  shows "\<exists>chain. represents {} chain k"
  by (rule reachable_chain [OF assms])


text \<open>
  C3. When the runtime updates a child that wants its exit, the child ends and its parent, the process
  whose identifier the child was started with, comes to the foreground, no longer blocked, and takes the
  exit status of that child with \<^const>\<open>tabos_app_take_child_status\<close>.
\<close>

theorem process_child_status:
  assumes "kernel_reachable env k" and "calloc_fresh env" and "well_behaved env" and "launched k < LAUNCH_LIMIT"
    and fg: "foreground_process k = Some child" and not_root: "p_id (processes k ! child) \<noteq> 0"
    and wanted: "ctx_exit_requested (context_of child k)" and step: "kernel_step env OpUpdate k = Some m"
  shows "\<exists>parent. foreground_process m = Some parent \<and> p_id (processes m ! parent) = p_parent_id (processes k ! child) \<and>
    p_state (processes m ! parent) \<noteq> TABOS_PROCESS_BLOCKED \<and> \<not> p_occupied (processes m ! child) \<and>
    fst (tabos_app_take_child_status (Some parent) m) = Some (ctx_exit_status (context_of child k))"
proof -
  have cleanup: "quiet_cleanup (kernel_runner env)"
    using good_callbacks [OF assms(2,3)] by (simp add: kernel_runner_def good_def)
  obtain all where "represents {} all k" using reachable_chain [OF assms(1-4)] by blast
  moreover from this have "all \<noteq> []" "last all = child" using fg by (auto simp: represents_def seated_def split: if_splits)
  ultimately have before: "represents {} (butlast all @ [child]) k" by (metis append_butlast_last_id)
  define chain where "chain = butlast all"
  note before = before [folded chain_def] and linked = representsD(1) [OF before [folded chain_def]]
  have slot: "child < length (processes k)" using linked_slot [OF linked] by simp
  have chain: "chain \<noteq> []"
    using last_id_zero [OF linked] not_root slot by (cases chain) (auto simp: column_nth)
  have run: "finish_child_process env (kernel_runner env) child k = Some m"
    using step fg not_root wanted by (auto simp: kernel_application_system_update_def split: option.splits)
  have after: "represents {} chain m" by (rule finish_spec(1) [OF cleanup before chain run])
  note given = finish_handover [OF cleanup before chain run]
  have lengths: "length (processes m) = length (processes k)"
    using linkedD(1) [OF linked] linkedD(1) [OF representsD(1) [OF after]] by simp
  have parent: "last chain < length (processes m)" by (rule last_slot [OF representsD(1) [OF after] chain])
  have "foreground_process m = Some (last chain)" "p_state (processes m ! last chain) \<noteq> TABOS_PROCESS_BLOCKED"
    using representsD(3) [OF after] chain parent by (auto simp: seated_def column_nth)
  moreover have "p_id (processes m ! last chain) = p_parent_id (processes k ! child)" "\<not> p_occupied (processes m ! child)"
    using given(2,3) parent slot lengths by (simp_all add: column_nth)
  moreover have "fst (tabos_app_take_child_status (Some (last chain)) m) = Some (ctx_exit_status (context_of child k))"
    using given(1) by (simp add: tabos_app_take_child_status_def child_status_def)
  ultimately show ?thesis by blast
qed

text \<open>
  C5. Shutdown ends every process from the newest slot to the oldest and releases what they held: no slot
  is in use, no ELF object is left in memory, nobody holds the console and nobody receives the pointer.
\<close>

theorem process_shutdown_releases:
  assumes "kernel_reachable env k" and "calloc_fresh env" and "well_behaved env" and "launched k < LAUNCH_LIMIT"
    and step: "kernel_step env OpShutdown k = Some m"
  shows "column p_occupied m = replicate KERNEL_PROCESS_CAPACITY False \<and> foreground_process m = None \<and>
    k_elf m = (\<lambda>a. None) \<and> c_foreground_token (k_console m) = 0 \<and>
    (pointer_initialized (k_pointer m) \<longrightarrow> pointer_owner m = 0)"
proof -
  have cleanup: "quiet_cleanup (kernel_runner env)"
    using good_callbacks [OF assms(2,3)] by (simp add: kernel_runner_def good_def)
  obtain chain where before: "represents {} chain k" using reachable_chain [OF assms(1-4)] by blast
  have after: "represents {} [] m" by (rule shutdown_spec(1) [OF cleanup before]) (use step in simp)
  note facts = linkedD [OF representsD(1) [OF after]]
  have "column p_occupied m = replicate KERNEL_PROCESS_CAPACITY False"
    by (rule nth_equalityI) (use facts(1,5) in auto)
  moreover have "k_elf m = (\<lambda>a. None)"
    using representsD(2) [OF after] by (simp add: owning_def elf_slots_def)
  ultimately show ?thesis using representsD(3) [OF after] by (simp add: seated_def)
qed

text \<open>
  C6. A panic of the root process is final: until shutdown it stays in the foreground in the panicked
  state and no process is started, whatever the runtime, the input and the other parts of the system do.
\<close>

theorem process_panic_final:
  assumes "foreground_process k = Some slot" and "slot < length (processes k)"
    and "p_state (processes k ! slot) = TABOS_PROCESS_PANICKED" and "p_id (processes k ! slot) = 0"
    and "OpShutdown \<notin> set operations" and "kernel_run env operations k = Some m"
  shows "foreground_process m = Some slot \<and> p_state (processes m ! slot) = TABOS_PROCESS_PANICKED \<and>
    launched m = launched k"
  using panicked_run [of slot k operations env m] assms by (simp add: panicked_def)

section \<open>A system at work\<close>

text \<open>
  A shell that launches a job at every update, a job that asks for its exit with status 42, and an
  application whose entry fails. They do without the console, so the runs hold for any console and
  pointer state.
\<close>

definition demo_descriptor :: "string \<Rightarrow> nat \<Rightarrow> nat \<Rightarrow> app_descriptor" where
  "demo_descriptor name entry update = \<lparr>abi_version = TABOS_APPLICATION_ABI_VERSION, app_name = Some name,
     app_version = Some ''1'', app_capabilities = 0, app_entry = Some (Code entry), app_update = Some (Code update),
     app_cleanup = None\<rparr>"

fun demo_app :: "app_callback \<Rightarrow> nat \<Rightarrow> app_program" where
  "demo_app (UpdateCall (Code (Suc 0))) slot = Call (CallLaunchChild (Some slot) (Some ''job'')) (\<lambda>_. Finish True)"
| "demo_app (UpdateCall (Code (Suc (Suc 0)))) slot = Call (CallRequestExit slot 42) (\<lambda>_. Finish True)"
| "demo_app (EntryCall (Code (Suc 0))) slot = Finish False"
| "demo_app _ slot = Finish True"

definition demo_env :: process_env where
  "demo_env = \<lparr>ke_font = (\<lambda>i. 0), ke_now = (\<lambda>k. 0), ke_presented = (\<lambda>k. True), ke_calloc = (\<lambda>k. None),
     ke_getcwd = (\<lambda>k. None), ke_data_pointer = (\<lambda>path n. True), ke_app = (\<lambda>callback slot k. demo_app callback slot),
     ke_load = (\<lambda>path k. LoadFailed ''no file''), ke_can_execute = False, ke_riscv_create = (\<lambda>a k. None),
     ke_guest = (\<lambda>a k. GuestFinish RISCV32_YIELDED 0), ke_compute_wait = (\<lambda>k. 0), ke_suspend_sockets = (\<lambda>k. False),
     ke_requires_slices = False, ke_riscv_deadline = (\<lambda>a k. 0)\<rparr>"

definition demo_kernel :: "console_state \<Rightarrow> pointer_state \<Rightarrow> kernel" where
  "demo_kernel c p = \<lparr>processes = [], foreground_stack = replicate KERNEL_PROCESS_CAPACITY 0, foreground_depth = 0,
     next_process_id = 0, foreground_process = None, last_exit_valid = False, last_exit_status = 0, applications = [],
     k_console = c, k_pointer = p, k_elf = (\<lambda>a. None), k_log = [], launched = 0\<rparr>"

definition demo_boot :: "kernel_op list" where
  "demo_boot = [OpRegister (Some (demo_descriptor ''shell'' 0 1)), OpRegister (Some (demo_descriptor ''job'' 0 2)),
     OpRegister (Some (demo_descriptor ''bad'' 1 0)), OpLaunch (Some ''shell'')]"

definition demo_state :: "console_state \<Rightarrow> pointer_state \<Rightarrow> kernel_op list \<Rightarrow> kernel" where
  "demo_state c p operations =
     the (kernel_run demo_env (demo_boot @ operations) (kernel_application_system_init (demo_kernel c p)))"

lemma demo_fresh: "calloc_fresh demo_env"
  by (simp add: calloc_fresh_def demo_env_def)

lemma demo_behaved: "well_behaved demo_env"
proof -
  have "demo_app (CleanupCall code status) slot = Finish True" for code status slot by (cases code) simp_all
  moreover have "entry_disciplined (demo_app (EntryCall code) slot)" for code slot
    by (cases "(EntryCall code, slot)" rule: demo_app.cases) simp_all
  ultimately show ?thesis by (simp add: well_behaved_def demo_env_def)
qed

lemma kernel_run_append:
  "kernel_run env (a @ b) k = (case kernel_run env a k of None \<Rightarrow> None | Some m \<Rightarrow> kernel_run env b m)"
  by (induction a arbitrary: k) (simp_all split: option.split)

lemma demo_run:
  "kernel_run demo_env (demo_boot @ operations) (kernel_application_system_init (demo_kernel c p)) =
     Some (demo_state c p operations)"
proof -
  have "length (processes (kernel_application_system_init (demo_kernel c p))) = KERNEL_PROCESS_CAPACITY"
    by (simp add: kernel_application_system_init_def)
  then show ?thesis using kernel_run_returns by (fastforce simp: demo_state_def)
qed

lemma demo_more: "kernel_run demo_env further (demo_state c p operations) = Some (demo_state c p (operations @ further))"
  using demo_run [of "operations @ further" c p] kernel_run_append [of demo_env "demo_boot @ operations" further] demo_run [of operations c p]
  by simp

lemma demo_step: "kernel_step demo_env operation (demo_state c p operations) = Some (demo_state c p (operations @ [operation]))"
  using demo_more [of "[operation]" c p operations] by (simp split: option.splits)

lemma demo_start: "kernel_start (demo_kernel demo_console demo_started)" "kernel_start (demo_kernel demo_console demo_pointer)"
  by (simp_all add: kernel_start_def demo_kernel_def demo_console_def demo_started_def pointer_service_init_def demo_pointer_def
      pointer_owner_def Let_def)

lemma demo_reachable:
  "kernel_reachable demo_env (demo_state demo_console demo_started operations)"
  "kernel_reachable demo_env (demo_state demo_console demo_pointer operations)"
  by (rule run_reachable [OF kernel_reachable.start [OF demo_start(1)] demo_run],
      rule run_reachable [OF kernel_reachable.start [OF demo_start(2)] demo_run])

theorem process_foreground_chain_witness:
  "(\<exists>chain. represents {} chain (demo_state demo_console demo_started [OpUpdate])) \<and>
   foreground_depth (demo_state demo_console demo_started [OpUpdate]) = 2"
proof -
  have launched: "launched (demo_state c p [OpUpdate]) = 2" "foreground_depth (demo_state c p [OpUpdate]) = 2" for c p
    by code_simp+
  then show ?thesis
    using process_foreground_chain [OF demo_reachable(1) demo_fresh demo_behaved, of "[OpUpdate]"] by (simp add: LAUNCH_LIMIT_def)
qed

definition demo_bad :: "console_state \<Rightarrow> (app_answer \<times> kernel) option" where
  "demo_bad c = app_step demo_env (kernel_runner demo_env) (CallLaunchChild (Some 0) (Some ''bad'')) (demo_state c demo_pointer [])"


theorem process_child_status_witness:
  "fst (tabos_app_take_child_status (Some 0)
     (demo_state demo_console demo_started [OpUpdate, OpForceTerminate 1 7, OpUpdate])) = Some 7"
proof -
  define k where "k = demo_state demo_console demo_started [OpUpdate, OpForceTerminate 1 7]"
  have facts: "foreground_process (demo_state c p [OpUpdate, OpForceTerminate 1 7]) = Some 1"
    "p_id (processes (demo_state c p [OpUpdate, OpForceTerminate 1 7]) ! 1) = 1"
    "ctx_exit_requested (context_of 1 (demo_state c p [OpUpdate, OpForceTerminate 1 7])) = True"
    "ctx_exit_status (context_of 1 (demo_state c p [OpUpdate, OpForceTerminate 1 7])) = 7"
    "launched (demo_state c p [OpUpdate, OpForceTerminate 1 7]) = 2"
    "foreground_process (demo_state c p [OpUpdate, OpForceTerminate 1 7, OpUpdate]) = Some 0" for c p
    by code_simp+
  have step: "kernel_step demo_env OpUpdate k = Some (demo_state demo_console demo_started [OpUpdate, OpForceTerminate 1 7, OpUpdate])"
    using demo_step [of OpUpdate demo_console demo_started "[OpUpdate, OpForceTerminate 1 7]"] by (simp add: k_def)
  have reach: "kernel_reachable demo_env k" unfolding k_def by (rule demo_reachable(1))
  show ?thesis
    using process_child_status [OF reach demo_fresh demo_behaved _ _ _ _ step, of 1] facts by (auto simp: k_def LAUNCH_LIMIT_def)
qed

theorem process_shutdown_releases_witness:
  "column p_occupied (demo_state demo_console demo_started [OpUpdate, OpShutdown]) = replicate KERNEL_PROCESS_CAPACITY False \<and>
   k_elf (demo_state demo_console demo_started [OpUpdate, OpShutdown]) = (\<lambda>a. None)"
proof -
  have "launched (demo_state c p [OpUpdate]) = 2" for c p by code_simp
  then show ?thesis
    using process_shutdown_releases [OF demo_reachable(1) demo_fresh demo_behaved _ demo_step, of "[OpUpdate]"]
    by (simp add: LAUNCH_LIMIT_def)
qed

theorem process_panic_final_witness:
  "p_state (processes (demo_state demo_console demo_started [OpForceTerminate 0 9, OpUpdate, OpUpdate, OpLaunch (Some ''job'')]) ! 0) =
     TABOS_PROCESS_PANICKED"
proof -
  have "foreground_process (demo_state c p [OpForceTerminate 0 9, OpUpdate]) = Some 0"
    "length (processes (demo_state c p [OpForceTerminate 0 9, OpUpdate])) = 16"
    "p_state (processes (demo_state c p [OpForceTerminate 0 9, OpUpdate]) ! 0) = TABOS_PROCESS_PANICKED"
    "p_id (processes (demo_state c p [OpForceTerminate 0 9, OpUpdate]) ! 0) = 0" for c p
    by code_simp+
  then show ?thesis
    using process_panic_final [OF _ _ _ _ _ demo_more [of "[OpUpdate, OpLaunch (Some ''job'')]" demo_console demo_started
        "[OpForceTerminate 0 9, OpUpdate]"], of 0] by simp
qed

end
