(* ===== verification/ElfLoader.thy ===== *)
theory ElfLoader
  imports Applications
begin

unbundle bit_operations_syntax

text \<open>
  The program loader of \<^verbatim>\<open>src/loader/elf_loader.c\<close>: it checks an ELF file, copies its segments into
  executable memory and relocates them. Memory is a list of bytes, and every access is checked: reading
  or writing outside of the file or the image is \<^const>\<open>None\<close>, so that a result of another form means that
  all accesses were in bounds. \<^verbatim>\<open>size_t\<close> has the 32 bits of the board (\<^const>\<open>SIZE_MAX\<close>). The executable memory
  of the platform is an argument. Several values of a structure are read before the first of them is
  tested, which only asks for more accesses to be in bounds.
\<close>

section \<open>Constants and results\<close>

datatype loader_elf_result =
    LOADER_ELF_OK
  | LOADER_ELF_INVALID_ARGUMENT
  | LOADER_ELF_TRUNCATED
  | LOADER_ELF_UNSUPPORTED_FORMAT
  | LOADER_ELF_UNSUPPORTED_RELOCATION
  | LOADER_ELF_INVALID_SEGMENT
  | LOADER_ELF_INVALID_ENTRY
  | LOADER_ELF_IMAGE_TOO_LARGE
  | LOADER_ELF_NO_EXECUTABLE_MEMORY
  | LOADER_ELF_PREPARE_FAILED
  | LOADER_ELF_FILE_OPEN_FAILED
  | LOADER_ELF_FILE_INVALID
  | LOADER_ELF_FILE_TOO_LARGE
  | LOADER_ELF_NO_FILE_MEMORY
  | LOADER_ELF_FILE_READ_FAILED

definition loader_elf_result_name :: "loader_elf_result \<Rightarrow> string" where
  "loader_elf_result_name result =
     (case result of
        LOADER_ELF_OK \<Rightarrow> ''OK''
      | LOADER_ELF_INVALID_ARGUMENT \<Rightarrow> ''INVALID ARGUMENT''
      | LOADER_ELF_TRUNCATED \<Rightarrow> ''TRUNCATED''
      | LOADER_ELF_UNSUPPORTED_FORMAT \<Rightarrow> ''UNSUPPORTED FORMAT''
      | LOADER_ELF_UNSUPPORTED_RELOCATION \<Rightarrow> ''UNSUPPORTED RELOCATION''
      | LOADER_ELF_INVALID_SEGMENT \<Rightarrow> ''INVALID SEGMENT''
      | LOADER_ELF_INVALID_ENTRY \<Rightarrow> ''INVALID ENTRY''
      | LOADER_ELF_IMAGE_TOO_LARGE \<Rightarrow> ''IMAGE TOO LARGE''
      | LOADER_ELF_NO_EXECUTABLE_MEMORY \<Rightarrow> ''NO EXECUTABLE MEMORY''
      | LOADER_ELF_PREPARE_FAILED \<Rightarrow> ''PREPARE FAILED''
      | LOADER_ELF_FILE_OPEN_FAILED \<Rightarrow> ''FILE OPEN FAILED''
      | LOADER_ELF_FILE_INVALID \<Rightarrow> ''INVALID FILE''
      | LOADER_ELF_FILE_TOO_LARGE \<Rightarrow> ''FILE TOO LARGE''
      | LOADER_ELF_NO_FILE_MEMORY \<Rightarrow> ''NO FILE MEMORY''
      | LOADER_ELF_FILE_READ_FAILED \<Rightarrow> ''FILE READ FAILED'')"

definition ELF_HEADER_SIZE :: nat where "ELF_HEADER_SIZE = 52"
definition ELF_PROGRAM_HEADER_SIZE :: nat where "ELF_PROGRAM_HEADER_SIZE = 32"
definition ELF_SECTION_HEADER_SIZE :: nat where "ELF_SECTION_HEADER_SIZE = 40"
definition ELF_TYPE_EXECUTABLE :: u16 where "ELF_TYPE_EXECUTABLE = 2"
definition ELF_MACHINE_RISCV :: u16 where "ELF_MACHINE_RISCV = 243"
definition ELF_PROGRAM_LOAD :: u32 where "ELF_PROGRAM_LOAD = 1"
definition ELF_PROGRAM_DYNAMIC :: u32 where "ELF_PROGRAM_DYNAMIC = 2"
definition ELF_PROGRAM_EXECUTE :: u32 where "ELF_PROGRAM_EXECUTE = 1"
definition ELF_SECTION_SYMBOL_TABLE :: u32 where "ELF_SECTION_SYMBOL_TABLE = 2"
definition ELF_SECTION_NOTE :: u32 where "ELF_SECTION_NOTE = 7"
definition ELF_SECTION_RELA :: u32 where "ELF_SECTION_RELA = 4"
definition ELF_SECTION_REL :: u32 where "ELF_SECTION_REL = 9"
definition ELF_RELOCATION_32 :: u32 where "ELF_RELOCATION_32 = 1"
definition ELF_RELOCATION_HI20 :: u32 where "ELF_RELOCATION_HI20 = 26"
definition ELF_RELOCATION_LO12_I :: u32 where "ELF_RELOCATION_LO12_I = 27"
definition ELF_RELOCATION_LO12_S :: u32 where "ELF_RELOCATION_LO12_S = 28"
definition ELF_RELOCATIONS_IGNORED :: "u32 list" where
  "ELF_RELOCATIONS_IGNORED = [0, 16, 17, 18, 19, 23, 24, 25, 51]"
definition ELF_RELA_ENTRY_SIZE :: nat where "ELF_RELA_ENTRY_SIZE = 12"
definition ELF_SYMBOL_ENTRY_SIZE :: nat where "ELF_SYMBOL_ENTRY_SIZE = 16"
definition ELF_SECTION_ALLOCATED :: u32 where "ELF_SECTION_ALLOCATED = 2"
definition ELF_SYMBOL_UNDEFINED :: u16 where "ELF_SYMBOL_UNDEFINED = 0"
definition ELF_SYMBOL_ABSOLUTE :: u16 where "ELF_SYMBOL_ABSOLUTE = 0xfff1"
definition ELF_NOTE_HEADER_SIZE :: nat where "ELF_NOTE_HEADER_SIZE = 12"
definition ELF_NOTE_TYPE_TABOS :: u32 where "ELF_NOTE_TYPE_TABOS = 1"
definition ELF_NOTE_NAME_SIZE :: u32 where "ELF_NOTE_NAME_SIZE = 6"
definition ELF_NOTE_DESC_PADDED_SIZE :: u32 where "ELF_NOTE_DESC_PADDED_SIZE = 32"
definition ELF_MAX_IMAGE_SIZE :: nat where "ELF_MAX_IMAGE_SIZE = 1024 * 1024"
definition ELF_MAX_FILE_SIZE :: nat where "ELF_MAX_FILE_SIZE = 2 * 1024 * 1024"
definition LOADER_ELF_METADATA_VERSION :: u32 where "LOADER_ELF_METADATA_VERSION = 1"
definition LOADER_ELF_METADATA_DESCRIPTOR_SIZE :: u32 where "LOADER_ELF_METADATA_DESCRIPTOR_SIZE = 32"
definition LOADER_ELF_DEFAULT_HEAP_BYTES :: u32 where "LOADER_ELF_DEFAULT_HEAP_BYTES = 256 * 1024"
definition LOADER_ELF_DEFAULT_STACK_BYTES :: u32 where "LOADER_ELF_DEFAULT_STACK_BYTES = 16 * 1024"
definition LOADER_ELF_MIN_HEAP_BYTES :: u32 where "LOADER_ELF_MIN_HEAP_BYTES = 256 * 1024"
definition LOADER_ELF_MAX_HEAP_BYTES :: u32 where "LOADER_ELF_MAX_HEAP_BYTES = 16 * 1024 * 1024"
definition LOADER_ELF_MIN_STACK_BYTES :: u32 where "LOADER_ELF_MIN_STACK_BYTES = 16 * 1024"
definition LOADER_ELF_MAX_STACK_BYTES :: u32 where "LOADER_ELF_MAX_STACK_BYTES = 256 * 1024"

record loader_elf_info =
  li_entry_address :: u32
  li_minimum_address :: u32
  li_maximum_address :: u32
  li_image_size :: nat
  li_load_segment_count :: nat
  li_application_abi_version :: u32
  li_requested_heap_bytes :: u32
  li_requested_stack_bytes :: u32
  li_capabilities :: u32
  li_metadata_present :: bool

definition info_zero :: loader_elf_info where
  "info_zero = \<lparr>li_entry_address = 0, li_minimum_address = 0, li_maximum_address = 0, li_image_size = 0,
     li_load_segment_count = 0, li_application_abi_version = 0, li_requested_heap_bytes = 0,
     li_requested_stack_bytes = 0, li_capabilities = 0, li_metadata_present = False\<rparr>"

section \<open>Checked memory\<close>

definition byte_at :: "u8 list \<Rightarrow> nat \<Rightarrow> u8 option" where
  "byte_at data i = (if i < length data then Some (data ! i) else None)"

definition read_u16 :: "u8 list \<Rightarrow> nat \<Rightarrow> u16 option" where
  "read_u16 data i =
     do {
       a \<leftarrow> byte_at data i;
       b \<leftarrow> byte_at data (i + 1);
       Some (ucast a OR push_bit 8 (ucast b))
     }"

definition read_u32 :: "u8 list \<Rightarrow> nat \<Rightarrow> u32 option" where
  "read_u32 data i =
     do {
       a \<leftarrow> byte_at data i;
       b \<leftarrow> byte_at data (i + 1);
       c \<leftarrow> byte_at data (i + 2);
       d \<leftarrow> byte_at data (i + 3);
       Some (ucast a OR push_bit 8 (ucast b) OR push_bit 16 (ucast c) OR push_bit 24 (ucast d))
     }"

definition read_i32 :: "u8 list \<Rightarrow> nat \<Rightarrow> int option" where
  "read_i32 data i = map_option sint (read_u32 data i)"

definition write_u32 :: "u8 list \<Rightarrow> nat \<Rightarrow> u32 \<Rightarrow> u8 list option" where
  "write_u32 memory i number =
     (if i + 3 < length memory then
        Some (memory[i := ucast number, i + 1 := ucast (drop_bit 8 number), i + 2 := ucast (drop_bit 16 number),
                     i + 3 := ucast (drop_bit 24 number)])
      else None)"

text \<open>\<^verbatim>\<open>memcpy\<close> from one list of bytes into another.\<close>

definition copy_bytes :: "u8 list \<Rightarrow> nat \<Rightarrow> u8 list \<Rightarrow> nat \<Rightarrow> nat \<Rightarrow> u8 list option" where
  "copy_bytes memory target data source count =
     (if target + count \<le> length memory \<and> source + count \<le> length data
      then Some (take target memory @ take count (drop source data) @ drop (target + count) memory)
      else None)"

definition range_valid :: "nat \<Rightarrow> nat \<Rightarrow> nat \<Rightarrow> bool" where
  "range_valid offset extent bound \<longleftrightarrow> offset \<le> bound \<and> extent \<le> bound - offset"

definition table_valid :: "nat \<Rightarrow> nat \<Rightarrow> nat \<Rightarrow> nat \<Rightarrow> bool" where
  "table_valid offset count entry_size bound \<longleftrightarrow>
     count = 0 \<or> entry_size \<noteq> 0 \<and> count \<le> SIZE_MAX div entry_size \<and> range_valid offset (count * entry_size) bound"

definition aligned_four :: "u32 \<Rightarrow> nat option" where
  "aligned_four number = (if SIZE_MAX - 3 < unat number then None else Some ((unat number + 3) div 4 * 4))"

section \<open>The metadata note\<close>

definition metadata_name_matches :: "u8 list \<Rightarrow> nat \<Rightarrow> u32 \<Rightarrow> bool option" where
  "metadata_name_matches data name name_size =
     (if name_size \<noteq> ELF_NOTE_NAME_SIZE then Some False
      else if length data < name + 6 then None
      else Some (take 6 (drop name data) = [0x54, 0x41, 0x42, 0x4f, 0x53, 0]))"

definition settings_valid :: "u32 \<Rightarrow> u32 \<Rightarrow> u32 \<Rightarrow> bool" where
  "settings_valid heap_bytes stack_bytes capabilities \<longleftrightarrow>
     \<not> (heap_bytes < LOADER_ELF_MIN_HEAP_BYTES \<or> LOADER_ELF_MAX_HEAP_BYTES < heap_bytes \<or>
        heap_bytes mod 4096 \<noteq> 0 \<or> stack_bytes < LOADER_ELF_MIN_STACK_BYTES \<or>
        LOADER_ELF_MAX_STACK_BYTES < stack_bytes \<or> stack_bytes mod 16 \<noteq> 0 \<or>
        capabilities AND NOT TABOS_APP_CAPABILITY_CONSOLE \<noteq> 0)"

text \<open>The descriptor of the note, once its name matched: the information it gives.\<close>

definition read_descriptor ::
    "u8 list \<Rightarrow> nat \<Rightarrow> loader_elf_info \<Rightarrow> (loader_elf_result \<times> loader_elf_info) option" where
  "read_descriptor data descriptor info =
     do {
       version \<leftarrow> read_u32 data descriptor;
       descriptor_size \<leftarrow> read_u32 data (descriptor + 4);
       abi \<leftarrow> read_u32 data (descriptor + 8);
       reserved \<leftarrow> read_u32 data (descriptor + 24);
       reserved' \<leftarrow> read_u32 data (descriptor + 28);
       (if version \<noteq> LOADER_ELF_METADATA_VERSION \<or> descriptor_size \<noteq> LOADER_ELF_METADATA_DESCRIPTOR_SIZE \<or>
           abi \<noteq> TABOS_APPLICATION_ABI_VERSION \<or> reserved \<noteq> 0 \<or> reserved' \<noteq> 0
        then Some (LOADER_ELF_UNSUPPORTED_FORMAT, info)
        else
          do {
            heap_bytes \<leftarrow> read_u32 data (descriptor + 12);
            stack_bytes \<leftarrow> read_u32 data (descriptor + 16);
            capabilities \<leftarrow> read_u32 data (descriptor + 20);
            (if \<not> settings_valid heap_bytes stack_bytes capabilities
             then Some (LOADER_ELF_UNSUPPORTED_FORMAT, info)
             else Some (LOADER_ELF_OK, info\<lparr>li_application_abi_version := abi, li_requested_heap_bytes := heap_bytes,
                    li_requested_stack_bytes := stack_bytes, li_capabilities := capabilities,
                    li_metadata_present := True\<rparr>))
          })
     }"

text \<open>
  The loop over the notes of a section. It answers with the code's result, whether a note of TabOS was
  found so far, and the information gathered.
\<close>

function scan_notes ::
    "u8 list \<Rightarrow> nat \<Rightarrow> nat \<Rightarrow> nat \<Rightarrow> bool \<Rightarrow> loader_elf_info \<Rightarrow>
     (loader_elf_result \<times> bool \<times> loader_elf_info) option" where
  "scan_notes data note_offset note_size cursor found info =
     (if \<not> cursor < note_size then Some (LOADER_ELF_OK, found, info)
      else if note_size - cursor < ELF_NOTE_HEADER_SIZE then Some (LOADER_ELF_TRUNCATED, found, info)
      else
        do {
          name_size \<leftarrow> read_u32 data (note_offset + cursor);
          desc_size \<leftarrow> read_u32 data (note_offset + cursor + 4);
          note_type \<leftarrow> read_u32 data (note_offset + cursor + 8);
          (case (aligned_four name_size, aligned_four desc_size) of
             (Some name_padded, Some desc_padded) \<Rightarrow>
               (let payload_size = (name_padded + desc_padded) mod (SIZE_MAX + 1);
                    name = note_offset + cursor + ELF_NOTE_HEADER_SIZE
                in if payload_size < name_padded \<or> note_size - cursor - ELF_NOTE_HEADER_SIZE < payload_size
                   then Some (LOADER_ELF_TRUNCATED, found, info)
                   else
                     do {
                       matches \<leftarrow> metadata_name_matches data name name_size;
                       (if matches \<and> (found \<or> note_type \<noteq> ELF_NOTE_TYPE_TABOS \<or> desc_size \<noteq> ELF_NOTE_DESC_PADDED_SIZE)
                        then Some (LOADER_ELF_UNSUPPORTED_FORMAT, found, info)
                        else
                          do {
                            (result, info) \<leftarrow> (if matches then read_descriptor data (name + name_padded) info
                              else Some (LOADER_ELF_OK, info));
                            (if result \<noteq> LOADER_ELF_OK then Some (result, found, info)
                             else scan_notes data note_offset note_size (cursor + (ELF_NOTE_HEADER_SIZE + payload_size))
                               (found \<or> matches) info)
                          })
                     })
           | _ \<Rightarrow> Some (LOADER_ELF_TRUNCATED, found, info))
        })"
  by pat_completeness auto

termination
  by (relation "measure (\<lambda>(data, note_offset, note_size, cursor, found, info). note_size - cursor)")
    (auto simp: ELF_NOTE_HEADER_SIZE_def)

declare scan_notes.simps [simp del]

text \<open>The header of a section, and the fields of the ELF header that locate the table.\<close>

definition section_at :: "u8 list \<Rightarrow> nat \<Rightarrow> nat option" where
  "section_at data index =
     do {
       section_offset \<leftarrow> read_u32 data 32;
       section_entry_size \<leftarrow> read_u16 data 46;
       Some (unat section_offset + index * unat section_entry_size)
     }"

fun metadata_sections ::
    "u8 list \<Rightarrow> nat list \<Rightarrow> bool \<Rightarrow> loader_elf_info \<Rightarrow> (loader_elf_result \<times> loader_elf_info) option" where
  "metadata_sections data [] found info = Some (LOADER_ELF_OK, info)"
| "metadata_sections data (index # rest) found info =
     do {
       entry \<leftarrow> section_at data index;
       type \<leftarrow> read_u32 data (entry + 4);
       (if type \<noteq> ELF_SECTION_NOTE then metadata_sections data rest found info
        else
          do {
            note_offset \<leftarrow> read_u32 data (entry + 16);
            note_size \<leftarrow> read_u32 data (entry + 20);
            (if \<not> range_valid (unat note_offset) (unat note_size) (length data) then Some (LOADER_ELF_TRUNCATED, info)
             else
               do {
                 (result, found, info) \<leftarrow> scan_notes data (unat note_offset) (unat note_size) 0 found info;
                 (if result \<noteq> LOADER_ELF_OK then Some (result, info) else metadata_sections data rest found info)
               })
          })
     }"

definition inspect_metadata :: "u8 list \<Rightarrow> loader_elf_info \<Rightarrow> (loader_elf_result \<times> loader_elf_info) option" where
  "inspect_metadata data info =
     do {
       section_count \<leftarrow> read_u16 data 48;
       metadata_sections data [0..<unat section_count] False
         (info\<lparr>li_application_abi_version := TABOS_APPLICATION_ABI_VERSION,
               li_requested_heap_bytes := LOADER_ELF_DEFAULT_HEAP_BYTES,
               li_requested_stack_bytes := LOADER_ELF_DEFAULT_STACK_BYTES,
               li_capabilities := TABOS_APP_CAPABILITY_CONSOLE, li_metadata_present := False\<rparr>)
     }"

section \<open>Sections\<close>

fun check_sections :: "u8 list \<Rightarrow> nat list \<Rightarrow> loader_elf_result option" where
  "check_sections data [] = Some LOADER_ELF_OK"
| "check_sections data (index # rest) =
     do {
       entry \<leftarrow> section_at data index;
       type \<leftarrow> read_u32 data (entry + 4);
       file_offset \<leftarrow> read_u32 data (entry + 16);
       section_size \<leftarrow> read_u32 data (entry + 20);
       entry_size \<leftarrow> read_u32 data (entry + 36);
       (if type = ELF_SECTION_REL \<and> 0 < section_size then Some LOADER_ELF_UNSUPPORTED_RELOCATION
        else if type = ELF_SECTION_RELA \<and>
            (unat entry_size \<noteq> ELF_RELA_ENTRY_SIZE \<or> section_size mod entry_size \<noteq> 0 \<or>
             \<not> range_valid (unat file_offset) (unat section_size) (length data))
        then Some LOADER_ELF_TRUNCATED
        else check_sections data rest)
     }"

definition inspect_sections :: "u8 list \<Rightarrow> loader_elf_result option" where
  "inspect_sections data =
     do {
       section_offset \<leftarrow> read_u32 data 32;
       section_entry_size \<leftarrow> read_u16 data 46;
       section_count \<leftarrow> read_u16 data 48;
       (if \<not> table_valid (unat section_offset) (unat section_count) (unat section_entry_size) (length data) \<or>
           0 < section_count \<and> unat section_entry_size \<noteq> ELF_SECTION_HEADER_SIZE
        then Some LOADER_ELF_TRUNCATED
        else check_sections data [0..<unat section_count])
     }"

section \<open>Inspection\<close>

text \<open>The loop over the program headers: lowest and highest address, whether the entry is executable, segments.\<close>

definition program_at :: "u8 list \<Rightarrow> nat \<Rightarrow> nat option" where
  "program_at data index =
     do {
       program_offset \<leftarrow> read_u32 data 28;
       program_entry_size \<leftarrow> read_u16 data 42;
       Some (unat program_offset + index * unat program_entry_size)
     }"

definition segment_invalid :: "u32 \<Rightarrow> u32 \<Rightarrow> u32 \<Rightarrow> u32 \<Rightarrow> u32 \<Rightarrow> nat \<Rightarrow> bool" where
  "segment_invalid file_offset virtual_address file_size memory_size alignment extent \<longleftrightarrow>
     memory_size < file_size \<or> \<not> range_valid (unat file_offset) (unat file_size) extent \<or> memory_size = 0 \<or>
     0xFFFFFFFF - memory_size < virtual_address \<or>
     1 < alignment \<and>
       (alignment AND (alignment - 1) \<noteq> 0 \<or> file_offset mod alignment \<noteq> virtual_address mod alignment)"

fun scan_segments ::
    "u8 list \<Rightarrow> u32 \<Rightarrow> nat list \<Rightarrow> u32 \<times> u32 \<times> bool \<times> nat \<Rightarrow>
     (loader_elf_result \<times> u32 \<times> u32 \<times> bool \<times> nat) option" where
  "scan_segments data entry_address [] bounds = Some (LOADER_ELF_OK, bounds)"
| "scan_segments data entry_address (index # rest) (minimum, maximum, executable, count) =
     do {
       program \<leftarrow> program_at data index;
       type \<leftarrow> read_u32 data program;
       (if type = ELF_PROGRAM_DYNAMIC then
          Some (LOADER_ELF_UNSUPPORTED_RELOCATION, minimum, maximum, executable, count)
        else if type \<noteq> ELF_PROGRAM_LOAD
        then scan_segments data entry_address rest (minimum, maximum, executable, count)
        else
          do {
            file_offset \<leftarrow> read_u32 data (program + 4);
            virtual_address \<leftarrow> read_u32 data (program + 8);
            file_size \<leftarrow> read_u32 data (program + 16);
            memory_size \<leftarrow> read_u32 data (program + 20);
            flags \<leftarrow> read_u32 data (program + 24);
            alignment \<leftarrow> read_u32 data (program + 28);
            (if segment_invalid file_offset virtual_address file_size memory_size alignment (length data)
             then Some (LOADER_ELF_INVALID_SEGMENT, minimum, maximum, executable, count)
             else
               (let end_address = virtual_address + memory_size;
                    minimum = (if virtual_address < minimum then virtual_address else minimum);
                    maximum = (if maximum < end_address then end_address else maximum);
                    executable = (if flags AND ELF_PROGRAM_EXECUTE \<noteq> 0 \<and> virtual_address \<le> entry_address \<and>
                        entry_address < end_address then True else executable)
                in scan_segments data entry_address rest (minimum, maximum, executable, count + 1)))
          })
     }"

definition header_supported :: "u8 list \<Rightarrow> bool option" where
  "header_supported data =
     do {
       type \<leftarrow> read_u16 data 16;
       machine \<leftarrow> read_u16 data 18;
       version \<leftarrow> read_u32 data 20;
       header_size \<leftarrow> read_u16 data 40;
       Some (take 7 data = [0x7f, 0x45, 0x4c, 0x46, 1, 1, 1] \<and> type = ELF_TYPE_EXECUTABLE \<and>
         machine = ELF_MACHINE_RISCV \<and> version = 1 \<and> unat header_size = ELF_HEADER_SIZE)
     }"

text \<open>What remains of \<^verbatim>\<open>loader_elf_inspect\<close> after the sections and the metadata were accepted.\<close>

definition inspect_segments ::
    "u8 list \<Rightarrow> u16 \<Rightarrow> loader_elf_info \<Rightarrow> (loader_elf_result \<times> loader_elf_info) option" where
  "inspect_segments data program_count info =
     do {
       entry_address \<leftarrow> read_u32 data 24;
       (result, minimum, maximum, executable, count) \<leftarrow>
         scan_segments data entry_address [0..<unat program_count] (0xFFFFFFFF, 0, False, 0);
       let info = info\<lparr>li_load_segment_count := count\<rparr>;
       (if result \<noteq> LOADER_ELF_OK then Some (result, info)
        else if count = 0 \<or> minimum = 0xFFFFFFFF \<or> maximum \<le> minimum then Some (LOADER_ELF_INVALID_SEGMENT, info)
        else if \<not> executable then Some (LOADER_ELF_INVALID_ENTRY, info)
        else if ELF_MAX_IMAGE_SIZE < unat (maximum - minimum) then Some (LOADER_ELF_IMAGE_TOO_LARGE, info)
        else Some (LOADER_ELF_OK, info\<lparr>li_entry_address := entry_address, li_minimum_address := minimum,
               li_maximum_address := maximum, li_image_size := unat (maximum - minimum)\<rparr>))
     }"

definition loader_elf_inspect ::
    "u8 list option \<Rightarrow> bool \<Rightarrow> (loader_elf_result \<times> loader_elf_info) option" where
  "loader_elf_inspect data output =
     (case data of
        None \<Rightarrow> Some (LOADER_ELF_INVALID_ARGUMENT, info_zero)
      | Some data \<Rightarrow>
          if \<not> output then Some (LOADER_ELF_INVALID_ARGUMENT, info_zero)
          else if length data < ELF_HEADER_SIZE then Some (LOADER_ELF_TRUNCATED, info_zero)
          else
            do {
              supported \<leftarrow> header_supported data;
              program_offset \<leftarrow> read_u32 data 28;
              program_entry_size \<leftarrow> read_u16 data 42;
              program_count \<leftarrow> read_u16 data 44;
              (if \<not> supported then Some (LOADER_ELF_UNSUPPORTED_FORMAT, info_zero)
               else if program_count = 0 \<or> unat program_entry_size \<noteq> ELF_PROGRAM_HEADER_SIZE \<or>
                   \<not> table_valid (unat program_offset) (unat program_count) (unat program_entry_size) (length data)
               then Some (LOADER_ELF_TRUNCATED, info_zero)
               else
                 do {
                   section_result \<leftarrow> inspect_sections data;
                   (if section_result \<noteq> LOADER_ELF_OK then Some (section_result, info_zero)
                    else
                      do {
                        (metadata_result, info) \<leftarrow> inspect_metadata data info_zero;
                        (if metadata_result \<noteq> LOADER_ELF_OK then Some (metadata_result, info)
                         else inspect_segments data program_count info)
                      })
                 })
            })"

section \<open>Relocation\<close>

text \<open>The immediates of the instructions \<^verbatim>\<open>lui\<close>, of loads and additions, and of stores.\<close>

definition patch_hi20 :: "u32 \<Rightarrow> u32 \<Rightarrow> u32" where
  "patch_hi20 v instruction = (instruction AND 0x00000fff) OR ((v + 0x800) AND 0xfffff000)"

definition patch_lo12_i :: "u32 \<Rightarrow> u32 \<Rightarrow> u32" where
  "patch_lo12_i v instruction = (instruction AND 0x000fffff) OR push_bit 20 (v AND 0x00000fff)"

definition patch_lo12_s :: "u32 \<Rightarrow> u32 \<Rightarrow> u32" where
  "patch_lo12_s v instruction =
     (instruction AND NOT 0xfe000f80) OR push_bit 20 (v AND 0x00000fe0) OR push_bit 7 (v AND 0x0000001f)"

text \<open>One entry of a relocation section. \<open>relocation\<close> is its offset in the file.\<close>

definition relocate_entry ::
    "u8 list \<Rightarrow> loader_elf_info \<Rightarrow> u32 \<Rightarrow> u16 \<Rightarrow> u32 \<Rightarrow> u32 \<Rightarrow> nat \<Rightarrow> u8 list \<Rightarrow>
     (loader_elf_result \<times> u8 list) option" where
  "relocate_entry data info load_bias section_count symbol_offset symbol_size relocation memory =
     do {
       target_address \<leftarrow> read_u32 data relocation;
       relocation_info \<leftarrow> read_u32 data (relocation + 4);
       addend \<leftarrow> read_i32 data (relocation + 8);
       let type = relocation_info AND 0xff;
       let symbol_index = drop_bit 8 relocation_info;
       (if type \<in> set ELF_RELOCATIONS_IGNORED then Some (LOADER_ELF_OK, memory)
        else if type \<notin> set [ELF_RELOCATION_32, ELF_RELOCATION_HI20, ELF_RELOCATION_LO12_I, ELF_RELOCATION_LO12_S]
        then Some (LOADER_ELF_UNSUPPORTED_RELOCATION, memory)
        else if target_address < li_minimum_address info \<or> li_maximum_address info - 4 < target_address
        then Some (LOADER_ELF_UNSUPPORTED_RELOCATION, memory)
        else if unat symbol_size div ELF_SYMBOL_ENTRY_SIZE \<le> unat symbol_index
        then Some (LOADER_ELF_UNSUPPORTED_RELOCATION, memory)
        else
          do {
            let symbol = unat symbol_offset + unat symbol_index * ELF_SYMBOL_ENTRY_SIZE;
            symbol_value \<leftarrow> read_u32 data (symbol + 4);
            symbol_section \<leftarrow> read_u16 data (symbol + 14);
            (if symbol_section = ELF_SYMBOL_UNDEFINED \<or>
                section_count \<le> symbol_section \<and> symbol_section \<noteq> ELF_SYMBOL_ABSOLUTE
             then Some (LOADER_ELF_UNSUPPORTED_RELOCATION, memory)
             else
               do {
                 let target = unat (target_address - li_minimum_address info);
                 let symbol_bias = (if symbol_section = ELF_SYMBOL_ABSOLUTE then 0 else load_bias);
                 let v = symbol_bias + symbol_value + word_of_int addend;
                 instruction \<leftarrow> read_u32 memory target;
                 memory \<leftarrow> write_u32 memory target
                   (if type = ELF_RELOCATION_32 then v
                    else if type = ELF_RELOCATION_HI20 then patch_hi20 v instruction
                    else if type = ELF_RELOCATION_LO12_I then patch_lo12_i v instruction
                    else patch_lo12_s v instruction);
                 Some (LOADER_ELF_OK, memory)
               })
          })
     }"

function relocate_entries ::
    "u8 list \<Rightarrow> loader_elf_info \<Rightarrow> u32 \<Rightarrow> u16 \<Rightarrow> u32 \<Rightarrow> u32 \<Rightarrow> nat \<Rightarrow> nat \<Rightarrow> nat \<Rightarrow> u8 list \<Rightarrow>
     (loader_elf_result \<times> u8 list) option" where
  "relocate_entries data info load_bias section_count symbol_offset symbol_size relocation_offset relocation_size used memory =
     (if \<not> used < relocation_size then Some (LOADER_ELF_OK, memory)
      else
        do {
          (result, memory) \<leftarrow> relocate_entry data info load_bias section_count symbol_offset symbol_size
            (relocation_offset + used) memory;
          (if result \<noteq> LOADER_ELF_OK then Some (result, memory)
           else relocate_entries data info load_bias section_count symbol_offset symbol_size relocation_offset
             relocation_size (used + ELF_RELA_ENTRY_SIZE) memory)
        })"
  by pat_completeness auto

termination
  by (relation "measure (\<lambda>(data, info, load_bias, section_count, symbol_offset, symbol_size, relocation_offset,
      relocation_size, used, memory). relocation_size - used)")
    (auto simp: ELF_RELA_ENTRY_SIZE_def)

declare relocate_entries.simps [simp del]

fun relocate_sections ::
    "u8 list \<Rightarrow> loader_elf_info \<Rightarrow> u32 \<Rightarrow> u16 \<Rightarrow> nat list \<Rightarrow> bool \<Rightarrow> u8 list \<Rightarrow>
     (loader_elf_result \<times> bool \<times> u8 list) option" where
  "relocate_sections data info load_bias section_count [] found memory = Some (LOADER_ELF_OK, found, memory)"
| "relocate_sections data info load_bias section_count (index # rest) found memory =
     do {
       entry \<leftarrow> section_at data index;
       type \<leftarrow> read_u32 data (entry + 4);
       (if type \<noteq> ELF_SECTION_RELA then relocate_sections data info load_bias section_count rest found memory
        else
          do {
            relocation_offset \<leftarrow> read_u32 data (entry + 16);
            relocation_size \<leftarrow> read_u32 data (entry + 20);
            symbol_section_index \<leftarrow> read_u32 data (entry + 24);
            target_section_index \<leftarrow> read_u32 data (entry + 28);
            (if unat section_count \<le> unat target_section_index
             then Some (LOADER_ELF_UNSUPPORTED_RELOCATION, found, memory)
             else
               do {
                 target_section \<leftarrow> section_at data (unat target_section_index);
                 flags \<leftarrow> read_u32 data (target_section + 8);
                 (if flags AND ELF_SECTION_ALLOCATED = 0
                  then relocate_sections data info load_bias section_count rest found memory
                  else if unat section_count \<le> unat symbol_section_index
                  then Some (LOADER_ELF_UNSUPPORTED_RELOCATION, True, memory)
                  else
                    do {
                      symbol_section \<leftarrow> section_at data (unat symbol_section_index);
                      symbol_type \<leftarrow> read_u32 data (symbol_section + 4);
                      symbol_entry_size \<leftarrow> read_u32 data (symbol_section + 36);
                      symbol_offset \<leftarrow> read_u32 data (symbol_section + 16);
                      symbol_size \<leftarrow> read_u32 data (symbol_section + 20);
                      (if symbol_type \<noteq> ELF_SECTION_SYMBOL_TABLE \<or> unat symbol_entry_size \<noteq> ELF_SYMBOL_ENTRY_SIZE
                       then Some (LOADER_ELF_UNSUPPORTED_RELOCATION, True, memory)
                       else if symbol_size = 0 \<or> unat symbol_size mod ELF_SYMBOL_ENTRY_SIZE \<noteq> 0 \<or>
                           \<not> range_valid (unat symbol_offset) (unat symbol_size) (length data)
                       then Some (LOADER_ELF_TRUNCATED, True, memory)
                       else
                         do {
                           (result, memory) \<leftarrow> relocate_entries data info load_bias section_count symbol_offset
                             symbol_size (unat relocation_offset) (unat relocation_size) 0 memory;
                           (if result \<noteq> LOADER_ELF_OK then Some (result, True, memory)
                            else relocate_sections data info load_bias section_count rest True memory)
                         })
                    })
               })
          })
     }"

definition apply_relocations ::
    "u8 list \<Rightarrow> loader_elf_info \<Rightarrow> bool \<Rightarrow> u32 \<Rightarrow> u8 list \<Rightarrow> (loader_elf_result \<times> u8 list) option" where
  "apply_relocations data info translated executable memory =
     do {
       section_count \<leftarrow> read_u16 data 48;
       let load_bias = (if \<not> translated then 0 else executable - li_minimum_address info);
       (if load_bias = 0 then Some (LOADER_ELF_OK, memory)
        else
          do {
            (result, found, memory) \<leftarrow>
              relocate_sections data info load_bias section_count [0..<unat section_count] False memory;
            Some (if result \<noteq> LOADER_ELF_OK then result
                  else if found then LOADER_ELF_OK else LOADER_ELF_UNSUPPORTED_RELOCATION, memory)
          })
     }"

section \<open>Loading\<close>

text \<open>
  The executable memory of the platform: whether an allocation succeeds, the executable address of
  prepared memory, whether data accesses to that address are translated to the writable view (on the
  board they are, on the host the addresses are those of the file), and whether it can be finalized.
\<close>

record loader_platform =
  lp_alloc :: "nat \<Rightarrow> bool"
  lp_prepare :: "u8 list \<Rightarrow> u32 option"
  lp_translated :: "u32 \<Rightarrow> bool"
  lp_finalize :: "u32 \<Rightarrow> u8 list \<Rightarrow> bool"

record loader_image =
  im_memory :: u32
  im_contents :: "u8 list"
  im_memory_size :: nat
  im_entry :: u32
  im_info :: loader_elf_info

datatype loader_call = ExecutableAlloc nat | ExecutablePrepare | ExecutableFinalize | ExecutableFree

fun copy_segments :: "u8 list \<Rightarrow> loader_elf_info \<Rightarrow> nat list \<Rightarrow> u8 list \<Rightarrow> u8 list option" where
  "copy_segments data info [] memory = Some memory"
| "copy_segments data info (index # rest) memory =
     do {
       program \<leftarrow> program_at data index;
       type \<leftarrow> read_u32 data program;
       (if type \<noteq> ELF_PROGRAM_LOAD then copy_segments data info rest memory
        else
          do {
            file_offset \<leftarrow> read_u32 data (program + 4);
            virtual_address \<leftarrow> read_u32 data (program + 8);
            file_size \<leftarrow> read_u32 data (program + 16);
            memory \<leftarrow> copy_bytes memory (unat (virtual_address - li_minimum_address info)) data
              (unat file_offset) (unat file_size);
            copy_segments data info rest memory
          })
     }"

definition loader_elf_load ::
    "loader_platform \<Rightarrow> u8 list option \<Rightarrow> bool \<Rightarrow>
     (loader_elf_result \<times> loader_image option \<times> loader_call list) option" where
  "loader_elf_load platform data output =
     (if \<not> output then Some (LOADER_ELF_INVALID_ARGUMENT, None, [])
      else
        do {
          (result, info) \<leftarrow> loader_elf_inspect data True;
          (if result \<noteq> LOADER_ELF_OK then Some (result, None, [])
           else if \<not> lp_alloc platform (li_image_size info)
           then Some (LOADER_ELF_NO_EXECUTABLE_MEMORY, None, [ExecutableAlloc (li_image_size info)])
           else
             do {
               let data = the data;
               program_count \<leftarrow> read_u16 data 44;
               memory \<leftarrow> copy_segments data info [0..<unat program_count] (replicate (li_image_size info) 0);
               (case lp_prepare platform memory of
                  None \<Rightarrow> Some (LOADER_ELF_PREPARE_FAILED, None,
                    [ExecutableAlloc (li_image_size info), ExecutablePrepare, ExecutableFree])
                | Some executable \<Rightarrow>
                    do {
                      (result, memory) \<leftarrow>
                        apply_relocations data info (lp_translated platform executable) executable memory;
                      (if result \<noteq> LOADER_ELF_OK
                       then Some (result, None,
                         [ExecutableAlloc (li_image_size info), ExecutablePrepare, ExecutableFree])
                       else if \<not> lp_finalize platform executable memory
                       then Some (LOADER_ELF_PREPARE_FAILED, None,
                         [ExecutableAlloc (li_image_size info), ExecutablePrepare, ExecutableFinalize, ExecutableFree])
                       else Some (LOADER_ELF_OK,
                         Some \<lparr>im_memory = executable, im_contents = memory, im_memory_size = li_image_size info,
                           im_entry = executable + (li_entry_address info - li_minimum_address info), im_info = info\<rparr>,
                         [ExecutableAlloc (li_image_size info), ExecutablePrepare, ExecutableFinalize]))
                    })
             })
        })"

definition loader_elf_unload :: "loader_image option \<Rightarrow> loader_call list" where
  "loader_elf_unload loaded = (case loaded of None \<Rightarrow> [] | Some i \<Rightarrow> [ExecutableFree])"

section \<open>Files\<close>

definition TABOS_O_RDONLY :: int where "TABOS_O_RDONLY = 0"
definition TABOS_S_IFREG :: u32 where "TABOS_S_IFREG = 1"

text \<open>The loop that reads the whole file: \<^const>\<open>None\<close> when a read fails, ends early or is too long.\<close>

function read_file :: "'p storage_ops \<Rightarrow> int \<Rightarrow> nat \<Rightarrow> nat \<Rightarrow> u8 list \<Rightarrow> 'p fs_state \<Rightarrow> u8 list option \<times> 'p fs_state" where
  "read_file ops descriptor extent used data fs =
     (if \<not> used < extent then (Some data, fs)
      else
        (case tabos_fs_read ops descriptor True (extent - used) fs of
           (count, bytes, fs) \<Rightarrow>
             if count \<le> 0 \<or> extent - used < nat count then (None, fs)
             else read_file ops descriptor extent (used + nat count) (data @ bytes) fs))"
  by pat_completeness auto

termination
  by (relation "measure (\<lambda>(ops, descriptor, extent, used, data, fs). extent - used)") auto

declare read_file.simps [simp del]

definition loader_elf_load_file ::
    "'p storage_ops \<Rightarrow> loader_platform \<Rightarrow> (nat \<Rightarrow> bool) \<Rightarrow> string option \<Rightarrow> bool \<Rightarrow> 'p fs_state \<Rightarrow>
     (loader_elf_result \<times> loader_image option \<times> loader_call list) option \<times> 'p fs_state" where
  "loader_elf_load_file ops platform malloc path output fs =
     (if path = None \<or> path = Some [] \<or> \<not> output then (Some (LOADER_ELF_INVALID_ARGUMENT, None, []), fs)
      else
        (case tabos_fs_open ops path TABOS_O_RDONLY 0 fs of
           (descriptor, fs) \<Rightarrow>
             if descriptor < 0 then (Some (LOADER_ELF_FILE_OPEN_FAILED, None, []), fs)
             else
               (case tabos_fs_fstat ops descriptor True fs of
                  (failed, status, fs) \<Rightarrow>
                    if failed \<noteq> 0 \<or> st_mode (the status) AND TABOS_S_IFREG = 0 \<or> st_size (the status) = 0 \<or>
                        SIZE_MAX < unat (st_size (the status))
                    then (Some (LOADER_ELF_FILE_INVALID, None, []), snd (tabos_fs_close ops descriptor fs))
                    else if ELF_MAX_FILE_SIZE < unat (st_size (the status))
                    then (Some (LOADER_ELF_FILE_TOO_LARGE, None, []), snd (tabos_fs_close ops descriptor fs))
                    else if \<not> malloc (unat (st_size (the status)))
                    then (Some (LOADER_ELF_NO_FILE_MEMORY, None, []), snd (tabos_fs_close ops descriptor fs))
                    else
                      (case read_file ops descriptor (unat (st_size (the status))) 0 [] fs of
                         (None, fs) \<Rightarrow> (Some (LOADER_ELF_FILE_READ_FAILED, None, []), snd (tabos_fs_close ops descriptor fs))
                       | (Some data, fs) \<Rightarrow>
                           (case tabos_fs_close ops descriptor fs of
                              (closed, fs) \<Rightarrow>
                                if closed \<noteq> 0 then (Some (LOADER_ELF_FILE_READ_FAILED, None, []), fs)
                                else (loader_elf_load platform (Some data) True, fs))))))"

end
