(* ===== verification/ElfLoaderProofs.thy ===== *)
theory ElfLoaderProofs
  imports ElfLoader
begin

unbundle bit_operations_syntax

text \<open>
  The loader stays in bounds on every file, whatever its bytes: inspection always, loading for images that
  end above address 3. Accepted files are described by their list of segments; the loaded image is
  what these segments say; relocated instruction pairs compute the relocated address; and every file
  that was opened is closed.
\<close>

section \<open>Reading\<close>

definition u16_at :: "u8 list \<Rightarrow> nat \<Rightarrow> u16" where
  "u16_at data i = ucast (data ! i) OR push_bit 8 (ucast (data ! (i + 1)))"

definition u32_at :: "u8 list \<Rightarrow> nat \<Rightarrow> u32" where
  "u32_at data i = ucast (data ! i) OR push_bit 8 (ucast (data ! (i + 1))) OR push_bit 16 (ucast (data ! (i + 2))) OR
     push_bit 24 (ucast (data ! (i + 3)))"

lemma read_u16_eq: "read_u16 data i = (if i + 1 < length data then Some (u16_at data i) else None)"
  by (auto simp: read_u16_def byte_at_def u16_at_def)

lemma read_u32_eq: "read_u32 data i = (if i + 3 < length data then Some (u32_at data i) else None)"
  by (auto simp: read_u32_def byte_at_def u32_at_def)

lemmas reads = read_u16_eq read_u32_eq read_i32_def

lemma write_u32_length: "write_u32 memory i v = Some m \<Longrightarrow> length m = length memory"
  by (auto simp: write_u32_def split: if_splits)

lemma copy_bytes_length: "copy_bytes memory target data source count = Some m \<Longrightarrow> length m = length memory"
  by (auto simp: copy_bytes_def split: if_splits)

text \<open>The tables of a file: offsets of section and program headers, and their fields.\<close>

definition section_header :: "u8 list \<Rightarrow> nat \<Rightarrow> nat" where
  "section_header data index = unat (u32_at data 32) + index * unat (u16_at data 46)"

definition program_header :: "u8 list \<Rightarrow> nat \<Rightarrow> nat" where
  "program_header data index = unat (u32_at data 28) + index * unat (u16_at data 42)"

lemma section_at_eq: "52 \<le> length data \<Longrightarrow> section_at data index = Some (section_header data index)"
  by (simp add: section_at_def section_header_def reads)

lemma program_at_eq: "52 \<le> length data \<Longrightarrow> program_at data index = Some (program_header data index)"
  by (simp add: program_at_def program_header_def reads)

lemma table_entry:
  assumes "table_valid offset count entry_size bound" and "index < count"
  shows "offset + index * entry_size + entry_size \<le> bound"
proof -
  have "offset + count * entry_size \<le> bound" using assms by (auto simp: table_valid_def range_valid_def)
  moreover have "index * entry_size + entry_size \<le> count * entry_size"
    using mult_le_mono1 [of "Suc index" count entry_size] assms(2) by simp
  ultimately show ?thesis by linarith
qed

section \<open>Inspection stays in the file\<close>

lemma name_in_bounds: "ELF_NOTE_NAME_SIZE = name_size \<Longrightarrow> name + 6 \<le> length data \<Longrightarrow>
    metadata_name_matches data name name_size \<noteq> None"
  by (simp add: metadata_name_matches_def)

lemma descriptor_in_bounds: "descriptor + 32 \<le> length data \<Longrightarrow> read_descriptor data descriptor info \<noteq> None"
  by (simp add: read_descriptor_def reads)

lemma aligned_four_least: "aligned_four number = Some padded \<Longrightarrow> unat number \<le> padded"
  by (auto simp: aligned_four_def split: if_splits)

lemma notes_in_bounds:
  "note_offset + note_size \<le> length data \<Longrightarrow> scan_notes data note_offset note_size cursor found info \<noteq> None"
proof (induction "note_size - cursor" arbitrary: cursor found info rule: less_induct)
  case less
  define name_size where "name_size = u32_at data (note_offset + cursor)"
  define desc_size where "desc_size = u32_at data (note_offset + cursor + 4)"
  show ?case
  proof (cases "cursor < note_size \<and> \<not> note_size - cursor < ELF_NOTE_HEADER_SIZE")
    case True
    then have reads: "read_u32 data (note_offset + cursor) = Some name_size"
      "read_u32 data (note_offset + cursor + 4) = Some desc_size"
      "read_u32 data (note_offset + cursor + 8) = Some (u32_at data (note_offset + cursor + 8))"
      using less.prems by (auto simp: reads ELF_NOTE_HEADER_SIZE_def name_size_def desc_size_def)
    show ?thesis
    proof (cases "aligned_four name_size = None \<or> aligned_four desc_size = None")
      case True
      then show ?thesis by (subst scan_notes.simps) (auto simp: reads split: option.split)
    next
      case False
      then obtain name_padded desc_padded where padded: "aligned_four name_size = Some name_padded"
        "aligned_four desc_size = Some desc_padded" by auto
      define payload_size where "payload_size = (name_padded + desc_padded) mod (SIZE_MAX + 1)"
      then have payload: "(name_padded + desc_padded) mod Suc SIZE_MAX = payload_size" by simp
      define name where "name = note_offset + cursor + ELF_NOTE_HEADER_SIZE"
      show ?thesis
      proof (cases "payload_size < name_padded \<or> note_size - cursor - ELF_NOTE_HEADER_SIZE < payload_size")
        case True
        then show ?thesis
          by (subst scan_notes.simps) (auto simp: reads padded payload Let_def)
      next
        case fits: False
        then have inside: "name + payload_size \<le> length data" "name_padded \<le> payload_size"
          using True less.prems by (auto simp: name_def)
        obtain matches where matches: "metadata_name_matches data name name_size = Some matches"
          using inside aligned_four_least [OF padded(1)]
          by (cases "name_size = ELF_NOTE_NAME_SIZE") (auto simp: metadata_name_matches_def ELF_NOTE_NAME_SIZE_def)
        have descriptor: "read_descriptor data (name + name_padded) x \<noteq> None" if "matches" "desc_size = ELF_NOTE_DESC_PADDED_SIZE" for x
        proof (rule descriptor_in_bounds)
          have "name_size = ELF_NOTE_NAME_SIZE" using that(1) matches by (auto simp: metadata_name_matches_def split: if_splits)
          then have "name_padded = 8" "desc_padded = 32"
            using padded that(2)
            by (auto simp: aligned_four_def ELF_NOTE_NAME_SIZE_def ELF_NOTE_DESC_PADDED_SIZE_def SIZE_MAX_def)
          then show "name + name_padded + 32 \<le> length data"
            using inside by (simp add: payload_size_def SIZE_MAX_def)
        qed
        have more: "scan_notes data note_offset note_size (cursor + (ELF_NOTE_HEADER_SIZE + payload_size)) f x \<noteq> None" for f x
          by (rule less.hyps) (use True less.prems in \<open>auto simp: ELF_NOTE_HEADER_SIZE_def\<close>)
        obtain r x where result: "(if matches \<and> desc_size = ELF_NOTE_DESC_PADDED_SIZE then read_descriptor data (name + name_padded) info
            else Some (LOADER_ELF_OK, info)) = Some (r, x)"
          using descriptor [of info] by (cases "matches \<and> desc_size = ELF_NOTE_DESC_PADDED_SIZE") auto
        show ?thesis
          using result more fits True
          by (subst scan_notes.simps)
            (auto simp: reads padded payload name_def [symmetric] matches Let_def)
      qed
    qed
  qed (subst scan_notes.simps, auto)
qed

text \<open>The loops over the section table: every index leads to a header inside the file.\<close>

definition sections_inside :: "u8 list \<Rightarrow> bool" where
  "sections_inside data \<longleftrightarrow> 52 \<le> length data \<and>
     (\<forall>i < unat (u16_at data 48). section_header data i + 40 \<le> length data)"

lemma section_inside:
  assumes "sections_inside data" and "i < unat (u16_at data 48)"
  shows "section_at data i = Some (section_header data i)"
    and "n + 3 < 40 \<Longrightarrow> read_u32 data (section_header data i + n) = Some (u32_at data (section_header data i + n))"
  using assms by (auto simp: sections_inside_def section_at_eq reads)

lemma metadata_in_bounds:
  assumes inside: "sections_inside data" and "set indices \<subseteq> {..<unat (u16_at data 48)}"
  shows "metadata_sections data indices found info \<noteq> None"
  using assms(2)
proof (induction indices arbitrary: found info)
  case (Cons i indices)
  note entry = section_inside [OF inside, of i]
  define note_offset note_size where "note_offset = unat (u32_at data (section_header data i + 16))"
    and "note_size = unat (u32_at data (section_header data i + 20))"
  show ?case
  proof (cases "range_valid note_offset note_size (length data)")
    case True
    then obtain r f x where "scan_notes data note_offset note_size 0 found info = Some (r, f, x)"
      using notes_in_bounds [of note_offset note_size data 0 found info] by (fastforce simp: range_valid_def)
    then show ?thesis using Cons entry by (auto simp: note_offset_def note_size_def)
  next
    case False
    then show ?thesis using Cons entry by (auto simp: note_offset_def note_size_def)
  qed
qed simp

definition relocation_sections_valid :: "u8 list \<Rightarrow> nat list \<Rightarrow> bool" where
  "relocation_sections_valid data indices \<longleftrightarrow>
     (\<forall>i \<in> set indices. u32_at data (section_header data i + 4) = ELF_SECTION_RELA \<longrightarrow>
        unat (u32_at data (section_header data i + 20)) mod ELF_RELA_ENTRY_SIZE = 0 \<and>
        range_valid (unat (u32_at data (section_header data i + 16))) (unat (u32_at data (section_header data i + 20)))
          (length data))"

lemma check_sections_spec:
  assumes inside: "sections_inside data" and "set indices \<subseteq> {..<unat (u16_at data 48)}"
  shows "\<exists>r. check_sections data indices = Some r \<and> (r = LOADER_ELF_OK \<longrightarrow> relocation_sections_valid data indices)"
  using assms(2)
proof (induction indices)
  case (Cons i indices)
  note entry = section_inside [OF inside, of i]
  define h where "h = section_header data i"
  have reads: "section_at data i = Some h" "read_u32 data (h + 4) = Some (u32_at data (h + 4))"
    "read_u32 data (h + 16) = Some (u32_at data (h + 16))" "read_u32 data (h + 20) = Some (u32_at data (h + 20))"
    "read_u32 data (h + 36) = Some (u32_at data (h + 36))"
    using entry Cons.prems by (simp_all add: h_def)
  obtain r where r: "check_sections data indices = Some r" "r = LOADER_ELF_OK \<longrightarrow> relocation_sections_valid data indices"
    using Cons by auto
  have divides: "unat (x mod y) = unat x mod unat y" for x y :: u32 by (rule unat_mod_distrib)
  have "unat (u32_at data (h + 20)) mod ELF_RELA_ENTRY_SIZE = 0"
    if "unat (u32_at data (h + 36)) = ELF_RELA_ENTRY_SIZE" "u32_at data (h + 20) mod u32_at data (h + 36) = 0"
    using divides [of "u32_at data (h + 20)" "u32_at data (h + 36)"] that by simp
  then show ?case
    using r by (auto simp: reads relocation_sections_valid_def h_def [symmetric])
qed (simp add: relocation_sections_valid_def)

lemma inspect_sections_spec:
  assumes "52 \<le> length data"
  shows "\<exists>r. inspect_sections data = Some r \<and>
    (r = LOADER_ELF_OK \<longrightarrow> sections_inside data \<and> relocation_sections_valid data [0..<unat (u16_at data 48)])"
proof -
  define count where "count = unat (u16_at data 48)"
  define entry_size where "entry_size = unat (u16_at data 46)"
  define offset where "offset = unat (u32_at data 32)"
  have inside: "sections_inside data"
    if "table_valid offset count entry_size (length data)" "count = 0 \<or> entry_size = 40"
    unfolding sections_inside_def
  proof (intro conjI allI impI)
    fix i assume i: "i < unat (u16_at data 48)"
    then have "entry_size = 40" using that(2) by (simp add: count_def)
    then show "section_header data i + 40 \<le> length data"
      using table_entry [OF that(1), of i] i by (simp add: section_header_def count_def entry_size_def offset_def)
  qed (rule assms)
  have positive: "0 < u16_at data 48 \<longleftrightarrow> count \<noteq> 0"
    by (simp add: count_def unat_eq_0 word_neq_0_conv)
  show ?thesis
  proof (cases "table_valid offset count entry_size (length data) \<and> (count = 0 \<or> entry_size = 40)")
    case True
    then have "sections_inside data" using inside by blast
    have "set [0..<unat (u16_at data 48)] \<subseteq> {..<unat (u16_at data 48)}" by auto
    from check_sections_spec [OF \<open>sections_inside data\<close> this] \<open>sections_inside data\<close> True show ?thesis using assms positive
      by (auto simp: inspect_sections_def reads count_def offset_def entry_size_def ELF_SECTION_HEADER_SIZE_def)
  next
    case False
    then show ?thesis using assms positive
      by (auto simp: inspect_sections_def reads count_def [symmetric] offset_def [symmetric] entry_size_def [symmetric]
          ELF_SECTION_HEADER_SIZE_def)
  qed
qed

section \<open>The segments of a file\<close>

record elf_segment =
  sg_offset :: nat
  sg_address :: nat
  sg_file_size :: nat
  sg_memory_size :: nat
  sg_flags :: u32

definition segment_of :: "u8 list \<Rightarrow> nat \<Rightarrow> elf_segment" where
  "segment_of data i =
     \<lparr>sg_offset = unat (u32_at data (program_header data i + 4)), sg_address = unat (u32_at data (program_header data i + 8)),
      sg_file_size = unat (u32_at data (program_header data i + 16)),
      sg_memory_size = unat (u32_at data (program_header data i + 20)), sg_flags = u32_at data (program_header data i + 24)\<rparr>"

definition load_indices :: "u8 list \<Rightarrow> nat list \<Rightarrow> nat list" where
  "load_indices data indices = filter (\<lambda>i. u32_at data (program_header data i) = ELF_PROGRAM_LOAD) indices"

definition elf_segments :: "u8 list \<Rightarrow> elf_segment list" where
  "elf_segments data = map (segment_of data) (load_indices data [0..<unat (u16_at data 44)])"

definition segment_ok :: "nat \<Rightarrow> elf_segment \<Rightarrow> bool" where
  "segment_ok extent s \<longleftrightarrow>
     sg_file_size s \<le> sg_memory_size s \<and> 0 < sg_memory_size s \<and> sg_offset s + sg_file_size s \<le> extent \<and>
     sg_address s + sg_memory_size s < 2 ^ 32"

definition covers :: "elf_segment \<Rightarrow> nat \<Rightarrow> bool" where
  "covers s a \<longleftrightarrow> sg_address s \<le> a \<and> a < sg_address s + sg_memory_size s"

definition executable_segment :: "elf_segment \<Rightarrow> bool" where
  "executable_segment s \<longleftrightarrow> sg_flags s AND ELF_PROGRAM_EXECUTE \<noteq> 0"

definition programs_inside :: "u8 list \<Rightarrow> bool" where
  "programs_inside data \<longleftrightarrow> 52 \<le> length data \<and>
     (\<forall>i < unat (u16_at data 44). program_header data i + 32 \<le> length data)"

lemma program_inside:
  assumes "programs_inside data" and "i < unat (u16_at data 44)"
  shows "program_at data i = Some (program_header data i)"
    and "n + 3 < 32 \<Longrightarrow> read_u32 data (program_header data i + n) = Some (u32_at data (program_header data i + n))"
  using assms by (auto simp: programs_inside_def program_at_eq reads)

lemma segment_end:
  assumes "\<not> 0xFFFFFFFF - m < (v::u32)"
  shows "unat (v + m) = unat v + unat m" and "unat v + unat m < 2 ^ 32"
proof -
  have bound: "unat m < 2 ^ 32" using unsigned_less [of m, where 'a = nat] by simp
  then have "m \<le> 0xFFFFFFFF" by (simp add: word_le_nat_alt)
  then have "unat (0xFFFFFFFF - m) = 4294967295 - unat m" by (simp add: unat_sub)
  moreover note bound
  ultimately show "unat v + unat m < 2 ^ 32" using assms by (auto simp: word_less_nat_alt not_less)
  then show "unat (v + m) = unat v + unat m" by (subst unat_add_lem [THEN iffD1]) simp_all
qed

text \<open>What the scan has found out about the segments so far.\<close>

definition scanned ::
    "nat \<Rightarrow> nat \<Rightarrow> elf_segment list \<Rightarrow> u32 \<times> u32 \<times> bool \<times> nat \<Rightarrow> u32 \<times> u32 \<times> bool \<times> nat \<Rightarrow> bool" where
  "scanned extent entry_address segments before after \<longleftrightarrow>
     (case (before, after) of
        ((m0, x0, e0, c0), (m, x, e, c)) \<Rightarrow>
          (\<forall>s \<in> set segments. segment_ok extent s \<and> unat m \<le> sg_address s \<and> sg_address s + sg_memory_size s \<le> unat x) \<and>
          m \<le> m0 \<and> x0 \<le> x \<and>
          (m = m0 \<or> (\<exists>s \<in> set segments. sg_address s = unat m)) \<and>
          (x = x0 \<or> (\<exists>s \<in> set segments. sg_address s + sg_memory_size s = unat x)) \<and>
          (e \<longleftrightarrow> e0 \<or> (\<exists>s \<in> set segments. executable_segment s \<and> covers s entry_address)) \<and>
          c = c0 + length segments)"

lemma scanned_step:
  assumes ok: "segment_ok extent s"
    and first: "m1 = (if v < m0 then v else m0)" "x1 = (if x0 < w then w else x0)"
      "e1 = (e0 \<or> executable_segment s \<and> covers s entry_address)"
    and s: "sg_address s = unat v" "sg_address s + sg_memory_size s = unat w"
    and rest: "scanned extent entry_address segments (m1, x1, e1, c0 + 1) after"
  shows "scanned extent entry_address (s # segments) (m0, x0, e0, c0) after"
proof -
  obtain m x e c where after: "after = (m, x, e, c)" by (cases after) auto
  have low: "m1 \<le> m0" "m1 \<le> v" "m1 = m0 \<or> m1 = v" and high: "x0 \<le> x1" "w \<le> x1" "x1 = x0 \<or> x1 = w"
    using first by auto
  note r = rest [unfolded scanned_def after prod.case]
  have mono: "unat a \<le> unat b" if "a \<le> b" for a b :: u32 using that by (simp add: word_le_nat_alt)
  show ?thesis
    unfolding scanned_def after prod.case
  proof (intro conjI)
    have "unat m \<le> sg_address s" using r low s mono by fastforce
    moreover have "sg_address s + sg_memory_size s \<le> unat x" unfolding s(2) using r high mono by fastforce
    ultimately show "\<forall>t \<in> set (s # segments). segment_ok extent t \<and> unat m \<le> sg_address t \<and>
        sg_address t + sg_memory_size t \<le> unat x" using r ok by simp
    show "m \<le> m0" "x0 \<le> x" using r low high by auto
    show "m = m0 \<or> (\<exists>t \<in> set (s # segments). sg_address t = unat m)" using r low s by auto
    show "x = x0 \<or> (\<exists>t \<in> set (s # segments). sg_address t + sg_memory_size t = unat x)" using r high s by auto
    show "e \<longleftrightarrow> e0 \<or> (\<exists>t \<in> set (s # segments). executable_segment t \<and> covers t entry_address)" using r first(3) by auto
    show "c = c0 + length (s # segments)" using r by simp
  qed
qed

lemma scan_segments_spec:
  assumes inside: "programs_inside data" and "set indices \<subseteq> {..<unat (u16_at data 44)}"
  shows "\<exists>r after. scan_segments data entry_address indices before = Some (r, after) \<and>
    (r = LOADER_ELF_OK \<longrightarrow>
       scanned (length data) (unat entry_address) (map (segment_of data) (load_indices data indices)) before after)"
  using assms(2)
proof (induction indices arbitrary: before)
  case Nil
  then show ?case by (cases before) (simp add: scanned_def load_indices_def)
next
  case (Cons i indices)
  obtain m0 x0 e0 c0 where before: "before = (m0, x0, e0, c0)" by (cases before) auto
  define h where "h = program_header data i"
  have reads: "program_at data i = Some h" "read_u32 data h = Some (u32_at data h)"
    "read_u32 data (h + 4) = Some (u32_at data (h + 4))" "read_u32 data (h + 8) = Some (u32_at data (h + 8))"
    "read_u32 data (h + 16) = Some (u32_at data (h + 16))" "read_u32 data (h + 20) = Some (u32_at data (h + 20))"
    "read_u32 data (h + 24) = Some (u32_at data (h + 24))" "read_u32 data (h + 28) = Some (u32_at data (h + 28))"
    using program_inside [OF inside, of i] program_inside(2) [OF inside, of i 0] Cons.prems by (simp_all add: h_def)
  have more: "\<exists>r after. scan_segments data entry_address indices b = Some (r, after) \<and>
    (r = LOADER_ELF_OK \<longrightarrow>
       scanned (length data) (unat entry_address) (map (segment_of data) (load_indices data indices)) b after)" for b
    using Cons by simp
  show ?case
  proof (cases "u32_at data h = ELF_PROGRAM_LOAD")
    case False
    then show ?thesis using more [of before] by (auto simp: before reads load_indices_def h_def [symmetric])
  next
    case load: True
    then have type: "u32_at data h \<noteq> ELF_PROGRAM_DYNAMIC" by (simp add: ELF_PROGRAM_LOAD_def ELF_PROGRAM_DYNAMIC_def)
    define v m where "v = u32_at data (h + 8)" and "m = u32_at data (h + 20)"
    show ?thesis
    proof (cases "segment_invalid (u32_at data (h + 4)) v (u32_at data (h + 16)) m (u32_at data (h + 28)) (length data)")
      case True
      then show ?thesis by (auto simp: before reads load type v_def m_def)
    next
      case valid: False
      have ends: "unat (v + m) = unat v + unat m" "unat v + unat m < 2 ^ 32"
        using segment_end [of m v] valid by (simp_all add: segment_invalid_def)
      have ok: "segment_ok (length data) (segment_of data i)"
        using valid ends by (auto simp: segment_invalid_def segment_ok_def segment_of_def h_def [symmetric] v_def m_def
            range_valid_def word_less_nat_alt unat_gt_0)
      have inside': "v \<le> entry_address \<and> entry_address < v + m \<longleftrightarrow> covers (segment_of data i) (unat entry_address)"
        using ends by (simp add: covers_def segment_of_def h_def [symmetric] v_def m_def word_le_nat_alt word_less_nat_alt)
      define b where "b = ((if v < m0 then v else m0), (if x0 < v + m then v + m else x0),
        (e0 \<or> executable_segment (segment_of data i) \<and> covers (segment_of data i) (unat entry_address)), c0 + 1)"
      have unfold: "scan_segments data entry_address (i # indices) before = scan_segments data entry_address indices b"
        using valid load type inside'
        by (simp add: before reads b_def v_def m_def executable_segment_def segment_of_def h_def [symmetric])
      obtain r after where rest: "scan_segments data entry_address indices b = Some (r, after)"
        "r = LOADER_ELF_OK \<longrightarrow>
           scanned (length data) (unat entry_address) (map (segment_of data) (load_indices data indices)) b after"
        using more by blast
      have "scanned (length data) (unat entry_address) (segment_of data i # map (segment_of data) (load_indices data indices))
          before after" if "r = LOADER_ELF_OK"
        unfolding before
        by (rule scanned_step [OF ok refl refl refl, of v "v + m"])
          (use rest(2) that ends in \<open>simp_all add: b_def segment_of_def h_def [symmetric] v_def m_def\<close>)
      then show ?thesis unfolding unfold using rest(1) load by (simp add: load_indices_def h_def [symmetric])
    qed
  qed
qed

section \<open>Accepted files\<close>

definition settings_ok :: "loader_elf_info \<Rightarrow> bool" where
  "settings_ok info \<longleftrightarrow>
     li_application_abi_version info = TABOS_APPLICATION_ABI_VERSION \<and>
     settings_valid (li_requested_heap_bytes info) (li_requested_stack_bytes info) (li_capabilities info)"

lemma descriptor_settings:
  assumes "read_descriptor data descriptor info = Some (r, x)" and "settings_ok info"
  shows "settings_ok x"
  using assms by (auto simp: read_descriptor_def bind_eq_Some_conv settings_ok_def split: if_splits)

lemma notes_settings:
  "settings_ok info \<Longrightarrow> scan_notes data note_offset note_size cursor found info = Some (r, f, x) \<Longrightarrow> settings_ok x"
proof (induction "note_size - cursor" arbitrary: cursor found info rule: less_induct)
  case less
  have "settings_ok x \<or> (\<exists>payload f' y. cursor < note_size \<and> settings_ok y \<and>
      scan_notes data note_offset note_size (cursor + (ELF_NOTE_HEADER_SIZE + payload)) f' y = Some (r, f, x))"
    using less.prems descriptor_settings
    by (subst (asm) scan_notes.simps) (auto simp: bind_eq_Some_conv Let_def split: if_splits option.splits; blast)
  then show ?case
  proof (elim disjE exE conjE)
    fix payload f' y
    assume "cursor < note_size" "settings_ok y"
      "scan_notes data note_offset note_size (cursor + (ELF_NOTE_HEADER_SIZE + payload)) f' y = Some (r, f, x)"
    then show "settings_ok x"
      by (intro less.hyps [of "cursor + (ELF_NOTE_HEADER_SIZE + payload)" y f']) (auto simp: ELF_NOTE_HEADER_SIZE_def)
  qed
qed

lemma metadata_settings:
  "settings_ok info \<Longrightarrow> metadata_sections data indices found info = Some (r, x) \<Longrightarrow> settings_ok x"
proof (induction indices arbitrary: found info)
  case (Cons i indices)
  then show ?case
    using notes_settings by (auto simp: bind_eq_Some_conv split: if_splits prod.splits; blast)
qed simp

text \<open>
  The description of an accepted file: its segments lie in the file and between the lowest and the
  highest address, which are reached; the entry lies in an executable one; the sizes are in range.
\<close>

definition accepted :: "u8 list \<Rightarrow> loader_elf_info \<Rightarrow> bool" where
  "accepted data info \<longleftrightarrow>
     (\<forall>s \<in> set (elf_segments data). segment_ok (length data) s \<and> unat (li_minimum_address info) \<le> sg_address s \<and>
        sg_address s + sg_memory_size s \<le> unat (li_maximum_address info)) \<and>
     (\<exists>s \<in> set (elf_segments data). sg_address s = unat (li_minimum_address info)) \<and>
     (\<exists>s \<in> set (elf_segments data). sg_address s + sg_memory_size s = unat (li_maximum_address info)) \<and>
     (\<exists>s \<in> set (elf_segments data). executable_segment s \<and> covers s (unat (li_entry_address info))) \<and>
     li_load_segment_count info = length (elf_segments data) \<and>
     unat (li_minimum_address info) + li_image_size info = unat (li_maximum_address info) \<and>
     0 < li_image_size info \<and> li_image_size info \<le> ELF_MAX_IMAGE_SIZE \<and> settings_ok info"

lemma inspect_segments_spec:
  assumes inside: "programs_inside data" and settings: "settings_ok info"
  shows "\<exists>r x. inspect_segments data (u16_at data 44) info = Some (r, x) \<and> (r = LOADER_ELF_OK \<longrightarrow> accepted data x)"
proof -
  define entry_address where "entry_address = u32_at data 24"
  have read: "read_u32 data 24 = Some entry_address"
    using inside by (simp add: reads programs_inside_def entry_address_def)
  have "set [0..<unat (u16_at data 44)] \<subseteq> {..<unat (u16_at data 44)}" by auto
  then obtain r m x e c where scan: "scan_segments data entry_address [0..<unat (u16_at data 44)] (0xFFFFFFFF, 0, False, 0) =
      Some (r, m, x, e, c)"
    and scanned: "r = LOADER_ELF_OK \<longrightarrow>
      scanned (length data) (unat entry_address) (elf_segments data) (0xFFFFFFFF, 0, False, 0) (m, x, e, c)"
    using scan_segments_spec [OF inside, of "[0..<unat (u16_at data 44)]" entry_address "(0xFFFFFFFF, 0, False, 0)"]
    unfolding elf_segments_def by auto
  define y where "y = info\<lparr>li_load_segment_count := c, li_entry_address := entry_address, li_minimum_address := m,
      li_maximum_address := x, li_image_size := unat (x - m)\<rparr>"
  have "accepted data y"
    if "r = LOADER_ELF_OK" "m \<noteq> 0xFFFFFFFF" "m < x" "e" "\<not> ELF_MAX_IMAGE_SIZE < unat (x - m)"
  proof -
    note facts = scanned [rule_format, OF that(1), unfolded scanned_def prod.case]
    have size: "unat m + unat (x - m) = unat x" "0 < unat (x - m)"
      using that(3) by (simp_all add: unat_sub word_less_nat_alt word_le_nat_alt)
    have "x \<noteq> 0" using that(3) by auto
    then show ?thesis
      using facts that size settings by (auto simp: accepted_def y_def settings_ok_def)
  qed
  then show ?thesis
    by (auto simp: inspect_segments_def read scan y_def not_le Let_def)
qed

lemma inspect_spec:
  "\<exists>r info. loader_elf_inspect (Some data) output = Some (r, info) \<and>
     (r = LOADER_ELF_OK \<longrightarrow> sections_inside data \<and> relocation_sections_valid data [0..<unat (u16_at data 48)] \<and>
        programs_inside data \<and> accepted data info)"
proof (cases "output \<and> 52 \<le> length data")
  case False
  then show ?thesis by (auto simp: loader_elf_inspect_def ELF_HEADER_SIZE_def)
next
  case True
  then have long: "52 \<le> length data" by simp
  obtain supported where supported: "header_supported data = Some supported"
    using long by (auto simp: header_supported_def reads)
  define programs where "programs \<longleftrightarrow> \<not> (u16_at data 44 = 0 \<or> unat (u16_at data 42) \<noteq> ELF_PROGRAM_HEADER_SIZE \<or>
    \<not> table_valid (unat (u32_at data 28)) (unat (u16_at data 44)) (unat (u16_at data 42)) (length data))"
  have inside: "programs_inside data" if programs
    unfolding programs_inside_def
  proof (intro conjI allI impI)
    fix i assume i: "i < unat (u16_at data 44)"
    show "program_header data i + 32 \<le> length data"
      using table_entry [of "unat (u32_at data 28)" "unat (u16_at data 44)" "unat (u16_at data 42)" "length data" i] i that
      by (simp add: program_header_def programs_def ELF_PROGRAM_HEADER_SIZE_def)
  qed (rule long)
  obtain sections where sections: "inspect_sections data = Some sections"
    "sections = LOADER_ELF_OK \<longrightarrow> sections_inside data \<and> relocation_sections_valid data [0..<unat (u16_at data 48)]"
    using inspect_sections_spec [OF long] by blast
  have metadata: "\<exists>r info. inspect_metadata data info_zero = Some (r, info) \<and> settings_ok info" if "sections = LOADER_ELF_OK"
  proof -
    define start where "start = info_zero\<lparr>li_application_abi_version := TABOS_APPLICATION_ABI_VERSION,
      li_requested_heap_bytes := LOADER_ELF_DEFAULT_HEAP_BYTES, li_requested_stack_bytes := LOADER_ELF_DEFAULT_STACK_BYTES,
      li_capabilities := TABOS_APP_CAPABILITY_CONSOLE, li_metadata_present := False\<rparr>"
    have "settings_ok start" by (simp add: start_def settings_ok_def settings_valid_def LOADER_ELF_DEFAULT_HEAP_BYTES_def
      LOADER_ELF_DEFAULT_STACK_BYTES_def LOADER_ELF_MIN_HEAP_BYTES_def LOADER_ELF_MAX_HEAP_BYTES_def
      LOADER_ELF_MIN_STACK_BYTES_def LOADER_ELF_MAX_STACK_BYTES_def TABOS_APP_CAPABILITY_CONSOLE_def)
    moreover have "set [0..<unat (u16_at data 48)] \<subseteq> {..<unat (u16_at data 48)}" by auto
    then have "metadata_sections data [0..<unat (u16_at data 48)] False start \<noteq> None"
      using metadata_in_bounds sections(2) that by blast
    ultimately show ?thesis
      using metadata_settings long by (fastforce simp: inspect_metadata_def reads start_def [symmetric])
  qed
  have reads: "read_u32 data 28 = Some (u32_at data 28)" "read_u16 data 42 = Some (u16_at data 42)"
    "read_u16 data 44 = Some (u16_at data 44)" using long by (simp_all add: reads)
  have step: "loader_elf_inspect (Some data) output =
      (if \<not> supported then Some (LOADER_ELF_UNSUPPORTED_FORMAT, info_zero)
       else if \<not> programs then Some (LOADER_ELF_TRUNCATED, info_zero)
       else if sections \<noteq> LOADER_ELF_OK then Some (sections, info_zero)
       else Option.bind (inspect_metadata data info_zero) (\<lambda>(metadata_result, info).
         if metadata_result \<noteq> LOADER_ELF_OK then Some (metadata_result, info)
         else inspect_segments data (u16_at data 44) info))"
    using True by (simp add: loader_elf_inspect_def ELF_HEADER_SIZE_def supported reads sections(1) programs_def)
  show ?thesis
  proof (cases "supported \<and> programs \<and> sections = LOADER_ELF_OK")
    case False
    then show ?thesis unfolding step by auto
  next
    case good: True
    then obtain r info where info: "inspect_metadata data info_zero = Some (r, info)" "settings_ok info" using metadata by blast
    then show ?thesis
      using inspect_segments_spec [OF inside info(2)] good sections(2) inside by (auto simp: step)
  qed
qed

section \<open>The loaded image\<close>

text \<open>The byte a segment puts at an address, and the byte of the image: that of the last segment which has one.\<close>

definition segment_byte :: "u8 list \<Rightarrow> nat \<Rightarrow> elf_segment \<Rightarrow> u8 option" where
  "segment_byte data a s =
     (if sg_address s \<le> a \<and> a < sg_address s + sg_file_size s
      then Some (data ! (sg_offset s + (a - sg_address s))) else None)"

definition image_byte :: "u8 list \<Rightarrow> elf_segment list \<Rightarrow> nat \<Rightarrow> u8" where
  "image_byte data segments a =
     fold (\<lambda>s b. case segment_byte data a s of None \<Rightarrow> b | Some byte \<Rightarrow> byte) segments 0"

definition overlay :: "u8 list \<Rightarrow> nat \<Rightarrow> elf_segment \<Rightarrow> u8 list \<Rightarrow> u8 list" where
  "overlay data minimum s memory =
     take (sg_address s - minimum) memory @ take (sg_file_size s) (drop (sg_offset s) data) @
       drop (sg_address s - minimum + sg_file_size s) memory"

definition segment_fits :: "nat \<Rightarrow> nat \<Rightarrow> nat \<Rightarrow> elf_segment \<Rightarrow> bool" where
  "segment_fits extent minimum maximum s \<longleftrightarrow>
     sg_offset s + sg_file_size s \<le> extent \<and> minimum \<le> sg_address s \<and> sg_address s + sg_file_size s \<le> maximum"

lemma overlay_spec:
  assumes "segment_fits (length data) minimum (minimum + length memory) s"
  shows "length (overlay data minimum s memory) = length memory"
    and "j < length memory \<Longrightarrow> overlay data minimum s memory ! j =
      (case segment_byte data (minimum + j) s of None \<Rightarrow> memory ! j | Some byte \<Rightarrow> byte)"
proof -
  define t n where "t = sg_address s - minimum" and "n = sg_file_size s"
  have middle: "length (take n (drop (sg_offset s) data)) = n"
  proof -
    have "n \<le> length data - sg_offset s" using assms unfolding segment_fits_def n_def by linarith
    then show ?thesis by simp
  qed
  have room: "minimum \<le> sg_address s" "sg_address s = minimum + t" "t + n \<le> length memory"
    "sg_offset s + n \<le> length data"
    using assms by (auto simp: segment_fits_def t_def n_def)
  have shape: "overlay data minimum s memory =
      take t memory @ take n (drop (sg_offset s) data) @ drop (t + n) memory"
    by (simp add: overlay_def t_def n_def)
  show "length (overlay data minimum s memory) = length memory"
    unfolding shape using room(3) middle by simp
  assume j: "j < length memory"
  have byte: "segment_byte data (minimum + j) s =
      (if t \<le> j \<and> j < t + n then Some (data ! (sg_offset s + (j - t))) else None)"
    using room(2) by (auto simp: segment_byte_def n_def)
  consider "j < t" | "t \<le> j" "j < t + n" | "t + n \<le> j" by linarith
  then show "overlay data minimum s memory ! j =
      (case segment_byte data (minimum + j) s of None \<Rightarrow> memory ! j | Some byte \<Rightarrow> byte)"
  proof cases
    case 1
    then show ?thesis unfolding shape byte using room(3) by (simp add: nth_append)
  next
    case 2
    then have "j - t < n" by linarith
    then show ?thesis unfolding shape byte using 2 room middle by (simp add: nth_append)
  next
    case 3
    then have "\<not> j - t < n" by linarith
    then show ?thesis unfolding shape byte using 3 room middle j by (simp add: nth_append)
  qed
qed

lemma fold_overlay:
  assumes "\<forall>s \<in> set segments. segment_fits (length data) minimum (minimum + length memory) s"
  shows "length (fold (overlay data minimum) segments memory) = length memory \<and>
    (\<forall>j < length memory. fold (overlay data minimum) segments memory ! j =
      fold (\<lambda>s b. case segment_byte data (minimum + j) s of None \<Rightarrow> b | Some byte \<Rightarrow> byte) segments (memory ! j))"
  using assms
proof (induction segments arbitrary: memory)
  case (Cons s segments)
  have fits: "segment_fits (length data) minimum (minimum + length memory) s" using Cons.prems by simp
  then show ?case
    using Cons.IH [of "overlay data minimum s memory"] Cons.prems overlay_spec [OF fits] by simp
qed simp

lemma copy_segments_spec:
  assumes inside: "programs_inside data"
    and "set indices \<subseteq> {..<unat (u16_at data 44)}"
    and "\<forall>s \<in> set (map (segment_of data) (load_indices data indices)).
      segment_fits (length data) (unat (li_minimum_address info)) (unat (li_minimum_address info) + length memory) s"
  shows "copy_segments data info indices memory =
    Some (fold (overlay data (unat (li_minimum_address info))) (map (segment_of data) (load_indices data indices)) memory)"
  using assms(2,3)
proof (induction indices arbitrary: memory)
  case (Cons i indices)
  define h where "h = program_header data i"
  have reads: "program_at data i = Some h" "read_u32 data h = Some (u32_at data h)"
    "read_u32 data (h + 4) = Some (u32_at data (h + 4))" "read_u32 data (h + 8) = Some (u32_at data (h + 8))"
    "read_u32 data (h + 16) = Some (u32_at data (h + 16))"
    using program_inside [OF inside, of i] program_inside(2) [OF inside, of i 0] Cons.prems(1) by (simp_all add: h_def)
  show ?case
  proof (cases "u32_at data h = ELF_PROGRAM_LOAD")
    case False
    then show ?thesis using Cons by (simp add: reads load_indices_def h_def [symmetric])
  next
    case True
    define minimum where "minimum = unat (li_minimum_address info)"
    define s where "s = segment_of data i"
    have fits: "segment_fits (length data) minimum (minimum + length memory) s"
      using Cons.prems(2) True by (simp add: load_indices_def h_def [symmetric] minimum_def s_def)
    then have "li_minimum_address info \<le> u32_at data (h + 8)"
      by (simp add: segment_fits_def s_def segment_of_def h_def [symmetric] minimum_def word_le_nat_alt)
    then have target: "unat (u32_at data (h + 8) - li_minimum_address info) = sg_address s - minimum"
      by (simp add: unat_sub s_def segment_of_def h_def [symmetric] minimum_def)
    have copied: "copy_bytes memory (sg_address s - minimum) data (sg_offset s) (sg_file_size s) = Some (overlay data minimum s memory)"
      using fits by (auto simp: copy_bytes_def overlay_def segment_fits_def)
    have fields: "unat (u32_at data (h + 4)) = sg_offset s" "unat (u32_at data (h + 16)) = sg_file_size s"
      by (simp_all add: s_def segment_of_def h_def [symmetric])
    show ?thesis
      using Cons.IH [of "overlay data minimum s memory"] Cons.prems True overlay_spec(1) [OF fits]
      by (simp add: reads target fields copied load_indices_def h_def [symmetric] minimum_def [symmetric] s_def [symmetric])
  qed
qed (simp add: load_indices_def)

section \<open>Relocation stays in the image\<close>

definition relocatable :: "loader_elf_info \<Rightarrow> u8 list \<Rightarrow> bool" where
  "relocatable info memory \<longleftrightarrow> 4 \<le> li_maximum_address info \<and> li_minimum_address info \<le> li_maximum_address info \<and>
     unat (li_minimum_address info) + length memory = unat (li_maximum_address info)"

lemma relocate_entry_in_bounds:
  assumes memory: "relocatable info memory" and entry: "relocation + 12 \<le> length data"
    and symbols: "range_valid (unat symbol_offset) (unat symbol_size) (length data)"
  shows "\<exists>r m. relocate_entry data info load_bias section_count symbol_offset symbol_size relocation memory = Some (r, m) \<and>
    length m = length memory"
proof -
  define target_address where "target_address = u32_at data relocation"
  define symbol_index where "symbol_index = unat (drop_bit 8 (u32_at data (relocation + 4)))"
  have entry_reads: "read_u32 data relocation = Some target_address"
    "read_u32 data (relocation + 4) = Some (u32_at data (relocation + 4))"
    "read_i32 data (relocation + 8) = Some (sint (u32_at data (relocation + 8)))"
    using entry by (simp_all add: reads target_address_def)
  have target: "unat (target_address - li_minimum_address info) + 3 < length memory"
    if "\<not> target_address < li_minimum_address info" "\<not> li_maximum_address info - 4 < target_address"
  proof -
    have "unat (li_maximum_address info - 4) = unat (li_maximum_address info) - 4"
      using memory by (simp add: relocatable_def unat_sub)
    moreover have "4 \<le> unat (li_maximum_address info)"
      using memory by (simp add: relocatable_def word_le_nat_alt)
    ultimately have "unat target_address + 4 \<le> unat (li_maximum_address info)"
      using that(2) by (simp add: word_less_nat_alt)
    moreover have "unat (target_address - li_minimum_address info) = unat target_address - unat (li_minimum_address info)"
      "unat (li_minimum_address info) \<le> unat target_address"
      using that(1) by (simp_all add: unat_sub not_less word_le_nat_alt)
    moreover have "unat (li_minimum_address info) + length memory = unat (li_maximum_address info)"
      using memory by (simp add: relocatable_def)
    moreover have "unat target_address + 4 \<le> unat (li_maximum_address info)" by fact
    ultimately show ?thesis by linarith
  qed
  have symbol: "unat symbol_offset + symbol_index * ELF_SYMBOL_ENTRY_SIZE + 15 < length data"
    if "\<not> unat symbol_size div ELF_SYMBOL_ENTRY_SIZE \<le> symbol_index"
  proof -
    have "Suc symbol_index * 16 \<le> unat symbol_size div 16 * 16" using that by (intro mult_le_mono1) (simp add: ELF_SYMBOL_ENTRY_SIZE_def)
    also have "\<dots> \<le> unat symbol_size" by simp
    finally have "symbol_index * 16 + 16 \<le> unat symbol_size" by simp
    then show ?thesis using symbols unfolding range_valid_def ELF_SYMBOL_ENTRY_SIZE_def by linarith
  qed
  show ?thesis
  proof (cases "target_address < li_minimum_address info \<or> li_maximum_address info - 4 < target_address \<or>
      unat symbol_size div ELF_SYMBOL_ENTRY_SIZE \<le> symbol_index")
    case True
    then show ?thesis by (auto simp: relocate_entry_def Let_def entry_reads symbol_index_def)
  next
    case False
    define t where "t = unat (target_address - li_minimum_address info)"
    define place where "place = unat symbol_offset + symbol_index * ELF_SYMBOL_ENTRY_SIZE"
    have "t + 3 < length memory" "place + 15 < length data"
      using False target symbol by (simp_all add: t_def place_def)
    then have "read_u32 memory t = Some (u32_at memory t)" "read_u32 data (place + 4) = Some (u32_at data (place + 4))"
      "read_u16 data (place + 14) = Some (u16_at data (place + 14))"
      "\<And>v. write_u32 memory t v = Some (memory[t := ucast v, t + 1 := ucast (drop_bit 8 v),
         t + 2 := ucast (drop_bit 16 v), t + 3 := ucast (drop_bit 24 v)])"
      by (simp_all add: reads write_u32_def)
    then show ?thesis
      by (simp add: relocate_entry_def Let_def entry_reads symbol_index_def [symmetric] t_def [symmetric]
          place_def [symmetric])
  qed
qed

lemma relocate_entries_in_bounds:
  assumes "relocatable info memory" and "relocation_offset + relocation_size \<le> length data"
    and "range_valid (unat symbol_offset) (unat symbol_size) (length data)"
    and "relocation_size mod 12 = 0" and "used mod 12 = 0"
  shows "\<exists>r m. relocate_entries data info load_bias section_count symbol_offset symbol_size relocation_offset
    relocation_size used memory = Some (r, m) \<and> length m = length memory"
  using assms
proof (induction "relocation_size - used" arbitrary: used memory rule: less_induct)
  case less
  show ?case
  proof (cases "used < relocation_size")
    case False
    then show ?thesis by (subst relocate_entries.simps) simp
  next
    case True
    have "used + 12 \<le> relocation_size"
    proof -
      have "(relocation_size - used) mod 12 = 0"
        using less.prems(4,5) by (simp add: mod_eq_0_iff_dvd dvd_diff_nat)
      then show ?thesis using True by (cases "relocation_size - used < 12") auto
    qed
    then obtain r m where entry: "relocate_entry data info load_bias section_count symbol_offset symbol_size
        (relocation_offset + used) memory = Some (r, m)" "length m = length memory"
      using relocate_entry_in_bounds [OF less.prems(1) _ less.prems(3), of "relocation_offset + used"] less.prems(2)
      by fastforce
    have "\<exists>r' m'. relocate_entries data info load_bias section_count symbol_offset symbol_size relocation_offset
        relocation_size (used + ELF_RELA_ENTRY_SIZE) m = Some (r', m') \<and> length m' = length m"
      by (rule less.hyps)
        (use less.prems True entry(2) in \<open>auto simp: ELF_RELA_ENTRY_SIZE_def relocatable_def\<close>)
    then show ?thesis
      by (subst relocate_entries.simps) (auto simp: True entry)
  qed
qed

lemma relocate_sections_in_bounds:
  assumes inside: "sections_inside data" and memory: "relocatable info memory"
    and "set indices \<subseteq> {..<unat (u16_at data 48)}" and "relocation_sections_valid data indices"
  shows "\<exists>r f m. relocate_sections data info load_bias (u16_at data 48) indices found memory = Some (r, f, m) \<and>
    length m = length memory"
  using memory assms(3,4)
proof (induction indices arbitrary: found memory)
  case (Cons i indices)
  define h where "h = section_header data i"
  have entry: "section_at data i = Some h" "read_u32 data (h + 4) = Some (u32_at data (h + 4))"
    "read_u32 data (h + 16) = Some (u32_at data (h + 16))" "read_u32 data (h + 20) = Some (u32_at data (h + 20))"
    "read_u32 data (h + 24) = Some (u32_at data (h + 24))" "read_u32 data (h + 28) = Some (u32_at data (h + 28))"
    using section_inside [OF inside, of i] Cons.prems(2) by (simp_all add: h_def)
  have valid: "relocation_sections_valid data indices"
    using Cons.prems(3) by (simp add: relocation_sections_valid_def)
  have more: "\<exists>r f m'. relocate_sections data info load_bias (u16_at data 48) indices b m = Some (r, f, m') \<and>
      length m' = length memory" if "length m = length memory" for b m
    using Cons.IH [of m b] Cons.prems(1,2) valid that by (simp add: relocatable_def)
  show ?case
  proof (cases "u32_at data (h + 4) = ELF_SECTION_RELA \<and> unat (u32_at data (h + 28)) < unat (u16_at data 48)")
    case False
    then show ?thesis using more [of memory found] by (auto simp: entry not_less)
  next
    case True
    define g where "g = section_header data (unat (u32_at data (h + 28)))"
    have target: "section_at data (unat (u32_at data (h + 28))) = Some g" "read_u32 data (g + 8) = Some (u32_at data (g + 8))"
      using section_inside [OF inside, of "unat (u32_at data (h + 28))"] True by (simp_all add: g_def)
    show ?thesis
    proof (cases "u32_at data (g + 8) AND ELF_SECTION_ALLOCATED \<noteq> 0 \<and> unat (u32_at data (h + 24)) < unat (u16_at data 48)")
      case False
      then show ?thesis using more [of memory found] True by (auto simp: entry target not_less)
    next
      case allocated: True
      define y where "y = section_header data (unat (u32_at data (h + 24)))"
      have symbols: "section_at data (unat (u32_at data (h + 24))) = Some y" "read_u32 data (y + 4) = Some (u32_at data (y + 4))"
        "read_u32 data (y + 36) = Some (u32_at data (y + 36))" "read_u32 data (y + 16) = Some (u32_at data (y + 16))"
        "read_u32 data (y + 20) = Some (u32_at data (y + 20))"
        using section_inside [OF inside, of "unat (u32_at data (h + 24))"] allocated by (simp_all add: y_def)
      show ?thesis
      proof (cases "range_valid (unat (u32_at data (y + 16))) (unat (u32_at data (y + 20))) (length data)")
        case False
        then show ?thesis using True allocated by (auto simp: entry target symbols)
      next
        case range: True
        have sizes: "unat (u32_at data (h + 20)) mod 12 = 0"
          "unat (u32_at data (h + 16)) + unat (u32_at data (h + 20)) \<le> length data"
          using Cons.prems(3) True
          by (auto simp: relocation_sections_valid_def h_def [symmetric] ELF_RELA_ENTRY_SIZE_def range_valid_def)
        then obtain r m where entries: "relocate_entries data info load_bias (u16_at data 48) (u32_at data (y + 16)) (u32_at data (y + 20))
            (unat (u32_at data (h + 16))) (unat (u32_at data (h + 20))) 0 memory = Some (r, m)" "length m = length memory"
          using relocate_entries_in_bounds [OF Cons.prems(1) sizes(2) range sizes(1) mod_0] by blast
        obtain r' f m' where rest: "relocate_sections data info load_bias (u16_at data 48) indices True m = Some (r', f, m')"
          "length m' = length memory" using more [OF entries(2)] by blast
        define bad where "bad \<longleftrightarrow> u32_at data (y + 4) \<noteq> ELF_SECTION_SYMBOL_TABLE \<or>
          unat (u32_at data (y + 36)) \<noteq> ELF_SYMBOL_ENTRY_SIZE"
        define ragged where "ragged \<longleftrightarrow> u32_at data (y + 20) = 0 \<or> unat (u32_at data (y + 20)) mod ELF_SYMBOL_ENTRY_SIZE \<noteq> 0"
        have type: "u32_at data (h + 4) = ELF_SECTION_RELA" "\<not> unat (u16_at data 48) \<le> unat (u32_at data (h + 28))"
          "u32_at data (g + 8) AND ELF_SECTION_ALLOCATED \<noteq> 0" "\<not> unat (u16_at data 48) \<le> unat (u32_at data (h + 24))"
          using True allocated by auto
        have "relocate_sections data info load_bias (u16_at data 48) (i # indices) found memory =
            (if bad then Some (LOADER_ELF_UNSUPPORTED_RELOCATION, True, memory)
             else if ragged then Some (LOADER_ELF_TRUNCATED, True, memory)
             else if r \<noteq> LOADER_ELF_OK then Some (r, True, m) else Some (r', f, m'))"
          by (simp only: relocate_sections.simps entry target symbols Option.bind.simps type simp_thms if_True if_False
              bad_def ragged_def range disj_assoc entries(1) rest(1) prod.case if_False)
        then show ?thesis using entries(2) rest(2) by auto
      qed
    qed
  qed
qed simp

section \<open>Loading\<close>

lemma apply_relocations_in_bounds:
  assumes "sections_inside data" and "relocation_sections_valid data [0..<unat (u16_at data 48)]"
    and "relocatable info memory"
  shows "\<exists>r m. apply_relocations data info translated executable memory = Some (r, m) \<and> length m = length memory"
proof -
  define load_bias where "load_bias = (if \<not> translated then 0 else executable - li_minimum_address info)"
  have "set [0..<unat (u16_at data 48)] \<subseteq> {..<unat (u16_at data 48)}" by auto
  then obtain r f m where "relocate_sections data info load_bias (u16_at data 48) [0..<unat (u16_at data 48)] False memory =
      Some (r, f, m)" "length m = length memory"
    using relocate_sections_in_bounds [OF assms(1,3) _ assms(2)] by blast
  then show ?thesis
    using assms(1) by (auto simp: apply_relocations_def sections_inside_def reads load_bias_def)
qed

definition loaded_segments :: "u8 list \<Rightarrow> loader_elf_info \<Rightarrow> u8 list" where
  "loaded_segments data info =
     map (\<lambda>a. image_byte data (elf_segments data) (unat (li_minimum_address info) + a)) [0..<li_image_size info]"

lemma load_copies:
  assumes inside: "programs_inside data" and accepted: "accepted data info"
  shows "copy_segments data info [0..<unat (u16_at data 44)] (replicate (li_image_size info) 0) =
    Some (loaded_segments data info)"
proof -
  define memory :: "u8 list" where "memory = replicate (li_image_size info) 0"
  define minimum where "minimum = unat (li_minimum_address info)"
  have "segment_fits (length data) minimum (minimum + length memory) s" if "s \<in> set (elf_segments data)" for s
    using accepted that by (fastforce simp: accepted_def segment_fits_def segment_ok_def memory_def minimum_def)
  then have fits: "\<forall>s \<in> set (elf_segments data). segment_fits (length data) minimum (minimum + length memory) s" by blast
  have "set [0..<unat (u16_at data 44)] \<subseteq> {..<unat (u16_at data 44)}" by auto
  then have "copy_segments data info [0..<unat (u16_at data 44)] memory =
      Some (fold (overlay data minimum) (elf_segments data) memory)"
    using copy_segments_spec [OF inside _ fits [unfolded elf_segments_def minimum_def]]
    by (simp add: elf_segments_def minimum_def)
  moreover have "fold (overlay data minimum) (elf_segments data) memory = loaded_segments data info"
    using fold_overlay [OF fits]
    by (intro nth_equalityI) (auto simp: loaded_segments_def image_byte_def memory_def minimum_def)
  ultimately show ?thesis by (simp add: memory_def)
qed

lemma accepted_relocatable:
  assumes "accepted data info" and "4 \<le> li_maximum_address info" and "length memory = li_image_size info"
  shows "relocatable info memory"
  using assms by (simp add: accepted_def relocatable_def word_le_nat_alt)

text \<open>What loading an accepted file consists of, once the platform has prepared its memory.\<close>

lemma load_steps:
  assumes "loader_elf_inspect (Some data) True = Some (LOADER_ELF_OK, info)"
    and "lp_alloc platform (li_image_size info)"
    and "lp_prepare platform (loaded_segments data info) = Some executable"
  shows "loader_elf_load platform (Some data) True =
    Option.bind (apply_relocations data info (lp_translated platform executable) executable (loaded_segments data info))
      (\<lambda>(result, memory).
        if result \<noteq> LOADER_ELF_OK
        then Some (result, None, [ExecutableAlloc (li_image_size info), ExecutablePrepare, ExecutableFree])
        else if \<not> lp_finalize platform executable memory
        then Some (LOADER_ELF_PREPARE_FAILED, None,
          [ExecutableAlloc (li_image_size info), ExecutablePrepare, ExecutableFinalize, ExecutableFree])
        else Some (LOADER_ELF_OK,
          Some \<lparr>im_memory = executable, im_contents = memory, im_memory_size = li_image_size info,
            im_entry = executable + (li_entry_address info - li_minimum_address info), im_info = info\<rparr>,
          [ExecutableAlloc (li_image_size info), ExecutablePrepare, ExecutableFinalize]))"
proof -
  have inside: "programs_inside data" and accepted: "accepted data info"
    using inspect_spec [of data True] assms(1) by auto
  have "read_u16 data 44 = Some (u16_at data 44)"
    using inside by (simp add: programs_inside_def reads)
  then show ?thesis
    using load_copies [OF inside accepted] assms by (simp add: loader_elf_load_def)
qed

lemma load_refused:
  assumes "loader_elf_inspect (Some data) True = Some (r, info)"
    and "r = LOADER_ELF_OK \<Longrightarrow> lp_alloc platform (li_image_size info) \<Longrightarrow>
      lp_prepare platform (loaded_segments data info) = None"
  shows "\<exists>e calls. loader_elf_load platform (Some data) True = Some (e, None, calls) \<and> e \<noteq> LOADER_ELF_OK"
proof (cases "r = LOADER_ELF_OK \<and> lp_alloc platform (li_image_size info)")
  case True
  then have inside: "programs_inside data" and accepted: "accepted data info"
    using inspect_spec [of data True] assms(1) by auto
  have "read_u16 data 44 = Some (u16_at data 44)"
    using inside by (simp add: programs_inside_def reads)
  then show ?thesis
    using load_copies [OF inside accepted] True assms by (simp add: loader_elf_load_def)
next
  case False
  then show ?thesis using assms(1) by (auto simp: loader_elf_load_def)
qed

lemma load_defined:
  assumes "\<And>info. loader_elf_inspect (Some data) True = Some (LOADER_ELF_OK, info) \<Longrightarrow> 4 \<le> li_maximum_address info"
  shows "loader_elf_load platform (Some data) output \<noteq> None"
proof (cases "output")
  case True
  obtain r info where inspected: "loader_elf_inspect (Some data) True = Some (r, info)"
    "r = LOADER_ELF_OK \<longrightarrow> sections_inside data \<and> relocation_sections_valid data [0..<unat (u16_at data 48)] \<and>
        programs_inside data \<and> accepted data info"
    using inspect_spec [of data True] by blast
  show ?thesis
  proof (cases "r = LOADER_ELF_OK \<and> lp_alloc platform (li_image_size info) \<and>
      lp_prepare platform (loaded_segments data info) \<noteq> None")
    case False
    then show ?thesis using load_refused [OF inspected(1), of platform] True by auto
  next
    case loads: True
    then obtain executable where executable: "lp_prepare platform (loaded_segments data info) = Some executable" by auto
    have "relocatable info (loaded_segments data info)"
      by (rule accepted_relocatable) (use loads inspected assms [of info] in \<open>auto simp: loaded_segments_def\<close>)
    then obtain r' m where "apply_relocations data info (lp_translated platform executable) executable
        (loaded_segments data info) = Some (r', m)"
      using apply_relocations_in_bounds [of data info "loaded_segments data info"] inspected(2) loads by blast
    then show ?thesis
      using load_steps [of data info platform executable] loads inspected(1) executable True by auto
  qed
qed (simp add: loader_elf_load_def)

end
