(* ===== verification/ElfLoaderImage.thy ===== *)
theory ElfLoaderImage
  imports ElfLoaderProofs FilesystemProofs
begin

unbundle bit_operations_syntax

text \<open>
  What a loaded program is: relocated pairs of instructions compute the relocated address, a failed
  load keeps no memory, and a file that was opened for loading is closed again. The properties of the loader follow,
  with two small files to apply them to.
\<close>

section \<open>Relocated instructions\<close>

text \<open>The immediates as the processor reads them.\<close>

definition upper_immediate :: "u32 \<Rightarrow> u32" where
  "upper_immediate instruction = instruction AND 0xfffff000"

definition immediate_i :: "u32 \<Rightarrow> u32" where
  "immediate_i instruction = signed_drop_bit 20 instruction"

definition immediate_s :: "u32 \<Rightarrow> u32" where
  "immediate_s instruction = (signed_drop_bit 20 instruction AND NOT 0x1f) OR (drop_bit 7 instruction AND 0x1f)"

definition low12 :: "u32 \<Rightarrow> u32" where
  "low12 v = signed_take_bit 11 v"

lemma field_masks:
  "(0xfff :: u32) = mask 12" "(0xfffff :: u32) = mask 20" "(0xfffff000 :: u32) = NOT (mask 12)" "(0x1f :: u32) = mask 5"
  "(0xfe0 :: u32) = mask 12 AND NOT (mask 5)"
  "(0xfe000f80 :: u32) = NOT (mask 25) OR (mask 12 AND NOT (mask 7))"
  by (simp_all add: mask_eq_exp_minus_1)

lemma immediate_i_patched: "immediate_i (patch_lo12_i v b) = low12 v"
  unfolding immediate_i_def patch_lo12_i_def low12_def field_masks
  by (rule bit_word_eqI) (auto simp: bit_simps)

lemma immediate_s_patched: "immediate_s (patch_lo12_s v b) = low12 v"
  unfolding immediate_s_def patch_lo12_s_def low12_def field_masks
  by (rule bit_word_eqI) (auto simp: bit_simps)

lemma upper_patched: "upper_immediate (patch_hi20 v b) = (v + 0x800) AND NOT (mask 12)"
  unfolding upper_immediate_def patch_hi20_def field_masks
  by (rule bit_word_eqI) (auto simp: bit_simps)

lemma kept_bits:
  "patch_hi20 v b AND 0xfff = b AND 0xfff"
  "patch_lo12_i v b AND 0xfffff = b AND 0xfffff"
  "patch_lo12_s v b AND NOT 0xfe000f80 = b AND NOT 0xfe000f80"
  unfolding patch_hi20_def patch_lo12_i_def patch_lo12_s_def field_masks
  by (rule bit_word_eqI; auto simp: bit_simps)+

lemma low12_shift: "low12 v = take_bit 12 (v + 2048) - 2048"
proof -
  have "signed_take_bit 11 (take_bit 32 k) = take_bit 12 (k + 2048) - (2048 :: int)" for k :: int
  proof -
    have "take_bit 12 (take_bit 32 k + 2048) = take_bit 12 (k + 2048)"
      by (subst (1 2) take_bit_add [symmetric]) simp
    then show ?thesis using signed_take_bit_eq_take_bit_shift [of 11 "take_bit 32 k"] by simp
  qed
  moreover have "take_bit 12 (take_bit 32 (k + 2048)) = take_bit 12 (k + 2048 :: int)" for k
    by simp
  ultimately show ?thesis unfolding low12_def
    by transfer simp
qed

lemma halves: "((v + 0x800) AND NOT (mask 12)) + low12 v = (v::u32)"
proof -
  have "(x AND NOT (mask 12)) + take_bit 12 x = x" for x :: u32
    by (subst disjunctive_add_eq_or) (auto intro!: bit_word_eqI simp: bit_simps)
  from this [of "v + 0x800"] show ?thesis by (simp add: low12_shift algebra_simps)
qed

lemma patched_pair:
  "upper_immediate (patch_hi20 v a) + immediate_i (patch_lo12_i v b) = v"
  "upper_immediate (patch_hi20 v a) + immediate_s (patch_lo12_s v b) = v"
  by (simp_all add: upper_patched immediate_i_patched immediate_s_patched halves)

text \<open>What one relocation writes, and where.\<close>

definition relocation_type :: "u8 list \<Rightarrow> nat \<Rightarrow> u32" where
  "relocation_type data relocation = u32_at data (relocation + 4) AND 0xff"

definition relocation_target :: "u8 list \<Rightarrow> loader_elf_info \<Rightarrow> nat \<Rightarrow> nat" where
  "relocation_target data info relocation = unat (u32_at data relocation - li_minimum_address info)"

definition relocated_address :: "u8 list \<Rightarrow> u32 \<Rightarrow> u32 \<Rightarrow> nat \<Rightarrow> u32" where
  "relocated_address data load_bias symbol_offset relocation =
     (let symbol = unat symbol_offset + unat (drop_bit 8 (u32_at data (relocation + 4))) * 16
      in (if u16_at data (symbol + 14) = ELF_SYMBOL_ABSOLUTE then 0 else load_bias) + u32_at data (symbol + 4) +
         u32_at data (relocation + 8))"

definition patched :: "u32 \<Rightarrow> u32 \<Rightarrow> u32 \<Rightarrow> u32" where
  "patched type v instruction =
     (if type = ELF_RELOCATION_32 then v
      else if type = ELF_RELOCATION_HI20 then patch_hi20 v instruction
      else if type = ELF_RELOCATION_LO12_I then patch_lo12_i v instruction
      else patch_lo12_s v instruction)"

lemma relocate_entry_writes:
  assumes "relocate_entry data info load_bias section_count symbol_offset symbol_size relocation memory =
      Some (LOADER_ELF_OK, m)"
    and type: "relocation_type data relocation \<in>
      {ELF_RELOCATION_32, ELF_RELOCATION_HI20, ELF_RELOCATION_LO12_I, ELF_RELOCATION_LO12_S}"
  shows "relocation_target data info relocation + 3 < length memory"
    and "write_u32 memory (relocation_target data info relocation)
      (patched (relocation_type data relocation) (relocated_address data load_bias symbol_offset relocation)
        (u32_at memory (relocation_target data info relocation))) = Some m"
proof -
  have used: "u32_at data (relocation + 4) AND 0xff \<notin> set ELF_RELOCATIONS_IGNORED"
    "u32_at data (relocation + 4) AND 0xff \<in>
      set [ELF_RELOCATION_32, ELF_RELOCATION_HI20, ELF_RELOCATION_LO12_I, ELF_RELOCATION_LO12_S]"
    using type by (auto simp: relocation_type_def ELF_RELOCATIONS_IGNORED_def ELF_RELOCATION_32_def
        ELF_RELOCATION_HI20_def ELF_RELOCATION_LO12_I_def ELF_RELOCATION_LO12_S_def)
  show "relocation_target data info relocation + 3 < length memory"
    using assms(1) used
    by (auto simp: relocate_entry_def relocation_target_def bind_eq_Some_conv reads Let_def split: if_splits)
  show "write_u32 memory (relocation_target data info relocation)
      (patched (relocation_type data relocation) (relocated_address data load_bias symbol_offset relocation)
        (u32_at memory (relocation_target data info relocation))) = Some m"
    using assms(1) used
    unfolding relocate_entry_def Let_def reads bind_eq_Some_conv patched_def [symmetric]
    by (auto simp: relocation_target_def bind_eq_Some_conv reads Let_def relocation_type_def
        relocated_address_def ELF_SYMBOL_ENTRY_SIZE_def split: if_splits)
qed

lemma written_word:
  assumes "write_u32 memory t v = Some m"
  shows "u32_at m t = v" and "j < t \<or> t + 3 < j \<Longrightarrow> m ! j = memory ! j"
    and "s + 4 \<le> t \<or> t + 4 \<le> s \<Longrightarrow> u32_at m s = u32_at memory s"
proof -
  have m: "t + 3 < length memory" "m = memory[t := ucast v, t + 1 := ucast (drop_bit 8 v), t + 2 := ucast (drop_bit 16 v),
      t + 3 := ucast (drop_bit 24 v)]"
    using assms by (auto simp: write_u32_def split: if_splits)
  have "(ucast (ucast v :: u8) OR push_bit 8 (ucast (ucast (drop_bit 8 v) :: u8)) OR
      push_bit 16 (ucast (ucast (drop_bit 16 v) :: u8)) OR push_bit 24 (ucast (ucast (drop_bit 24 v) :: u8)) :: u32) = v"
  proof (rule bit_word_eqI)
    fix n assume "n < LENGTH(32)"
    then show "bit (ucast (ucast v :: u8) OR push_bit 8 (ucast (ucast (drop_bit 8 v) :: u8)) OR
        push_bit 16 (ucast (ucast (drop_bit 16 v) :: u8)) OR push_bit 24 (ucast (ucast (drop_bit 24 v) :: u8)) :: u32) n =
        bit v n"
      by (cases "n < 16"; cases "n < 24") (auto simp: bit_simps)
  qed
  then show "u32_at m t = v" using m(1) unfolding m(2) u32_at_def by simp
  show other: "m ! j = memory ! j" if "j < t \<or> t + 3 < j" for j using that by (auto simp: m(2))
  show "u32_at m s = u32_at memory s" if "s + 4 \<le> t \<or> t + 4 \<le> s"
    using that by (auto simp: u32_at_def other)
qed

section \<open>Memory and descriptors\<close>

text \<open>Whether executable memory is still allocated after calls of the platform.\<close>

fun memory_held :: "(nat \<Rightarrow> bool) \<Rightarrow> loader_call list \<Rightarrow> bool \<Rightarrow> bool" where
  "memory_held alloc [] held = held"
| "memory_held alloc (ExecutableAlloc n # calls) held = memory_held alloc calls (alloc n)"
| "memory_held alloc (ExecutablePrepare # calls) held = memory_held alloc calls held"
| "memory_held alloc (ExecutableFinalize # calls) held = memory_held alloc calls held"
| "memory_held alloc (ExecutableFree # calls) held = memory_held alloc calls False"

lemma read_file_files: "fs_files (snd (read_file ops descriptor extent used data fs)) = fs_files fs"
proof (induction ops descriptor extent used data fs rule: read_file.induct)
  case (1 ops descriptor extent used data fs)
  obtain count bytes fs' where r: "tabos_fs_read ops descriptor True (extent - used) fs = (count, bytes, fs')"
    using prod_cases3 by blast
  have "fs_files fs' = fs_files fs"
    using fs_step_files_same [of "Op_read descriptor True (extent - used)" ops fs] r by simp
  then show ?case
    using 1 r by (subst read_file.simps) auto
qed

lemma fstat_files: "tabos_fs_fstat ops descriptor status fs = (r, st, fs') \<Longrightarrow> fs_files fs' = fs_files fs"
  using fs_step_files_same [of "Op_fstat descriptor status" ops fs] by simp

text \<open>After a successful open, every way through the rest closes the descriptor in an unchanged table.\<close>

lemma load_file_tables:
  assumes "tabos_fs_open ops path TABOS_O_RDONLY 0 fs = (descriptor, opened)"
    and "path \<noteq> None" "path \<noteq> Some []" "output"
  shows "descriptor < 0 \<Longrightarrow> loader_elf_load_file ops platform malloc path output fs =
      (Some (LOADER_ELF_FILE_OPEN_FAILED, None, []), opened)"
    and "0 \<le> descriptor \<Longrightarrow> \<exists>before. fs_files before = fs_files opened \<and>
      snd (loader_elf_load_file ops platform malloc path output fs) = snd (tabos_fs_close ops descriptor before)"
proof -
  obtain failed status fs1 where stat: "tabos_fs_fstat ops descriptor True opened = (failed, status, fs1)"
    using prod_cases3 by blast
  obtain contents fs2 where read: "read_file ops descriptor (unat (st_size (the status))) 0 [] fs1 = (contents, fs2)"
    by fastforce
  have same: "fs_files fs1 = fs_files opened" "fs_files fs2 = fs_files opened"
    using fstat_files [OF stat] read_file_files [of ops descriptor "unat (st_size (the status))" 0 "[]" fs1] read by simp_all
  show "loader_elf_load_file ops platform malloc path output fs = (Some (LOADER_ELF_FILE_OPEN_FAILED, None, []), opened)"
    if "descriptor < 0"
    using assms that by (auto simp: loader_elf_load_file_def)
  show "\<exists>before. fs_files before = fs_files opened \<and>
      snd (loader_elf_load_file ops platform malloc path output fs) = snd (tabos_fs_close ops descriptor before)"
    if "0 \<le> descriptor"
  proof -
    have "snd (loader_elf_load_file ops platform malloc path output fs) \<in>
        {snd (tabos_fs_close ops descriptor fs1), snd (tabos_fs_close ops descriptor fs2)}"
      using assms that by (auto simp: loader_elf_load_file_def stat read split: option.split prod.split)
    then show ?thesis using same by auto
  qed
qed

section \<open>Two small files\<close>

text \<open>
  A file with one segment of code, one symbol and relocations: its first section is the empty one, the
  second the code, the third the symbol table and the fourth the relocations.
\<close>

definition le16 :: "u16 \<Rightarrow> u8 list" where
  "le16 x = [ucast x, ucast (drop_bit 8 x)]"

definition le32 :: "u32 \<Rightarrow> u8 list" where
  "le32 x = [ucast x, ucast (drop_bit 8 x), ucast (drop_bit 16 x), ucast (drop_bit 24 x)]"

definition le32s :: "u32 list \<Rightarrow> u8 list" where
  "le32s xs = concat (map le32 xs)"

definition demo_elf :: "u32 \<Rightarrow> u32 list \<Rightarrow> u32 list \<Rightarrow> u32 \<Rightarrow> u32 \<Rightarrow> u8 list" where
  "demo_elf address code relocations code_size symbol =
     [0x7f, 0x45, 0x4c, 0x46, 1, 1, 1, 0, 0, 0, 0, 0, 0, 0, 0, 0] @
     le16 2 @ le16 243 @ le32s [1, address, 52, 84, 0] @ le16 52 @ le16 32 @ le16 1 @ le16 40 @ le16 4 @ le16 0 @
     le32s [1, 260 + 4 * word_of_nat (length relocations), address, address, code_size, code_size, 5, 0] @
     le32s (replicate 10 0) @
     le32s [0, 1, 2, address, 0, code_size, 0, 0, 0, 0] @
     le32s [0, 2, 0, 0, 244, 16, 0, 0, 0, 16] @
     le32s [0, 4, 0, 0, 260, 4 * word_of_nat (length relocations), 2, 1, 0, 12] @
     le32s [0, symbol, 0, 0x00010000] @ le32s relocations @ le32s code"

definition demo_info :: "u32 \<Rightarrow> nat \<Rightarrow> loader_elf_info" where
  "demo_info address extent = \<lparr>li_entry_address = address, li_minimum_address = address,
     li_maximum_address = address + word_of_nat extent, li_image_size = extent, li_load_segment_count = 1,
     li_application_abi_version = TABOS_APPLICATION_ABI_VERSION,
     li_requested_heap_bytes = LOADER_ELF_DEFAULT_HEAP_BYTES, li_requested_stack_bytes = LOADER_ELF_DEFAULT_STACK_BYTES,
     li_capabilities = TABOS_APP_CAPABILITY_CONSOLE, li_metadata_present = False\<rparr>"

definition demo_defaults :: loader_elf_info where
  "demo_defaults = (demo_info 0 0)\<lparr>li_load_segment_count := 0\<rparr>"

definition demo_fields :: "u8 list \<Rightarrow> bool" where
  "demo_fields data \<longleftrightarrow> header_supported data = Some True \<and> read_u32 data 28 = Some 52 \<and> read_u16 data 42 = Some 32 \<and>
     read_u16 data 44 = Some 1 \<and> read_u32 data 32 = Some 84 \<and> read_u16 data 46 = Some 40 \<and> read_u16 data 48 = Some 4 \<and>
     check_sections data [0, 1, 2, 3] = Some LOADER_ELF_OK \<and>
     metadata_sections data [0, 1, 2, 3] False demo_defaults = Some (LOADER_ELF_OK, demo_defaults)"

lemma demo_inspect:
  assumes "demo_fields data" and "260 \<le> length data" and "read_u32 data 24 = Some a"
    and "scan_segments data a [0] (0xFFFFFFFF, 0, False, 0) = Some (LOADER_ELF_OK, a, b, True, 1)"
    and "a < b" "a \<noteq> 0xFFFFFFFF" "unat (b - a) = n" "n \<le> ELF_MAX_IMAGE_SIZE"
  shows "loader_elf_inspect (Some data) True = Some (LOADER_ELF_OK, demo_info a n)"
proof -
  have indices: "[0..<unat (4::u16)] = [0, 1, 2, 3]" "[0..<unat (1::u16)] = [0]" by (simp_all add: upt_rec)
  have tables: "table_valid 84 4 40 (length data)" "table_valid 52 1 32 (length data)"
    using assms(2) by (simp_all add: table_valid_def range_valid_def SIZE_MAX_def)
  have sections: "inspect_sections data = Some LOADER_ELF_OK"
    using assms(1) tables(1) indices by (simp add: inspect_sections_def demo_fields_def ELF_SECTION_HEADER_SIZE_def
        del: check_sections.simps)
  have metadata: "inspect_metadata data info_zero = Some (LOADER_ELF_OK, demo_defaults)"
  proof -
    have "info_zero\<lparr>li_application_abi_version := TABOS_APPLICATION_ABI_VERSION,
        li_requested_heap_bytes := LOADER_ELF_DEFAULT_HEAP_BYTES, li_requested_stack_bytes := LOADER_ELF_DEFAULT_STACK_BYTES,
        li_capabilities := TABOS_APP_CAPABILITY_CONSOLE, li_metadata_present := False\<rparr> = demo_defaults"
      by (simp add: demo_defaults_def demo_info_def info_zero_def)
    then show ?thesis
      using assms(1) indices by (simp add: inspect_metadata_def demo_fields_def del: metadata_sections.simps)
  qed
  have "word_of_nat n = b - a" using assms(7) by auto
  then have segments: "inspect_segments data 1 demo_defaults = Some (LOADER_ELF_OK, demo_info a n)"
    using assms(3-8) indices by (simp add: inspect_segments_def demo_defaults_def demo_info_def Let_def
        del: scan_segments.simps)
  show ?thesis
    using assms(1,2) tables(2) sections metadata segments
    by (simp add: loader_elf_inspect_def demo_fields_def ELF_HEADER_SIZE_def ELF_PROGRAM_HEADER_SIZE_def)
qed

definition demo_program :: "u8 list" where
  "demo_program = demo_elf 0x1000 [0x00000537, 0x00050513] [0x1000, 26, 0, 0x1004, 27, 0] 8 0x1004"

definition demo_short :: "u8 list" where
  "demo_short = demo_elf 0 [0] [0x1000, 1, 0] 2 0"

lemma demo_program_reads:
  "demo_fields demo_program" "length demo_program = 292" "read_u32 demo_program 24 = Some 0x1000"
  "read_u16 demo_program 44 = Some 1" "read_u16 demo_program 48 = Some 4"
  "scan_segments demo_program 0x1000 [0] (0xFFFFFFFF, 0, False, 0) = Some (LOADER_ELF_OK, 0x1000, 0x1008, True, 1)"
  "copy_segments demo_program (demo_info 0x1000 8) [0] (replicate 8 0) = Some (le32s [0x537, 0x50513])"
  by code_simp+

lemma demo_program_relocates:
  "relocate_sections demo_program (demo_info 0x1000 8) 0x40000000 4 [0, 1, 2, 3] False (le32s [0x537, 0x50513]) =
    Some (LOADER_ELF_OK, True, le32s [0x40001537, 0x00450513])"
  by code_simp

lemma demo_short_reads:
  "demo_fields demo_short" "length demo_short = 276" "read_u32 demo_short 24 = Some 0"
  "read_u16 demo_short 44 = Some 1" "read_u16 demo_short 48 = Some 4"
  "scan_segments demo_short 0 [0] (0xFFFFFFFF, 0, False, 0) = Some (LOADER_ELF_OK, 0, 2, True, 1)"
  "copy_segments demo_short (demo_info 0 2) [0] (replicate 2 0) = Some [0, 0]"
  by code_simp+

lemma demo_short_relocates: "relocate_sections demo_short (demo_info 0 2) 0x40001000 4 [0, 1, 2, 3] False [0, 0] = None"
  by code_simp

lemma demo_program_inspect: "loader_elf_inspect (Some demo_program) True = Some (LOADER_ELF_OK, demo_info 0x1000 8)"
  by (rule demo_inspect [OF demo_program_reads(1) _ demo_program_reads(3,6)])
    (simp_all add: demo_program_reads(2) ELF_MAX_IMAGE_SIZE_def)

lemma demo_short_inspect: "loader_elf_inspect (Some demo_short) True = Some (LOADER_ELF_OK, demo_info 0 2)"
  by (rule demo_inspect [OF demo_short_reads(1) _ demo_short_reads(3,6)])
    (simp_all add: demo_short_reads(2) ELF_MAX_IMAGE_SIZE_def)

text \<open>Executable memory as the board and as the host give it.\<close>

definition demo_board :: loader_platform where
  "demo_board = \<lparr>lp_alloc = \<lambda>n. True, lp_prepare = \<lambda>m. Some 0x40001000, lp_translated = \<lambda>a. True,
     lp_finalize = \<lambda>a m. True\<rparr>"

lemma demo_indices: "[0..<4] = [0, 1, 2, 3]" "[0..<1] = [0]"
  by (simp_all add: upt_rec)

lemma demo_program_loads:
  "loader_elf_load demo_board (Some demo_program) True =
    Some (LOADER_ELF_OK, Some \<lparr>im_memory = 0x40001000, im_contents = le32s [0x40001537, 0x00450513], im_memory_size = 8,
      im_entry = 0x40001000, im_info = demo_info 0x1000 8\<rparr>, [ExecutableAlloc 8, ExecutablePrepare, ExecutableFinalize])"
proof -
  have "li_image_size (demo_info 0x1000 8) = 8" "li_entry_address (demo_info 0x1000 8) = 0x1000"
    "li_minimum_address (demo_info 0x1000 8) = 0x1000" by (simp_all add: demo_info_def)
  then show ?thesis
    using demo_program_relocates
    by (simp add: loader_elf_load_def demo_board_def demo_program_inspect demo_program_reads apply_relocations_def
        demo_indices del: copy_segments.simps relocate_sections.simps)
qed

text \<open>
  An image that ends below address 4: the bound of the relocation target, \<^verbatim>\<open>maximum_address - sizeof(uint32_t)\<close>,
  wraps around, and the relocation of an accepted file writes outside of the image.
\<close>

lemma load_short_image_out_of_bounds:
  "loader_elf_load demo_board (Some demo_short) True = None"
proof -
  have "li_image_size (demo_info 0 2) = 2" "li_minimum_address (demo_info 0 2) = 0" by (simp_all add: demo_info_def)
  then show ?thesis
    using demo_short_relocates
    by (simp add: loader_elf_load_def demo_board_def demo_short_inspect demo_short_reads apply_relocations_def
        demo_indices del: copy_segments.simps relocate_sections.simps)
qed

section \<open>Properties\<close>



text \<open>
  C8. Loading reads and writes only inside of the file and of the image, whatever the bytes of the file
  are, as long as the image does not end below address 4.
\<close>

theorem elf_load_in_bounds:
  assumes "\<forall>info. loader_elf_inspect (Some data) True = Some (LOADER_ELF_OK, info) \<longrightarrow> 4 \<le> li_maximum_address info"
  shows "loader_elf_load platform (Some data) output \<noteq> None"
  using load_defined assms by blast

theorem elf_load_in_bounds_witness:
  "loader_elf_inspect (Some demo_program) True \<noteq> None \<and> loader_elf_load demo_board (Some demo_program) True \<noteq> None"
proof -
  have "4 \<le> li_maximum_address (demo_info 0x1000 8)" by (simp add: demo_info_def)
  then show ?thesis
    using elf_load_in_bounds [of demo_program demo_board True] by (simp add: demo_program_inspect)
qed

text \<open>
  C9. The image of a file that is loaded to the addresses it was linked for, or that the platform executes
  in place, is byte for byte what its segments say: a byte of the file where the last segment with
  contents for the address has one, and zero elsewhere. The entry point lies inside of the image.
\<close>

theorem elf_load_contents:
  assumes "loader_elf_load platform (Some data) True = Some (LOADER_ELF_OK, Some i, calls)"
    and "lp_translated platform (im_memory i) \<longrightarrow> im_memory i = li_minimum_address (im_info i)"
  shows "im_contents i = map (\<lambda>a. image_byte data (elf_segments data) (unat (li_minimum_address (im_info i)) + a))
      [0..<im_memory_size i] \<and>
    unat (im_entry i - im_memory i) < im_memory_size i \<and> im_memory_size i = li_image_size (im_info i)"
proof -
  obtain r info where inspected: "loader_elf_inspect (Some data) True = Some (r, info)"
    using inspect_spec [of data True] by blast
  have "r = LOADER_ELF_OK \<and> lp_alloc platform (li_image_size info) \<and> lp_prepare platform (loaded_segments data info) \<noteq> None"
  proof (rule ccontr)
    assume refused: "\<not> ?thesis"
    have "\<exists>e calls. loader_elf_load platform (Some data) True = Some (e, None, calls) \<and> e \<noteq> LOADER_ELF_OK"
      by (rule load_refused [OF inspected]) (use refused in auto)
    then show False using assms(1) by auto
  qed
  then have started: "r = LOADER_ELF_OK" "lp_alloc platform (li_image_size info)"
    and "lp_prepare platform (loaded_segments data info) \<noteq> None" by auto
  then obtain executable where executable: "lp_prepare platform (loaded_segments data info) = Some executable" by auto
  note load = load_steps [of data info platform executable, OF _ started(2) executable]
  have facts: "accepted data info" "sections_inside data"
    using inspect_spec [of data True] inspected started(1) by auto
  obtain m where m: "apply_relocations data info (lp_translated platform executable) executable (loaded_segments data info) =
      Some (LOADER_ELF_OK, m)"
    and i: "i = \<lparr>im_memory = executable, im_contents = m, im_memory_size = li_image_size info,
      im_entry = executable + (li_entry_address info - li_minimum_address info), im_info = info\<rparr>"
    using assms(1) load inspected started(1)
    by (auto simp: bind_eq_Some_conv split: if_splits)
  have "m = loaded_segments data info"
    using m facts(2) assms(2) by (auto simp: apply_relocations_def sections_inside_def reads i split: if_splits)
  moreover have "unat (li_entry_address info - li_minimum_address info) < li_image_size info"
  proof -
    obtain s where "s \<in> set (elf_segments data)" "covers s (unat (li_entry_address info))"
      using facts(1) by (auto simp: accepted_def)
    then have "unat (li_minimum_address info) \<le> unat (li_entry_address info)"
      "unat (li_entry_address info) < unat (li_maximum_address info)"
      "unat (li_minimum_address info) + li_image_size info = unat (li_maximum_address info)"
      using facts(1) by (fastforce simp: accepted_def covers_def)+
    then show ?thesis by (simp add: unat_sub word_le_nat_alt)
  qed
  ultimately show ?thesis by (simp add: i loaded_segments_def)
qed

definition demo_host :: loader_platform where
  "demo_host = demo_board\<lparr>lp_translated := \<lambda>a. False\<rparr>"

lemma demo_host_loads:
  "loader_elf_load demo_host (Some demo_program) True =
    Some (LOADER_ELF_OK, Some \<lparr>im_memory = 0x40001000, im_contents = le32s [0x537, 0x50513], im_memory_size = 8,
      im_entry = 0x40001000, im_info = demo_info 0x1000 8\<rparr>, [ExecutableAlloc 8, ExecutablePrepare, ExecutableFinalize])"
proof -
  have "li_image_size (demo_info 0x1000 8) = 8" "li_entry_address (demo_info 0x1000 8) = 0x1000"
    "li_minimum_address (demo_info 0x1000 8) = 0x1000" by (simp_all add: demo_info_def)
  then show ?thesis
    by (simp add: loader_elf_load_def demo_board_def demo_host_def demo_program_inspect demo_program_reads
        apply_relocations_def demo_indices del: copy_segments.simps relocate_sections.simps)
qed

theorem elf_load_contents_witness:
  "le32s [0x537, 0x50513] = map (\<lambda>a. image_byte demo_program (elf_segments demo_program) (0x1000 + a)) [0..<8]"
  using elf_load_contents [OF demo_host_loads] by (simp add: demo_host_def demo_info_def)

text \<open>
  A load answers with an image exactly when it succeeds, and it keeps executable memory exactly then: after a
  failure at any stage the memory was given back, and unloading gives back that of a success.
\<close>

theorem elf_load_releases:
  assumes "loader_elf_load platform data output = Some (result, loaded, calls)"
  shows "(loaded \<noteq> None \<longleftrightarrow> result = LOADER_ELF_OK) \<and>
    (memory_held (lp_alloc platform) calls False \<longleftrightarrow> result = LOADER_ELF_OK) \<and>
    \<not> memory_held (lp_alloc platform) (calls @ loader_elf_unload loaded) False"
  using assms
  by (auto simp: loader_elf_load_def bind_eq_Some_conv Let_def loader_elf_unload_def split: if_splits option.splits)

theorem elf_load_releases_witness:
  "memory_held (lp_alloc demo_board) [ExecutableAlloc 8, ExecutablePrepare, ExecutableFinalize] False \<and>
   \<not> memory_held (lp_alloc demo_board) ([ExecutableAlloc 8, ExecutablePrepare, ExecutableFinalize] @ [ExecutableFree]) False"
  using elf_load_releases [OF demo_program_loads] by (simp add: loader_elf_unload_def)

text \<open>
  C10. The two relocations of an address that instructions build in halves fit together: whatever the
  address, the upper immediate of the first instruction plus the sign-extended immediate of the load, the
  addition or the store is symbol, addend and load bias. Register and operation fields keep their bits.
\<close>

theorem elf_relocation_pair:
  assumes "relocate_entry data info load_bias sections symbol_offset symbol_size high memory = Some (LOADER_ELF_OK, first)"
    and "relocate_entry data info load_bias sections symbol_offset symbol_size low first = Some (LOADER_ELF_OK, final)"
    and "relocation_type data high = ELF_RELOCATION_HI20"
    and "relocation_type data low = ELF_RELOCATION_LO12_I \<and> immediate = immediate_i \<and> kept = 0xfffff \<or>
      relocation_type data low = ELF_RELOCATION_LO12_S \<and> immediate = immediate_s \<and> kept = NOT 0xfe000f80"
    and "drop_bit 8 (u32_at data (low + 4)) = drop_bit 8 (u32_at data (high + 4))"
    and "u32_at data (low + 8) = u32_at data (high + 8)"
    and "t = relocation_target data info high" and "u = relocation_target data info low"
    and "t + 4 \<le> u \<or> u + 4 \<le> t"
  shows "upper_immediate (u32_at final t) + immediate (u32_at final u) = relocated_address data load_bias symbol_offset high \<and>
    u32_at final t AND 0xfff = u32_at memory t AND 0xfff \<and> u32_at final u AND kept = u32_at memory u AND kept"
proof -
  define v where "v = relocated_address data load_bias symbol_offset high"
  have low: "relocated_address data load_bias symbol_offset low = v"
    unfolding v_def relocated_address_def assms(5,6) by (rule refl)
  have types: "relocation_type data high \<in> {ELF_RELOCATION_32, ELF_RELOCATION_HI20, ELF_RELOCATION_LO12_I, ELF_RELOCATION_LO12_S}"
    "relocation_type data low \<in> {ELF_RELOCATION_32, ELF_RELOCATION_HI20, ELF_RELOCATION_LO12_I, ELF_RELOCATION_LO12_S}"
    using assms(3,4) by auto
  note writes = relocate_entry_writes(2) [OF assms(1) types(1), folded assms(7)]
    relocate_entry_writes(2) [OF assms(2) types(2), folded assms(8), unfolded low]
  have "u32_at final t = patch_hi20 v (u32_at memory t)"
    using written_word(3) [OF writes(2), of t] written_word(1) [OF writes(1)] assms(3,9)
    by (auto simp: patched_def v_def ELF_RELOCATION_32_def ELF_RELOCATION_HI20_def)
  moreover have "u32_at final u = patched (relocation_type data low) v (u32_at memory u)"
    using written_word(1) [OF writes(2)] written_word(3) [OF writes(1), of u] assms(9) by auto
  ultimately show ?thesis
    using assms(4) patched_pair kept_bits
    by (auto simp: patched_def v_def ELF_RELOCATION_32_def ELF_RELOCATION_HI20_def ELF_RELOCATION_LO12_I_def
        ELF_RELOCATION_LO12_S_def)
qed

lemma demo_pair:
  "relocate_entry demo_program (demo_info 0x1000 8) 0x40000000 4 244 16 260 (le32s [0x537, 0x50513]) =
    Some (LOADER_ELF_OK, le32s [0x40001537, 0x50513])"
  "relocate_entry demo_program (demo_info 0x1000 8) 0x40000000 4 244 16 272 (le32s [0x40001537, 0x50513]) =
    Some (LOADER_ELF_OK, le32s [0x40001537, 0x00450513])"
  by code_simp+

lemma demo_pair_entries:
  "relocation_type demo_program 260 = ELF_RELOCATION_HI20" "relocation_type demo_program 272 = ELF_RELOCATION_LO12_I"
  "drop_bit 8 (u32_at demo_program 276) = drop_bit 8 (u32_at demo_program 264)"
  "u32_at demo_program 280 = u32_at demo_program 268"
  "relocation_target demo_program (demo_info 0x1000 8) 260 = 0" "relocation_target demo_program (demo_info 0x1000 8) 272 = 4"
  "relocated_address demo_program 0x40000000 244 260 = 0x40001004"
  by code_simp+

theorem elf_relocation_pair_witness:
  "upper_immediate (u32_at (le32s [0x40001537, 0x00450513]) 0) + immediate_i (u32_at (le32s [0x40001537, 0x00450513]) 4) =
    0x40001004"
proof -
  have places: "drop_bit 8 (u32_at demo_program (272 + 4)) = drop_bit 8 (u32_at demo_program (260 + 4))"
    "u32_at demo_program (272 + 8) = u32_at demo_program (260 + 8)"
    using demo_pair_entries(3,4) by simp_all
  show ?thesis
    using conjunct1 [OF elf_relocation_pair [OF demo_pair demo_pair_entries(1)
        disjI1 [OF conjI [OF demo_pair_entries(2) conjI [OF refl refl]]] places
        demo_pair_entries(5) [symmetric] demo_pair_entries(6) [symmetric]]]
    by (simp only: demo_pair_entries(7)) simp
qed

text \<open>
  C11. Loading a program from a file leaves no descriptor behind: whether the file is missing, empty, too large,
  unreadable, not a program or loaded, every slot of the file table is as free or as open as
  before, and the descriptors of other open files still lead to their slots.
\<close>

theorem elf_load_file_closes:
  assumes "fs_wf fs" and "snd (loader_elf_load_file ops platform malloc path output fs) = fs'"
  shows "map f_open (fs_files fs') = map f_open (fs_files fs) \<and>
    (\<forall>d j. file_for_descriptor (fs_files fs) d = Some j \<longrightarrow> file_for_descriptor (fs_files fs') d = Some j)"
proof (cases "path = None \<or> path = Some [] \<or> \<not> output")
  case True
  then show ?thesis using assms(2) by (auto simp: loader_elf_load_file_def)
next
  case False
  obtain descriptor opened where result: "tabos_fs_open ops path TABOS_O_RDONLY 0 fs = (descriptor, opened)"
    by fastforce
  have given: "path \<noteq> None" "path \<noteq> Some []" "output" using False by auto
  show ?thesis
  proof (cases "descriptor < 0")
    case True
    then show ?thesis
      using load_file_tables(1) [OF result given True] assms(2) tabos_fs_open_failed [OF assms(1) result True] by simp
  next
    case False
    then have "0 \<le> descriptor" by simp
    then obtain before where "fs_files before = fs_files opened" "fs' = snd (tabos_fs_close ops descriptor before)"
      using load_file_tables(2) [OF result given \<open>0 \<le> descriptor\<close>] assms(2) by blast
    then show ?thesis
      using descriptor_released [OF assms(1) result \<open>0 \<le> descriptor\<close>, of before] by (simp add: same_descriptors_def)
  qed
qed

theorem elf_load_file_closes_witness:
  "0 < fst (tabos_fs_open demo_storage (Some ''A:/APP'') TABOS_O_RDONLY 0 demo_fs) \<and>
   map f_open (fs_files (snd (loader_elf_load_file demo_storage demo_board (\<lambda>n. True) (Some ''A:/APP'') True demo_fs))) =
     [False, False]"
proof
  show "0 < fst (tabos_fs_open demo_storage (Some ''A:/APP'') TABOS_O_RDONLY 0 demo_fs)" by code_simp
  show "map f_open (fs_files (snd (loader_elf_load_file demo_storage demo_board (\<lambda>n. True) (Some ''A:/APP'') True demo_fs))) =
      [False, False]"
    using elf_load_file_closes [OF demo_fs_wf refl, of demo_storage demo_board "\<lambda>n. True" "Some ''A:/APP''" True]
    by (simp add: demo_fs_def file_slot_zero_def)
qed

end
