(* ===== verification/ConfigText.thy ===== *)
theory ConfigText
  imports FilesystemProofs "HOL-Library.Monad_Syntax"
begin

text \<open>
  What the parsers of the settings files share: lines and blanks of a C string (the classification of
  characters is that of the C locale), and reading a small file into memory.
\<close>

section \<open>Text\<close>

definition isspace :: "char \<Rightarrow> bool" where
  "isspace c \<longleftrightarrow> c \<in> set [CHR 0x20, CHR 0x09, CHR 0x0A, CHR 0x0B, CHR 0x0C, CHR 0x0D]"

definition trim :: "string \<Rightarrow> string" where
  "trim text = rev (dropWhile isspace (rev (dropWhile isspace text)))"

text \<open>A buffer up to its first NUL character; its first line, and what comes after that.\<close>

definition c_string :: "string \<Rightarrow> string" where
  "c_string text = takeWhile (\<lambda>c. c \<noteq> CHR 0x00) text"

definition first_line :: "string \<Rightarrow> string" where
  "first_line text = takeWhile (\<lambda>c. c \<noteq> CHR 0x0A) text"

definition other_lines :: "string \<Rightarrow> string" where
  "other_lines text = drop (length (first_line text) + 1) text"

lemma other_lines_shorter [simp]: "text \<noteq> [] \<Longrightarrow> length (other_lines text) < length text"
  by (cases "text") (simp_all add: other_lines_def)

text \<open>Key and value of a line with an equals sign.\<close>

definition key_of :: "string \<Rightarrow> string" where
  "key_of line = trim (takeWhile (\<lambda>c. c \<noteq> CHR ''='') line)"

definition value_of :: "string \<Rightarrow> string" where
  "value_of line = trim (tl (dropWhile (\<lambda>c. c \<noteq> CHR ''='') line))"

lemma split_at:
  assumes "c \<notin> set xs"
  shows "takeWhile (\<lambda>x. x \<noteq> c) (xs @ c # ys) = xs" and "dropWhile (\<lambda>x. x \<noteq> c) (xs @ c # ys) = c # ys"
    and "takeWhile (\<lambda>x. x \<noteq> c) xs = xs"
  using assms by (induction xs) auto

lemma first_line_append:
  assumes "CHR 0x0A \<notin> set line"
  shows "first_line (line @ CHR 0x0A # rest) = line" and "other_lines (line @ CHR 0x0A # rest) = rest"
    and "first_line line = line" and "other_lines line = []"
  by (simp_all add: other_lines_def first_line_def split_at [OF assms])

lemma key_value_append:
  assumes "CHR ''='' \<notin> set key"
  shows "key_of (key @ CHR ''='' # v) = trim key" and "value_of (key @ CHR ''='' # v) = trim v"
  by (simp_all add: key_of_def value_of_def split_at [OF assms])

lemma trim_solid:
  assumes "\<not> isspace c" and "\<not> isspace (last (c # cs))"
  shows "trim (c # cs) = c # cs"
proof -
  have "rev (c # cs) = last (c # cs) # rev (butlast (c # cs))"
    by (metis append_butlast_last_id list.distinct(1) rev.simps(2) rev_rev_ident rev_append append_Nil append_Cons)
  then show ?thesis using assms by (simp add: trim_def)
qed

lemma trim_Nil [simp]: "trim [] = []"
  by (simp add: trim_def)

section \<open>Reading a settings file\<close>

definition text_of_bytes :: "u8 list \<Rightarrow> string" where
  "text_of_bytes bytes = map (\<lambda>b. char_of (unat b)) bytes"

definition bytes_of_text :: "string \<Rightarrow> u8 list" where
  "bytes_of_text text = map (\<lambda>c. of_char c) text"

text \<open>The loop that reads at most \<open>capacity\<close> bytes: \<^const>\<open>None\<close> when a read fails.\<close>

function read_config :: "'p storage_ops \<Rightarrow> int \<Rightarrow> nat \<Rightarrow> nat \<Rightarrow> u8 list \<Rightarrow> 'p fs_state \<Rightarrow> u8 list option \<times> 'p fs_state" where
  "read_config ops descriptor capacity used data fs =
     (if \<not> used < capacity then (Some data, fs)
      else
        (case tabos_fs_read ops descriptor True (capacity - used) fs of
           (count, bytes, fs) \<Rightarrow>
             if count < 0 then (None, fs)
             else if count = 0 then (Some data, fs)
             else read_config ops descriptor capacity (used + nat count) (data @ bytes) fs))"
  by pat_completeness auto

termination
  by (relation "measure (\<lambda>(ops, descriptor, capacity, used, data, fs). capacity - used)") auto

declare read_config.simps [simp del]

lemma read_config_files: "fs_files (snd (read_config ops descriptor capacity used data fs)) = fs_files fs"
proof (induction ops descriptor capacity used data fs rule: read_config.induct)
  case (1 ops descriptor capacity used data fs)
  obtain count bytes fs' where r: "tabos_fs_read ops descriptor True (capacity - used) fs = (count, bytes, fs')"
    using prod_cases3 by blast
  have "fs_files fs' = fs_files fs"
    using fs_step_files_same [of "Op_read descriptor True (capacity - used)" ops fs] r by simp
  then show ?case
    using 1 r by (subst read_config.simps) auto
qed

end
