(* ===== verification/PowerConfig.thy ===== *)
theory PowerConfig
  imports ConfigText PowerManager
begin

unbundle bit_operations_syntax

text \<open>
  The settings file of the power manager, \<^verbatim>\<open>src/kernel/power_config.c\<close>: lines of keys and values in
  sections. The parser works through its buffer line by line; what it has seen so far is a record.
  NULL for the text counts as a text of length 0.
\<close>

section \<open>The parser\<close>

datatype power_config_result =
    POWER_CONFIG_OK
  | POWER_CONFIG_NOT_FOUND
  | POWER_CONFIG_UNAVAILABLE
  | POWER_CONFIG_INVALID
  | POWER_CONFIG_TOO_LARGE
  | POWER_CONFIG_IO_ERROR

definition POWER_CONFIG_PATH :: string where "POWER_CONFIG_PATH = ''T:/etc/power.conf''"
definition POWER_CONFIG_FILE_MAX :: nat where "POWER_CONFIG_FILE_MAX = 4096"

definition power_config_defaults :: power_policy where
  "power_config_defaults = \<lparr>po_idle_ms = 60000, po_screen_off_ms = 180000, po_panel_off_ms = 300000,
     po_suspend_ms = 600000, po_active_brightness = 75, po_idle_brightness = 20, po_automatic_suspend = False\<rparr>"

text \<open>The loop of \<^verbatim>\<open>parse_number\<close>: decimal digits, refused before they overflow 32 bits.\<close>

fun parse_digits :: "string \<Rightarrow> u32 \<Rightarrow> u32 option" where
  "parse_digits [] v = Some v"
| "parse_digits (c # text) v =
     (if of_char c < (48 :: nat) \<or> (57 :: nat) < of_char c then None
      else
        (let digit = word_of_nat (of_char c - 48)
         in if (0xFFFFFFFF - digit) div 10 < v then None else parse_digits text (v * 10 + digit)))"

definition parse_number :: "string \<Rightarrow> u32 option" where
  "parse_number text = (if text = [] then None else parse_digits text 0)"

datatype config_section = SECTION_ROOT | SECTION_DISPLAY | SECTION_UNKNOWN

record power_parse =
  pc_policy :: power_policy
  pc_section :: config_section
  pc_version_seen :: bool
  pc_seen :: u32

definition power_parse_start :: power_parse where
  "power_parse_start = \<lparr>pc_policy = power_config_defaults, pc_section = SECTION_ROOT, pc_version_seen = False, pc_seen = 0\<rparr>"

definition display_keys :: "string list" where
  "display_keys = [''dim_seconds'', ''backlight_off_seconds'', ''panel_off_seconds'', ''normal_brightness'',
     ''dim_brightness'']"

definition set_display_key :: "nat \<Rightarrow> u32 \<Rightarrow> power_policy \<Rightarrow> power_policy" where
  "set_display_key index number policy =
     (if index = 0 then policy\<lparr>po_idle_ms := ucast number * 1000\<rparr>
      else if index = 1 then policy\<lparr>po_screen_off_ms := ucast number * 1000\<rparr>
      else if index = 2 then policy\<lparr>po_panel_off_ms := ucast number * 1000\<rparr>
      else if index = 3 then policy\<lparr>po_active_brightness := ucast number\<rparr>
      else policy\<lparr>po_idle_brightness := ucast number\<rparr>)"

text \<open>The body of the loop over the keys, for the key at \<open>index\<close>.\<close>

definition display_setting :: "nat \<Rightarrow> string \<Rightarrow> power_parse \<Rightarrow> power_parse option" where
  "display_setting index v st =
     (let bit = push_bit index 1
      in if pc_seen st AND bit \<noteq> 0 then None
         else
           (case parse_number v of
              None \<Rightarrow> None
            | Some number \<Rightarrow>
                if 3 \<le> index \<and> (100 < number \<or> index = 3 \<and> number = 0) then None
                else Some (st\<lparr>pc_seen := pc_seen st OR bit, pc_policy := set_display_key index number (pc_policy st)\<rparr>)))"

text \<open>One line of the file; \<^const>\<open>None\<close> stands for \<^verbatim>\<open>POWER_CONFIG_INVALID\<close>.\<close>

definition power_setting :: "string \<Rightarrow> string \<Rightarrow> power_parse \<Rightarrow> power_parse option" where
  "power_setting key v st =
     (if key = [] then None
      else if pc_section st = SECTION_ROOT \<and> key = ''version'' then
        (if pc_version_seen st \<or> v \<noteq> ''1'' then None else Some (st\<lparr>pc_version_seen := True\<rparr>))
      else if pc_section st = SECTION_DISPLAY then
        (let index = length (takeWhile (\<lambda>k. k \<noteq> key) display_keys)
         in if index < length display_keys then display_setting index v st else Some st)
      else Some st)"

definition power_line :: "string \<Rightarrow> power_parse \<Rightarrow> power_parse option" where
  "power_line line st =
     (let line = trim line
      in if line = [] \<or> hd line = CHR ''#'' \<or> hd line = CHR '';'' then Some st
         else if hd line = CHR ''['' then
           (if length line < 3 \<or> last line \<noteq> CHR '']'' then None
            else Some (st\<lparr>pc_section := (if trim (tl (butlast line)) = ''display'' then SECTION_DISPLAY
              else SECTION_UNKNOWN)\<rparr>))
         else if CHR ''='' \<notin> set line then None
         else power_setting (key_of line) (value_of line) st)"

function power_lines :: "string \<Rightarrow> power_parse \<Rightarrow> power_parse option" where
  "power_lines text st =
     (if text = [] then Some st
      else
        (case power_line (first_line text) st of
           None \<Rightarrow> None
         | Some st \<Rightarrow> power_lines (other_lines text) st))"
  by pat_completeness auto

termination
  by (relation "measure (\<lambda>(text, st). length text)") auto

declare power_lines.simps [simp del]

definition power_policy_complete :: "power_parse \<Rightarrow> bool" where
  "power_policy_complete st \<longleftrightarrow>
     (let parsed = pc_policy st
      in \<not> (\<not> pc_version_seen st \<or> po_idle_ms parsed = 0 \<or>
        po_screen_off_ms parsed \<noteq> 0 \<and> po_screen_off_ms parsed < po_idle_ms parsed \<or>
        po_panel_off_ms parsed \<noteq> 0 \<and>
          (po_screen_off_ms parsed = 0 \<or> po_panel_off_ms parsed < po_screen_off_ms parsed)))"

text \<open>\<open>output\<close>: the pointer to the policy is not NULL. The policy is published on success only.\<close>

definition power_config_parse :: "string option \<Rightarrow> bool \<Rightarrow> power_config_result \<times> power_policy option" where
  "power_config_parse text output =
     (if text \<noteq> None \<and> POWER_CONFIG_FILE_MAX < length (the text) then (POWER_CONFIG_TOO_LARGE, None)
      else if text = None \<or> \<not> output \<or> CHR 0x00 \<in> set (the text) then (POWER_CONFIG_INVALID, None)
      else
        (case power_lines (the text) power_parse_start of
           None \<Rightarrow> (POWER_CONFIG_INVALID, None)
         | Some st \<Rightarrow>
             if power_policy_complete st then (POWER_CONFIG_OK, Some (pc_policy st))
             else (POWER_CONFIG_INVALID, None)))"

definition power_config_load ::
    "'p storage_ops \<Rightarrow> bool \<Rightarrow> bool \<Rightarrow> 'p fs_state \<Rightarrow> (power_config_result \<times> power_policy option) \<times> 'p fs_state" where
  "power_config_load ops malloc output fs =
     (if \<not> output then ((POWER_CONFIG_INVALID, None), fs)
      else
        (case tabos_fs_open ops (Some POWER_CONFIG_PATH) 0 0 fs of
           (descriptor, fs) \<Rightarrow>
             if descriptor < 0
             then ((if fs_errno fs = ENOENT then POWER_CONFIG_NOT_FOUND
                    else if fs_errno fs = ENODEV then POWER_CONFIG_UNAVAILABLE else POWER_CONFIG_IO_ERROR, None), fs)
             else if \<not> malloc then ((POWER_CONFIG_IO_ERROR, None), snd (tabos_fs_close ops descriptor fs))
             else
               (case read_config ops descriptor (POWER_CONFIG_FILE_MAX + 1) 0 [] fs of
                  (contents, fs) \<Rightarrow>
                    (case tabos_fs_close ops descriptor fs of
                       (closed, fs) \<Rightarrow>
                         if contents = None \<or> closed \<noteq> 0 then ((POWER_CONFIG_IO_ERROR, None), fs)
                         else (power_config_parse (Some (text_of_bytes (the contents))) output, fs)))))"

definition power_config_result_name :: "power_config_result \<Rightarrow> string" where
  "power_config_result_name result =
     (case result of
        POWER_CONFIG_OK \<Rightarrow> ''OK''
      | POWER_CONFIG_NOT_FOUND \<Rightarrow> ''not found''
      | POWER_CONFIG_UNAVAILABLE \<Rightarrow> ''storage unavailable''
      | POWER_CONFIG_INVALID \<Rightarrow> ''invalid configuration''
      | POWER_CONFIG_TOO_LARGE \<Rightarrow> ''configuration too large''
      | POWER_CONFIG_IO_ERROR \<Rightarrow> ''I/O error'')"

section \<open>Numbers\<close>

definition is_digit :: "char \<Rightarrow> bool" where
  "is_digit c \<longleftrightarrow> (48 :: nat) \<le> of_char c \<and> of_char c \<le> (57 :: nat)"

definition decimal_value :: "string \<Rightarrow> nat \<Rightarrow> nat" where
  "decimal_value text v = foldl (\<lambda>v c. v * 10 + (of_char c - 48)) v text"

lemma decimal_least: "v \<le> decimal_value text v"
proof (induction "text" arbitrary: v)
  case (Cons c rest)
  have "v \<le> v * 10 + (of_char c - 48)" by simp
  also have "\<dots> \<le> decimal_value (c # rest) v" using Cons.IH by (simp add: decimal_value_def)
  finally show ?case .
qed (simp add: decimal_value_def)

lemma parse_digits_step:
  assumes "is_digit c"
  shows "(0xFFFFFFFF - word_of_nat (of_char c - 48)) div 10 < (v :: u32) \<longleftrightarrow> 2 ^ 32 \<le> unat v * 10 + (of_char c - 48)"
    and "unat v * 10 + (of_char c - 48) < 2 ^ 32 \<Longrightarrow>
      unat (v * 10 + word_of_nat (of_char c - 48)) = unat v * 10 + (of_char c - 48)"
proof -
  define k where "k = of_char c - (48 :: nat)"
  have k: "k \<le> 9" using assms unfolding is_digit_def k_def by linarith
  have word: "unat (word_of_nat k :: u32) = k" using k by (simp add: unat_of_nat)
  have "word_of_nat k \<le> (0xFFFFFFFF :: u32)" using k word by (simp add: word_le_nat_alt)
  then have "unat ((0xFFFFFFFF :: u32) - word_of_nat k) = 4294967295 - k" using word by (simp add: unat_sub)
  then have "unat (((0xFFFFFFFF :: u32) - word_of_nat k) div 10) = (4294967295 - k) div 10"
    by (simp add: unat_div_distrib)
  then show "(0xFFFFFFFF - word_of_nat (of_char c - 48)) div 10 < v \<longleftrightarrow> 2 ^ 32 \<le> unat v * 10 + (of_char c - 48)"
    unfolding k_def [symmetric] using k by (simp add: word_less_nat_alt) linarith
  show "unat (v * 10 + word_of_nat (of_char c - 48)) = unat v * 10 + (of_char c - 48)"
    if "unat v * 10 + (of_char c - 48) < 2 ^ 32"
    using that k unfolding k_def [symmetric] by (simp add: unat_word_ariths word)
qed

lemma parse_digits_decimal:
  "parse_digits text v =
    (if list_all is_digit text \<and> decimal_value text (unat v) < 2 ^ 32 then Some (word_of_nat (decimal_value text (unat v))) else None)"
proof (induction "text" arbitrary: v)
  case Nil
  then show ?case using unsigned_less [of v, where 'a = nat] by (simp add: decimal_value_def)
next
  case (Cons c rest)
  show ?case
  proof (cases "is_digit c \<and> unat v * 10 + (of_char c - 48) < 2 ^ 32")
    case True
    then show ?thesis
      using Cons.IH [of "v * 10 + word_of_nat (of_char c - 48)"] parse_digits_step [of c v]
      by (auto simp: decimal_value_def is_digit_def Let_def)
  next
    case False
    have "unat v * 10 + (of_char c - 48) \<le> decimal_value (c # rest) (unat v)"
      using decimal_least [of "unat v * 10 + (of_char c - 48)" rest] by (simp add: decimal_value_def)
    then show ?thesis using False parse_digits_step(1) [of c v] by (auto simp: is_digit_def Let_def not_less)
  qed
qed

text \<open>The decimal numeral of a number.\<close>

fun numeral_text :: "nat \<Rightarrow> string" where
  "numeral_text n = (if n < 10 then [char_of (48 + n)] else numeral_text (n div 10) @ [char_of (48 + n mod 10)])"

declare numeral_text.simps [simp del]

lemma digit_char: "n < 10 \<Longrightarrow> of_char (char_of (48 + n) :: char) = (48 + n :: nat)"
  by (simp add: of_char_of)

lemma digit_char_is_digit: "(n :: nat) < 10 \<Longrightarrow> is_digit (char_of (48 + n))"
  by (simp add: is_digit_def digit_char)

lemma numeral_text_spec:
  "list_all is_digit (numeral_text n)" "decimal_value (numeral_text n) 0 = n" "numeral_text n \<noteq> []"
proof -
  have "list_all is_digit (numeral_text n) \<and> decimal_value (numeral_text n) 0 = n \<and> numeral_text n \<noteq> []"
  proof (induction n rule: numeral_text.induct)
    case (1 n)
    then show ?case
      by (subst (1 2 3) numeral_text.simps) (auto simp: decimal_value_def digit_char digit_char_is_digit)
  qed
  then show "list_all is_digit (numeral_text n)" "decimal_value (numeral_text n) 0 = n" "numeral_text n \<noteq> []" by auto
qed

lemma parse_numeral: "n < 2 ^ 32 \<Longrightarrow> parse_number (numeral_text n) = Some (word_of_nat n)"
  using numeral_text_spec [of n] by (simp add: parse_number_def parse_digits_decimal)

lemma digits_plain:
  assumes "list_all is_digit text"
  shows "CHR 0x0A \<notin> set text" and "CHR 0x00 \<notin> set text" and "trim text = text"
proof -
  have plain: "\<not> isspace c \<and> c \<noteq> CHR 0x00" if "is_digit c" for c using that by (auto simp: is_digit_def isspace_def)
  then show "CHR 0x0A \<notin> set text" "CHR 0x00 \<notin> set text" using assms by (auto simp: list_all_iff isspace_def)
  show "trim text = text"
  proof (cases "text")
    case (Cons c cs)
    then show ?thesis
      using trim_solid [of c cs] plain assms by (auto simp: list_all_iff)
  qed simp
qed

section \<open>Accepted settings\<close>

text \<open>What the lines so far cannot have spoilt.\<close>

definition parse_ok :: "power_parse \<Rightarrow> bool" where
  "parse_ok st \<longleftrightarrow> 0 < po_active_brightness (pc_policy st) \<and> po_active_brightness (pc_policy st) \<le> 100 \<and>
     po_idle_brightness (pc_policy st) \<le> 100 \<and> po_suspend_ms (pc_policy st) = 600000 \<and>
     \<not> po_automatic_suspend (pc_policy st)"

lemma brightness_bounds:
  assumes "\<not> 100 < (number :: u32)"
  shows "(ucast number :: u8) \<le> 100" and "number \<noteq> 0 \<Longrightarrow> 0 < (ucast number :: u8)"
proof -
  have "unat number \<le> 100" using assms by (simp add: not_less word_le_nat_alt)
  then have "unat (ucast number :: u8) = unat number" by (simp add: unsigned_ucast_eq take_bit_eq_mod)
  then show "(ucast number :: u8) \<le> 100" "number \<noteq> 0 \<Longrightarrow> 0 < (ucast number :: u8)"
    using \<open>unat number \<le> 100\<close> by (simp_all add: word_le_nat_alt word_less_nat_alt unat_gt_0)
qed

lemma set_display_key_ok:
  assumes "parse_ok st" and "\<not> (3 \<le> index \<and> (100 < number \<or> index = 3 \<and> number = 0))"
  shows "parse_ok (st\<lparr>pc_seen := seen, pc_policy := set_display_key index number (pc_policy st)\<rparr>)"
  using assms brightness_bounds [of number] by (auto simp: parse_ok_def set_display_key_def)

lemma power_line_ok: "parse_ok st \<Longrightarrow> power_line line st = Some st' \<Longrightarrow> parse_ok st'"
  unfolding power_line_def power_setting_def display_setting_def Let_def
  using set_display_key_ok [of st]
  by (auto simp: parse_ok_def split: if_splits option.splits)

lemma power_lines_ok: "parse_ok st \<Longrightarrow> power_lines text st = Some st' \<Longrightarrow> parse_ok st'"
proof (induction "text" st rule: power_lines.induct)
  case (1 "text" st)
  then show ?case
    using power_line_ok [of st "first_line text"]
    by (subst (asm) power_lines.simps) (auto split: if_splits option.splits)
qed

lemma power_config_parse_sound:
  assumes "power_config_parse text output = (result, published)"
  shows "(published \<noteq> None \<longleftrightarrow> result = POWER_CONFIG_OK) \<and>
    (\<forall>policy. published = Some policy \<longrightarrow> policy_ok policy \<and> 0 < po_idle_ms policy \<and> 0 < po_active_brightness policy \<and>
      \<not> po_automatic_suspend policy)"
proof -
  have start: "parse_ok power_parse_start"
    by (simp add: parse_ok_def power_parse_start_def power_config_defaults_def word_less_nat_alt word_le_nat_alt)
  show ?thesis
    using assms power_lines_ok [OF start]
    by (auto simp: power_config_parse_def power_policy_complete_def policy_ok_def parse_ok_def Let_def not_less
        word_neq_0_conv split: if_splits option.splits)
qed

section \<open>Files with every setting\<close>

lemma power_lines_line:
  assumes "CHR 0x0A \<notin> set line"
  shows "power_lines (line @ CHR 0x0A # rest) st = Option.bind (power_line line st) (power_lines rest)"
proof -
  have "line @ CHR 0x0A # rest \<noteq> []" by simp
  then show ?thesis
    by (subst power_lines.simps) (simp add: first_line_append [OF assms] split: option.split)
qed

lemma power_lines_Nil: "power_lines [] st = Some st"
  by (simp add: power_lines.simps)

definition setting_line :: "nat \<Rightarrow> nat \<Rightarrow> string" where
  "setting_line index n = display_keys ! index @ CHR ''='' # numeral_text n"

definition settings_text :: "nat \<Rightarrow> nat \<Rightarrow> nat \<Rightarrow> nat \<Rightarrow> nat \<Rightarrow> string" where
  "settings_text dim screen_off panel_off normal dimmed =
     ''version=1'' @ CHR 0x0A # ''[display]'' @ CHR 0x0A #
     setting_line 0 dim @ CHR 0x0A # setting_line 1 screen_off @ CHR 0x0A # setting_line 2 panel_off @ CHR 0x0A #
     setting_line 3 normal @ CHR 0x0A # setting_line 4 dimmed @ [CHR 0x0A]"

lemma setting_key:
  assumes "index < 5"
  shows "CHR ''='' \<notin> set (display_keys ! index)" "trim (display_keys ! index) = display_keys ! index"
    "CHR 0x0A \<notin> set (display_keys ! index)" "CHR 0x00 \<notin> set (display_keys ! index)"
    "length (takeWhile (\<lambda>k. k \<noteq> display_keys ! index) display_keys) = index" "display_keys ! index \<noteq> ''''"
    "hd (display_keys ! index) \<notin> set [CHR ''#'', CHR '';'', CHR ''['', CHR 0x20, CHR 0x09, CHR 0x0A, CHR 0x0B, CHR 0x0C, CHR 0x0D]"
    "display_keys ! index \<noteq> ''version''"
proof -
  have "index \<in> set [0, 1, 2, 3, 4]" using assms by auto
  moreover have "list_all (\<lambda>index. CHR ''='' \<notin> set (display_keys ! index) \<and> trim (display_keys ! index) = display_keys ! index \<and>
    CHR 0x0A \<notin> set (display_keys ! index) \<and> CHR 0x00 \<notin> set (display_keys ! index) \<and>
    length (takeWhile (\<lambda>k. k \<noteq> display_keys ! index) display_keys) = index \<and> display_keys ! index \<noteq> '''' \<and>
    hd (display_keys ! index) \<notin> set [CHR ''#'', CHR '';'', CHR ''['', CHR 0x20, CHR 0x09, CHR 0x0A, CHR 0x0B, CHR 0x0C, CHR 0x0D] \<and>
    display_keys ! index \<noteq> ''version'') [0, 1, 2, 3, 4]"
    by code_simp
  ultimately show "CHR ''='' \<notin> set (display_keys ! index)" "trim (display_keys ! index) = display_keys ! index"
    "CHR 0x0A \<notin> set (display_keys ! index)" "CHR 0x00 \<notin> set (display_keys ! index)"
    "length (takeWhile (\<lambda>k. k \<noteq> display_keys ! index) display_keys) = index" "display_keys ! index \<noteq> ''''"
    "hd (display_keys ! index) \<notin> set [CHR ''#'', CHR '';'', CHR ''['', CHR 0x20, CHR 0x09, CHR 0x0A, CHR 0x0B, CHR 0x0C, CHR 0x0D]"
    "display_keys ! index \<noteq> ''version''"
    unfolding list_all_iff by blast+
qed

lemma setting_line_trim: "index < 5 \<Longrightarrow> trim (setting_line index n) = setting_line index n"
proof -
  assume index: "index < 5"
  obtain c cs where key: "display_keys ! index = c # cs" using setting_key(6) [OF index] by (cases "display_keys ! index") auto
  have "is_digit (last (numeral_text n))"
    using numeral_text_spec(1,3) [of n] by (simp add: list_all_iff)
  then have "\<not> isspace (last (numeral_text n))" by (auto simp: is_digit_def isspace_def)
  moreover have "\<not> isspace c" using setting_key(7) [OF index] by (simp add: key isspace_def)
  moreover have "last (setting_line index n) = last (numeral_text n)"
    using numeral_text_spec(3) [of n] by (simp add: setting_line_def)
  ultimately show ?thesis
    using trim_solid [of c "cs @ CHR ''='' # numeral_text n"] by (simp add: setting_line_def key)
qed

lemma setting_line_effect:
  assumes "index < 5" "n < 2 ^ 32" "pc_section st = SECTION_DISPLAY" "pc_seen st AND push_bit index 1 = 0"
    and "3 \<le> index \<longrightarrow> n \<le> 100" "index = 3 \<longrightarrow> 0 < n"
  shows "power_line (setting_line index n) st =
    Some (st\<lparr>pc_seen := pc_seen st OR push_bit index 1, pc_policy := set_display_key index (word_of_nat n) (pc_policy st)\<rparr>)"
proof -
  note key = setting_key [OF assms(1)]
  have word: "unat (word_of_nat n :: u32) = n" using assms(2) by (simp add: unat_of_nat)
  have range: "\<not> (3 \<le> index \<and> (100 < (word_of_nat n :: u32) \<or> index = 3 \<and> (word_of_nat n :: u32) = 0))"
    using assms(5,6) word by (auto simp: word_less_nat_alt)
  have parts: "key_of (setting_line index n) = display_keys ! index" "value_of (setting_line index n) = numeral_text n"
    unfolding setting_line_def using key_value_append [OF key(1)] key(2) digits_plain(3) [OF numeral_text_spec(1)] by simp_all
  have "hd (setting_line index n) = hd (display_keys ! index)" "setting_line index n \<noteq> []"
    "CHR ''='' \<in> set (setting_line index n)" "index < length display_keys"
    using key(6) assms(1) by (simp_all add: setting_line_def display_keys_def)
  then show ?thesis
    using key(5-8) assms(3,4) range parts setting_line_trim [OF assms(1)]
    by (simp add: power_line_def power_setting_def display_setting_def Let_def parse_numeral [OF assms(2)])
qed

lemma numeral_text_length: "n < 10 ^ Suc k \<Longrightarrow> length (numeral_text n) \<le> Suc k"
proof (induction n arbitrary: k rule: numeral_text.induct)
  case (1 n)
  show ?case
  proof (cases "n < 10")
    case True
    then show ?thesis by (subst numeral_text.simps) simp
  next
    case False
    then obtain j where j: "k = Suc j" using 1 by (cases k) auto
    then have "n div 10 < 10 ^ Suc j" using 1(2) by (simp add: less_mult_imp_div_less)
    then show ?thesis using 1(1) [OF False, of j] False j by (subst numeral_text.simps) simp
  qed
qed

lemma setting_line_plain:
  assumes "index < 5" and "n < 2 ^ 32"
  shows "CHR 0x0A \<notin> set (setting_line index n)" "CHR 0x00 \<notin> set (setting_line index n)"
    "length (setting_line index n) \<le> 32"
proof -
  have "length (numeral_text n) \<le> 10" using numeral_text_length [of n 9] assms(2) by simp
  moreover have "length (display_keys ! index) \<le> 21"
  proof -
    have "list_all (\<lambda>k. length k \<le> 21) display_keys" "length display_keys = 5" by code_simp+
    then show ?thesis using assms(1) by (simp add: list_all_length)
  qed
  ultimately show "length (setting_line index n) \<le> 32" by (simp add: setting_line_def)
  show "CHR 0x0A \<notin> set (setting_line index n)" "CHR 0x00 \<notin> set (setting_line index n)"
    using setting_key [OF assms(1)] digits_plain [OF numeral_text_spec(1) [of n]] by (auto simp: setting_line_def)
qed

definition seconds :: "nat \<Rightarrow> u64" where
  "seconds n = word_of_nat n * 1000"

lemma seconds_word: "n < 2 ^ 32 \<Longrightarrow> ucast (word_of_nat n :: u32) * 1000 = seconds n"
proof -
  assume n: "n < 2 ^ 32"
  have "(ucast (word_of_nat n :: u32) :: u64) = word_of_nat n"
    by (rule word_unat_eq_iff [THEN iffD2]) (use n in \<open>simp add: unsigned_ucast_eq unat_of_nat take_bit_eq_mod\<close>)
  then show ?thesis by (simp add: seconds_def)
qed

lemma unat_seconds: "n < 2 ^ 32 \<Longrightarrow> unat (seconds n) = n * 1000"
  by (simp add: seconds_def unat_word_ariths unat_of_nat)

lemma seconds_compare:
  assumes "m < 2 ^ 32" and "n < 2 ^ 32"
  shows "seconds m < seconds n \<longleftrightarrow> m < n" and "seconds m = 0 \<longleftrightarrow> m = 0"
  using unat_seconds [OF assms(1)] unat_seconds [OF assms(2)] by (simp_all add: word_less_nat_alt unat_eq_0 [symmetric])

section \<open>Properties\<close>

text \<open>
  C13. Every sensible choice of settings can be written down: a file that gives the five display settings
  in decimal is accepted whenever the values are in range and the stages come in their order, and the
  policy has exactly these values, times in milliseconds.
\<close>

theorem power_config_settings:
  assumes "dim < 2 ^ 32" "screen_off < 2 ^ 32" "panel_off < 2 ^ 32" "normal \<le> 100" "dimmed \<le> 100"
    and "0 < dim" "0 < normal" "screen_off = 0 \<or> dim \<le> screen_off"
    and "panel_off = 0 \<or> screen_off \<noteq> 0 \<and> screen_off \<le> panel_off"
  shows "power_config_parse (Some (settings_text dim screen_off panel_off normal dimmed)) True =
    (POWER_CONFIG_OK, Some \<lparr>po_idle_ms = word_of_nat dim * 1000, po_screen_off_ms = word_of_nat screen_off * 1000,
       po_panel_off_ms = word_of_nat panel_off * 1000, po_suspend_ms = 600000, po_active_brightness = word_of_nat normal,
       po_idle_brightness = word_of_nat dimmed, po_automatic_suspend = False\<rparr>)"
proof -
  have small: "normal < 2 ^ 32" "dimmed < 2 ^ 32" using assms by simp_all
  note plain = setting_line_plain [of 0 dim] setting_line_plain [of 1 screen_off] setting_line_plain [of 2 panel_off]
    setting_line_plain [of 3 normal] setting_line_plain [of 4 dimmed]
  define t where "t = settings_text dim screen_off panel_off normal dimmed"
  have size: "length t \<le> POWER_CONFIG_FILE_MAX" "CHR 0x00 \<notin> set t"
    using plain assms(1-5) small by (auto simp: t_def settings_text_def POWER_CONFIG_FILE_MAX_def)
  define st where "st = power_parse_start\<lparr>pc_version_seen := True, pc_section := SECTION_DISPLAY\<rparr>"
  have head: "power_line ''version=1'' power_parse_start = Some (power_parse_start\<lparr>pc_version_seen := True\<rparr>)"
    "power_line ''[display]'' (power_parse_start\<lparr>pc_version_seen := True\<rparr>) = Some st"
    unfolding st_def by code_simp+
  have bytes: "(ucast (word_of_nat n :: u32) :: u8) = word_of_nat n" if "n \<le> 100" for n
    by (rule word_unat_eq_iff [THEN iffD2]) (use that in \<open>simp add: unsigned_ucast_eq unat_of_nat take_bit_eq_mod\<close>)
  have lines: "power_lines t power_parse_start = Some \<lparr>pc_policy = \<lparr>po_idle_ms = seconds dim,
      po_screen_off_ms = seconds screen_off, po_panel_off_ms = seconds panel_off, po_suspend_ms = 600000,
      po_active_brightness = word_of_nat normal, po_idle_brightness = word_of_nat dimmed, po_automatic_suspend = False\<rparr>,
      pc_section = SECTION_DISPLAY, pc_version_seen = True, pc_seen = 31\<rparr>"
    (is "_ = ?lines")
  proof -
    define rest where "rest = setting_line 0 dim @ CHR 0x0A # setting_line 1 screen_off @ CHR 0x0A # setting_line 2 panel_off @
      CHR 0x0A # setting_line 3 normal @ CHR 0x0A # setting_line 4 dimmed @ [CHR 0x0A]"
    have "CHR 0x0A \<notin> set ''version=1''" "CHR 0x0A \<notin> set ''[display]''" by simp_all
    note headings = power_lines_line [OF this(1)] power_lines_line [OF this(2)]
    have "power_lines t power_parse_start = power_lines rest st"
      unfolding t_def settings_text_def rest_def [symmetric] headings head Option.bind.simps by (rule refl)
    also have "\<dots> = ?lines"
      unfolding rest_def
      using plain assms small
      by (simp add: power_lines_line power_lines_Nil setting_line_effect st_def power_parse_start_def
          set_display_key_def power_config_defaults_def seconds_word bytes)
    finally show ?thesis .
  qed
  show ?thesis
    using size seconds_compare assms(1-3,6-9) unfolding t_def [symmetric]
    by (auto simp: power_config_parse_def lines power_policy_complete_def Let_def seconds_def [symmetric])
qed

theorem power_config_settings_witness:
  "power_config_parse (Some (settings_text 60 180 300 75 20)) True =
    (POWER_CONFIG_OK, Some \<lparr>po_idle_ms = 60000, po_screen_off_ms = 180000, po_panel_off_ms = 300000,
       po_suspend_ms = 600000, po_active_brightness = 75, po_idle_brightness = 20, po_automatic_suspend = False\<rparr>)"
  using power_config_settings [of 60 180 300 75 20] by simp

text \<open>
  C14. Loading the settings publishes a policy exactly when it succeeds, and then one that the power
  manager starts with: brightness at most 100 and not zero, the stages of the display in their order, no automatic
  suspension. Whatever the file holds and wherever it fails, the descriptor is closed.
\<close>

theorem power_config_load_sound:
  assumes "fs_wf fs" and "power_config_load ops malloc output fs = ((result, published), fs')"
  shows "(published \<noteq> None \<longleftrightarrow> result = POWER_CONFIG_OK) \<and>
    (\<forall>policy. published = Some policy \<longrightarrow> power_manager_init env True policy now \<noteq> None \<and> policy_ok policy \<and>
      0 < po_idle_ms policy \<and> 0 < po_active_brightness policy \<and> \<not> po_automatic_suspend policy) \<and>
    same_descriptors fs fs'"
proof -
  obtain descriptor opened where result: "tabos_fs_open ops (Some POWER_CONFIG_PATH) 0 0 fs = (descriptor, opened)"
    by fastforce
  obtain contents fs1 where read: "read_config ops descriptor (POWER_CONFIG_FILE_MAX + 1) 0 [] opened = (contents, fs1)"
    by fastforce
  have files: "fs_files fs1 = fs_files opened"
    using read_config_files [of ops descriptor "POWER_CONFIG_FILE_MAX + 1" 0 "[]" opened] read by simp
  obtain closed fs2 where close: "tabos_fs_close ops descriptor fs1 = (closed, fs2)" by fastforce
  have same: "same_descriptors fs opened" if "descriptor < 0"
    using tabos_fs_open_failed [OF assms(1) result that] by (simp add: same_descriptors_def)
  have released: "same_descriptors fs (snd (tabos_fs_close ops descriptor opened))" "same_descriptors fs fs2" if "0 \<le> descriptor"
    using descriptor_released [OF assms(1) result that, of opened] descriptor_released [OF assms(1) result that, of fs1] files close
    by simp_all
  have unchanged: "same_descriptors fs fs" by (simp add: same_descriptors_def)
  have started: "power_manager_init env True policy now \<noteq> None" if "policy_ok policy" for policy
    using that by (simp add: power_manager_init_def)
  define file_text where "file_text = Some (text_of_bytes (the contents))"
  obtain r p where parsed: "power_config_parse file_text output = (r, p)" by fastforce
  have "fs' \<in> {fs, opened, snd (tabos_fs_close ops descriptor opened), fs2} \<and>
      (published = None \<and> result \<noteq> POWER_CONFIG_OK \<or> (result, published) = (r, p)) \<and> same_descriptors fs fs'"
    using assms(2) parsed released same unchanged
    by (auto simp: power_config_load_def result read [unfolded Suc_eq_plus1 [symmetric]] close file_text_def split: if_splits)
  then show ?thesis
    using power_config_parse_sound [OF parsed] started by auto
qed

text \<open>A backend with drive T and one file, which is read in one piece.\<close>

definition settings_storage :: "string \<Rightarrow> nat storage_ops" where
  "settings_storage contents = demo_storage\<lparr>so_has_drive := \<lambda>p c. c = CHR ''T'',
     so_read := \<lambda>p file n. if p = 0 then (0, bytes_of_text contents, 1) else (0, [], p)\<rparr>"

lemma settings_storage_loads:
  "fst (power_config_load (settings_storage (''version = 1'' @ [CHR 0x0A])) True True demo_fs) =
    (POWER_CONFIG_OK, Some power_config_defaults)"
  by code_simp

theorem power_config_load_sound_witness:
  "(\<forall>env now. power_manager_init env True power_config_defaults now \<noteq> None) \<and> policy_ok power_config_defaults"
proof -
  define loaded where "loaded = power_config_load (settings_storage (''version = 1'' @ [CHR 0x0A])) True True demo_fs"
  have "loaded = ((POWER_CONFIG_OK, Some power_config_defaults), snd loaded)"
    using settings_storage_loads by (simp add: loaded_def prod_eq_iff)
  from power_config_load_sound [OF demo_fs_wf this [unfolded loaded_def]]
  show ?thesis by simp
qed

end
