(* ===== verification/NetworkConfig.thy ===== *)
theory NetworkConfig
  imports ConfigText
begin

text \<open>
  The settings file of the wireless network, \<^verbatim>\<open>src/net/config.c\<close>: its parser, and the update that
  rewrites the lines it owns and keeps all others. The strings of a configuration are C strings: what
  stands before the NUL. NULL for a text counts as a text of length 0.
\<close>

section \<open>The parser\<close>

datatype network_config_result =
    NETWORK_CONFIG_OK
  | NETWORK_CONFIG_NOT_FOUND
  | NETWORK_CONFIG_UNAVAILABLE
  | NETWORK_CONFIG_INVALID
  | NETWORK_CONFIG_TOO_LARGE
  | NETWORK_CONFIG_IO_ERROR

definition NETWORK_CONFIG_PATH :: string where "NETWORK_CONFIG_PATH = ''T:/etc/wifi.conf''"
definition NETWORK_CONFIG_TEMP_PATH :: string where "NETWORK_CONFIG_TEMP_PATH = ''T:/etc/.wifi.conf.tmp''"
definition NETWORK_CONFIG_SSID_MAX :: nat where "NETWORK_CONFIG_SSID_MAX = 32"
definition NETWORK_CONFIG_PASSWORD_MAX :: nat where "NETWORK_CONFIG_PASSWORD_MAX = 64"
definition NETWORK_CONFIG_NAME_MAX :: nat where "NETWORK_CONFIG_NAME_MAX = 32"
definition NETWORK_CONFIG_FILE_MAX :: nat where "NETWORK_CONFIG_FILE_MAX = 4096"
definition NETWORK_CONFIG_DEFAULT_NAME :: string where "NETWORK_CONFIG_DEFAULT_NAME = ''TabOS''"

record network_config =
  nc_ssid :: string
  nc_password :: string
  nc_name :: string
  nc_auto_connect :: bool

text \<open>The loop of \<^verbatim>\<open>parse_quoted\<close> after the opening quote; \<open>used\<close> is what was copied so far.\<close>

fun parse_quoted_from :: "nat \<Rightarrow> string \<Rightarrow> string \<Rightarrow> string option" where
  "parse_quoted_from capacity [] used = None"
| "parse_quoted_from capacity (c # source) used =
     (if c = CHR 0x22 then (if source \<noteq> [] then None else Some used)
      else if c = CHR 0x5C then
        (case source of
           [] \<Rightarrow> None
         | d # source' \<Rightarrow>
             if d \<noteq> CHR 0x5C \<and> d \<noteq> CHR 0x22 then None
             else if capacity \<le> length used + 1 then None
             else parse_quoted_from capacity source' (used @ [d]))
      else if capacity \<le> length used + 1 then None
      else parse_quoted_from capacity source (used @ [c]))"

definition parse_quoted :: "string \<Rightarrow> nat \<Rightarrow> string option" where
  "parse_quoted source capacity =
     (if source = [] \<or> hd source \<noteq> CHR 0x22 \<or> capacity = 0 then None
      else parse_quoted_from capacity (tl source) [])"

definition parse_boolean :: "string \<Rightarrow> bool option" where
  "parse_boolean v = (if v = ''true'' then Some True else if v = ''false'' then Some False else None)"

definition isalnum :: "char \<Rightarrow> bool" where
  "isalnum c \<longleftrightarrow>
     (let n = of_char c :: nat in 48 \<le> n \<and> n \<le> 57 \<or> 65 \<le> n \<and> n \<le> 90 \<or> 97 \<le> n \<and> n \<le> 122)"

definition valid_hostname :: "string \<Rightarrow> bool" where
  "valid_hostname hostname \<longleftrightarrow>
     \<not> (hostname = [] \<or> NETWORK_CONFIG_NAME_MAX < length hostname \<or> hd hostname = CHR ''-'' \<or> last hostname = CHR ''-'') \<and>
     list_all (\<lambda>c. isalnum c \<or> c = CHR ''-'') hostname"

record network_parse =
  np_config :: network_config
  np_version_seen :: bool
  np_wifi_section :: bool
  np_ssid_seen :: bool

definition network_parse_start :: network_parse where
  "network_parse_start = \<lparr>np_config = \<lparr>nc_ssid = [], nc_password = [], nc_name = NETWORK_CONFIG_DEFAULT_NAME,
     nc_auto_connect = True\<rparr>, np_version_seen = False, np_wifi_section = False, np_ssid_seen = False\<rparr>"

text \<open>A line with key and value; \<^const>\<open>None\<close> stands for \<^verbatim>\<open>NETWORK_CONFIG_INVALID\<close>.\<close>

definition network_setting :: "string \<Rightarrow> string \<Rightarrow> network_parse \<Rightarrow> network_parse option" where
  "network_setting key v st =
     (let wifi_section = np_wifi_section st; parsed = np_config st
      in if \<not> wifi_section \<and> key = ''version'' then
           (if v \<noteq> ''1'' then None else Some (st\<lparr>np_version_seen := True\<rparr>))
         else if wifi_section \<and> key = ''ssid'' then
           (case parse_quoted v (NETWORK_CONFIG_SSID_MAX + 1) of
              None \<Rightarrow> None
            | Some s \<Rightarrow> if s = [] then None else Some (st\<lparr>np_config := parsed\<lparr>nc_ssid := s\<rparr>, np_ssid_seen := True\<rparr>))
         else if wifi_section \<and> key = ''password'' then
           (case parse_quoted v (NETWORK_CONFIG_PASSWORD_MAX + 1) of
              None \<Rightarrow> None
            | Some s \<Rightarrow> Some (st\<lparr>np_config := parsed\<lparr>nc_password := s\<rparr>\<rparr>))
         else if wifi_section \<and> key = ''name'' then
           (case parse_quoted v (NETWORK_CONFIG_NAME_MAX + 1) of
              None \<Rightarrow> None
            | Some s \<Rightarrow> if \<not> valid_hostname s then None else Some (st\<lparr>np_config := parsed\<lparr>nc_name := s\<rparr>\<rparr>))
         else if wifi_section \<and> key = ''auto_connect'' then
           (case parse_boolean v of
              None \<Rightarrow> None
            | Some b \<Rightarrow> Some (st\<lparr>np_config := parsed\<lparr>nc_auto_connect := b\<rparr>\<rparr>))
         else Some st)"

definition network_line :: "string \<Rightarrow> network_parse \<Rightarrow> network_parse option" where
  "network_line line st =
     (let line = trim (if line \<noteq> [] \<and> last line = CHR 0x0D then butlast line else line)
      in if line = [] \<or> hd line = CHR ''#'' \<or> hd line = CHR '';'' then Some st
         else if hd line = CHR ''['' then
           (if length line < 3 \<or> last line \<noteq> CHR '']'' then None
            else Some (st\<lparr>np_wifi_section := (trim (tl (butlast line)) = ''wifi'')\<rparr>))
         else if CHR ''='' \<notin> set line then None
         else network_setting (key_of line) (value_of line) st)"

function network_lines :: "string \<Rightarrow> network_parse \<Rightarrow> network_parse option" where
  "network_lines text st =
     (if text = [] then Some st
      else
        (case network_line (first_line text) st of
           None \<Rightarrow> None
         | Some st \<Rightarrow> network_lines (other_lines text) st))"
  by pat_completeness auto

termination
  by (relation "measure (\<lambda>(text, st). length text)") auto

declare network_lines.simps [simp del]

definition network_config_parse :: "string option \<Rightarrow> bool \<Rightarrow> network_config_result \<times> network_config option" where
  "network_config_parse text output =
     (if text \<noteq> None \<and> NETWORK_CONFIG_FILE_MAX < length (the text) then (NETWORK_CONFIG_TOO_LARGE, None)
      else if text = None \<or> \<not> output then (NETWORK_CONFIG_INVALID, None)
      else
        (case network_lines (c_string (the text)) network_parse_start of
           None \<Rightarrow> (NETWORK_CONFIG_INVALID, None)
         | Some st \<Rightarrow>
             if \<not> np_version_seen st \<or> \<not> np_ssid_seen st then (NETWORK_CONFIG_INVALID, None)
             else (NETWORK_CONFIG_OK, Some (np_config st))))"

definition network_config_load ::
    "'p storage_ops \<Rightarrow> bool \<Rightarrow> bool \<Rightarrow> 'p fs_state \<Rightarrow> (network_config_result \<times> network_config option) \<times> 'p fs_state" where
  "network_config_load ops malloc output fs =
     (if \<not> output then ((NETWORK_CONFIG_INVALID, None), fs)
      else
        (case tabos_fs_open ops (Some NETWORK_CONFIG_PATH) 0 0 fs of
           (descriptor, fs) \<Rightarrow>
             if descriptor < 0
             then ((if fs_errno fs = ENOENT then NETWORK_CONFIG_NOT_FOUND
                    else if fs_errno fs = ENODEV then NETWORK_CONFIG_UNAVAILABLE else NETWORK_CONFIG_IO_ERROR, None), fs)
             else if \<not> malloc then ((NETWORK_CONFIG_IO_ERROR, None), snd (tabos_fs_close ops descriptor fs))
             else
               (case read_config ops descriptor (NETWORK_CONFIG_FILE_MAX + 1) 0 [] fs of
                  (None, fs) \<Rightarrow> ((NETWORK_CONFIG_IO_ERROR, None), snd (tabos_fs_close ops descriptor fs))
                | (Some contents, fs) \<Rightarrow>
                    (case tabos_fs_close ops descriptor fs of
                       (closed, fs) \<Rightarrow>
                         if closed \<noteq> 0 then ((NETWORK_CONFIG_IO_ERROR, None), fs)
                         else if NETWORK_CONFIG_FILE_MAX < length contents then ((NETWORK_CONFIG_TOO_LARGE, None), fs)
                         else (network_config_parse (Some (text_of_bytes contents)) output, fs)))))"

section \<open>The update\<close>

definition append_bytes :: "nat \<Rightarrow> string \<Rightarrow> string \<Rightarrow> string option" where
  "append_bytes capacity bytes used = (if capacity - length used < length bytes then None else Some (used @ bytes))"

fun append_escaped :: "nat \<Rightarrow> string \<Rightarrow> string \<Rightarrow> string option" where
  "append_escaped capacity [] used = Some used"
| "append_escaped capacity (c # v) used =
     do {
       used \<leftarrow> (if c = CHR 0x5C \<or> c = CHR 0x22 then append_bytes capacity [CHR 0x5C] used else Some used);
       used \<leftarrow> append_bytes capacity [c] used;
       append_escaped capacity v used
     }"

definition append_quoted :: "nat \<Rightarrow> string \<Rightarrow> string \<Rightarrow> string option" where
  "append_quoted capacity v used =
     do {
       used \<leftarrow> append_bytes capacity [CHR 0x22] used;
       used \<leftarrow> append_escaped capacity v used;
       append_bytes capacity [CHR 0x22, CHR 0x0A] used
     }"

definition is_owned_line :: "string \<Rightarrow> bool \<Rightarrow> bool" where
  "is_owned_line line wifi_section \<longleftrightarrow>
     (let text = trim (c_string line); key = key_of text
      in if CHR ''='' \<notin> set text then False
         else if \<not> wifi_section then key = ''version''
         else key = ''ssid'' \<or> key = ''password'' \<or> key = ''name'' \<or> key = ''auto_connect'')"

text \<open>The section in which the update is after a line.\<close>

definition section_after :: "string \<Rightarrow> bool \<Rightarrow> bool" where
  "section_after line wifi_section =
     (let trimmed = trim (c_string line)
      in if 3 \<le> length trimmed \<and> hd trimmed = CHR ''['' \<and> last trimmed = CHR '']''
         then trim (tl (butlast trimmed)) = ''wifi'' else wifi_section)"

definition line_end :: "string \<Rightarrow> string" where
  "line_end text = (if CHR 0x0A \<in> set text then [CHR 0x0A] else [])"

function append_lines :: "nat \<Rightarrow> string \<Rightarrow> bool \<Rightarrow> string \<Rightarrow> string option" where
  "append_lines capacity existing wifi_section used =
     (if existing = [] then Some used
      else
        (let line = first_line existing; wifi_section = section_after line wifi_section
         in do {
              used \<leftarrow> (if is_owned_line line wifi_section then Some used
                else append_bytes capacity (line @ line_end existing) used);
              append_lines capacity (other_lines existing) wifi_section used
            }))"
  by pat_completeness auto

termination
  by (relation "measure (\<lambda>(capacity, existing, wifi_section, used). length existing)") auto

declare append_lines.simps [simp del]

text \<open>The update in its order; \<^const>\<open>None\<close> stands for \<^verbatim>\<open>NETWORK_CONFIG_TOO_LARGE\<close>.\<close>

definition format_config :: "string \<Rightarrow> network_config \<Rightarrow> nat \<Rightarrow> string option" where
  "format_config existing config capacity =
     (let name = (if nc_name config \<noteq> [] then nc_name config else NETWORK_CONFIG_DEFAULT_NAME)
      in do {
           used \<leftarrow> append_bytes capacity (''version=1'' @ [CHR 0x0A]) [];
           used \<leftarrow> append_lines capacity existing False used;
           used \<leftarrow> (if used \<noteq> [] \<and> last used \<noteq> CHR 0x0A then append_bytes capacity [CHR 0x0A] used else Some used);
           used \<leftarrow> append_bytes capacity (CHR 0x0A # ''[wifi]'' @ CHR 0x0A # ''ssid='') used;
           used \<leftarrow> append_quoted capacity (nc_ssid config) used;
           used \<leftarrow> append_bytes capacity ''password='' used;
           used \<leftarrow> append_quoted capacity (nc_password config) used;
           used \<leftarrow> append_bytes capacity ''name='' used;
           used \<leftarrow> append_quoted capacity name used;
           used \<leftarrow> append_bytes capacity ((if nc_auto_connect config then ''auto_connect=true'' else ''auto_connect=false'') @
             [CHR 0x0A]) used;
           (if capacity \<le> length used then None else Some used)
         })"

definition network_config_format_update ::
    "string option \<Rightarrow> network_config option \<Rightarrow> bool \<Rightarrow> nat \<Rightarrow> network_config_result \<times> string option" where
  "network_config_format_update existing config output output_capacity =
     (let text = (case existing of None \<Rightarrow> [] | Some t \<Rightarrow> t)
      in case config of
           None \<Rightarrow> (NETWORK_CONFIG_INVALID, None)
         | Some c \<Rightarrow>
             if \<not> output \<or> nc_ssid c = [] \<or> NETWORK_CONFIG_SSID_MAX < length (nc_ssid c) \<or>
                NETWORK_CONFIG_PASSWORD_MAX < length (nc_password c) \<or> nc_name c \<noteq> [] \<and> \<not> valid_hostname (nc_name c) \<or>
                NETWORK_CONFIG_FILE_MAX < length text
             then (NETWORK_CONFIG_INVALID, None)
             else
               (case format_config text c output_capacity of
                  None \<Rightarrow> (NETWORK_CONFIG_TOO_LARGE, None)
                | Some formatted \<Rightarrow> (NETWORK_CONFIG_OK, Some formatted)))"

section \<open>Saving\<close>

definition TABOS_O_WRONLY :: int where "TABOS_O_WRONLY = 1"
definition TABOS_O_CREAT :: int where "TABOS_O_CREAT = 16"
definition TABOS_O_TRUNC :: int where "TABOS_O_TRUNC = 64"
definition EEXIST :: int where "EEXIST = 17"

definition read_existing ::
    "'p storage_ops \<Rightarrow> 'p fs_state \<Rightarrow> (network_config_result \<times> string) \<times> 'p fs_state" where
  "read_existing ops fs =
     (case tabos_fs_open ops (Some NETWORK_CONFIG_PATH) 0 0 fs of
        (descriptor, fs) \<Rightarrow>
          if descriptor < 0
          then ((if fs_errno fs = ENOENT then NETWORK_CONFIG_NOT_FOUND else NETWORK_CONFIG_IO_ERROR, []), fs)
          else
            (case read_config ops descriptor (NETWORK_CONFIG_FILE_MAX + 1) 0 [] fs of
               (None, fs) \<Rightarrow> ((NETWORK_CONFIG_IO_ERROR, []), snd (tabos_fs_close ops descriptor fs))
             | (Some contents, fs) \<Rightarrow>
                 (case tabos_fs_close ops descriptor fs of
                    (closed, fs) \<Rightarrow>
                      if closed \<noteq> 0 then ((NETWORK_CONFIG_IO_ERROR, []), fs)
                      else if NETWORK_CONFIG_FILE_MAX < length contents then ((NETWORK_CONFIG_TOO_LARGE, []), fs)
                      else ((NETWORK_CONFIG_OK, text_of_bytes contents), fs))))"

text \<open>Writing the new file beside the old one and putting it in its place.\<close>

definition replace_config :: "'p storage_ops \<Rightarrow> string \<Rightarrow> 'p fs_state \<Rightarrow> network_config_result \<times> 'p fs_state" where
  "replace_config ops formatted fs =
     (case tabos_fs_open ops (Some NETWORK_CONFIG_TEMP_PATH) (TABOS_O_WRONLY + TABOS_O_CREAT + TABOS_O_TRUNC) 0x180 fs of
        (descriptor, fs) \<Rightarrow>
          if descriptor < 0 then (NETWORK_CONFIG_IO_ERROR, fs)
          else
            (case tabos_fs_write ops descriptor (Some (bytes_of_text formatted)) (length formatted) fs of
               (written, fs) \<Rightarrow>
                 (case tabos_fs_close ops descriptor fs of
                    (closed, fs) \<Rightarrow>
                      if written \<noteq> int (length formatted) \<or> closed \<noteq> 0
                      then (NETWORK_CONFIG_IO_ERROR, snd (tabos_fs_unlink ops (Some NETWORK_CONFIG_TEMP_PATH) fs))
                      else
                        (case tabos_fs_rename ops (Some NETWORK_CONFIG_TEMP_PATH) (Some NETWORK_CONFIG_PATH) fs of
                           (renamed, fs) \<Rightarrow>
                             if renamed \<noteq> 0
                             then (NETWORK_CONFIG_IO_ERROR, snd (tabos_fs_unlink ops (Some NETWORK_CONFIG_TEMP_PATH) fs))
                             else (NETWORK_CONFIG_OK, fs)))))"

definition network_config_save ::
    "'p storage_ops \<Rightarrow> network_config option \<Rightarrow> 'p fs_state \<Rightarrow> network_config_result \<times> 'p fs_state" where
  "network_config_save ops config fs =
     (if config = None then (NETWORK_CONFIG_INVALID, fs)
      else
        (case read_existing ops fs of
           ((result, existing), fs) \<Rightarrow>
             if result \<noteq> NETWORK_CONFIG_OK \<and> result \<noteq> NETWORK_CONFIG_NOT_FOUND then (result, fs)
             else
               (case network_config_format_update (Some existing) config True (NETWORK_CONFIG_FILE_MAX + 1) of
                  (result, formatted) \<Rightarrow>
                    if result \<noteq> NETWORK_CONFIG_OK then (result, fs)
                    else
                      (case tabos_fs_mkdir ops (Some ''T:/etc'') 0x1ED fs of
                         (made, fs) \<Rightarrow>
                           if made \<noteq> 0 \<and> fs_errno fs \<noteq> EEXIST
                           then (if fs_errno fs = ENODEV then NETWORK_CONFIG_UNAVAILABLE else NETWORK_CONFIG_IO_ERROR, fs)
                           else replace_config ops (the formatted) fs))))"

definition network_config_result_name :: "network_config_result \<Rightarrow> string" where
  "network_config_result_name result =
     (case result of
        NETWORK_CONFIG_OK \<Rightarrow> ''OK''
      | NETWORK_CONFIG_NOT_FOUND \<Rightarrow> ''not found''
      | NETWORK_CONFIG_UNAVAILABLE \<Rightarrow> ''storage unavailable''
      | NETWORK_CONFIG_INVALID \<Rightarrow> ''invalid configuration''
      | NETWORK_CONFIG_TOO_LARGE \<Rightarrow> ''configuration too large''
      | NETWORK_CONFIG_IO_ERROR \<Rightarrow> ''I/O error'')"

end
