(* ===== verification/NetworkConfigProofs.thy ===== *)
theory NetworkConfigProofs
  imports NetworkConfig
begin

text \<open>
  Saving and loading the network settings fit together: the update keeps the lines it does not own, and
  a parser of its result finds exactly the saved values. No descriptor is left open.
\<close>

section \<open>The text of an update\<close>

fun escaped :: "string \<Rightarrow> string" where
  "escaped [] = []"
| "escaped (c # v) = (if c = CHR 0x5C \<or> c = CHR 0x22 then [CHR 0x5C, c] else [c]) @ escaped v"

definition quoted :: "string \<Rightarrow> string" where
  "quoted v = CHR 0x22 # escaped v @ [CHR 0x22]"

function kept_lines :: "string \<Rightarrow> bool \<Rightarrow> string" where
  "kept_lines existing wifi_section =
     (if existing = [] then []
      else
        (let line = first_line existing; wifi_section = section_after line wifi_section
         in (if is_owned_line line wifi_section then [] else line @ line_end existing) @
            kept_lines (other_lines existing) wifi_section))"
  by pat_completeness auto

termination
  by (relation "measure (\<lambda>(existing, wifi_section). length existing)") auto

declare kept_lines.simps [simp del]

definition closing :: "string \<Rightarrow> string" where
  "closing used = (if used \<noteq> [] \<and> last used \<noteq> CHR 0x0A then [CHR 0x0A] else [])"

definition config_name :: "network_config \<Rightarrow> string" where
  "config_name config = (if nc_name config \<noteq> [] then nc_name config else NETWORK_CONFIG_DEFAULT_NAME)"

definition settings_block :: "network_config \<Rightarrow> string" where
  "settings_block config =
     CHR 0x0A # ''[wifi]'' @ CHR 0x0A # ''ssid='' @ quoted (nc_ssid config) @ CHR 0x0A #
     ''password='' @ quoted (nc_password config) @ CHR 0x0A # ''name='' @ quoted (config_name config) @ CHR 0x0A #
     (if nc_auto_connect config then ''auto_connect=true'' else ''auto_connect=false'') @ [CHR 0x0A]"

definition updated_text :: "string \<Rightarrow> network_config \<Rightarrow> string" where
  "updated_text existing config =
     (let used = ''version=1'' @ CHR 0x0A # kept_lines existing False
      in used @ closing used @ settings_block config)"

lemma append_bytes_eq: "append_bytes capacity bytes used = Some after \<Longrightarrow> after = used @ bytes"
  by (simp add: append_bytes_def split: if_splits)

lemma append_escaped_eq: "append_escaped capacity v used = Some after \<Longrightarrow> after = used @ escaped v"
proof (induction v arbitrary: used)
  case (Cons c v)
  then obtain a b where steps: "(if c = CHR 0x5C \<or> c = CHR 0x22 then append_bytes capacity [CHR 0x5C] used else Some used) = Some a"
    "append_bytes capacity [c] a = Some b" "append_escaped capacity v b = Some after"
    by (auto simp: bind_eq_Some_conv)
  have "a = used @ (if c = CHR 0x5C \<or> c = CHR 0x22 then [CHR 0x5C] else [])"
    using steps(1) append_bytes_eq by (auto split: if_splits)
  then show ?case
    using Cons.IH [OF steps(3)] append_bytes_eq [OF steps(2)] by auto
qed simp

lemma append_quoted_eq: "append_quoted capacity v used = Some after \<Longrightarrow> after = used @ quoted v @ [CHR 0x0A]"
  by (auto simp: append_quoted_def quoted_def bind_eq_Some_conv dest!: append_bytes_eq append_escaped_eq)

lemma append_lines_eq:
  "append_lines capacity existing wifi_section used = Some after \<Longrightarrow> after = used @ kept_lines existing wifi_section"
proof (induction capacity existing wifi_section used arbitrary: after rule: append_lines.induct)
  case (1 capacity existing wifi_section used)
  show ?case
  proof (cases "existing = []")
    case True
    then show ?thesis using 1(2) by (simp add: append_lines.simps kept_lines.simps)
  next
    case False
    define line w where "line = first_line existing" and "w = section_after line wifi_section"
    obtain mid where mid: "(if is_owned_line line w then Some used else append_bytes capacity (line @ line_end existing) used) =
        Some mid" "append_lines capacity (other_lines existing) w mid = Some after"
    proof -
      have "append_lines capacity existing wifi_section used =
          Option.bind (if is_owned_line line w then Some used else append_bytes capacity (line @ line_end existing) used)
            (append_lines capacity (other_lines existing) w)"
        using False by (subst append_lines.simps) (simp add: Let_def line_def w_def)
      from trans [OF this [symmetric] 1(2)] show ?thesis
        unfolding bind_eq_Some_conv using that by blast
    qed
    have "mid = used @ (if is_owned_line line w then [] else line @ line_end existing)"
      using mid(1) append_bytes_eq by (auto split: if_splits)
    moreover have "after = mid @ kept_lines (other_lines existing) w"
      by (rule 1(1) [OF False line_def w_def mid])
    ultimately show ?thesis
      using False by (subst kept_lines.simps) (simp add: Let_def line_def [symmetric] w_def [symmetric])
  qed
qed

lemma format_config_eq:
  assumes "format_config existing config capacity = Some formatted"
  shows "formatted = updated_text existing config" and "length formatted < capacity"
proof -
  have last: "(if used \<noteq> [] \<and> last used \<noteq> CHR 0x0A then append_bytes capacity [CHR 0x0A] used else Some used) = Some after
      \<Longrightarrow> after = used @ closing used" for used after
    using append_bytes_eq by (auto simp: closing_def split: if_splits)
  show "length formatted < capacity"
    using assms by (auto simp: format_config_def Let_def bind_eq_Some_conv split: if_splits)
  obtain u1 u2 u3 u4 u5 u6 u7 u8 u9 u10 where steps:
    "append_bytes capacity (''version=1'' @ [CHR 0x0A]) [] = Some u1"
    "append_lines capacity existing False u1 = Some u2"
    "(if u2 \<noteq> [] \<and> last u2 \<noteq> CHR 0x0A then append_bytes capacity [CHR 0x0A] u2 else Some u2) = Some u3"
    "append_bytes capacity (CHR 0x0A # ''[wifi]'' @ CHR 0x0A # ''ssid='') u3 = Some u4"
    "append_quoted capacity (nc_ssid config) u4 = Some u5"
    "append_bytes capacity ''password='' u5 = Some u6"
    "append_quoted capacity (nc_password config) u6 = Some u7"
    "append_bytes capacity ''name='' u7 = Some u8"
    "append_quoted capacity (config_name config) u8 = Some u9"
    "append_bytes capacity ((if nc_auto_connect config then ''auto_connect=true'' else ''auto_connect=false'') @
       [CHR 0x0A]) u9 = Some u10" "formatted = u10"
    using assms unfolding format_config_def Let_def bind_eq_Some_conv config_name_def [symmetric]
    by (elim exE conjE) (auto split: if_split_asm)
  show "formatted = updated_text existing config"
    using append_bytes_eq [OF steps(1)] append_lines_eq [OF steps(2)] last [OF steps(3)] append_bytes_eq [OF steps(4)]
      append_quoted_eq [OF steps(5)] append_bytes_eq [OF steps(6)] append_quoted_eq [OF steps(7)]
      append_bytes_eq [OF steps(8)] append_quoted_eq [OF steps(9)] append_bytes_eq [OF steps(10)] steps(11)
    by (simp add: updated_text_def settings_block_def Let_def)
qed

section \<open>Reading it back\<close>

lemma parse_quoted_escaped:
  "length used + length v < capacity \<Longrightarrow>
    parse_quoted_from capacity (escaped v @ [CHR 0x22]) used = Some (used @ v)"
  by (induction v arbitrary: used) auto

lemma parse_quoted_quoted: "length v < capacity \<Longrightarrow> parse_quoted (quoted v) capacity = Some v"
  using parse_quoted_escaped [of "[]" v capacity] by (auto simp: parse_quoted_def quoted_def)

lemma network_lines_Nil: "network_lines [] st = Some st"
  by (simp add: network_lines.simps)

lemma network_lines_line:
  assumes "CHR 0x0A \<notin> set line"
  shows "network_lines (line @ CHR 0x0A # rest) st = Option.bind (network_line line st) (network_lines rest)"
proof -
  have "line @ CHR 0x0A # rest \<noteq> []" by simp
  then show ?thesis
    by (subst network_lines.simps) (simp add: first_line_append [OF assms] split: option.split)
qed

lemma trim_space: "isspace c \<Longrightarrow> trim (xs @ [c]) = trim xs"
proof (cases "\<forall>x \<in> set xs. isspace x")
  case True
  moreover assume "isspace c"
  ultimately have all: "dropWhile isspace (xs @ [c]) = []" "dropWhile isspace xs = []" by auto
  then show ?thesis unfolding trim_def all by simp
next
  case False
  moreover assume "isspace c"
  ultimately show ?thesis by (auto simp: trim_def dropWhile_append)
qed

lemma trim_return: "trim (if line \<noteq> [] \<and> last line = CHR 0x0D then butlast line else line) = trim line"
proof (cases "line \<noteq> [] \<and> last line = CHR 0x0D")
  case True
  then have "line = butlast line @ [CHR 0x0D]" by (metis append_butlast_last_id)
  then have "trim line = trim (butlast line)"
    using trim_space [of "CHR 0x0D" "butlast line"] by (simp add: isspace_def)
  then show ?thesis using True by simp
qed auto

lemma trim_first: "\<not> isspace c \<Longrightarrow> \<exists>v. trim (c # cs) = c # v"
  by (rule exI [of _ "rev (dropWhile isspace (rev cs))"]) (auto simp: trim_def dropWhile_append)

lemma c_string_plain: "CHR 0x00 \<notin> set text \<Longrightarrow> c_string text = text"
  using split_at(3) [of "CHR 0x00" "text"] by (simp add: c_string_def)

lemma owned_no_section:
  assumes "is_owned_line line w" and "CHR 0x00 \<notin> set line"
  shows "trim line \<noteq> []" and "hd (trim line) \<noteq> CHR ''[''" and "section_after line v = v"
proof -
  have key: "key_of (trim line) \<in> set [''version'', ''ssid'', ''password'', ''name'', ''auto_connect'']"
    and equals: "CHR ''='' \<in> set (trim line)"
    using assms by (auto simp: is_owned_line_def Let_def c_string_plain split: if_splits)
  then show "trim line \<noteq> []" by auto
  show hd: "hd (trim line) \<noteq> CHR ''[''"
  proof
    assume "hd (trim line) = CHR ''[''"
    then obtain cs where "trim line = CHR ''['' # cs" using \<open>trim line \<noteq> []\<close> by (cases "trim line") auto
    then have "\<exists>v. key_of (trim line) = CHR ''['' # v"
      using trim_first [of "CHR ''[''" "takeWhile (\<lambda>c. c \<noteq> CHR ''='') cs"] by (simp add: key_of_def isspace_def)
    then show False using key by auto
  qed
  then show "section_after line v = v" using assms(2) by (simp add: section_after_def Let_def c_string_plain)
qed

lemma same_section: "st\<lparr>np_wifi_section := np_wifi_section st\<rparr> = (st :: network_parse)"
  by simp

lemma kept_line_effect:
  assumes "network_line line st0 = Some st1" and "CHR 0x00 \<notin> set line"
    and owned: "\<not> is_owned_line line (section_after line (np_wifi_section st))"
  shows "network_line line st = Some (st\<lparr>np_wifi_section := section_after line (np_wifi_section st)\<rparr>)"
proof -
  define l where "l = trim line"
  have line: "network_line line s =
      (if l = [] \<or> hd l = CHR ''#'' \<or> hd l = CHR '';'' then Some s
       else if hd l = CHR ''['' then
         (if length l < 3 \<or> last l \<noteq> CHR '']'' then None
          else Some (s\<lparr>np_wifi_section := (trim (tl (butlast l)) = ''wifi'')\<rparr>))
       else if CHR ''='' \<notin> set l then None
       else network_setting (key_of l) (value_of l) s)" for s
    by (simp only: network_line_def Let_def trim_return l_def)
  have sec: "section_after line w = (if 3 \<le> length l \<and> hd l = CHR ''['' \<and> last l = CHR '']''
      then trim (tl (butlast l)) = ''wifi'' else w)" for w
    using assms(2) by (simp add: section_after_def c_string_plain l_def Let_def)
  consider (comment) "l = [] \<or> hd l = CHR ''#'' \<or> hd l = CHR '';''" | (header) "l \<noteq> []" "hd l = CHR ''[''" "3 \<le> length l" "last l = CHR '']''"
    | (setting) "l \<noteq> []" "hd l \<noteq> CHR ''#''" "hd l \<noteq> CHR '';''" "hd l \<noteq> CHR ''[''" "CHR ''='' \<in> set l"
    using assms(1) unfolding line by (auto split: if_splits simp: not_less)
  then show ?thesis
  proof cases
    case comment
    then show ?thesis unfolding line sec by auto
  next
    case header
    then show ?thesis unfolding line sec by simp
  next
    case setting
    then have "section_after line w = w" for w by (simp add: sec)
    then have "network_setting (key_of l) (value_of l) st = Some st"
      using owned assms(2) setting(5)
      by (auto simp: network_setting_def is_owned_line_def Let_def c_string_plain l_def split: if_splits)
    then show ?thesis using setting \<open>\<And>w. section_after line w = w\<close> unfolding line by simp
  qed
qed

lemma closing_line: "closing (line @ CHR 0x0A # k) = closing k"
  by (simp add: closing_def)

lemma closing_Nil: "closing [] = []"
  by (simp add: closing_def)

lemma text_lines:
  assumes "existing \<noteq> []"
  obtains (complete) line rest where "existing = line @ CHR 0x0A # rest" "CHR 0x0A \<notin> set line" "first_line existing = line"
      "other_lines existing = rest" "line_end existing = [CHR 0x0A]"
    | (partial) "CHR 0x0A \<notin> set existing" "first_line existing = existing" "other_lines existing = []" "line_end existing = []"
proof (cases "CHR 0x0A \<in> set existing")
  case True
  then obtain line rest where "existing = line @ CHR 0x0A # rest" "CHR 0x0A \<notin> set line"
    using split_list_first by metis
  then show ?thesis using complete first_line_append(1,2) by (simp add: line_end_def)
next
  case False
  then show ?thesis using partial first_line_append(3,4) by (simp add: line_end_def)
qed

lemma kept_lines_step:
  "existing \<noteq> [] \<Longrightarrow> kept_lines existing w =
    (if is_owned_line (first_line existing) (section_after (first_line existing) w) then []
     else first_line existing @ line_end existing) @ kept_lines (other_lines existing) (section_after (first_line existing) w)"
  by (subst kept_lines.simps) (simp add: Let_def)

lemma kept_lines_Nil: "kept_lines [] w = []"
  by (simp add: kept_lines.simps)

lemma kept_lines_parse:
  assumes "network_lines existing st0 = Some st1" and "CHR 0x00 \<notin> set existing"
  shows "\<exists>w. network_lines (kept_lines existing (np_wifi_section st) @
      closing (kept_lines existing (np_wifi_section st)) @ tail) st = network_lines tail (st\<lparr>np_wifi_section := w\<rparr>)"
  using assms
proof (induction "length existing" arbitrary: existing st0 st rule: less_induct)
  case less
  show ?case
  proof (cases "existing = []")
    case True
    then show ?thesis by (intro exI [of _ "np_wifi_section st"]) (simp add: kept_lines_Nil closing_Nil)
  next
    case nonempty: False
    define line rest where "line = first_line existing" and "rest = other_lines existing"
    define w where "w = section_after line (np_wifi_section st)"
    define next_state where "next_state = st\<lparr>np_wifi_section := w\<rparr>"
    obtain sA where first: "network_line line st0 = Some sA" "network_lines rest sA = Some st1"
      using less.prems(1) nonempty
      by (subst (asm) network_lines.simps) (auto simp: line_def rest_def split: option.splits)
    have plain: "CHR 0x00 \<notin> set line"
      using less.prems(2) by (auto simp: line_def first_line_def dest: set_takeWhileD)
    have effect: "network_line line st = Some next_state" if "\<not> is_owned_line line w"
      using kept_line_effect [OF first(1) plain, of st] that by (simp add: w_def next_state_def)
    have owned: "next_state = st" if "is_owned_line line w"
      using owned_no_section(3) [OF that plain, of "np_wifi_section st"] by (simp add: next_state_def w_def)
    show ?thesis
      using nonempty
    proof (cases rule: text_lines)
      case (complete line' rest')
      have [simp]: "line' = line" "rest' = rest" using complete by (simp_all add: line_def rest_def)
      have "length rest < length existing" "CHR 0x00 \<notin> set rest" using complete(1) less.prems(2) by auto
      from less.hyps [OF this(1) first(2) this(2), of next_state]
      obtain w' where w': "network_lines (kept_lines rest w @ closing (kept_lines rest w) @ tail) next_state =
          network_lines tail (next_state\<lparr>np_wifi_section := w'\<rparr>)"
        by (auto simp: next_state_def)
      have kept: "kept_lines existing (np_wifi_section st) =
          (if is_owned_line line w then kept_lines rest w else line @ CHR 0x0A # kept_lines rest w)"
        using kept_lines_step [OF nonempty, of "np_wifi_section st"] complete(5)
        by (simp add: line_def [symmetric] rest_def [symmetric] w_def [symmetric])
      show ?thesis
      proof (cases "is_owned_line line w")
        case True
        then show ?thesis using w' owned [OF True] unfolding kept by auto
      next
        case False
        have "CHR 0x0A \<notin> set line" using complete(2) by simp
        then show ?thesis
          using False w' effect [OF False] unfolding kept
          by (intro exI [of _ w']) (simp add: closing_line network_lines_line next_state_def)
      qed
    next
      case partial
      have [simp]: "line = existing" "rest = []" using partial by (simp_all add: line_def rest_def)
      have kept: "kept_lines existing (np_wifi_section st) = (if is_owned_line line w then [] else existing)"
        using kept_lines_step [OF nonempty, of "np_wifi_section st"] partial
        by (simp add: w_def kept_lines_Nil)
      have "closing existing = [CHR 0x0A]"
        using nonempty partial(1) by (auto simp: closing_def) (metis last_in_set)
      then show ?thesis
        using effect owned partial(1) unfolding kept
        by (cases "is_owned_line line w")
          (auto simp: closing_Nil network_lines_line next_state_def intro: exI [of _ "np_wifi_section st"])
    qed
  qed
qed

section \<open>The block of an update\<close>

lemma escaped_plain:
  "CHR 0x0A \<notin> set v \<Longrightarrow> CHR 0x0A \<notin> set (quoted v)" "CHR 0x00 \<notin> set v \<Longrightarrow> CHR 0x00 \<notin> set (quoted v)"
  by (induction v) (auto simp: quoted_def)

lemma trim_quoted: "trim (quoted v) = quoted v"
  using trim_solid [of "CHR 0x22" "escaped v @ [CHR 0x22]"] by (simp add: quoted_def isspace_def)

text \<open>A line with a key of letters and a value that ends in a solid character.\<close>

lemma key_line:
  assumes key: "k \<noteq> []" "trim k = k" "hd k \<notin> set [CHR ''#'', CHR '';'', CHR ''['']" "\<not> isspace (hd k)" "CHR ''='' \<notin> set k"
    and v: "v \<noteq> []" "trim v = v" "\<not> isspace (last v)"
  shows "network_line (k @ CHR ''='' # v) st = network_setting k v st"
proof -
  obtain c cs where k: "k = c # cs" using key(1) by (cases k) auto
  have "trim (k @ CHR ''='' # v) = k @ CHR ''='' # v"
    using trim_solid [of c "cs @ CHR ''='' # v"] key(4) v by (simp add: k)
  moreover have "k @ CHR ''='' # v \<noteq> []" "hd (k @ CHR ''='' # v) = hd k" "CHR ''='' \<in> set (k @ CHR ''='' # v)"
    using key(1) by simp_all
  ultimately show ?thesis
    using key key_value_append [OF key(5), of v] v(2)
    unfolding network_line_def Let_def trim_return by simp
qed

lemma quoted_ends: "quoted v \<noteq> []" "\<not> isspace (last (quoted v))"
  by (simp_all add: quoted_def isspace_def)

definition storable :: "network_config \<Rightarrow> bool" where
  "storable config \<longleftrightarrow> nc_ssid config \<noteq> [] \<and> length (nc_ssid config) \<le> NETWORK_CONFIG_SSID_MAX \<and>
     length (nc_password config) \<le> NETWORK_CONFIG_PASSWORD_MAX \<and> valid_hostname (config_name config)"

definition written_state :: "network_config \<Rightarrow> network_parse \<Rightarrow> network_parse" where
  "written_state config st = st\<lparr>np_config := config\<lparr>nc_name := config_name config\<rparr>, np_wifi_section := True, np_ssid_seen := True\<rparr>"

lemma hostname_plain:
  assumes "valid_hostname v"
  shows "CHR 0x0A \<notin> set v" and "CHR 0x00 \<notin> set v" and "length v < NETWORK_CONFIG_NAME_MAX + 1"
  using assms by (auto simp: valid_hostname_def list_all_iff isalnum_def)

lemma settings_block_parse:
  assumes "storable config" and "CHR 0x0A \<notin> set (nc_ssid config)" "CHR 0x0A \<notin> set (nc_password config)"
  shows "network_lines (settings_block config) st = Some (written_state config st)"
proof -
  define w where "w = st\<lparr>np_wifi_section := True\<rparr>"
  have blank: "network_line [] st = Some st" by (simp add: network_line_def)
  have header: "network_line ''[wifi]'' st = Some w"
  proof -
    have "trim ''[wifi]'' = ''[wifi]''" "trim (tl (butlast ''[wifi]'')) = ''wifi''" by code_simp+
    then show ?thesis by (simp add: network_line_def Let_def w_def)
  qed
  have keys: "k \<noteq> []" "trim k = k" "hd k \<notin> set [CHR ''#'', CHR '';'', CHR ''['']" "\<not> isspace (hd k)" "CHR ''='' \<notin> set k"
    if "k \<in> set [''ssid'', ''password'', ''name'', ''auto_connect'']" for k
  proof -
    have "list_all (\<lambda>k. k \<noteq> [] \<and> trim k = k \<and> hd k \<notin> set [CHR ''#'', CHR '';'', CHR ''[''] \<and> \<not> isspace (hd k) \<and>
        CHR ''='' \<notin> set k) [''ssid'', ''password'', ''name'', ''auto_connect'']" by code_simp
    then show "k \<noteq> []" "trim k = k" "hd k \<notin> set [CHR ''#'', CHR '';'', CHR ''['']" "\<not> isspace (hd k)" "CHR ''='' \<notin> set k"
      using that unfolding list_all_iff by blast+
  qed
  have setting: "network_line (k @ CHR ''='' # quoted v) s = network_setting k (quoted v) s"
    if "k \<in> set [''ssid'', ''password'', ''name'', ''auto_connect'']" for k v s
    by (rule key_line [OF keys [OF that] quoted_ends(1) trim_quoted quoted_ends(2)])
  have boolean: "trim ''true'' = ''true''" "trim ''false'' = ''false''" by code_simp+
  have auto_connect: "network_line (''auto_connect'' @ CHR ''='' # (if b then ''true'' else ''false'')) s =
      network_setting ''auto_connect'' (if b then ''true'' else ''false'') s" for b s
    by (rule key_line [OF keys]) (simp_all add: boolean isspace_def)
  note quotes = parse_quoted_quoted [of "nc_ssid config" "NETWORK_CONFIG_SSID_MAX + 1"]
    parse_quoted_quoted [of "nc_password config" "NETWORK_CONFIG_PASSWORD_MAX + 1"]
    parse_quoted_quoted [of "config_name config" "NETWORK_CONFIG_NAME_MAX + 1"]
  define s1 where "s1 = w\<lparr>np_config := np_config w\<lparr>nc_ssid := nc_ssid config\<rparr>, np_ssid_seen := True\<rparr>"
  define s2 where "s2 = s1\<lparr>np_config := np_config s1\<lparr>nc_password := nc_password config\<rparr>\<rparr>"
  define s3 where "s3 = s2\<lparr>np_config := np_config s2\<lparr>nc_name := config_name config\<rparr>\<rparr>"
  define s4 where "s4 = s3\<lparr>np_config := np_config s3\<lparr>nc_auto_connect := nc_auto_connect config\<rparr>\<rparr>"
  have wifi: "np_wifi_section w" "np_wifi_section s1" "np_wifi_section s2" "np_wifi_section s3"
    by (simp_all add: w_def s1_def s2_def s3_def)
  have steps: "network_line (''ssid'' @ CHR ''='' # quoted (nc_ssid config)) w = Some s1"
    "network_line (''password'' @ CHR ''='' # quoted (nc_password config)) s1 = Some s2"
    "network_line (''name'' @ CHR ''='' # quoted (config_name config)) s2 = Some s3"
    using assms(1) quotes wifi hostname_plain(3) [of "config_name config"]
    by (simp_all only: setting list.set_intros list.set insert_iff simp_thms)
      (simp_all add: network_setting_def Let_def storable_def s1_def s2_def s3_def)
  have step4: "network_line (''auto_connect'' @ CHR ''='' # (if nc_auto_connect config then ''true'' else ''false'')) s3 = Some s4"
    unfolding auto_connect using wifi by (simp add: network_setting_def Let_def parse_boolean_def s4_def)
  have block: "settings_block config = [] @ CHR 0x0A # ''[wifi]'' @ CHR 0x0A #
      (''ssid'' @ CHR ''='' # quoted (nc_ssid config)) @ CHR 0x0A #
      (''password'' @ CHR ''='' # quoted (nc_password config)) @ CHR 0x0A #
      (''name'' @ CHR ''='' # quoted (config_name config)) @ CHR 0x0A #
      (''auto_connect'' @ CHR ''='' # (if nc_auto_connect config then ''true'' else ''false'')) @ CHR 0x0A # []"
    by (simp add: settings_block_def)
  have plain: "CHR 0x0A \<notin> set []" "CHR 0x0A \<notin> set ''[wifi]''" "CHR 0x0A \<notin> set (''ssid'' @ CHR ''='' # quoted (nc_ssid config))"
    "CHR 0x0A \<notin> set (''password'' @ CHR ''='' # quoted (nc_password config))"
    "CHR 0x0A \<notin> set (''name'' @ CHR ''='' # quoted (config_name config))"
    "CHR 0x0A \<notin> set (''auto_connect'' @ CHR ''='' # (if nc_auto_connect config then ''true'' else ''false''))"
    using escaped_plain(1) assms hostname_plain(1) [of "config_name config"] by (simp_all add: storable_def)
  have "network_lines (settings_block config) st = Some s4"
    unfolding block network_lines_line [OF plain(1)] network_lines_line [OF plain(2)] network_lines_line [OF plain(3)]
      network_lines_line [OF plain(4)] network_lines_line [OF plain(5)] network_lines_line [OF plain(6)]
      blank header steps step4 Option.bind.simps network_lines_Nil by (rule refl)
  moreover have "s4 = written_state config st"
    by (simp add: s4_def s3_def s2_def s1_def w_def written_state_def)
  ultimately show ?thesis by simp
qed

section \<open>Descriptors\<close>

lemma same_descriptors_refl: "same_descriptors fs fs"
  by (simp add: same_descriptors_def)

lemma same_descriptors_trans: "same_descriptors a b \<Longrightarrow> same_descriptors b c \<Longrightarrow> same_descriptors a c"
  by (simp add: same_descriptors_def)

lemma same_files: "fs_files fs' = fs_files fs \<Longrightarrow> same_descriptors fs fs'"
  by (simp add: same_descriptors_def)

lemma unlink_same: "same_descriptors fs (snd (tabos_fs_unlink ops path fs))"
  using fs_step_files_same [of "Op_unlink path" ops fs] by (intro same_files) simp

lemma mkdir_same: "same_descriptors fs (snd (tabos_fs_mkdir ops path mode fs))"
  using fs_step_files_same [of "Op_mkdir path mode" ops fs] by (intro same_files) simp

lemma rename_same:
  "same_descriptors fs (snd (tabos_fs_rename ops old_path new_path fs))"
proof (cases rule: tabos_fs_rename_cases [of ops old_path new_path fs])
  case (fail e p)
  then show ?thesis by (intro same_files) simp
next
  case (renamed old_resolved new_resolved p)
  define files where "files = map (rename_slot (fallback_device_id (c_char old_resolved 0)) (fallback_file_id old_resolved)
    (fallback_file_id new_resolved)) (fs_files fs)"
  have slot: "f_open (rename_slot d a b s) = f_open s" "f_generation (rename_slot d a b s) = f_generation s" for d a b s
    by (simp_all add: rename_slot_def)
  have nth: "f_open (files ! i) = f_open (fs_files fs ! i)" "f_generation (files ! i) = f_generation (fs_files fs ! i)"
    if "i < length (fs_files fs)" for i
    using that by (simp_all add: files_def slot)
  have "map f_open files = map f_open (fs_files fs)" by (simp add: files_def slot)
  moreover have "file_for_descriptor files d = Some j" if "file_for_descriptor (fs_files fs) d = Some j" for d j
  proof -
    have "j < length (fs_files fs)" using file_for_descriptor_open [OF that] by blast
    moreover have "length files = length (fs_files fs)" by (simp add: files_def)
    ultimately show ?thesis
      using that nth [of j] by (auto simp: file_for_descriptor_def Let_def split: if_splits)
  qed
  ultimately show ?thesis using renamed(4) by (simp add: same_descriptors_def files_def)
qed


lemma read_config_wf: "fs_wf fs \<Longrightarrow> fs_wf (snd (read_config ops descriptor capacity used data fs))"
proof (induction ops descriptor capacity used data fs rule: read_config.induct)
  case (1 ops descriptor capacity used data fs)
  obtain count bytes fs' where r: "tabos_fs_read ops descriptor True (capacity - used) fs = (count, bytes, fs')"
    using prod_cases3 by blast
  have "fs_wf fs'"
    using fs_step_wf [OF 1(2), of "Op_read descriptor True (capacity - used)" ops] r by simp
  then show ?case
    using 1 r by (subst read_config.simps) auto
qed

lemma path_plain: "CHR 0x00 \<notin> set NETWORK_CONFIG_PATH" "CHR 0x00 \<notin> set NETWORK_CONFIG_TEMP_PATH" "CHR 0x00 \<notin> set ''T:/etc''"
  by (simp_all add: NETWORK_CONFIG_PATH_def NETWORK_CONFIG_TEMP_PATH_def)

lemma read_existing_spec:
  assumes "fs_wf fs"
  shows "same_descriptors fs (snd (read_existing ops fs)) \<and> fs_wf (snd (read_existing ops fs))"
proof -
  obtain descriptor opened where result: "tabos_fs_open ops (Some NETWORK_CONFIG_PATH) 0 0 fs = (descriptor, opened)"
    by fastforce
  obtain contents fs1 where read: "read_config ops descriptor (NETWORK_CONFIG_FILE_MAX + 1) 0 [] opened = (contents, fs1)"
    by fastforce
  obtain closed fs2 where close: "tabos_fs_close ops descriptor fs1 = (closed, fs2)" by fastforce
  have wf: "fs_wf opened"
    using fs_step_wf [OF assms, of "Op_open (Some NETWORK_CONFIG_PATH) 0 0" ops] result path_plain by simp
  then have "fs_wf fs1" using read_config_wf [of opened ops descriptor "NETWORK_CONFIG_FILE_MAX + 1" 0 "[]"] read by simp
  then have wf2: "fs_wf fs2" using fs_step_wf [of fs1 "Op_close descriptor" ops] close by simp
  have files: "fs_files fs1 = fs_files opened"
    using read_config_files [of ops descriptor "NETWORK_CONFIG_FILE_MAX + 1" 0 "[]" opened] read by simp
  have same: "same_descriptors fs opened" if "descriptor < 0"
    using tabos_fs_open_failed [OF assms result that] by (rule same_files)
  have released: "same_descriptors fs fs2" if "0 \<le> descriptor"
    using descriptor_released [OF assms result that files] close by simp
  have "snd (read_existing ops fs) = (if descriptor < 0 then opened else fs2)"
    using close by (auto simp: read_existing_def result read [unfolded Suc_eq_plus1 [symmetric]] split: option.split)
  then show ?thesis using same released wf wf2 by auto
qed

lemma replace_config_same:
  assumes "fs_wf fs"
  shows "same_descriptors fs (snd (replace_config ops formatted fs))"
proof -
  define flags where "flags = TABOS_O_WRONLY + TABOS_O_CREAT + TABOS_O_TRUNC"
  obtain descriptor opened where result: "tabos_fs_open ops (Some NETWORK_CONFIG_TEMP_PATH) flags 0x180 fs = (descriptor, opened)"
    by fastforce
  obtain written fs1 where wrote: "tabos_fs_write ops descriptor (Some (bytes_of_text formatted)) (length formatted) opened =
      (written, fs1)" by fastforce
  obtain closed fs2 where close: "tabos_fs_close ops descriptor fs1 = (closed, fs2)" by fastforce
  have files: "fs_files fs1 = fs_files opened"
    using fs_step_files_same [of "Op_write descriptor (Some (bytes_of_text formatted)) (length formatted)" ops opened] wrote
    by simp
  show ?thesis
  proof (cases "descriptor < 0")
    case True
    then show ?thesis
      using tabos_fs_open_failed [OF assms result True] by (auto simp: replace_config_def result flags_def [symmetric] intro: same_files)
  next
    case False
    then have first: "same_descriptors fs fs2"
      using descriptor_released [OF assms result _ files] close by simp
    define fs3 where "fs3 = snd (tabos_fs_rename ops (Some NETWORK_CONFIG_TEMP_PATH) (Some NETWORK_CONFIG_PATH) fs2)"
    have "same_descriptors fs2 fs3" unfolding fs3_def by (rule rename_same)
    then have "same_descriptors fs fs3" "same_descriptors fs (snd (tabos_fs_unlink ops p fs2))"
      "same_descriptors fs (snd (tabos_fs_unlink ops p fs3))" for p
      using first same_descriptors_trans unlink_same by blast+
    moreover have "snd (replace_config ops formatted fs) \<in>
        {fs3, snd (tabos_fs_unlink ops (Some NETWORK_CONFIG_TEMP_PATH) fs2), snd (tabos_fs_unlink ops (Some NETWORK_CONFIG_TEMP_PATH) fs3)}"
      using False by (auto simp: replace_config_def flags_def [symmetric] result wrote close fs3_def split: prod.split)
    ultimately show ?thesis by auto
  qed
qed

section \<open>Properties\<close>

text \<open>
  C12. What is saved is what is loaded: the text that the update makes of a readable file, or of none, is
  accepted by the parser and gives exactly the settings that were saved, whatever else the file holds.
  The strings have no NUL, as C strings do, and neither SSID nor password contains a line break.
\<close>

theorem network_config_roundtrip:
  assumes "network_config_format_update existing (Some config) True capacity = (NETWORK_CONFIG_OK, Some formatted)"
    and "capacity \<le> NETWORK_CONFIG_FILE_MAX + 1"
    and "existing = None \<or> existing = Some [] \<or> fst (network_config_parse existing True) = NETWORK_CONFIG_OK"
    and "CHR 0x00 \<notin> set (case existing of None \<Rightarrow> [] | Some t \<Rightarrow> t)"
    and "{CHR 0x00, CHR 0x0A} \<inter> (set (nc_ssid config) \<union> set (nc_password config)) = {}"
  shows "network_config_parse (Some formatted) True = (NETWORK_CONFIG_OK, Some (config\<lparr>nc_name := config_name config\<rparr>))"
proof -
  define old where "old = (case existing of None \<Rightarrow> [] | Some t \<Rightarrow> t)"
  have default: "valid_hostname NETWORK_CONFIG_DEFAULT_NAME" by code_simp
  have formatted: "format_config old config capacity = Some formatted" and storable: "storable config"
    using assms(1) default
    by (auto simp: network_config_format_update_def old_def storable_def config_name_def split: if_splits option.splits)
  note eq = format_config_eq [OF formatted]
  obtain st0 st1 where readable: "network_lines old st0 = Some st1"
  proof (cases "old = []")
    case True
    then show ?thesis using that network_lines_Nil by blast
  next
    case False
    then obtain t where t: "existing = Some t" "old = t" by (cases existing) (auto simp: old_def)
    then have "network_lines old network_parse_start \<noteq> None"
      using assms(3,4) False c_string_plain [of t]
      by (auto simp: network_config_parse_def split: if_splits option.splits)
    then show ?thesis using that by blast
  qed
  define st where "st = network_parse_start\<lparr>np_version_seen := True\<rparr>"
  have version: "network_line ''version=1'' network_parse_start = Some st" unfolding st_def by code_simp
  have plain: "CHR 0x0A \<notin> set ''version=1''" by simp
  define k where "k = kept_lines old False"
  have close: "closing (''version=1'' @ CHR 0x0A # k) = closing k" by (rule closing_line)
  have outside: "np_wifi_section st = False" by (simp add: st_def network_parse_start_def)
  obtain w where "network_lines (k @ closing k @ settings_block config) st =
      network_lines (settings_block config) (st\<lparr>np_wifi_section := w\<rparr>)"
    using kept_lines_parse [OF readable, of st "settings_block config"] assms(4)
    unfolding outside k_def old_def by blast
  moreover have "network_lines (settings_block config) (st\<lparr>np_wifi_section := w\<rparr>) =
      Some (written_state config (st\<lparr>np_wifi_section := w\<rparr>))"
    by (rule settings_block_parse [OF storable]) (use assms(5) in auto)
  moreover have "formatted = ''version=1'' @ CHR 0x0A # (k @ closing k @ settings_block config)"
    unfolding eq(1) updated_text_def Let_def k_def [symmetric] close by simp
  ultimately have parsed: "network_lines formatted network_parse_start = Some (written_state config (st\<lparr>np_wifi_section := w\<rparr>))"
    using network_lines_line [OF plain, of "k @ closing k @ settings_block config" network_parse_start] version by simp
  have "CHR 0x00 \<notin> set formatted"
  proof -
    have "set (kept_lines t v) \<subseteq> set t \<union> {CHR 0x0A}" for t v
    proof (induction t v rule: kept_lines.induct)
      case (1 t v)
      show ?case
      proof (cases "t = []")
        case False
        have "set (other_lines t) \<subseteq> set t" "set (first_line t) \<subseteq> set t" "set (line_end t) \<subseteq> {CHR 0x0A}"
          by (auto simp: other_lines_def first_line_def line_end_def dest: in_set_dropD set_takeWhileD)
        then show ?thesis
          using 1 [OF False refl refl] by (subst kept_lines_step [OF False]) auto
      qed (simp add: kept_lines_Nil)
    qed
    then have "CHR 0x00 \<notin> set k" using assms(4) unfolding k_def old_def by blast
    moreover have "CHR 0x00 \<notin> set (settings_block config)"
      using escaped_plain(2) hostname_plain(2) [of "config_name config"] storable assms(5)
      by (auto simp: settings_block_def storable_def)
    ultimately show ?thesis unfolding eq(1) updated_text_def Let_def k_def [symmetric] by (auto simp: closing_def)
  qed
  then show ?thesis
    using parsed eq(2) assms(2) c_string_plain [of formatted]
    by (simp add: network_config_parse_def written_state_def st_def)
qed

definition demo_config :: network_config where
  "demo_config = \<lparr>nc_ssid = [CHR ''a'', CHR 0x22, CHR ''b''], nc_password = [CHR 0x5C], nc_name = [], nc_auto_connect = False\<rparr>"

definition demo_file :: string where
  "demo_file = ''version=1'' @ CHR 0x0A # ''[wifi]'' @ CHR 0x0A # ''ssid='' @ CHR 0x22 # CHR ''x'' # CHR 0x22 # CHR 0x0A # ''other=1''"

lemma demo_update:
  "network_config_format_update (Some demo_file) (Some demo_config) True 4097 =
    (NETWORK_CONFIG_OK, Some (updated_text demo_file demo_config))"
  "fst (network_config_parse (Some demo_file) True) = NETWORK_CONFIG_OK"
  "CHR 0x00 \<notin> set demo_file"
  by code_simp+

theorem network_config_roundtrip_witness:
  "network_config_parse (Some (updated_text demo_file demo_config)) True =
    (NETWORK_CONFIG_OK, Some \<lparr>nc_ssid = [CHR ''a'', CHR 0x22, CHR ''b''], nc_password = [CHR 0x5C], nc_name = ''TabOS'', nc_auto_connect = False\<rparr>)"
  using network_config_roundtrip [OF demo_update(1)] demo_update(2,3)
  by (simp add: NETWORK_CONFIG_FILE_MAX_def demo_config_def config_name_def NETWORK_CONFIG_DEFAULT_NAME_def)

text \<open>
  Loading and saving the network settings leave no descriptor behind, whatever the storage answers and
  wherever the operation fails, and disturb no other open file.
\<close>

theorem network_config_closes:
  assumes "fs_wf fs"
  shows "same_descriptors fs (snd (network_config_load ops malloc output fs)) \<and>
    same_descriptors fs (snd (network_config_save ops config fs))"
proof
  obtain descriptor opened where result: "tabos_fs_open ops (Some NETWORK_CONFIG_PATH) 0 0 fs = (descriptor, opened)"
    by fastforce
  obtain contents fs1 where read: "read_config ops descriptor (NETWORK_CONFIG_FILE_MAX + 1) 0 [] opened = (contents, fs1)"
    by fastforce
  obtain closed fs2 where close: "tabos_fs_close ops descriptor fs1 = (closed, fs2)" by fastforce
  have files: "fs_files fs1 = fs_files opened"
    using read_config_files [of ops descriptor "NETWORK_CONFIG_FILE_MAX + 1" 0 "[]" opened] read by simp
  have "same_descriptors fs opened" if "descriptor < 0"
    using tabos_fs_open_failed [OF assms result that] by (rule same_files)
  moreover have "same_descriptors fs (snd (tabos_fs_close ops descriptor opened))" "same_descriptors fs fs2" if "0 \<le> descriptor"
    using descriptor_released [OF assms result that refl] descriptor_released [OF assms result that files] close by simp_all
  ultimately show "same_descriptors fs (snd (network_config_load ops malloc output fs))"
    using same_descriptors_refl [of fs] close
    by (auto simp: network_config_load_def result read [unfolded Suc_eq_plus1 [symmetric]] split: option.split)
next
  obtain r old fs1 where existing: "read_existing ops fs = ((r, old), fs1)" using prod_cases3 by (metis prod.collapse)
  have first: "same_descriptors fs fs1" "fs_wf fs1" using read_existing_spec [OF assms, of ops] existing by simp_all
  define fs2 where "fs2 = snd (tabos_fs_mkdir ops (Some ''T:/etc'') 0x1ED fs1)"
  have second: "same_descriptors fs fs2" "fs_wf fs2"
    using same_descriptors_trans [OF first(1) mkdir_same] fs_step_wf [OF first(2), of "Op_mkdir (Some ''T:/etc'') 0x1ED" ops]
      path_plain(3) by (simp_all add: fs2_def)
  have third: "same_descriptors fs (snd (replace_config ops formatted fs2))" for formatted
    using same_descriptors_trans [OF second(1) replace_config_same [OF second(2)]] .
  have "snd (network_config_save ops config fs) \<in> {fs, fs1, fs2} \<union> range (\<lambda>formatted. snd (replace_config ops formatted fs2))"
    by (auto simp: network_config_save_def existing fs2_def split: prod.split)
  then show "same_descriptors fs (snd (network_config_save ops config fs))"
    using same_descriptors_refl first(1) second(1) third by auto
qed

theorem network_config_closes_witness:
  "same_descriptors demo_fs (snd (network_config_save demo_storage (Some demo_config) demo_fs))"
  using network_config_closes [OF demo_fs_wf] by blast

text \<open>Every save writes its section header anew and keeps the old ones, so the file grows until it is too large.\<close>

lemma network_config_grows:
  "length (updated_text (updated_text [] demo_config) demo_config) = length (updated_text [] demo_config) + 8"
  by code_simp

text \<open>An SSID with a line break is saved, but the file that results cannot be loaded.\<close>

lemma network_config_line_break:
  "network_config_format_update None (Some (demo_config\<lparr>nc_ssid := [CHR ''a'', CHR 0x0A]\<rparr>)) True 4097 =
     (NETWORK_CONFIG_OK, Some (updated_text [] (demo_config\<lparr>nc_ssid := [CHR ''a'', CHR 0x0A]\<rparr>)))"
  "network_config_parse (Some (updated_text [] (demo_config\<lparr>nc_ssid := [CHR ''a'', CHR 0x0A]\<rparr>))) True =
     (NETWORK_CONFIG_INVALID, None)"
  by code_simp+

end
