(* ===== verification/Spec2Isabelle.thy ===== *)
theory Spec2Isabelle
  imports TabPrelude TimeCore WallClock Paths HandleTable RingBuffer Filesystem FilesystemProofs
    InputQueue Pointer Devices Raster Font Terminal TerminalProofs Console PowerManager PowerOrder PowerProofs PowerDisplay
    Applications ElfObject Process ProcessFrame ProcessReturn ConsoleSession ProcessChain ProcessLaunch ProcessInvariant ProcessRun
    ElfLoader ElfLoaderProofs ElfLoaderImage ConfigText PowerConfig NetworkConfig NetworkConfigProofs
begin

text \<open>
  TabOS, a small operating system for a tablet: a verification library of its kernel services.

  The program. The kernel (\<^verbatim>\<open>src/kernel\<close>, \<^verbatim>\<open>src/process\<close>) starts a set of services, each one C file
  with static state, and runs one foreground application at a time: processes launch children and wait for
  them, so the running ones form a chain. Applications reach the services
  through handles: file descriptors (\<^verbatim>\<open>src/fs\<close>), console sessions (\<^verbatim>\<open>src/console\<close>), pointer streams
  (\<^verbatim>\<open>src/pointer\<close>) and device subscriptions (\<^verbatim>\<open>src/kernel/device_registry.c\<close>). Keyboard events go
  through the queue of \<^verbatim>\<open>src/input\<close>, which the console hands to the session in the foreground; what
  that session writes goes to the terminal of \<^verbatim>\<open>src/graphics/terminal.c\<close>, which draws with
  \<^verbatim>\<open>font.c\<close> and \<^verbatim>\<open>raster.c\<close> into the frame buffer. The power service (\<^verbatim>\<open>src/kernel/power.c\<close>) dims
  and stops the display when nobody uses it and suspends the registered participants. Below the services are the platform backends of
  \<^verbatim>\<open>src/platform\<close>; what the services use of them is an argument of the models.

  The theories, in the order they build on each other:

  \<^item> \<^verbatim>\<open>TabPrelude\<close>: integer types, error numbers, the log of calls into the platform, and the
    lemmas on words, lists and in-place updates that the others share.
  \<^item> \<^verbatim>\<open>TimeCore\<close> (\<^verbatim>\<open>src/time/time.c\<close>): saturating deadlines and the timer object. A periodic
    deadline keeps its cadence; a timer fires once per clock value.
  \<^item> \<^verbatim>\<open>WallClock\<close> (\<^verbatim>\<open>src/time/wall_clock.c\<close>): calendar dates and epoch seconds; the two conversions
    are inverse to each other on the supported range.
  \<^item> \<^verbatim>\<open>Paths\<close> (\<^verbatim>\<open>src/fs/path.c\<close>): the in-place path normaliser computes a stack of components; its
    results are canonical and normalise to themselves.
  \<^item> \<^verbatim>\<open>HandleTable\<close>: the interface of a table of slots with generations (locale \<^verbatim>\<open>handle_table\<close>).
    Closed handles stay invalid until the generation of their slot comes round again. It is
    interpreted on the file and directory tables and on the pointer streams.
  \<^item> \<^verbatim>\<open>RingBuffer\<close>: the interfaces of a bounded queue (locales \<^verbatim>\<open>fifo_queue\<close> and
    \<^verbatim>\<open>dropping_queue\<close>), interpreted on the input queue, the pointer queues and the device event
    queues.
  \<^item> \<^verbatim>\<open>Filesystem\<close> and \<^verbatim>\<open>FilesystemProofs\<close> (\<^verbatim>\<open>src/fs/filesystem.c\<close>): descriptors, directories, the
    working directory and the identity of files over a storage backend that is a parameter
    (\<^verbatim>\<open>storage_ops\<close>). The backend sees canonical paths only; stale descriptors are refused; open,
    rename and shutdown do what they promise.
  \<^item> \<^verbatim>\<open>InputQueue\<close> (\<^verbatim>\<open>src/input/input.c\<close>): the event queue, key repeat and the record of held keys.
  \<^item> \<^verbatim>\<open>Pointer\<close> (\<^verbatim>\<open>src/pointer/pointer.c\<close>): touch streams per owner, their contacts and the foreground
    owner.
  \<^item> \<^verbatim>\<open>Devices\<close> (\<^verbatim>\<open>src/kernel/device_registry.c\<close>): the directory of devices, their identifiers and the
    event subscriptions.
  \<^item> \<^verbatim>\<open>Raster\<close> (\<^verbatim>\<open>src/graphics/raster.c\<close>) and \<^verbatim>\<open>Font\<close> (\<^verbatim>\<open>src/graphics/font.c\<close>): fills, blits and glyphs, pixel
    by pixel. The optimised loops draw what a per-pixel definition draws and touch nothing else.
  \<^item> \<^verbatim>\<open>Terminal\<close> and \<^verbatim>\<open>TerminalProofs\<close> (\<^verbatim>\<open>src/graphics/terminal.c\<close>): the character grid with
    scrollback, its escape sequences and its renderer. The invariant covers every operation; plain
    text is stored without loss and reflowed by a resize; a stream may be split into writes
    anywhere; a terminal with rendering off touches no pixel.
  \<^item> \<^verbatim>\<open>Console\<close> (\<^verbatim>\<open>src/console/console.c\<close>): the foreground session, composed from the terminal, the
    input queue and the cursor timer. At most one session is in the foreground and only it can do
    anything; graphics mode leaves the screen alone; the console changes hands clean.
  \<^item> \<^verbatim>\<open>PowerManager\<close>, \<^verbatim>\<open>PowerOrder\<close>, \<^verbatim>\<open>PowerProofs\<close> and \<^verbatim>\<open>PowerDisplay\<close>
    (\<^verbatim>\<open>src/kernel/power.c\<close>): the model of the power manager (idle stages of the display, suspension of
    participants, roll-back), the search that orders the participants, the order in which callbacks
    suspend and resume them, and the display. The search succeeds exactly on graphs without a
    cycle; no participant is suspended before those that depend on it; the driving loop comes to
    rest; the screen is never lit before the display has been resumed.

  \<^item> \<^verbatim>\<open>Applications\<close> and \<^verbatim>\<open>ElfObject\<close> (\<^verbatim>\<open>src/kernel/application_registry.c\<close>,
    \<^verbatim>\<open>src/loader/elf_application.c\<close>): descriptors and the registry, the process table, the object of an
    ELF application with its creation and the release of what it holds, and the environment: the
    code of the applications as programs that call the kernel and go on with its answers.
  \<^item> \<^verbatim>\<open>Process\<close> (\<^verbatim>\<open>src/process/process.c\<close> and the callbacks of \<^verbatim>\<open>elf_application.c\<close>): every operation of
    the process service, composed with the console and the pointer service, the callbacks that
    call back into it, and the operations of the runtime as one step function.
  \<^item> \<^verbatim>\<open>ProcessFrame\<close> and \<^verbatim>\<open>ProcessReturn\<close>: what calls that start no process leave alone, and that every
    operation returns although callbacks nest.
  \<^item> \<^verbatim>\<open>ConsoleSession\<close>: the interface of a resource with one holder (locale
    \<^verbatim>\<open>exclusive_session\<close>), interpreted on the console.
  \<^item> \<^verbatim>\<open>ProcessChain\<close>, \<^verbatim>\<open>ProcessLaunch\<close>, \<^verbatim>\<open>ProcessInvariant\<close> and \<^verbatim>\<open>ProcessRun\<close>: the abstract chain of
    processes and what each operation does to it: launching appends, finishing drops the last,
    shutdown empties it. The last theory has the properties: the chain in every reachable state,
    failed launches without a trace, the exit status for the parent, shutdown, panics.
  \<^item> \<^verbatim>\<open>ElfLoader\<close>, \<^verbatim>\<open>ElfLoaderProofs\<close> and \<^verbatim>\<open>ElfLoaderImage\<close> (\<^verbatim>\<open>src/loader/elf_loader.c\<close>): checking,
    loading and relocating program files. Memory is a list of bytes and an access outside of it is
    \<^const>\<open>None\<close>, so the theorems that a result exists say that no file, however malformed, makes
    the loader leave its bounds; accepted files, the loaded image and relocated instructions have
    specifications of their own, and failures keep neither memory nor descriptors.
  \<^item> \<^verbatim>\<open>ConfigText\<close>, \<^verbatim>\<open>PowerConfig\<close> (\<^verbatim>\<open>src/kernel/power_config.c\<close>), \<^verbatim>\<open>NetworkConfig\<close> and
    \<^verbatim>\<open>NetworkConfigProofs\<close> (\<^verbatim>\<open>src/net/config.c\<close>): the settings files. Lines are parsed one by one into a
    record of what was seen. The power manager starts with every policy that loads, every sensible choice of
    display settings can be written down, and network settings that are saved load unchanged.

  State and operations. The static variables of a C file are one record; each function is one
  definition of the same name that takes the state and returns it, with its result first. Pointers
  that may be null are options; error returns are negative numbers, booleans or \<^const>\<open>None\<close> as in the
  code. Mutexes guard whole functions, so an operation is one step, and a blocking wait is a
  recursion over the steps the rest of the system takes meanwhile. Integers whose wrap-around
  matters (generations, tokens, timestamps) are words; sizes, indices and line numbers are \<^typ>\<open>nat\<close>
  and \<^typ>\<open>int\<close> and the invariants show that the code's unsigned subtractions do not wrap.

  Bounds. Every loop of the modelled code is bounded, so the models are total functions: recursion
  on lists and ranges, or with a measure (path components, runs of pixels). Waits for events are the
  only loops that need not end; their models return \<^const>\<open>None\<close> while the caller is still waiting.
  Capacities are those of the code (64 key events, 32 device events, 256 lines of scrollback, 8192
  bytes of capture), the configured sizes those of the default build. The search of the power manager
  is given a depth of 17, one more than its 16 participants, which a path without repetition cannot
  exceed; its driving loop has the 40 turns of the code, of which at most 34 are used.
  Callbacks of applications nest at most 17 deep, because each level below the first belongs to a
  process of its own and there are 16 slots; \<^verbatim>\<open>process_calls_return\<close> shows that this is enough.

  Applications. A native application is a finite program; which one a callback runs may depend on the
  whole state. For the invariant it must obey \<^verbatim>\<open>well_behaved\<close>: a clean-up callback launches nothing, and
  an entry callback that launches a child then succeeds and does not ask for its own exit. Without
  these rules the foreground stack of the code goes wrong. ELF programs are under no rule. The field
  \<^verbatim>\<open>launched\<close> counts launches; no operation reads it, it bounds the runs in which the 32-bit process
  identifiers cannot have wrapped around. Of the call table of ELF programs the console output, the
  terminal mode, the exit and the execution of children are modelled; what the other calls leave in
  the tables of a program is up to the environment (\<^verbatim>\<open>GuestResources\<close>), and its release calls the
  services that are not modelled by recording the call in the log.

  Program files. The loader is modelled beside the process service, whose environment says what
  loading a path answers: the calls of the loader into the file service and the allocator are part of
  the model of the loader, not of the process runs. Sizes have the 32 bits of the board.

  Not modelled: the rest of the ELF call table and the network service; the display overlays, audio,
  camera and the platform backends, which are hardware access and threads; the runtime loop, which
  is calls into these; the SDK, the applications and the vendored programs under \<^verbatim>\<open>src/apps\<close>, which run on top of the kernel.
\<close>

end
